(* ===== verification/Errors.thy ===== *)
theory Errors
  imports Prelude
begin

text \<open>
  The error contract of the system (\<open>common/exceptions.py\<close>): the stable error codes, the
  detail record that crosses the Worker boundary, the redaction of Worker errors
  (\<open>public_task_error\<close>) and the HTTP status of a code.  \<open>exn\<close> collects the exceptions
  that the modelled code raises: the built-in Python classes it catches or lets escape, the
  engine's own exceptions, and \<open>DistributedSQLError\<close> with its payload.
\<close>

section \<open>Error codes and details\<close>

datatype error_code =
    SYNTAX_ERROR | BINDING_ERROR | NOT_FOUND | CONFLICT | INVALID_REQUEST | LEASE_REJECTED
  | RESOURCE_EXHAUSTED | TASK_FAILED | SERVICE_UNAVAILABLE | INTERNAL_ERROR

text \<open>Context values are JSON scalars; the code stores strings, integers, \<open>None\<close> and lists.\<close>

datatype ctx_value = CStr string | CInt int | CNull | CList "ctx_value list"

type_synonym err_context = "(string, ctx_value) dict"

record error_detail =
  ed_code :: error_code
  ed_message :: string
  ed_context :: err_context

text \<open>\<open>DistributedSQLError\<close>: code, message, HTTP status and context.\<close>

record domain_error =
  de_code :: error_code
  de_message :: string
  de_status :: int
  de_context :: err_context

datatype exn =
    PyTypeError | PyValueError | PyKeyError | PyIndexError | PyZeroDivisionError
  | PyOverflowError | PyInvalidOperation | PyRuntimeError | PyAssertionError | PyOSError int
  | PyAttributeError
  | PyTimeoutError | AsyncCancelled | ExecutionCancelled | MemoryLimitExceeded
  | WorkerLostError | CancellationConfirmationError | DomainError domain_error

type_synonym 'a res = "exn + 'a"

definition raise_domain :: "error_code \<Rightarrow> string \<Rightarrow> int \<Rightarrow> err_context \<Rightarrow> exn" where
  "raise_domain code msg status ctx =
     DomainError \<lparr>de_code = code, de_message = msg, de_status = status, de_context = ctx\<rparr>"

text \<open>\<open>DistributedSQLError.as_response\<close>: the body of the HTTP error envelope.\<close>

definition as_response :: "domain_error \<Rightarrow> error_detail" where
  "as_response e =
     \<lparr>ed_code = de_code e, ed_message = de_message e, ed_context = de_context e\<rparr>"

text \<open>The built-in classes below \<open>ArithmeticError\<close>, and the tuple the optimizer catches.\<close>

fun is_arithmetic_error :: "exn \<Rightarrow> bool" where
  "is_arithmetic_error PyZeroDivisionError = True"
| "is_arithmetic_error PyOverflowError = True"
| "is_arithmetic_error PyInvalidOperation = True"
| "is_arithmetic_error _ = False"

definition is_foldable_error :: "exn \<Rightarrow> bool" where
  "is_foldable_error e \<longleftrightarrow> is_arithmetic_error e \<or> e = PyTypeError \<or> e = PyValueError"

section \<open>Redaction of Worker errors\<close>

definition public_context_keys :: "string list" where
  "public_context_keys =
     [''alias'', ''attempt_count'', ''attempt_id'', ''candidates'', ''column'',
      ''column_name'', ''column_names'', ''column_count'', ''end'', ''expression_type'',
      ''failure_kind'', ''format'', ''function'', ''limit_bytes'', ''line'', ''namespace'',
      ''partition'', ''partition_count'', ''query_id'', ''requested_bytes'', ''stage_id'',
      ''start'', ''statement_count'', ''table'', ''task_id'', ''worker_id'']"

fun public_task_message :: "error_code \<Rightarrow> string" where
  "public_task_message SYNTAX_ERROR = ''Worker SQL syntax validation failed.''"
| "public_task_message BINDING_ERROR = ''Worker SQL binding failed.''"
| "public_task_message NOT_FOUND = ''Worker Task input was not found.''"
| "public_task_message CONFLICT = ''Worker Task state conflicts with the request.''"
| "public_task_message INVALID_REQUEST = ''Worker Task input is invalid.''"
| "public_task_message LEASE_REJECTED = ''Worker lease was rejected.''"
| "public_task_message RESOURCE_EXHAUSTED = ''Worker resources were exhausted.''"
| "public_task_message TASK_FAILED = ''Worker Task execution failed.''"
| "public_task_message SERVICE_UNAVAILABLE = ''Worker service is unavailable.''"
| "public_task_message INTERNAL_ERROR = ''Worker encountered an internal error.''"

definition public_items :: "err_context \<Rightarrow> err_context" where
  "public_items ctx = filter (\<lambda>(k, _). k \<in> set public_context_keys) ctx"

definition public_task_error :: "exn \<Rightarrow> err_context \<Rightarrow> error_detail" where
  "public_task_error exc context =
     (let (code, message, source_context) =
        (case exc of
           DomainError d \<Rightarrow> (de_code d, public_task_message (de_code d), de_context d)
         | _ \<Rightarrow> (TASK_FAILED, ''Worker Task execution failed.'', []))
      in \<lparr>ed_code = code, ed_message = message,
          ed_context = dict_update (public_items source_context) (public_items context)\<rparr>)"

text \<open>\<open>status_code_for_error\<close>: the HTTP status of a remotely reconstructed error.\<close>

fun status_code_for_error :: "error_code \<Rightarrow> int" where
  "status_code_for_error NOT_FOUND = 404"
| "status_code_for_error CONFLICT = 409"
| "status_code_for_error INVALID_REQUEST = 422"
| "status_code_for_error LEASE_REJECTED = 403"
| "status_code_for_error RESOURCE_EXHAUSTED = 507"
| "status_code_for_error TASK_FAILED = 500"
| "status_code_for_error SERVICE_UNAVAILABLE = 503"
| "status_code_for_error INTERNAL_ERROR = 500"
| "status_code_for_error _ = 400"

section \<open>What a redacted error can reveal\<close>

lemma keys_public_items: "fst ` set (public_items ctx) = fst ` set ctx \<inter> set public_context_keys"
  by (force simp: public_items_def)

lemma keys_public_task_error:
  "fst ` set (ed_context (public_task_error exc context)) \<subseteq> set public_context_keys"
  by (auto simp: public_task_error_def keys_dict_update keys_public_items Let_def
      split: exn.splits)

text \<open>Two errors that differ only in what is private are redacted to the same detail.\<close>

definition same_public :: "exn \<Rightarrow> exn \<Rightarrow> bool" where
  "same_public e e' \<longleftrightarrow>
     (case (e, e') of
        (DomainError d, DomainError d') \<Rightarrow>
          de_code d = de_code d' \<and> public_items (de_context d) = public_items (de_context d')
      | (DomainError d, _) \<Rightarrow> False
      | (_, DomainError d') \<Rightarrow> False
      | _ \<Rightarrow> True)"

lemma public_task_error_same_public:
  "same_public e e' \<Longrightarrow> public_task_error e ctx = public_task_error e' ctx"
  by (cases e; cases e') (simp_all add: same_public_def public_task_error_def)

text \<open>
  C21.  Whatever exception a Worker task raises, the error detail sent to the Coordinator
  carries only context keys of the public allow-list and a message that is fixed by the
  error code alone: neither the exception's own text nor a private context entry crosses
  the boundary, and an exception that is not a domain error is reported as \<open>TASK_FAILED\<close>.
\<close>

theorem public_task_error_redacts:
  "fst ` set (ed_context (public_task_error exc ctx)) \<subseteq> set public_context_keys
   \<and> ed_message (public_task_error exc ctx) = public_task_message (ed_code (public_task_error exc ctx))
   \<and> ed_code (public_task_error exc ctx)
       = (case exc of DomainError d \<Rightarrow> de_code d | _ \<Rightarrow> TASK_FAILED)"
  using keys_public_task_error [of exc ctx]
  by (cases exc) (simp_all add: public_task_error_def)

end
