(* ===== verification/Values.thy ===== *)
theory Values
  imports Errors "HOL-Library.Product_Lexorder"
begin

text \<open>
  The scalar values that flow through expressions and operators (\<open>SQLValue\<close> of
  \<open>planner/expressions.py\<close>), with the parts of Python's data model the engine relies on:
  equality across the numeric classes, ordering that raises \<open>TypeError\<close> between unrelated
  classes, truth, \<open>str\<close>, \<open>int\<close>, \<open>float\<close> and \<open>Decimal\<close> conversions and the arithmetic
  operators.  Binary64 arithmetic, correct rounding, decimal-context arithmetic and the
  textual forms of floats, bytes and dates belong to the interpreter; they are the fields of
  \<open>py_runtime\<close>, an argument of every definition that needs them.
\<close>

section \<open>Values\<close>

text \<open>A Python \<open>float\<close>: \<open>Fin r\<close> is a finite number other than the negative zero.\<close>

datatype pyfloat = NaN | PosInf | NegInf | NegZero | Fin rat

datatype sql_value =
    VNull | VBool bool | VInt int | VFloat pyfloat
  | VDecimal int int  \<comment> \<open>a finite \<open>Decimal\<close>: coefficient and exponent\<close>
  | VStr string | VBytes string
  | VDate int         \<comment> \<open>days\<close>
  | VTimestamp int    \<comment> \<open>microseconds of a naive \<open>datetime\<close>\<close>

datatype binary_operator =
    ADD | SUBTRACT | MULTIPLY | DIVIDE | MODULO | EQUAL | NOT_EQUAL | LESS_THAN
  | LESS_THAN_OR_EQUAL | GREATER_THAN | GREATER_THAN_OR_EQUAL | OP_AND | OP_OR

datatype unary_operator = OP_NOT | NEGATE

record py_runtime =
  rt_float_repr :: "pyfloat \<Rightarrow> string"
  rt_bytes_repr :: "string \<Rightarrow> string"
  rt_date_str :: "int \<Rightarrow> string"
  rt_ts_str :: "int \<Rightarrow> string"
  rt_parse_int :: "string \<Rightarrow> int option"
  rt_parse_float :: "string \<Rightarrow> pyfloat option"
  rt_parse_decimal :: "string \<Rightarrow> (int \<times> int) option"
  rt_parse_date :: "string \<Rightarrow> int option"
  rt_parse_ts :: "string \<Rightarrow> int option"
  rt_float_of_rat :: "rat \<Rightarrow> pyfloat"
  rt_float_op :: "binary_operator \<Rightarrow> pyfloat \<Rightarrow> pyfloat \<Rightarrow> pyfloat"
  rt_float_neg :: "pyfloat \<Rightarrow> pyfloat"
  rt_decimal_op :: "binary_operator \<Rightarrow> int \<times> int \<Rightarrow> int \<times> int \<Rightarrow> (int \<times> int) option"
  rt_decimal_plus :: "int \<times> int \<Rightarrow> int \<times> int"
  rt_round_float :: "pyfloat \<Rightarrow> int \<Rightarrow> sql_value"
  rt_round_decimal :: "int \<times> int \<Rightarrow> int \<Rightarrow> sql_value"
  rt_upper :: "string \<Rightarrow> string"
  rt_lower :: "string \<Rightarrow> string"

section \<open>Equality and ordering\<close>

datatype num = NNaN | NNegInf | NRat rat | NPosInf

definition pow10 :: "int \<Rightarrow> rat" where
  "pow10 e = (if 0 \<le> e then 10 ^ nat e else 1 / 10 ^ nat (- e))"

definition decimal_rat :: "int \<Rightarrow> int \<Rightarrow> rat" where
  "decimal_rat c e = of_int c * pow10 e"

fun num_of :: "sql_value \<Rightarrow> num option" where
  "num_of (VBool b) = Some (NRat (if b then 1 else 0))"
| "num_of (VInt i) = Some (NRat (of_int i))"
| "num_of (VFloat NaN) = Some NNaN"
| "num_of (VFloat PosInf) = Some NPosInf"
| "num_of (VFloat NegInf) = Some NNegInf"
| "num_of (VFloat NegZero) = Some (NRat 0)"
| "num_of (VFloat (Fin r)) = Some (NRat r)"
| "num_of (VDecimal c e) = Some (NRat (decimal_rat c e))"
| "num_of _ = None"

fun num_eq :: "num \<Rightarrow> num \<Rightarrow> bool" where
  "num_eq NNaN _ = False"
| "num_eq _ NNaN = False"
| "num_eq x y = (x = y)"

fun num_lt :: "num \<Rightarrow> num \<Rightarrow> bool" where
  "num_lt NNegInf NPosInf = True"
| "num_lt NNegInf (NRat _) = True"
| "num_lt (NRat _) NPosInf = True"
| "num_lt (NRat x) (NRat y) = (x < y)"
| "num_lt _ _ = False"

text \<open>\<open>left == right\<close>: numbers compare by value across classes, \<open>nan\<close> equals nothing.\<close>

definition py_eq :: "sql_value \<Rightarrow> sql_value \<Rightarrow> bool" where
  "py_eq a b = (case (num_of a, num_of b) of
      (Some x, Some y) \<Rightarrow> num_eq x y
    | (None, None) \<Rightarrow> a = b
    | _ \<Rightarrow> False)"

definition is_nan :: "sql_value \<Rightarrow> bool" where
  "is_nan v \<longleftrightarrow> v = VFloat NaN"

fun is_decimal :: "sql_value \<Rightarrow> bool" where
  "is_decimal (VDecimal c e) = True"
| "is_decimal _ = False"

text \<open>\<open>left < right\<close>: a \<open>Decimal\<close> signals when it is ordered with \<open>nan\<close>.\<close>

definition py_lt :: "sql_value \<Rightarrow> sql_value \<Rightarrow> bool res" where
  "py_lt a b = (if is_decimal a \<and> is_nan b \<or> is_nan a \<and> is_decimal b then Inl PyInvalidOperation
    else case (num_of a, num_of b) of
      (Some x, Some y) \<Rightarrow> Inr (num_lt x y)
    | _ \<Rightarrow> (case (a, b) of
        (VStr s, VStr t) \<Rightarrow> Inr (s < t)
      | (VBytes s, VBytes t) \<Rightarrow> Inr (s < t)
      | (VDate d, VDate d') \<Rightarrow> Inr (d < d')
      | (VTimestamp d, VTimestamp d') \<Rightarrow> Inr (d < d')
      | _ \<Rightarrow> Inl PyTypeError))"

definition py_le :: "sql_value \<Rightarrow> sql_value \<Rightarrow> bool res" where
  "py_le a b = bindR (py_lt a b) (\<lambda>l. Inr (l \<or> py_eq a b))"

text \<open>
  A linearly ordered key type: every value other than \<open>None\<close> and \<open>nan\<close> has a key, keys of
  one class are ordered as the values are, and equal values have equal keys.
\<close>

datatype okey = OKey (ok_class: nat) (ok_num: rat) (ok_str: string) (ok_int: int)

instantiation okey :: linorder
begin

definition less_eq_okey :: "okey \<Rightarrow> okey \<Rightarrow> bool" where
  "less_eq_okey x y \<longleftrightarrow>
     (ok_class x, ok_num x, ok_str x, ok_int x) \<le> (ok_class y, ok_num y, ok_str y, ok_int y)"

definition less_okey :: "okey \<Rightarrow> okey \<Rightarrow> bool" where
  "less_okey x y \<longleftrightarrow>
     (ok_class x, ok_num x, ok_str x, ok_int x) < (ok_class y, ok_num y, ok_str y, ok_int y)"

instance
  by intro_classes (auto simp: less_eq_okey_def less_okey_def intro: okey.expand)

end

fun vkey :: "sql_value \<Rightarrow> okey option" where
  "vkey VNull = None"
| "vkey (VStr s) = Some (OKey 3 0 s 0)"
| "vkey (VBytes s) = Some (OKey 4 0 s 0)"
| "vkey (VDate d) = Some (OKey 5 0 [] d)"
| "vkey (VTimestamp d) = Some (OKey 6 0 [] d)"
| "vkey v = (case num_of v of
      Some NNegInf \<Rightarrow> Some (OKey 0 0 [] 0)
    | Some (NRat r) \<Rightarrow> Some (OKey 1 r [] 0)
    | Some NPosInf \<Rightarrow> Some (OKey 2 0 [] 0)
    | _ \<Rightarrow> None)"

text \<open>The class of a value: values of one class can be compared with each other.\<close>

fun kind :: "sql_value \<Rightarrow> nat" where
  "kind VNull = 9"
| "kind (VStr s) = 3"
| "kind (VBytes s) = 4"
| "kind (VDate d) = 5"
| "kind (VTimestamp d) = 6"
| "kind v = 1"

lemma num_of_Some_kind: "num_of v \<noteq> None \<longleftrightarrow> kind v = 1"
proof (cases v)
  case (VFloat f)
  then show ?thesis by (cases f) auto
qed auto

lemma vkey_None: "vkey v = None \<longleftrightarrow> v = VNull \<or> is_nan v"
proof (cases v)
  case (VFloat f)
  then show ?thesis by (cases f) (auto simp: is_nan_def)
qed (auto simp: is_nan_def)

lemma vkey_class: "vkey v = Some k \<Longrightarrow> ok_class k = (if kind v = 1 then ok_class k else kind v) \<and> (kind v = 1 \<longrightarrow> ok_class k \<le> 2)"
proof (cases v)
  case (VFloat f)
  then show "vkey v = Some k \<Longrightarrow> ?thesis" by (cases f) auto
qed auto

fun num_key :: "num \<Rightarrow> okey option" where
  "num_key NNaN = None"
| "num_key NNegInf = Some (OKey 0 0 [] 0)"
| "num_key (NRat r) = Some (OKey 1 r [] 0)"
| "num_key NPosInf = Some (OKey 2 0 [] 0)"

lemma vkey_num: "num_of v = Some x \<Longrightarrow> vkey v = num_key x"
proof (cases v)
  case (VFloat f)
  then show "num_of v = Some x \<Longrightarrow> ?thesis" by (cases f) auto
qed auto

lemma num_of_None_cases:
  assumes "num_of v = None"
  obtains "v = VNull" | s where "v = VStr s" | s where "v = VBytes s"
    | d where "v = VDate d" | d where "v = VTimestamp d"
  using assms
proof (cases v)
  case (VFloat f)
  with assms show ?thesis by (cases f) auto
qed auto

lemma num_key_eq: "num_key x = Some k \<Longrightarrow> num_eq x y \<longleftrightarrow> num_key y = Some k"
  by (cases x; cases y) auto

lemma num_key_lt: "num_key x = Some k \<Longrightarrow> num_key y = Some l \<Longrightarrow> num_lt x y \<longleftrightarrow> k < l"
  by (cases x; cases y) (auto simp: less_okey_def)

lemma num_key_class: "num_key x = Some k \<Longrightarrow> ok_class k \<le> 2"
  by (cases x) auto

lemma py_eq_vkey:
  assumes "vkey a = Some k"
  shows "py_eq a b \<longleftrightarrow> vkey b = Some k"
proof (cases "num_of a")
  case None
  then show ?thesis
  proof (cases "num_of b")
    case (Some y)
    with None assms show ?thesis
      using num_key_class [of y k]
      by (cases rule: num_of_None_cases [OF None]) (auto simp: py_eq_def vkey_num)
  next
    case nb: None
    show ?thesis
      using None nb assms
      by (cases rule: num_of_None_cases [OF None]; cases rule: num_of_None_cases [OF nb])
        (auto simp: py_eq_def)
  qed
next
  case (Some x)
  then show ?thesis
  proof (cases "num_of b")
    case None
    show ?thesis
      using None Some assms num_key_class [of x k]
      by (cases rule: num_of_None_cases [OF None]) (auto simp: py_eq_def vkey_num)
  next
    case (Some y)
    with \<open>num_of a = Some x\<close> assms show ?thesis
      by (simp add: py_eq_def vkey_num num_key_eq)
  qed
qed

lemma py_lt_vkey:
  assumes "vkey a = Some k" and "vkey b = Some l" and "kind a = kind b"
  shows "py_lt a b = Inr (k < l)"
proof -
  have nan: "\<not> is_nan a" "\<not> is_nan b" using vkey_None [of a] vkey_None [of b] assms(1,2) by simp_all
  show ?thesis
  proof (cases "num_of a")
    case None
    then have none: "num_of b = None"
      using assms(3) num_of_Some_kind [of a] num_of_Some_kind [of b] by auto
    have "\<not> is_decimal a" using None by (cases a) simp_all
    moreover have "\<not> is_decimal b" using none by (cases b) simp_all
    ultimately show ?thesis
      using None assms
      by (cases rule: num_of_None_cases [OF None]; cases rule: num_of_None_cases [OF none])
        (auto simp: py_lt_def less_okey_def)
  next
    case (Some x)
    then obtain y where y: "num_of b = Some y"
      using assms(3) num_of_Some_kind [of a] num_of_Some_kind [of b] by auto
    with Some assms show ?thesis
      by (simp add: py_lt_def nan vkey_num num_key_lt)
  qed
qed

lemma py_eq_kind: "py_eq a b \<Longrightarrow> kind a = kind b"
proof (rule ccontr)
  assume e: "py_eq a b" and "kind a \<noteq> kind b"
  then have "\<not> (kind a = 1 \<and> kind b = 1)" by simp
  with e show False
    using num_of_Some_kind [of a] num_of_Some_kind [of b] \<open>kind a \<noteq> kind b\<close>
    by (auto simp: py_eq_def split: option.splits)
qed

lemma num_eq_sym: "num_eq x y = num_eq y x"
  by (cases x; cases y) auto

lemma py_eq_sym: "py_eq a b = py_eq b a"
  by (auto simp: py_eq_def num_eq_sym split: option.splits)

lemma py_eq_refl [simp]: "\<not> is_nan a \<Longrightarrow> py_eq a a"
  by (cases "vkey a") (auto simp: vkey_None py_eq_vkey, simp add: py_eq_def)

lemma py_eq_trans: "py_eq a b \<Longrightarrow> py_eq b c \<Longrightarrow> py_eq a c"
proof -
  have nn: "num_eq x y \<Longrightarrow> num_eq y z \<Longrightarrow> num_eq x z" for x y z
    by (cases x; cases y; cases z) auto
  show "py_eq a b \<Longrightarrow> py_eq b c \<Longrightarrow> py_eq a c"
    by (auto simp: py_eq_def intro: nn split: option.splits)
qed

lemma py_eq_nan [simp]: "\<not> py_eq (VFloat NaN) v" "\<not> py_eq v (VFloat NaN)"
proof -
  have "\<not> num_eq x NNaN" for x by (cases x) auto
  then show "\<not> py_eq (VFloat NaN) v" "\<not> py_eq v (VFloat NaN)"
    by (auto simp: py_eq_def split: option.splits)
qed

lemma py_eq_null [simp]: "py_eq VNull v \<longleftrightarrow> v = VNull" "py_eq v VNull \<longleftrightarrow> v = VNull"
proof -
  show "py_eq VNull v \<longleftrightarrow> v = VNull"
    by (auto simp: py_eq_def split: option.splits)
  then show "py_eq v VNull \<longleftrightarrow> v = VNull"
    by (simp add: py_eq_sym)
qed

section \<open>Truth, text and conversions\<close>

fun truthy :: "sql_value \<Rightarrow> bool" where
  "truthy VNull = False"
| "truthy (VBool b) = b"
| "truthy (VInt i) = (i \<noteq> 0)"
| "truthy (VFloat f) = (f \<noteq> Fin 0 \<and> f \<noteq> NegZero)"
| "truthy (VDecimal c e) = (c \<noteq> 0)"
| "truthy (VStr s) = (s \<noteq> [])"
| "truthy (VBytes s) = (s \<noteq> [])"
| "truthy (VDate d) = True"
| "truthy (VTimestamp d) = True"

text \<open>\<open>Decimal.__str__\<close>: plain notation while the adjusted exponent is above \<open>-7\<close>.\<close>

definition decimal_str :: "int \<Rightarrow> int \<Rightarrow> string" where
  "decimal_str c e =
     (let digits = show_nat (nat \<bar>c\<bar>);
          n = int (length digits);
          left = e + n;
          dot = (if e \<le> 0 \<and> left > -6 then left else 1);
          intpart = (if dot \<le> 0 then ''0''
                     else if dot \<ge> n then digits @ replicate (nat (dot - n)) (CHR ''0'')
                     else take (nat dot) digits);
          frac = (if dot \<le> 0 then ''.'' @ replicate (nat (- dot)) (CHR ''0'') @ digits
                  else if dot \<ge> n then ''''
                  else ''.'' @ drop (nat dot) digits);
          expo = (if left = dot then ''''
                  else ''E'' @ (if left - dot < 0 then '''' else ''+'') @ show_int (left - dot))
      in (if c < 0 then ''-'' else '''') @ intpart @ frac @ expo)"

fun py_str :: "py_runtime \<Rightarrow> sql_value \<Rightarrow> string" where
  "py_str rt VNull = ''None''"
| "py_str rt (VBool b) = (if b then ''True'' else ''False'')"
| "py_str rt (VInt i) = show_int i"
| "py_str rt (VFloat f) = rt_float_repr rt f"
| "py_str rt (VDecimal c e) = decimal_str c e"
| "py_str rt (VStr s) = s"
| "py_str rt (VBytes s) = rt_bytes_repr rt s"
| "py_str rt (VDate d) = rt_date_str rt d"
| "py_str rt (VTimestamp d) = rt_ts_str rt d"

definition some_or :: "exn \<Rightarrow> 'a option \<Rightarrow> 'a res" where
  "some_or e x = (case x of None \<Rightarrow> Inl e | Some v \<Rightarrow> Inr v)"

definition rat_trunc :: "rat \<Rightarrow> int" where
  "rat_trunc r = (if 0 \<le> r then \<lfloor>r\<rfloor> else \<lceil>r\<rceil>)"

fun py_int :: "py_runtime \<Rightarrow> sql_value \<Rightarrow> int res" where
  "py_int rt (VBool b) = Inr (if b then 1 else 0)"
| "py_int rt (VInt i) = Inr i"
| "py_int rt (VFloat NaN) = Inl PyValueError"
| "py_int rt (VFloat PosInf) = Inl PyOverflowError"
| "py_int rt (VFloat NegInf) = Inl PyOverflowError"
| "py_int rt (VFloat NegZero) = Inr 0"
| "py_int rt (VFloat (Fin r)) = Inr (rat_trunc r)"
| "py_int rt (VDecimal c e) = Inr (rat_trunc (decimal_rat c e))"
| "py_int rt (VStr s) = some_or PyValueError (rt_parse_int rt s)"
| "py_int rt (VBytes s) = some_or PyValueError (rt_parse_int rt s)"
| "py_int rt _ = Inl PyTypeError"

text \<open>An integer or a quotient of integers that is too large raises \<open>OverflowError\<close>.\<close>

definition rat_float :: "py_runtime \<Rightarrow> rat \<Rightarrow> pyfloat res" where
  "rat_float rt r = (case rt_float_of_rat rt r of
      PosInf \<Rightarrow> Inl PyOverflowError | NegInf \<Rightarrow> Inl PyOverflowError | f \<Rightarrow> Inr f)"

fun py_float :: "py_runtime \<Rightarrow> sql_value \<Rightarrow> pyfloat res" where
  "py_float rt (VBool b) = rat_float rt (if b then 1 else 0)"
| "py_float rt (VInt i) = rat_float rt (of_int i)"
| "py_float rt (VFloat f) = Inr f"
| "py_float rt (VDecimal c e) = Inr (rt_float_of_rat rt (decimal_rat c e))"
| "py_float rt (VStr s) = some_or PyValueError (rt_parse_float rt s)"
| "py_float rt (VBytes s) = some_or PyValueError (rt_parse_float rt s)"
| "py_float rt _ = Inl PyTypeError"

text \<open>\<open>Decimal(str(value))\<close>.\<close>

definition py_decimal_of_str :: "py_runtime \<Rightarrow> sql_value \<Rightarrow> (int \<times> int) res" where
  "py_decimal_of_str rt v = (case v of
      VDecimal c e \<Rightarrow> Inr (c, e)
    | VInt i \<Rightarrow> Inr (i, 0)
    | _ \<Rightarrow> some_or PyInvalidOperation (rt_parse_decimal rt (py_str rt v)))"

section \<open>Arithmetic\<close>

fun is_float :: "sql_value \<Rightarrow> bool" where
  "is_float (VFloat f) = True"
| "is_float _ = False"

fun int_of :: "sql_value \<Rightarrow> int option" where
  "int_of (VBool b) = Some (if b then 1 else 0)"
| "int_of (VInt i) = Some i"
| "int_of _ = None"

text \<open>The operators on two \<open>Decimal\<close>s, on two \<open>float\<close>s and on two \<open>int\<close>s.\<close>

definition decimal_arith ::
    "py_runtime \<Rightarrow> binary_operator \<Rightarrow> int \<times> int \<Rightarrow> int \<times> int \<Rightarrow> sql_value res" where
  "decimal_arith rt op l r =
     (if op = DIVIDE \<and> fst r = 0
      then Inl (if fst l = 0 then PyInvalidOperation else PyZeroDivisionError)
      else if op = MODULO \<and> fst r = 0 then Inl PyInvalidOperation
      else case rt_decimal_op rt op l r of
             None \<Rightarrow> Inl PyInvalidOperation
           | Some (c, e) \<Rightarrow> Inr (VDecimal c e))"

definition float_arith ::
    "py_runtime \<Rightarrow> binary_operator \<Rightarrow> pyfloat \<Rightarrow> pyfloat \<Rightarrow> sql_value res" where
  "float_arith rt op l r =
     (if op \<in> {DIVIDE, MODULO} \<and> r \<in> {Fin 0, NegZero} then Inl PyZeroDivisionError
      else Inr (VFloat (rt_float_op rt op l r)))"

fun int_arith :: "py_runtime \<Rightarrow> binary_operator \<Rightarrow> int \<Rightarrow> int \<Rightarrow> sql_value res" where
  "int_arith rt ADD l r = Inr (VInt (l + r))"
| "int_arith rt SUBTRACT l r = Inr (VInt (l - r))"
| "int_arith rt MULTIPLY l r = Inr (VInt (l * r))"
| "int_arith rt DIVIDE l r =
     (if r = 0 then Inl PyZeroDivisionError
      else bindR (rat_float rt (of_int l / of_int r)) (\<lambda>f. Inr (VFloat f)))"
| "int_arith rt _ l r = (if r = 0 then Inl PyZeroDivisionError else Inr (VInt (l mod r)))"

text \<open>
  The operators on the remaining classes: concatenation and repetition of text; every other
  pair has no operator.  (The binder admits numeric operands only.)
\<close>

fun repeat_text :: "sql_value \<Rightarrow> int \<Rightarrow> sql_value res" where
  "repeat_text (VStr s) n = Inr (VStr (concat (replicate (nat n) s)))"
| "repeat_text (VBytes s) n = Inr (VBytes (concat (replicate (nat n) s)))"
| "repeat_text _ n = Inl PyTypeError"

definition other_arith :: "binary_operator \<Rightarrow> sql_value \<Rightarrow> sql_value \<Rightarrow> sql_value res" where
  "other_arith op l r = (case op of
      ADD \<Rightarrow> (case l of
          VStr s \<Rightarrow> (case r of VStr t \<Rightarrow> Inr (VStr (s @ t)) | _ \<Rightarrow> Inl PyTypeError)
        | VBytes s \<Rightarrow> (case r of VBytes t \<Rightarrow> Inr (VBytes (s @ t)) | _ \<Rightarrow> Inl PyTypeError)
        | _ \<Rightarrow> Inl PyTypeError)
    | MULTIPLY \<Rightarrow> (case int_of r of
          Some n \<Rightarrow> repeat_text l n
        | None \<Rightarrow> (case int_of l of Some n \<Rightarrow> repeat_text r n | None \<Rightarrow> Inl PyTypeError))
    | _ \<Rightarrow> Inl PyTypeError)"

text \<open>\<open>_numeric_operation\<close> of \<open>planner/expressions.py\<close>.\<close>

definition numeric_operation ::
    "py_runtime \<Rightarrow> sql_value \<Rightarrow> sql_value \<Rightarrow> binary_operator \<Rightarrow> sql_value res" where
  "numeric_operation rt l r op =
     (if is_decimal l \<or> is_decimal r then
        bindR (py_decimal_of_str rt l) (\<lambda>a. bindR (py_decimal_of_str rt r) (\<lambda>b.
          decimal_arith rt op a b))
      else if is_float l \<or> is_float r then
        bindR (py_float rt l) (\<lambda>a. bindR (py_float rt r) (\<lambda>b. float_arith rt op a b))
      else case (int_of l, int_of r) of
          (Some a, Some b) \<Rightarrow> int_arith rt op a b
        | _ \<Rightarrow> other_arith op l r)"

lemma numeric_operation_ints [simp]:
  "numeric_operation rt (VInt a) (VInt b) op = int_arith rt op a b"
  by (simp add: numeric_operation_def)

end
