(* ===== verification/SqlTypes.thy ===== *)
theory SqlTypes
  imports Values
begin

text \<open>
  The protocol's data types and schemas (\<open>common/protocol.py\<close>) and the planner's type rules
  (\<open>planner/types.py\<close>): the type of a literal, the common type of two operands, and the
  implicit-cast relation, with the algebra that type inference relies on.
\<close>

section \<open>Data types and schemas\<close>

datatype data_type =
    T_NULL | T_BOOLEAN | T_INT32 | T_INT64 | T_FLOAT32 | T_FLOAT64 | T_DECIMAL | T_STRING
  | T_BINARY | T_DATE | T_TIMESTAMP | T_LIST | T_STRUCT

fun data_type_value :: "data_type \<Rightarrow> string" where
  "data_type_value T_NULL = ''null''"
| "data_type_value T_BOOLEAN = ''boolean''"
| "data_type_value T_INT32 = ''int32''"
| "data_type_value T_INT64 = ''int64''"
| "data_type_value T_FLOAT32 = ''float32''"
| "data_type_value T_FLOAT64 = ''float64''"
| "data_type_value T_DECIMAL = ''decimal''"
| "data_type_value T_STRING = ''string''"
| "data_type_value T_BINARY = ''binary''"
| "data_type_value T_DATE = ''date''"
| "data_type_value T_TIMESTAMP = ''timestamp''"
| "data_type_value T_LIST = ''list''"
| "data_type_value T_STRUCT = ''struct''"

text \<open>\<open>SchemaField\<close>, with its string metadata and its children for nested types.\<close>

datatype schema_field = SchemaField
  (sf_name: string) (sf_type: data_type) (sf_nullable: bool)
  (sf_metadata: "(string, string) dict") (sf_children: "schema_field list")

record schema =
  sc_fields :: "schema_field list"
  sc_metadata :: "(string, string) dict"

definition plain_field :: "string \<Rightarrow> data_type \<Rightarrow> bool \<Rightarrow> schema_field" where
  "plain_field name ty nullable = SchemaField name ty nullable [] []"

text \<open>The validator \<open>field_names_are_unique\<close>, run whenever a \<open>Schema\<close> is built.\<close>

definition make_schema :: "schema_field list \<Rightarrow> (string, string) dict \<Rightarrow> schema res" where
  "make_schema fs meta =
     (if length (map sf_name fs) \<noteq> card (set (map sf_name fs)) then Inl PyValueError
      else Inr \<lparr>sc_fields = fs, sc_metadata = meta\<rparr>)"

lemma make_schema_ok: "make_schema fs meta = Inr s \<longleftrightarrow>
    distinct (map sf_name fs) \<and> s = \<lparr>sc_fields = fs, sc_metadata = meta\<rparr>"
proof -
  have "length (map sf_name fs) = card (set (map sf_name fs)) \<longleftrightarrow> distinct (map sf_name fs)"
    by (metis card_distinct distinct_card)
  then show ?thesis by (auto simp: make_schema_def)
qed

section \<open>Type inference\<close>

record type_info =
  ti_type :: data_type
  ti_nullable :: bool

definition TypeInfo :: "data_type \<Rightarrow> bool \<Rightarrow> type_info" where
  "TypeInfo ty nullable = \<lparr>ti_type = ty, ti_nullable = nullable\<rparr>"

lemma TypeInfo_sel [simp]:
  "ti_type (TypeInfo t n) = t" "ti_nullable (TypeInfo t n) = n"
  by (simp_all add: TypeInfo_def)

lemma TypeInfo_eta [simp]: "TypeInfo (ti_type i) (ti_nullable i) = i"
  by (cases i) (simp add: TypeInfo_def)

lemma TypeInfo_eq [simp]: "TypeInfo t n = TypeInfo t' n' \<longleftrightarrow> t = t' \<and> n = n'"
  by (auto simp: TypeInfo_def)

fun numeric_precedence :: "data_type \<Rightarrow> nat option" where
  "numeric_precedence T_INT32 = Some 0"
| "numeric_precedence T_INT64 = Some 1"
| "numeric_precedence T_FLOAT32 = Some 2"
| "numeric_precedence T_FLOAT64 = Some 3"
| "numeric_precedence T_DECIMAL = Some 4"
| "numeric_precedence _ = None"

definition is_numeric_type :: "data_type \<Rightarrow> bool" where
  "is_numeric_type t \<longleftrightarrow> numeric_precedence t \<noteq> None"

definition literal_type :: "sql_value \<Rightarrow> type_info" where
  "literal_type v = (case v of
      VNull \<Rightarrow> TypeInfo T_NULL True
    | VBool _ \<Rightarrow> TypeInfo T_BOOLEAN False
    | VInt i \<Rightarrow> TypeInfo (if - (2 ^ 31) \<le> i \<and> i < 2 ^ 31 then T_INT32 else T_INT64) False
    | VFloat _ \<Rightarrow> TypeInfo T_FLOAT64 False
    | VDecimal _ _ \<Rightarrow> TypeInfo T_DECIMAL False
    | VBytes _ \<Rightarrow> TypeInfo T_BINARY False
    | _ \<Rightarrow> TypeInfo T_STRING False)"

definition type_error :: "data_type \<Rightarrow> data_type \<Rightarrow> exn" where
  "type_error l r = raise_domain BINDING_ERROR
     (''Types '' @ data_type_value l @ '' and '' @ data_type_value r @ '' are not compatible.'')
     400
     [(''left_type'', CStr (data_type_value l)), (''right_type'', CStr (data_type_value r))]"

text \<open>\<open>max((l, r), key=precedence)\<close> keeps the first of two equal keys.\<close>

definition max_numeric :: "data_type \<Rightarrow> data_type \<Rightarrow> data_type" where
  "max_numeric l r =
     (if the (numeric_precedence l) < the (numeric_precedence r) then r else l)"

definition common_type :: "type_info \<Rightarrow> type_info \<Rightarrow> type_info res" where
  "common_type left right =
     (let nullable = ti_nullable left \<or> ti_nullable right; l = ti_type left; r = ti_type right in
      if l = T_NULL then Inr (TypeInfo r True)
      else if r = T_NULL then Inr (TypeInfo l True)
      else if l = r then Inr (TypeInfo l nullable)
      else if is_numeric_type l \<and> is_numeric_type r then Inr (TypeInfo (max_numeric l r) nullable)
      else if {l, r} = {T_DATE, T_TIMESTAMP} then Inr (TypeInfo T_TIMESTAMP nullable)
      else Inl (type_error l r))"

definition can_implicitly_cast :: "data_type \<Rightarrow> data_type \<Rightarrow> bool" where
  "can_implicitly_cast source target \<longleftrightarrow>
     (if source = target \<or> source = T_NULL then True
      else if is_numeric_type source \<and> is_numeric_type target
      then the (numeric_precedence source) \<le> the (numeric_precedence target)
      else source = T_DATE \<and> target = T_TIMESTAMP)"

section \<open>The algebra of common types\<close>

lemma numeric_precedence_inj:
  "numeric_precedence a = Some n \<Longrightarrow> numeric_precedence b = Some n \<Longrightarrow> a = b"
  by (cases a; cases b) auto

lemma numeric_precedence_le: "numeric_precedence a = Some n \<Longrightarrow> n \<le> 4"
  by (cases a) auto

lemma can_implicitly_cast_refl [simp]: "can_implicitly_cast t t"
  by (simp add: can_implicitly_cast_def)

lemma can_implicitly_cast_trans:
  "can_implicitly_cast a b \<Longrightarrow> can_implicitly_cast b c \<Longrightarrow> can_implicitly_cast a c"
  by (cases a; cases b; cases c) (simp_all add: can_implicitly_cast_def is_numeric_type_def)

lemma can_implicitly_cast_antisym:
  "can_implicitly_cast a b \<Longrightarrow> can_implicitly_cast b a \<Longrightarrow> a = b"
  by (cases a; cases b) (simp_all add: can_implicitly_cast_def is_numeric_type_def)

lemma date_timestamp_pair:
  "{l, r} = {T_DATE, T_TIMESTAMP} \<longleftrightarrow>
     l = T_DATE \<and> r = T_TIMESTAMP \<or> l = T_TIMESTAMP \<and> r = T_DATE"
  by (auto simp: doubleton_eq_iff)

lemma max_numeric_upper:
  assumes "is_numeric_type l" and "is_numeric_type r"
  shows "is_numeric_type (max_numeric l r) \<and> can_implicitly_cast l (max_numeric l r)
    \<and> can_implicitly_cast r (max_numeric l r) \<and> max_numeric r l = max_numeric l r"
  using assms
  by (cases l; cases r) (simp_all add: max_numeric_def can_implicitly_cast_def is_numeric_type_def)

lemma common_type_types:
  "common_type l r = Inr t \<Longrightarrow>
     can_implicitly_cast (ti_type l) (ti_type t) \<and> can_implicitly_cast (ti_type r) (ti_type t)"
  using max_numeric_upper [of "ti_type l" "ti_type r"]
  by (auto simp: common_type_def Let_def date_timestamp_pair can_implicitly_cast_def split: if_splits)

lemma common_type_least:
  assumes "common_type l r = Inr t"
    and "can_implicitly_cast (ti_type l) u" and "can_implicitly_cast (ti_type r) u"
  shows "can_implicitly_cast (ti_type t) u"
proof -
  have "ti_type t \<in> {ti_type l, ti_type r}"
    using assms(1)
    by (auto simp: common_type_def Let_def date_timestamp_pair max_numeric_def split: if_splits)
  with assms(2,3) show ?thesis by auto
qed

lemma common_type_commute:
  "common_type l r = Inr t \<Longrightarrow> common_type r l = Inr t"
  using max_numeric_upper [of "ti_type l" "ti_type r"]
  by (auto simp: common_type_def Let_def date_timestamp_pair split: if_splits)

lemma common_type_nullable:
  assumes "common_type l r = Inr t"
  shows "ti_nullable t = (ti_nullable l \<or> ti_nullable r \<or> ti_type l = T_NULL \<or> ti_type r = T_NULL)"
proof -
  let ?n = "ti_nullable l \<or> ti_nullable r"
  have "\<exists>ty. t = TypeInfo ty (if ti_type l = T_NULL \<or> ti_type r = T_NULL then True else ?n)"
    using assms unfolding common_type_def Let_def by (simp split: if_split_asm) blast+
  then show ?thesis
    by (cases "ti_type l = T_NULL"; cases "ti_type r = T_NULL") auto
qed

lemma common_type_error:
  assumes "common_type l r = Inl e"
  shows "e = type_error (ti_type l) (ti_type r)" and "ti_type l \<noteq> T_NULL" and "ti_type r \<noteq> T_NULL"
    and "ti_type l \<noteq> ti_type r" and "\<not> (is_numeric_type (ti_type l) \<and> is_numeric_type (ti_type r))"
    and "{ti_type l, ti_type r} \<noteq> {T_DATE, T_TIMESTAMP}"
  using assms by (simp_all add: common_type_def Let_def split: if_splits)

lemma can_implicitly_cast_iff:
  "can_implicitly_cast s t \<longleftrightarrow> s = t \<or> s = T_NULL
     \<or> is_numeric_type s \<and> is_numeric_type t
         \<and> the (numeric_precedence s) \<le> the (numeric_precedence t)
     \<or> s = T_DATE \<and> t = T_TIMESTAMP"
  by (auto simp: can_implicitly_cast_def is_numeric_type_def)

lemma common_type_fails:
  assumes "common_type l r = Inl e"
  shows "\<not> (can_implicitly_cast (ti_type l) u \<and> can_implicitly_cast (ti_type r) u)"
proof -
  have "\<not> is_numeric_type T_TIMESTAMP" and "\<not> is_numeric_type T_DATE"
    by (simp_all add: is_numeric_type_def)
  then show ?thesis
    using common_type_error [OF assms] unfolding can_implicitly_cast_iff date_timestamp_pair by metis
qed

text \<open>
  C22.  The common type of two operands is the least upper bound of their types in the
  implicit-cast order, in either operand order; it is nullable exactly when an operand is
  nullable or has the null type; and it fails, with a \<open>BINDING_ERROR\<close>, exactly when no type
  admits implicit casts from both.
\<close>

theorem common_type_is_join:
  "(case common_type l r of
      Inr t \<Rightarrow> can_implicitly_cast (ti_type l) (ti_type t)
        \<and> can_implicitly_cast (ti_type r) (ti_type t)
        \<and> {u. can_implicitly_cast (ti_type l) u \<and> can_implicitly_cast (ti_type r) u}
            = {u. can_implicitly_cast (ti_type t) u}
        \<and> common_type r l = Inr t
        \<and> ti_nullable t = (ti_nullable l \<or> ti_nullable r
             \<or> ti_type l = T_NULL \<or> ti_type r = T_NULL)
    | Inl e \<Rightarrow> {u. can_implicitly_cast (ti_type l) u \<and> can_implicitly_cast (ti_type r) u} = {}
        \<and> e = type_error (ti_type l) (ti_type r))"
proof (cases "common_type l r")
  case (Inl e)
  then show ?thesis
    using common_type_fails [OF Inl] common_type_error(1) [OF Inl] by simp
next
  case (Inr t)
  then show ?thesis
    using common_type_types [OF Inr] common_type_least [OF Inr] common_type_commute [OF Inr]
      common_type_nullable [OF Inr] can_implicitly_cast_trans
    by (auto simp del: TypeInfo_eq)
qed

end
