(* ===== verification/ExprLaws.thy ===== *)
theory ExprLaws
  imports Exprs
begin

text \<open>
  Laws of expression evaluation: the three-valued connectives, \<open>IN\<close> as a disjunction of
  equalities, \<open>BETWEEN\<close> as a conjunction of comparisons, the declarative meaning of \<open>LIKE\<close>,
  and what a cast to \<open>TIMESTAMP\<close> does to a timestamp.
\<close>

section \<open>Three-valued logic\<close>

text \<open>The truth values of SQL in Kleene's order: false, unknown, true.\<close>

definition is_tri :: "sql_value \<Rightarrow> bool" where
  "is_tri v \<longleftrightarrow> v = VNull \<or> v = VBool True \<or> v = VBool False"

definition tri_rank :: "sql_value \<Rightarrow> nat" where
  "tri_rank v = (if v = VBool False then 0 else if v = VNull then 1 else 2)"

lemma is_tri_cases:
  assumes "is_tri v" obtains "v = VNull" | "v = VBool True" | "v = VBool False"
  using assms by (auto simp: is_tri_def)

lemma tri_rank_inj: "is_tri a \<Longrightarrow> is_tri b \<Longrightarrow> tri_rank a = tri_rank b \<longleftrightarrow> a = b"
  by (auto simp: is_tri_def tri_rank_def)

lemma sql_and_tri: "is_tri (sql_and l r)"
  by (simp add: sql_and_def is_tri_def)

lemma sql_and_rank:
  "is_tri l \<Longrightarrow> is_tri r \<Longrightarrow> tri_rank (sql_and l r) = min (tri_rank l) (tri_rank r)"
  by (elim is_tri_cases) (simp_all add: sql_and_def tri_rank_def)

lemma sql_or_rank:
  "is_tri l \<Longrightarrow> is_tri r \<Longrightarrow> tri_rank (sql_or l r) = max (tri_rank l) (tri_rank r)"
  by (elim is_tri_cases) (simp_all add: sql_or_def tri_rank_def)

lemma sql_and_True: "is_tri l \<Longrightarrow> is_tri r \<Longrightarrow>
    sql_and l r = VBool True \<longleftrightarrow> l = VBool True \<and> r = VBool True"
  by (elim is_tri_cases) (simp_all add: sql_and_def)

lemma not_tri: "is_tri v \<Longrightarrow> \<exists>w. unary_value_of rt OP_NOT v = Inr w \<and> is_tri w \<and> tri_rank w = 2 - tri_rank v"
  by (elim is_tri_cases) (simp_all add: unary_value_of_def is_tri_def tri_rank_def)

text \<open>
  C23.  \<open>AND\<close>, \<open>OR\<close> and \<open>NOT\<close> on SQL truth values are Kleene's three-valued logic: minimum,
  maximum and complement in the order false, unknown, true, with results that are again
  truth values.
\<close>

theorem connectives_are_kleene:
  assumes "is_tri l" and "is_tri r"
  shows "is_tri (sql_and l r) \<and> tri_rank (sql_and l r) = min (tri_rank l) (tri_rank r)
    \<and> is_tri (sql_or l r) \<and> tri_rank (sql_or l r) = max (tri_rank l) (tri_rank r)
    \<and> (\<exists>w. unary_value_of rt OP_NOT l = Inr w \<and> is_tri w \<and> tri_rank w = 2 - tri_rank l)"
  using assms sql_and_rank sql_or_rank not_tri sql_and_tri
  by (simp add: sql_or_def is_tri_def)

theorem connectives_are_kleene_witness:
  "tri_rank (sql_and VNull (VBool False)) = 0 \<and> tri_rank (sql_or VNull (VBool False)) = 1"
proof -
  have "is_tri VNull" and "is_tri (VBool False)" by (simp_all add: is_tri_def)
  from connectives_are_kleene [OF this] show ?thesis
    by (simp add: tri_rank_def)
qed

section \<open>IN and BETWEEN\<close>

text \<open>The value of \<open>x = o1 OR x = o2 OR \<dots>\<close>, folded from the right.\<close>

fun any_equal :: "sql_value \<Rightarrow> sql_value list \<Rightarrow> sql_value" where
  "any_equal v [] = VBool False"
| "any_equal v (w # ws) =
     sql_or (if w = VNull then VNull else VBool (py_eq w v)) (any_equal v ws)"

definition negate_if :: "bool \<Rightarrow> sql_value \<Rightarrow> sql_value" where
  "negate_if negated t = (case t of VBool b \<Rightarrow> VBool (b \<noteq> negated) | _ \<Rightarrow> t)"

lemma any_equal_tri: "is_tri (any_equal v ws)"
  by (cases ws) (simp_all add: is_tri_def sql_or_def)

lemma in_loop_any_equal:
  "in_loop v negated saw (map Inr ws) = Inr (negate_if negated
     (if saw then sql_or VNull (any_equal v ws) else any_equal v ws))"
proof (induction ws arbitrary: saw)
  case Nil
  show ?case by (simp add: negate_if_def sql_or_def)
next
  case (Cons w ws)
  have "is_tri (any_equal v ws)" by (rule any_equal_tri)
  then show ?case
    using Cons.IH by (elim is_tri_cases) (simp_all add: negate_if_def sql_or_def)
qed

text \<open>
  When the tested expression and every option evaluate, \<open>x IN (o1, \<dots>, on)\<close> is the
  three-valued disjunction of the equalities \<open>x = oi\<close>, \<open>x NOT IN\<close> is its negation, and both
  are unknown when \<open>x\<close> is \<open>NULL\<close>; an early match never hides a different answer.
\<close>

theorem in_list_is_disjunction:
  assumes "evaluate rt row e = Inr v"
    and "mapR (evaluate rt row) opts = Inr ws"
  shows "evaluate rt row (InList e opts negated)
    = Inr (if v = VNull then VNull else negate_if negated (any_equal v ws))"
proof -
  from assms(2) have "map (evaluate rt row) opts = map Inr ws"
    by (auto simp: mapR_Inr_iff list_all2_conv_all_nth intro!: nth_equalityI)
  then show ?thesis
    using assms(1) by (simp add: in_loop_any_equal)
qed

definition int_type :: type_info where
  "int_type = TypeInfo T_INT64 True"

theorem in_list_is_disjunction_witness:
  "\<forall>rt. evaluate rt Map.empty
     (InList (Literal (VInt 2) int_type) [Literal VNull int_type, Literal (VInt 3) int_type] True)
   = Inr VNull"
  by (rule allI, subst in_list_is_disjunction [of _ Map.empty "Literal (VInt 2) int_type" "VInt 2"
      "[Literal VNull int_type, Literal (VInt 3) int_type]" "[VNull, VInt 3]"])
    (simp_all add: sql_or_def py_eq_def negate_if_def)

lemma between_conjunction:
  assumes "evaluate rt row e = Inr v" and "evaluate rt row low = Inr lo"
    and "evaluate rt row high = Inr hi"
    and "v \<noteq> VNull" and "lo \<noteq> VNull" and "hi \<noteq> VNull"
    and "py_le lo v = Inr a" and "py_le v hi = Inr b"
  shows "evaluate rt row (Between e low high negated) = Inr (VBool ((a \<and> b) \<noteq> negated))"
  using assms by simp

section \<open>LIKE\<close>

definition part_matches :: "char \<Rightarrow> string \<Rightarrow> bool" where
  "part_matches c part \<longleftrightarrow>
     (if c = CHR ''%'' then True
      else if c = CHR ''_'' then length part = 1
      else part = [c])"

lemma part_matches_any [simp]: "part_matches (CHR ''%'') q"
  by (simp add: part_matches_def)

lemma part_matches_one: "c \<noteq> CHR ''%'' \<Longrightarrow> c = CHR ''_'' \<or> c = d \<Longrightarrow> part_matches c [d]"
  by (auto simp: part_matches_def)

lemma like_match_any:
  "like_match (CHR ''%'' # p) s \<longleftrightarrow>
     like_match p s \<or> (case s of [] \<Rightarrow> False | _ # s' \<Rightarrow> like_match (CHR ''%'' # p) s')"
  by (subst like_match.simps(2)) simp

lemma like_match_sound: "like_match p s \<Longrightarrow> \<exists>parts. list_all2 part_matches p parts \<and> concat parts = s"
proof (induction p s rule: like_match.induct)
  case (1 s)
  then show ?case by simp
next
  case (2 c p s)
  show ?case
  proof (cases "c = CHR ''%''")
    case True
    with "2.prems" consider "like_match p s"
      | d s' where "s = d # s'" and "like_match (c # p) s'"
      using like_match_any [of p s] by (cases s) auto
    then show ?thesis
    proof cases
      case 1
      then obtain parts where "list_all2 part_matches p parts" and "concat parts = s"
        using "2.IH"(1) True by blast
      then show ?thesis
        using True by (intro exI [of _ "[] # parts"]) simp
    next
      case (2 d s')
      then obtain parts where parts: "list_all2 part_matches (c # p) parts" "concat parts = s'"
        using "2.IH"(2) True by blast
      then obtain q qs where "parts = q # qs" by (cases parts) auto
      then show ?thesis
        using parts 2 True
        by (intro exI [of _ "(d # q) # qs"]) auto
    qed
  next
    case False
    with "2.prems" obtain d s' where s: "s = d # s'" "c = CHR ''_'' \<or> c = d" "like_match p s'"
      using like_match.simps(2) [of c p s] by (cases s) auto
    then obtain parts where "list_all2 part_matches p parts" and "concat parts = s'"
      using "2.IH"(3) False by blast
    then show ?thesis
      using s False by (intro exI [of _ "[d] # parts"]) (auto intro: part_matches_one)
  qed
qed

lemma like_match_percent: "c = CHR ''%'' \<Longrightarrow> like_match p s \<Longrightarrow> like_match (c # p) (u @ s)"
proof (induction u)
  case Nil
  then show ?case by (simp add: like_match_any [of p s])
next
  case (Cons d u)
  then show ?case by (simp add: like_match_any [of p "d # u @ s"])
qed

lemma like_match_complete: "list_all2 part_matches p parts \<Longrightarrow> like_match p (concat parts)"
proof (induction p arbitrary: parts)
  case Nil
  then show ?case by simp
next
  case (Cons c p)
  then obtain q qs where q: "parts = q # qs" "part_matches c q" "list_all2 part_matches p qs"
    by (cases parts) auto
  then have rest: "like_match p (concat qs)" using Cons.IH by blast
  show ?case
  proof (cases "c = CHR ''%''")
    case True
    then show ?thesis using q rest like_match_percent by simp
  next
    case False
    then obtain d where "q = [d]" and "c = CHR ''_'' \<or> c = d"
      using q(2) by (auto simp: part_matches_def length_Suc_conv split: if_splits)
    then show ?thesis
      using q rest False by (simp add: like_match.simps(2) [of c p "d # concat qs"])
  qed
qed

text \<open>
  C26.  \<open>LIKE\<close> matches a text exactly when the text splits into one part per pattern
  character: any part for \<open>%\<close>, a single character for \<open>_\<close>, and the character itself for any
  other; the regular expression the code builds and matches in full has no other meaning.
\<close>

theorem like_match_iff_parts:
  "like_match p s \<longleftrightarrow> (\<exists>parts. list_all2 part_matches p parts \<and> concat parts = s)"
  using like_match_sound like_match_complete by blast

section \<open>Casts\<close>

text \<open>
  A cast to \<open>TIMESTAMP\<close> of a value that already is a timestamp does not keep it: because
  a Python \<open>datetime\<close> is also a \<open>date\<close>, the last branch of \<open>Cast.evaluate\<close> rebuilds it from
  its date alone, and the result is the midnight that starts its day.
\<close>

theorem cast_timestamp_drops_time:
  "evaluate rt row (Cast (Literal (VTimestamp t) ti) (TypeInfo T_TIMESTAMP n) implicit)
     = Inr (VTimestamp (t - t mod day_us))
   \<and> 0 \<le> t mod day_us \<and> t mod day_us < day_us"
  by (simp add: cast_value_def day_us_def minus_mod_eq_div_mult)

text \<open>
  \<open>coerce_pair\<close> fails exactly when the operands have no common type; otherwise both
  results carry the common type, an operand that already has it is returned unchanged, and
  evaluation of a wrapped operand is the cast of its value.
\<close>

theorem coerce_pair_types:
  "(case coerce_pair l r of
      Inl e \<Rightarrow> common_type (expr_type l) (expr_type r) = Inl e
    | Inr (l', r', t) \<Rightarrow> common_type (expr_type l) (expr_type r) = Inr t
        \<and> ti_type (expr_type l') = ti_type t \<and> ti_type (expr_type r') = ti_type t
        \<and> (if ti_type (expr_type l) = ti_type t then l' = l
           else evaluate rt row l' = bindR (evaluate rt row l) (cast_value rt (ti_type t)))
        \<and> (if ti_type (expr_type r) = ti_type t then r' = r
           else evaluate rt row r' = bindR (evaluate rt row r) (cast_value rt (ti_type t))))"
  by (cases "common_type (expr_type l) (expr_type r)") (simp_all add: coerce_pair_def)

end
