(* ===== verification/Json.thy ===== *)
theory Json
  imports Values
begin

text \<open>
  JSON values and the compact rendering \<open>json.dumps(value, sort_keys=True, separators=(",", ":"))\<close>
  with ASCII output, which the runtime filters and the shuffle hash.
\<close>

datatype json = JNull | JBool bool | JInt int | JFloat pyfloat | JStr string | JList "json list"
  | JObject "(string \<times> json) list"

definition hex_digit :: "nat \<Rightarrow> char" where
  "hex_digit n = char_of (if n < 10 then 48 + n else 87 + n)"

text \<open>Escapes of \<open>json.dumps\<close> with \<open>ensure_ascii\<close>, for code points below 256.\<close>

definition json_char :: "char \<Rightarrow> string" where
  "json_char c =
     (let n = of_char c :: nat in
      if c = CHR 34 then [CHR 92, CHR 34]
      else if c = CHR 92 then [CHR 92, CHR 92]
      else if n = 10 then [CHR 92, CHR ''n'']
      else if n = 13 then [CHR 92, CHR ''r'']
      else if n = 9 then [CHR 92, CHR ''t'']
      else if n = 12 then [CHR 92, CHR ''f'']
      else if n = 8 then [CHR 92, CHR ''b'']
      else if n < 32 \<or> 126 < n \<and> n \<noteq> 127
      then [CHR 92, CHR ''u'', CHR ''0'', CHR ''0'', hex_digit (n div 16), hex_digit (n mod 16)]
      else [c])"

definition json_string :: "string \<Rightarrow> string" where
  "json_string s = [CHR 34] @ concat (map json_char s) @ [CHR 34]"

fun json_float :: "py_runtime \<Rightarrow> pyfloat \<Rightarrow> string" where
  "json_float rt NaN = ''NaN''"
| "json_float rt PosInf = ''Infinity''"
| "json_float rt NegInf = ''-Infinity''"
| "json_float rt f = rt_float_repr rt f"

fun json_dumps :: "py_runtime \<Rightarrow> json \<Rightarrow> string" where
  "json_dumps rt JNull = ''null''"
| "json_dumps rt (JBool b) = (if b then ''true'' else ''false'')"
| "json_dumps rt (JInt i) = show_int i"
| "json_dumps rt (JFloat f) = json_float rt f"
| "json_dumps rt (JStr s) = json_string s"
| "json_dumps rt (JList js) = ''['' @ join '','' (map (json_dumps rt) js) @ '']''"
| "json_dumps rt (JObject ms) =
     ''{'' @ join '','' (map snd (sort_key fst
        (map (\<lambda>(k, j). (k, json_string k @ '':'' @ json_dumps rt j)) ms))) @ ''}''"

end
