(* ===== verification/Logical.thy ===== *)
theory Logical
  imports Exprs Json
begin

text \<open>
  Relational plans (\<open>planner/logical.py\<close>, and the \<open>Exchange\<close> node that \<open>execution/physical.py\<close>
  adds to them): the dataclasses as one datatype, their accessors, and \<open>to_protocol\<close>, which
  renders a plan as the protocol's \<open>PlanNode\<close> tree.  Logical plans are the plans without
  \<open>Exchange\<close>.
\<close>

section \<open>Plans\<close>

text \<open>
  \<open>NamedExpression\<close>, \<open>AggregateExpression\<close> and \<open>NamedWindowExpression\<close> have the same two
  fields.
\<close>

datatype named_expression = NamedExpression (ne_name: string) (ne_expression: expr)

datatype partition_strategy = P_SINGLE | P_ROUND_ROBIN | P_HASH | P_BROADCAST | P_UNKNOWN

fun partition_strategy_value :: "partition_strategy \<Rightarrow> string" where
  "partition_strategy_value P_SINGLE = ''single''"
| "partition_strategy_value P_ROUND_ROBIN = ''round_robin''"
| "partition_strategy_value P_HASH = ''hash''"
| "partition_strategy_value P_BROADCAST = ''broadcast''"
| "partition_strategy_value P_UNKNOWN = ''unknown''"

datatype plan =
    Scan string string string schema                 \<comment> \<open>node id, table name, alias\<close>
  | Project string plan "named_expression list" schema
  | Filter string plan expr schema string            \<comment> \<open>phase\<close>
  | Aggregate string plan "expr list" "named_expression list" schema
  | Join string plan plan string expr schema "int option" string
      \<comment> \<open>join type, condition, input limit, build side\<close>
  | Limit string plan int schema
  | Order string plan "expr sort_expression list" schema
  | Window string plan "named_expression list" schema
  | GroupingSets string plan "expr list list" "named_expression list" schema
  | Exchange string plan partition_strategy "expr list" int schema

fun node_id :: "plan \<Rightarrow> string" where
  "node_id (Scan i t a s) = i"
| "node_id (Project i p es s) = i"
| "node_id (Filter i p e s ph) = i"
| "node_id (Aggregate i p gs as s) = i"
| "node_id (Join i l r jt c s inlim b) = i"
| "node_id (Limit i p n s) = i"
| "node_id (Order i p os s) = i"
| "node_id (Window i p es s) = i"
| "node_id (GroupingSets i p gs as s) = i"
| "node_id (Exchange i p st ks n s) = i"

fun output_schema :: "plan \<Rightarrow> schema" where
  "output_schema (Scan i t a s) = s"
| "output_schema (Project i p es s) = s"
| "output_schema (Filter i p e s ph) = s"
| "output_schema (Aggregate i p gs as s) = s"
| "output_schema (Join i l r jt c s inlim b) = s"
| "output_schema (Limit i p n s) = s"
| "output_schema (Order i p os s) = s"
| "output_schema (Window i p es s) = s"
| "output_schema (GroupingSets i p gs as s) = s"
| "output_schema (Exchange i p st ks n s) = s"

fun children :: "plan \<Rightarrow> plan list" where
  "children (Scan i t a s) = []"
| "children (Project i p es s) = [p]"
| "children (Filter i p e s ph) = [p]"
| "children (Aggregate i p gs as s) = [p]"
| "children (Join i l r jt c s inlim b) = [l, r]"
| "children (Limit i p n s) = [p]"
| "children (Order i p os s) = [p]"
| "children (Window i p es s) = [p]"
| "children (GroupingSets i p gs as s) = [p]"
| "children (Exchange i p st ks n s) = [p]"

lemma size_children [termination_simp]: "q \<in> set (children p) \<Longrightarrow> size q < size p"
  by (cases p) auto

fun is_scan :: "plan \<Rightarrow> bool" where
  "is_scan (Scan i t a s) = True"
| "is_scan _ = False"

fun is_exchange :: "plan \<Rightarrow> bool" where
  "is_exchange (Exchange i p st ks n s) = True"
| "is_exchange _ = False"

text \<open>\<open>Join.__post_init__\<close> and \<open>Exchange.__post_init__\<close>: the checks run on construction.\<close>

definition make_join ::
    "string \<Rightarrow> plan \<Rightarrow> plan \<Rightarrow> string \<Rightarrow> expr \<Rightarrow> schema \<Rightarrow> int option \<Rightarrow> string \<Rightarrow> plan res" where
  "make_join i l r jt c s inlim b =
     (if b \<notin> {''left'', ''right''} then Inl PyValueError else Inr (Join i l r jt c s inlim b))"

definition make_exchange ::
    "string \<Rightarrow> plan \<Rightarrow> partition_strategy \<Rightarrow> expr list \<Rightarrow> int \<Rightarrow> schema \<Rightarrow> plan res" where
  "make_exchange i p st ks n s =
     (if n < 1 then Inl PyValueError
      else if st = P_HASH \<and> ks = [] then Inl PyValueError
      else Inr (Exchange i p st ks n s))"

fun walk_plan :: "plan \<Rightarrow> plan list" where
  "walk_plan p = p # concat (map walk_plan (children p))"

declare walk_plan.simps [simp del]

definition logical :: "plan \<Rightarrow> bool" where
  "logical p \<longleftrightarrow> list_all (\<lambda>q. \<not> is_exchange q) (walk_plan p)"

section \<open>The protocol rendering\<close>

datatype plan_node_type =
    N_SCAN | N_PROJECT | N_FILTER | N_AGGREGATE | N_JOIN | N_LIMIT | N_ORDER | N_WINDOW
  | N_GROUPING_SETS | N_EXCHANGE | N_OUTPUT

datatype plan_node = PlanNode
  (pn_id: string) (pn_type: plan_node_type) (pn_children: "plan_node list")
  (pn_schema: "schema option") (pn_properties: "(string \<times> json) list")

definition as_text :: "py_runtime \<Rightarrow> named_expression \<Rightarrow> json" where
  "as_text rt x = JStr (expr_sql rt (ne_expression x) @ '' AS '' @ ne_name x)"

fun node_type :: "plan \<Rightarrow> plan_node_type" where
  "node_type (Scan i t a s) = N_SCAN"
| "node_type (Project i p es s) = N_PROJECT"
| "node_type (Filter i p e s ph) = N_FILTER"
| "node_type (Aggregate i p gs as s) = N_AGGREGATE"
| "node_type (Join i l r jt c s inlim b) = N_JOIN"
| "node_type (Limit i p n s) = N_LIMIT"
| "node_type (Order i p os s) = N_ORDER"
| "node_type (Window i p es s) = N_WINDOW"
| "node_type (GroupingSets i p gs as s) = N_GROUPING_SETS"
| "node_type (Exchange i p st ks n s) = N_EXCHANGE"

fun node_properties :: "py_runtime \<Rightarrow> plan \<Rightarrow> (string \<times> json) list" where
  "node_properties rt (Scan i t a s) = [(''table'', JStr t), (''alias'', JStr a)]"
| "node_properties rt (Project i p es s) = [(''expressions'', JList (map (as_text rt) es))]"
| "node_properties rt (Filter i p e s ph) = [(''predicate'', JStr (expr_sql rt e)), (''phase'', JStr ph)]"
| "node_properties rt (Aggregate i p gs as s) =
     [(''group_by'', JList (map (\<lambda>e. JStr (expr_sql rt e)) gs)),
      (''aggregates'', JList (map (\<lambda>x. JStr (expr_sql rt (ne_expression x))) as))]"
| "node_properties rt (Join i l r jt c s inlim b) =
     [(''join_type'', JStr jt), (''condition'', JStr (expr_sql rt c)), (''build_side'', JStr b)]
     @ (case inlim of None \<Rightarrow> [] | Some n \<Rightarrow> [(''input_limit'', JInt n)])"
| "node_properties rt (Limit i p n s) = [(''count'', JInt n)]"
| "node_properties rt (Order i p os s) = [(''order_by'', JList (map (\<lambda>x. JStr (sort_sql rt x)) os))]"
| "node_properties rt (Window i p es s) = [(''expressions'', JList (map (as_text rt) es))]"
| "node_properties rt (GroupingSets i p gs as s) =
     [(''grouping_sets'', JList (map (\<lambda>g. JList (map (\<lambda>e. JStr (expr_sql rt e)) g)) gs)),
      (''aggregates'', JList (map (\<lambda>x. JStr (expr_sql rt (ne_expression x))) as))]"
| "node_properties rt (Exchange i p st ks n s) =
     [(''strategy'', JStr (partition_strategy_value st)),
      (''keys'', JList (map (\<lambda>e. JStr (expr_sql rt e)) ks)), (''partition_count'', JInt n)]"

text \<open>\<open>to_protocol\<close>: one \<open>PlanNode\<close> per plan node, children in order.\<close>

fun to_protocol :: "py_runtime \<Rightarrow> plan \<Rightarrow> plan_node" where
  "to_protocol rt p =
     PlanNode (node_id p) (node_type p) (map (to_protocol rt) (children p))
       (Some (output_schema p)) (node_properties rt p)"

declare to_protocol.simps [simp del]

fun protocol_ids :: "plan_node \<Rightarrow> string list" where
  "protocol_ids (PlanNode i ty cs s props) = i # concat (map protocol_ids cs)"

text \<open>\<open>_preorder_ids\<close> of \<open>optimizer/cbo.py\<close>.\<close>

definition preorder_ids :: "plan \<Rightarrow> string list" where
  "preorder_ids p = map node_id (walk_plan p)"

lemma to_protocol_ids: "protocol_ids (to_protocol rt p) = preorder_ids p"
proof (induction p rule: walk_plan.induct)
  case (1 p)
  have "map (\<lambda>c. protocol_ids (to_protocol rt c)) (children p) = map preorder_ids (children p)"
    using "1" by simp
  then have "concat (map (\<lambda>c. protocol_ids (to_protocol rt c)) (children p))
      = concat (map preorder_ids (children p))" by (rule arg_cong)
  moreover have "preorder_ids p = node_id p # concat (map preorder_ids (children p))"
    by (simp add: preorder_ids_def [abs_def] walk_plan.simps [of p] map_concat comp_def)
  ultimately show ?case
    by (simp add: to_protocol.simps [of rt p] comp_def)
qed

end
