(* ===== verification/ExprUtils.thy ===== *)
theory ExprUtils
  imports ExprLaws Logical
begin

text \<open>
  The helpers of the rule optimizer (\<open>optimizer/utils.py\<close>): traversal of expressions, the
  columns and sources they mention, splitting, combining and normalising conjunctions, the
  bottom-up rewriting \<open>map_expression\<close>, schemas of rewritten nodes, \<open>replace_children\<close> and the
  plan text that breaks ties in the cost-based optimizer.
\<close>

section \<open>Traversal\<close>

text \<open>
  \<open>expression_children\<close> collects the dataclass fields that are expressions or (nested) tuples
  of expressions.  A \<open>SortExpression\<close> is neither, so the \<open>ORDER BY\<close> of a window is not
  traversed.
\<close>

fun expression_children :: "expr \<Rightarrow> expr list" where
  "expression_children (Literal v ti) = []"
| "expression_children (Column n s ti) = []"
| "expression_children (Cast e t i) = [e]"
| "expression_children (Unary op e ti) = [e]"
| "expression_children (Binary op l r ti) = [l, r]"
| "expression_children (IsNull e ng) = [e]"
| "expression_children (InList e os ng) = e # os"
| "expression_children (Between e lo hi ng) = [e, lo, hi]"
| "expression_children (Like e p ng) = [e, p]"
| "expression_children (Case bs d ti) = concat (map (\<lambda>(c, r). [c, r]) bs) @ [d]"
| "expression_children (ScalarFunction n args ti) = args"
| "expression_children (AggregateFunction n args ti ds) = args"
| "expression_children (WindowFunction f ps os fr) = f # ps"

lemma size_list_less: "x \<in> set xs \<Longrightarrow> size x \<le> size_list size xs"
  by (induction xs) auto

lemma size_expression_children [termination_simp]:
  "x \<in> set (expression_children e) \<Longrightarrow> size x < size e"
proof (cases e)
  case (Case bs d ti)
  have "size c < Suc (size_list (size_prod size size) bs)
      \<and> size r < Suc (size_list (size_prod size size) bs)" if "(c, r) \<in> set bs" for c r
    using that by (induction bs) auto
  then show "x \<in> set (expression_children e) \<Longrightarrow> ?thesis"
    using Case by fastforce
qed (auto simp: less_Suc_eq_le intro: trans_le_add1 trans_le_add2 dest!: size_list_less)

function walk_expression :: "expr \<Rightarrow> expr list" where
  "walk_expression e = e # concat (map walk_expression (expression_children e))"
  by pat_completeness auto
termination
  by (relation "measure size") (auto intro: size_expression_children)

declare walk_expression.simps [simp del]

lemma walk_self [simp]: "e \<in> set (walk_expression e)"
  by (simp add: walk_expression.simps [of e])

fun is_column :: "expr \<Rightarrow> bool" where
  "is_column (Column n s ti) = True"
| "is_column _ = False"

fun is_aggregate :: "expr \<Rightarrow> bool" where
  "is_aggregate (AggregateFunction n args ti ds) = True"
| "is_aggregate _ = False"

fun is_window :: "expr \<Rightarrow> bool" where
  "is_window (WindowFunction f ps os fr) = True"
| "is_window _ = False"

fun is_literal :: "expr \<Rightarrow> bool" where
  "is_literal (Literal v ti) = True"
| "is_literal _ = False"

fun column_name :: "expr \<Rightarrow> string" where
  "column_name (Column n s ti) = n"
| "column_name _ = []"

fun column_source :: "expr \<Rightarrow> string" where
  "column_source (Column n s ti) = s"
| "column_source _ = []"

definition expression_columns :: "expr \<Rightarrow> expr list" where
  "expression_columns e = filter is_column (walk_expression e)"

definition expression_sources :: "expr \<Rightarrow> string set" where
  "expression_sources e = set (map (\<lambda>c. casefold (column_source c)) (expression_columns e))"

fun plan_sources :: "plan \<Rightarrow> string set" where
  "plan_sources (Scan i t a s) = {casefold a}"
| "plan_sources (Project i p es s) = plan_sources p"
| "plan_sources (Filter i p e s ph) = plan_sources p"
| "plan_sources (Aggregate i p gs as s) = plan_sources p"
| "plan_sources (Join i l r jt c s inlim b) = plan_sources l \<union> plan_sources r"
| "plan_sources (Limit i p n s) = plan_sources p"
| "plan_sources (Order i p os s) = plan_sources p"
| "plan_sources (Window i p es s) = plan_sources p"
| "plan_sources (GroupingSets i p gs as s) = plan_sources p"
| "plan_sources (Exchange i p st ks n s) = plan_sources p"

definition contains_aggregate :: "expr \<Rightarrow> bool" where
  "contains_aggregate e = list_ex is_aggregate (walk_expression e)"

definition contains_window :: "expr \<Rightarrow> bool" where
  "contains_window e = list_ex is_window (walk_expression e)"

definition is_constant :: "expr \<Rightarrow> bool" where
  "is_constant e =
     (\<not> list_ex (\<lambda>x. is_column x \<or> is_aggregate x \<or> is_window x) (walk_expression e))"

section \<open>Conjunctions\<close>

fun split_conjuncts :: "expr \<Rightarrow> expr list" where
  "split_conjuncts (Binary OP_AND l r ti) = split_conjuncts l @ split_conjuncts r"
| "split_conjuncts e = [e]"

definition combine_conjuncts :: "expr list \<Rightarrow> expr res" where
  "combine_conjuncts es = (case es of
      [] \<Rightarrow> Inl PyValueError
    | e # rest \<Rightarrow> Inr (foldl (\<lambda>acc x. Binary OP_AND acc x (expr_type acc)) e rest))"

text \<open>The dictionary comprehension keeps the last item for each text; \<open>sorted\<close> orders the keys.\<close>

definition unique_by_sql :: "py_runtime \<Rightarrow> expr list \<Rightarrow> (string, expr) dict" where
  "unique_by_sql rt es = fold (\<lambda>e d. dict_set d (expr_sql rt e) e) es []"

definition normalize_conjuncts :: "py_runtime \<Rightarrow> expr \<Rightarrow> expr res" where
  "normalize_conjuncts rt e =
     combine_conjuncts (map snd (sort_key fst (unique_by_sql rt (split_conjuncts e))))"

section \<open>Rewriting\<close>

text \<open>\<open>map_expression\<close>: rebuild bottom-up, then transform; the transform may raise.\<close>

fun map_expression :: "(expr \<Rightarrow> expr res) \<Rightarrow> expr \<Rightarrow> expr res" where
  "map_expression f (Cast e t i) =
     bindR (map_expression f e) (\<lambda>e'. f (Cast e' t i))"
| "map_expression f (Unary op e ti) =
     bindR (map_expression f e) (\<lambda>e'. f (Unary op e' ti))"
| "map_expression f (Binary op l r ti) =
     bindR (map_expression f l) (\<lambda>l'. bindR (map_expression f r) (\<lambda>r'. f (Binary op l' r' ti)))"
| "map_expression f (IsNull e ng) =
     bindR (map_expression f e) (\<lambda>e'. f (IsNull e' ng))"
| "map_expression f (InList e os ng) =
     bindR (map_expression f e) (\<lambda>e'. bindR (mapR (map_expression f) os) (\<lambda>os'.
       f (InList e' os' ng)))"
| "map_expression f (Between e lo hi ng) =
     bindR (map_expression f e) (\<lambda>e'. bindR (map_expression f lo) (\<lambda>lo'.
       bindR (map_expression f hi) (\<lambda>hi'. f (Between e' lo' hi' ng))))"
| "map_expression f (Like e p ng) =
     bindR (map_expression f e) (\<lambda>e'. bindR (map_expression f p) (\<lambda>p'. f (Like e' p' ng)))"
| "map_expression f (Case bs d ti) =
     bindR (mapR (\<lambda>(c, r). bindR (map_expression f c) (\<lambda>c'. bindR (map_expression f r) (\<lambda>r'.
              Inr (c', r')))) bs) (\<lambda>bs'.
       bindR (map_expression f d) (\<lambda>d'. f (Case bs' d' ti)))"
| "map_expression f (ScalarFunction n args ti) =
     bindR (mapR (map_expression f) args) (\<lambda>args'. f (ScalarFunction n args' ti))"
| "map_expression f (AggregateFunction n args ti ds) =
     bindR (mapR (map_expression f) args) (\<lambda>args'. f (AggregateFunction n args' ti ds))"
| "map_expression f (WindowFunction w ps os fr) =
     bindR (map_expression f w) (\<lambda>w'. bindR (mapR (map_expression f) ps) (\<lambda>ps'.
       bindR (mapR (\<lambda>s. bindR (map_expression f (se_expression s)) (\<lambda>e'.
                Inr (SortExpression e' (se_ascending s) (se_nulls_first s)))) os) (\<lambda>os'.
         f (WindowFunction w' ps' os' fr))))"
| "map_expression f e = f e"

definition literal_for :: "expr \<Rightarrow> sql_value \<Rightarrow> expr" where
  "literal_for e v = Literal v (expr_type e)"

section \<open>Schemas and plans\<close>

definition rsplit_last :: "string \<Rightarrow> string" where
  "rsplit_last s = rev (takeWhile (\<lambda>c. c \<noteq> CHR ''.'') (rev s))"

definition schema_subset :: "schema \<Rightarrow> string set \<Rightarrow> schema res" where
  "schema_subset s names =
     make_schema (filter (\<lambda>f. casefold (sf_name f) \<in> names
                            \<or> casefold (rsplit_last (sf_name f)) \<in> names) (sc_fields s))
       (sc_metadata s)"

definition schema_for_expressions :: "(string \<times> expr) list \<Rightarrow> schema res" where
  "schema_for_expressions items =
     make_schema (map (\<lambda>(name, e). plain_field name (ti_type (expr_type e)) (ti_nullable (expr_type e))) items) []"

text \<open>\<open>replace_children\<close>; an empty tuple of children returns the plan.\<close>

fun replace_children :: "plan \<Rightarrow> plan list \<Rightarrow> plan res" where
  "replace_children p [] = Inr p"
| "replace_children (Project i p es s) (c # cs) = Inr (Project i c es s)"
| "replace_children (Filter i p e s ph) (c # cs) = Inr (Filter i c e (output_schema c) ph)"
| "replace_children (Aggregate i p gs as s) (c # cs) = Inr (Aggregate i c gs as s)"
| "replace_children (Join i l r jt e s inlim b) (c # cs) =
     (case cs of [] \<Rightarrow> Inl PyIndexError | d # _ \<Rightarrow> make_join i c d jt e s inlim b)"
| "replace_children (Limit i p n s) (c # cs) = Inr (Limit i c n (output_schema c))"
| "replace_children (Order i p os s) (c # cs) = Inr (Order i c os (output_schema c))"
| "replace_children (Window i p es s) (c # cs) = Inr (Window i c es s)"
| "replace_children (GroupingSets i p gs as s) (c # cs) = Inr (GroupingSets i c gs as s)"
| "replace_children (Scan i t a s) (c # cs) = Inl PyTypeError"
| "replace_children (Exchange i p st ks n s) (c # cs) = Inl PyTypeError"

fun node_details :: "py_runtime \<Rightarrow> plan \<Rightarrow> string" where
  "node_details rt (Scan i t a s) = ''['' @ t @ '' AS '' @ a @ '']''"
| "node_details rt (Project i p es s) = ''['' @ join '', '' (map ne_name es) @ '']''"
| "node_details rt (Filter i p e s ph) = ''['' @ expr_sql rt e @ '']''"
| "node_details rt (Aggregate i p gs as s) = ''[group='' @ join '', '' (map (expr_sql rt) gs) @ '']''"
| "node_details rt (Join i l r jt e s inlim b) =
     ''['' @ jt @ '', '' @ expr_sql rt e
     @ (case inlim of None \<Rightarrow> '''' | Some n \<Rightarrow> '', input_limit='' @ show_int n) @ '']''"
| "node_details rt (Limit i p n s) = ''['' @ show_int n @ '']''"
| "node_details rt (Order i p os s) = ''['' @ join '', '' (map (sort_sql rt) os) @ '']''"
| "node_details rt (Window i p es s) = ''''"
| "node_details rt (GroupingSets i p gs as s) = ''''"
| "node_details rt (Exchange i p st ks n s) = ''''"

fun class_name :: "plan \<Rightarrow> string" where
  "class_name (Scan i t a s) = ''Scan''"
| "class_name (Project i p es s) = ''Project''"
| "class_name (Filter i p e s ph) = ''Filter''"
| "class_name (Aggregate i p gs as s) = ''Aggregate''"
| "class_name (Join i l r jt c s inlim b) = ''Join''"
| "class_name (Limit i p n s) = ''Limit''"
| "class_name (Order i p os s) = ''Order''"
| "class_name (Window i p es s) = ''Window''"
| "class_name (GroupingSets i p gs as s) = ''GroupingSets''"
| "class_name (Exchange i p st ks n s) = ''Exchange''"

fun plan_text :: "py_runtime \<Rightarrow> plan \<Rightarrow> nat \<Rightarrow> string" where
  "plan_text rt p indent =
     join [CHR 10] ((replicate (2 * indent) (CHR '' '') @ class_name p @ ''#'' @ node_id p
                       @ node_details rt p)
       # map (\<lambda>q. plan_text rt q (Suc indent)) (children p))"

declare plan_text.simps [simp del]

end
