(* ===== verification/Rules.thy ===== *)
theory Rules
  imports ExprUtils
begin

text \<open>
  The logical optimization rules (\<open>optimizer/rules.py\<close>).  \<open>apply\<close> of a rule takes a plan and
  returns \<open>None\<close> or the rewritten plan, and may raise; so a rule is a function into
  \<open>plan option res\<close>.  Names are compared after \<open>casefold\<close>, as in the source.
\<close>

section \<open>Pushing predicates\<close>

definition alias_map :: "named_expression list \<Rightarrow> (string, expr) dict" where
  "alias_map items = fold (\<lambda>i d. dict_set d (casefold (ne_name i)) (ne_expression i)) items []"

definition substitute_column :: "(string, expr) dict \<Rightarrow> expr \<Rightarrow> expr res" where
  "substitute_column aliases e =
     (if is_column e then (case dict_get aliases (casefold (column_name e)) of
          None \<Rightarrow> Inl PyKeyError | Some e' \<Rightarrow> Inr e')
      else Inr e)"

fun pushdown_project :: "plan \<Rightarrow> plan option res" where
  "pushdown_project (Filter i (Project j p items ps) e s ph) =
     (let aliases = alias_map items in
      if list_ex (\<lambda>c. dict_get aliases (casefold (column_name c)) = None) (expression_columns e)
      then Inr None
      else bindR (map_expression (substitute_column aliases) e) (\<lambda>e'.
             if contains_aggregate e' \<or> contains_window e' then Inr None
             else Inr (Some (Project j (Filter i p e' (output_schema p) ph) items ps))))"
| "pushdown_project _ = Inr None"

definition pushable_conjunct :: "py_runtime \<Rightarrow> expr list \<Rightarrow> expr \<Rightarrow> bool" where
  "pushable_conjunct rt groups c =
     (let columns = set (map (expr_sql rt) (expression_columns c));
          grouping = set (map (expr_sql rt) (concat (map expression_columns (filter is_column groups))))
      in \<not> contains_aggregate c \<and> \<not> contains_window c \<and> columns \<noteq> {} \<and> columns \<subseteq> grouping)"

fun pushdown_aggregate :: "py_runtime \<Rightarrow> plan \<Rightarrow> plan option res" where
  "pushdown_aggregate rt (Filter i (Aggregate j p gs as asch) e s ph) =
     (let pushable = filter (pushable_conjunct rt gs) (split_conjuncts e);
          residual = filter (\<lambda>c. \<not> pushable_conjunct rt gs c) (split_conjuncts e)
      in if pushable = [] then Inr None
         else bindR (combine_conjuncts pushable) (\<lambda>pe.
           let rewritten = Aggregate j (Filter (i @ ''_pre_aggregate'') p pe (output_schema p) ''where'')
                             gs as asch
           in if residual = [] then Inr (Some rewritten)
              else bindR (combine_conjuncts residual) (\<lambda>re. Inr (Some (Filter i rewritten re s ph)))))"
| "pushdown_aggregate rt _ = Inr None"

text \<open>The three-way split of \<open>PredicatePushdownJoin\<close>: left, right or residual.\<close>

definition goes_left :: "plan \<Rightarrow> string \<Rightarrow> expr \<Rightarrow> bool" where
  "goes_left l jt c = (expression_sources c \<noteq> {} \<and> expression_sources c \<subseteq> plan_sources l
     \<and> jt \<in> {''inner'', ''left''})"

definition goes_right :: "plan \<Rightarrow> plan \<Rightarrow> string \<Rightarrow> expr \<Rightarrow> bool" where
  "goes_right l r jt c = (\<not> goes_left l jt c \<and> expression_sources c \<noteq> {}
     \<and> expression_sources c \<subseteq> plan_sources r \<and> jt \<in> {''inner'', ''right''})"

definition filter_side :: "string \<Rightarrow> plan \<Rightarrow> expr list \<Rightarrow> string \<Rightarrow> plan res" where
  "filter_side i p cs ph =
     (if cs = [] then Inr p
      else bindR (combine_conjuncts cs) (\<lambda>e. Inr (Filter i p e (output_schema p) ph)))"

fun pushdown_join :: "plan \<Rightarrow> plan option res" where
  "pushdown_join (Filter i (Join j l r jt c js inlim b) e s ph) =
     (let cs = split_conjuncts e;
          ls = filter (goes_left l jt) cs;
          rs = filter (goes_right l r jt) cs;
          residual = filter (\<lambda>x. \<not> goes_left l jt x \<and> \<not> goes_right l r jt x) cs
      in if ls = [] \<and> rs = [] then Inr None
         else bindR (filter_side (i @ ''_left'') l ls ph) (\<lambda>l'.
              bindR (filter_side (i @ ''_right'') r rs ph) (\<lambda>r'.
              bindR (make_join j l' r' jt c js inlim b) (\<lambda>j'.
                if residual = [] then Inr (Some j')
                else bindR (combine_conjuncts residual) (\<lambda>re. Inr (Some (Filter i j' re s ph)))))))"
| "pushdown_join _ = Inr None"

section \<open>Limits\<close>

fun limit_pushdown_project :: "plan \<Rightarrow> plan option res" where
  "limit_pushdown_project (Limit i (Project j p items ps) n s) =
     Inr (Some (Project j (Limit i p n (output_schema p)) items ps))"
| "limit_pushdown_project _ = Inr None"

fun limit_join_input_hint :: "plan \<Rightarrow> plan option res" where
  "limit_join_input_hint (Limit i (Join j l r jt c js inlim b) n s) =
     (if (case inlim of None \<Rightarrow> False | Some m \<Rightarrow> m \<le> n) then Inr None
      else bindR (make_join j l r jt c js (Some n) b) (\<lambda>p. Inr (Some (Limit i p n s))))"
| "limit_join_input_hint _ = Inr None"

section \<open>Column pruning\<close>

definition required_names :: "py_runtime \<Rightarrow> expr list \<Rightarrow> string set" where
  "required_names rt es = set (map (\<lambda>c. casefold (expr_sql rt c)) (concat (map expression_columns es)))"

text \<open>\<open>_matching_scan_columns\<close>, over all required names: the case-folded field names kept.\<close>

definition scan_required :: "string \<Rightarrow> schema \<Rightarrow> string set \<Rightarrow> string set" where
  "scan_required alias s required =
     set (map (\<lambda>f. casefold (sf_name f))
       (filter (\<lambda>f. casefold (sf_name f) \<in> required
                  \<or> casefold (qualified_name (sf_name f) alias) \<in> required) (sc_fields s)))"

text \<open>\<open>name.split(".", 1)[0]\<close> is the text before the first dot.\<close>

definition for_sources :: "string set \<Rightarrow> string set \<Rightarrow> string set" where
  "for_sources required sources =
     {name \<in> required. CHR ''.'' \<notin> set name
        \<or> casefold (takeWhile (\<lambda>c. c \<noteq> CHR ''.'') name) \<in> sources}"

definition project_selects :: "string set \<Rightarrow> named_expression \<Rightarrow> bool" where
  "project_selects required i =
     (casefold (ne_name i) \<in> required \<or> ''.'' @ casefold (ne_name i) \<in> required)"

fun prune :: "py_runtime \<Rightarrow> plan \<Rightarrow> string set \<Rightarrow> plan res" where
  "prune rt (Scan i t a s) required =
     bindR (schema_subset s (scan_required a s required)) (\<lambda>s'. Inr (Scan i t a s'))"
| "prune rt (Project i p items s) required =
     (let selected = filter (project_selects required) items in
      bindR (prune rt p (required_names rt (map ne_expression selected))) (\<lambda>p'.
      bindR (schema_for_expressions (map (\<lambda>x. (ne_name x, ne_expression x)) selected)) (\<lambda>s'.
        Inr (Project i p' selected s'))))"
| "prune rt (Filter i p e s ph) required =
     bindR (prune rt p (required \<union> required_names rt [e])) (\<lambda>p'.
       Inr (Filter i p' e (output_schema p') ph))"
| "prune rt (Join i l r jt c s inlim b) required =
     (let needed = required \<union> required_names rt [c] in
      bindR (prune rt l (for_sources needed (plan_sources l))) (\<lambda>l'.
      bindR (prune rt r (for_sources needed (plan_sources r))) (\<lambda>r'.
      bindR (schema_subset s required) (\<lambda>s'. make_join i l' r' jt c s' inlim b))))"
| "prune rt (Aggregate i p gs as s) required =
     bindR (prune rt p (required_names rt (gs @ map ne_expression as))) (\<lambda>p'.
       Inr (Aggregate i p' gs as s))"
| "prune rt (GroupingSets i p gss as s) required =
     bindR (prune rt p (required_names rt (concat gss @ map ne_expression as))) (\<lambda>p'.
       Inr (GroupingSets i p' gss as s))"
| "prune rt (Order i p os s) required =
     bindR (prune rt p (required \<union> required_names rt (map se_expression os))) (\<lambda>p'.
       Inr (Order i p' os (output_schema p')))"
| "prune rt (Window i p items s) required =
     bindR (prune rt p (required \<union> required_names rt (map ne_expression items))) (\<lambda>p'.
       Inr (Window i p' items s))"
| "prune rt (Limit i p n s) required =
     bindR (prune rt p required) (\<lambda>p'. Inr (Limit i p' n (output_schema p')))"
| "prune rt (Exchange i p st ks n s) required = Inr (Exchange i p st ks n s)"

definition column_pruning :: "py_runtime \<Rightarrow> plan \<Rightarrow> plan option res" where
  "column_pruning rt p =
     bindR (prune rt p (set (map (\<lambda>f. casefold (sf_name f)) (sc_fields (output_schema p))))) (\<lambda>p'.
       Inr (if p' \<noteq> p then Some p' else None))"

section \<open>Constant folding\<close>

definition is_true_literal :: "expr \<Rightarrow> bool" where
  "is_true_literal e = (case e of Literal v ti \<Rightarrow> v = VBool True | _ \<Rightarrow> False)"

definition is_false_literal :: "expr \<Rightarrow> bool" where
  "is_false_literal e = (case e of Literal v ti \<Rightarrow> v = VBool False | _ \<Rightarrow> False)"

text \<open>The branches of \<open>_fold_expression\<close> for a connective with a truth literal.\<close>

definition fold_connective :: "expr \<Rightarrow> expr option" where
  "fold_connective e = (case e of
      Binary op l r ti \<Rightarrow>
        (if op = OP_AND then
           (if is_true_literal l then Some r else if is_false_literal l then Some l
            else if is_true_literal r then Some l else if is_false_literal r then Some r else None)
         else if op = OP_OR then
           (if is_false_literal l then Some r else if is_true_literal l then Some l
            else if is_false_literal r then Some l else if is_true_literal r then Some r else None)
         else None)
    | _ \<Rightarrow> None)"

definition fold_expression :: "py_runtime \<Rightarrow> expr \<Rightarrow> expr res" where
  "fold_expression rt e = (case fold_connective e of
      Some e' \<Rightarrow> Inr e'
    | None \<Rightarrow>
        if \<not> is_constant e \<or> is_literal e then Inr e
        else (case evaluate rt Map.empty e of
            Inr v \<Rightarrow> Inr (literal_for e v)
          | Inl x \<Rightarrow> if is_foldable_error x then Inr e else Inl x))"

definition map_named :: "(expr \<Rightarrow> expr res) \<Rightarrow> named_expression \<Rightarrow> named_expression res" where
  "map_named f x = bindR (f (ne_expression x)) (\<lambda>e. Inr (NamedExpression (ne_name x) e))"

definition map_sort :: "(expr \<Rightarrow> expr res) \<Rightarrow> expr sort_expression \<Rightarrow> expr sort_expression res" where
  "map_sort f x = bindR (f (se_expression x)) (\<lambda>e.
     Inr (SortExpression e (se_ascending x) (se_nulls_first x)))"

fun map_plan_expressions :: "(expr \<Rightarrow> expr res) \<Rightarrow> plan \<Rightarrow> plan res" where
  "map_plan_expressions f (Project i p items s) =
     bindR (mapR (map_named (map_expression f)) items) (\<lambda>items'. Inr (Project i p items' s))"
| "map_plan_expressions f (Filter i p e s ph) =
     bindR (map_expression f e) (\<lambda>e'. Inr (Filter i p e' s ph))"
| "map_plan_expressions f (Aggregate i p gs as s) =
     bindR (mapR (map_expression f) gs) (\<lambda>gs'.
     bindR (mapR (map_named (map_expression f)) as) (\<lambda>as'. Inr (Aggregate i p gs' as' s)))"
| "map_plan_expressions f (Join i l r jt c s inlim b) =
     bindR (map_expression f c) (\<lambda>c'. make_join i l r jt c' s inlim b)"
| "map_plan_expressions f (Order i p os s) =
     bindR (mapR (map_sort (map_expression f)) os) (\<lambda>os'. Inr (Order i p os' s))"
| "map_plan_expressions f p = Inr p"

definition constant_folding :: "py_runtime \<Rightarrow> plan \<Rightarrow> plan option res" where
  "constant_folding rt p =
     bindR (map_plan_expressions (fold_expression rt) p) (\<lambda>p'.
       Inr (if p' \<noteq> p then Some p' else None))"

section \<open>Merging predicates and inferring equalities\<close>

fun predicate_merge :: "py_runtime \<Rightarrow> plan \<Rightarrow> plan option res" where
  "predicate_merge rt (Filter i p e s ph) = (case p of
      Filter i' p' e' s' ph' \<Rightarrow>
        bindR (combine_conjuncts [e', e]) (\<lambda>c. bindR (normalize_conjuncts rt c) (\<lambda>m.
          Inr (Some (Filter i p' m (output_schema p') ph))))
    | _ \<Rightarrow> bindR (normalize_conjuncts rt e) (\<lambda>m.
          Inr (if m \<noteq> e then Some (Filter i p m s ph) else None)))"
| "predicate_merge rt _ = Inr None"

text \<open>\<open>sorted((left, right))\<close> of two texts.\<close>

definition equality_key :: "py_runtime \<Rightarrow> expr \<Rightarrow> string" where
  "equality_key rt e = (case e of
      Binary op l r ti \<Rightarrow>
        (if op = EQUAL then join ''='' (sort [expr_sql rt l, expr_sql rt r]) else expr_sql rt e)
    | _ \<Rightarrow> expr_sql rt e)"

definition constant_is_null :: "py_runtime \<Rightarrow> expr \<Rightarrow> bool res" where
  "constant_is_null rt e =
     (if \<not> is_constant e then Inr False
      else (case evaluate rt Map.empty e of
          Inr v \<Rightarrow> Inr (v = VNull)
        | Inl x \<Rightarrow> if is_foldable_error x then Inr False else Inl x))"

text \<open>
  The first loop of \<open>_equality_closure\<close>: the terms by text and the edges.  The null test of
  the right operand runs only when that of the left one is false.
\<close>

definition closure_step ::
    "py_runtime \<Rightarrow> (string, expr) dict \<times> (string \<times> string) list \<Rightarrow> expr
     \<Rightarrow> ((string, expr) dict \<times> (string \<times> string) list) res" where
  "closure_step rt st e = (case e of
      Binary op l r ti \<Rightarrow>
        (if op \<noteq> EQUAL then Inr st
         else if \<not> is_column l \<and> \<not> is_constant l then Inr st
         else if \<not> is_column r \<and> \<not> is_constant r then Inr st
         else bindR (constant_is_null rt l) (\<lambda>nl.
              bindR (if nl then Inr True else constant_is_null rt r) (\<lambda>null.
                if null then Inr st
                else Inr (dict_set (dict_set (fst st) (expr_sql rt l) l) (expr_sql rt r) r,
                          snd st @ [(expr_sql rt l, expr_sql rt r)]))))
    | _ \<Rightarrow> Inr st)"

definition neighbours :: "(string \<times> string) list \<Rightarrow> string \<Rightarrow> string list" where
  "neighbours edges t =
     map snd (filter (\<lambda>(l, r). l = t) edges) @ map fst (filter (\<lambda>(l, r). r = t) edges)"

text \<open>The depth-first search that collects the component of the stack's terms.\<close>

function component :: "(string \<times> string) list \<Rightarrow> string list \<Rightarrow> string list \<Rightarrow> string list" where
  "component edges [] found = found"
| "component edges (t # stack) found =
     (if t \<in> set found then component edges stack found
      else component edges (filter (\<lambda>u. u \<notin> set (t # found)) (neighbours edges t) @ stack)
             (t # found))"
  by pat_completeness auto
termination
proof (relation "measures [\<lambda>(edges, stack, found). card ((fst ` set edges \<union> snd ` set edges) - set found),
    \<lambda>(edges, stack, found). length stack]", goal_cases)
  case 1
  then show ?case by simp
next
  case (2 edges t stack found)
  then show ?case by simp
next
  case (3 edges t stack found)
  let ?ends = "fst ` set edges \<union> snd ` set edges"
  show ?case
  proof (cases "t \<in> ?ends")
    case True
    then have "?ends - set (t # found) \<subset> ?ends - set found"
      using 3 by auto
    then have "card (?ends - set (t # found)) < card (?ends - set found)"
      by (intro psubset_card_mono) auto
    then show ?thesis by simp
  next
    case False
    then have "neighbours edges t = []"
      by (force simp: neighbours_def filter_empty_conv)
    moreover have "?ends - set (t # found) = ?ends - set found"
      using False by auto
    ultimately show ?thesis by simp
  qed
qed

text \<open>\<open>combinations(xs, 2)\<close>.\<close>

fun pairs :: "'a list \<Rightarrow> ('a \<times> 'a) list" where
  "pairs [] = []"
| "pairs (x # xs) = map (Pair x) xs @ pairs xs"

definition equality_of :: "(string, expr) dict \<Rightarrow> string \<times> string \<Rightarrow> expr" where
  "equality_of terms p =
     (let l = the (dict_get terms (fst p)); r = the (dict_get terms (snd p))
      in Binary EQUAL l r (TypeInfo T_BOOLEAN (ti_nullable (expr_type l) \<or> ti_nullable (expr_type r))))"

fun component_pairs ::
    "(string, expr) dict \<Rightarrow> (string \<times> string) list \<Rightarrow> string list \<Rightarrow> string set \<Rightarrow> expr list" where
  "component_pairs terms edges [] visited = []"
| "component_pairs terms edges (t # ts) visited =
     (if t \<in> visited then component_pairs terms edges ts visited
      else let c = component edges [t] []
           in map (equality_of terms) (pairs (sort c))
              @ component_pairs terms edges ts (visited \<union> set c))"

definition equality_closure :: "py_runtime \<Rightarrow> expr list \<Rightarrow> expr list res" where
  "equality_closure rt es =
     bindR (foldR (closure_step rt) ([], []) es) (\<lambda>(terms, edges).
       Inr (component_pairs terms edges (sort (map fst terms)) {}))"

fun equality_inference :: "py_runtime \<Rightarrow> plan \<Rightarrow> plan option res" where
  "equality_inference rt (Filter i p e s ph) =
     (let evidence = split_conjuncts e @ (case p of
            Join j l r jt c js inlim b \<Rightarrow> if jt = ''inner'' then split_conjuncts c else []
          | _ \<Rightarrow> [])
      in bindR (equality_closure rt evidence) (\<lambda>inferred.
           let existing = set (map (equality_key rt) evidence);
               additions = filter (\<lambda>x. equality_key rt x \<notin> existing) inferred
           in if additions = [] then Inr None
              else bindR (combine_conjuncts (split_conjuncts e @ additions)) (\<lambda>c.
                   bindR (normalize_conjuncts rt c) (\<lambda>m. Inr (Some (Filter i p m s ph))))))"
| "equality_inference rt _ = Inr None"

section \<open>The default rules\<close>

record rule =
  rule_name :: string
  rule_whole_plan :: bool
  rule_apply :: "plan \<Rightarrow> plan option res"

definition default_rules :: "py_runtime \<Rightarrow> rule list" where
  "default_rules rt =
     [\<lparr>rule_name = ''constant_folding'', rule_whole_plan = False, rule_apply = constant_folding rt\<rparr>,
      \<lparr>rule_name = ''predicate_merge'', rule_whole_plan = False, rule_apply = predicate_merge rt\<rparr>,
      \<lparr>rule_name = ''equality_inference'', rule_whole_plan = False, rule_apply = equality_inference rt\<rparr>,
      \<lparr>rule_name = ''predicate_pushdown_project'', rule_whole_plan = False, rule_apply = pushdown_project\<rparr>,
      \<lparr>rule_name = ''predicate_pushdown_aggregate'', rule_whole_plan = False, rule_apply = pushdown_aggregate rt\<rparr>,
      \<lparr>rule_name = ''predicate_pushdown_join'', rule_whole_plan = False, rule_apply = pushdown_join\<rparr>,
      \<lparr>rule_name = ''limit_pushdown_project'', rule_whole_plan = False, rule_apply = limit_pushdown_project\<rparr>,
      \<lparr>rule_name = ''limit_join_input_hint'', rule_whole_plan = False, rule_apply = limit_join_input_hint\<rparr>,
      \<lparr>rule_name = ''column_pruning'', rule_whole_plan = True, rule_apply = column_pruning rt\<rparr>]"

end
