(* ===== verification/Optimizer.thy ===== *)
theory Optimizer
  imports Rules
begin

text \<open>
  The fixed-point driver (\<open>optimizer/optimizer.py\<close>): rules are applied bottom-up at every node,
  or once to the whole plan, round after round, until no rule changes the plan, a plan repeats,
  or the bound on rounds is reached.  The fingerprint \<open>repr(plan)\<close> is the plan itself.
\<close>

section \<open>One rule over a plan\<close>

type_synonym changes = "(plan \<times> plan) list"

fun actual_child :: "plan \<Rightarrow> plan option \<Rightarrow> plan" where
  "actual_child c None = c"
| "actual_child c (Some c') = c'"

text \<open>The end of \<open>_apply_recursive\<close>: the outcome at a node whose rule answered \<open>rewritten\<close>.\<close>

definition finish_node ::
    "plan \<Rightarrow> plan \<Rightarrow> plan option \<Rightarrow> changes \<Rightarrow> plan option \<times> changes" where
  "finish_node p candidate rewritten below =
     (let (candidate', ch) = (case rewritten of
             None \<Rightarrow> (candidate, below)
           | Some q \<Rightarrow> if q \<noteq> candidate then (q, below @ [(candidate, q)]) else (candidate, below))
      in (if candidate' = p then None else Some candidate', ch))"

text \<open>
  \<open>_apply_recursive\<close>.  The argument is a rule's \<open>apply\<close>; the result is \<open>None\<close> when the node is
  unchanged, with the changes made below and at it, in order.
\<close>

function apply_recursive ::
    "(plan \<Rightarrow> plan option res) \<Rightarrow> plan \<Rightarrow> (plan option \<times> changes) res" where
  "apply_recursive f p =
     bindR (mapR (\<lambda>c. bindR (apply_recursive f c) (\<lambda>(r, ch). Inr (actual_child c r, ch)))
              (children p)) (\<lambda>outs.
     bindR (if map fst outs \<noteq> children p then replace_children p (map fst outs) else Inr p)
       (\<lambda>candidate. bindR (f candidate) (\<lambda>rewritten.
         Inr (finish_node p candidate rewritten (concat (map snd outs))))))"
  by pat_completeness auto
termination
  by (relation "measure (\<lambda>(f, p). size p)") (auto intro: size_children)

declare apply_recursive.simps [simp del]

lemma finish_node_plan:
  "actual_child p (fst (finish_node p c rw below)) = (case rw of None \<Rightarrow> c | Some q \<Rightarrow> q)"
  by (auto simp: finish_node_def split: option.splits)

section \<open>The driver\<close>

record rule_trace =
  tr_iteration :: nat
  tr_rule :: string
  tr_before :: string
  tr_after :: string

record optimization_result =
  or_original_plan :: plan
  or_optimized_plan :: plan
  or_trace :: "rule_trace list"
  or_iterations :: nat
  or_termination :: string

definition converged :: "optimization_result \<Rightarrow> bool" where
  "converged r \<longleftrightarrow> or_termination r = ''fixed_point''"

definition run_rule :: "rule \<Rightarrow> plan \<Rightarrow> (plan option \<times> changes) res" where
  "run_rule r current =
     (if rule_whole_plan r then
        bindR (rule_apply r current) (\<lambda>q. Inr (q, case q of None \<Rightarrow> [] | Some q' \<Rightarrow> [(current, q')]))
      else apply_recursive (rule_apply r) current)"

definition trace_entries :: "py_runtime \<Rightarrow> nat \<Rightarrow> string \<Rightarrow> changes \<Rightarrow> rule_trace list" where
  "trace_entries rt iteration name ch =
     map (\<lambda>(b, a). \<lparr>tr_iteration = iteration, tr_rule = name,
            tr_before = plan_text rt b 0, tr_after = plan_text rt a 0\<rparr>)
       (filter (\<lambda>(b, a). b \<noteq> a) ch)"

text \<open>One rule of a round: the state is the changed flag, the current plan and the trace.\<close>

record round_state =
  rs_changed :: bool
  rs_plan :: plan
  rs_trace :: "rule_trace list"

definition rule_step :: "py_runtime \<Rightarrow> nat \<Rightarrow> round_state \<Rightarrow> rule \<Rightarrow> round_state res" where
  "rule_step rt iteration st r = bindR (run_rule r (rs_plan st)) (\<lambda>(rewritten, ch).
     Inr (case rewritten of
         None \<Rightarrow> st
       | Some q \<Rightarrow> if q = rs_plan st then st
           else \<lparr>rs_changed = True, rs_plan = q,
                 rs_trace = rs_trace st @ trace_entries rt iteration (rule_name r) ch\<rparr>))"

text \<open>The rounds that remain, with the number of the next one.\<close>

fun optimize_loop ::
    "py_runtime \<Rightarrow> rule list \<Rightarrow> plan \<Rightarrow> nat \<Rightarrow> nat \<Rightarrow> plan \<Rightarrow> rule_trace list \<Rightarrow> plan list
     \<Rightarrow> optimization_result res" where
  "optimize_loop rt rules original 0 iteration current trace seen =
     Inr \<lparr>or_original_plan = original, or_optimized_plan = current, or_trace = trace,
          or_iterations = iteration - 1, or_termination = ''max_iterations''\<rparr>"
| "optimize_loop rt rules original (Suc n) iteration current trace seen =
     bindR (foldR (rule_step rt iteration) \<lparr>rs_changed = False, rs_plan = current, rs_trace = trace\<rparr> rules)
       (\<lambda>st.
         if \<not> rs_changed st then
           Inr \<lparr>or_original_plan = original, or_optimized_plan = rs_plan st, or_trace = rs_trace st,
                or_iterations = iteration, or_termination = ''fixed_point''\<rparr>
         else if rs_plan st \<in> set seen then
           Inr \<lparr>or_original_plan = original, or_optimized_plan = rs_plan st, or_trace = rs_trace st,
                or_iterations = iteration, or_termination = ''cycle_detected''\<rparr>
         else optimize_loop rt rules original n (Suc iteration) (rs_plan st) (rs_trace st)
                (rs_plan st # seen))"

text \<open>\<open>RuleOptimizer(rules, max_iterations).optimize\<close>, the constructor's check included.\<close>

definition optimize :: "py_runtime \<Rightarrow> rule list \<Rightarrow> int \<Rightarrow> plan \<Rightarrow> optimization_result res" where
  "optimize rt rules max_iterations p =
     (if max_iterations \<le> 0 then Inl PyValueError
      else optimize_loop rt rules p (nat max_iterations) 1 p [] [p])"

definition optimize_plan :: "py_runtime \<Rightarrow> rule list \<Rightarrow> int \<Rightarrow> plan \<Rightarrow> plan res" where
  "optimize_plan rt rules max_iterations p =
     bindR (optimize rt rules max_iterations p) (\<lambda>r. Inr (or_optimized_plan r))"

text \<open>\<open>OptimizationResult.explain\<close>; the lines of a trace entry show the first line of each plan.\<close>

definition first_line :: "string \<Rightarrow> string" where
  "first_line s = takeWhile (\<lambda>c. c \<noteq> CHR 10) s"

definition trace_line :: "rule_trace \<Rightarrow> string" where
  "trace_line t = show_nat (tr_iteration t) @ ''. '' @ tr_rule t @ [CHR 10]
     @ ''  before: '' @ first_line (tr_before t) @ [CHR 10] @ ''  after:  '' @ first_line (tr_after t)"

definition explain_result :: "py_runtime \<Rightarrow> optimization_result \<Rightarrow> string" where
  "explain_result rt r = join [CHR 10]
     ([''== Original Logical Plan =='', plan_text rt (or_original_plan r) 0, '''',
       ''== Optimized Logical Plan =='', plan_text rt (or_optimized_plan r) 0, '''',
       ''== Rule Trace ==''] @
      (if or_trace r \<noteq> [] then map trace_line (or_trace r) else [''(no rules matched)'']) @
      ['''', ''Termination: '' @ or_termination r, ''Iterations: '' @ show_nat (or_iterations r)])"

section \<open>Laws\<close>

text \<open>
  The interface between the driver and its rules: a reflexive and transitive relation on plans
  (\<open>refines q p\<close>: the plan \<open>q\<close> may replace \<open>p\<close>) that is kept when children are replaced by
  plans that refine them.
\<close>

locale plan_refinement =
  fixes refines :: "plan \<Rightarrow> plan \<Rightarrow> bool"
  assumes refines_refl: "refines p p"
    and refines_trans: "refines r q \<Longrightarrow> refines q p \<Longrightarrow> refines r p"
    and refines_children:
      "list_all2 refines cs (children p) \<Longrightarrow> replace_children p cs = Inr q \<Longrightarrow> refines q p"
begin

definition sound_apply :: "(plan \<Rightarrow> plan option res) \<Rightarrow> bool" where
  "sound_apply f \<longleftrightarrow> (\<forall>p q. f p = Inr (Some q) \<longrightarrow> refines q p)"

lemma apply_recursive_sound:
  assumes "sound_apply f"
  shows "apply_recursive f p = Inr out \<Longrightarrow> refines (actual_child p (fst out)) p"
proof (induction p arbitrary: out rule: measure_induct_rule [where f = size])
  case (less p)
  let ?rec = "\<lambda>c. bindR (apply_recursive f c) (\<lambda>(r, ch). Inr (actual_child c r, ch))"
  from less.prems obtain outs candidate rewritten where
    outs: "mapR ?rec (children p) = Inr outs"
    and cand: "(if map fst outs \<noteq> children p then replace_children p (map fst outs) else Inr p)
      = Inr candidate"
    and rew: "f candidate = Inr rewritten"
    and out: "out = finish_node p candidate rewritten (concat (map snd outs))"
    by (auto simp only: apply_recursive.simps [of f p] bindR_eq_Inr sum.inject)
  have "list_all2 (\<lambda>c y. ?rec c = Inr y) (children p) outs"
    using outs by (simp only: mapR_Inr_iff)
  then have "list_all2 (\<lambda>c y. refines (fst y) c) (children p) outs"
  proof (rule list.rel_mono_strong)
    fix c y
    assume "c \<in> set (children p)" and "?rec c = Inr y"
    then show "refines (fst y) c"
      using less.IH [OF size_children] by (force simp: bindR_eq_Inr)
  qed
  then have "list_all2 refines (map fst outs) (children p)"
    by (simp add: list_all2_conv_all_nth)
  with cand have "refines candidate p"
    by (auto intro: refines_refl refines_children split: if_splits)
  moreover have "refines (case rewritten of None \<Rightarrow> candidate | Some q \<Rightarrow> q) candidate"
    using assms rew by (auto simp: sound_apply_def refines_refl split: option.split)
  ultimately show ?case
    by (metis finish_node_plan out refines_trans)
qed

lemma rule_step_sound:
  assumes "sound_apply (rule_apply r)" and "rule_step rt k st r = Inr st'"
  shows "refines (rs_plan st') (rs_plan st)"
proof -
  obtain rewritten ch where rw: "run_rule r (rs_plan st) = Inr (rewritten, ch)"
    using assms(2) by (cases "run_rule r (rs_plan st)") (auto simp: rule_step_def)
  then have st': "rs_plan st' = actual_child (rs_plan st) rewritten"
    using assms(2) by (cases rewritten) (auto simp: rule_step_def split: if_splits)
  show ?thesis
  proof (cases "rule_whole_plan r")
    case True
    then show ?thesis
      using rw assms(1) unfolding st' run_rule_def
      by (cases rewritten) (auto simp: bindR_eq_Inr sound_apply_def refines_refl)
  next
    case False
    then show ?thesis
      using rw apply_recursive_sound [OF assms(1)] unfolding st' run_rule_def by fastforce
  qed
qed

lemma rounds_sound:
  assumes "\<forall>r \<in> set rules. sound_apply (rule_apply r)"
    and "foldR (rule_step rt k) st rules = Inr st'"
  shows "refines (rs_plan st') (rs_plan st)"
  using assms
proof (induction rules arbitrary: st)
  case Nil
  then show ?case by (simp add: refines_refl)
next
  case (Cons r rules)
  from Cons.prems(2) obtain t where step: "rule_step rt k st r = Inr t"
    and rest: "foldR (rule_step rt k) t rules = Inr st'"
    by (auto simp: bindR_eq_Inr)
  from Cons.IH [OF _ rest] Cons.prems(1) have "refines (rs_plan st') (rs_plan t)" by simp
  with rule_step_sound [OF _ step] Cons.prems(1) show ?case
    by (auto intro: refines_trans)
qed

lemma optimize_loop_sound:
  assumes "\<forall>r \<in> set rules. sound_apply (rule_apply r)"
  shows "optimize_loop rt rules orig n k p tr seen = Inr res \<Longrightarrow> refines (or_optimized_plan res) p"
proof (induction n arbitrary: k p tr seen)
  case 0
  then show ?case by (auto simp: refines_refl)
next
  case (Suc n)
  from Suc.prems obtain st where
    round: "foldR (rule_step rt k) \<lparr>rs_changed = False, rs_plan = p, rs_trace = tr\<rparr> rules = Inr st"
    and rest: "or_optimized_plan res = rs_plan st
      \<or> optimize_loop rt rules orig n (Suc k) (rs_plan st) (rs_trace st) (rs_plan st # seen) = Inr res"
    by (auto simp: bindR_eq_Inr split: if_splits)
  from rest have "refines (or_optimized_plan res) (rs_plan st)"
    using Suc.IH refines_refl by metis
  with rounds_sound [OF assms round] show ?case
    by (auto intro: refines_trans)
qed

lemma optimize_sound:
  assumes "\<forall>r \<in> set rules. sound_apply (rule_apply r)"
    and "optimize_plan rt rules n p = Inr q"
  shows "refines q p"
  using assms optimize_loop_sound [OF assms(1)]
  by (auto simp: optimize_plan_def optimize_def bindR_eq_Inr split: if_splits)

end

end
