(* ===== verification/RuleLaws.thy ===== *)
theory RuleLaws
  imports Optimizer
begin

text \<open>
  What the rules mean for the rows: constant folding keeps every value, normalising a
  conjunction keeps the rows that pass it, the inferred equalities hold wherever the evidence
  does, and the driver stops with a plan its verdict describes.
\<close>

section \<open>Constants do not read the row\<close>

lemma walk_children: "set (walk_expression e)
    = insert e (\<Union>c \<in> set (expression_children e). set (walk_expression c))"
  by (subst walk_expression.simps) auto

lemma is_constant_children:
  "is_constant e \<Longrightarrow> c \<in> set (expression_children e) \<Longrightarrow> is_constant c"
  using walk_children [of e] by (auto simp: is_constant_def list_ex_iff)

lemma is_constant_self: "is_constant e \<Longrightarrow> \<not> is_column e \<and> \<not> is_aggregate e \<and> \<not> is_window e"
  using walk_self [of e] by (auto simp: is_constant_def list_ex_iff)

lemma evaluate_constant: "is_constant e \<Longrightarrow> evaluate rt row e = evaluate rt row' e"
proof (induction e rule: measure_induct_rule [where f = size])
  case (less e)
  have IH: "evaluate rt row c = evaluate rt row' c" if "c \<in> set (expression_children e)" for c
    using less.IH [OF size_expression_children [OF that]] is_constant_children [OF less.prems that]
    by simp
  show ?case
  proof (cases e)
    case (InList x os ng)
    then show ?thesis using IH by (simp cong: map_cong if_cong)
  next
    case (Case bs d ti)
    have child: "fst b \<in> set (expression_children e) \<and> snd b \<in> set (expression_children e)"
      if "b \<in> set bs" for b
      using Case that by (cases b) force
    then have eq: "map (\<lambda>(c, r). (evaluate rt row c, evaluate rt row r)) bs
        = map (\<lambda>(c, r). (evaluate rt row' c, evaluate rt row' r)) bs"
      using IH by (intro map_cong [OF refl]) (simp add: split_beta)
    have "evaluate rt row d = evaluate rt row' d" using Case IH by simp
    then show ?thesis unfolding Case evaluate.simps by (simp only: eq)
  next
    case (ScalarFunction n args ti)
    have "mapR (evaluate rt row) args = mapR (evaluate rt row') args"
      using ScalarFunction IH by (intro mapR_cong) auto
    then show ?thesis using ScalarFunction by simp
  qed (use IH is_constant_self [OF less.prems] in auto)
qed

section \<open>Constant folding keeps values\<close>

text \<open>
  The binder admits only truth values below \<open>AND\<close> and \<open>OR\<close>: \<open>connectives_typed\<close> states it of
  the operands that evaluate on a row.
\<close>

definition truth_operand :: "py_runtime \<Rightarrow> row \<Rightarrow> expr \<Rightarrow> bool" where
  "truth_operand rt row e = (case evaluate rt row e of Inl _ \<Rightarrow> True | Inr v \<Rightarrow> is_tri v)"

fun connective_ok :: "py_runtime \<Rightarrow> row \<Rightarrow> expr \<Rightarrow> bool" where
  "connective_ok rt row (Binary op l r ti) =
     (op \<in> {OP_AND, OP_OR} \<longrightarrow> truth_operand rt row l \<and> truth_operand rt row r)"
| "connective_ok rt row _ = True"

definition connectives_typed :: "py_runtime \<Rightarrow> row \<Rightarrow> expr \<Rightarrow> bool" where
  "connectives_typed rt row e = list_all (connective_ok rt row) (walk_expression e)"

definition plain_expr :: "expr \<Rightarrow> bool" where
  "plain_expr e \<longleftrightarrow> \<not> contains_aggregate e \<and> \<not> contains_window e"

lemma connectives_typed_children:
  "connectives_typed rt row e \<Longrightarrow> c \<in> set (expression_children e) \<Longrightarrow> connectives_typed rt row c"
  using walk_children [of e] by (auto simp: connectives_typed_def list_all_iff)

lemma plain_expr_children:
  "plain_expr e \<Longrightarrow> c \<in> set (expression_children e) \<Longrightarrow> plain_expr c"
  using walk_children [of e]
  by (auto simp: plain_expr_def contains_aggregate_def contains_window_def list_ex_iff)

lemma plain_expr_self: "plain_expr e \<Longrightarrow> \<not> is_aggregate e \<and> \<not> is_window e"
  using walk_self [of e]
  by (auto simp: plain_expr_def contains_aggregate_def contains_window_def list_ex_iff)

lemma is_tri_and: "is_tri v \<Longrightarrow> sql_and (VBool True) v = v \<and> sql_and v (VBool True) = v
    \<and> sql_and (VBool False) v = VBool False \<and> sql_and v (VBool False) = VBool False"
  by (elim is_tri_cases) (simp_all add: sql_and_def)

lemma is_tri_or: "is_tri v \<Longrightarrow> sql_or (VBool False) v = v \<and> sql_or v (VBool False) = v
    \<and> sql_or (VBool True) v = VBool True \<and> sql_or v (VBool True) = VBool True"
  by (elim is_tri_cases) (simp_all add: sql_or_def)

lemma truth_literal_value:
  "is_true_literal e \<Longrightarrow> evaluate rt row e = Inr (VBool True)"
  "is_false_literal e \<Longrightarrow> evaluate rt row e = Inr (VBool False)"
  by (auto simp: is_true_literal_def is_false_literal_def split: expr.splits)

lemma fold_connective_value:
  assumes "fold_connective e = Some e'" and "connective_ok rt row e" and "evaluate rt row e = Inr v"
  shows "evaluate rt row e' = Inr v"
proof -
  from assms(1) obtain op l r ti where e: "e = Binary op l r ti" and op: "op = OP_AND \<or> op = OP_OR"
    by (auto simp: fold_connective_def split: expr.splits if_splits)
  from assms(3) e obtain a b where a: "evaluate rt row l = Inr a" and b: "evaluate rt row r = Inr b"
    and v: "binary_value_of rt op a b = Inr v"
    by (auto simp: bindR_eq_Inr)
  have "is_tri a" and "is_tri b"
    using assms(2) e op a b by (auto simp: truth_operand_def)
  note tri = is_tri_and [OF \<open>is_tri a\<close>] is_tri_and [OF \<open>is_tri b\<close>]
    is_tri_or [OF \<open>is_tri a\<close>] is_tri_or [OF \<open>is_tri b\<close>]
  show ?thesis
    using assms(1) op a b v tri truth_literal_value [of l rt row] truth_literal_value [of r rt row]
    unfolding e fold_connective_def
    by (auto simp: binary_value_of_def split: if_splits)
qed

lemma fold_node_value:
  assumes "fold_expression rt e = Inr e'" and "connective_ok rt row e" and "evaluate rt row e = Inr v"
  shows "evaluate rt row e' = Inr v"
proof (cases "fold_connective e")
  case (Some x)
  then show ?thesis
    using assms fold_connective_value by (simp add: fold_expression_def)
next
  case None
  show ?thesis
  proof (cases "is_constant e \<and> \<not> is_literal e")
    case True
    then have "evaluate rt Map.empty e = Inr v"
      using assms(3) evaluate_constant by metis
    then show ?thesis
      using assms(1) None True by (auto simp: fold_expression_def literal_for_def)
  next
    case False
    then show ?thesis
      using assms None by (auto simp: fold_expression_def)
  qed
qed

text \<open>Replacing the subexpressions by ones that agree wherever these evaluate.\<close>

definition keeps_value :: "py_runtime \<Rightarrow> row \<Rightarrow> expr \<Rightarrow> expr \<Rightarrow> bool" where
  "keeps_value rt row e e' \<longleftrightarrow> (\<forall>v. evaluate rt row e = Inr v \<longrightarrow> evaluate rt row e' = Inr v)"

lemma in_loop_keeps:
  "list_all2 (\<lambda>c c'. \<forall>v. c = Inr v \<longrightarrow> c' = Inr v) cs cs'
   \<Longrightarrow> in_loop v ng saw cs = Inr w \<Longrightarrow> in_loop v ng saw cs' = Inr w"
  by (induction cs cs' arbitrary: saw rule: list_all2_induct) (auto simp: bindR_eq_Inr split: if_splits)

lemma case_loop_keeps:
  assumes "list_all2 (\<lambda>b b'. (\<forall>v. fst b = Inr v \<longrightarrow> fst b' = Inr v)
      \<and> (\<forall>v. snd b = Inr v \<longrightarrow> snd b' = Inr v)) bs bs'"
    and "\<forall>v. d = Inr v \<longrightarrow> d' = Inr v"
  shows "case_loop bs d = Inr w \<Longrightarrow> case_loop bs' d' = Inr w"
  using assms
proof (induction bs bs' rule: list_all2_induct)
  case Nil
  then show ?case by simp
next
  case (Cons b bs b' bs')
  then show ?case by (cases b; cases b') (auto simp: bindR_eq_Inr split: if_splits)
qed

lemma mapR_keeps:
  "list_all2 (keeps_value rt row) es es' \<Longrightarrow> mapR (evaluate rt row) es = Inr vs
   \<Longrightarrow> mapR (evaluate rt row) es' = Inr vs"
  by (induction es es' arbitrary: vs rule: list_all2_induct)
    (auto simp: bindR_eq_Inr keeps_value_def)

lemma folded_list:
  assumes "mapR (map_expression f) es = Inr es'"
    and "\<And>c c'. c \<in> set es \<Longrightarrow> map_expression f c = Inr c' \<Longrightarrow> keeps_value rt row c c'"
  shows "list_all2 (keeps_value rt row) es es'"
  using assms unfolding mapR_Inr_iff by (auto intro: list.rel_mono_strong)

lemma fold_list_maps:
  "list_all2 (keeps_value rt row) es es' \<Longrightarrow>
     list_all2 (\<lambda>c c'. \<forall>v. c = Inr v \<longrightarrow> c' = Inr v) (map (evaluate rt row) es) (map (evaluate rt row) es')"
  by (simp add: list.rel_map keeps_value_def [abs_def])

lemma fold_case_maps:
  assumes "mapR (\<lambda>(c, r). bindR (map_expression f c) (\<lambda>c'. bindR (map_expression f r) (\<lambda>r'.
              Inr (c', r')))) bs = Inr bs'"
    and "\<And>b x'. b \<in> set bs \<Longrightarrow> map_expression f (fst b) = Inr x' \<Longrightarrow> keeps_value rt row (fst b) x'"
    and "\<And>b x'. b \<in> set bs \<Longrightarrow> map_expression f (snd b) = Inr x' \<Longrightarrow> keeps_value rt row (snd b) x'"
  shows "list_all2 (\<lambda>b b'. (\<forall>v. fst b = Inr v \<longrightarrow> fst b' = Inr v) \<and> (\<forall>v. snd b = Inr v \<longrightarrow> snd b' = Inr v))
    (map (\<lambda>(c, r). (evaluate rt row c, evaluate rt row r)) bs)
    (map (\<lambda>(c, r). (evaluate rt row c, evaluate rt row r)) bs')"
  using assms(1) unfolding mapR_Inr_iff list.rel_map
proof (rule list.rel_mono_strong)
  fix b b'
  assume b: "b \<in> set bs"
    and eq: "(case b of (c, r) \<Rightarrow> bindR (map_expression f c) (\<lambda>c'. bindR (map_expression f r) (\<lambda>r'.
              Inr (c', r')))) = Inr b'"
  from eq have "map_expression f (fst b) = Inr (fst b')" and "map_expression f (snd b) = Inr (snd b')"
    by (auto simp: split_beta bindR_eq_Inr)
  then show "(\<forall>v. fst (case b of (c, r) \<Rightarrow> (evaluate rt row c, evaluate rt row r)) = Inr v \<longrightarrow>
        fst (case b' of (c, r) \<Rightarrow> (evaluate rt row c, evaluate rt row r)) = Inr v)
      \<and> (\<forall>v. snd (case b of (c, r) \<Rightarrow> (evaluate rt row c, evaluate rt row r)) = Inr v \<longrightarrow>
        snd (case b' of (c, r) \<Rightarrow> (evaluate rt row c, evaluate rt row r)) = Inr v)"
    using assms(2,3) [OF b] by (simp add: split_beta keeps_value_def)
qed

lemma fold_keeps_value:
  "map_expression (fold_expression rt) e = Inr e' \<Longrightarrow> plain_expr e \<Longrightarrow> connectives_typed rt row e
   \<Longrightarrow> keeps_value rt row e e'"
proof (induction e arbitrary: e' rule: measure_induct_rule [where f = size])
  case (less e)
  let ?m = "map_expression (fold_expression rt)"
  have IH: "keeps_value rt row c c'" if "c \<in> set (expression_children e)" and "?m c = Inr c'" for c c'
    using less.IH [OF size_expression_children [OF that(1)] that(2)]
      plain_expr_children [OF less.prems(2) that(1)]
      connectives_typed_children [OF less.prems(3) that(1)] by simp
  have ok: "connective_ok rt row e"
    using less.prems(3) walk_self [of e] unfolding connectives_typed_def list_all_iff by blast
  show ?case
    unfolding keeps_value_def
  proof (intro allI impI)
    fix v
    assume v: "evaluate rt row e = Inr v"
    obtain x where x: "fold_expression rt x = Inr e'" and xv: "evaluate rt row x = Inr v"
      and xok: "connective_ok rt row x"
    proof (cases e)
      case (Literal a b)
      then show ?thesis using that less.prems(1) v by simp
    next
      case (Column a b c)
      then show ?thesis using that less.prems(1) v by simp
    next
      case (Cast a b c)
      then obtain a' where "?m a = Inr a'" and "fold_expression rt (Cast a' b c) = Inr e'"
        using less.prems(1) by (auto simp: bindR_eq_Inr)
      then show ?thesis
        using IH [of a a'] Cast v by (intro that) (auto simp: bindR_eq_Inr keeps_value_def)
    next
      case (Unary op a ti)
      then obtain a' where "?m a = Inr a'" and "fold_expression rt (Unary op a' ti) = Inr e'"
        using less.prems(1) by (auto simp: bindR_eq_Inr)
      then show ?thesis
        using IH [of a a'] Unary v by (intro that) (auto simp: bindR_eq_Inr keeps_value_def)
    next
      case (Binary op l r ti)
      then obtain l' r' where lr: "?m l = Inr l'" "?m r = Inr r'"
        and f: "fold_expression rt (Binary op l' r' ti) = Inr e'"
        using less.prems(1) by (auto simp: bindR_eq_Inr)
      from Binary v obtain a b where ab: "evaluate rt row l = Inr a" "evaluate rt row r = Inr b"
        "binary_value_of rt op a b = Inr v" by (auto simp: bindR_eq_Inr)
      then have "evaluate rt row l' = Inr a" and "evaluate rt row r' = Inr b"
        using IH [OF _ lr(1)] IH [OF _ lr(2)] Binary by (auto simp: keeps_value_def)
      then show ?thesis
        using ok ab f Binary by (intro that [OF f]) (simp_all add: truth_operand_def)
    next
      case (IsNull a b)
      then obtain a' where "?m a = Inr a'" and "fold_expression rt (IsNull a' b) = Inr e'"
        using less.prems(1) by (auto simp: bindR_eq_Inr)
      then show ?thesis
        using IH [of a a'] IsNull v by (intro that) (auto simp: bindR_eq_Inr keeps_value_def)
    next
      case (InList a os ng)
      then obtain a' os' where a: "?m a = Inr a'" "mapR ?m os = Inr os'"
        and f: "fold_expression rt (InList a' os' ng) = Inr e'"
        using less.prems(1) by (auto simp: bindR_eq_Inr)
      have "list_all2 (keeps_value rt row) os os'"
        using IH InList by (intro folded_list [OF a(2)]) auto
      from in_loop_keeps [OF fold_list_maps [OF this]] IH [OF _ a(1)] InList v
      have "evaluate rt row (InList a' os' ng) = Inr v"
        by (auto simp: bindR_eq_Inr keeps_value_def split: if_splits)
      then show ?thesis by (intro that [OF f]) simp_all
    next
      case (Between a lo hi ng)
      then obtain a' lo' hi' where a: "?m a = Inr a'" "?m lo = Inr lo'" "?m hi = Inr hi'"
        and f: "fold_expression rt (Between a' lo' hi' ng) = Inr e'"
        using less.prems(1) by (auto simp: bindR_eq_Inr)
      from Between v obtain x y z where xyz: "evaluate rt row a = Inr x" "evaluate rt row lo = Inr y"
        "evaluate rt row hi = Inr z" by (auto simp: bindR_eq_Inr)
      then have "evaluate rt row a' = Inr x" "evaluate rt row lo' = Inr y" "evaluate rt row hi' = Inr z"
        using IH [OF _ a(1)] IH [OF _ a(2)] IH [OF _ a(3)] Between by (auto simp: keeps_value_def)
      then have "evaluate rt row (Between a' lo' hi' ng) = Inr v" using xyz v Between by simp
      then show ?thesis by (intro that [OF f]) simp_all
    next
      case (Like a p ng)
      then obtain a' p' where a: "?m a = Inr a'" "?m p = Inr p'"
        and f: "fold_expression rt (Like a' p' ng) = Inr e'"
        using less.prems(1) by (auto simp: bindR_eq_Inr)
      from Like v obtain x y where xy: "evaluate rt row a = Inr x" "evaluate rt row p = Inr y"
        by (auto simp: bindR_eq_Inr)
      then have "evaluate rt row a' = Inr x" "evaluate rt row p' = Inr y"
        using IH [OF _ a(1)] IH [OF _ a(2)] Like by (auto simp: keeps_value_def)
      then have "evaluate rt row (Like a' p' ng) = Inr v" using xy v Like by simp
      then show ?thesis by (intro that [OF f]) simp_all
    next
      case (Case bs d ti)
      then obtain bs' d' where bs: "mapR (\<lambda>(c, r). bindR (?m c) (\<lambda>c'. bindR (?m r) (\<lambda>r'.
              Inr (c', r')))) bs = Inr bs'" and d: "?m d = Inr d'"
        and f: "fold_expression rt (Case bs' d' ti) = Inr e'"
        using less.prems(1) by (auto simp: bindR_eq_Inr)
      have child: "fst b \<in> set (expression_children e) \<and> snd b \<in> set (expression_children e)"
        if "b \<in> set bs" for b
        using Case that by (cases b) force
      have maps: "list_all2 (\<lambda>b b'. (\<forall>v. fst b = Inr v \<longrightarrow> fst b' = Inr v) \<and> (\<forall>v. snd b = Inr v \<longrightarrow> snd b' = Inr v))
          (map (\<lambda>(c, r). (evaluate rt row c, evaluate rt row r)) bs)
          (map (\<lambda>(c, r). (evaluate rt row c, evaluate rt row r)) bs')"
        using IH child by (intro fold_case_maps [OF bs]) blast+
      have dd: "\<forall>w. evaluate rt row d = Inr w \<longrightarrow> evaluate rt row d' = Inr w"
        using IH [OF _ d] Case by (simp add: keeps_value_def)
      have "evaluate rt row (Case bs' d' ti) = Inr v"
        using case_loop_keeps [OF maps dd] Case v by simp
      then show ?thesis by (intro that [OF f]) simp_all
    next
      case (ScalarFunction n args ti)
      then obtain args' where a: "mapR ?m args = Inr args'"
        and f: "fold_expression rt (ScalarFunction n args' ti) = Inr e'"
        using less.prems(1) by (auto simp: bindR_eq_Inr)
      have "list_all2 (keeps_value rt row) args args'"
        using IH ScalarFunction by (intro folded_list [OF a]) auto
      then have "evaluate rt row (ScalarFunction n args' ti) = Inr v"
        using ScalarFunction v mapR_keeps by (auto simp: bindR_eq_Inr)
      then show ?thesis by (intro that [OF f]) simp_all
    qed (use plain_expr_self [OF less.prems(2)] in simp_all)
    show "evaluate rt row e' = Inr v"
      using x xok xv by (rule fold_node_value)
  qed
qed

text \<open>
  C27.  Constant folding keeps values: when an expression without aggregates and windows, whose
  connectives have truth values as operands, evaluates on a row, the folded expression
  evaluates to the same value on that row.  (Folding may only make more rows evaluate.)
\<close>

theorem constant_folding_keeps_values:
  assumes "map_expression (fold_expression rt) e = Inr e'"
    and "plain_expr e" and "connectives_typed rt row e"
    and "evaluate rt row e = Inr v"
  shows "evaluate rt row e' = Inr v"
  using fold_keeps_value [OF assms(1-3)] assms(4) by (simp add: keeps_value_def)

definition folding_example :: expr where
  "folding_example = Binary OP_AND (Literal (VBool True) (TypeInfo T_BOOLEAN False))
     (Binary EQUAL (Column ''x'' ''t'' int_type)
        (Binary ADD (Literal (VInt 1) int_type) (Literal (VInt 2) int_type) int_type)
        (TypeInfo T_BOOLEAN True)) (TypeInfo T_BOOLEAN True)"

theorem constant_folding_keeps_values_witness:
  "\<forall>rt. evaluate rt [''t.x'' \<mapsto> VInt 3]
     (Binary EQUAL (Column ''x'' ''t'' int_type) (Literal (VInt 3) int_type) (TypeInfo T_BOOLEAN True))
   = Inr (VBool True)"
proof (rule allI, rule constant_folding_keeps_values)
  fix rt :: py_runtime
  show "map_expression (fold_expression rt) folding_example = Inr
     (Binary EQUAL (Column ''x'' ''t'' int_type) (Literal (VInt 3) int_type) (TypeInfo T_BOOLEAN True))"
    by (simp add: folding_example_def fold_expression_def fold_connective_def is_true_literal_def
        is_false_literal_def is_constant_def walk_expression.simps literal_for_def binary_value_of_def)
  show "plain_expr folding_example"
    by (simp add: folding_example_def plain_expr_def contains_aggregate_def contains_window_def
        walk_expression.simps)
  show "connectives_typed rt [''t.x'' \<mapsto> VInt 3] folding_example"
    by (simp add: folding_example_def connectives_typed_def truth_operand_def walk_expression.simps
        binary_value_of_def is_tri_def qualified_name_def py_eq_def)
  show "evaluate rt [''t.x'' \<mapsto> VInt 3] folding_example = Inr (VBool True)"
    by (simp add: folding_example_def binary_value_of_def sql_and_def qualified_name_def py_eq_def)
qed

section \<open>Conjunctions\<close>

definition passes :: "py_runtime \<Rightarrow> row \<Rightarrow> expr \<Rightarrow> bool" where
  "passes rt row e \<longleftrightarrow> evaluate rt row e = Inr (VBool True)"

lemma passes_and:
  assumes "truth_operand rt row l" and "truth_operand rt row r"
  shows "passes rt row (Binary OP_AND l r ti) \<longleftrightarrow> passes rt row l \<and> passes rt row r"
  using assms sql_and_True
  by (auto simp: passes_def truth_operand_def bindR_eq_Inr binary_value_of_def split: sum.splits)

lemma passes_split:
  "connectives_typed rt row e \<Longrightarrow> passes rt row e \<longleftrightarrow> (\<forall>c \<in> set (split_conjuncts e). passes rt row c)"
proof (induction e rule: split_conjuncts.induct)
  case (1 l r ti)
  let ?e = "Binary OP_AND l r ti"
  have "connective_ok rt row ?e"
    using "1.prems" walk_self [of ?e] unfolding connectives_typed_def list_all_iff by blast
  moreover have "connectives_typed rt row l" and "connectives_typed rt row r"
    using connectives_typed_children [OF "1.prems"] by simp_all
  ultimately show ?case
    using 1 passes_and by auto
qed auto

lemma conjunct_typed:
  "connectives_typed rt row e \<Longrightarrow> c \<in> set (split_conjuncts e) \<Longrightarrow> c \<noteq> e \<Longrightarrow> truth_operand rt row c"
proof (induction e arbitrary: c rule: split_conjuncts.induct)
  case (1 l r ti)
  let ?e = "Binary OP_AND l r ti"
  have "connective_ok rt row ?e"
    using "1.prems"(1) walk_self [of ?e] unfolding connectives_typed_def list_all_iff by blast
  moreover have "connectives_typed rt row l" and "connectives_typed rt row r"
    using connectives_typed_children [OF "1.prems"(1)] by simp_all
  ultimately show ?case
    using 1 by auto
qed auto

lemma truth_and: "truth_operand rt row (Binary OP_AND l r ti)"
  using sql_and_tri
  by (auto simp: truth_operand_def binary_value_of_def bindR_eq_Inr split: sum.splits)

lemma passes_combine_from:
  "truth_operand rt row e \<Longrightarrow> \<forall>c \<in> set cs. truth_operand rt row c \<Longrightarrow>
     passes rt row (foldl (\<lambda>acc x. Binary OP_AND acc x (expr_type acc)) e cs)
       \<longleftrightarrow> passes rt row e \<and> (\<forall>c \<in> set cs. passes rt row c)"
  by (induction cs arbitrary: e) (simp_all add: passes_and truth_and)

lemma passes_combine:
  assumes "combine_conjuncts cs = Inr e"
    and "length cs = 1 \<or> (\<forall>c \<in> set cs. truth_operand rt row c)"
  shows "passes rt row e \<longleftrightarrow> (\<forall>c \<in> set cs. passes rt row c)"
  using assms passes_combine_from
  by (cases cs) (auto simp: combine_conjuncts_def)

text \<open>
  Conjuncts are told apart by their text: \<open>same_text_same_value\<close> states of a list of
  expressions and a row that equal texts mean equal outcomes.
\<close>

definition same_text_same_value :: "py_runtime \<Rightarrow> row \<Rightarrow> expr list \<Rightarrow> bool" where
  "same_text_same_value rt row es \<longleftrightarrow> (\<forall>a \<in> set es. \<forall>b \<in> set es.
     expr_sql rt a = expr_sql rt b \<longrightarrow> evaluate rt row a = evaluate rt row b)"

lemma unique_by_sql_sound:
  "(k, v) \<in> set (fold (\<lambda>e d. dict_set d (expr_sql rt e) e) es d)
   \<Longrightarrow> (k, v) \<in> set d \<or> v \<in> set es \<and> k = expr_sql rt v"
proof (induction es arbitrary: d)
  case Nil
  then show ?case by simp
next
  case (Cons e es)
  have "(k, v) \<in> set (dict_set d (expr_sql rt e) e) \<Longrightarrow> (k, v) \<in> set d \<or> k = expr_sql rt e \<and> v = e" for k v
    by (induction d) (auto simp: dict_set_def split: if_splits)
  with Cons show ?case by fastforce
qed

lemma unique_by_sql_complete:
  "fst ` set (fold (\<lambda>e d. dict_set d (expr_sql rt e) e) es d) = fst ` set d \<union> expr_sql rt ` set es"
  by (induction es arbitrary: d) auto

lemma normalize_set:
  assumes "normalize_conjuncts rt e = Inr m"
  obtains cs where "combine_conjuncts cs = Inr m" and "set cs \<subseteq> set (split_conjuncts e)"
    and "expr_sql rt ` set cs = expr_sql rt ` set (split_conjuncts e)" and "distinct cs"
proof
  let ?d = "unique_by_sql rt (split_conjuncts e)"
  let ?cs = "map snd (sort_key fst ?d)"
  show "combine_conjuncts ?cs = Inr m"
    using assms by (simp add: normalize_conjuncts_def)
  have sound: "v \<in> set (split_conjuncts e) \<and> k = expr_sql rt v" if "(k, v) \<in> set ?d" for k v
    using that unique_by_sql_sound [of k v rt "split_conjuncts e" "[]"] by (simp add: unique_by_sql_def)
  then show "set ?cs \<subseteq> set (split_conjuncts e)" by auto
  have "fst ` set ?d = expr_sql rt ` set (split_conjuncts e)"
    using unique_by_sql_complete [of rt "split_conjuncts e" "[]"] by (simp add: unique_by_sql_def)
  moreover have "fst ` set ?d = expr_sql rt ` snd ` set ?d"
    using sound by (force simp: image_iff)
  ultimately show "expr_sql rt ` set ?cs = expr_sql rt ` set (split_conjuncts e)" by simp
  have "dict_ok (fold (\<lambda>e d. dict_set d (expr_sql rt e) e) es d)" if "dict_ok d" for es d
    using that by (induction es arbitrary: d) auto
  then have "distinct (map fst ?d)"
    using dict_ok_Nil by (simp add: unique_by_sql_def dict_ok_def)
  then have "distinct (map fst (sort_key fst ?d))"
    by (metis distinct_map distinct_sort set_sort inj_on_def)
  moreover have "map fst (sort_key fst ?d) = map (expr_sql rt) ?cs"
    using sound by auto
  ultimately show "distinct ?cs" by (metis distinct_map)
qed

lemma truth_operand_cong:
  "evaluate rt row a = evaluate rt row b \<Longrightarrow> truth_operand rt row a = truth_operand rt row b"
  by (simp add: truth_operand_def)

lemma split_singleton: "set (split_conjuncts e) \<noteq> {e} \<Longrightarrow> c \<in> set (split_conjuncts e) \<Longrightarrow> c \<noteq> e"
proof -
  have "size c < size e \<or> c = e \<and> split_conjuncts e = [e]" if "c \<in> set (split_conjuncts e)" for c
    using that by (induction e arbitrary: c rule: split_conjuncts.induct) force+
  then show "set (split_conjuncts e) \<noteq> {e} \<Longrightarrow> c \<in> set (split_conjuncts e) \<Longrightarrow> c \<noteq> e" by fastforce
qed

lemma passes_normalized:
  assumes "normalize_conjuncts rt e = Inr m" and "connectives_typed rt row e"
    and "same_text_same_value rt row (split_conjuncts e)"
  shows "passes rt row m \<longleftrightarrow> passes rt row e"
proof -
  obtain cs where cs: "combine_conjuncts cs = Inr m" "set cs \<subseteq> set (split_conjuncts e)"
    "expr_sql rt ` set cs = expr_sql rt ` set (split_conjuncts e)" "distinct cs"
    using assms(1) by (rule normalize_set)
  have "(\<forall>c \<in> set cs. passes rt row c) \<longleftrightarrow> (\<forall>c \<in> set (split_conjuncts e). passes rt row c)"
  proof
    assume all: "\<forall>c \<in> set cs. passes rt row c"
    show "\<forall>c \<in> set (split_conjuncts e). passes rt row c"
    proof
      fix c assume c: "c \<in> set (split_conjuncts e)"
      then obtain c' where "c' \<in> set cs" and "expr_sql rt c = expr_sql rt c'"
        using cs(3) by (metis image_iff)
      with c cs(2) all assms(3) show "passes rt row c"
        unfolding passes_def same_text_same_value_def by (metis subsetD)
    qed
  qed (use cs(2) in auto)
  moreover have "length cs = 1 \<or> (\<forall>c \<in> set cs. truth_operand rt row c)"
  proof (cases "set (split_conjuncts e) = {e}")
    case True
    then have "card (set cs) \<le> 1" and "cs \<noteq> []"
      using cs(1,2) by (auto simp: subset_singleton_iff combine_conjuncts_def)
    then show ?thesis
      using distinct_card [OF cs(4)] by (cases cs) auto
  next
    case False
    then show ?thesis
      using conjunct_typed [OF assms(2)] split_singleton cs(2) by blast
  qed
  ultimately show ?thesis
    using passes_combine [OF cs(1)] passes_split [OF assms(2)] by blast
qed

text \<open>
  Merging a filter into the filter below it neither loses nor admits a row: the rewritten
  filter stands on the inner input, and a row passes its predicate exactly when it passes both
  original predicates, whatever duplicates the normalisation removed and whatever order it
  chose.
\<close>

theorem predicate_merge_keeps_rows:
  assumes "predicate_merge rt (Filter i (Filter j p inner s ph) outer s' ph') = Inr (Some q)"
    and "\<And>row ti. row \<in> rows \<Longrightarrow> connectives_typed rt row (Binary OP_AND inner outer ti)"
    and "\<And>row. row \<in> rows \<Longrightarrow>
      same_text_same_value rt row (split_conjuncts inner @ split_conjuncts outer)"
  shows "\<exists>m. q = Filter i p m (output_schema p) ph'
    \<and> (\<forall>row \<in> rows. passes rt row m \<longleftrightarrow> passes rt row inner \<and> passes rt row outer)"
proof -
  let ?and = "Binary OP_AND inner outer (expr_type inner)"
  from assms(1) obtain m where m: "normalize_conjuncts rt ?and = Inr m"
    and q: "q = Filter i p m (output_schema p) ph'"
    by (auto simp: bindR_eq_Inr combine_conjuncts_def)
  have "passes rt row m \<longleftrightarrow> passes rt row inner \<and> passes rt row outer" if "row \<in> rows" for row
  proof -
    have typed: "connectives_typed rt row ?and" using assms(2) that by blast
    have "connective_ok rt row ?and"
      using typed walk_self [of ?and] unfolding connectives_typed_def list_all_iff by blast
    then have "passes rt row ?and \<longleftrightarrow> passes rt row inner \<and> passes rt row outer"
      by (intro passes_and) simp_all
    moreover have "passes rt row m \<longleftrightarrow> passes rt row ?and"
      using assms(3) [OF that] by (intro passes_normalized [OF m typed]) simp
    ultimately show ?thesis by simp
  qed
  with q show ?thesis by blast
qed

theorem predicate_merge_keeps_rows_witness:
  "\<forall>rt. passes rt [''t.x'' \<mapsto> VInt 3, ''t.y'' \<mapsto> VInt 4]
     (Binary OP_AND (IsNull (Column ''x'' ''t'' int_type) True) (IsNull (Column ''y'' ''t'' int_type) True)
        (TypeInfo T_BOOLEAN False))"
proof (rule allI)
  fix rt :: py_runtime
  let ?x = "IsNull (Column ''x'' ''t'' int_type) True"
  let ?y = "IsNull (Column ''y'' ''t'' int_type) True"
  let ?xy = "Binary OP_AND ?x ?y (TypeInfo T_BOOLEAN False)"
  let ?row = "[''t.x'' \<mapsto> VInt 3, ''t.y'' \<mapsto> VInt 4]"
  let ?s = "\<lparr>sc_fields = [], sc_metadata = []\<rparr>"
  let ?p = "Filter ''b'' (Filter ''a'' (Scan ''s'' ''t'' ''t'' ?s) ?y ?s ''where'') ?x ?s ''where''"
  have m: "predicate_merge rt ?p = Inr (Some (Filter ''b'' (Scan ''s'' ''t'' ''t'' ?s) ?xy ?s ''where''))"
    by (simp add: combine_conjuncts_def normalize_conjuncts_def unique_by_sql_def dict_set_def
        qualified_name_def)
  have "connectives_typed rt ?row (Binary OP_AND ?y ?x ti)" for ti
    by (simp add: connectives_typed_def truth_operand_def walk_expression.simps
        is_tri_def qualified_name_def)
  moreover have "same_text_same_value rt ?row (split_conjuncts ?y @ split_conjuncts ?x)"
    by (simp add: same_text_same_value_def qualified_name_def)
  moreover have "passes rt ?row ?x" and "passes rt ?row ?y"
    by (simp_all add: passes_def qualified_name_def)
  ultimately show "passes rt ?row ?xy"
    using predicate_merge_keeps_rows [OF m, of "{?row}"] by auto
qed

section \<open>Inferred equalities\<close>

text \<open>The key of a term on a row: the order key of its value, if it has one.\<close>

definition term_key :: "py_runtime \<Rightarrow> row \<Rightarrow> expr \<Rightarrow> okey option" where
  "term_key rt row e = (case evaluate rt row e of Inl _ \<Rightarrow> None | Inr v \<Rightarrow> vkey v)"

lemma passes_equal:
  "passes rt row (Binary EQUAL l r ti) \<longleftrightarrow>
     term_key rt row l \<noteq> None \<and> term_key rt row l = term_key rt row r"
proof (cases "evaluate rt row l")
  case (Inl e)
  then show ?thesis by (simp add: passes_def term_key_def)
next
  case (Inr a)
  then show ?thesis
  proof (cases "evaluate rt row r")
    case (Inl e)
    with Inr show ?thesis by (cases "vkey a") (simp_all add: passes_def term_key_def)
  next
    case (Inr b)
    with \<open>evaluate rt row l = Inr a\<close> show ?thesis
      using vkey_None [of a] vkey_None [of b] py_eq_vkey [of a _ b] py_eq_nan(1) [of b]
      by (cases "vkey a") (auto simp: passes_def term_key_def binary_value_of_def is_nan_def)
  qed
qed

text \<open>
  The terms and edges collected from evidence that holds on a row: every term is an operand of
  the evidence with that text, and the two ends of an edge have the same key.
\<close>

definition closure_term :: "expr \<Rightarrow> bool" where
  "closure_term e \<longleftrightarrow> is_column e \<or> is_constant e"

definition operands :: "expr list \<Rightarrow> expr list" where
  "operands es = concat (map (\<lambda>e. case e of
       Binary op l r ti \<Rightarrow> if op = EQUAL \<and> closure_term l \<and> closure_term r then [l, r] else []
     | _ \<Rightarrow> []) es)"

text \<open>
  The terms are told apart by their text.  It decides their value when no constant has the text of a column,
  columns with the same text have the same name and constants with the same text have the same value.
\<close>

definition texts_decide :: "py_runtime \<Rightarrow> expr list \<Rightarrow> bool" where
  "texts_decide rt es \<longleftrightarrow> (\<forall>a \<in> set es. \<forall>b \<in> set es. expr_sql rt a = expr_sql rt b \<longrightarrow>
     is_column a \<and> is_column b \<and> column_name a = column_name b
     \<or> is_constant a \<and> is_constant b \<and> evaluate rt Map.empty a = evaluate rt Map.empty b)"

lemma texts_decide_values:
  assumes "texts_decide rt es"
  shows "same_text_same_value rt row es"
  unfolding same_text_same_value_def
proof (intro ballI impI)
  fix a b
  assume ab: "a \<in> set es" "b \<in> set es" "expr_sql rt a = expr_sql rt b"
  then consider "is_column a" "is_column b" "column_name a = column_name b"
    | "is_constant a" "is_constant b" "evaluate rt Map.empty a = evaluate rt Map.empty b"
    using assms unfolding texts_decide_def by blast
  then show "evaluate rt row a = evaluate rt row b"
  proof cases
    case 1
    then show ?thesis using ab(3) by (cases a; cases b) simp_all
  next
    case 2
    then show ?thesis using evaluate_constant by metis
  qed
qed

definition closure_ok ::
    "py_runtime \<Rightarrow> row \<Rightarrow> expr list \<Rightarrow> (string, expr) dict \<times> (string \<times> string) list \<Rightarrow> bool" where
  "closure_ok rt row es st \<longleftrightarrow>
     (\<forall>(t, x) \<in> set (fst st). x \<in> set (operands es) \<and> expr_sql rt x = t \<and> term_key rt row x \<noteq> None)
     \<and> (\<forall>(l, r) \<in> set (snd st). l \<in> fst ` set (fst st) \<and> r \<in> fst ` set (fst st))
     \<and> (\<forall>(l, r) \<in> set (snd st). \<exists>x y. x \<in> set (operands es) \<and> y \<in> set (operands es)
          \<and> expr_sql rt x = l \<and> expr_sql rt y = r \<and> term_key rt row x = term_key rt row y)"

lemma dict_set_in: "(k, v) \<in> set (dict_set d k' v') \<Longrightarrow> (k, v) \<in> set d \<or> k = k' \<and> v = v'"
  by (induction d) (auto simp: dict_set_def split: if_splits)

lemma closure_step_ok:
  assumes "closure_ok rt row es st" and "closure_step rt st e = Inr st'" and "e \<in> set es"
    and "passes rt row e"
  shows "closure_ok rt row es st'"
proof (cases "st' = st")
  case True
  then show ?thesis using assms(1) by simp
next
  case False
  then obtain l r ti where e: "e = Binary EQUAL l r ti"
    and st': "st' = (dict_set (dict_set (fst st) (expr_sql rt l) l) (expr_sql rt r) r,
                     snd st @ [(expr_sql rt l, expr_sql rt r)])"
    using assms(2)
    by (auto simp: closure_step_def bindR_eq_Inr split: expr.splits if_splits)
  have ops: "l \<in> set (operands es)" "r \<in> set (operands es)"
    using assms(2,3) e False
    by (auto simp: operands_def closure_term_def closure_step_def intro!: bexI [of _ e] split: if_splits)
  have keys: "term_key rt row l \<noteq> None" "term_key rt row l = term_key rt row r"
    using assms(4) unfolding e passes_equal by blast+
  show ?thesis
    using assms(1) ops keys unfolding closure_ok_def st'
    by (auto dest!: dict_set_in)
qed

lemma neighbours_set [simp]:
  "u \<in> set (neighbours edges t) \<longleftrightarrow> (t, u) \<in> set edges \<or> (u, t) \<in> set edges"
  by (force simp: neighbours_def)

lemma component_invariant:
  "(\<And>l r. (l, r) \<in> set edges \<Longrightarrow> P l \<longleftrightarrow> P r) \<Longrightarrow> \<forall>x \<in> set stack \<union> set found. P x
   \<Longrightarrow> x \<in> set (component edges stack found) \<Longrightarrow> P x"
proof (induction edges stack found rule: component.induct)
  case (2 edges t stack found)
  show ?case
  proof (cases "t \<in> set found")
    case True
    then show ?thesis using 2 by auto
  next
    case False
    have "P t" using "2.prems"(2) by simp
    then have "P u" if "u \<in> set (neighbours edges t)" for u
      using "2.prems"(1) that by auto
    with \<open>P t\<close> "2.prems"(2) have "\<forall>x \<in> set (filter (\<lambda>u. u \<notin> set (t # found)) (neighbours edges t) @ stack)
        \<union> set (t # found). P x"
      by (auto simp del: neighbours_set)
    from "2.IH"(2) [OF False "2.prems"(1) this] "2.prems"(3) False show ?thesis by simp
  qed
qed simp

lemma component_closed:
  assumes "\<forall>x \<in> set found. \<forall>u \<in> set (neighbours edges x). u \<in> set found \<union> set stack"
  shows "set stack \<union> set found \<subseteq> set (component edges stack found)
    \<and> (\<forall>x \<in> set (component edges stack found). set (neighbours edges x) \<subseteq> set (component edges stack found))"
  using assms
proof (induction edges stack found rule: component.induct)
  case (2 edges t stack found)
  show ?case
  proof (cases "t \<in> set found")
    case True
    with "2.prems" have "\<forall>x \<in> set found. \<forall>u \<in> set (neighbours edges x). u \<in> set found \<union> set stack"
      by auto
    from "2.IH"(1) [OF True this] True show ?thesis by (simp del: neighbours_set) blast
  next
    case False
    have "\<forall>x \<in> set (t # found). \<forall>u \<in> set (neighbours edges x).
        u \<in> set (t # found) \<union> set (filter (\<lambda>u. u \<notin> set (t # found)) (neighbours edges t) @ stack)"
      using "2.prems" by (simp del: neighbours_set) blast
    from "2.IH"(2) [OF False this] False show ?thesis by (simp del: neighbours_set)
  qed
qed auto

lemma distinct_component: "distinct found \<Longrightarrow> distinct (component edges stack found)"
  by (induction edges stack found rule: component.induct) auto

lemma pairs_set: "p \<in> set (pairs xs) \<Longrightarrow> fst p \<in> set xs \<and> snd p \<in> set xs"
  by (induction xs) auto

lemma component_pairs_origin:
  "x \<in> set (component_pairs terms edges ts visited) \<Longrightarrow>
     \<exists>t \<in> set ts. \<exists>p \<in> set (pairs (sort (component edges [t] []))). x = equality_of terms p"
  by (induction ts arbitrary: visited) (auto simp: Let_def split: if_splits)

lemma closure_ok_term:
  assumes "closure_ok rt row es (terms, edges)" and "dict_get terms u = Some y"
  shows "y \<in> set (operands es) \<and> expr_sql rt y = u \<and> term_key rt row y \<noteq> None"
  using assms(1) dict_get_Some_in [OF assms(2)] unfolding closure_ok_def by auto

lemma closure_ok_edge:
  assumes "closure_ok rt row es (terms, edges)" and "(u, w) \<in> set edges"
  obtains a b where "a \<in> set (operands es)" "b \<in> set (operands es)" "expr_sql rt a = u"
    "expr_sql rt b = w" "term_key rt row a = term_key rt row b"
    "u \<in> fst ` set terms" "w \<in> fst ` set terms"
  using assms unfolding closure_ok_def by fastforce

lemma component_keys:
  assumes ok: "closure_ok rt row es (terms, edges)"
    and same: "same_text_same_value rt row (operands es)" and t: "t \<in> fst ` set terms"
  shows "\<exists>k. \<forall>u \<in> set (component edges [t] []). term_key rt row (the (dict_get terms u)) = Some k"
proof -
  obtain x where x: "dict_get terms t = Some x" using t by (cases "dict_get terms t") auto
  note xt = closure_ok_term [OF ok x]
  then obtain k where "term_key rt row x = Some k" by blast
  with xt have k: "x \<in> set (operands es)" "expr_sql rt x = t" "term_key rt row x = Some k" by simp_all
  define P where "P u \<longleftrightarrow> u \<in> fst ` set terms
      \<and> (\<exists>y \<in> set (operands es). expr_sql rt y = u \<and> term_key rt row y = Some k)" for u
  have key_unique: "term_key rt row y = Some k"
    if u: "P u" and y: "y \<in> set (operands es)" "expr_sql rt y = u" for u y
  proof -
    obtain z where z: "z \<in> set (operands es)" "expr_sql rt z = u" "term_key rt row z = Some k"
      using u unfolding P_def by blast
    then have "expr_sql rt y = expr_sql rt z" using y(2) by simp
    then have "evaluate rt row y = evaluate rt row z"
      using same y(1) z(1) unfolding same_text_same_value_def by blast
    then show ?thesis using z(3) by (simp add: term_key_def)
  qed
  have edge: "P u \<longleftrightarrow> P w" if uw: "(u, w) \<in> set edges" for u w
  proof -
    obtain a b where ab: "a \<in> set (operands es)" "b \<in> set (operands es)" "expr_sql rt a = u"
      "expr_sql rt b = w" "term_key rt row a = term_key rt row b"
      "u \<in> fst ` set terms" "w \<in> fst ` set terms"
      by (rule closure_ok_edge [OF ok uw])
    show ?thesis
    proof
      assume "P u"
      then have "term_key rt row b = Some k" using key_unique [OF _ ab(1,3)] ab(5) by simp
      with ab(2,4,7) show "P w" unfolding P_def by blast
    next
      assume "P w"
      then have "term_key rt row a = Some k" using key_unique [OF _ ab(2,4)] ab(5) by simp
      with ab(1,3,6) show "P u" unfolding P_def by blast
    qed
  qed
  have "P t" using t k unfolding P_def by blast
  then have "P u" if "u \<in> set (component edges [t] [])" for u
    using component_invariant [of edges P "[t]" "[]", OF edge _ that] by simp
  moreover have "term_key rt row (the (dict_get terms u)) = Some k" if u: "P u" for u
  proof -
    obtain y where y: "dict_get terms u = Some y"
      using u unfolding P_def by (cases "dict_get terms u") auto
    have "term_key rt row y = Some k"
      using closure_ok_term [OF ok y] by (intro key_unique [OF u]) simp_all
    with y show ?thesis by simp
  qed
  ultimately show ?thesis by blast
qed

text \<open>
  C28.  Every equality that \<open>_equality_closure\<close> infers holds on every row on which all the
  evidence holds, provided that the texts of the terms decide their values (\<open>texts_decide\<close>, a condition
  on the evidence alone: no two different constants are written alike, no constant like a column).
  Joining two terms of a connected component is then sound across the numeric classes, \<open>NULL\<close> and
  \<open>nan\<close>, because an equality that holds never has such a value on a side.  Without the proviso it is
  false: \<open>equal_texts_merge_constants\<close> shows a row that loses.
\<close>

theorem inferred_equalities_hold:
  assumes "equality_closure rt es = Inr inferred"
    and "\<forall>e \<in> set es. passes rt row e"
    and "texts_decide rt (operands es)"
    and "x \<in> set inferred"
  shows "passes rt row x"
proof -
  obtain terms edges where st: "foldR (closure_step rt) ([], []) es = Inr (terms, edges)"
    and inf: "inferred = component_pairs terms edges (sort (map fst terms)) {}"
    using assms(1) by (auto simp: equality_closure_def bindR_eq_Inr)
  have ok: "closure_ok rt row es (terms, edges)"
  proof (rule foldR_invariant [OF st])
    show "closure_ok rt row es ([], [])" by (simp add: closure_ok_def)
  qed (use closure_step_ok assms(2) in blast)
  from component_pairs_origin [OF assms(4) [unfolded inf]] obtain t p where
    t: "t \<in> fst ` set terms" and p: "p \<in> set (pairs (sort (component edges [t] [])))"
    and x: "x = equality_of terms p" by auto
  obtain k where "\<forall>u \<in> set (component edges [t] []). term_key rt row (the (dict_get terms u)) = Some k"
    using component_keys [OF ok texts_decide_values [OF assms(3)] t] by blast
  with pairs_set [OF p] show ?thesis
    unfolding x equality_of_def Let_def passes_equal by simp
qed

theorem inferred_equalities_hold_witness:
  "\<forall>rt. passes rt [''t.x'' \<mapsto> VInt 3, ''t.y'' \<mapsto> VInt 3, ''t.z'' \<mapsto> VFloat (Fin 3)]
     (Binary EQUAL (Column ''x'' ''t'' int_type) (Column ''z'' ''t'' int_type) (TypeInfo T_BOOLEAN True))"
proof (rule allI)
  fix rt :: py_runtime
  let ?x = "Column ''x'' ''t'' int_type"
  let ?y = "Column ''y'' ''t'' int_type"
  let ?z = "Column ''z'' ''t'' int_type"
  let ?b = "TypeInfo T_BOOLEAN True"
  let ?row = "[''t.x'' \<mapsto> VInt 3, ''t.y'' \<mapsto> VInt 3, ''t.z'' \<mapsto> VFloat (Fin 3)]"
  let ?es = "[Binary EQUAL ?x ?y ?b, Binary EQUAL ?y ?z ?b]"
  have "equality_closure rt ?es = Inr [Binary EQUAL ?x ?y ?b, Binary EQUAL ?x ?z ?b, Binary EQUAL ?y ?z ?b]"
    by (simp add: equality_closure_def closure_step_def constant_is_null_def is_constant_def
        walk_expression.simps qualified_name_def dict_set_def neighbours_def Let_def
        equality_of_def dict_get_def int_type_def)
  moreover have "\<forall>e \<in> set ?es. passes rt ?row e"
    by (simp add: passes_def binary_value_of_def qualified_name_def py_eq_def)
  moreover have "texts_decide rt (operands ?es)"
    by (simp add: texts_decide_def operands_def closure_term_def qualified_name_def)
  ultimately show "passes rt ?row (Binary EQUAL ?x ?z ?b)"
    by (rule inferred_equalities_hold) simp
qed

text \<open>
  Constants of different classes that are written alike become one term.  The double nearest to 0.1 and the
  decimal 0.1 both have the text \<open>0.1\<close>, so that from \<open>t.f = 0.1\<close> over the double and \<open>t.d = 0.1\<close> over the
  decimal the equality \<open>t.d = t.f\<close> is inferred: the row that satisfies both conditions does not satisfy it,
  and the rewritten filter loses the row.
\<close>

lemma equal_texts_merge_constants:
  defines "tenth \<equiv> Fin (3602879701896397 / 36028797018963968)"
    and "f \<equiv> Column ''f'' ''t'' (TypeInfo T_FLOAT64 True)" and "d \<equiv> Column ''d'' ''t'' (TypeInfo T_DECIMAL True)"
    and "b \<equiv> TypeInfo T_BOOLEAN True"
  assumes "rt_float_repr rt tenth = ''0.1''"
  shows "\<exists>es inferred x. es = [Binary EQUAL f (Literal (VFloat tenth) (TypeInfo T_FLOAT64 False)) b,
        Binary EQUAL d (Literal (VDecimal 1 (-1)) (TypeInfo T_DECIMAL False)) b]
    \<and> equality_closure rt es = Inr inferred \<and> x \<in> set inferred
    \<and> (\<forall>e \<in> set es. passes rt [''t.f'' \<mapsto> VFloat tenth, ''t.d'' \<mapsto> VDecimal 1 (-1)] e)
    \<and> \<not> passes rt [''t.f'' \<mapsto> VFloat tenth, ''t.d'' \<mapsto> VDecimal 1 (-1)] x"
proof -
  let ?es = "[Binary EQUAL f (Literal (VFloat tenth) (TypeInfo T_FLOAT64 False)) b,
        Binary EQUAL d (Literal (VDecimal 1 (-1)) (TypeInfo T_DECIMAL False)) b]"
  let ?x = "Binary EQUAL d f (TypeInfo T_BOOLEAN True)"
  have written: "decimal_str 1 (-1) = ''0.1''" by code_simp
  have "\<exists>inferred. equality_closure rt ?es = Inr inferred \<and> ?x \<in> set inferred"
    using assms(5)
    by (simp add: f_def d_def b_def equality_closure_def closure_step_def constant_is_null_def is_constant_def
        walk_expression.simps qualified_name_def dict_set_def neighbours_def Let_def
        equality_of_def dict_get_def literal_sql_def written tenth_def)
  moreover have "\<forall>e \<in> set ?es. passes rt [''t.f'' \<mapsto> VFloat tenth, ''t.d'' \<mapsto> VDecimal 1 (-1)] e"
    by (simp add: f_def d_def passes_def binary_value_of_def qualified_name_def py_eq_def tenth_def)
  moreover have "\<not> passes rt [''t.f'' \<mapsto> VFloat tenth, ''t.d'' \<mapsto> VDecimal 1 (-1)] ?x"
    by (simp add: f_def d_def passes_def binary_value_of_def qualified_name_def py_eq_def tenth_def
        decimal_rat_def pow10_def)
  ultimately show ?thesis by blast
qed

section \<open>The driver's verdict\<close>

definition rule_idle :: "plan \<Rightarrow> rule \<Rightarrow> bool" where
  "rule_idle p r = (case run_rule r p of Inl _ \<Rightarrow> False
     | Inr out \<Rightarrow> fst out = None \<or> fst out = Some p)"

lemma rule_step_cases:
  assumes "rule_step rt k st r = Inr st'"
  shows "st' = st \<and> rule_idle (rs_plan st) r \<or> rs_changed st'"
proof (cases "run_rule r (rs_plan st)")
  case (Inl e)
  then show ?thesis using assms by (simp add: rule_step_def)
next
  case (Inr out)
  then show ?thesis
    using assms by (cases out; cases "fst out") (auto simp: rule_step_def rule_idle_def split: if_splits)
qed

lemma rule_step_mono: "rule_step rt k st r = Inr st' \<Longrightarrow> rs_changed st \<Longrightarrow> rs_changed st'"
  using rule_step_cases by metis

lemma round_changed:
  "foldR (rule_step rt k) st rules = Inr st' \<Longrightarrow> rs_changed st \<Longrightarrow> rs_changed st'"
  by (erule foldR_invariant) (auto intro: rule_step_mono)

lemma round_unchanged:
  "foldR (rule_step rt k) st rules = Inr st' \<Longrightarrow> \<not> rs_changed st' \<Longrightarrow>
     st' = st \<and> (\<forall>r \<in> set rules. rule_idle (rs_plan st) r)"
proof (induction rules arbitrary: st)
  case (Cons r rules)
  then obtain t where t: "rule_step rt k st r = Inr t" "foldR (rule_step rt k) t rules = Inr st'"
    by (auto simp: bindR_eq_Inr)
  with Cons.prems(2) round_changed have "\<not> rs_changed t" by blast
  with rule_step_cases [OF t(1)] Cons.IH [OF t(2) Cons.prems(2)] show ?case by auto
qed simp

lemma optimize_loop_verdict:
  "optimize_loop rt rules orig n k p tr seen = Inr res \<Longrightarrow> 1 \<le> k \<Longrightarrow>
     or_original_plan res = orig \<and> or_iterations res \<le> k - 1 + n
   \<and> or_termination res \<in> {''fixed_point'', ''cycle_detected'', ''max_iterations''}
   \<and> (converged res \<longrightarrow> (\<forall>r \<in> set rules. rule_idle (or_optimized_plan res) r))"
proof (induction n arbitrary: k p tr seen)
  case 0
  then show ?case by (auto simp: converged_def)
next
  case (Suc n)
  from Suc.prems(1) obtain st where
    round: "foldR (rule_step rt k) \<lparr>rs_changed = False, rs_plan = p, rs_trace = tr\<rparr> rules = Inr st"
    and rest: "(if \<not> rs_changed st then
           Inr \<lparr>or_original_plan = orig, or_optimized_plan = rs_plan st, or_trace = rs_trace st,
                or_iterations = k, or_termination = ''fixed_point''\<rparr>
         else if rs_plan st \<in> set seen then
           Inr \<lparr>or_original_plan = orig, or_optimized_plan = rs_plan st, or_trace = rs_trace st,
                or_iterations = k, or_termination = ''cycle_detected''\<rparr>
         else optimize_loop rt rules orig n (Suc k) (rs_plan st) (rs_trace st)
                (rs_plan st # seen)) = Inr res"
    by (auto simp: bindR_eq_Inr)
  consider "\<not> rs_changed st" | "rs_changed st" "rs_plan st \<in> set seen"
    | "rs_changed st" "rs_plan st \<notin> set seen" by blast
  then show ?case
  proof cases
    case 1
    with rest round_unchanged [OF round] Suc.prems(2) show ?thesis by (auto simp: converged_def)
  next
    case 2
    with rest Suc.prems(2) show ?thesis by (auto simp: converged_def)
  next
    case 3
    with rest Suc.IH [of "Suc k"] Suc.prems(2) show ?thesis by fastforce
  qed
qed

text \<open>
  C29.  The optimizer's answer means what its verdict says: it uses at most \<open>max_iterations\<close>
  rounds and keeps the original plan, and when it reports a fixed point, no rule of the set
  changes the optimized plan any more.
\<close>

theorem optimizer_verdict:
  assumes "optimize rt rules max_iterations p = Inr res"
  shows "or_original_plan res = p \<and> int (or_iterations res) \<le> max_iterations
   \<and> or_termination res \<in> {''fixed_point'', ''cycle_detected'', ''max_iterations''}
   \<and> (converged res \<longrightarrow> (\<forall>r \<in> set rules. rule_idle (or_optimized_plan res) r))"
  using assms optimize_loop_verdict [of rt rules p "nat max_iterations" 1 p "[]" "[p]" res]
  by (auto simp: optimize_def split: if_splits)

theorem optimizer_verdict_witness:
  "rule_idle (Scan ''s'' ''t'' ''t'' \<lparr>sc_fields = [], sc_metadata = []\<rparr>)
     \<lparr>rule_name = ''limit_pushdown_project'', rule_whole_plan = False, rule_apply = limit_pushdown_project\<rparr>"
proof -
  let ?p = "Scan ''s'' ''t'' ''t'' \<lparr>sc_fields = [], sc_metadata = []\<rparr>"
  let ?r = "\<lparr>rule_name = ''limit_pushdown_project'', rule_whole_plan = False, rule_apply = limit_pushdown_project\<rparr>"
  let ?res = "\<lparr>or_original_plan = ?p, or_optimized_plan = ?p, or_trace = [], or_iterations = 1,
    or_termination = ''fixed_point''\<rparr>"
  have "optimize rt [?r] 1 ?p = Inr ?res"
    by (simp add: optimize_def rule_step_def run_rule_def apply_recursive.simps [of _ ?p] finish_node_def)
  from optimizer_verdict [OF this] show ?thesis by (simp add: converged_def)
qed

end
