(* ===== verification/PlanSkeleton.thy ===== *)
theory PlanSkeleton
  imports Optimizer
begin

text \<open>
  What the optimizer never touches: the arrangement of scans, joins, aggregates, limits, orders
  and windows.  Rules move and rewrite filters and projections around it, prune columns and hint
  limits; this instance of \<open>plan_refinement\<close> carries the law from the rules to the driver.
\<close>

section \<open>The skeleton of a plan\<close>

datatype skeleton =
    S_Scan string string string
  | S_Join string skeleton skeleton string string
  | S_Aggregate string nat nat skeleton
  | S_Limit int skeleton
  | S_Order string nat skeleton
  | S_Window string skeleton
  | S_GroupingSets string nat skeleton
  | S_Exchange string partition_strategy int skeleton

fun skeleton_of :: "plan \<Rightarrow> skeleton" where
  "skeleton_of (Scan i t a s) = S_Scan i t a"
| "skeleton_of (Project i p es s) = skeleton_of p"
| "skeleton_of (Filter i p e s ph) = skeleton_of p"
| "skeleton_of (Aggregate i p gs as s) = S_Aggregate i (length gs) (length as) (skeleton_of p)"
| "skeleton_of (Join i l r jt c s inlim b) = S_Join i (skeleton_of l) (skeleton_of r) jt b"
| "skeleton_of (Limit i p n s) = S_Limit n (skeleton_of p)"
| "skeleton_of (Order i p os s) = S_Order i (length os) (skeleton_of p)"
| "skeleton_of (Window i p es s) = S_Window i (skeleton_of p)"
| "skeleton_of (GroupingSets i p gss as s) = S_GroupingSets i (length gss) (skeleton_of p)"
| "skeleton_of (Exchange i p st ks n s) = S_Exchange i st n (skeleton_of p)"

definition same_skeleton :: "plan \<Rightarrow> plan \<Rightarrow> bool" where
  "same_skeleton q p \<longleftrightarrow> skeleton_of q = skeleton_of p"

lemma make_join_skeleton:
  "make_join i l r jt c s inlim b = Inr q \<Longrightarrow> skeleton_of q = S_Join i (skeleton_of l) (skeleton_of r) jt b"
  by (auto simp: make_join_def split: if_splits)

lemma Inr_eq_bindR: "Inr v = bindR r f \<longleftrightarrow> (\<exists>x. r = Inr x \<and> f x = Inr v)"
  using bindR_eq_Inr [of r f v] by metis

lemma replace_children_skeleton:
  assumes "list_all2 same_skeleton cs (children p)" and "replace_children p cs = Inr q"
  shows "same_skeleton q p"
  using assms
  by (cases p) (auto simp: same_skeleton_def list_all2_Cons2 bindR_eq_Inr dest!: make_join_skeleton split: if_splits)

interpretation shape: plan_refinement same_skeleton
proof unfold_locales
  show "same_skeleton r p" if "same_skeleton r q" and "same_skeleton q p" for r q p
    using that by (simp add: same_skeleton_def)
qed (simp_all add: same_skeleton_def [of p p for p] replace_children_skeleton)

section \<open>Every rule keeps it\<close>

lemma length_mapR: "mapR f xs = Inr ys \<Longrightarrow> length ys = length xs"
  by (rule mapR_length)

lemma map_plan_expressions_skeleton:
  "map_plan_expressions f p = Inr q \<Longrightarrow> skeleton_of q = skeleton_of p"
  by (cases p) (auto simp: bindR_eq_Inr Inr_eq_bindR dest: mapR_length make_join_skeleton)

lemma constant_folding_sound: "shape.sound_apply (constant_folding rt)"
  unfolding shape.sound_apply_def
  by (auto simp: constant_folding_def bindR_eq_Inr Inr_eq_bindR same_skeleton_def
      dest: map_plan_expressions_skeleton split: if_splits)

lemma predicate_merge_sound: "shape.sound_apply (predicate_merge rt)"
  unfolding shape.sound_apply_def
  by (intro allI impI, elim predicate_merge.elims)
    (auto simp: same_skeleton_def bindR_eq_Inr Inr_eq_bindR split: plan.splits if_splits)

lemma equality_inference_sound: "shape.sound_apply (equality_inference rt)"
  unfolding shape.sound_apply_def
  by (intro allI impI, elim equality_inference.elims)
    (auto simp: same_skeleton_def bindR_eq_Inr Inr_eq_bindR Let_def split: if_splits)

lemma pushdown_project_sound: "shape.sound_apply pushdown_project"
  unfolding shape.sound_apply_def
  by (intro allI impI, elim pushdown_project.elims)
    (auto simp: same_skeleton_def bindR_eq_Inr Inr_eq_bindR Let_def split: if_splits)

lemma pushdown_aggregate_sound: "shape.sound_apply (pushdown_aggregate rt)"
  unfolding shape.sound_apply_def
  by (intro allI impI, elim pushdown_aggregate.elims)
    (auto simp: same_skeleton_def bindR_eq_Inr Inr_eq_bindR Let_def split: if_splits)

lemma filter_side_skeleton: "filter_side i p cs ph = Inr q \<Longrightarrow> skeleton_of q = skeleton_of p"
  by (auto simp: filter_side_def bindR_eq_Inr Inr_eq_bindR split: if_splits)

lemma pushdown_join_sound: "shape.sound_apply pushdown_join"
  unfolding shape.sound_apply_def
  by (intro allI impI, elim pushdown_join.elims)
    (auto simp: same_skeleton_def bindR_eq_Inr Inr_eq_bindR Let_def dest!: filter_side_skeleton make_join_skeleton
      split: if_splits)

lemma limit_pushdown_project_sound: "shape.sound_apply limit_pushdown_project"
  unfolding shape.sound_apply_def
  by (intro allI impI, elim limit_pushdown_project.elims) (auto simp: same_skeleton_def)

lemma limit_join_input_hint_sound: "shape.sound_apply limit_join_input_hint"
  unfolding shape.sound_apply_def
  by (intro allI impI, elim limit_join_input_hint.elims)
    (auto simp: same_skeleton_def bindR_eq_Inr Inr_eq_bindR dest!: make_join_skeleton split: if_splits)

lemma prune_skeleton: "prune rt p required = Inr q \<Longrightarrow> skeleton_of q = skeleton_of p"
  by (induction rt p required arbitrary: q rule: prune.induct)
    (auto simp: bindR_eq_Inr Inr_eq_bindR Let_def dest!: make_join_skeleton)

lemma column_pruning_sound: "shape.sound_apply (column_pruning rt)"
  unfolding shape.sound_apply_def
  by (auto simp: column_pruning_def bindR_eq_Inr Inr_eq_bindR same_skeleton_def dest: prune_skeleton split: if_splits)

lemmas rules_sound = constant_folding_sound predicate_merge_sound equality_inference_sound
  pushdown_project_sound pushdown_aggregate_sound pushdown_join_sound limit_pushdown_project_sound
  limit_join_input_hint_sound column_pruning_sound

text \<open>
  C37. The optimizer with its default rules never adds, drops, reorders or changes a scan, join (its
  type and build side), aggregate, limit, order, window or exchange: only filters and projections
  move around this skeleton of the plan.
\<close>

theorem optimizer_keeps_skeleton:
  assumes "optimize_plan rt (default_rules rt) n p = Inr q"
  shows "skeleton_of q = skeleton_of p"
proof -
  have "\<forall>r \<in> set (default_rules rt). shape.sound_apply (rule_apply r)"
    by (simp add: default_rules_def rules_sound)
  from shape.optimize_sound [OF this assms] show ?thesis by (simp add: same_skeleton_def)
qed

text \<open>A limit over a projection, which the optimizer exchanges.\<close>

definition limit_example :: plan where
  "limit_example = Limit ''l'' (Project ''p'' (Scan ''s'' ''t'' ''t'' \<lparr>sc_fields = [], sc_metadata = []\<rparr>) []
     \<lparr>sc_fields = [], sc_metadata = []\<rparr>) 5 \<lparr>sc_fields = [], sc_metadata = []\<rparr>"

definition limit_example_optimized :: plan where
  "limit_example_optimized = Project ''p'' (Limit ''l'' (Scan ''s'' ''t'' ''t'' \<lparr>sc_fields = [], sc_metadata = []\<rparr>)
     5 \<lparr>sc_fields = [], sc_metadata = []\<rparr>) [] \<lparr>sc_fields = [], sc_metadata = []\<rparr>"

lemma apply_recursive_nodes:
  "apply_recursive f (Scan i t a s) = bindR (f (Scan i t a s)) (\<lambda>rw.
     Inr (finish_node (Scan i t a s) (Scan i t a s) rw []))"
  "apply_recursive f (Limit i p n s) = bindR (apply_recursive f p) (\<lambda>(r, ch).
     let c = actual_child p r; q = (if c \<noteq> p then Limit i c n (output_schema c) else Limit i p n s) in
     bindR (f q) (\<lambda>rw. Inr (finish_node (Limit i p n s) q rw ch)))"
  "apply_recursive f (Project i p es s) = bindR (apply_recursive f p) (\<lambda>(r, ch).
     let c = actual_child p r; q = (if c \<noteq> p then Project i c es s else Project i p es s) in
     bindR (f q) (\<lambda>rw. Inr (finish_node (Project i p es s) q rw ch)))"
  by (subst apply_recursive.simps; cases "apply_recursive f p"; force simp: Let_def split: prod.splits)+

lemma limit_example_optimizes:
  "optimize_plan rt (default_rules rt) 1 limit_example = Inr limit_example_optimized"
  by (simp add: optimize_plan_def optimize_def default_rules_def limit_example_def limit_example_optimized_def
      rule_step_def run_rule_def apply_recursive_nodes finish_node_def constant_folding_def
      column_pruning_def schema_subset_def make_schema_def schema_for_expressions_def)

theorem optimizer_keeps_skeleton_witness:
  "skeleton_of limit_example_optimized = S_Limit 5 (S_Scan ''s'' ''t'' ''t'')"
  using optimizer_keeps_skeleton [OF limit_example_optimizes] by (simp add: limit_example_def)

end
