(* ===== verification/Memory.thy ===== *)
theory Memory
  imports Errors
begin

text \<open>
  Memory accounting and spill bookkeeping (\<open>execution/memory.py\<close>): accounts that nest under a
  query account, all-or-nothing reservations along the chain of parents, the spill metrics and
  the names of temporary files.  All accounts of a query share one lock, so each operation is
  one step on the list of accounts; an account is its index, and \<open>child\<close> appends, so a parent
  has a smaller index.
\<close>

section \<open>Accounts\<close>

record account =
  ac_name :: string
  ac_limit :: int
  ac_parent :: "nat option"
  ac_current :: int
  ac_peak :: int

type_synonym accounts = "account list"

definition new_account ::
    "accounts \<Rightarrow> string \<Rightarrow> int \<Rightarrow> nat option \<Rightarrow> (nat \<times> accounts) res" where
  "new_account as name limit parent =
     (if limit \<le> 0 then Inl PyValueError
      else Inr (length as, as @ [\<lparr>ac_name = name, ac_limit = limit, ac_parent = parent,
                                  ac_current = 0, ac_peak = 0\<rparr>]))"

definition child :: "accounts \<Rightarrow> nat \<Rightarrow> string \<Rightarrow> int option \<Rightarrow> (nat \<times> accounts) res" where
  "child as i name limit =
     new_account as name (case limit of None \<Rightarrow> ac_limit (as ! i) | Some l \<Rightarrow> l) (Some i)"

text \<open>\<open>_chain\<close>: the account and its ancestors; a parent always has a smaller index.\<close>

function chain :: "accounts \<Rightarrow> nat \<Rightarrow> nat list" where
  "chain as i = i # (case ac_parent (as ! i) of
       None \<Rightarrow> [] | Some p \<Rightarrow> if p < i then chain as p else [])"
  by pat_completeness auto
termination
  by (relation "measure snd") auto

declare chain.simps [simp del]

definition charge :: "int \<Rightarrow> account \<Rightarrow> account" where
  "charge n a = a\<lparr>ac_current := ac_current a + n, ac_peak := max (ac_peak a) (ac_current a + n)\<rparr>"

definition refund :: "int \<Rightarrow> account \<Rightarrow> account" where
  "refund n a = a\<lparr>ac_current := ac_current a - n\<rparr>"

text \<open>Apply an update to the accounts of a chain.\<close>

definition on_chain :: "(account \<Rightarrow> account) \<Rightarrow> nat list \<Rightarrow> accounts \<Rightarrow> accounts" where
  "on_chain f ids as = fold (\<lambda>j as. as[j := f (as ! j)]) ids as"

definition reserve :: "accounts \<Rightarrow> nat \<Rightarrow> int \<Rightarrow> accounts res" where
  "reserve as i n =
     (if n < 0 then Inl PyValueError
      else if n = 0 then Inr as
      else if list_ex (\<lambda>j. ac_current (as ! j) + n > ac_limit (as ! j)) (chain as i)
      then Inl MemoryLimitExceeded
      else Inr (on_chain (charge n) (chain as i) as))"

definition try_reserve :: "accounts \<Rightarrow> nat \<Rightarrow> int \<Rightarrow> (bool \<times> accounts) res" where
  "try_reserve as i n = (case reserve as i n of
       Inr as' \<Rightarrow> Inr (True, as')
     | Inl e \<Rightarrow> if e = MemoryLimitExceeded then Inr (False, as) else Inl e)"

definition release :: "accounts \<Rightarrow> nat \<Rightarrow> int \<Rightarrow> accounts res" where
  "release as i n =
     (if n < 0 then Inl PyValueError
      else if n = 0 then Inr as
      else if n > ac_current (as ! i) then Inl PyValueError
      else Inr (on_chain (refund n) (chain as i) as))"

section \<open>Spill metrics\<close>

record spill_metrics =
  spill_bytes :: int
  spill_files :: int
  spill_count :: int
  peak_memory_bytes :: int
  external_sort_runs :: int
  hash_partitions :: int
  sort_merge_fallbacks :: int
  sort_aggregate_runs :: int

definition no_spills :: spill_metrics where
  "no_spills = \<lparr>spill_bytes = 0, spill_files = 0, spill_count = 0, peak_memory_bytes = 0,
     external_sort_runs = 0, hash_partitions = 0, sort_merge_fallbacks = 0, sort_aggregate_runs = 0\<rparr>"

definition add_metrics :: "spill_metrics \<Rightarrow> spill_metrics \<Rightarrow> spill_metrics" where
  "add_metrics a b =
     \<lparr>spill_bytes = spill_bytes a + spill_bytes b,
      spill_files = spill_files a + spill_files b,
      spill_count = spill_count a + spill_count b,
      peak_memory_bytes = max (peak_memory_bytes a) (peak_memory_bytes b),
      external_sort_runs = external_sort_runs a + external_sort_runs b,
      hash_partitions = hash_partitions a + hash_partitions b,
      sort_merge_fallbacks = sort_merge_fallbacks a + sort_merge_fallbacks b,
      sort_aggregate_runs = sort_aggregate_runs a + sort_aggregate_runs b\<rparr>"

section \<open>Temporary files\<close>

definition safe_name :: "string \<Rightarrow> string" where
  "safe_name s =
     (let cleaned = map (\<lambda>c. if is_alnum c \<or> c \<in> {CHR ''-'', CHR ''_''} then c else CHR ''_'') s
      in if take 80 cleaned = [] then ''unknown'' else take 80 cleaned)"

text \<open>
  A manager with the tables it wrote, by path, in order.  \<open>attempt\<close> is the random directory
  name; the outcome of a write, \<open>Some (errno, text)\<close> when the file system refuses it, is an
  argument.
\<close>

record 'r temp_files =
  tf_root :: string
  tf_query :: string
  tf_task :: string
  tf_attempt :: string
  tf_files :: "(string \<times> 'r) list"

definition new_temp_files :: "string \<Rightarrow> string \<Rightarrow> string \<Rightarrow> string \<Rightarrow> 'r temp_files" where
  "new_temp_files base query task attempt =
     \<lparr>tf_root = base, tf_query = safe_name query, tf_task = safe_name task, tf_attempt = attempt,
      tf_files = []\<rparr>"

definition directory :: "'r temp_files \<Rightarrow> string" where
  "directory t = tf_root t @ ''/'' @ tf_query t @ ''/'' @ tf_task t @ ''/attempt-'' @ tf_attempt t"

definition next_path :: "'r temp_files \<Rightarrow> string \<Rightarrow> string" where
  "next_path t prefix =
     directory t @ ''/'' @ safe_name prefix @ ''-'' @ fmt05 (length (tf_files t)) @ ''.parquet''"

definition enospc :: int where
  "enospc = 28"

definition spill_error :: "'r temp_files \<Rightarrow> int \<times> string \<Rightarrow> exn" where
  "spill_error t err = raise_domain RESOURCE_EXHAUSTED
     (if fst err = enospc then ''Temporary spill storage is full.''
      else ''Temporary spill write failed: '' @ snd err)
     507 [(''query_id'', CStr (tf_query t)), (''task_id'', CStr (tf_task t)),
          (''temp_root'', CStr (tf_root t))]"

definition write_table ::
    "'r temp_files \<Rightarrow> string \<Rightarrow> 'r \<Rightarrow> (int \<times> string) option \<Rightarrow> (string \<times> 'r temp_files) res" where
  "write_table t prefix table outcome = (case outcome of
       None \<Rightarrow> Inr (next_path t prefix, t\<lparr>tf_files := tf_files t @ [(next_path t prefix, table)]\<rparr>)
     | Some err \<Rightarrow> Inl (spill_error t err))"

text \<open>\<open>estimate_row_size\<close>, given the UTF-8 length of the row's \<open>repr\<close>.\<close>

definition estimate_row_size :: "nat \<Rightarrow> int" where
  "estimate_row_size repr_bytes = max 64 (int repr_bytes + 64)"

lemma estimate_row_size_pos: "0 < estimate_row_size n"
  by (simp add: estimate_row_size_def)

section \<open>Chains\<close>

lemma chain_head: "i \<in> set (chain as i)"
  by (subst chain.simps) simp

lemma chain_iff: "j \<in> set (chain as i) \<longleftrightarrow>
    j = i \<or> (\<exists>p. ac_parent (as ! i) = Some p \<and> p < i \<and> j \<in> set (chain as p))"
  by (subst chain.simps) (auto split: option.splits)

lemma chain_le: "j \<in> set (chain as i) \<Longrightarrow> j \<le> i"
proof (induction as i rule: chain.induct)
  case (1 as i)
  from "1.prems" consider "j = i"
    | p where "ac_parent (as ! i) = Some p" "p < i" "j \<in> set (chain as p)"
    using chain_iff [of j as i] by blast
  then show ?case by cases (use "1.IH" in fastforce)+
qed

lemma distinct_chain: "distinct (chain as i)"
proof (induction as i rule: chain.induct)
  case (1 as i)
  then show ?case
    by (subst chain.simps) (auto split: option.splits dest: chain_le)
qed

lemma chain_cong:
  "(\<And>j. j \<le> i \<Longrightarrow> ac_parent (as ! j) = ac_parent (bs ! j)) \<Longrightarrow> chain as i = chain bs i"
proof (induction as i rule: chain.induct)
  case (1 as i)
  then show ?case
    by (subst (1 2) chain.simps) (auto split: option.splits)
qed

lemma length_on_chain [simp]: "length (on_chain f ids as) = length as"
  unfolding on_chain_def by (induction ids arbitrary: as) auto

lemma nth_on_chain:
  "distinct ids \<Longrightarrow> j < length as \<Longrightarrow> on_chain f ids as ! j = (if j \<in> set ids then f (as ! j) else as ! j)"
proof (induction ids arbitrary: as)
  case (Cons a ids)
  have "on_chain f (a # ids) as = on_chain f ids (as[a := f (as ! a)])"
    by (simp add: on_chain_def)
  moreover have "as[a := f (as ! a)] ! j = (if j = a then f (as ! j) else as ! j)"
    using Cons.prems(2) by (auto simp: nth_list_update)
  moreover have "j = a \<Longrightarrow> j \<notin> set ids" using Cons.prems(1) by auto
  ultimately show ?case
    using Cons.IH [of "as[a := f (as ! a)]"] Cons.prems by (cases "j = a") simp_all
qed (simp add: on_chain_def)

definition parents_below :: "accounts \<Rightarrow> bool" where
  "parents_below as \<longleftrightarrow> (\<forall>i < length as. \<forall>p. ac_parent (as ! i) = Some p \<longrightarrow> p < i)"

lemma chain_parent:
  "parents_below as \<Longrightarrow> i < length as \<Longrightarrow> j \<in> set (chain as i) \<Longrightarrow> ac_parent (as ! j) = Some p
   \<Longrightarrow> p \<in> set (chain as i)"
proof (induction as i rule: chain.induct)
  case (1 as i)
  show ?case
  proof (cases "j = i")
    case True
    then have "p < i" using "1.prems" by (auto simp: parents_below_def)
    then show ?thesis
      using True "1.prems"(4) chain_head [of p as] chain_iff [of p as i] by blast
  next
    case False
    then obtain q where "ac_parent (as ! i) = Some q" and "q < i" and "j \<in> set (chain as q)"
      using "1.prems"(3) chain_iff [of j as i] by blast
    then have "p \<in> set (chain as q)"
      using "1.IH" "1.prems"(1,2,4) by simp
    then show ?thesis
      using \<open>ac_parent (as ! i) = Some q\<close> \<open>q < i\<close> chain_iff [of p as i] by blast
  qed
qed

text \<open>Below every account of a chain other than its start there is exactly one of its children.\<close>

lemma chain_child:
  "k \<in> set (chain as i) \<Longrightarrow> k \<noteq> i \<Longrightarrow> \<exists>!j. j \<in> set (chain as i) \<and> ac_parent (as ! j) = Some k \<and> k < j"
proof (induction as i rule: chain.induct)
  case (1 as i)
  then obtain q where q: "ac_parent (as ! i) = Some q" "q < i" "k \<in> set (chain as q)"
    using chain_iff [of k as i] by blast
  then have set_i: "set (chain as i) = insert i (set (chain as q))"
    by (subst chain.simps) simp
  show ?case
  proof (cases "k = q")
    case True
    have "j \<notin> set (chain as q)" if "k < j" for j
      using chain_le [of j as q] that True by linarith
    then show ?thesis
      using q True unfolding set_i by (intro ex1I [of _ i]) blast+
  next
    case False
    from "1.IH" [OF q(1,2)] q(3) False have IH: "\<exists>!j. j \<in> set (chain as q) \<and> ac_parent (as ! j) = Some k \<and> k < j"
      by blast
    have "ac_parent (as ! i) \<noteq> Some k" using q(1) False by simp
    then have "(j \<in> set (chain as i) \<and> ac_parent (as ! j) = Some k \<and> k < j)
        = (j \<in> set (chain as q) \<and> ac_parent (as ! j) = Some k \<and> k < j)" for j
      unfolding set_i by blast
    then show ?thesis using IH by simp
  qed
qed

section \<open>The invariant\<close>

definition children_of :: "accounts \<Rightarrow> nat \<Rightarrow> nat set" where
  "children_of as i = {j. j < length as \<and> ac_parent (as ! j) = Some i}"

definition children_sum :: "accounts \<Rightarrow> nat \<Rightarrow> int" where
  "children_sum as i = (\<Sum>j \<in> children_of as i. ac_current (as ! j))"

text \<open>What an account holds beyond the reservations of its children.\<close>

definition own :: "accounts \<Rightarrow> nat \<Rightarrow> int" where
  "own as i = ac_current (as ! i) - children_sum as i"

definition mem_ok :: "accounts \<Rightarrow> bool" where
  "mem_ok as \<longleftrightarrow> parents_below as \<and> (\<forall>i < length as.
     0 \<le> ac_current (as ! i) \<and> ac_current (as ! i) \<le> ac_peak (as ! i)
     \<and> ac_peak (as ! i) \<le> ac_limit (as ! i) \<and> 0 < ac_limit (as ! i) \<and> 0 \<le> own as i)"

lemma finite_children [simp]: "finite (children_of as i)"
  by (rule finite_subset [of _ "{..<length as}"]) (auto simp: children_of_def)

text \<open>An update that adds \<open>n\<close> along a chain changes only the start's own share.\<close>

lemma own_on_chain:
  assumes "parents_below as" and "i < length as" and "k < length as"
    and "\<And>a. ac_current (f a) = ac_current a + n" and "\<And>a. ac_parent (f a) = ac_parent a"
  shows "own (on_chain f (chain as i) as) k = own as k + (if k = i then n else 0)"
proof -
  let ?as' = "on_chain f (chain as i) as" and ?C = "set (chain as i)"
  have nth: "?as' ! j = (if j \<in> ?C then f (as ! j) else as ! j)" if "j < length as" for j
    using that by (intro nth_on_chain distinct_chain)
  have "ac_parent (?as' ! j) = ac_parent (as ! j)" if "j < length as" for j
    unfolding nth [OF that] using assms(5) by simp
  then have kids: "children_of ?as' k = children_of as k"
    unfolding children_of_def by auto
  have "children_sum ?as' k = (\<Sum>j \<in> children_of as k. ac_current (as ! j) + (if j \<in> ?C then n else 0))"
    unfolding children_sum_def kids
    by (rule sum.cong) (auto simp: children_of_def nth assms(4))
  also have "\<dots> = children_sum as k + (\<Sum>j \<in> children_of as k. if j \<in> ?C then n else 0)"
    by (simp add: children_sum_def sum.distrib)
  also have "(\<Sum>j \<in> children_of as k. if j \<in> ?C then n else 0) = of_nat (card (children_of as k \<inter> ?C)) * n"
    by (simp add: sum.inter_restrict [symmetric])
  also have "card (children_of as k \<inter> ?C) = (if k \<in> ?C \<and> k \<noteq> i then 1 else 0)"
  proof (cases "k \<in> ?C \<and> k \<noteq> i")
    case True
    then obtain j where j: "j \<in> ?C" "ac_parent (as ! j) = Some k" "k < j"
      and uniq: "\<And>j'. j' \<in> ?C \<Longrightarrow> ac_parent (as ! j') = Some k \<Longrightarrow> k < j' \<Longrightarrow> j' = j"
      using chain_child [of k as i] by blast
    have "j < length as" using chain_le [OF j(1)] assms(2) by simp
    moreover have "j' = j" if "j' < length as" "ac_parent (as ! j') = Some k" "j' \<in> ?C" for j'
      using assms(1) that uniq [OF that(3,2)] by (simp add: parents_below_def)
    ultimately have "children_of as k \<inter> ?C = {j}"
      using j unfolding children_of_def by blast
    with True show ?thesis by simp
  next
    case False
    have "children_of as k \<inter> ?C = {}"
    proof (rule ccontr)
      assume "children_of as k \<inter> ?C \<noteq> {}"
      then obtain j where j: "j < length as" "ac_parent (as ! j) = Some k" "j \<in> ?C"
        by (auto simp: children_of_def)
      have "k \<in> ?C" by (rule chain_parent [OF assms(1,2) j(3,2)])
      moreover have "k < j" using assms(1) j(1,2) by (simp add: parents_below_def)
      ultimately show False using False chain_le [OF j(3)] by simp
    qed
    with False show ?thesis by simp
  qed
  finally show ?thesis
    using nth [OF assms(3)] assms(4) chain_head [of i as] by (auto simp: own_def)
qed

section \<open>Reservations and releases\<close>

lemma mem_ok_on_chain:
  assumes "mem_ok as" and i: "i < length as"
    and cur: "\<And>a. ac_current (f a) = ac_current a + n"
    and par: "\<And>a. ac_parent (f a) = ac_parent a"
    and ok: "\<And>j. j \<in> set (chain as i) \<Longrightarrow> j < length as \<Longrightarrow>
      0 \<le> ac_current (f (as ! j)) \<and> ac_current (f (as ! j)) \<le> ac_peak (f (as ! j))
      \<and> ac_peak (f (as ! j)) \<le> ac_limit (f (as ! j)) \<and> 0 < ac_limit (f (as ! j))"
    and "0 \<le> own as i + n"
  shows "mem_ok (on_chain f (chain as i) as)"
proof -
  let ?as' = "on_chain f (chain as i) as"
  have below: "parents_below as" using assms(1) by (simp add: mem_ok_def)
  have nth: "?as' ! j = (if j \<in> set (chain as i) then f (as ! j) else as ! j)" if "j < length as" for j
    using that by (intro nth_on_chain distinct_chain)
  then have "parents_below ?as'"
    using below par by (simp add: parents_below_def)
  moreover have "0 \<le> own ?as' k" if "k < length as" for k
    using own_on_chain [OF below i that cur par] assms(1,6) that by (simp add: mem_ok_def)
  ultimately show ?thesis
    using assms(1) ok nth unfolding mem_ok_def by auto
qed

lemma own_nonneg_current:
  assumes "mem_ok as" and "j < length as" and "ac_parent (as ! j) = Some p"
  shows "ac_current (as ! j) \<le> ac_current (as ! p)"
proof -
  have p: "p < length as" using assms by (auto simp: mem_ok_def parents_below_def)
  have "(\<Sum>k \<in> {j}. ac_current (as ! k)) \<le> children_sum as p"
    unfolding children_sum_def
    using assms by (intro sum_mono2) (auto simp: children_of_def mem_ok_def)
  with p assms(1) show ?thesis by (auto simp: mem_ok_def own_def)
qed

lemma chain_current:
  "mem_ok as \<Longrightarrow> i < length as \<Longrightarrow> j \<in> set (chain as i) \<Longrightarrow> ac_current (as ! i) \<le> ac_current (as ! j)"
proof (induction as i rule: chain.induct)
  case (1 as i)
  from "1.prems"(3) consider "j = i"
    | p where "ac_parent (as ! i) = Some p" "p < i" "j \<in> set (chain as p)"
    using chain_iff [of j as i] by blast
  then show ?case
  proof cases
    case 2
    then show ?thesis
      using "1.IH" "1.prems"(1,2) own_nonneg_current [OF "1.prems"(1,2)] by force
  qed simp
qed

text \<open>
  C30.  A reservation is all or nothing along the chain of accounts: it succeeds, charging the
  account and every ancestor and nothing else, exactly when none of them would exceed its
  limit; otherwise it raises \<open>MemoryLimitExceeded\<close> and leaves every account as it was.  The
  invariant survives: every account stays within its limit, its peak records its maximum, and
  the reservations of its children never exceed its own total.
\<close>

theorem reserve_all_or_nothing:
  assumes "mem_ok as" and "i < length as" and "0 < n"
  shows "(case reserve as i n of
      Inr as' \<Rightarrow> mem_ok as' \<and> length as' = length as
        \<and> (\<forall>j < length as. ac_current (as' ! j) = ac_current (as ! j) + (if j \<in> set (chain as i) then n else 0)
             \<and> ac_current (as' ! j) \<le> ac_limit (as' ! j) \<and> ac_limit (as' ! j) = ac_limit (as ! j))
    | Inl e \<Rightarrow> e = MemoryLimitExceeded
        \<and> (\<exists>j \<in> set (chain as i). ac_limit (as ! j) < ac_current (as ! j) + n))"
proof (cases "list_ex (\<lambda>j. ac_current (as ! j) + n > ac_limit (as ! j)) (chain as i)")
  case True
  then show ?thesis
    using assms(3) by (auto simp: reserve_def list_ex_iff)
next
  case False
  then have room: "ac_current (as ! j) + n \<le> ac_limit (as ! j)" if "j \<in> set (chain as i)" for j
    using that by (auto simp: list_ex_iff not_less)
  let ?as' = "on_chain (charge n) (chain as i) as"
  have "mem_ok ?as'"
    using assms room by (intro mem_ok_on_chain [where n = n]) (auto simp: charge_def mem_ok_def)
  moreover have "?as' ! j = (if j \<in> set (chain as i) then charge n (as ! j) else as ! j)"
    if "j < length as" for j
    using that by (intro nth_on_chain distinct_chain)
  ultimately show ?thesis
    using False assms(3) room assms(1) by (auto simp: reserve_def charge_def mem_ok_def)
qed

definition two_accounts :: accounts where
  "two_accounts =
     [\<lparr>ac_name = ''query'', ac_limit = 100, ac_parent = None, ac_current = 60, ac_peak = 70\<rparr>,
      \<lparr>ac_name = ''task'', ac_limit = 90, ac_parent = Some 0, ac_current = 50, ac_peak = 50\<rparr>]"

lemma two_accounts_chain [simp]: "chain two_accounts (Suc 0) = [1, 0]" "chain two_accounts 0 = [0]"
  by (simp_all add: two_accounts_def chain.simps)

lemma two_accounts_all: "(\<forall>j < length two_accounts. P j) \<longleftrightarrow> P 0 \<and> P (Suc 0)"
  by (auto simp: two_accounts_def All_less_Suc)

lemma two_accounts_children: "children_of two_accounts 0 = {Suc 0}" "children_of two_accounts (Suc 0) = {}"
proof -
  have "j \<in> children_of two_accounts k \<longleftrightarrow>
      (j = 0 \<or> j = Suc 0) \<and> ac_parent (two_accounts ! j) = Some k" for j k
    by (auto simp: children_of_def two_accounts_def less_Suc_eq)
  moreover have "ac_parent (two_accounts ! 0) = None" "ac_parent (two_accounts ! Suc 0) = Some 0"
    by (simp_all add: two_accounts_def)
  ultimately show "children_of two_accounts 0 = {Suc 0}" "children_of two_accounts (Suc 0) = {}"
    by auto
qed

lemma two_accounts_ok: "mem_ok two_accounts" "length two_accounts = 2" "own two_accounts (Suc 0) = 50"
proof -
  have "own two_accounts 0 = 10" and o: "own two_accounts (Suc 0) = 50"
    by (simp_all add: own_def children_sum_def two_accounts_children) (simp_all add: two_accounts_def)
  then show "mem_ok two_accounts"
    unfolding mem_ok_def parents_below_def two_accounts_all by (simp add: two_accounts_def)
  show "length two_accounts = 2" by (simp add: two_accounts_def)
  show "own two_accounts (Suc 0) = 50" by (fact o)
qed

theorem reserve_all_or_nothing_witness:
  "reserve two_accounts 1 41 = Inl MemoryLimitExceeded
   \<and> (\<exists>j \<in> {1, 0}. ac_limit (two_accounts ! j) < ac_current (two_accounts ! j) + 41)"
proof -
  have r: "reserve two_accounts 1 41 = Inl MemoryLimitExceeded"
    by (simp add: reserve_def) (simp add: two_accounts_def)
  have i: "1 < length two_accounts" and n: "0 < (41::int)" by (simp_all add: two_accounts_ok)
  from reserve_all_or_nothing [OF two_accounts_ok(1) i n] show ?thesis
    unfolding r by (simp add: disj_commute)
qed

text \<open>
  Releasing what an account itself holds (its total minus that of its children) succeeds
  and keeps the invariant: no account of the chain goes below zero, and each total falls by
  exactly the amount released; more than the account's total is refused.
\<close>

theorem release_own_share:
  assumes "mem_ok as" and "i < length as" and "0 < n" and "n \<le> own as i"
  shows "\<exists>as'. release as i n = Inr as' \<and> mem_ok as'
    \<and> (\<forall>j < length as. ac_current (as' ! j) = ac_current (as ! j) - (if j \<in> set (chain as i) then n else 0))"
proof -
  have "0 \<le> children_sum as i"
    unfolding children_sum_def
    using assms(1) by (intro sum_nonneg) (auto simp: children_of_def mem_ok_def)
  then have n: "n \<le> ac_current (as ! i)" using assms(4) by (simp add: own_def)
  let ?as' = "on_chain (refund n) (chain as i) as"
  have low: "0 \<le> ac_current (as ! j) - n" if "j \<in> set (chain as i)" for j
    using chain_current [OF assms(1,2) that] n by simp
  have "mem_ok ?as'"
    using assms low by (intro mem_ok_on_chain [where n = "- n"]) (auto simp: refund_def mem_ok_def)
  moreover have "?as' ! j = (if j \<in> set (chain as i) then refund n (as ! j) else as ! j)"
    if "j < length as" for j
    using that by (intro nth_on_chain distinct_chain)
  ultimately show ?thesis
    using n assms(3) by (intro exI [of _ ?as']) (auto simp: release_def refund_def)
qed

theorem release_own_share_witness:
  "\<exists>as'. release two_accounts 1 50 = Inr as' \<and> mem_ok as' \<and> ac_current (as' ! 0) = 10"
proof -
  have i: "1 < length two_accounts" by (simp add: two_accounts_ok)
  have z: "0 < length two_accounts" "ac_current (two_accounts ! 0) = 60"
    by (simp_all add: two_accounts_def)
  have "0 < (50::int)" and "50 \<le> own two_accounts 1" by (simp_all add: two_accounts_ok)
  from release_own_share [OF two_accounts_ok(1) i this] obtain as' where
    as': "release two_accounts 1 50 = Inr as'" "mem_ok as'"
    and cur: "\<forall>j < length two_accounts. ac_current (as' ! j) = ac_current (two_accounts ! j)
      - (if j \<in> set (chain two_accounts 1) then 50 else 0)" by blast
  have "ac_current (as' ! 0) = 10"
    using cur [THEN spec, of 0] z by simp
  with as' show ?thesis by blast
qed

lemma child_ok:
  assumes "mem_ok as" and "i < length as" and "child as i name limit = Inr (j, as')"
  shows "mem_ok as' \<and> j = length as \<and> length as' = Suc (length as) \<and> own as' j = 0"
proof -
  obtain l where l: "0 < l" "j = length as" "as' = as @ [\<lparr>ac_name = name, ac_limit = l,
      ac_parent = Some i, ac_current = 0, ac_peak = 0\<rparr>]"
    using assms(3) by (auto simp: child_def new_account_def split: if_splits)
  have parent: "ac_parent (as ! k) = Some p \<Longrightarrow> k < length as \<Longrightarrow> p < length as" for k p
    using assms(1) by (force simp: mem_ok_def parents_below_def)
  have kids: "children_of as' k = children_of as k \<union> (if k = i then {length as} else {})" for k
    by (auto simp: l children_of_def nth_append less_Suc_eq)
  have "children_sum as' k = children_sum as k" for k
  proof -
    have "children_sum as' k = (\<Sum>j \<in> children_of as k. ac_current (as' ! j))
        + (\<Sum>j \<in> (if k = i then {length as} else {}). ac_current (as' ! j))"
      unfolding children_sum_def kids by (rule sum.union_disjoint) (auto simp: children_of_def)
    also have "(\<Sum>j \<in> children_of as k. ac_current (as' ! j)) = children_sum as k"
      unfolding children_sum_def by (rule sum.cong) (auto simp: children_of_def l nth_append)
    finally show ?thesis by (simp add: l)
  qed
  moreover have "children_sum as (length as) = 0"
    using parent by (auto simp: children_sum_def children_of_def intro!: sum.neutral)
  ultimately have own: "own as' k = (if k = length as then 0 else own as k)" if "k < length as'" for k
    using that by (auto simp: own_def l nth_append less_Suc_eq)
  have "parents_below as'"
    using assms(1,2) by (auto simp: l parents_below_def mem_ok_def nth_append less_Suc_eq)
  then show ?thesis
    using assms(1) l own by (auto simp: mem_ok_def nth_append less_Suc_eq)
qed

section \<open>Spill files never overwrite each other\<close>

lemma next_path_inject:
  assumes "directory t = directory u" and "next_path t p = next_path u q"
  shows "length (tf_files t) = length (tf_files u)"
proof -
  have "safe_name p @ CHR ''-'' # fmt05 (length (tf_files t))
      = safe_name q @ CHR ''-'' # fmt05 (length (tf_files u))"
    using assms by (simp add: next_path_def)
  from split_at_last [OF this] show ?thesis by simp
qed

end
