(* ===== verification/RuntimeFilter.thy ===== *)
theory RuntimeFilter
  imports Exprs Json "HOL-Library.Word"
begin

unbundle bit_operations_syntax

text \<open>
  Runtime filters (\<open>execution/runtime_filter.py\<close>): a Bloom filter over the JSON rendering of a
  join key, a min-max filter per key column, and their conjunction.  SHA-256, \<open>float.hex\<close>,
  \<open>isoformat\<close>, base64 and the floating-point sizing formulas are the fields of \<open>filter_runtime\<close>.
\<close>

section \<open>Keys as bytes\<close>

record filter_runtime = py_runtime +
  fr_sha256 :: "string \<Rightarrow> nat"            \<comment> \<open>the digest as a big-endian integer\<close>
  fr_float_hex :: "pyfloat \<Rightarrow> string"
  fr_date_iso :: "int \<Rightarrow> string"
  fr_ts_iso :: "int \<Rightarrow> string"
  fr_base64 :: "string \<Rightarrow> string"
  fr_bloom_bits :: "int \<Rightarrow> int"             \<comment> \<open>\<open>ceil(-n * log(p) / log(2) ** 2)\<close> at \<open>p = 0.01\<close>\<close>
  fr_bloom_hashes :: "int \<Rightarrow> int \<Rightarrow> int"  \<comment> \<open>\<open>round(bits / n * log(2))\<close>\<close>

definition tagged :: "string \<Rightarrow> json \<Rightarrow> json" where
  "tagged ty v = JObject [(''type'', JStr ty), (''value'', v)]"

fun encode_value :: "'x filter_runtime_scheme \<Rightarrow> sql_value \<Rightarrow> json" where
  "encode_value fr VNull = JObject [(''type'', JStr ''null'')]"
| "encode_value fr (VBool b) = tagged ''bool'' (JBool b)"
| "encode_value fr (VInt i) = tagged ''int'' (JStr (show_int i))"
| "encode_value fr (VFloat f) = tagged ''float'' (JStr (fr_float_hex fr f))"
| "encode_value fr (VDecimal c e) = tagged ''decimal'' (JStr (decimal_str c e))"
| "encode_value fr (VBytes s) = tagged ''bytes'' (JStr (fr_base64 fr s))"
| "encode_value fr (VTimestamp t) = tagged ''datetime'' (JStr (fr_ts_iso fr t))"
| "encode_value fr (VDate d) = tagged ''date'' (JStr (fr_date_iso fr d))"
| "encode_value fr (VStr s) = tagged ''string'' (JStr s)"

definition key_bytes :: "'x filter_runtime_scheme \<Rightarrow> sql_value list \<Rightarrow> string" where
  "key_bytes fr vs = json_dumps (py_runtime.truncate fr) (JList (map (encode_value fr) vs))"

section \<open>Bloom filters\<close>

record bloom =
  bl_bit_count :: int
  bl_hash_count :: int
  bl_bits :: "8 word list"
  bl_item_count :: int

definition create_bloom :: "'x filter_runtime_scheme \<Rightarrow> int \<Rightarrow> bloom res" where
  "create_bloom fr expected =
     (if expected < 1 then Inl PyValueError
      else let bits = max 64 (fr_bloom_bits fr expected)
           in Inr \<lparr>bl_bit_count = bits, bl_hash_count = max 1 (fr_bloom_hashes fr bits expected),
                   bl_bits = replicate (nat ((bits + 7) div 8)) 0, bl_item_count = 0\<rparr>)"

text \<open>\<open>_positions\<close>: double hashing with the two halves of the digest.\<close>

definition positions :: "'x filter_runtime_scheme \<Rightarrow> bloom \<Rightarrow> sql_value list \<Rightarrow> nat list" where
  "positions fr b vs =
     (let digest = fr_sha256 fr (key_bytes fr vs);
          first = digest div 2 ^ 128;
          second = (if digest mod 2 ^ 128 = 0 then 1 else digest mod 2 ^ 128)
      in map (\<lambda>index. (first + index * second) mod nat (bl_bit_count b)) [0..<nat (bl_hash_count b)])"

definition bit_mask :: "nat \<Rightarrow> 8 word" where
  "bit_mask pos = push_bit (pos mod 8) 1"

definition set_position :: "8 word list \<Rightarrow> nat \<Rightarrow> 8 word list" where
  "set_position bits pos = bits[pos div 8 := (bits ! (pos div 8)) OR bit_mask pos]"

definition test_position :: "8 word list \<Rightarrow> nat \<Rightarrow> bool" where
  "test_position bits pos \<longleftrightarrow> (bits ! (pos div 8)) AND bit_mask pos \<noteq> 0"

definition bloom_add :: "'x filter_runtime_scheme \<Rightarrow> bloom \<Rightarrow> sql_value list \<Rightarrow> bloom" where
  "bloom_add fr b vs =
     b\<lparr>bl_bits := foldl set_position (bl_bits b) (positions fr b vs),
       bl_item_count := bl_item_count b + 1\<rparr>"

definition bloom_might_contain :: "'x filter_runtime_scheme \<Rightarrow> bloom \<Rightarrow> sql_value list \<Rightarrow> bool" where
  "bloom_might_contain fr b vs = list_all (test_position (bl_bits b)) (positions fr b vs)"

definition bloom_merge :: "bloom \<Rightarrow> bloom \<Rightarrow> bloom res" where
  "bloom_merge a b =
     (if (bl_bit_count a, bl_hash_count a) \<noteq> (bl_bit_count b, bl_hash_count b) then Inl PyValueError
      else if length (bl_bits b) > length (bl_bits a) then Inl PyIndexError
      else Inr (a\<lparr>bl_bits := map2 (OR) (bl_bits a) (bl_bits b) @ drop (length (bl_bits b)) (bl_bits a),
                 bl_item_count := bl_item_count a + bl_item_count b\<rparr>))"

section \<open>Min-max filters\<close>

record min_max =
  mm_minimum :: sql_value
  mm_maximum :: sql_value

definition empty_range :: min_max where
  "empty_range = \<lparr>mm_minimum = VNull, mm_maximum = VNull\<rparr>"

definition range_add :: "min_max \<Rightarrow> sql_value \<Rightarrow> min_max res" where
  "range_add m v =
     (if v = VNull then Inr m
      else bindR (if mm_minimum m = VNull then Inr True else py_lt v (mm_minimum m)) (\<lambda>low.
           let m1 = (if low then m\<lparr>mm_minimum := v\<rparr> else m) in
           bindR (if mm_maximum m1 = VNull then Inr True else py_lt (mm_maximum m1) v) (\<lambda>high.
             Inr (if high then m1\<lparr>mm_maximum := v\<rparr> else m1))))"

text \<open>\<open>minimum <= value <= maximum\<close>, where a \<open>TypeError\<close> means that the value is kept.\<close>

definition range_might_contain :: "min_max \<Rightarrow> sql_value \<Rightarrow> bool res" where
  "range_might_contain m v =
     (if v = VNull \<or> mm_minimum m = VNull \<or> mm_maximum m = VNull then Inr False
      else case bindR (py_le (mm_minimum m) v) (\<lambda>above. if above then py_le v (mm_maximum m) else Inr False) of
          Inr b \<Rightarrow> Inr b
        | Inl e \<Rightarrow> if e = PyTypeError then Inr True else Inl e)"

text \<open>\<open>all(...)\<close> stops at the first element that is false.\<close>

fun all_res :: "('a \<Rightarrow> bool res) \<Rightarrow> 'a list \<Rightarrow> bool res" where
  "all_res p [] = Inr True"
| "all_res p (x # xs) = bindR (p x) (\<lambda>b. if b then all_res p xs else Inr False)"

lemma all_res_True: "(\<And>x. x \<in> set xs \<Longrightarrow> p x = Inr True) \<Longrightarrow> all_res p xs = Inr True"
  by (induction xs) simp_all

definition range_merge :: "min_max \<Rightarrow> min_max \<Rightarrow> min_max res" where
  "range_merge a b = bindR (range_add a (mm_minimum b)) (\<lambda>a'. range_add a' (mm_maximum b))"

section \<open>Runtime filters\<close>

record runtime_filter =
  rf_bloom :: bloom
  rf_ranges :: "min_max list"

definition create_filter :: "'x filter_runtime_scheme \<Rightarrow> nat \<Rightarrow> int \<Rightarrow> runtime_filter res" where
  "create_filter fr key_count expected =
     (if key_count < 1 then Inl PyValueError
      else bindR (create_bloom fr (max expected 1)) (\<lambda>b.
        Inr \<lparr>rf_bloom = b, rf_ranges = replicate key_count empty_range\<rparr>))"

definition filter_add ::
    "'x filter_runtime_scheme \<Rightarrow> runtime_filter \<Rightarrow> sql_value list \<Rightarrow> runtime_filter res" where
  "filter_add fr f vs =
     (if length vs \<noteq> length (rf_ranges f) then Inl PyValueError
      else if VNull \<in> set vs then Inr f
      else bindR (mapR (\<lambda>(m, v). range_add m v) (zip (rf_ranges f) vs)) (\<lambda>rs.
        Inr \<lparr>rf_bloom = bloom_add fr (rf_bloom f) vs, rf_ranges = rs\<rparr>))"

definition filter_might_contain ::
    "'x filter_runtime_scheme \<Rightarrow> runtime_filter \<Rightarrow> sql_value list \<Rightarrow> bool res" where
  "filter_might_contain fr f vs =
     (if length vs \<noteq> length (rf_ranges f) \<or> VNull \<in> set vs then Inr False
      else bindR (all_res (\<lambda>(m, v). range_might_contain m v) (zip (rf_ranges f) vs)) (\<lambda>inside.
             Inr (inside \<and> bloom_might_contain fr (rf_bloom f) vs)))"

definition filter_merge :: "runtime_filter \<Rightarrow> runtime_filter \<Rightarrow> runtime_filter res" where
  "filter_merge a b =
     (if length (rf_ranges a) \<noteq> length (rf_ranges b) then Inl PyValueError
      else bindR (bloom_merge (rf_bloom a) (rf_bloom b)) (\<lambda>bl.
           bindR (mapR (\<lambda>(m, n). range_merge m n) (zip (rf_ranges a) (rf_ranges b))) (\<lambda>rs.
             Inr \<lparr>rf_bloom = bl, rf_ranges = rs\<rparr>)))"

definition from_rows ::
    "'x filter_runtime_scheme \<Rightarrow> row list \<Rightarrow> expr list \<Rightarrow> int \<Rightarrow> runtime_filter res" where
  "from_rows fr rows es expected =
     bindR (create_filter fr (length es) expected) (\<lambda>f.
       foldR (\<lambda>f row. bindR (mapR (evaluate (py_runtime.truncate fr) row) es) (filter_add fr f)) f rows)"

text \<open>
  \<open>apply_runtime_filters\<close> on the rows of a batch: every resolved binding is its key expressions
  and its filter.  The count of filters applied is their number.
\<close>

fun row_survives ::
    "'x filter_runtime_scheme \<Rightarrow> (expr list \<times> runtime_filter) list \<Rightarrow> row \<Rightarrow> bool res" where
  "row_survives fr [] row = Inr True"
| "row_survives fr ((es, f) # bs) row =
     bindR (mapR (evaluate (py_runtime.truncate fr) row) es) (\<lambda>vs.
       bindR (filter_might_contain fr f vs) (\<lambda>kept. if kept then row_survives fr bs row else Inr False))"

fun filter_rows :: "(row \<Rightarrow> bool res) \<Rightarrow> row list \<Rightarrow> row list res" where
  "filter_rows p [] = Inr []"
| "filter_rows p (r # rs) = bindR (p r) (\<lambda>keep. bindR (filter_rows p rs) (\<lambda>rs'.
     Inr (if keep then r # rs' else rs')))"

definition runtime_filter_is_safe :: "string \<Rightarrow> string \<Rightarrow> bool" where
  "runtime_filter_is_safe join_type build_side =
     (if join_type = ''inner'' then True
      else let probe = (if build_side = ''left'' then ''right'' else ''left'');
               preserved = (if join_type = ''left'' then {''left''}
                            else if join_type = ''right'' then {''right''}
                            else if join_type = ''full'' then {''left'', ''right''} else {})
           in probe \<notin> preserved)"

section \<open>No false negatives: the Bloom filter\<close>

definition bloom_ok :: "bloom \<Rightarrow> bool" where
  "bloom_ok b \<longleftrightarrow> 0 < bl_bit_count b \<and> bl_bit_count b \<le> 8 * int (length (bl_bits b))"

lemma create_bloom_ok: "create_bloom fr n = Inr b \<Longrightarrow> bloom_ok b"
  by (auto simp: create_bloom_def bloom_ok_def Let_def split: if_splits)

lemma positions_cong:
  "bl_bit_count b = bl_bit_count b' \<Longrightarrow> bl_hash_count b = bl_hash_count b' \<Longrightarrow> key_bytes fr vs = key_bytes fr ws
   \<Longrightarrow> positions fr b vs = positions fr b' ws"
  by (simp add: positions_def)

lemma positions_bound:
  assumes "bloom_ok b" and "p \<in> set (positions fr b vs)"
  shows "p div 8 < length (bl_bits b)"
proof -
  have "p < nat (bl_bit_count b)"
    using assms by (auto simp: positions_def bloom_ok_def Let_def)
  then show ?thesis
    using assms(1) by (auto simp: bloom_ok_def)
qed

lemma test_set_same: "p div 8 < length bits \<Longrightarrow> test_position (set_position bits p) p"
proof -
  have "bit (bit_mask p) (p mod 8)"
    by (simp add: bit_mask_def bit_simps)
  then have "bit ((w OR bit_mask p) AND bit_mask p) (p mod 8)" for w
    by (simp add: bit_simps)
  then have "(w OR bit_mask p) AND bit_mask p \<noteq> 0" for w :: "8 word"
    by (metis bit_0_eq bot_apply bot_bool_def)
  then show "p div 8 < length bits \<Longrightarrow> test_position (set_position bits p) p"
    by (simp add: test_position_def set_position_def)
qed

lemma or_keeps: "w AND m \<noteq> 0 \<Longrightarrow> (w OR x) AND m \<noteq> (0 :: 8 word)"
proof -
  assume "w AND m \<noteq> 0"
  then obtain n where "bit (w AND m) n" by (metis bit_eqI bit_0_eq bot_apply bot_bool_def)
  then have "bit ((w OR x) AND m) n" by (simp add: bit_simps)
  then show ?thesis by (metis bit_0_eq bot_apply bot_bool_def)
qed

lemma test_set_keeps: "test_position bits p \<Longrightarrow> test_position (set_position bits q) p"
  using or_keeps
  by (cases "p div 8 = q div 8 \<and> q div 8 < length bits")
    (auto simp: test_position_def set_position_def nth_list_update list_update_beyond)

lemma length_set_positions [simp]: "length (foldl set_position bits ps) = length bits"
  by (induction ps arbitrary: bits) (auto simp: set_position_def)

lemma test_set_positions_keeps:
  "test_position bits p \<Longrightarrow> test_position (foldl set_position bits ps) p"
  by (induction ps arbitrary: bits) (auto intro: test_set_keeps)

lemma test_set_positions:
  "p \<in> set ps \<Longrightarrow> p div 8 < length bits \<Longrightarrow> test_position (foldl set_position bits ps) p"
proof (induction ps arbitrary: bits)
  case (Cons q ps)
  have len: "length (set_position bits q) = length bits" by (simp add: set_position_def)
  show ?case
  proof (cases "p = q")
    case True
    then show ?thesis
      using Cons.prems(2) test_set_same test_set_positions_keeps by simp
  next
    case False
    then show ?thesis using Cons len by simp
  qed
qed simp

lemma bloom_add_self:
  "bloom_ok b \<Longrightarrow> key_bytes fr ws = key_bytes fr vs \<Longrightarrow> bloom_might_contain fr (bloom_add fr b vs) ws"
  unfolding bloom_might_contain_def list_all_iff
proof
  fix p
  assume ok: "bloom_ok b" and k: "key_bytes fr ws = key_bytes fr vs"
    and "p \<in> set (positions fr (bloom_add fr b vs) ws)"
  then have "p \<in> set (positions fr b vs)"
    using positions_cong [of "bloom_add fr b vs" b fr ws vs] by (simp add: bloom_add_def)
  from test_set_positions [OF this positions_bound [OF ok this]]
  show "test_position (bl_bits (bloom_add fr b vs)) p"
    by (simp add: bloom_add_def)
qed

lemma bloom_add_keeps:
  "bloom_might_contain fr b ws \<Longrightarrow> bloom_might_contain fr (bloom_add fr b vs) ws"
  using test_set_positions_keeps positions_cong [of "bloom_add fr b vs" b fr ws ws]
  by (auto simp: bloom_might_contain_def bloom_add_def list_all_iff)

lemma bloom_add_ok: "bloom_ok b \<Longrightarrow> bloom_ok (bloom_add fr b vs)"
  by (simp add: bloom_ok_def bloom_add_def)

lemma bloom_merge_keeps:
  assumes "bloom_merge a b = Inr c" and "bloom_ok a" and "bloom_ok b"
    and "bloom_might_contain fr a vs \<or> bloom_might_contain fr b vs"
  shows "bloom_might_contain fr c vs"
proof -
  have c: "c = a\<lparr>bl_bits := map2 (OR) (bl_bits a) (bl_bits b) @ drop (length (bl_bits b)) (bl_bits a),
                 bl_item_count := bl_item_count a + bl_item_count b\<rparr>"
    and dims: "bl_bit_count a = bl_bit_count b" "bl_hash_count a = bl_hash_count b"
    and len: "length (bl_bits b) \<le> length (bl_bits a)"
    using assms(1) by (auto simp: bloom_merge_def split: if_splits)
  have pos: "positions fr c vs = positions fr a vs" "positions fr b vs = positions fr a vs"
    using dims c by (auto intro: positions_cong)
  have "test_position (bl_bits c) p" if "p \<in> set (positions fr a vs)"
    and t: "test_position (bl_bits a) p \<or> test_position (bl_bits b) p" for p
  proof -
    have "p div 8 < length (bl_bits a)" "p div 8 < length (bl_bits b)"
      using that(1) pos positions_bound assms(2,3) by metis+
    then have "bl_bits c ! (p div 8) = (bl_bits a ! (p div 8)) OR (bl_bits b ! (p div 8))"
      by (simp add: c nth_append)
    with t show ?thesis
      using or_keeps [of "bl_bits a ! (p div 8)" "bit_mask p" "bl_bits b ! (p div 8)"]
        or_keeps [of "bl_bits b ! (p div 8)" "bit_mask p" "bl_bits a ! (p div 8)"]
      unfolding test_position_def by (metis or.commute)
  qed
  with assms(4) pos show ?thesis
    by (auto simp: bloom_might_contain_def list_all_iff)
qed

section \<open>No false negatives: ranges and filters\<close>

text \<open>
  A range over values of one class, none of them \<open>nan\<close>: its bounds are values it has seen, and
  every value seen lies between them.
\<close>

definition range_ok :: "nat \<Rightarrow> min_max \<Rightarrow> sql_value set \<Rightarrow> bool" where
  "range_ok k m seen \<longleftrightarrow>
     (\<forall>v \<in> seen. kind v = k \<and> vkey v \<noteq> None)
     \<and> (if seen = {} then m = empty_range
        else mm_minimum m \<in> seen \<and> mm_maximum m \<in> seen
          \<and> (\<forall>v \<in> seen. the (vkey (mm_minimum m)) \<le> the (vkey v) \<and> the (vkey v) \<le> the (vkey (mm_maximum m))))"

lemma vkey_not_null: "vkey v \<noteq> None \<Longrightarrow> v \<noteq> VNull"
  by auto

lemma py_lt_keys:
  "vkey a \<noteq> None \<Longrightarrow> vkey b \<noteq> None \<Longrightarrow> kind a = kind b \<Longrightarrow> py_lt a b = Inr (the (vkey a) < the (vkey b))"
  using py_lt_vkey by (metis option.collapse)

lemma py_eq_keys:
  "vkey a \<noteq> None \<Longrightarrow> vkey b \<noteq> None \<Longrightarrow> py_eq a b \<longleftrightarrow> the (vkey a) = the (vkey b)"
  using py_eq_vkey by (metis option.collapse option.sel)

lemma py_le_keys:
  "vkey a \<noteq> None \<Longrightarrow> vkey b \<noteq> None \<Longrightarrow> kind a = kind b \<Longrightarrow> py_le a b = Inr (the (vkey a) \<le> the (vkey b))"
  by (auto simp: py_le_def py_lt_keys py_eq_keys)

lemma range_add_ok:
  assumes "range_ok k m seen" and "kind v = k" and "vkey v \<noteq> None"
  shows "\<exists>m'. range_add m v = Inr m' \<and> range_ok k m' (insert v seen)"
proof (cases "seen = {}")
  case True
  then have "m = empty_range" using assms(1) by (simp add: range_ok_def)
  then show ?thesis
    using assms vkey_not_null [OF assms(3)] True
    by (auto simp: range_add_def empty_range_def range_ok_def)
next
  case False
  then have m: "mm_minimum m \<in> seen" "mm_maximum m \<in> seen"
    and seen: "\<forall>v \<in> seen. kind v = k \<and> vkey v \<noteq> None"
    and bounds: "\<forall>v \<in> seen. the (vkey (mm_minimum m)) \<le> the (vkey v) \<and> the (vkey v) \<le> the (vkey (mm_maximum m))"
    using assms(1) by (simp_all add: range_ok_def)
  let ?lo = "the (vkey v) < the (vkey (mm_minimum m))"
  let ?hi = "the (vkey (mm_maximum m)) < the (vkey v)"
  let ?m' = "\<lparr>mm_minimum = if ?lo then v else mm_minimum m, mm_maximum = if ?hi then v else mm_maximum m\<rparr>"
  have nn: "mm_minimum m \<noteq> VNull" "mm_maximum m \<noteq> VNull" "v \<noteq> VNull"
    using m seen assms(3) vkey_not_null by blast+
  have "py_lt v (mm_minimum m) = Inr ?lo" and "py_lt (mm_maximum m) v = Inr ?hi"
    using m seen assms(2,3) by (simp_all add: py_lt_keys)
  with nn have "range_add m v = Inr ?m'"
    by (cases m) (simp add: range_add_def Let_def)
  moreover have "range_ok k ?m' (insert v seen)"
    unfolding range_ok_def
  proof (intro conjI ballI)
    fix w assume w: "w \<in> insert v seen"
    then show "kind w = k" and "vkey w \<noteq> None" using seen assms(2,3) by auto
  next
    have "the (vkey (mm_minimum ?m')) \<le> the (vkey w)" and "the (vkey w) \<le> the (vkey (mm_maximum ?m'))"
      if w: "w \<in> insert v seen" for w
    proof -
      have "w = v \<or> the (vkey (mm_minimum m)) \<le> the (vkey w) \<and> the (vkey w) \<le> the (vkey (mm_maximum m))"
        using w bounds by blast
      then show "the (vkey (mm_minimum ?m')) \<le> the (vkey w)" and "the (vkey w) \<le> the (vkey (mm_maximum ?m'))"
        by (auto simp: not_less)
    qed
    then show "if insert v seen = {} then ?m' = empty_range
      else mm_minimum ?m' \<in> insert v seen \<and> mm_maximum ?m' \<in> insert v seen
        \<and> (\<forall>w \<in> insert v seen. the (vkey (mm_minimum ?m')) \<le> the (vkey w)
             \<and> the (vkey w) \<le> the (vkey (mm_maximum ?m')))"
      using m by simp
  qed
  ultimately show ?thesis by blast
qed

lemma range_contains:
  assumes "range_ok k m seen" and "v \<in> seen" and "py_eq v w"
  shows "range_might_contain m w = Inr True"
proof -
  have m: "mm_minimum m \<in> seen" "mm_maximum m \<in> seen"
    and seen: "\<forall>v \<in> seen. kind v = k \<and> vkey v \<noteq> None"
    and bounds: "\<forall>v \<in> seen. the (vkey (mm_minimum m)) \<le> the (vkey v) \<and> the (vkey v) \<le> the (vkey (mm_maximum m))"
    using assms(1,2) by (auto simp: range_ok_def split: if_splits)
  have w: "vkey w = vkey v" "kind w = k"
    using assms(2,3) seen py_eq_vkey py_eq_kind by (metis not_None_eq)+
  have "py_le (mm_minimum m) w = Inr True" and "py_le w (mm_maximum m) = Inr True"
    using m seen bounds assms(2) w by (simp_all add: py_le_keys)
  moreover have "mm_minimum m \<noteq> VNull" "mm_maximum m \<noteq> VNull" "w \<noteq> VNull"
    using m seen w assms(2) vkey_not_null by metis+
  ultimately show ?thesis by (simp add: range_might_contain_def)
qed

text \<open>Keys that a filter accepts: the right width, no \<open>NULL\<close>, every column of its class, no \<open>nan\<close>.\<close>

definition keys_ok :: "nat list \<Rightarrow> sql_value list list \<Rightarrow> bool" where
  "keys_ok ks keys \<longleftrightarrow> (\<forall>vs \<in> set keys. list_all2 (\<lambda>k v. kind v = k \<and> vkey v \<noteq> None) ks vs)"

definition filter_ok :: "nat list \<Rightarrow> runtime_filter \<Rightarrow> sql_value list set \<Rightarrow> bool" where
  "filter_ok ks f seen \<longleftrightarrow> bloom_ok (rf_bloom f) \<and> length (rf_ranges f) = length ks
     \<and> (\<forall>vs \<in> seen. length vs = length ks)
     \<and> (\<forall>i < length ks. range_ok (ks ! i) (rf_ranges f ! i) ((\<lambda>vs. vs ! i) ` seen))"

lemma filter_add_ok:
  assumes "filter_ok ks f seen" and "list_all2 (\<lambda>k v. kind v = k \<and> vkey v \<noteq> None) ks vs"
  shows "\<exists>f'. filter_add fr f vs = Inr f' \<and> filter_ok ks f' (insert vs seen)
    \<and> rf_bloom f' = bloom_add fr (rf_bloom f) vs"
proof -
  have len: "length vs = length ks" "length (rf_ranges f) = length ks"
    using assms by (auto simp: filter_ok_def list_all2_lengthD)
  have each: "\<exists>m'. range_add (rf_ranges f ! i) (vs ! i) = Inr m'
      \<and> range_ok (ks ! i) m' ((\<lambda>vs. vs ! i) ` insert vs seen)" if "i < length ks" for i
    using range_add_ok [of "ks ! i" "rf_ranges f ! i" _ "vs ! i"] assms that
    by (auto simp: filter_ok_def list_all2_conv_all_nth)
  then obtain g where g: "\<And>i. i < length ks \<Longrightarrow> range_add (rf_ranges f ! i) (vs ! i) = Inr (g i)
      \<and> range_ok (ks ! i) (g i) ((\<lambda>vs. vs ! i) ` insert vs seen)" by metis
  have ranges: "mapR (\<lambda>(m, v). range_add m v) (zip (rf_ranges f) vs) = Inr (map g [0..<length ks])"
    using g len by (auto simp: mapR_Inr_iff list_all2_conv_all_nth)
  have "VNull \<notin> set vs"
    using assms(2) by (auto simp: list_all2_conv_all_nth in_set_conv_nth)
  then have "filter_add fr f vs = Inr \<lparr>rf_bloom = bloom_add fr (rf_bloom f) vs, rf_ranges = map g [0..<length ks]\<rparr>"
    using len ranges by (simp add: filter_add_def)
  moreover have "filter_ok ks \<lparr>rf_bloom = bloom_add fr (rf_bloom f) vs, rf_ranges = map g [0..<length ks]\<rparr>
      (insert vs seen)"
    using assms(1) g len bloom_add_ok by (auto simp: filter_ok_def)
  ultimately show ?thesis by simp
qed

lemma filter_adds_ok:
  assumes "keys_ok ks keys" and "filter_ok ks f seen"
    and "\<And>ws. ws \<in> seen \<Longrightarrow> bloom_might_contain fr (rf_bloom f) ws"
  shows "\<exists>f'. foldR (filter_add fr) f keys = Inr f' \<and> filter_ok ks f' (seen \<union> set keys)
    \<and> (\<forall>ws \<in> seen \<union> set keys. bloom_might_contain fr (rf_bloom f') ws)"
  using assms
proof (induction keys arbitrary: f seen)
  case (Cons vs keys)
  obtain f1 where f1: "filter_add fr f vs = Inr f1" "filter_ok ks f1 (insert vs seen)"
    "rf_bloom f1 = bloom_add fr (rf_bloom f) vs"
    using filter_add_ok [OF Cons.prems(2), of vs fr] Cons.prems(1) by (auto simp: keys_ok_def)
  have "bloom_ok (rf_bloom f)" using Cons.prems(2) by (simp add: filter_ok_def)
  then have "bloom_might_contain fr (rf_bloom f1) ws" if "ws \<in> insert vs seen" for ws
    using that Cons.prems(3) unfolding f1(3) by (auto intro: bloom_add_self bloom_add_keeps)
  with Cons.IH [OF _ f1(2)] Cons.prems(1) f1(1) show ?case
    by (auto simp: keys_ok_def)
qed simp

lemma filter_accepts:
  assumes "create_filter fr (length ks) expected = Inr f"
    and "keys_ok ks keys" and "vs \<in> set keys"
    and "list_all2 py_eq vs ws" and "key_bytes fr ws = key_bytes fr vs"
  shows "\<exists>f'. foldR (filter_add fr) f keys = Inr f' \<and> filter_might_contain fr f' ws = Inr True"
proof -
  have f: "bloom_ok (rf_bloom f)" "rf_ranges f = replicate (length ks) empty_range"
    using assms(1) create_bloom_ok by (auto simp: create_filter_def bindR_eq_Inr split: if_splits)
  then have "filter_ok ks f {}"
    by (auto simp: filter_ok_def range_ok_def)
  from filter_adds_ok [OF assms(2) this] obtain f' where
    f': "foldR (filter_add fr) f keys = Inr f'" "filter_ok ks f' (set keys)"
    "bloom_might_contain fr (rf_bloom f') vs"
    using assms(3) by auto
  have vs: "list_all2 (\<lambda>k v. kind v = k \<and> vkey v \<noteq> None) ks vs"
    using assms(2,3) by (auto simp: keys_ok_def)
  have len: "length vs = length ks" "length ws = length ks" "length (rf_ranges f') = length ks"
    using list_all2_lengthD [OF vs] list_all2_lengthD [OF assms(4)] f'(2) by (simp_all add: filter_ok_def)
  have eq: "py_eq (vs ! i) (ws ! i)" if "i < length ks" for i
    using list_all2_nthD [OF assms(4)] that len by simp
  have "range_might_contain (rf_ranges f' ! i) (ws ! i) = Inr True" if i: "i < length ks" for i
  proof (rule range_contains)
    show "range_ok (ks ! i) (rf_ranges f' ! i) ((\<lambda>vs. vs ! i) ` set keys)"
      using f'(2) i by (simp add: filter_ok_def)
  qed (use assms(3) eq i in auto)
  moreover have "bloom_might_contain fr (rf_bloom f') ws"
    using f'(3) positions_cong [of "rf_bloom f'" "rf_bloom f'" fr ws vs] assms(5)
    by (simp add: bloom_might_contain_def)
  moreover have "VNull \<notin> set ws"
  proof
    assume "VNull \<in> set ws"
    then obtain i where i: "i < length ks" "ws ! i = VNull" using len by (auto simp: in_set_conv_nth)
    then have "vs ! i = VNull" using eq [OF i(1)] by simp
    with list_all2_nthD [OF vs i(1)] show False by simp
  qed
  ultimately have "filter_might_contain fr f' ws = Inr True"
    using len by (auto simp: filter_might_contain_def in_set_zip intro!: all_res_True)
  with f'(1) show ?thesis by blast
qed

text \<open>
  C31.  A runtime filter built from join keys never rejects a matching key: once the keys of the
  build side were added, it reports every key that equals one of them column by column and has
  the same byte rendering, provided no column mixes classes and no key holds a \<open>NULL\<close> or
  \<open>nan\<close>; and adding such keys never raises.
\<close>

theorem runtime_filter_no_false_negatives:
  assumes "create_filter fr (length ks) expected = Inr f"
    and "keys_ok ks keys" and "vs \<in> set keys"
    and "list_all2 py_eq vs ws" and "key_bytes fr ws = key_bytes fr vs"
  shows "\<exists>f'. foldR (filter_add fr) f keys = Inr f' \<and> filter_might_contain fr f' ws = Inr True"
  by (rule filter_accepts [OF assms])


theorem runtime_filter_no_false_negatives_witness:
  "\<forall>fr :: filter_runtime. \<exists>f f'. create_filter fr 1 10 = Inr f
     \<and> foldR (filter_add fr) f [[VInt 3], [VInt 5]] = Inr f' \<and> filter_might_contain fr f' [VInt 5] = Inr True"
proof
  fix fr :: filter_runtime
  obtain f where f: "create_filter fr (length [1::nat]) 10 = Inr f"
    by (cases "create_filter fr (length [1::nat]) 10") (auto simp: create_filter_def create_bloom_def Let_def)
  have "keys_ok [1] [[VInt 3], [VInt 5]]" by (simp add: keys_ok_def)
  from runtime_filter_no_false_negatives [OF f this, of "[VInt 5]" "[VInt 5]"] f
  show "\<exists>f f'. create_filter fr 1 10 = Inr f
     \<and> foldR (filter_add fr) f [[VInt 3], [VInt 5]] = Inr f' \<and> filter_might_contain fr f' [VInt 5] = Inr True"
    by (auto simp: is_nan_def)
qed

section \<open>Where the hypotheses are needed\<close>

text \<open>
  A \<open>nan\<close> in the build side loses rows: when the first build key of a column is \<open>nan\<close>,
  it stays the minimum and the maximum, and the filter then rejects every number, among them
  the keys that were added to it.
\<close>

theorem nan_key_poisons_range:
  "\<exists>m. foldR range_add empty_range [VFloat NaN, VFloat (Fin 1)] = Inr m
     \<and> m = \<lparr>mm_minimum = VFloat NaN, mm_maximum = VFloat NaN\<rparr>
     \<and> range_might_contain m (VFloat (Fin 1)) = Inr False"
  by (simp add: empty_range_def range_add_def py_lt_def range_might_contain_def py_le_def Let_def)

text \<open>
  Equal decimals of different scales have different key bytes: the hash join matches
  \<open>1.0\<close> with \<open>1.00\<close>, the Bloom filter (and the shuffle, which hashes the same text) tells
  them apart, so a runtime filter between columns of different scales can drop join rows.
\<close>

theorem equal_decimals_hash_apart:
  "py_eq (VDecimal 10 (-1)) (VDecimal 100 (-2))
   \<and> (\<forall>fr :: filter_runtime. key_bytes fr [VDecimal 10 (-1)] \<noteq> key_bytes fr [VDecimal 100 (-2)])"
proof
  show "py_eq (VDecimal 10 (-1)) (VDecimal 100 (-2))"
    by (simp add: py_eq_def decimal_rat_def pow10_def)
  have "decimal_str 10 (-1) = ''1.0''" and "decimal_str 100 (-2) = ''1.00''"
    by code_simp+
  then show "\<forall>fr :: filter_runtime. key_bytes fr [VDecimal 10 (-1)] \<noteq> key_bytes fr [VDecimal 100 (-2)]"
    by (simp add: key_bytes_def tagged_def json_string_def json_char_def)
qed

end
