(* ===== verification/Streams.thy ===== *)
theory Streams
  imports Prelude Errors
begin

text \<open>
  Python generators as trees.  A generator either returns, raises, yields an item and goes on,
  or performs one atomic step on the shared execution context.  The context may change between
  two steps (another operator of the same task runs, another task of the query reserves memory,
  the query is cancelled), so the weakest precondition \<open>wp\<close> quantifies over the state at every
  step; \<open>run\<close> is the execution of a generator on its own from a given state.
\<close>

section \<open>Generators\<close>

datatype (dead 's, 'a, 'r) gen =
    Ret 'r
  | Fail exn
  | Yield 'a "('s, 'a, 'r) gen"
  | Act "'s \<Rightarrow> 's \<times> ('s, 'a, 'r) gen"

primrec bindG :: "('s, 'a, 'r) gen \<Rightarrow> ('r \<Rightarrow> ('s, 'a, 'q) gen) \<Rightarrow> ('s, 'a, 'q) gen" where
  "bindG (Ret r) k = k r"
| "bindG (Fail e) k = Fail e"
| "bindG (Yield a g) k = Yield a (bindG g k)"
| "bindG (Act f) k = Act (map_prod id (\<lambda>g. bindG g k) \<circ> f)"

definition lift :: "'r res \<Rightarrow> ('s, 'a, 'r) gen" where
  "lift m = (case m of Inl e \<Rightarrow> Fail e | Inr v \<Rightarrow> Ret v)"

text \<open>One atomic step that may raise, and a step that only updates the state.\<close>

definition step :: "('s \<Rightarrow> 's \<times> 'r res) \<Rightarrow> ('s, 'a, 'r) gen" where
  "step f = Act (\<lambda>s. (fst (f s), lift (snd (f s))))"

definition modify :: "('s \<Rightarrow> 's) \<Rightarrow> ('s, 'a, unit) gen" where
  "modify f = Act (\<lambda>s. (f s, Ret ()))"

definition get :: "('s \<Rightarrow> 'r) \<Rightarrow> ('s, 'a, 'r) gen" where
  "get f = Act (\<lambda>s. (s, Ret (f s)))"

definition yieldG :: "'a \<Rightarrow> ('s, 'a, unit) gen" where
  "yieldG a = Yield a (Ret ())"

text \<open>
  \<open>for item in input: body\<close>.  The body sees the loop's variables, the item and the rest of the
  iterator; it goes on with new variables (\<open>Inl\<close>) or leaves the loop (\<open>Inr\<close>).
\<close>

primrec for_loop ::
    "('s, 'b, unit) gen \<Rightarrow> 'v \<Rightarrow> ('v \<Rightarrow> 'b \<Rightarrow> ('s, 'b, unit) gen \<Rightarrow> ('s, 'a, 'v + 'r) gen)
     \<Rightarrow> ('s, 'a, 'v + 'r) gen" where
  "for_loop (Ret u) v body = Ret (Inl v)"
| "for_loop (Fail e) v body = Fail e"
| "for_loop (Yield b g) v body = bindG (body v b g) (\<lambda>r. case r of
     Inl v' \<Rightarrow> for_loop g v' body | Inr x \<Rightarrow> Ret (Inr x))"
| "for_loop (Act f) v body = Act (map_prod id (\<lambda>g. for_loop g v body) \<circ> f)"

text \<open>A loop without \<open>break\<close> or \<open>return\<close>, and a loop over a list.\<close>

definition for_each ::
    "('s, 'b, unit) gen \<Rightarrow> 'v \<Rightarrow> ('v \<Rightarrow> 'b \<Rightarrow> ('s, 'a, 'v) gen) \<Rightarrow> ('s, 'a, 'v) gen" where
  "for_each g v body =
     bindG (for_loop g v (\<lambda>v b rest. bindG (body v b) (\<lambda>v'. Ret (Inl v'))))
       (\<lambda>r. case r of Inl v' \<Rightarrow> Ret v' | Inr v' \<Rightarrow> Ret v')"

fun for_list :: "'b list \<Rightarrow> 'v \<Rightarrow> ('v \<Rightarrow> 'b \<Rightarrow> ('s, 'a, 'v) gen) \<Rightarrow> ('s, 'a, 'v) gen" where
  "for_list [] v body = Ret v"
| "for_list (b # bs) v body = bindG (body v b) (\<lambda>v'. for_list bs v' body)"

text \<open>
  \<open>try: g finally: cleanup\<close>; the cleanup is one step on the state, and what it raises replaces
  the outcome of \<open>g\<close>.  (A generator that its consumer abandons half way is closed by the
  interpreter; that clean-up is not part of the tree.)
\<close>

primrec finallyG :: "('s \<Rightarrow> 's \<times> unit res) \<Rightarrow> ('s, 'a, 'r) gen \<Rightarrow> ('s, 'a, 'r) gen" where
  "finallyG c (Ret r) = bindG (step c) (\<lambda>_. Ret r)"
| "finallyG c (Fail e) = bindG (step c) (\<lambda>_. Fail e)"
| "finallyG c (Yield a g) = Yield a (finallyG c g)"
| "finallyG c (Act f) = Act (map_prod id (finallyG c) \<circ> f)"

text \<open>\<open>iter(xs)\<close>.\<close>

fun from_list :: "'a list \<Rightarrow> ('s, 'a, unit) gen" where
  "from_list [] = Ret ()"
| "from_list (x # xs) = Yield x (from_list xs)"

section \<open>Running alone\<close>

primrec run :: "('s, 'a, 'r) gen \<Rightarrow> 's \<Rightarrow> 'a list \<times> 'r res \<times> 's" where
  "run (Ret r) s = ([], Inr r, s)"
| "run (Fail e) s = ([], Inl e, s)"
| "run (Yield a g) s = (case run g s of (as, out) \<Rightarrow> (a # as, out))"
| "run (Act f) s = (case map_prod id run (f s) of (s', r) \<Rightarrow> r s')"

section \<open>Weakest preconditions\<close>

text \<open>
  \<open>wp I Y g Q E\<close>: started in a context that satisfies \<open>I\<close>, and however the context changes
  within \<open>I\<close> between two steps, every step of \<open>g\<close> keeps \<open>I\<close>, every item it yields satisfies
  \<open>Y\<close>, and if it returns \<open>r\<close> after yielding the items \<open>as\<close> then \<open>Q as r\<close>, and if it raises \<open>e\<close>
  then \<open>E e\<close>.  Generators are finite trees, so one of the two happens.
\<close>

primrec wp ::
    "('s \<Rightarrow> bool) \<Rightarrow> ('a \<Rightarrow> bool) \<Rightarrow> ('s, 'a, 'r) gen \<Rightarrow> ('a list \<Rightarrow> 'r \<Rightarrow> bool) \<Rightarrow> (exn \<Rightarrow> bool) \<Rightarrow> bool" where
  "wp I Y (Ret r) Q E = Q [] r"
| "wp I Y (Fail e) Q E = E e"
| "wp I Y (Yield a g) Q E = (Y a \<and> wp I Y g (\<lambda>as. Q (a # as)) E)"
| "wp I Y (Act f) Q E = (\<forall>s. I s \<longrightarrow> I (fst (f s)) \<and> snd (map_prod id (\<lambda>g. wp I Y g Q E) (f s)))"

lemma gen_induct [case_names Ret Fail Yield Act]:
  assumes "\<And>r. P (Ret r)" and "\<And>e. P (Fail e)" and "\<And>a g. P g \<Longrightarrow> P (Yield a g)"
    and "\<And>f. (\<And>s. P (snd (f s))) \<Longrightarrow> P (Act f)"
  shows "P g"
proof (induction g)
  case (Act f)
  have "P (snd (f s))" for s
    by (rule Act.IH [of "f s"]) (auto simp: prod_set_defs)
  then show ?case by (rule assms(4))
qed (use assms in auto)

lemma wp_mono:
  "wp I Y g Q E \<Longrightarrow> (\<And>as r. Q as r \<Longrightarrow> Q' as r) \<Longrightarrow> (\<And>e. E e \<Longrightarrow> E' e) \<Longrightarrow> (\<And>a. Y a \<Longrightarrow> Y' a) \<Longrightarrow> wp I Y' g Q' E'"
proof (induction g arbitrary: Q Q' rule: gen_induct)
  case (Yield a g)
  from Yield.prems(1) have "Y a" and "wp I Y g (\<lambda>as. Q (a # as)) E" by simp_all
  then show ?case using Yield.IH Yield.prems(2,3,4) by simp
next
  case (Act f)
  show ?case using Act.IH [of _ Q Q'] Act.prems by simp
qed auto

text \<open>Items yielded satisfy \<open>Y\<close>, so the postcondition may use that they do.\<close>

lemma wp_yielded:
  "wp I Y g (\<lambda>as r. list_all Y as \<longrightarrow> Q as r) E \<Longrightarrow> wp I Y g Q E"
proof (induction g arbitrary: Q rule: gen_induct)
  case (Yield a g)
  then have "Y a" by simp
  with Yield.prems have "wp I Y g (\<lambda>as r. list_all Y as \<longrightarrow> Q (a # as) r) E" by simp
  from Yield.IH [OF this] \<open>Y a\<close> show ?case by simp
qed auto

lemma wp_bind [simp]:
  "wp I Y (bindG g k) Q E \<longleftrightarrow> wp I Y g (\<lambda>as r. wp I Y (k r) (\<lambda>bs. Q (as @ bs)) E) E"
  by (induction g arbitrary: Q rule: gen_induct) auto

lemma bind_lift [simp]: "bindG (lift (Inr v)) k = k v" "bindG (lift (Inl e)) k = Fail e"
  by (simp_all add: lift_def)

text \<open>A first part that yields nothing.\<close>

lemma wp_bindI:
  assumes "wp I Y g (\<lambda>as r. as = [] \<and> P r) E" and "\<And>r. P r \<Longrightarrow> wp I Y (k r) Q E"
  shows "wp I Y (bindG g k) Q E"
  unfolding wp_bind by (rule wp_mono [OF assms(1)]) (use assms(2) in auto)

lemma wp_lift: "wp I Y (lift m) Q E \<longleftrightarrow> (case m of Inl e \<Rightarrow> E e | Inr v \<Rightarrow> Q [] v)"
  by (simp add: lift_def split: sum.split)

lemma wp_step [simp]: "wp I Y (step f) Q E \<longleftrightarrow>
    (\<forall>s. I s \<longrightarrow> I (fst (f s)) \<and> (case snd (f s) of Inl e \<Rightarrow> E e | Inr v \<Rightarrow> Q [] v))"
  by (simp add: step_def wp_lift)

lemma wp_modify [simp]: "wp I Y (modify f) Q E \<longleftrightarrow> (\<forall>s. I s \<longrightarrow> I (f s) \<and> Q [] ())"
  by (simp add: modify_def)

lemma wp_get [simp]: "wp I Y (get f) Q E \<longleftrightarrow> (\<forall>s. I s \<longrightarrow> Q [] (f s))"
  by (simp add: get_def)

lemma wp_yield [simp]: "wp I Y (yieldG a) Q E \<longleftrightarrow> Y a \<and> Q [a] ()"
  by (simp add: yieldG_def)

lemma wp_finally:
  assumes "wp I Y g Q E"
    and "\<And>s. I s \<Longrightarrow> I (fst (c s)) \<and> (case snd (c s) of Inl e \<Rightarrow> E e | Inr _ \<Rightarrow> True)"
  shows "wp I Y (finallyG c g) Q E"
  using assms(1)
proof (induction g arbitrary: Q rule: gen_induct)
  case (Ret r)
  then show ?case using assms(2) by (force split: sum.splits)
next
  case (Fail e)
  then show ?case using assms(2) by (force split: sum.splits)
qed auto

lemma wp_from_list [simp]: "wp I Y (from_list xs) Q E \<longleftrightarrow> list_all Y xs \<and> Q xs ()"
  by (induction xs arbitrary: Q) auto

text \<open>What \<open>wp\<close> says of a generator that runs alone.\<close>

lemma wp_run:
  "wp I Y g Q E \<Longrightarrow> I s \<Longrightarrow> run g s = (as, out, s') \<Longrightarrow>
     I s' \<and> list_all Y as \<and> (case out of Inl e \<Rightarrow> E e | Inr r \<Rightarrow> Q as r)"
proof (induction g arbitrary: Q s as rule: gen_induct)
  case (Yield a g)
  then show ?case by (fastforce split: prod.splits)
next
  case (Act f)
  then have "I (fst (f s))" and "wp I Y (snd (f s)) Q E" by simp_all
  moreover have "run (snd (f s)) (fst (f s)) = (as, out, s')"
    using Act.prems(3) by (cases "f s") simp
  ultimately show ?case using Act.IH by blast
qed auto

text \<open>
  The items that a generator may yield first, and those it may have yielded when it returns.
\<close>

inductive may_yield :: "('s, 'a, 'r) gen \<Rightarrow> 'a list \<Rightarrow> bool" where
  none: "may_yield g []"
| yield: "may_yield g as \<Longrightarrow> may_yield (Yield a g) (a # as)"
| act: "may_yield (snd (f s)) as \<Longrightarrow> may_yield (Act f) as"

inductive may_return :: "('s, 'a, 'r) gen \<Rightarrow> 'a list \<Rightarrow> bool" where
  ret: "may_return (Ret r) []"
| yield: "may_return g as \<Longrightarrow> may_return (Yield a g) (a # as)"
| act: "may_return (snd (f s)) as \<Longrightarrow> may_return (Act f) as"

inductive_simps may_yield_simps [simp]:
  "may_yield (Ret r) as" "may_yield (Fail e) as" "may_yield (Yield a g) as" "may_yield (Act f) as"

inductive_simps may_return_simps [simp]:
  "may_return (Ret r) as" "may_return (Fail e) as" "may_return (Yield a g) as" "may_return (Act f) as"

lemma wp_may_return: "wp I Y g Q E \<Longrightarrow> wp I Y g (\<lambda>as r. Q as r \<and> may_return g as) E"
proof (induction g arbitrary: Q rule: gen_induct)
  case (Yield a g)
  then have "wp I Y g (\<lambda>as r. Q (a # as) r \<and> may_return g as) E" by simp
  then show ?case using Yield.prems by simp
next
  case (Act f)
  show ?case
  proof (simp, intro allI impI)
    fix s assume "I s"
    with Act.prems have "I (fst (f s))" and "wp I Y (snd (f s)) Q E" by simp_all
    with Act.IH [of s Q] show "I (fst (f s)) \<and> wp I Y (snd (f s))
        (\<lambda>as r. Q as r \<and> (\<exists>s. may_return (snd (f s)) as)) E"
      by (auto elim: wp_mono)
  qed
qed auto

text \<open>
  The rule for loops: \<open>J bs v as\<close> holds after the items \<open>bs\<close> were consumed, with variables \<open>v\<close>,
  and \<open>as\<close> yielded.  The body may use what holds of every item of the input and of the items
  that the input may yield first, and what the rest of the input still delivers.
\<close>

lemma wp_for_loop:
  assumes "wp I B g (\<lambda>bs _. P (pre @ bs)) E"
    and "J pre v as" and "\<And>bs. may_yield g bs \<Longrightarrow> T (pre @ bs)"
    and "\<And>bs v as b rest. J bs v as \<Longrightarrow> B b \<Longrightarrow> T (bs @ [b]) \<Longrightarrow>
      wp I B rest (\<lambda>bs' _. P ((bs @ [b]) @ bs')) E \<Longrightarrow>
      wp I Y (body v b rest) (\<lambda>os r. case r of Inl v' \<Rightarrow> J (bs @ [b]) v' (as @ os)
                                    | Inr x \<Rightarrow> Q (as @ os) (Inr x)) E"
    and "\<And>bs v as. J bs v as \<Longrightarrow> P bs \<Longrightarrow> Q as (Inl v)"
  shows "wp I Y (for_loop g v body) (\<lambda>os. Q (as @ os)) E"
  using assms(1,2,3)
proof (induction g arbitrary: pre v as rule: gen_induct)
  case (Ret u)
  then show ?case using assms(5) by simp
next
  case (Fail e)
  then show ?case by simp
next
  case (Yield b g)
  have B: "B b" and g: "wp I B g (\<lambda>bs' _. P ((pre @ [b]) @ bs')) E"
    using Yield.prems(1) by simp_all
  have T: "T ((pre @ [b]) @ bs)" if "may_yield g bs" for bs
    using Yield.prems(3) [of "b # bs"] that by simp
  from assms(4) [OF Yield.prems(2) B _ g] T [of "[]"]
  have "wp I Y (body v b g) (\<lambda>os r. case r of Inl v' \<Rightarrow> J (pre @ [b]) v' (as @ os)
                                    | Inr x \<Rightarrow> Q (as @ os) (Inr x)) E" by (simp add: none)
  then show ?case
    unfolding for_loop.simps wp_bind
  proof (rule wp_mono)
    fix os r
    assume r: "case r of Inl v' \<Rightarrow> J (pre @ [b]) v' (as @ os) | Inr x \<Rightarrow> Q (as @ os) (Inr x)"
    show "wp I Y (case r of Inl v' \<Rightarrow> for_loop g v' body | Inr x \<Rightarrow> Ret (Inr x)) (\<lambda>bs. Q (as @ os @ bs)) E"
    proof (cases r)
      case (Inl v')
      then show ?thesis
        using Yield.IH [OF g, of v' "as @ os"] r T by simp
    next
      case (Inr x)
      then show ?thesis using r by simp
    qed
  qed
next
  case (Act f)
  have "I s \<Longrightarrow> wp I Y (for_loop (snd (f s)) v body) (\<lambda>os. Q (as @ os)) E" for s
    using Act.IH [of s pre v as] Act.prems by auto
  then show ?case using Act.prems(1) by simp
qed

lemma wp_for_each:
  assumes "wp I B g (\<lambda>bs _. P bs) E" and "J [] v []"
    and "\<And>bs v as b. J bs v as \<Longrightarrow> B b \<Longrightarrow> wp I Y (body v b) (\<lambda>os v'. J (bs @ [b]) v' (as @ os)) E"
    and "\<And>bs v as. J bs v as \<Longrightarrow> P bs \<Longrightarrow> Q as v"
  shows "wp I Y (for_each g v body) Q E"
proof -
  have "wp I Y (for_loop g v (\<lambda>v b rest. bindG (body v b) (\<lambda>v'. Ret (Inl v'))))
      (\<lambda>os. (\<lambda>as r. case r of Inl v' \<Rightarrow> Q as v' | Inr v' \<Rightarrow> Q as v') ([] @ os)) E"
    by (rule wp_for_loop [where pre = "[]" and P = P and J = J and B = B and T = "\<lambda>_. True"])
      (use assms in auto)
  then show ?thesis
    unfolding for_each_def wp_bind
    by (rule wp_mono) (auto split: sum.splits)
qed

lemma wp_for_list:
  assumes "J 0 v []"
    and "\<And>i v as. i < length bs \<Longrightarrow> J i v as \<Longrightarrow>
      wp I Y (body v (bs ! i)) (\<lambda>os v'. J (Suc i) v' (as @ os)) E"
    and "\<And>v as. J (length bs) v as \<Longrightarrow> Q as v"
  shows "wp I Y (for_list bs v body) Q E"
proof -
  have "wp I Y (for_list (drop i bs) v body) (\<lambda>os. Q (as @ os)) E" if "J i v as" and "i \<le> length bs" for i as v
    using that
  proof (induction "length bs - i" arbitrary: i v as)
    case 0
    then show ?case using assms(3) by simp
  next
    case (Suc n)
    then have i: "i < length bs" by simp
    have "wp I Y (body v (bs ! i)) (\<lambda>os v'. J (Suc i) v' (as @ os)) E"
      using assms(2) [OF i Suc.prems(1)] .
    then have "wp I Y (body v (bs ! i)) (\<lambda>os v'. wp I Y (for_list (drop (Suc i) bs) v' body)
        (\<lambda>os'. Q ((as @ os) @ os')) E) E"
    proof (rule wp_mono)
      fix os v'
      assume "J (Suc i) v' (as @ os)"
      moreover have "n = length bs - Suc i" using Suc.hyps(2) by simp
      ultimately show "wp I Y (for_list (drop (Suc i) bs) v' body) (\<lambda>os'. Q ((as @ os) @ os')) E"
        using Suc.hyps(1) [of "Suc i" v' "as @ os"] i by simp
    qed
    then show ?case
      using i by (simp add: Cons_nth_drop_Suc [symmetric, of i bs])
  qed
  from this [of 0 v "[]"] assms(1) show ?thesis by simp
qed

text \<open>A loop over a list that consumes a prefix at a time: \<open>J bs v as\<close> as for generators.\<close>

lemma wp_for_list_prefix:
  assumes "J [] v []"
    and "\<And>pre b v as. set (pre @ [b]) \<subseteq> set xs \<Longrightarrow> J pre v as \<Longrightarrow>
      wp I Y (body v b) (\<lambda>os v'. J (pre @ [b]) v' (as @ os)) E"
    and "\<And>v as. J xs v as \<Longrightarrow> Q as v"
  shows "wp I Y (for_list xs v body) Q E"
proof (rule wp_for_list [where J = "\<lambda>i. J (take i xs)"])
  fix i v as
  assume "i < length xs" and "J (take i xs) v as"
  moreover from this have "take (Suc i) xs = take i xs @ [xs ! i]"
    by (simp add: take_Suc_conv_app_nth)
  ultimately show "wp I Y (body v (xs ! i)) (\<lambda>os v'. J (take (Suc i) xs) v' (as @ os)) E"
    using assms(2) [of "take i xs" "xs ! i"] by (auto dest: in_set_takeD)
qed (use assms in auto)

section \<open>Reading one item at a time\<close>

text \<open>
  \<open>next(iterator, None)\<close>: the next item with the rest of the iterator, or \<open>None\<close> at its end.  The
  rest is a part of the iterator, so code that keeps reading comes to an end.
\<close>

primrec pull ::
    "('s, 'b, unit) gen \<Rightarrow> (('b \<times> ('s, 'b, unit) gen) option \<Rightarrow> ('s, 'a, 'r) gen) \<Rightarrow> ('s, 'a, 'r) gen" where
  "pull (Ret u) k = k None"
| "pull (Fail e) k = Fail e"
| "pull (Yield b g) k = k (Some (b, g))"
| "pull (Act f) k = Act (map_prod id (\<lambda>g. pull g k) \<circ> f)"

inductive subgen :: "('s, 'a, 'r) gen \<Rightarrow> ('s, 'a, 'r) gen \<Rightarrow> bool" where
  yield: "subgen g (Yield a g)"
| act: "subgen (snd (f s)) (Act f)"

inductive_cases subgen_cases: "subgen g (Ret r)" "subgen g (Fail e)" "subgen g (Yield a h)" "subgen g (Act f)"

lemma wf_subgen: "wfp (subgen\<^sup>+\<^sup>+ :: ('s, 'a, 'r) gen \<Rightarrow> _)"
proof -
  have "Wellfounded.accp subgen g" for g :: "('s, 'a, 'r) gen"
    by (induction g rule: gen_induct) (auto intro: accpI elim: subgen_cases)
  then show ?thesis
    by (intro wfp_tranclp accp_wfpI) blast
qed

fun part_of :: "('b \<times> ('s, 'b, unit) gen) option \<Rightarrow> ('s, 'b, unit) gen \<Rightarrow> bool" where
  "part_of None g = True"
| "part_of (Some (b, r)) g = subgen\<^sup>+\<^sup>+ r g"

lemma part_of_act: "part_of x (snd (f s)) \<Longrightarrow> part_of x (Act f)"
  by (cases x) (auto, blast intro: tranclp.trancl_into_trancl subgen.act)

lemma part_of_yield: "part_of x g \<Longrightarrow> part_of x (Yield b g)"
  by (cases x) (auto, blast intro: tranclp.trancl_into_trancl subgen.yield)

lemma pull_cong [fundef_cong]:
  "g = g' \<Longrightarrow> (\<And>x. part_of x g' \<Longrightarrow> k x = k' x) \<Longrightarrow> pull g k = pull g' k'"
proof (induction g' arbitrary: g rule: gen_induct)
  case (Yield b g')
  then show ?case by (simp add: subgen.yield tranclp.r_into_trancl)
next
  case (Act f)
  then have "pull (snd (f s)) k = pull (snd (f s)) k'" for s
    by (intro Act.IH) (auto intro: part_of_act)
  then show ?case using Act.prems(1) by (auto simp: map_prod_def split_beta)
qed auto

text \<open>What an iterator still delivers, given its next item.\<close>

fun side_wp ::
    "('s \<Rightarrow> bool) \<Rightarrow> ('b \<Rightarrow> bool) \<Rightarrow> ('b \<times> ('s, 'b, unit) gen) option \<Rightarrow> ('b list \<Rightarrow> bool) \<Rightarrow> (exn \<Rightarrow> bool) \<Rightarrow> bool" where
  "side_wp I B None P E = P []"
| "side_wp I B (Some (b, r)) P E = (B b \<and> wp I B r (\<lambda>bs _. P (b # bs)) E)"

lemma wp_pull:
  assumes "wp I B g (\<lambda>bs _. P bs) E"
    and "\<And>x. side_wp I B x P E \<Longrightarrow> part_of x g \<Longrightarrow> wp I Y (k x) Q E"
  shows "wp I Y (pull g k) Q E"
  using assms
proof (induction g rule: gen_induct)
  case (Yield b g)
  then show ?case by (simp add: subgen.yield tranclp.r_into_trancl)
next
  case (Act f)
  have "wp I Y (pull (snd (f s)) k) Q E" if "I s" for s
    using Act.prems(1) that by (intro Act.IH) (auto intro: Act.prems(2) part_of_act)
  then show ?case using Act.prems(1) by simp
qed auto

text \<open>Iterators with their next item, ordered by what is left of them.\<close>

definition side_order :: "(('b \<times> ('s, 'b, unit) gen) option \<times> ('b \<times> ('s, 'b, unit) gen) option) set" where
  "side_order = {(x, Some (b, g)) | x b g. part_of x g}"

lemma wf_side_order:
  "wf (side_order :: (('b \<times> ('s, 'b, unit) gen) option \<times> ('b \<times> ('s, 'b, unit) gen) option) set)"
proof -
  have step: "Wellfounded.accp (\<lambda>y x. (y, x) \<in> side_order) (Some (b, g))" for b and g :: "('s, 'b, unit) gen"
  proof (induction g arbitrary: b rule: wfp_induct_rule [OF wf_subgen])
    case (1 g)
    show ?case
    proof (rule accpI)
      fix y assume "(y, Some (b, g)) \<in> side_order"
      then have "part_of y g" by (simp add: side_order_def)
      then show "Wellfounded.accp (\<lambda>y x. (y, x) \<in> side_order) y"
        using "1" by (cases y) (auto intro: accpI simp: side_order_def)
    qed
  qed
  have "Wellfounded.accp (\<lambda>y x. (y, x) \<in> side_order) (x :: ('b \<times> ('s, 'b, unit) gen) option)" for x
    using step by (cases x) (auto intro: accpI simp: side_order_def)
  then have "wfp (\<lambda>y (x :: ('b \<times> ('s, 'b, unit) gen) option). (y, x) \<in> side_order)"
    by (intro accp_wfpI allI)
  then show ?thesis by (simp add: wfp_def)
qed

end
