(* ===== verification/Context.thy ===== *)
theory Context
  imports ExprUtils Memory RuntimeFilter Streams
begin

text \<open>
  What every operator shares (the first part of \<open>execution/operators.py\<close>): batches, the
  execution context with its cancellation token, metrics, memory account and temporary files,
  and the atomic steps on it.
\<close>

section \<open>Batches\<close>

record batch =
  bt_schema :: schema
  bt_rows :: "row list"

definition field_names :: "schema \<Rightarrow> string list" where
  "field_names s = map sf_name (sc_fields s)"

text \<open>
  The runtime of the operators: the length of \<open>repr(row)\<close> in bytes, Python's \<open>hash\<close> of a tuple,
  and \<open>ev_conform\<close>, the row that PyArrow's \<open>from_pylist\<close> and \<open>to_pylist\<close> make of a row under a
  schema (a conversion that may raise).
\<close>

record env = filter_runtime +
  ev_repr_bytes :: "row \<Rightarrow> nat"
  ev_hash :: "sql_value list \<Rightarrow> int"
  ev_conform :: "schema \<Rightarrow> row \<Rightarrow> row res"

abbreviation rt_of :: "env \<Rightarrow> py_runtime" where
  "rt_of ev \<equiv> py_runtime.truncate ev"

definition make_batch :: "env \<Rightarrow> schema \<Rightarrow> row list \<Rightarrow> batch res" where
  "make_batch ev s rows = bindR (mapR (ev_conform ev s) rows) (\<lambda>rs. Inr \<lparr>bt_schema = s, bt_rows = rs\<rparr>)"

definition row_size :: "env \<Rightarrow> row \<Rightarrow> int" where
  "row_size ev row = estimate_row_size (ev_repr_bytes ev row)"

section \<open>The execution context\<close>

record op_metrics =
  om_input_rows :: int
  om_input_batches :: int
  om_output_rows :: int
  om_output_batches :: int
  om_filters_applied :: int
  om_rows_filtered :: int
  om_spill_bytes :: int
  om_spill_files :: int
  om_peak_memory :: int

definition no_op_metrics :: op_metrics where
  "no_op_metrics = \<lparr>om_input_rows = 0, om_input_batches = 0, om_output_rows = 0, om_output_batches = 0,
     om_filters_applied = 0, om_rows_filtered = 0, om_spill_bytes = 0, om_spill_files = 0,
     om_peak_memory = 0\<rparr>"

text \<open>
  \<open>cx_cancelled n\<close> tells whether the token is set when it is checked for the \<open>n\<close>-th time;
  \<open>cx_write_error n\<close> is the file system's answer to the \<open>n\<close>-th write.  \<open>cx_reserved\<close> holds the
  local variable \<open>reserved\<close> of the generator frames, \<open>cx_channels\<close> the runtime filter that a join
  has published.
\<close>

record ctx =
  cx_batch_size :: nat
  cx_ticks :: nat
  cx_cancelled :: "nat \<Rightarrow> bool"
  cx_metrics :: "string \<Rightarrow> op_metrics"
  cx_accounts :: accounts
  cx_account :: nat
  cx_spill :: spill_metrics
  cx_temp :: "(row list) temp_files"
  cx_write_error :: "nat \<Rightarrow> (int \<times> string) option"
  cx_file_size :: "row list \<Rightarrow> int"
  cx_reserved :: "string \<Rightarrow> int"
  cx_channels :: "string \<Rightarrow> runtime_filter option"

text \<open>\<open>ExecutionContext.__post_init__\<close>: the checks, and the task account below the query's.\<close>

definition new_context ::
    "int \<Rightarrow> int \<Rightarrow> accounts \<Rightarrow> nat option \<Rightarrow> string \<Rightarrow> string \<Rightarrow> string \<Rightarrow> string
     \<Rightarrow> (nat \<Rightarrow> bool) \<Rightarrow> (nat \<Rightarrow> (int \<times> string) option) \<Rightarrow> (row list \<Rightarrow> int) \<Rightarrow> ctx res" where
  "new_context batch_size limit as query_account query task base attempt cancelled errors sizes =
     (if batch_size \<le> 0 then Inl PyValueError
      else if limit \<le> 0 then Inl PyValueError
      else bindR (case query_account of
               None \<Rightarrow> new_account as query limit None
             | Some q \<Rightarrow> Inr (q, as)) (\<lambda>(q, as1).
           bindR (child as1 q task (Some limit)) (\<lambda>(t, as2).
             Inr \<lparr>cx_batch_size = nat batch_size, cx_ticks = 0, cx_cancelled = cancelled,
                  cx_metrics = (\<lambda>_. no_op_metrics), cx_accounts = as2, cx_account = t,
                  cx_spill = no_spills, cx_temp = new_temp_files base query task attempt,
                  cx_write_error = errors, cx_file_size = sizes, cx_reserved = (\<lambda>_. 0),
                  cx_channels = (\<lambda>_. None)\<rparr>)))"

text \<open>\<open>ExecutionContext.close\<close>: what the task account still holds is released.\<close>

definition close_context :: "ctx \<Rightarrow> ctx res" where
  "close_context s =
     (let a = cx_accounts s ! cx_account s in
      bindR (if ac_current a \<noteq> 0 then release (cx_accounts s) (cx_account s) (ac_current a)
             else Inr (cx_accounts s)) (\<lambda>as.
        Inr (s\<lparr>cx_accounts := as,
               cx_spill := (cx_spill s)\<lparr>peak_memory_bytes :=
                 max (peak_memory_bytes (cx_spill s)) (ac_peak (as ! cx_account s))\<rparr>,
               cx_temp := (cx_temp s)\<lparr>tf_files := []\<rparr>\<rparr>)))"

section \<open>Steps\<close>

type_synonym 'r rows = "(ctx, row, 'r) gen"
type_synonym 'r batches = "(ctx, batch, 'r) gen"

definition check_cancelled :: "(ctx, 'a, unit) gen" where
  "check_cancelled = step (\<lambda>s. (s\<lparr>cx_ticks := Suc (cx_ticks s)\<rparr>,
     if cx_cancelled s (cx_ticks s) then Inl ExecutionCancelled else Inr ()))"

definition bump :: "string \<Rightarrow> (op_metrics \<Rightarrow> op_metrics) \<Rightarrow> (ctx, 'a, unit) gen" where
  "bump op f = modify (\<lambda>s. s\<lparr>cx_metrics := (cx_metrics s)(op := f (cx_metrics s op))\<rparr>)"

definition count_input :: "string \<Rightarrow> nat \<Rightarrow> (ctx, 'a, unit) gen" where
  "count_input op n = bump op (\<lambda>m. m\<lparr>om_input_batches := om_input_batches m + 1,
     om_input_rows := om_input_rows m + int n\<rparr>)"

definition emit :: "string \<Rightarrow> batch \<Rightarrow> unit batches" where
  "emit op b = bindG (bump op (\<lambda>m. m\<lparr>om_output_batches := om_output_batches m + 1,
     om_output_rows := om_output_rows m + int (length (bt_rows b))\<rparr>)) (\<lambda>_. yieldG b)"

text \<open>\<open>_batches_from_rows\<close>, each batch counted and yielded.\<close>

function chunks :: "nat \<Rightarrow> 'a list \<Rightarrow> 'a list list" where
  "chunks n xs = (if n = 0 \<or> xs = [] then [] else take n xs # chunks n (drop n xs))"
  by pat_completeness auto
termination
  by (relation "measure (\<lambda>(n, xs). length xs)") auto

declare chunks.simps [simp del]

definition emit_rows :: "env \<Rightarrow> string \<Rightarrow> schema \<Rightarrow> row list \<Rightarrow> unit batches" where
  "emit_rows ev op s rows = bindG (get cx_batch_size) (\<lambda>n.
     if n = 0 then Fail PyValueError
     else for_list (chunks n rows) () (\<lambda>_ chunk.
       bindG (lift (make_batch ev s chunk)) (\<lambda>b. emit op b)))"

text \<open>
  \<open>if memory_account.try_reserve(n): reserved += n\<close>, where \<open>reserved\<close> is the frame's local variable.
\<close>

definition try_reserve_frame :: "string \<Rightarrow> int \<Rightarrow> ctx \<Rightarrow> ctx \<times> bool res" where
  "try_reserve_frame frame n s = (case try_reserve (cx_accounts s) (cx_account s) n of
       Inl e \<Rightarrow> (s, Inl e)
     | Inr (ok, as) \<Rightarrow> (s\<lparr>cx_accounts := as,
         cx_reserved := (if ok then (cx_reserved s)(frame := cx_reserved s frame + n)
                         else cx_reserved s)\<rparr>, Inr ok))"

definition try_reserve_step :: "string \<Rightarrow> int \<Rightarrow> (ctx, 'a, bool) gen" where
  "try_reserve_step frame n = step (try_reserve_frame frame n)"

text \<open>\<open>if reserved: memory_account.release(reserved)\<close> and \<open>reserved = 0\<close>.\<close>

definition release_frame :: "string \<Rightarrow> ctx \<Rightarrow> ctx \<times> unit res" where
  "release_frame frame s =
     (if cx_reserved s frame = 0 then (s, Inr ())
      else case release (cx_accounts s) (cx_account s) (cx_reserved s frame) of
          Inl e \<Rightarrow> (s, Inl e)
        | Inr as \<Rightarrow> (s\<lparr>cx_accounts := as, cx_reserved := (cx_reserved s)(frame := 0)\<rparr>, Inr ()))"

definition release_step :: "string \<Rightarrow> (ctx, 'a, unit) gen" where
  "release_step frame = step (release_frame frame)"

text \<open>The \<open>finally\<close> of the spilling operators: release, then record the peaks.\<close>

definition record_peaks :: "string \<Rightarrow> ctx \<Rightarrow> ctx" where
  "record_peaks op s =
     (let peak = ac_peak (cx_accounts s ! cx_account s) in
      s\<lparr>cx_metrics := (cx_metrics s)(op := (cx_metrics s op)\<lparr>om_peak_memory :=
           max (om_peak_memory (cx_metrics s op)) peak\<rparr>),
        cx_spill := (cx_spill s)\<lparr>peak_memory_bytes := max (peak_memory_bytes (cx_spill s)) peak\<rparr>\<rparr>)"

definition finish_frame :: "string \<Rightarrow> string \<Rightarrow> ctx \<Rightarrow> ctx \<times> unit res" where
  "finish_frame op frame s = (case release_frame frame s of
       (s', Inl e) \<Rightarrow> (s', Inl e)
     | (s', Inr _) \<Rightarrow> (record_peaks op s', Inr ()))"

text \<open>
  Writing a table to a spill file and counting it; the answer is the file's content, which is
  what reading the file returns.
\<close>

definition spill_file ::
    "env \<Rightarrow> string \<Rightarrow> schema \<Rightarrow> row list \<Rightarrow> string \<Rightarrow> (spill_metrics \<Rightarrow> spill_metrics) \<Rightarrow> (ctx, 'a, row list) gen" where
  "spill_file ev op s rows prefix tally =
     bindG (lift (make_batch ev s rows)) (\<lambda>b. step (\<lambda>st.
       case write_table (cx_temp st) prefix (bt_rows b) (cx_write_error st (length (tf_files (cx_temp st)))) of
           Inl e \<Rightarrow> (st\<lparr>cx_temp := (cx_temp st)\<lparr>tf_files := []\<rparr>\<rparr>, Inl e)
         | Inr (path, t) \<Rightarrow>
             (let size = cx_file_size st (bt_rows b); sp = cx_spill st; m = cx_metrics st op in
              (st\<lparr>cx_temp := t,
                  cx_spill := tally (sp\<lparr>spill_bytes := spill_bytes sp + size,
                     spill_files := spill_files sp + 1, spill_count := spill_count sp + 1\<rparr>),
                  cx_metrics := (cx_metrics st)(op := m\<lparr>om_spill_bytes := om_spill_bytes m + size,
                     om_spill_files := om_spill_files m + 1\<rparr>)\<rparr>, Inr (bt_rows b)))))"

section \<open>The contract of the context\<close>

text \<open>
  What an operator may rely on: an invariant \<open>inv\<close> of the context that the steps keep, and a
  set \<open>err\<close> of exceptions that contains whatever a step may raise.
\<close>

locale execution_context =
  fixes inv :: "ctx \<Rightarrow> bool" and err :: "exn \<Rightarrow> bool"
  assumes inv_ticks: "inv s \<Longrightarrow> inv (s\<lparr>cx_ticks := n\<rparr>)"
    and inv_metrics: "inv s \<Longrightarrow> inv (s\<lparr>cx_metrics := m\<rparr>)"
    and inv_spill: "inv s \<Longrightarrow> inv (s\<lparr>cx_spill := sp\<rparr>)"
    and inv_temp: "inv s \<Longrightarrow> inv (s\<lparr>cx_temp := t\<rparr>)"
    and inv_channels: "inv s \<Longrightarrow> inv (s\<lparr>cx_channels := c\<rparr>)"
    and inv_reserve: "inv s \<Longrightarrow> 0 < (k :: int) \<Longrightarrow> inv (fst (try_reserve_frame frame k s))"
    and inv_release: "inv s \<Longrightarrow> inv (fst (release_frame frame s))"
    and err_cancelled: "inv s \<Longrightarrow> cx_cancelled s n \<Longrightarrow> err ExecutionCancelled"
    and err_batch_size: "inv s \<Longrightarrow> cx_batch_size s = 0 \<Longrightarrow> err PyValueError"
    and err_release: "inv s \<Longrightarrow> snd (release_frame frame s) = Inl e \<Longrightarrow> err e"
    and err_write: "inv s \<Longrightarrow> write_table t p rows (cx_write_error s n) = Inl e \<Longrightarrow> err e"

named_theorems wp_steps \<open>weakest preconditions of the context steps\<close>

lemma row_size_pos [simp]: "0 < row_size ev row"
  by (simp add: row_size_def estimate_row_size_pos)

lemma try_reserve_positive:
  "0 < n \<Longrightarrow> \<exists>ok as'. try_reserve as i n = Inr (ok, as')"
  by (auto simp: try_reserve_def reserve_def)

text \<open>Rows that a schema already describes: PyArrow gives them back unchanged.\<close>

definition conforms :: "env \<Rightarrow> schema \<Rightarrow> row \<Rightarrow> bool" where
  "conforms ev s r \<longleftrightarrow> ev_conform ev s r = Inr r"

definition batch_ok :: "env \<Rightarrow> schema \<Rightarrow> batch \<Rightarrow> bool" where
  "batch_ok ev s b \<longleftrightarrow> bt_schema b = s \<and> list_all (conforms ev s) (bt_rows b)"

lemma make_batch_conforming:
  "\<forall>r \<in> set rows. conforms ev s r \<Longrightarrow> make_batch ev s rows = Inr \<lparr>bt_schema = s, bt_rows = rows\<rparr>"
  using mapR_total [of rows "ev_conform ev s" id] by (simp add: make_batch_def conforms_def)

lemma concat_chunks: "0 < n \<Longrightarrow> concat (chunks n xs) = xs"
  by (induction n xs rule: chunks.induct) (subst chunks.simps, auto)

lemma set_chunks: "0 < n \<Longrightarrow> c \<in> set (chunks n xs) \<Longrightarrow> set c \<subseteq> set xs"
  using concat_chunks [of n xs] by (metis UN_upper set_concat)

text \<open>The rows of a list of batches.\<close>

definition rows_of :: "batch list \<Rightarrow> row list" where
  "rows_of bs = concat (map bt_rows bs)"

lemma rows_of_simps [simp]:
  "rows_of [] = []" "rows_of (b # bs) = bt_rows b @ rows_of bs" "rows_of (as @ bs) = rows_of as @ rows_of bs"
  by (simp_all add: rows_of_def)

text \<open>The rows as PyArrow converts them to the output schema.\<close>

definition conformed :: "env \<Rightarrow> schema \<Rightarrow> row list \<Rightarrow> row list \<Rightarrow> bool" where
  "conformed ev s rows rs \<longleftrightarrow> mapR (ev_conform ev s) rows = Inr rs"

lemma conformed_Nil [simp]: "conformed ev s [] rs \<longleftrightarrow> rs = []"
  by (auto simp: conformed_def)

lemma conformed_append:
  "conformed ev s xs us \<Longrightarrow> conformed ev s ys vs \<Longrightarrow> conformed ev s (xs @ ys) (us @ vs)"
  by (simp add: conformed_def mapR_append)

lemma conformed_conforming: "list_all (conforms ev s) rows \<Longrightarrow> conformed ev s rows rs \<longleftrightarrow> rs = rows"
  using mapR_total [of rows "ev_conform ev s" id]
  by (auto simp: conformed_def conforms_def list_all_iff)

text \<open>A conversion that is idempotent gives batches whose rows conform.\<close>

definition conversion_ok :: "env \<Rightarrow> schema \<Rightarrow> bool" where
  "conversion_ok ev s \<longleftrightarrow> (\<forall>r r'. ev_conform ev s r = Inr r' \<longrightarrow> conforms ev s r')"

lemma conformed_conforms:
  "conversion_ok ev s \<Longrightarrow> conformed ev s rows rs \<Longrightarrow> list_all (conforms ev s) rs"
  by (auto simp: conformed_def mapR_Inr_iff conversion_ok_def list_all_length list_all2_conv_all_nth)

context execution_context
begin

lemma wp_check_cancelled [wp_steps]: "Q [] () \<Longrightarrow> wp inv Y check_cancelled Q err"
  by (auto simp: check_cancelled_def inv_ticks intro: err_cancelled)

lemma wp_bump [wp_steps]: "Q [] () \<Longrightarrow> wp inv Y (bump op f) Q err"
  by (auto simp: bump_def inv_metrics)

lemma wp_count_input [wp_steps]: "Q [] () \<Longrightarrow> wp inv Y (count_input op n) Q err"
  by (simp add: count_input_def wp_bump)

lemma wp_checked: "wp inv Y g Q err \<Longrightarrow> wp inv Y (bindG check_cancelled (\<lambda>_. g)) Q err"
  by (simp add: wp_check_cancelled)

lemma wp_counted:
  "wp inv Y g Q err \<Longrightarrow>
     wp inv Y (bindG check_cancelled (\<lambda>_. bindG (count_input op n) (\<lambda>_. g))) Q err"
  by (simp add: wp_check_cancelled wp_count_input)

lemma wp_emit [wp_steps]: "Y b \<Longrightarrow> Q [b] () \<Longrightarrow> wp inv Y (emit op b) Q err"
  by (simp add: emit_def wp_bump)

lemma wp_try_reserve [wp_steps]:
  assumes "0 < n" and "\<And>ok. Q [] ok"
  shows "wp inv Y (try_reserve_step frame n) Q err"
  using assms inv_reserve [OF _ assms(1)] try_reserve_positive [OF assms(1)]
  by (auto simp: try_reserve_step_def try_reserve_frame_def split: sum.split) (metis Inl_Inr_False)

lemma wp_release_step [wp_steps]: "Q [] () \<Longrightarrow> wp inv Y (release_step frame) Q err"
  by (auto simp: release_step_def inv_release err_release split: sum.split)

lemma wp_finish_frame:
  assumes "wp inv Y g Q err"
  shows "wp inv Y (finallyG (finish_frame op frame) g) Q err"
proof (rule wp_finally [OF assms])
  fix s assume "inv s"
  then show "inv (fst (finish_frame op frame s))
      \<and> (case snd (finish_frame op frame s) of Inl e \<Rightarrow> err e | Inr _ \<Rightarrow> True)"
    using inv_release [of s frame] err_release [of s frame]
    by (cases "release_frame frame s")
      (auto simp: finish_frame_def record_peaks_def Let_def inv_metrics inv_spill split: sum.splits)
qed

lemma wp_release_frame:
  assumes "wp inv Y g Q err"
  shows "wp inv Y (finallyG (release_frame frame) g) Q err"
  by (rule wp_finally [OF assms]) (auto simp: inv_release err_release split: sum.split)

lemma wp_spill_file:
  assumes "\<forall>r \<in> set rows. conforms ev s r" and "Q [] rows"
  shows "wp inv Y (spill_file ev op s rows prefix tally) Q err"
  using assms
  by (auto simp: spill_file_def make_batch_conforming wp_lift Let_def
      inv_temp inv_spill inv_metrics err_write split: sum.split)

text \<open>Emitting rows: the rows come out converted, in order; a conversion may raise.\<close>

lemma wp_emit_rows:
  assumes "\<And>r e. r \<in> set rows \<Longrightarrow> ev_conform ev s r = Inl e \<Longrightarrow> err e"
    and "conversion_ok ev s"
    and "\<And>bs. conformed ev s rows (rows_of bs) \<Longrightarrow> Q bs ()"
  shows "wp inv (batch_ok ev s) (emit_rows ev op s rows) Q err"
proof -
  have fails: "err e" if "mapR (ev_conform ev s) rs = Inl e" and "set rs \<subseteq> set rows" for rs e
    using that assms(1) by (induction rs) (auto simp: bindR_eq_Inl)
  have "wp inv (batch_ok ev s) (for_list (chunks n rows) () (\<lambda>_ chunk.
       bindG (lift (make_batch ev s chunk)) (\<lambda>b. emit op b))) Q err" if n: "0 < n" for n
  proof (rule wp_for_list_prefix [where J = "\<lambda>pre _ bs. conformed ev s (concat pre) (rows_of bs)"])
    fix pre chunk bs and v :: unit
    assume sub: "set (pre @ [chunk]) \<subseteq> set (chunks n rows)" and J: "conformed ev s (concat pre) (rows_of bs)"
    have chunk: "set chunk \<subseteq> set rows" using set_chunks [OF n, of chunk rows] sub by simp
    show "wp inv (batch_ok ev s) (bindG (lift (make_batch ev s chunk)) (emit op))
        (\<lambda>os v'. conformed ev s (concat (pre @ [chunk])) (rows_of (bs @ os))) err"
    proof (cases "mapR (ev_conform ev s) chunk")
      case (Inl e)
      then show ?thesis using fails [OF _ chunk] by (simp add: make_batch_def lift_def)
    next
      case (Inr rs)
      then have "conformed ev s chunk rs" by (simp add: conformed_def)
      then show ?thesis
        using Inr J conformed_conforms [OF assms(2)]
        by (auto simp: make_batch_def lift_def batch_ok_def conformed_append intro!: wp_emit)
    qed
  qed (use concat_chunks [OF n, of rows] in \<open>auto intro: assms(3)\<close>)
  then show ?thesis
    using err_batch_size by (auto simp: emit_rows_def)
qed

end

section \<open>Any context, and a quiet one\<close>

text \<open>
  Whatever the environment does, a step raises only these: the query was cancelled, the batch
  size is zero, too much was released, or the spill storage failed.
\<close>

definition context_error :: "exn \<Rightarrow> bool" where
  "context_error e \<longleftrightarrow> e = ExecutionCancelled \<or> e = PyValueError
     \<or> (\<exists>d. e = DomainError d \<and> de_code d = RESOURCE_EXHAUSTED)"

lemma release_error: "release as i n = Inl e \<Longrightarrow> e = PyValueError"
  by (auto simp: release_def split: if_splits)

lemma write_table_error: "write_table t p r out = Inl e \<Longrightarrow> context_error e"
  by (auto simp: write_table_def spill_error_def raise_domain_def context_error_def split: option.splits)

interpretation any: execution_context "\<lambda>_. True" "\<lambda>e. context_error e \<or> E e"
  by unfold_locales
    (auto simp: release_frame_def context_error_def dest: release_error
      write_table_error [unfolded context_error_def] split: sum.splits if_splits)

text \<open>
  A quiet context: nobody cancels, batches have a positive size, the spill storage works, and
  the account holds at least what the frames have reserved.
\<close>

definition frames_ok :: "(string \<Rightarrow> int) \<Rightarrow> bool" where
  "frames_ok r \<longleftrightarrow> finite {f. r f \<noteq> 0} \<and> (\<forall>f. 0 \<le> r f)"

definition frames_sum :: "(string \<Rightarrow> int) \<Rightarrow> int" where
  "frames_sum r = (\<Sum>f | r f \<noteq> 0. r f)"

definition covers :: "ctx \<Rightarrow> bool" where
  "covers s \<longleftrightarrow> mem_ok (cx_accounts s) \<and> cx_account s < length (cx_accounts s)
     \<and> frames_ok (cx_reserved s) \<and> frames_sum (cx_reserved s) \<le> own (cx_accounts s) (cx_account s)"

definition quiet :: "ctx \<Rightarrow> bool" where
  "quiet s \<longleftrightarrow> (\<forall>n. \<not> cx_cancelled s n) \<and> 0 < cx_batch_size s
     \<and> (\<forall>n. cx_write_error s n = None) \<and> covers s"

lemma frames_sum_update:
  assumes "frames_ok r"
  shows "frames_sum (r(frame := n)) = frames_sum r - r frame + n"
proof -
  let ?F = "insert frame {f. r f \<noteq> 0}"
  have fin: "finite ?F" using assms by (simp add: frames_ok_def)
  have total: "frames_sum t = sum t ?F" if "{f. t f \<noteq> 0} \<subseteq> ?F" for t
    unfolding frames_sum_def using that fin by (intro sum.mono_neutral_left) auto
  have "sum (r(frame := n)) ?F = n + sum (r(frame := n)) (?F - {frame})"
    using fin by (subst sum.remove [of _ frame]) auto
  also have "sum (r(frame := n)) (?F - {frame}) = sum r (?F - {frame})"
    by (rule sum.cong) auto
  also have "sum r (?F - {frame}) = sum r ?F - r frame"
    using sum.remove [OF fin, of frame r] by simp
  finally have "sum (r(frame := n)) ?F = sum r ?F - r frame + n" by simp
  moreover have "frames_sum r = sum r ?F" by (rule total) auto
  moreover have "frames_sum (r(frame := n)) = sum (r(frame := n)) ?F"
    by (rule total) (auto split: if_splits)
  ultimately show ?thesis by simp
qed

lemma frames_ok_update: "frames_ok r \<Longrightarrow> 0 \<le> n \<Longrightarrow> frames_ok (r(frame := n))"
  unfolding frames_ok_def
  by (auto intro: finite_subset [of _ "insert frame {f. r f \<noteq> 0}"])

lemma frames_le_sum: "frames_ok r \<Longrightarrow> r frame \<le> frames_sum r"
  unfolding frames_sum_def frames_ok_def
  by (cases "r frame = 0") (auto intro: member_le_sum sum_nonneg)

lemma covers_reserve:
  assumes "covers s" and "0 < n"
  shows "covers (fst (try_reserve_frame frame n s))"
proof (cases "reserve (cx_accounts s) (cx_account s) n")
  case (Inl e)
  then show ?thesis
    using assms by (auto simp: try_reserve_frame_def try_reserve_def)
next
  case (Inr as)
  let ?as = "cx_accounts s" and ?i = "cx_account s"
  have ok: "mem_ok ?as" "?i < length ?as" using assms(1) by (simp_all add: covers_def)
  have as: "as = on_chain (charge n) (chain ?as ?i) ?as"
    and room: "\<And>j. j \<in> set (chain ?as ?i) \<Longrightarrow> ac_current (?as ! j) + n \<le> ac_limit (?as ! j)"
    using Inr assms(2) by (auto simp: reserve_def list_ex_iff not_less split: if_splits)
  have "mem_ok as"
    unfolding as using ok assms(2) room
    by (intro mem_ok_on_chain [where n = n]) (auto simp: charge_def mem_ok_def)
  moreover have "own as ?i = own ?as ?i + n"
    unfolding as using ok by (subst own_on_chain [where n = n]) (auto simp: charge_def mem_ok_def)
  moreover have "frames_ok (cx_reserved s)" and "0 \<le> cx_reserved s frame + n"
    using assms by (auto simp: covers_def frames_ok_def add_nonneg_pos less_imp_le)
  ultimately show ?thesis
    using Inr assms
    by (simp add: try_reserve_frame_def try_reserve_def covers_def frames_ok_update frames_sum_update)
      (simp add: as)
qed

lemma covers_release:
  assumes "covers s"
  shows "covers (fst (release_frame frame s)) \<and> snd (release_frame frame s) = Inr ()"
proof (cases "cx_reserved s frame = 0")
  case True
  then show ?thesis using assms by (simp add: release_frame_def)
next
  case False
  let ?as = "cx_accounts s" and ?i = "cx_account s" and ?n = "cx_reserved s frame"
  have ok: "mem_ok ?as" "?i < length ?as" using assms by (simp_all add: covers_def)
  have n: "0 < ?n" "?n \<le> own ?as ?i"
    using assms False frames_le_sum [of "cx_reserved s" frame] by (auto simp: covers_def frames_ok_def less_le)
  have "0 \<le> children_sum ?as ?i"
    unfolding children_sum_def
    using ok by (intro sum_nonneg) (auto simp: children_of_def mem_ok_def)
  then have cur: "?n \<le> ac_current (?as ! ?i)" using n(2) by (simp add: own_def)
  let ?as' = "on_chain (refund ?n) (chain ?as ?i) ?as"
  have low: "0 \<le> ac_current (?as ! j) - ?n" if "j \<in> set (chain ?as ?i)" for j
    using chain_current [OF ok that] cur by simp
  have "mem_ok ?as'"
    using ok n low by (intro mem_ok_on_chain [where n = "- ?n"]) (auto simp: refund_def mem_ok_def)
  moreover have "own ?as' ?i = own ?as ?i - ?n"
    using ok by (subst own_on_chain [where n = "- ?n"]) (auto simp: refund_def mem_ok_def)
  ultimately show ?thesis
    using assms n cur
    by (auto simp: release_frame_def release_def covers_def frames_ok_update frames_sum_update)
qed

lemma quiet_cong:
  assumes "quiet s" and "cx_cancelled s' = cx_cancelled s" and "cx_batch_size s' = cx_batch_size s"
    and "cx_write_error s' = cx_write_error s" and "covers s'"
  shows "quiet s'"
  using assms by (simp add: quiet_def)

lemma covers_cong [simp]:
  "covers (s\<lparr>cx_ticks := n\<rparr>) = covers s" "covers (s\<lparr>cx_metrics := m\<rparr>) = covers s"
  "covers (s\<lparr>cx_spill := sp\<rparr>) = covers s" "covers (s\<lparr>cx_temp := t\<rparr>) = covers s"
  "covers (s\<lparr>cx_channels := c\<rparr>) = covers s"
  by (simp_all add: covers_def)

interpretation quiet: execution_context quiet E
proof unfold_locales
  fix s frame and k :: int
  assume "quiet s" and "0 < k"
  then show "quiet (fst (try_reserve_frame frame k s))"
    using covers_reserve [of s k frame]
    by (auto intro!: quiet_cong [of s] simp: quiet_def try_reserve_frame_def split: sum.splits)
next
  fix s frame
  assume "quiet s"
  then show "quiet (fst (release_frame frame s))"
    using covers_release [of s frame]
    by (auto intro!: quiet_cong [of s] simp: quiet_def release_frame_def split: sum.splits)
qed (auto simp: quiet_def write_table_def covers_release)

text \<open>
  What a stream of batches guarantees: its batches satisfy \<open>B\<close>; in a quiet context it raises
  only exceptions of \<open>E\<close>, in any context besides them only those of the context; and if it
  returns, the rows it has delivered satisfy \<open>P\<close>.
\<close>

definition delivers :: "(batch \<Rightarrow> bool) \<Rightarrow> (row list \<Rightarrow> bool) \<Rightarrow> (exn \<Rightarrow> bool) \<Rightarrow> unit batches \<Rightarrow> bool" where
  "delivers B P E g \<longleftrightarrow> wp quiet B g (\<lambda>bs _. P (rows_of bs)) E
     \<and> wp (\<lambda>_. True) B g (\<lambda>bs _. P (rows_of bs)) (\<lambda>e. context_error e \<or> E e)"

lemma delivers_from_list [simp]: "delivers B P E (from_list bs) \<longleftrightarrow> list_all B bs \<and> P (rows_of bs)"
  by (auto simp: delivers_def)

lemma deliversI:
  assumes "\<And>inv err. execution_context inv err \<Longrightarrow> (\<And>e. E e \<Longrightarrow> err e) \<Longrightarrow>
      wp inv B g (\<lambda>bs _. P (rows_of bs)) err \<Longrightarrow> wp inv B' h (\<lambda>bs _. P' (rows_of bs)) err"
    and "delivers B P E g"
  shows "delivers B' P' E h"
  using assms(1) [OF quiet.execution_context_axioms, of E]
    assms(1) [OF any.execution_context_axioms, of E] assms(2)
  by (simp add: delivers_def)

end
