(* ===== verification/Sorting.thy ===== *)
theory Sorting
  imports Context "HOL-Library.Sorting_Algorithms"
begin

text \<open>
  Ordering rows (\<open>execution/operators.py\<close>): the comparison of \<open>ORDER BY\<close> items, the replaceable
  \<open>Sorter\<close> with its in-memory implementation, and the merge of sorted runs.  The specification
  is the stable sort of HOL-Library by a comparator on rows.
\<close>

section \<open>Comparing rows\<close>

definition compare_values :: "sql_value \<Rightarrow> sql_value \<Rightarrow> 'e sort_expression \<Rightarrow> int res" where
  "compare_values l r order =
     (if l = VNull \<and> r = VNull then Inr 0
      else if l = VNull then Inr (if se_nulls_first order then -1 else 1)
      else if r = VNull then Inr (if se_nulls_first order then 1 else -1)
      else bindR (py_lt r l) (\<lambda>greater. bindR (py_lt l r) (\<lambda>less.
        let result = of_bool greater - of_bool less in
        Inr (if se_ascending order then result else - result))))"

text \<open>The loop of \<open>compare\<close> over the order items.\<close>

fun row_compare :: "py_runtime \<Rightarrow> expr sort_expression list \<Rightarrow> row \<Rightarrow> row \<Rightarrow> int res" where
  "row_compare rt [] l r = Inr 0"
| "row_compare rt (item # items) l r =
     bindR (evaluate rt l (se_expression item)) (\<lambda>a. bindR (evaluate rt r (se_expression item)) (\<lambda>b.
       bindR (compare_values a b item) (\<lambda>c. if c \<noteq> 0 then Inr c else row_compare rt items l r)))"

definition compare_step ::
    "env \<Rightarrow> expr sort_expression list \<Rightarrow> row \<Rightarrow> row \<Rightarrow> (ctx, 'a, int) gen" where
  "compare_step ev orders l r = bindG check_cancelled (\<lambda>_. lift (row_compare (rt_of ev) orders l r))"

section \<open>The in-memory sorter\<close>

text \<open>
  \<open>sorted(rows, key=cmp_to_key(compare))\<close> is stable and asks only whether one row is smaller than
  another; insertion from the right is a sort of that kind.  The rows are objects whose current
  content \<open>view\<close> gives, since the window operator sorts rows that it later updates.
\<close>

primrec insert_row ::
    "env \<Rightarrow> expr sort_expression list \<Rightarrow> ('x \<Rightarrow> row) \<Rightarrow> 'x \<Rightarrow> 'x list \<Rightarrow> (ctx, 'a, 'x list) gen" where
  "insert_row ev orders view x [] = Ret [x]"
| "insert_row ev orders view x (y # ys) =
     bindG (compare_step ev orders (view y) (view x)) (\<lambda>c.
       if c < 0 then bindG (insert_row ev orders view x ys) (\<lambda>zs. Ret (y # zs))
       else Ret (x # y # ys))"

primrec in_memory_sort ::
    "env \<Rightarrow> expr sort_expression list \<Rightarrow> ('x \<Rightarrow> row) \<Rightarrow> 'x list \<Rightarrow> (ctx, 'a, 'x list) gen" where
  "in_memory_sort ev orders view [] = Ret []"
| "in_memory_sort ev orders view (x # xs) =
     bindG (in_memory_sort ev orders view xs) (insert_row ev orders view x)"

section \<open>Merging sorted runs\<close>

text \<open>
  \<open>heapq.merge\<close>: the least of the runs' heads, the earliest run among equals, is yielded and the
  next row of its run read.  \<open>least_run\<close> looks for the run; \<open>best\<close> is the best one so far.
\<close>

fun least_run ::
    "env \<Rightarrow> expr sort_expression list \<Rightarrow> (nat \<times> row) option \<Rightarrow> nat \<Rightarrow> row list list
     \<Rightarrow> (ctx, 'a, (nat \<times> row) option) gen" where
  "least_run ev orders best i [] = Ret best"
| "least_run ev orders best i ([] # runs) = least_run ev orders best (Suc i) runs"
| "least_run ev orders None i ((x # xs) # runs) = least_run ev orders (Some (i, x)) (Suc i) runs"
| "least_run ev orders (Some (j, y)) i ((x # xs) # runs) =
     bindG (compare_step ev orders x y) (\<lambda>c.
       least_run ev orders (if c < 0 then Some (i, x) else Some (j, y)) (Suc i) runs)"

text \<open>
  \<open>_iter_parquet_rows\<close> checks for cancellation whenever it reads a row, not at the end of its file.  The merge yields every row
  of every run, so the number of rows bounds the number of its rounds.
\<close>

definition read_run :: "row list \<Rightarrow> unit rows" where
  "read_run rest = (if rest = [] then Ret () else check_cancelled)"

primrec merge_runs :: "env \<Rightarrow> expr sort_expression list \<Rightarrow> nat \<Rightarrow> row list list \<Rightarrow> unit rows" where
  "merge_runs ev orders 0 runs = Ret ()"
| "merge_runs ev orders (Suc n) runs =
     bindG (least_run ev orders None 0 runs) (\<lambda>best. case best of
         None \<Rightarrow> Ret ()
       | Some (i, x) \<Rightarrow> bindG (yieldG x) (\<lambda>_. bindG (read_run (tl (runs ! i))) (\<lambda>_.
           merge_runs ev orders n (runs[i := tl (runs ! i)]))))"

definition merge_sorted :: "env \<Rightarrow> expr sort_expression list \<Rightarrow> row list list \<Rightarrow> unit rows" where
  "merge_sorted ev orders runs =
     bindG (for_list runs () (\<lambda>_. read_run)) (\<lambda>_.
       merge_runs ev orders (length (concat runs)) runs)"

section \<open>The order of rows\<close>

definition order_value :: "py_runtime \<Rightarrow> expr \<Rightarrow> row \<Rightarrow> sql_value" where
  "order_value rt e row = (case evaluate rt row e of Inr v \<Rightarrow> v | Inl _ \<Rightarrow> VNull)"

definition value_key :: "sql_value \<Rightarrow> okey" where
  "value_key v = (case vkey v of Some k \<Rightarrow> k | None \<Rightarrow> OKey 0 0 [] 0)"

text \<open>Nulls before or after every value, and the values ascending or descending.\<close>

definition item_cmp :: "py_runtime \<Rightarrow> expr sort_expression \<Rightarrow> row comparator" where
  "item_cmp rt item = key
     (\<lambda>row. let v = order_value rt (se_expression item) row in
        ((v = VNull) \<noteq> se_nulls_first item, value_key v))
     (prod_lex default (if se_ascending item then default else reversed default))"

fun row_cmp :: "py_runtime \<Rightarrow> expr sort_expression list \<Rightarrow> row comparator" where
  "row_cmp rt [] = flat"
| "row_cmp rt (item # items) = key (\<lambda>r. (r, r)) (prod_lex (item_cmp rt item) (row_cmp rt items))"

text \<open>
  Rows that can be ordered: each item evaluates on each row, none to \<open>nan\<close>, and its values are
  of one class.
\<close>

definition one_kind :: "sql_value set \<Rightarrow> bool" where
  "one_kind V \<longleftrightarrow> (\<forall>v \<in> V. \<not> is_nan v) \<and> (\<forall>v \<in> V. \<forall>w \<in> V. v \<noteq> VNull \<longrightarrow> w \<noteq> VNull \<longrightarrow> kind v = kind w)"

definition orderable :: "py_runtime \<Rightarrow> expr sort_expression list \<Rightarrow> row set \<Rightarrow> bool" where
  "orderable rt orders R \<longleftrightarrow> (\<forall>item \<in> set orders.
     (\<forall>r \<in> R. is_ok (evaluate rt r (se_expression item)))
     \<and> one_kind (order_value rt (se_expression item) ` R))"

fun comp_sign :: "comp \<Rightarrow> int" where
  "comp_sign Less = -1"
| "comp_sign Equiv = 0"
| "comp_sign Greater = 1"

lemma comp_sign_iff [simp]:
  "comp_sign c < 0 \<longleftrightarrow> c = Less" "comp_sign c = 0 \<longleftrightarrow> c = Equiv"
  by (cases c; simp)+

lemma one_kind_subset: "one_kind V \<Longrightarrow> W \<subseteq> V \<Longrightarrow> one_kind W"
  unfolding one_kind_def by blast

lemma orderable_subset: "orderable rt orders R \<Longrightarrow> S \<subseteq> R \<Longrightarrow> orderable rt orders S"
  unfolding orderable_def by (meson image_mono one_kind_subset subsetD)

lemma compare_flat [simp]: "compare flat x y = Equiv"
  by (simp add: flat.rep_eq)

lemma cmp_pair:
  "compare (prod_lex f g) (a, b) (c, d) =
     (case compare f a c of Less \<Rightarrow> Less | Equiv \<Rightarrow> compare g b d | Greater \<Rightarrow> Greater)"
  by (simp add: compare_prod_lex_apply split: comp.split)

lemma item_cmp:
  "compare (item_cmp rt item) l r =
     (let v = order_value rt (se_expression item) l; w = order_value rt (se_expression item) r in
      case compare default ((v = VNull) \<noteq> se_nulls_first item) ((w = VNull) \<noteq> se_nulls_first item) of
        Less \<Rightarrow> Less | Greater \<Rightarrow> Greater
      | Equiv \<Rightarrow> if se_ascending item then compare default (value_key v) (value_key w)
                 else compare default (value_key w) (value_key v))"
  by (simp add: item_cmp_def cmp_pair Let_def split: comp.split)

lemma compare_default: "compare default x y = (if x = y then Equiv else if x < y then Less else Greater)"
  by (cases "compare default x y") auto

lemma compare_values_item:
  assumes ok: "evaluate rt l (se_expression item) = Inr a" "evaluate rt r (se_expression item) = Inr b"
    and kinds: "one_kind {a, b}"
  shows "compare_values a b item = Inr (comp_sign (compare (item_cmp rt item) l r))"
proof -
  have v: "order_value rt (se_expression item) l = a" "order_value rt (se_expression item) r = b"
    using ok by (simp_all add: order_value_def)
  have not_nan: "\<not> is_nan a" "\<not> is_nan b"
    using kinds unfolding one_kind_def by blast+
  show ?thesis
  proof (cases "a = VNull \<or> b = VNull")
    case True
    then show ?thesis
      unfolding item_cmp v Let_def compare_default compare_values_def by (elim disjE) simp_all
  next
    case False
    then obtain k m where k: "vkey a = Some k" "vkey b = Some m"
      using not_nan vkey_None [of a] vkey_None [of b] by auto
    have "kind a = kind b" using False kinds unfolding one_kind_def by blast
    then have lt: "py_lt a b = Inr (k < m)" "py_lt b a = Inr (m < k)"
      using k py_lt_vkey by simp_all
    consider "k < m" | "k = m" | "m < k" by (rule linorder_cases)
    then show ?thesis
      using False lt k unfolding item_cmp v Let_def compare_default compare_values_def value_key_def
      by cases auto
  qed
qed

lemma row_compare_cmp:
  assumes "orderable rt orders R" and "l \<in> R" and "r \<in> R"
  shows "row_compare rt orders l r = Inr (comp_sign (compare (row_cmp rt orders) l r))"
  using assms(1)
proof (induction orders)
  case (Cons item items)
  have items: "orderable rt items R" using Cons.prems by (simp add: orderable_def)
  have "is_ok (evaluate rt l (se_expression item))" "is_ok (evaluate rt r (se_expression item))"
    using Cons.prems assms(2,3) by (simp_all add: orderable_def)
  then obtain a b where ab: "evaluate rt l (se_expression item) = Inr a"
    "evaluate rt r (se_expression item) = Inr b"
    unfolding is_ok_iff by blast
  have "one_kind (order_value rt (se_expression item) ` R)"
    using Cons.prems by (simp add: orderable_def)
  moreover have "a = order_value rt (se_expression item) l" "b = order_value rt (se_expression item) r"
    using ab by (simp_all add: order_value_def)
  ultimately have "one_kind {a, b}"
    using assms(2,3) by (auto intro: one_kind_subset)
  from compare_values_item [OF ab this] show ?case
    using ab Cons.IH [OF items] by (cases "compare (item_cmp rt item) l r") (simp_all add: cmp_pair)
qed simp

section \<open>The contract of a sorter\<close>

text \<open>
  The boundary that the order and window operators rely on: rows that can be ordered come back
  stably sorted.
\<close>

locale sorter = execution_context inv err
  for inv :: "ctx \<Rightarrow> bool" and err :: "exn \<Rightarrow> bool" +
  fixes ev :: env
    and sort_rows :: "expr sort_expression list \<Rightarrow> ('x \<Rightarrow> row) \<Rightarrow> 'x list \<Rightarrow> (ctx, 'a, 'x list) gen"
  assumes sort_rows_wp: "orderable (rt_of ev) orders (view ` set xs) \<Longrightarrow>
     Q [] (sort (key view (row_cmp (rt_of ev) orders)) xs) \<Longrightarrow> wp inv Y (sort_rows orders view xs) Q err"

context execution_context
begin

lemma wp_compare_step:
  assumes "orderable (rt_of ev) orders R" and "l \<in> R" and "r \<in> R"
    and "Q [] (comp_sign (compare (row_cmp (rt_of ev) orders) l r))"
  shows "wp inv Y (compare_step ev orders l r) Q err"
  using assms(4) row_compare_cmp [OF assms(1,2,3)]
  by (auto simp: compare_step_def wp_lift intro!: wp_steps)

lemma wp_insert_row:
  assumes "orderable (rt_of ev) orders R" and "view x \<in> R" and "view ` set ys \<subseteq> R"
    and "Q [] (insort (key view (row_cmp (rt_of ev) orders)) x ys)"
  shows "wp inv Y (insert_row ev orders view x ys) Q err"
  using assms(3,4)
proof (induction ys arbitrary: Q)
  case (Cons y ys)
  show ?case
    using Cons.prems
    by (auto intro!: wp_compare_step [OF assms(1) _ assms(2)] Cons.IH
        simp: compare.greater_iff_sym_less split: if_splits)
qed simp

lemma wp_in_memory_sort:
  assumes "orderable (rt_of ev) orders (view ` set xs)"
    and "Q [] (sort (key view (row_cmp (rt_of ev) orders)) xs)"
  shows "wp inv Y (in_memory_sort ev orders view xs) Q err"
proof -
  have "wp inv Y (in_memory_sort ev orders view zs) Q err"
    if "set zs \<subseteq> set xs" and "Q [] (sort (key view (row_cmp (rt_of ev) orders)) zs)" for zs Q
    using that
  proof (induction zs arbitrary: Q)
    case (Cons z zs)
    then show ?case
      by (auto intro!: Cons.IH wp_insert_row [OF assms(1)])
  qed simp
  from this [of xs] assms(2) show ?thesis by simp
qed

end

section \<open>Merging is sorting\<close>

text \<open>
  The run that is picked: its head is least, and strictly smaller than the heads of the earlier
  runs.
\<close>

definition picks :: "row comparator \<Rightarrow> row list list \<Rightarrow> nat \<Rightarrow> row \<Rightarrow> bool" where
  "picks cmp runs i x \<longleftrightarrow> i < length runs \<and> (\<exists>xs. runs ! i = x # xs)
     \<and> (\<forall>j < length runs. runs ! j \<noteq> [] \<longrightarrow> compare cmp x (hd (runs ! j)) \<noteq> Greater)
     \<and> (\<forall>j < i. runs ! j \<noteq> [] \<longrightarrow> compare cmp x (hd (runs ! j)) = Less)"

fun picked :: "row comparator \<Rightarrow> row list list \<Rightarrow> (nat \<times> row) option \<Rightarrow> bool" where
  "picked cmp runs None \<longleftrightarrow> (\<forall>run \<in> set runs. run = [])"
| "picked cmp runs (Some (i, x)) \<longleftrightarrow> picks cmp runs i x"

lemma picked_snoc_Nil: "picked cmp runs best \<Longrightarrow> picked cmp (runs @ [[]]) best"
  by (cases best) (auto simp: picks_def nth_append less_Suc_eq)

lemma picked_snoc_None:
  "picked cmp runs None \<Longrightarrow> picked cmp (runs @ [x # xs]) (Some (length runs, x))"
  by (auto simp: picks_def nth_append less_Suc_eq)

lemma picked_snoc_Some:
  assumes "picked cmp runs (Some (j, y))"
  shows "picked cmp (runs @ [x # xs])
    (if compare cmp x y = Less then Some (length runs, x) else Some (j, y))"
proof (cases "compare cmp x y = Less")
  case True
  have "compare cmp x (hd (runs ! k)) = Less" if "k < length runs" "runs ! k \<noteq> []" for k
    using True assms that compare.trans_less compare.trans_less_equiv
    by (cases "compare cmp y (hd (runs ! k))") (auto simp: picks_def)
  with True show ?thesis
    by (auto simp: picks_def nth_append less_Suc_eq)
next
  case False
  then have "compare cmp y x \<noteq> Greater"
    by (simp add: compare.greater_iff_sym_less)
  with False assms show ?thesis
    by (auto simp: picks_def nth_append less_Suc_eq)
qed

lemma in_concat_nth: "y \<in> set (concat xss) \<longleftrightarrow> (\<exists>j < length xss. y \<in> set (xss ! j))"
  unfolding set_concat by (metis UN_iff in_set_conv_nth)

text \<open>Taking the picked row first keeps the order among equal rows.\<close>

lemma sorted_hd_least:
  "sorted cmp xs \<Longrightarrow> y \<in> set xs \<Longrightarrow> compare cmp (hd xs) y \<noteq> Greater"
  by (cases xs) (auto dest: sorted_Cons_imp_not_less)

lemma picks_least:
  "picks cmp runs i x \<Longrightarrow> j < length runs \<Longrightarrow> runs ! j \<noteq> [] \<Longrightarrow> compare cmp x (hd (runs ! j)) \<noteq> Greater"
  "picks cmp runs i x \<Longrightarrow> j < i \<Longrightarrow> runs ! j \<noteq> [] \<Longrightarrow> compare cmp x (hd (runs ! j)) = Less"
  by (auto simp: picks_def)

lemma run_hd_least:
  assumes "\<forall>run \<in> set runs. sorted cmp run" and "j < length runs" and "y \<in> set (runs ! j)"
  shows "compare cmp (hd (runs ! j)) y \<noteq> Greater \<and> runs ! j \<noteq> []"
  using assms sorted_hd_least [of cmp "runs ! j" y] by auto

lemma pick_least:
  assumes "picks cmp runs i x" and "\<forall>run \<in> set runs. sorted cmp run" and "y \<in> set (concat runs)"
  shows "compare cmp x y \<noteq> Greater"
proof -
  obtain j where j: "j < length runs" "y \<in> set (runs ! j)"
    using assms(3) unfolding in_concat_nth by blast
  note hd = run_hd_least [OF assms(2) j]
  show ?thesis
    by (rule compare.trans_not_greater [OF picks_least(1) [OF assms(1) j(1)]]) (use hd in auto)
qed

lemma pick_stable:
  assumes "picks cmp runs i x" and "\<forall>run \<in> set runs. sorted cmp run"
  shows "filter (\<lambda>z. compare cmp y z = Equiv) (concat runs)
    = (if compare cmp y x = Equiv then [x] else [])
      @ filter (\<lambda>z. compare cmp y z = Equiv) (concat (runs[i := tl (runs ! i)]))"
proof -
  let ?eq = "\<lambda>z. compare cmp y z = Equiv"
  have i: "i < length runs" and run: "runs ! i = x # tl (runs ! i)"
    using assms(1) by (auto simp: picks_def)
  have split: "runs = take i runs @ (x # tl (runs ! i)) # drop (Suc i) runs"
    using i run by (metis id_take_nth_drop)
  have upd: "runs[i := tl (runs ! i)] = take i runs @ tl (runs ! i) # drop (Suc i) runs"
    using i by (simp add: upd_conv_take_nth_drop)
  have early: "filter ?eq (concat (take i runs)) = []" if "?eq x"
  proof (rule filter_False, rule ballI)
    fix z assume "z \<in> set (concat (take i runs))"
    then obtain j where j: "j < i" "z \<in> set (runs ! j)"
      using i unfolding in_concat_nth by auto
    then have "compare cmp (hd (runs ! j)) z \<noteq> Greater" "runs ! j \<noteq> []"
        using run_hd_least [OF assms(2) _ j(2)] i j(1) by simp_all
    moreover have "compare cmp x (hd (runs ! j)) = Less"
      using picks_least(2) [OF assms(1) j(1)] calculation(2) by blast
    ultimately have "compare cmp x z = Less"
      using compare.trans_less compare.trans_less_equiv
      by (cases "compare cmp (hd (runs ! j)) z") auto
    with that have "compare cmp y z = Less" by (rule compare.trans_equiv_less)
    then show "\<not> ?eq z" by simp
  qed
  show ?thesis
    by (subst split, subst upd) (simp add: early)
qed

lemma sort_pick:
  assumes "picks cmp runs i x" and "\<forall>run \<in> set runs. sorted cmp run"
  shows "sort cmp (concat runs) = x # sort cmp (concat (runs[i := tl (runs ! i)]))"
proof (rule sort_eqI)
  have i: "i < length runs" and run: "runs ! i = x # tl (runs ! i)"
    using assms(1) by (auto simp: picks_def)
  have split: "runs = take i runs @ (x # tl (runs ! i)) # drop (Suc i) runs"
    using i run by (metis id_take_nth_drop)
  have upd: "runs[i := tl (runs ! i)] = take i runs @ tl (runs ! i) # drop (Suc i) runs"
    using i by (simp add: upd_conv_take_nth_drop)
  show m: "mset (concat runs) = mset (x # sort cmp (concat (runs[i := tl (runs ! i)])))"
    by (subst split, subst upd) simp
  have "set (concat (runs[i := tl (runs ! i)])) \<subseteq> set (concat runs)"
    using arg_cong [OF m, of set_mset] by auto
  then show "sorted cmp (x # sort cmp (concat (runs[i := tl (runs ! i)])))"
    using pick_least [OF assms]
    by (intro sorted_ConsI) (auto dest!: arg_cong [of _ _ set])
  show "filter (\<lambda>z. compare cmp y z = Equiv) (concat runs)
      = filter (\<lambda>z. compare cmp y z = Equiv) (x # sort cmp (concat (runs[i := tl (runs ! i)])))" for y
    using pick_stable [OF assms, of y] by (simp add: stable_sort)
qed

context execution_context
begin

lemma wp_least_run:
  assumes "orderable (rt_of ev) orders (set (concat (pre @ runs)))"
    and "picked (row_cmp (rt_of ev) orders) pre best"
    and "\<And>best. picked (row_cmp (rt_of ev) orders) (pre @ runs) best \<Longrightarrow> Q [] best"
  shows "wp inv Y (least_run ev orders best (length pre) runs) Q err"
  using assms
proof (induction runs arbitrary: pre best)
  case (Cons run runs)
  let ?cmp = "row_cmp (rt_of ev) orders"
  have IH: "wp inv Y (least_run ev orders best (Suc (length pre)) runs) Q err"
    if "picked ?cmp (pre @ [run]) best" for best
    using Cons.IH [of "pre @ [run]" best] that Cons.prems(1,3) by simp
  show ?case
  proof (cases run)
    case Nil
    then show ?thesis using IH [of best] picked_snoc_Nil [OF Cons.prems(2)] by simp
  next
    case run: (Cons x xs)
    show ?thesis
    proof (cases best)
      case None
      then show ?thesis
        using IH picked_snoc_None Cons.prems(2) run by simp
    next
      case (Some jy)
      obtain j y where jy: "jy = (j, y)" by fastforce
      have "y \<in> set (concat pre)"
        using Cons.prems(2) Some jy unfolding in_concat_nth by (auto simp: picks_def)
      then have "wp inv Y (compare_step ev orders x y) (\<lambda>as c. as = [] \<and> c = comp_sign (compare ?cmp x y)) err"
        using run by (intro wp_compare_step [OF Cons.prems(1)]) simp_all
      then have "wp inv Y (compare_step ev orders x y) (\<lambda>as c. wp inv Y (least_run ev orders
          (if c < 0 then Some (length pre, x) else Some (j, y)) (Suc (length pre)) runs) (\<lambda>bs. Q (as @ bs)) err) err"
        using IH picked_snoc_Some [of ?cmp pre j y x xs] Cons.prems(2) Some jy run
        by (elim wp_mono) simp_all
      then show ?thesis using Some jy run by simp
    qed
  qed
qed simp

lemma wp_merge_runs:
  assumes "orderable (rt_of ev) orders (set (concat runs))"
    and "\<forall>run \<in> set runs. sorted (row_cmp (rt_of ev) orders) run"
    and "length (concat runs) \<le> n" and "\<forall>r \<in> set (concat runs). Y r"
    and "Q (sort (row_cmp (rt_of ev) orders) (concat runs)) ()"
  shows "wp inv Y (merge_runs ev orders n runs) Q err"
  using assms
proof (induction n arbitrary: runs Q)
  case 0
  then have none: "concat runs = []" by simp
  from "0.prems"(5) show ?case unfolding none by simp
next
  case (Suc n)
  let ?cmp = "row_cmp (rt_of ev) orders"
  let ?next = "\<lambda>best. case best of None \<Rightarrow> Ret ()
       | Some (i, x) \<Rightarrow> bindG (yieldG x) (\<lambda>_. bindG (read_run (tl (runs ! i))) (\<lambda>_.
           merge_runs ev orders n (runs[i := tl (runs ! i)])))"
  have next_ok: "wp inv Y (?next best) Q err" if "picked ?cmp runs best" for best
  proof (cases best)
    case None
    then have none: "concat runs = []" using that by simp
    from Suc.prems(5) have "Q [] ()" unfolding none by simp
    then show ?thesis using None by simp
  next
    case (Some ix)
    obtain i x where ix: "ix = (i, x)" by fastforce
    with Some that have p: "picks ?cmp runs i x" by simp
    then have i: "i < length runs" and run: "runs ! i = x # tl (runs ! i)"
      by (auto simp: picks_def)
    let ?runs = "runs[i := tl (runs ! i)]"
    have m: "mset (concat runs) = add_mset x (mset (concat ?runs))"
      using arg_cong [OF sort_pick [OF p Suc.prems(2)], of mset] by simp
    then have set: "set (concat runs) = insert x (set (concat ?runs))"
      by (metis set_mset_add_mset_insert set_mset_mset)
    have "sorted ?cmp (tl (runs ! i))"
      using run Suc.prems(2) i sorted_Cons_imp_sorted by (metis nth_mem)
    then have "\<forall>run \<in> set ?runs. sorted ?cmp run"
      using Suc.prems(2) set_update_subset_insert [of runs i] by blast
    moreover have "length (concat ?runs) \<le> n"
      using arg_cong [OF m, of size] Suc.prems(3) by simp
    moreover have "orderable (rt_of ev) orders (set (concat ?runs))"
      using Suc.prems(1) by (rule orderable_subset) (use set in blast)
    moreover have "\<forall>r \<in> set (concat ?runs). Y r"
      using Suc.prems(4) unfolding set by blast
    moreover have "Q (x # sort ?cmp (concat ?runs)) ()"
      using Suc.prems(5) sort_pick [OF p Suc.prems(2)] by simp
    ultimately have "wp inv Y (merge_runs ev orders n ?runs) (\<lambda>bs. Q (x # bs)) err"
      by (intro Suc.IH)
    moreover have "Y x" using Suc.prems(4) unfolding set by blast
    ultimately show ?thesis
      using Some ix by (cases "tl (runs ! i) = []") (simp_all add: read_run_def wp_check_cancelled)
  qed
  have "wp inv Y (least_run ev orders None (length ([] :: row list list)) runs)
      (\<lambda>as best. wp inv Y (?next best) (\<lambda>bs. Q (as @ bs)) err) err"
    by (rule wp_least_run) (use Suc.prems(1) next_ok in simp_all)
  then show ?case by simp
qed

lemma wp_merge_sorted:
  assumes "orderable (rt_of ev) orders (set (concat runs))"
    and "\<forall>run \<in> set runs. sorted (row_cmp (rt_of ev) orders) run"
    and "\<forall>r \<in> set (concat runs). Y r"
    and "Q (sort (row_cmp (rt_of ev) orders) (concat runs)) ()"
  shows "wp inv Y (merge_sorted ev orders runs) Q err"
proof -
  have "wp inv Y (for_list runs () (\<lambda>_. read_run)) (\<lambda>as _. as = []) err"
    by (rule wp_for_list [where J = "\<lambda>_ _ as. as = []"]) (auto simp: read_run_def intro: wp_steps)
  then show ?thesis
    unfolding merge_sorted_def wp_bind
    by (rule wp_mono) (use wp_merge_runs [OF assms(1,2) order_refl assms(3), of Q] assms(4) in simp_all)
qed

end

interpretation any_sorter: sorter "\<lambda>_. True" "\<lambda>e. context_error e \<or> E e" ev "in_memory_sort ev"
  by unfold_locales (rule any.wp_in_memory_sort)

interpretation quiet_sorter: sorter quiet E ev "in_memory_sort ev"
  by unfold_locales (rule quiet.wp_in_memory_sort)

end
