(* ===== verification/ExternalSort.thy ===== *)
theory ExternalSort
  imports Sorting
begin

text \<open>
  The external sort (\<open>_external_sorted_rows\<close> of \<open>execution/operators.py\<close>): rows are buffered
  while the memory account admits them, sorted and written to a run when it does not, and the
  runs merged lazily.  Whatever the account answers, the rows come out stably sorted.
\<close>

section \<open>The operation\<close>

type_synonym ('x, 'a) sorting =
  "expr sort_expression list \<Rightarrow> ('x \<Rightarrow> row) \<Rightarrow> 'x list \<Rightarrow> (ctx, 'a, 'x list) gen"

definition count_run :: "string \<Rightarrow> spill_metrics \<Rightarrow> spill_metrics" where
  "count_run sk sp =
     (if sk = ''external_sort'' then sp\<lparr>external_sort_runs := external_sort_runs sp + 1\<rparr>
      else sp\<lparr>sort_aggregate_runs := sort_aggregate_runs sp + 1\<rparr>)"

text \<open>The variables \<open>rows\<close> and \<open>runs\<close>; a run is the content of its file.\<close>

type_synonym sort_buffer = "row list \<times> row list list"

definition spill_run ::
    "env \<Rightarrow> (row, row) sorting \<Rightarrow> string \<Rightarrow> string \<Rightarrow> schema \<Rightarrow> expr sort_expression list \<Rightarrow> string
     \<Rightarrow> sort_buffer \<Rightarrow> (ctx, row, sort_buffer) gen" where
  "spill_run ev srt op frame s orders sk st = (case st of (rows, runs) \<Rightarrow>
     if rows = [] then Ret (rows, runs)
     else bindG (srt orders id rows) (\<lambda>ordered.
       bindG (spill_file ev op s ordered sk (count_run sk)) (\<lambda>content.
       bindG (release_step frame) (\<lambda>_. Ret ([], runs @ [content])))))"

definition sort_add_row ::
    "env \<Rightarrow> (row, row) sorting \<Rightarrow> string \<Rightarrow> string \<Rightarrow> schema \<Rightarrow> expr sort_expression list \<Rightarrow> string
     \<Rightarrow> sort_buffer \<Rightarrow> row \<Rightarrow> (ctx, row, sort_buffer) gen" where
  "sort_add_row ev srt op frame s orders sk st row =
     bindG check_cancelled (\<lambda>_.
     bindG (try_reserve_step frame (row_size ev row)) (\<lambda>ok.
       if ok then Ret (fst st @ [row], snd st)
       else bindG (spill_run ev srt op frame s orders sk st) (\<lambda>st1.
         bindG (try_reserve_step frame (row_size ev row)) (\<lambda>ok.
           if ok then Ret (fst st1 @ [row], snd st1)
           else spill_run ev srt op frame s orders sk (fst st1 @ [row], snd st1)))))"

definition sort_add_batch ::
    "env \<Rightarrow> (row, row) sorting \<Rightarrow> string \<Rightarrow> string \<Rightarrow> schema \<Rightarrow> expr sort_expression list \<Rightarrow> string
     \<Rightarrow> sort_buffer \<Rightarrow> batch \<Rightarrow> (ctx, row, sort_buffer) gen" where
  "sort_add_batch ev srt op frame s orders sk st b =
     bindG check_cancelled (\<lambda>_. bindG (count_input op (length (bt_rows b))) (\<lambda>_.
       for_list (bt_rows b) st (sort_add_row ev srt op frame s orders sk)))"

definition external_sorted_rows ::
    "env \<Rightarrow> (row, row) sorting \<Rightarrow> string \<Rightarrow> string \<Rightarrow> schema \<Rightarrow> expr sort_expression list \<Rightarrow> string
     \<Rightarrow> unit batches \<Rightarrow> unit rows" where
  "external_sorted_rows ev srt op frame s orders sk input =
     finallyG (finish_frame op frame)
       (bindG (for_each input ([], []) (sort_add_batch ev srt op frame s orders sk)) (\<lambda>st.
          if snd st = [] then bindG (srt orders id (fst st)) from_list
          else bindG (spill_run ev srt op frame s orders sk st) (\<lambda>st'.
            merge_sorted ev orders (snd st'))))"

section \<open>It is a stable sort\<close>

lemma key_id [simp]: "key id cmp = cmp"
  by (metis compare_inject compare_key_apply ext id_apply)

lemma sort_concat_sorts: "sort cmp (concat (map (sort cmp) xss)) = sort cmp (concat xss)"
proof (rule sym, rule sort_eqI)
  show "mset (concat xss) = mset (sort cmp (concat (map (sort cmp) xss)))"
    by (simp add: mset_concat comp_def)
  show "filter (\<lambda>z. compare cmp y z = Equiv) (concat xss)
      = filter (\<lambda>z. compare cmp y z = Equiv) (sort cmp (concat (map (sort cmp) xss)))" for y
    by (simp add: stable_sort filter_concat comp_def)
qed simp

locale row_sorter = sorter inv err ev srt
  for inv :: "ctx \<Rightarrow> bool" and err :: "exn \<Rightarrow> bool" and ev :: env
    and srt :: "expr sort_expression list \<Rightarrow> (row \<Rightarrow> row) \<Rightarrow> row list \<Rightarrow> (ctx, row, row list) gen"

text \<open>The buffer holds the rows seen so far: the last ones unsorted, the others in sorted runs.\<close>

definition buffers :: "row comparator \<Rightarrow> row list \<Rightarrow> sort_buffer \<Rightarrow> bool" where
  "buffers cmp seen st \<longleftrightarrow> (\<exists>css. snd st = map (sort cmp) css \<and> concat css @ fst st = seen)"

lemma buffers_Nil: "buffers cmp [] ([], [])"
  by (simp add: buffers_def)

lemma buffers_add: "buffers cmp seen st \<Longrightarrow> buffers cmp (seen @ [row]) (fst st @ [row], snd st)"
  by (auto simp: buffers_def)

lemma buffers_spill:
  assumes "buffers cmp seen (rows, runs)"
  shows "buffers cmp seen ([], runs @ [sort cmp rows])"
proof -
  from assms obtain css where "runs = map (sort cmp) css" "concat css @ rows = seen"
    by (auto simp: buffers_def)
  then show ?thesis
    unfolding buffers_def by (intro exI [of _ "css @ [rows]"]) simp
qed

context row_sorter
begin

lemma wp_spill_run:
  assumes "buffers (row_cmp (rt_of ev) orders) seen st"
    and "orderable (rt_of ev) orders (set seen)" and "\<forall>r \<in> set seen. conforms ev s r"
    and "\<And>st'. buffers (row_cmp (rt_of ev) orders) seen st' \<Longrightarrow> fst st' = [] \<Longrightarrow> Q [] st'"
  shows "wp inv Y (spill_run ev srt op frame s orders sk st) Q err"
proof -
  obtain rows runs where st: "st = (rows, runs)" by fastforce
  with assms(1) have rows: "set rows \<subseteq> set seen" by (auto simp: buffers_def)
  have "orderable (rt_of ev) orders (id ` set rows)"
    using assms(2) by (rule orderable_subset) (use rows in auto)
  then show ?thesis
    using assms st rows buffers_spill [of "row_cmp (rt_of ev) orders" seen rows runs]
    by (auto simp: spill_run_def intro!: sort_rows_wp wp_spill_file wp_release_step)
qed

lemma wp_sort_add_row:
  assumes "buffers (row_cmp (rt_of ev) orders) seen st"
    and "orderable (rt_of ev) orders (set (seen @ [row]))"
    and "\<forall>r \<in> set (seen @ [row]). conforms ev s r"
    and "\<And>st'. buffers (row_cmp (rt_of ev) orders) (seen @ [row]) st' \<Longrightarrow> Q [] st'"
  shows "wp inv Y (sort_add_row ev srt op frame s orders sk st row) Q err"
proof -
  let ?spill = "spill_run ev srt op frame s orders sk"
  let ?retry = "\<lambda>st1. bindG (try_reserve_step frame (row_size ev row)) (\<lambda>ok.
    if ok then Ret (fst st1 @ [row], snd st1) else ?spill (fst st1 @ [row], snd st1))"
  have seen: "orderable (rt_of ev) orders (set seen)" "\<forall>r \<in> set seen. conforms ev s r"
    using orderable_subset [OF assms(2), of "set seen"] assms(3) by auto
  have retry: "wp inv Y (?retry st1) Q err" if "buffers (row_cmp (rt_of ev) orders) seen st1" for st1
    using assms(4) buffers_add [OF that, of row]
    by (auto intro!: wp_try_reserve intro: wp_spill_run [OF _ assms(2,3)])
  have "wp inv Y (bindG (?spill st) ?retry) Q err"
    unfolding wp_bind [of _ _ "?spill st"]
    by (rule wp_spill_run [OF assms(1) seen]) (unfold append_Nil, rule retry)
  moreover have "Q [] (fst st @ [row], snd st)"
    using assms(4) buffers_add [OF assms(1)] by blast
  ultimately show ?thesis
    unfolding sort_add_row_def wp_bind [of _ _ check_cancelled] wp_bind [of _ _ "try_reserve_step _ _"]
    by (intro wp_check_cancelled wp_try_reserve) simp_all
qed

lemma wp_sort_add_batch:
  assumes "buffers (row_cmp (rt_of ev) orders) seen st"
    and "orderable (rt_of ev) orders (set (seen @ bt_rows b))"
    and "\<forall>r \<in> set (seen @ bt_rows b). conforms ev s r"
    and "\<And>st'. buffers (row_cmp (rt_of ev) orders) (seen @ bt_rows b) st' \<Longrightarrow> Q [] st'"
  shows "wp inv Y (sort_add_batch ev srt op frame s orders sk st b) Q err"
proof -
  have "wp inv Y (for_list (bt_rows b) st (sort_add_row ev srt op frame s orders sk)) Q err"
  proof (rule wp_for_list_prefix
      [where J = "\<lambda>pre st as. as = [] \<and> buffers (row_cmp (rt_of ev) orders) (seen @ pre) st"])
    fix pre row st' and as :: "row list"
    assume sub: "set (pre @ [row]) \<subseteq> set (bt_rows b)"
      and J: "as = [] \<and> buffers (row_cmp (rt_of ev) orders) (seen @ pre) st'"
    have "orderable (rt_of ev) orders (set ((seen @ pre) @ [row]))"
      using assms(2) by (rule orderable_subset) (use sub in auto)
    moreover have "\<forall>r \<in> set ((seen @ pre) @ [row]). conforms ev s r"
      using assms(3) sub by auto
    ultimately show "wp inv Y (sort_add_row ev srt op frame s orders sk st' row)
        (\<lambda>os v'. as @ os = [] \<and> buffers (row_cmp (rt_of ev) orders) (seen @ pre @ [row]) v') err"
      using J by (intro wp_sort_add_row) auto
  qed (use assms in auto)
  then show ?thesis
    by (simp add: sort_add_batch_def wp_check_cancelled wp_count_input)
qed

text \<open>The input delivers rows of \<open>R\<close>, which can be ordered, and satisfies \<open>P\<close>.\<close>

lemma wp_external_sorted_rows:
  assumes input: "wp inv (\<lambda>b. batch_ok ev s b \<and> set (bt_rows b) \<subseteq> R) input (\<lambda>bs _. P (rows_of bs)) err"
    and ord: "orderable (rt_of ev) orders R"
    and post: "\<And>rows. P rows \<Longrightarrow> Q (sort (row_cmp (rt_of ev) orders) rows) ()"
    and Y: "\<And>r. r \<in> R \<Longrightarrow> conforms ev s r \<Longrightarrow> Y r"
  shows "wp inv Y (external_sorted_rows ev srt op frame s orders sk input) Q err"
proof -
  let ?cmp = "row_cmp (rt_of ev) orders"
  let ?ok = "\<lambda>rows. set rows \<subseteq> R \<and> (\<forall>r \<in> set rows. conforms ev s r)"
  let ?finish = "\<lambda>st. if snd st = [] then bindG (srt orders id (fst st)) from_list
    else bindG (spill_run ev srt op frame s orders sk st) (\<lambda>st'. merge_sorted ev orders (snd st'))"
  have finish: "wp inv Y (?finish st) Q err" if buf: "buffers ?cmp rows st" and ok: "?ok rows" and "P rows" for rows st
  proof -
    have o: "orderable (rt_of ev) orders (set rows)" using ord ok by (auto intro: orderable_subset)
    have all: "list_all Y rows" using Y ok by (auto simp: list_all_iff)
    show ?thesis
    proof (cases "snd st = []")
      case True
      then have "fst st = rows" using buf by (auto simp: buffers_def)
      with True o all show ?thesis
        using post [OF \<open>P rows\<close>] by (auto intro!: sort_rows_wp simp: list_all_iff)
    next
      case False
      have merged: "wp inv Y (merge_sorted ev orders (snd st')) Q err"
        if "buffers ?cmp rows st'" "fst st' = []" for st'
      proof -
        from that obtain css where css: "snd st' = map (sort ?cmp) css" "concat css = rows"
          by (auto simp: buffers_def)
        then have rows: "sort ?cmp (concat (snd st')) = sort ?cmp rows"
          by (simp add: sort_concat_sorts)
        have set: "set (concat (snd st')) = set rows" using css by auto
        show ?thesis
        proof (rule wp_merge_sorted)
          show "orderable (rt_of ev) orders (set (concat (snd st')))" using o set by simp
          show "\<forall>r \<in> set (concat (snd st')). Y r" using all set unfolding list_all_iff by blast
          show "\<forall>run \<in> set (snd st'). sorted ?cmp run" using css by auto
          show "Q (sort ?cmp (concat (snd st'))) ()" using rows post [OF \<open>P rows\<close>] by simp
        qed
      qed
      then show ?thesis
        using False ok by (auto intro!: wp_spill_run [OF buf o])
    qed
  qed
  have loop: "wp inv Y (for_each input ([], []) (sort_add_batch ev srt op frame s orders sk))
      (\<lambda>as st. as = [] \<and> (\<exists>rows. buffers ?cmp rows st \<and> ?ok rows \<and> P rows)) err"
  proof (rule wp_for_each [OF input,
        where J = "\<lambda>bs st as. as = [] \<and> buffers ?cmp (rows_of bs) st \<and> ?ok (rows_of bs)"])
    fix bs st b and as :: "row list"
    assume J: "as = [] \<and> buffers ?cmp (rows_of bs) st \<and> ?ok (rows_of bs)"
      and b: "batch_ok ev s b \<and> set (bt_rows b) \<subseteq> R"
    then have ok: "?ok (rows_of bs @ bt_rows b)" by (auto simp: batch_ok_def list_all_iff)
    then have "orderable (rt_of ev) orders (set (rows_of bs @ bt_rows b))"
      using ord by (blast intro: orderable_subset)
    then show "wp inv Y (sort_add_batch ev srt op frame s orders sk st b)
        (\<lambda>os v'. as @ os = [] \<and> buffers ?cmp (rows_of (bs @ [b])) v' \<and> ?ok (rows_of (bs @ [b]))) err"
      using J ok by (intro wp_sort_add_batch) auto
  qed (auto simp: buffers_Nil)
  have "wp inv Y (bindG (for_each input ([], []) (sort_add_batch ev srt op frame s orders sk)) ?finish) Q err"
    by (rule wp_bindI [OF loop]) (use finish in blast)
  then show ?thesis
    unfolding external_sorted_rows_def by (rule wp_finish_frame)
qed

end

interpretation any_row_sorter: row_sorter "\<lambda>_. True" "\<lambda>e. context_error e \<or> E e" ev "in_memory_sort ev" ..

interpretation quiet_row_sorter: row_sorter quiet E ev "in_memory_sort ev" ..

text \<open>The in-memory sorter meets the contract in every context.\<close>

lemma in_memory_sorter:
  fixes inv :: "ctx \<Rightarrow> bool"
  assumes "execution_context inv err"
  shows "row_sorter inv err ev (in_memory_sort ev)"
  by (intro row_sorter.intro sorter.intro sorter_axioms.intro assms
      execution_context.wp_in_memory_sort [OF assms])

end
