(* ===== verification/Operators.thy ===== *)
theory Operators
  imports ExternalSort
begin

text \<open>
  The streaming operators of \<open>execution/operators.py\<close>: in-memory source, scan with runtime
  filters, projection, filter, limit and order.  Each is a generator over its input; the
  lemmas give its output as a function of the rows the input delivers.
\<close>

section \<open>Leaves\<close>

definition source_op :: "string \<Rightarrow> batch list \<Rightarrow> unit batches" where
  "source_op op bs = for_list bs () (\<lambda>_ b. bindG check_cancelled (\<lambda>_. emit op b))"

text \<open>A runtime filter is given, or is what its channel holds when a batch is read.\<close>

datatype filter_source = Channel string | Given runtime_filter

fun resolved_filter :: "ctx \<Rightarrow> filter_source \<Rightarrow> runtime_filter option" where
  "resolved_filter s (Channel c) = cx_channels s c"
| "resolved_filter s (Given f) = Some f"

type_synonym bindings = "(expr list \<times> filter_source) list"

fun resolved_filters :: "ctx \<Rightarrow> bindings \<Rightarrow> (expr list \<times> runtime_filter) list" where
  "resolved_filters s [] = []"
| "resolved_filters s ((es, src) # bs) = (case resolved_filter s src of
       None \<Rightarrow> resolved_filters s bs
     | Some f \<Rightarrow> (es, f) # resolved_filters s bs)"

definition apply_runtime_filters ::
    "env \<Rightarrow> (expr list \<times> runtime_filter) list \<Rightarrow> batch \<Rightarrow> (batch \<times> nat) res" where
  "apply_runtime_filters ev resolved b =
     (if resolved = [] then Inr (b, 0)
      else bindR (filter_rows (row_survives ev resolved) (bt_rows b)) (\<lambda>rows.
           bindR (make_batch ev (bt_schema b) rows) (\<lambda>b'. Inr (b', length resolved))))"

text \<open>\<open>batch.rename_columns([f"{alias}.{name}" ...])\<close>.\<close>

definition rename_field :: "string \<Rightarrow> schema_field \<Rightarrow> schema_field" where
  "rename_field alias f = SchemaField (alias @ ''.'' @ sf_name f) (sf_type f) (sf_nullable f)
     (sf_metadata f) (sf_children f)"

definition rename_row :: "string \<Rightarrow> row \<Rightarrow> row" where
  "rename_row alias r = (\<lambda>name. let n = length alias + 1 in
     if take n name = alias @ ''.'' then r (drop n name) else None)"

definition rename_columns :: "string \<Rightarrow> batch \<Rightarrow> batch" where
  "rename_columns alias b =
     \<lparr>bt_schema = (bt_schema b)\<lparr>sc_fields := map (rename_field alias) (sc_fields (bt_schema b))\<rparr>,
      bt_rows = map (rename_row alias) (bt_rows b)\<rparr>"

text \<open>\<open>ScanOperator.execute\<close> over the batches that the data source yields.\<close>

definition scan_batch :: "env \<Rightarrow> string \<Rightarrow> string \<Rightarrow> bindings \<Rightarrow> batch \<Rightarrow> unit batches" where
  "scan_batch ev op alias bindings b =
     bindG check_cancelled (\<lambda>_.
     let n = int (length (bt_rows b));
         b1 = (if alias \<noteq> [] then rename_columns alias b else b) in
     bindG (get (\<lambda>s. resolved_filters s bindings)) (\<lambda>resolved.
     bindG (lift (apply_runtime_filters ev resolved b1)) (\<lambda>(b2, applied).
     bindG (bump op (\<lambda>m. m\<lparr>om_input_batches := om_input_batches m + 1,
         om_input_rows := om_input_rows m + n,
         om_filters_applied := om_filters_applied m + int applied,
         om_rows_filtered := om_rows_filtered m + (n - int (length (bt_rows b2)))\<rparr>)) (\<lambda>_.
       if bt_rows b2 = [] then Ret () else emit op b2))))"

definition scan_op :: "env \<Rightarrow> string \<Rightarrow> string \<Rightarrow> bindings \<Rightarrow> unit batches \<Rightarrow> unit batches" where
  "scan_op ev op alias bindings source =
     for_each source () (\<lambda>_. scan_batch ev op alias bindings)"

section \<open>Projection, filter, limit, order\<close>

text \<open>The dict comprehension over the named expressions: a later name wins.\<close>

definition project_row :: "py_runtime \<Rightarrow> named_expression list \<Rightarrow> row \<Rightarrow> row res" where
  "project_row rt items row =
     bindR (mapR (\<lambda>item. bindR (evaluate rt row (ne_expression item)) (\<lambda>v. Inr (ne_name item, v))) items)
       (\<lambda>kvs. Inr (map_of (rev kvs)))"

definition project_op ::
    "env \<Rightarrow> string \<Rightarrow> named_expression list \<Rightarrow> schema \<Rightarrow> unit batches \<Rightarrow> unit batches" where
  "project_op ev op items s input =
     for_each input () (\<lambda>_ b. bindG check_cancelled (\<lambda>_. bindG (count_input op (length (bt_rows b))) (\<lambda>_.
       bindG (lift (mapR (project_row (rt_of ev) items) (bt_rows b))) (emit_rows ev op s))))"

definition keeps :: "py_runtime \<Rightarrow> expr \<Rightarrow> row \<Rightarrow> bool res" where
  "keeps rt predicate row = bindR (evaluate rt row predicate) (\<lambda>v. Inr (v = VBool True))"

definition filter_op :: "env \<Rightarrow> string \<Rightarrow> expr \<Rightarrow> unit batches \<Rightarrow> unit batches" where
  "filter_op ev op predicate input =
     for_each input () (\<lambda>_ b. bindG check_cancelled (\<lambda>_. bindG (count_input op (length (bt_rows b))) (\<lambda>_.
       bindG (lift (filter_rows (keeps (rt_of ev) predicate) (bt_rows b)))
         (emit_rows ev op (bt_schema b)))))"

text \<open>\<open>LimitOperator\<close>, constructor included: the input is not read any further than needed.\<close>

definition limit_batch :: "string \<Rightarrow> nat \<Rightarrow> batch \<Rightarrow> (ctx, batch, nat + unit) gen" where
  "limit_batch op remaining b =
     bindG check_cancelled (\<lambda>_. bindG (count_input op (length (bt_rows b))) (\<lambda>_.
       let out = b\<lparr>bt_rows := take remaining (bt_rows b)\<rparr>; left = remaining - length (bt_rows out) in
       bindG (if bt_rows out \<noteq> [] then emit op out else Ret ()) (\<lambda>_.
         Ret (if left = 0 then Inr () else Inl left))))"

definition limit_op :: "string \<Rightarrow> nat \<Rightarrow> unit batches \<Rightarrow> unit batches" where
  "limit_op op n input =
     (if n = 0 then Ret ()
      else bindG (for_loop input n (\<lambda>remaining b rest. limit_batch op remaining b)) (\<lambda>_. Ret ()))"

definition make_limit_op :: "string \<Rightarrow> int \<Rightarrow> unit batches \<Rightarrow> unit batches res" where
  "make_limit_op op n input = (if n < 0 then Inl PyValueError else Inr (limit_op op (nat n) input))"

definition order_row :: "env \<Rightarrow> string \<Rightarrow> schema \<Rightarrow> row list \<Rightarrow> row \<Rightarrow> (ctx, batch, row list) gen" where
  "order_row ev op s buffer row = bindG (get cx_batch_size) (\<lambda>n.
     if length (buffer @ [row]) < n then Ret (buffer @ [row])
     else bindG (lift (make_batch ev s (buffer @ [row]))) (\<lambda>b.
       bindG (emit op b) (\<lambda>_. Ret [])))"

definition order_op ::
    "env \<Rightarrow> (row, row) sorting \<Rightarrow> string \<Rightarrow> string \<Rightarrow> expr sort_expression list \<Rightarrow> schema
     \<Rightarrow> unit batches \<Rightarrow> unit batches" where
  "order_op ev srt op frame orders s input =
     bindG (for_each (external_sorted_rows ev srt op frame s orders ''external_sort'' input) []
       (order_row ev op s)) (emit_rows ev op s)"

section \<open>What the operators deliver\<close>

lemma filter_rows_spec:
  "filter_rows p rows = Inr out \<Longrightarrow> out = filter (\<lambda>r. p r = Inr True) rows"
  by (induction rows arbitrary: out) (auto simp: bindR_eq_Inr)

lemma filter_rows_error:
  "filter_rows p rows = Inl e \<Longrightarrow> \<exists>r \<in> set rows. p r = Inl e"
  by (induction rows) (auto simp: bindR_eq_Inl)

lemma mapR_error: "mapR f xs = Inl e \<Longrightarrow> \<exists>x \<in> set xs. f x = Inl e"
  by (induction xs) (auto simp: bindR_eq_Inl)

lemma conforming_conversion:
  "conforms ev s r \<Longrightarrow> ev_conform ev s r \<noteq> Inl e"
  by (simp add: conforms_def)

context execution_context
begin

text \<open>The rows of one batch go through \<open>f\<close>, and what comes out is emitted.\<close>

lemma wp_map_batches:
  assumes input: "wp inv B input (\<lambda>bs _. P (rows_of bs)) err"
    and body: "\<And>b Q. B b \<Longrightarrow> (\<And>os. R (bt_rows b) (rows_of os) \<Longrightarrow> Q os ()) \<Longrightarrow> wp inv Y (body b) Q err"
    and nil: "R [] []" and app: "\<And>xs ys us vs. R xs us \<Longrightarrow> R ys vs \<Longrightarrow> R (xs @ ys) (us @ vs)"
  shows "wp inv Y (for_each input () (\<lambda>_. body)) (\<lambda>bs _. \<exists>rows. P rows \<and> R rows (rows_of bs)) err"
proof (rule wp_for_each [OF input, where J = "\<lambda>bs _ as. R (rows_of bs) (rows_of as)"])
  fix bs as b and v :: unit
  assume J: "R (rows_of bs) (rows_of as)" and "B b"
  then show "wp inv Y (body b) (\<lambda>os v'. R (rows_of (bs @ [b])) (rows_of (as @ os))) err"
    using app [OF J] by (intro body) auto
qed (auto intro: nil)

lemma wp_filter_op:
  assumes "wp inv (batch_ok ev s) input (\<lambda>bs _. P (rows_of bs)) err"
    and "conversion_ok ev s"
    and "\<And>r e. conforms ev s r \<Longrightarrow> evaluate (rt_of ev) r predicate = Inl e \<Longrightarrow> err e"
  shows "wp inv (batch_ok ev s) (filter_op ev op predicate input)
    (\<lambda>bs _. \<exists>rows. P rows \<and> rows_of bs = filter (\<lambda>r. evaluate (rt_of ev) r predicate = Inr (VBool True)) rows) err"
proof -
  let ?keep = "\<lambda>r. evaluate (rt_of ev) r predicate = Inr (VBool True)"
  have keep: "keeps (rt_of ev) predicate r = Inr True \<longleftrightarrow> ?keep r" for r
    by (auto simp: keeps_def bindR_eq_Inr)
  show ?thesis
    unfolding filter_op_def
  proof (rule wp_map_batches [OF assms(1), where R = "\<lambda>rows out. out = filter ?keep rows"])
    fix b and Q :: "batch list \<Rightarrow> unit \<Rightarrow> bool"
    assume b: "batch_ok ev s b"
      and Q: "\<And>os. rows_of os = filter ?keep (bt_rows b) \<Longrightarrow> Q os ()"
    have rows: "list_all (conforms ev s) (bt_rows b)" and s: "bt_schema b = s"
      using b by (simp_all add: batch_ok_def)
    have "wp inv (batch_ok ev s) (bindG (lift (filter_rows (keeps (rt_of ev) predicate) (bt_rows b)))
         (emit_rows ev op s)) Q err"
    proof (cases "filter_rows (keeps (rt_of ev) predicate) (bt_rows b)")
      case (Inl e)
      then show ?thesis
        using filter_rows_error [OF Inl] rows assms(3)
        by (auto simp: lift_def keeps_def bindR_eq_Inl list_all_iff)
    next
      case (Inr out)
      then have out: "out = filter ?keep (bt_rows b)"
        using filter_rows_spec [OF Inr] keep by simp
      have all: "list_all (conforms ev s) out" using rows unfolding out by (simp add: list_all_iff)
      have "wp inv (batch_ok ev s) (emit_rows ev op s out) Q err"
        by (rule wp_emit_rows [OF _ assms(2)])
          (use all out Q conformed_conforming [OF all] in \<open>auto simp: list_all_iff dest: conforming_conversion\<close>)
      then show ?thesis using Inr by (simp add: lift_def)
    qed
    then show "wp inv (batch_ok ev s) (bindG check_cancelled (\<lambda>_.
        bindG (count_input op (length (bt_rows b))) (\<lambda>_.
        bindG (lift (filter_rows (keeps (rt_of ev) predicate) (bt_rows b)))
         (emit_rows ev op (bt_schema b))))) Q err"
      using s by (simp add: wp_check_cancelled wp_count_input)
  qed auto
qed

lemma wp_project_op:
  assumes "wp inv (batch_ok ev s) input (\<lambda>bs _. P (rows_of bs)) err"
    and "conversion_ok ev out"
    and "\<And>r e. conforms ev s r \<Longrightarrow> project_row (rt_of ev) items r = Inl e \<Longrightarrow> err e"
    and "\<And>r p e. conforms ev s r \<Longrightarrow> project_row (rt_of ev) items r = Inr p \<Longrightarrow> ev_conform ev out p = Inl e \<Longrightarrow> err e"
  shows "wp inv (batch_ok ev out) (project_op ev op items out input)
    (\<lambda>bs _. \<exists>rows. P rows \<and> (\<exists>ps. mapR (project_row (rt_of ev) items) rows = Inr ps \<and> conformed ev out ps (rows_of bs))) err"
  unfolding project_op_def
proof (rule wp_map_batches [OF assms(1), where R = "\<lambda>rows os. \<exists>ps. mapR (project_row (rt_of ev) items) rows = Inr ps
      \<and> conformed ev out ps os"])
  fix b and Q :: "batch list \<Rightarrow> unit \<Rightarrow> bool"
  assume b: "batch_ok ev s b"
    and Q: "\<And>os. \<exists>ps. mapR (project_row (rt_of ev) items) (bt_rows b) = Inr ps \<and> conformed ev out ps (rows_of os) \<Longrightarrow> Q os ()"
  have rows: "\<forall>r \<in> set (bt_rows b). conforms ev s r" using b by (simp add: batch_ok_def list_all_iff)
  have "wp inv (batch_ok ev out) (bindG (lift (mapR (project_row (rt_of ev) items) (bt_rows b)))
       (emit_rows ev op out)) Q err"
  proof (cases "mapR (project_row (rt_of ev) items) (bt_rows b)")
    case (Inl e)
    then show ?thesis
      using mapR_error [OF Inl] rows assms(3) by (auto simp: lift_def)
  next
    case (Inr ps)
    have "wp inv (batch_ok ev out) (emit_rows ev op out ps) Q err"
    proof (rule wp_emit_rows [OF _ assms(2)])
      fix p e assume "p \<in> set ps" and "ev_conform ev out p = Inl e"
      with Inr rows assms(4) show "err e"
        by (force simp: mapR_Inr_iff list_all2_conv_all_nth in_set_conv_nth)
    qed (use Inr Q in auto)
    then show ?thesis using Inr by (simp add: lift_def)
  qed
  then show "wp inv (batch_ok ev out) (bindG check_cancelled (\<lambda>_.
      bindG (count_input op (length (bt_rows b))) (\<lambda>_.
      bindG (lift (mapR (project_row (rt_of ev) items) (bt_rows b))) (emit_rows ev op out)))) Q err"
    by (simp add: wp_check_cancelled wp_count_input)
qed (auto simp: mapR_append conformed_append)

lemma wp_source_op:
  assumes "list_all Y bs" and "Q bs ()"
  shows "wp inv Y (source_op op bs) Q err"
  unfolding source_op_def
  by (rule wp_for_list_prefix [where J = "\<lambda>pre _ as. as = pre"])
    (use assms in \<open>auto intro!: wp_check_cancelled wp_emit simp: list_all_iff\<close>)

lemma wp_scan_op:
  assumes "wp inv (batch_ok ev s) source (\<lambda>bs _. P (rows_of bs)) err"
    and resolved: "\<And>st. inv st \<Longrightarrow> resolved_filters st bindings = F"
    and t: "t = (if alias \<noteq> [] then s\<lparr>sc_fields := map (rename_field alias) (sc_fields s)\<rparr> else s)"
    and ren: "\<And>r. conforms ev s r \<Longrightarrow> conforms ev t (if alias \<noteq> [] then rename_row alias r else r)"
    and fails: "\<And>r e. conforms ev t r \<Longrightarrow> row_survives ev F r = Inl e \<Longrightarrow> err e"
  shows "wp inv (batch_ok ev t) (scan_op ev op alias bindings source)
    (\<lambda>bs _. \<exists>rows. P rows \<and> rows_of bs = filter (\<lambda>r. row_survives ev F r = Inr True)
       (map (if alias \<noteq> [] then rename_row alias else id) rows)) err"
  unfolding scan_op_def
proof (rule wp_map_batches [OF assms(1), where R = "\<lambda>rows out. out = filter (\<lambda>r. row_survives ev F r = Inr True)
       (map (if alias \<noteq> [] then rename_row alias else id) rows)"])
  fix b and Q :: "batch list \<Rightarrow> unit \<Rightarrow> bool"
  assume b: "batch_ok ev s b" and Q: "\<And>os. rows_of os = filter (\<lambda>r. row_survives ev F r = Inr True)
       (map (if alias \<noteq> [] then rename_row alias else id) (bt_rows b)) \<Longrightarrow> Q os ()"
  let ?b1 = "if alias \<noteq> [] then rename_columns alias b else b"
  have b1: "batch_ok ev t ?b1" and rows: "bt_rows ?b1 = map (if alias \<noteq> [] then rename_row alias else id) (bt_rows b)"
    using b t ren by (auto simp: batch_ok_def rename_columns_def list_all_iff)
  have "wp inv (batch_ok ev t) (bindG (lift (apply_runtime_filters ev F ?b1)) (\<lambda>(b2, applied).
      bindG (bump op (f b2 applied)) (\<lambda>_. if bt_rows b2 = [] then Ret () else emit op b2))) Q err" for f
  proof (cases "apply_runtime_filters ev F ?b1")
    case (Inl e)
    have "make_batch ev (bt_schema ?b1) out \<noteq> Inl e" if "filter_rows (row_survives ev F) (bt_rows ?b1) = Inr out" for out
      using make_batch_conforming [of out ev t] b1 filter_rows_spec [OF that] by (auto simp: batch_ok_def list_all_iff)
    then have "filter_rows (row_survives ev F) (bt_rows ?b1) = Inl e"
      using Inl by (auto simp: apply_runtime_filters_def bindR_eq_Inl split: if_splits)
    from filter_rows_error [OF this] fails b1 Inl show ?thesis
      by (auto simp: lift_def batch_ok_def list_all_iff)
  next
    case (Inr out)
    obtain b2 applied where out: "out = (b2, applied)" by fastforce
    have "b2 = ?b1\<lparr>bt_rows := filter (\<lambda>r. row_survives ev F r = Inr True) (bt_rows ?b1)\<rparr>"
    proof (cases "F = []")
      case True
      then show ?thesis using Inr out by (simp add: apply_runtime_filters_def)
    next
      case False
      then obtain rs where rs: "filter_rows (row_survives ev F) (bt_rows ?b1) = Inr rs"
        and mk: "make_batch ev (bt_schema ?b1) rs = Inr b2"
        using Inr out by (auto simp: apply_runtime_filters_def bindR_eq_Inr)
      have conf: "\<forall>r \<in> set rs. conforms ev t r" and st: "bt_schema ?b1 = t"
        using b1 filter_rows_spec [OF rs] by (auto simp: batch_ok_def list_all_iff)
      have "b2 = \<lparr>bt_schema = t, bt_rows = rs\<rparr>"
        using mk st make_batch_conforming [OF conf] by simp
      then show ?thesis using filter_rows_spec [OF rs] st by simp
    qed
    moreover from this have "batch_ok ev t b2"
      using b1 by (auto simp: batch_ok_def list_all_iff)
    ultimately show ?thesis
      using Inr out Q rows by (auto simp: lift_def intro!: wp_bump wp_emit)
  qed
  then show "wp inv (batch_ok ev t) (scan_batch ev op alias bindings b) Q err"
    using resolved by (simp add: scan_batch_def Let_def wp_check_cancelled)
qed auto

lemma wp_limit_batch:
  assumes "batch_ok ev s b"
    and "\<And>os. rows_of os = take left (bt_rows b) \<Longrightarrow>
      Q os (if left \<le> length (bt_rows b) then Inr () else Inl (left - length (bt_rows b)))"
  shows "wp inv (batch_ok ev s) (limit_batch op left b) Q err"
proof -
  let ?out = "b\<lparr>bt_rows := take left (bt_rows b)\<rparr>"
  let ?next = "if left \<le> length (bt_rows b) then Inr () else Inl (left - length (bt_rows b))"
  have out: "batch_ok ev s ?out"
    using assms(1) by (auto simp: batch_ok_def list_all_iff dest: in_set_takeD)
  have "wp inv (batch_ok ev s) (if bt_rows ?out \<noteq> [] then emit op ?out else Ret ()) (\<lambda>os _. Q os ?next) err"
    using assms(2) [of "[?out]"] assms(2) [of "[]"] out by (auto intro!: wp_emit)
  moreover have "(if left - length (bt_rows ?out) = 0 then Inr () else Inl (left - length (bt_rows ?out))) = ?next"
    by auto
  ultimately show ?thesis
    unfolding limit_batch_def Let_def by (simp add: wp_check_cancelled wp_count_input)
qed

text \<open>The batches a limit has read: all of them, or enough for its count.\<close>

lemma wp_limit_op:
  assumes "wp inv (batch_ok ev s) input (\<lambda>bs _. P (rows_of bs)) err"
  shows "wp inv (batch_ok ev s) (limit_op op n input)
    (\<lambda>bs _. \<exists>seen. rows_of bs = take n (rows_of seen)
      \<and> (may_return input seen \<and> P (rows_of seen) \<or> may_yield input seen \<and> n \<le> length (rows_of seen))) err"
proof (cases "n = 0")
  case True
  then show ?thesis by (auto simp: limit_op_def intro!: exI [of _ "[]"] may_yield.none)
next
  case False
  let ?done = "\<lambda>seen. may_return input seen \<and> P (rows_of seen)
    \<or> may_yield input seen \<and> n \<le> length (rows_of seen)"
  let ?J = "\<lambda>seen left as. rows_of as = rows_of seen \<and> left + length (rows_of seen) = n \<and> 0 < left"
  have loop: "wp inv (batch_ok ev s) (for_loop input n (\<lambda>remaining b rest. limit_batch op remaining b))
      (\<lambda>os. (\<lambda>as _. \<exists>seen. rows_of as = take n (rows_of seen) \<and> ?done seen) ([] @ os)) err"
  proof (rule wp_for_loop [where J = ?J and pre = "[]" and B = "batch_ok ev s" and T = "may_yield input"
        and P = "\<lambda>bs. may_return input bs \<and> P (rows_of bs)"])
    show "wp inv (batch_ok ev s) input (\<lambda>bs _. may_return input ([] @ bs) \<and> P (rows_of ([] @ bs))) err"
      using wp_may_return [OF assms] by (auto elim: wp_mono)
  next
    fix bs left as b and rest :: "unit batches"
    assume J: "?J bs left as" and b: "batch_ok ev s b" and T: "may_yield input (bs @ [b])"
    show "wp inv (batch_ok ev s) (limit_batch op left b)
        (\<lambda>os r. case r of Inl v' \<Rightarrow> ?J (bs @ [b]) v' (as @ os)
                | Inr x \<Rightarrow> \<exists>seen. rows_of (as @ os) = take n (rows_of seen) \<and> ?done seen) err"
    proof (rule wp_limit_batch [OF b])
      fix os
      assume os: "rows_of os = take left (bt_rows b)"
      show "case (if left \<le> length (bt_rows b) then Inr () else Inl (left - length (bt_rows b))) of
          Inl v' \<Rightarrow> ?J (bs @ [b]) v' (as @ os)
        | Inr x \<Rightarrow> \<exists>seen. rows_of (as @ os) = take n (rows_of seen) \<and> ?done seen"
      proof (cases "left \<le> length (bt_rows b)")
        case True
        then have "rows_of (as @ os) = take n (rows_of (bs @ [b]))" and "n \<le> length (rows_of (bs @ [b]))"
          using J os by auto
        then have "\<exists>seen. rows_of (as @ os) = take n (rows_of seen) \<and> ?done seen" using T by blast
        then show ?thesis using True by simp
      next
        case False
        then show ?thesis using J os by auto
      qed
    qed
  next
    fix bs left as
    assume "?J bs left as" and "may_return input bs \<and> P (rows_of bs)"
    then show "\<exists>seen. rows_of as = take n (rows_of seen) \<and> ?done seen"
      by (intro exI [of _ bs]) simp
  qed (use False in auto)
  then show ?thesis using False by (simp add: limit_op_def)
qed

lemma wp_order_op:
  assumes "wp inv (\<lambda>b. batch_ok ev s b \<and> set (bt_rows b) \<subseteq> R) input (\<lambda>bs _. P (rows_of bs)) err"
    and "orderable (rt_of ev) orders R" and "conversion_ok ev s"
  shows "wp inv (batch_ok ev s) (order_op ev (in_memory_sort ev) op frame orders s input)
    (\<lambda>bs _. \<exists>rows. P rows \<and> rows_of bs = sort (row_cmp (rt_of ev) orders) rows) err"
proof -
  have srt: "row_sorter inv err ev (in_memory_sort ev)"
    by (rule in_memory_sorter) (rule execution_context_axioms)
  let ?sorted = "\<lambda>rs. \<exists>rows. P rows \<and> rs = sort (row_cmp (rt_of ev) orders) rows"
  have rows: "wp inv (conforms ev s) (external_sorted_rows ev (in_memory_sort ev) op frame s orders
      ''external_sort'' input) (\<lambda>rs _. ?sorted rs) err"
    by (rule row_sorter.wp_external_sorted_rows [OF srt assms(1,2)]) auto
  let ?J = "\<lambda>seen buffer as. rows_of as @ buffer = seen \<and> list_all (conforms ev s) buffer"
  have "wp inv (batch_ok ev s) (for_each (external_sorted_rows ev (in_memory_sort ev) op frame s orders
      ''external_sort'' input) [] (order_row ev op s)) (\<lambda>as buffer. ?sorted (rows_of as @ buffer)
        \<and> list_all (conforms ev s) buffer) err"
  proof (rule wp_for_each [OF rows, where J = ?J])
    fix seen buffer as r
    assume J: "?J seen buffer as" and r: "conforms ev s r"
    then have all: "\<forall>r \<in> set (buffer @ [r]). conforms ev s r" by (auto simp: list_all_iff)
    show "wp inv (batch_ok ev s) (order_row ev op s buffer r) (\<lambda>os v'. ?J (seen @ [r]) v' (as @ os)) err"
      using J r make_batch_conforming [OF all]
      by (auto simp: order_row_def lift_def batch_ok_def list_all_iff intro!: wp_emit)
  qed auto
  then have "wp inv (batch_ok ev s) (for_each (external_sorted_rows ev (in_memory_sort ev) op frame s orders
      ''external_sort'' input) [] (order_row ev op s)) (\<lambda>as buffer. wp inv (batch_ok ev s)
        (emit_rows ev op s buffer) (\<lambda>bs _. ?sorted (rows_of (as @ bs))) err) err"
  proof (rule wp_mono)
    fix as buffer
    assume sorted: "?sorted (rows_of as @ buffer) \<and> list_all (conforms ev s) buffer"
    show "wp inv (batch_ok ev s) (emit_rows ev op s buffer) (\<lambda>bs _. ?sorted (rows_of (as @ bs))) err"
      by (rule wp_emit_rows [OF _ assms(3)])
        (use sorted conformed_conforming [of ev s buffer] in \<open>auto simp: list_all_iff dest: conforming_conversion\<close>)
  qed auto
  then show ?thesis by (simp add: order_op_def)
qed

end

end
