(* ===== verification/Aggregates.thy ===== *)
theory Aggregates
  imports Operators
begin

text \<open>
  Aggregation (\<open>execution/operators.py\<close>): the state of one aggregate function, the hash
  aggregate, the sort aggregate over an external sort, and grouping sets.  The specification
  folds each aggregate over the rows of each group.
\<close>

section \<open>The state of an aggregate function\<close>

record agg_state =
  as_function :: expr
  as_count :: int
  as_total :: sql_value
  as_value :: sql_value
  as_distinct :: "sql_value list"

definition new_state :: "expr \<Rightarrow> agg_state" where
  "new_state f = \<lparr>as_function = f, as_count = 0, as_total = VInt 0, as_value = VNull, as_distinct = []\<rparr>"

fun agg_parts :: "expr \<Rightarrow> (string \<times> expr list \<times> bool) option" where
  "agg_parts (AggregateFunction name args ti distinct_args) = Some (name, args, distinct_args)"
| "agg_parts _ = None"

text \<open>\<open>_AggregateState.add\<close> and \<open>finish\<close>; the set of distinct values is searched by equality.\<close>

definition agg_update :: "py_runtime \<Rightarrow> string \<Rightarrow> sql_value \<Rightarrow> agg_state \<Rightarrow> agg_state res" where
  "agg_update rt name v st =
     (if name \<in> {''sum'', ''avg''} then
        bindR (numeric_operation rt (as_total st) v ADD) (\<lambda>t. Inr (st\<lparr>as_total := t\<rparr>))
      else if name = ''min'' then
        (if as_value st = VNull then Inr (st\<lparr>as_value := v\<rparr>)
         else bindR (py_lt v (as_value st)) (\<lambda>l. Inr (if l then st\<lparr>as_value := v\<rparr> else st)))
      else if name = ''max'' then
        (if as_value st = VNull then Inr (st\<lparr>as_value := v\<rparr>)
         else bindR (py_lt (as_value st) v) (\<lambda>g. Inr (if g then st\<lparr>as_value := v\<rparr> else st)))
      else Inr st)"

definition agg_add :: "py_runtime \<Rightarrow> agg_state \<Rightarrow> row \<Rightarrow> agg_state res" where
  "agg_add rt st row = (case agg_parts (as_function st) of
       None \<Rightarrow> Inl PyAttributeError
     | Some (name, args, distinct_args) \<Rightarrow>
         bindR (case args of [] \<Rightarrow> Inr (VInt 1) | a # _ \<Rightarrow> evaluate rt row a) (\<lambda>v.
           if v = VNull then Inr st
           else if distinct_args \<and> list_ex (py_eq v) (as_distinct st) then Inr st
           else agg_update rt name v
             (st\<lparr>as_distinct := (if distinct_args then as_distinct st @ [v] else as_distinct st),
                 as_count := as_count st + 1\<rparr>)))"

definition agg_finish :: "py_runtime \<Rightarrow> agg_state \<Rightarrow> sql_value res" where
  "agg_finish rt st = (case agg_parts (as_function st) of
       None \<Rightarrow> Inl PyAttributeError
     | Some (name, _, _) \<Rightarrow>
         if name = ''count'' then Inr (VInt (as_count st))
         else if name = ''sum'' then Inr (if as_count st \<noteq> 0 then as_total st else VNull)
         else if name = ''avg'' then
           (if as_count st \<noteq> 0 then numeric_operation rt (as_total st) (VInt (as_count st)) DIVIDE
            else Inr VNull)
         else Inr (as_value st))"

section \<open>The hash aggregate\<close>

type_synonym group_key = "sql_value list"
type_synonym groups = "(group_key \<times> agg_state list) list"

text \<open>Tuples compare element by element; \<open>groups\<close> is a dict in insertion order.\<close>

definition key_eq :: "group_key \<Rightarrow> group_key \<Rightarrow> bool" where
  "key_eq = list_all2 py_eq"

definition new_states :: "named_expression list \<Rightarrow> agg_state list res" where
  "new_states aggs = mapR (\<lambda>item.
     if is_aggregate (ne_expression item) then Inr (new_state (ne_expression item))
     else Inl PyValueError) aggs"

fun group_update ::
    "group_key \<Rightarrow> agg_state list \<Rightarrow> (agg_state list \<Rightarrow> agg_state list res) \<Rightarrow> groups \<Rightarrow> groups res" where
  "group_update gk fresh f [] = bindR (f fresh) (\<lambda>sts. Inr [(gk, sts)])"
| "group_update gk fresh f ((k, sts) # gs) =
     (if key_eq k gk then bindR (f sts) (\<lambda>sts'. Inr ((k, sts') # gs))
      else bindR (group_update gk fresh f gs) (\<lambda>gs'. Inr ((k, sts) # gs')))"

definition row_key :: "py_runtime \<Rightarrow> expr list \<Rightarrow> row \<Rightarrow> group_key res" where
  "row_key rt group_by row = mapR (evaluate rt row) group_by"

definition group_row ::
    "py_runtime \<Rightarrow> expr list \<Rightarrow> agg_state list res \<Rightarrow> groups \<Rightarrow> row \<Rightarrow> groups res" where
  "group_row rt group_by fresh groups row =
     bindR (row_key rt group_by row) (\<lambda>gk. bindR fresh (\<lambda>states.
       group_update gk states (mapR (\<lambda>st. agg_add rt st row)) groups))"

text \<open>
  The output row of a group: \<open>None\<close> for the columns of other grouping sets, the key, the
  aggregates; a later name wins.
\<close>

definition group_output ::
    "py_runtime \<Rightarrow> expr list \<Rightarrow> expr list \<Rightarrow> named_expression list \<Rightarrow> group_key \<times> agg_state list \<Rightarrow> row res" where
  "group_output rt columns group_by aggs g =
     bindR (mapR (agg_finish rt) (snd g)) (\<lambda>vals. Inr (map_of (rev
       (map (\<lambda>e. (expr_sql rt e, VNull)) columns
        @ zip (map (expr_sql rt) group_by) (fst g)
        @ zip (map (\<lambda>item. expr_sql rt (ne_expression item)) aggs) vals))))"

definition hash_aggregate_op ::
    "env \<Rightarrow> string \<Rightarrow> expr list \<Rightarrow> named_expression list \<Rightarrow> schema \<Rightarrow> unit batches \<Rightarrow> unit batches" where
  "hash_aggregate_op ev op group_by aggs s input =
     bindG (lift (if group_by = [] then bindR (new_states aggs) (\<lambda>sts. Inr [([], sts)]) else Inr [])) (\<lambda>start.
     bindG (for_each input start (\<lambda>groups b.
         bindG check_cancelled (\<lambda>_. bindG (count_input op (length (bt_rows b))) (\<lambda>_.
           for_list (bt_rows b) groups (\<lambda>groups row. bindG check_cancelled (\<lambda>_.
             lift (group_row (rt_of ev) group_by (new_states aggs) groups row))))))) (\<lambda>groups.
     bindG (lift (mapR (group_output (rt_of ev) [] group_by aggs) groups)) (emit_rows ev op s)))"

section \<open>Its specification\<close>

text \<open>The keys in order of their first occurrence, and the rows of a key.\<close>

definition add_key :: "group_key list \<Rightarrow> group_key \<Rightarrow> group_key list" where
  "add_key ks k = (if list_ex (\<lambda>k'. key_eq k' k) ks then ks else ks @ [k])"

definition first_keys :: "group_key list \<Rightarrow> group_key list" where
  "first_keys ks = foldl add_key [] ks"

definition rows_with :: "group_key \<Rightarrow> (group_key \<times> row) list \<Rightarrow> row list" where
  "rows_with k krs = map snd (filter (\<lambda>(k', r). key_eq k k') krs)"

definition agg_fold :: "py_runtime \<Rightarrow> row list \<Rightarrow> named_expression \<Rightarrow> agg_state res" where
  "agg_fold rt rows item = foldR (agg_add rt) (new_state (ne_expression item)) rows"

definition group_of ::
    "py_runtime \<Rightarrow> named_expression list \<Rightarrow> (group_key \<times> row) list \<Rightarrow> group_key \<Rightarrow> (group_key \<times> agg_state list) res" where
  "group_of rt aggs krs k = bindR (mapR (agg_fold rt (rows_with k krs)) aggs) (\<lambda>sts. Inr (k, sts))"

text \<open>An aggregate without grouping keys has one group, even of no rows.\<close>

definition groups_for ::
    "py_runtime \<Rightarrow> expr list \<Rightarrow> named_expression list \<Rightarrow> (group_key \<times> row) list \<Rightarrow> groups res" where
  "groups_for rt group_by aggs krs =
     mapR (group_of rt aggs krs) (if group_by = [] then [[]] else first_keys (map fst krs))"

definition aggregate_rows ::
    "py_runtime \<Rightarrow> expr list \<Rightarrow> expr list \<Rightarrow> named_expression list \<Rightarrow> row list \<Rightarrow> row list res" where
  "aggregate_rows rt columns group_by aggs rows =
     bindR (mapR (row_key rt group_by) rows) (\<lambda>keys.
     bindR (groups_for rt group_by aggs (zip keys rows)) (mapR (group_output rt columns group_by aggs)))"

definition all_aggregates :: "named_expression list \<Rightarrow> bool" where
  "all_aggregates aggs \<longleftrightarrow> list_all (\<lambda>item. is_aggregate (ne_expression item)) aggs"

text \<open>What evaluating keys and aggregates over rows of \<open>R\<close> may raise.\<close>

definition agg_errors ::
    "py_runtime \<Rightarrow> expr list \<Rightarrow> named_expression list \<Rightarrow> row set \<Rightarrow> (exn \<Rightarrow> bool) \<Rightarrow> bool" where
  "agg_errors rt group_by aggs R E \<longleftrightarrow>
     (\<forall>r \<in> R. \<forall>e. row_key rt group_by r = Inl e \<longrightarrow> E e)
     \<and> (\<forall>rows. set rows \<subseteq> R \<longrightarrow> (\<forall>item \<in> set aggs. \<forall>e.
          bindR (agg_fold rt rows item) (agg_finish rt) = Inl e \<longrightarrow> E e))"

lemma new_states_ok:
  "all_aggregates aggs \<Longrightarrow> new_states aggs = Inr (map (\<lambda>item. new_state (ne_expression item)) aggs)"
  unfolding new_states_def by (rule mapR_total) (simp add: all_aggregates_def list_all_iff)

lemma key_eq_sym: "key_eq a b = key_eq b a"
  unfolding key_eq_def using py_eq_sym by (metis list_all2_conv_all_nth)

lemma key_eq_trans: "key_eq a b \<Longrightarrow> key_eq b c \<Longrightarrow> key_eq a c"
  unfolding key_eq_def by (rule list_all2_trans [OF py_eq_trans])

text \<open>Keys that differ pairwise; adding one keeps that.\<close>

definition keys_apart :: "group_key list \<Rightarrow> bool" where
  "keys_apart ks \<longleftrightarrow> sorted_wrt (\<lambda>a b. \<not> key_eq a b) ks"

lemma keys_apart_add: "keys_apart ks \<Longrightarrow> keys_apart (add_key ks k)"
  by (auto simp: keys_apart_def add_key_def sorted_wrt_append list_ex_iff)

lemma keys_apart_first: "keys_apart (first_keys ks)"
proof -
  have "keys_apart acc \<Longrightarrow> keys_apart (foldl add_key acc ks)" for acc
    by (induction ks arbitrary: acc) (auto simp: keys_apart_add)
  then show ?thesis by (simp add: first_keys_def keys_apart_def)
qed

lemma first_keys_snoc: "first_keys (ks @ [k]) = add_key (first_keys ks) k"
  by (simp add: first_keys_def)

lemma rows_with_snoc:
  "rows_with k (krs @ [(k', r)]) = rows_with k krs @ (if key_eq k k' then [r] else [])"
  by (simp add: rows_with_def)

lemma set_rows_with: "set (rows_with k krs) \<subseteq> snd ` set krs"
  by (auto simp: rows_with_def)

text \<open>Updating the group of a row's key is adding the row to the specification.\<close>

lemma mapR_fold_snoc:
  assumes "mapR (agg_fold rt rows) aggs = Inr us" and "mapR (\<lambda>st. agg_add rt st row) us = Inr sts"
  shows "mapR (agg_fold rt (rows @ [row])) aggs = Inr sts"
  using assms unfolding mapR_Inr_iff
  by (auto simp: list_all2_conv_all_nth agg_fold_def foldR_append)

text \<open>Keys without \<open>nan\<close>, which would equal no key at all.\<close>

definition plain_keys :: "py_runtime \<Rightarrow> expr list \<Rightarrow> row set \<Rightarrow> bool" where
  "plain_keys rt group_by R \<longleftrightarrow> (\<forall>r \<in> R. \<forall>k. row_key rt group_by r = Inr k \<longrightarrow> list_all (\<lambda>v. \<not> is_nan v) k)"

lemma key_eq_refl: "list_all (\<lambda>v. \<not> is_nan v) k \<Longrightarrow> key_eq k k"
  by (auto simp: key_eq_def list_all2_conv_all_nth list_all_length)

lemma key_eq_same: "key_eq k' k \<Longrightarrow> key_eq k' a = key_eq k a"
  by (metis key_eq_sym key_eq_trans)

lemma group_of_other:
  "\<not> key_eq k' gk \<Longrightarrow> group_of rt aggs (krs @ [(gk, row)]) k' = group_of rt aggs krs k'"
  by (simp add: group_of_def rows_with_snoc)

lemma group_of_same:
  assumes "key_eq k' gk" and "group_of rt aggs krs k' = Inr (k', sts)"
    and "mapR (\<lambda>st. agg_add rt st row) sts = Inr sts'"
  shows "group_of rt aggs (krs @ [(gk, row)]) k' = Inr (k', sts')"
proof -
  have "mapR (agg_fold rt (rows_with k' krs)) aggs = Inr sts"
    using assms(2) by (auto simp: group_of_def bindR_eq_Inr)
  then have "mapR (agg_fold rt (rows_with k' krs @ [row])) aggs = Inr sts'"
    using assms(3) mapR_fold_snoc by blast
  then show ?thesis using assms(1) by (simp add: group_of_def rows_with_snoc)
qed

lemma group_of_fst: "group_of rt aggs krs k = Inr g \<Longrightarrow> fst g = k"
  by (auto simp: group_of_def bindR_eq_Inr)

lemma group_update_old:
  assumes "mapR (group_of rt aggs krs) ks = Inr gs" and "keys_apart ks"
    and "list_ex (\<lambda>k'. key_eq k' gk) ks"
    and "group_update gk fresh (mapR (\<lambda>st. agg_add rt st row)) gs = Inr gs'"
  shows "mapR (group_of rt aggs (krs @ [(gk, row)])) ks = Inr gs'"
  using assms
proof (induction ks arbitrary: gs gs')
  case (Cons k ks)
  obtain sts gs1 where k: "group_of rt aggs krs k = Inr (k, sts)" and gs: "gs = (k, sts) # gs1"
    and gs1: "mapR (group_of rt aggs krs) ks = Inr gs1"
    using Cons.prems(1) group_of_fst by (fastforce simp: bindR_eq_Inr)
  show ?case
  proof (cases "key_eq k gk")
    case True
    have "\<not> key_eq k' gk" if "k' \<in> set ks" for k'
      using Cons.prems(2) that key_eq_trans [OF True] key_eq_sym by (auto simp: keys_apart_def)
    then have "mapR (group_of rt aggs (krs @ [(gk, row)])) ks = Inr gs1"
      unfolding gs1 [symmetric] by (intro mapR_cong) (simp_all add: group_of_other)
    then show ?thesis
      using True gs Cons.prems(4) group_of_same [OF True k] by (auto simp: bindR_eq_Inr)
  next
    case False
    then show ?thesis
      using gs gs1 k Cons.prems Cons.IH [OF gs1] by (auto simp: bindR_eq_Inr group_of_other keys_apart_def)
  qed
qed simp

lemma group_update_new:
  assumes "mapR (group_of rt aggs krs) ks = Inr gs"
    and "\<not> list_ex (\<lambda>k'. key_eq k' gk) ks" and "key_eq gk gk"
    and "\<And>k'. k' \<in> fst ` set krs \<Longrightarrow> \<not> key_eq gk k'" and "all_aggregates aggs"
    and "group_update gk (map (\<lambda>item. new_state (ne_expression item)) aggs) (mapR (\<lambda>st. agg_add rt st row)) gs = Inr gs'"
  shows "mapR (group_of rt aggs (krs @ [(gk, row)])) (ks @ [gk]) = Inr gs'"
  using assms(1,2,6)
proof (induction ks arbitrary: gs gs')
  case Nil
  let ?fresh = "map (\<lambda>item. new_state (ne_expression item)) aggs"
  have "rows_with gk krs = []"
    using assms(4) by (force simp: rows_with_def filter_empty_conv)
  then have "mapR (agg_fold rt (rows_with gk krs)) aggs = Inr ?fresh"
    by (intro mapR_total) (simp add: agg_fold_def)
  then have "group_of rt aggs krs gk = Inr (gk, ?fresh)" by (simp add: group_of_def)
  from group_of_same [OF assms(3) this] show ?case
    using Nil by (auto simp: bindR_eq_Inr)
next
  case (Cons k ks)
  obtain sts gs1 where "group_of rt aggs krs k = Inr (k, sts)" and "gs = (k, sts) # gs1"
    and gs1: "mapR (group_of rt aggs krs) ks = Inr gs1"
    using Cons.prems(1) group_of_fst by (fastforce simp: bindR_eq_Inr)
  then show ?case
    using Cons.prems Cons.IH [OF gs1] by (auto simp: bindR_eq_Inr group_of_other)
qed

lemma group_update_error:
  assumes "mapR (group_of rt aggs krs) ks = Inr gs"
    and "group_update gk (map (\<lambda>item. new_state (ne_expression item)) aggs) (mapR (\<lambda>st. agg_add rt st row)) gs = Inl e"
  shows "\<exists>rows item. set rows \<subseteq> insert row (snd ` set krs) \<and> item \<in> set aggs \<and> agg_fold rt rows item = Inl e"
  using assms
proof (induction ks arbitrary: gs)
  case Nil
  then have "\<exists>item \<in> set aggs. agg_add rt (new_state (ne_expression item)) row = Inl e"
    using mapR_error [of "\<lambda>st. agg_add rt st row" "map (\<lambda>item. new_state (ne_expression item)) aggs" e]
    by (auto simp: bindR_eq_Inl)
  then obtain item where "item \<in> set aggs" "agg_fold rt [row] item = Inl e"
    by (auto simp: agg_fold_def)
  then show ?case by (intro exI [of _ "[row]"] exI [of _ item]) simp
next
  case (Cons k ks)
  obtain sts gs1 where k: "group_of rt aggs krs k = Inr (k, sts)" and gs: "gs = (k, sts) # gs1"
    and gs1: "mapR (group_of rt aggs krs) ks = Inr gs1"
    using Cons.prems(1) group_of_fst by (fastforce simp: bindR_eq_Inr)
  show ?case
  proof (cases "key_eq k gk")
    case True
    then obtain st where st: "st \<in> set sts" "agg_add rt st row = Inl e"
      using Cons.prems(2) gs mapR_error [of "\<lambda>st. agg_add rt st row" sts e] by (auto simp: bindR_eq_Inl)
    have "mapR (agg_fold rt (rows_with k krs)) aggs = Inr sts"
      using k by (auto simp: group_of_def bindR_eq_Inr)
    then obtain item where "item \<in> set aggs" "agg_fold rt (rows_with k krs) item = Inr st"
      using st(1) unfolding mapR_Inr_iff list_all2_conv_all_nth in_set_conv_nth by metis
    then have "agg_fold rt (rows_with k krs @ [row]) item = Inl e"
      using st(2) by (simp add: agg_fold_def foldR_append)
    with \<open>item \<in> set aggs\<close> show ?thesis
      using set_rows_with [of k krs] by (intro exI [of _ "rows_with k krs @ [row]"] exI [of _ item]) auto
  next
    case False
    then show ?thesis using Cons.IH [OF gs1] Cons.prems(2) gs by (auto simp: bindR_eq_Inl)
  qed
qed

lemma first_keys_cover:
  "k' \<in> set ks \<Longrightarrow> key_eq k' k' \<Longrightarrow> \<exists>k'' \<in> set (first_keys ks). key_eq k'' k'"
  by (induction ks rule: rev_induct) (auto simp: first_keys_snoc add_key_def list_ex_iff)

text \<open>One more row: the groups are those of the rows seen so far.\<close>

definition groups_seen ::
    "py_runtime \<Rightarrow> expr list \<Rightarrow> named_expression list \<Rightarrow> row list \<Rightarrow> groups \<Rightarrow> bool" where
  "groups_seen rt group_by aggs seen groups \<longleftrightarrow> (\<exists>keys. mapR (row_key rt group_by) seen = Inr keys
     \<and> groups_for rt group_by aggs (zip keys seen) = Inr groups)"

lemma group_row_step:
  assumes seen: "groups_seen rt group_by aggs seen groups" and aggs: "all_aggregates aggs"
    and plain: "plain_keys rt group_by R" and rows: "set (seen @ [row]) \<subseteq> R"
    and errs: "agg_errors rt group_by aggs R E"
  shows "case group_row rt group_by (new_states aggs) groups row of
      Inl e \<Rightarrow> E e | Inr groups' \<Rightarrow> groups_seen rt group_by aggs (seen @ [row]) groups'"
proof -
  obtain keys where keys: "mapR (row_key rt group_by) seen = Inr keys"
    and gs: "groups_for rt group_by aggs (zip keys seen) = Inr groups"
    using seen by (auto simp: groups_seen_def)
  have len: "length keys = length seen" using keys by (rule mapR_length)
  show ?thesis
  proof (cases "row_key rt group_by row")
    case (Inl e)
    then show ?thesis using errs rows by (auto simp: group_row_def agg_errors_def)
  next
    case (Inr k)
    have refl: "key_eq k k" using plain Inr rows by (auto simp: plain_keys_def intro: key_eq_refl)
    have keys': "mapR (row_key rt group_by) (seen @ [row]) = Inr (keys @ [k])"
      using keys Inr by (simp add: mapR_append)
    have zip: "zip (keys @ [k]) (seen @ [row]) = zip keys seen @ [(k, row)]" using len by simp
    let ?ks = "if group_by = [] then [[]] else first_keys keys"
    let ?up = "group_update k (map (\<lambda>item. new_state (ne_expression item)) aggs) (mapR (\<lambda>st. agg_add rt st row)) groups"
    have old: "mapR (group_of rt aggs (zip keys seen)) ?ks = Inr groups"
      using gs unfolding groups_for_def map_fst_zip [OF len] .
    have row: "group_row rt group_by (new_states aggs) groups row = ?up"
      using Inr aggs by (simp add: group_row_def new_states_ok)
    show ?thesis
    proof (cases ?up)
      case (Inl e)
      obtain rs item where "set rs \<subseteq> insert row (snd ` set (zip keys seen))" and "item \<in> set aggs"
        and "agg_fold rt rs item = Inl e"
        using group_update_error [OF old Inl] by blast
      moreover have "snd ` set (zip keys seen) \<subseteq> set seen" by (auto dest: set_zip_rightD)
      ultimately have "set rs \<subseteq> R" and "item \<in> set aggs" and "agg_fold rt rs item = Inl e"
        using rows by auto
      then show ?thesis
        using row Inl errs by (auto simp: agg_errors_def)
    next
      case up: (Inr groups')
      have "mapR (group_of rt aggs (zip keys seen @ [(k, row)]))
          (if group_by = [] then [[]] else first_keys (keys @ [k])) = Inr groups'"
      proof (cases "list_ex (\<lambda>k'. key_eq k' k) ?ks")
        case True
        moreover have "keys_apart ?ks" by (simp add: keys_apart_first) (simp add: keys_apart_def)
        ultimately show ?thesis
          using group_update_old [OF old _ True up] by (auto simp: first_keys_snoc add_key_def split: if_splits)
      next
        case False
        have "group_by \<noteq> []"
        proof
          assume "group_by = []"
          then have "k = []" using Inr by (simp add: row_key_def)
          with False \<open>group_by = []\<close> show False by (simp add: key_eq_def)
        qed
        have "\<not> key_eq k k'" if k': "k' \<in> set keys" for k'
        proof
          assume eq: "key_eq k k'"
          then have "key_eq k' k'" using key_eq_sym key_eq_trans by blast
          then obtain k'' where "k'' \<in> set (first_keys keys)" "key_eq k'' k'"
            using first_keys_cover [OF k'] by blast
          moreover from this have "key_eq k'' k" using eq key_eq_sym key_eq_trans by blast
          ultimately show False using False \<open>group_by \<noteq> []\<close> by (auto simp: list_ex_iff)
        qed
        then have "\<not> key_eq k k'" if "k' \<in> fst ` set (zip keys seen)" for k'
          using that by (auto dest: set_zip_leftD)
        from group_update_new [OF old False refl this aggs up] show ?thesis
          using False \<open>group_by \<noteq> []\<close> by (simp add: first_keys_snoc add_key_def)
      qed
      then have "groups_for rt group_by aggs (zip (keys @ [k]) (seen @ [row])) = Inr groups'"
        unfolding zip using len by (simp add: groups_for_def map_fst_zip cong: if_cong)
      then show ?thesis
        using row up keys' by (auto simp: groups_seen_def)
    qed
  qed
qed

lemma groups_seen_start:
  assumes "all_aggregates aggs"
    and "(if group_by = [] then bindR (new_states aggs) (\<lambda>sts. Inr [([], sts)]) else Inr []) = Inr start"
  shows "groups_seen rt group_by aggs [] start"
proof -
  have "mapR (agg_fold rt []) aggs = Inr (map (\<lambda>item. new_state (ne_expression item)) aggs)"
    by (rule mapR_total) (simp add: agg_fold_def)
  then show ?thesis
    using assms
    by (auto simp: groups_seen_def groups_for_def new_states_ok group_of_def rows_with_def first_keys_def
        split: if_splits)
qed

text \<open>The output rows.\<close>

lemma group_output_error:
  assumes "groups_seen rt group_by aggs seen groups" and "agg_errors rt group_by aggs R E"
    and "set seen \<subseteq> R" and "mapR (group_output rt columns group_by aggs) groups = Inl e"
  shows "E e"
proof -
  obtain keys where keys: "mapR (row_key rt group_by) seen = Inr keys"
    and gs: "groups_for rt group_by aggs (zip keys seen) = Inr groups"
    using assms(1) by (auto simp: groups_seen_def)
  obtain g where g: "g \<in> set groups" "group_output rt columns group_by aggs g = Inl e"
    using mapR_error [OF assms(4)] by blast
  then obtain st where st: "st \<in> set (snd g)" "agg_finish rt st = Inl e"
    using mapR_error [of "agg_finish rt" "snd g" e] by (auto simp: group_output_def bindR_eq_Inl)
  from gs g(1) obtain k where "group_of rt aggs (zip keys seen) k = Inr g"
    unfolding groups_for_def mapR_Inr_iff list_all2_conv_all_nth in_set_conv_nth by metis
  then have "mapR (agg_fold rt (rows_with k (zip keys seen))) aggs = Inr (snd g)"
    by (auto simp: group_of_def bindR_eq_Inr)
  then obtain item where "item \<in> set aggs" "agg_fold rt (rows_with k (zip keys seen)) item = Inr st"
    using st(1) unfolding mapR_Inr_iff list_all2_conv_all_nth in_set_conv_nth by metis
  moreover have "set (rows_with k (zip keys seen)) \<subseteq> R"
    using set_rows_with [of k "zip keys seen"] assms(3) by (fastforce dest: set_zip_rightD)
  ultimately show "E e"
    using assms(2) st(2) by (auto simp: agg_errors_def)
qed

lemma groups_seen_rows:
  assumes "groups_seen rt group_by aggs seen groups"
    and "mapR (group_output rt columns group_by aggs) groups = Inr outs"
  shows "aggregate_rows rt columns group_by aggs seen = Inr outs"
  using assms by (auto simp: groups_seen_def aggregate_rows_def)

context execution_context
begin

lemma wp_group_rows:
  assumes "groups_seen (rt_of ev) group_by aggs seen groups" and "all_aggregates aggs"
    and "plain_keys (rt_of ev) group_by R" and "agg_errors (rt_of ev) group_by aggs R err"
    and "set (seen @ rows) \<subseteq> R"
    and "\<And>groups. groups_seen (rt_of ev) group_by aggs (seen @ rows) groups \<Longrightarrow> Q [] groups"
  shows "wp inv Y (for_list rows groups (\<lambda>groups row. bindG check_cancelled (\<lambda>_.
             lift (group_row (rt_of ev) group_by (new_states aggs) groups row)))) Q err"
proof (rule wp_for_list_prefix
    [where J = "\<lambda>pre groups as. as = [] \<and> groups_seen (rt_of ev) group_by aggs (seen @ pre) groups"])
  fix pre row groups and as :: "'a list"
  assume sub: "set (pre @ [row]) \<subseteq> set rows"
    and J: "as = [] \<and> groups_seen (rt_of ev) group_by aggs (seen @ pre) groups"
  have sub': "set ((seen @ pre) @ [row]) \<subseteq> R" using assms(5) sub by auto
  from J have "groups_seen (rt_of ev) group_by aggs (seen @ pre) groups" by blast
  from group_row_step [OF this assms(2,3) sub' assms(4)] J
  show "wp inv Y (bindG check_cancelled (\<lambda>_. lift (group_row (rt_of ev) group_by (new_states aggs) groups row)))
      (\<lambda>os groups. as @ os = [] \<and> groups_seen (rt_of ev) group_by aggs (seen @ pre @ [row]) groups) err"
    by (auto simp: wp_lift split: sum.splits intro!: wp_check_cancelled)
qed (use assms in auto)

lemma wp_hash_aggregate_op:
  assumes input: "wp inv (\<lambda>b. batch_ok ev s b \<and> set (bt_rows b) \<subseteq> R) input (\<lambda>bs _. P (rows_of bs)) err"
    and aggs: "all_aggregates aggs" and plain: "plain_keys (rt_of ev) group_by R"
    and errs: "agg_errors (rt_of ev) group_by aggs R err"
    and conv: "conversion_ok ev out" "\<And>r e. ev_conform ev out r = Inl e \<Longrightarrow> err e"
  shows "wp inv (batch_ok ev out) (hash_aggregate_op ev op group_by aggs out input)
    (\<lambda>bs _. \<exists>rows outs. P rows \<and> aggregate_rows (rt_of ev) [] group_by aggs rows = Inr outs
       \<and> conformed ev out outs (rows_of bs)) err"
proof -
  let ?seen = "groups_seen (rt_of ev) group_by aggs"
  obtain start where start: "(if group_by = [] then bindR (new_states aggs) (\<lambda>sts. Inr [([], sts)]) else Inr [])
      = Inr start" and seen0: "?seen [] start"
    using groups_seen_start [OF aggs] by (cases "group_by = []") (auto simp: new_states_ok [OF aggs])
  have "wp inv (batch_ok ev out) (for_each input start (\<lambda>groups b.
         bindG check_cancelled (\<lambda>_. bindG (count_input op (length (bt_rows b))) (\<lambda>_.
           for_list (bt_rows b) groups (\<lambda>groups row. bindG check_cancelled (\<lambda>_.
             lift (group_row (rt_of ev) group_by (new_states aggs) groups row)))))))
      (\<lambda>as groups. as = [] \<and> (\<exists>rows. P rows \<and> set rows \<subseteq> R \<and> ?seen rows groups)) err"
  proof (rule wp_for_each [OF input,
        where J = "\<lambda>bs groups as. as = [] \<and> set (rows_of bs) \<subseteq> R \<and> ?seen (rows_of bs) groups"])
    fix bs groups b and as :: "batch list"
    assume J: "as = [] \<and> set (rows_of bs) \<subseteq> R \<and> ?seen (rows_of bs) groups"
      and b: "batch_ok ev s b \<and> set (bt_rows b) \<subseteq> R"
    have "wp inv (batch_ok ev out) (for_list (bt_rows b) groups (\<lambda>groups row. bindG check_cancelled (\<lambda>_.
             lift (group_row (rt_of ev) group_by (new_states aggs) groups row))))
        (\<lambda>os groups. os = [] \<and> ?seen (rows_of bs @ bt_rows b) groups) err"
      using J b by (intro wp_group_rows [OF _ aggs plain errs]) auto
    then show "wp inv (batch_ok ev out) (bindG check_cancelled (\<lambda>_. bindG (count_input op (length (bt_rows b))) (\<lambda>_.
           for_list (bt_rows b) groups (\<lambda>groups row. bindG check_cancelled (\<lambda>_.
             lift (group_row (rt_of ev) group_by (new_states aggs) groups row))))))
        (\<lambda>os groups. as @ os = [] \<and> set (rows_of (bs @ [b])) \<subseteq> R \<and> ?seen (rows_of (bs @ [b])) groups) err"
      using J b by (auto intro!: wp_check_cancelled wp_count_input)
  qed (use seen0 in auto)
  then have "wp inv (batch_ok ev out) (bindG (for_each input start (\<lambda>groups b.
         bindG check_cancelled (\<lambda>_. bindG (count_input op (length (bt_rows b))) (\<lambda>_.
           for_list (bt_rows b) groups (\<lambda>groups row. bindG check_cancelled (\<lambda>_.
             lift (group_row (rt_of ev) group_by (new_states aggs) groups row))))))) (\<lambda>groups.
       bindG (lift (mapR (group_output (rt_of ev) [] group_by aggs) groups)) (emit_rows ev op out)))
    (\<lambda>bs _. \<exists>rows outs. P rows \<and> aggregate_rows (rt_of ev) [] group_by aggs rows = Inr outs
       \<and> conformed ev out outs (rows_of bs)) err"
  proof (rule wp_bindI)
    fix groups
    assume "\<exists>rows. P rows \<and> set rows \<subseteq> R \<and> ?seen rows groups"
    then obtain rows where rows: "P rows" "set rows \<subseteq> R" "?seen rows groups" by blast
    show "wp inv (batch_ok ev out) (bindG (lift (mapR (group_output (rt_of ev) [] group_by aggs) groups))
        (emit_rows ev op out)) (\<lambda>bs _. \<exists>rows outs. P rows
          \<and> aggregate_rows (rt_of ev) [] group_by aggs rows = Inr outs \<and> conformed ev out outs (rows_of bs)) err"
    proof (cases "mapR (group_output (rt_of ev) [] group_by aggs) groups")
      case (Inl e)
      then show ?thesis using group_output_error [OF rows(3) errs rows(2) Inl] by (simp add: lift_def)
    next
      case (Inr outs)
      then show ?thesis
        using groups_seen_rows [OF rows(3) Inr] rows(1) conv
        by (auto simp: lift_def intro!: wp_emit_rows)
    qed
  qed
  then show ?thesis
    unfolding hash_aggregate_op_def start by (simp add: lift_def)
qed

end

end
