(* ===== verification/SortAggregate.thy ===== *)
theory SortAggregate
  imports Aggregates
begin

text \<open>
  The sort aggregate (\<open>SortAggregateOperator\<close>): one group at a time over externally sorted rows.
  It delivers the groups of the hash aggregate, in the order of their keys.
\<close>

section \<open>The operator\<close>

definition asc_item :: "expr \<Rightarrow> expr sort_expression" where
  "asc_item e = SortExpression e True False"

type_synonym group_stream = "(group_key \<times> agg_state list) option \<times> row list"

text \<open>A group that ends: its output row is buffered, a full buffer is emitted.\<close>

definition close_group ::
    "env \<Rightarrow> string \<Rightarrow> expr list \<Rightarrow> named_expression list \<Rightarrow> schema \<Rightarrow> group_key \<times> agg_state list
     \<Rightarrow> row list \<Rightarrow> (ctx, batch, row list) gen" where
  "close_group ev op group_by aggs s g output =
     bindG (lift (group_output (rt_of ev) [] group_by aggs g)) (\<lambda>r.
     bindG (get cx_batch_size) (\<lambda>n.
       if n \<le> length (output @ [r]) then bindG (emit_rows ev op s (output @ [r])) (\<lambda>_. Ret [])
       else Ret (output @ [r])))"

definition stream_row ::
    "env \<Rightarrow> string \<Rightarrow> expr list \<Rightarrow> named_expression list \<Rightarrow> schema \<Rightarrow> group_stream \<Rightarrow> row
     \<Rightarrow> (ctx, batch, group_stream) gen" where
  "stream_row ev op group_by aggs s st row = (case st of (cur, output) \<Rightarrow>
     bindG check_cancelled (\<lambda>_.
     bindG (lift (row_key (rt_of ev) group_by row)) (\<lambda>k.
     bindG (case cur of
         None \<Rightarrow> Ret (None, output)
       | Some g \<Rightarrow> if key_eq k (fst g) then Ret (Some g, output)
           else bindG (close_group ev op group_by aggs s g output) (\<lambda>output. Ret (None, output)))
       (\<lambda>(cur, output).
     bindG (case cur of
         None \<Rightarrow> bindG (lift (new_states aggs)) (\<lambda>states. Ret (k, states))
       | Some g \<Rightarrow> Ret g) (\<lambda>(ck, states).
     bindG (lift (mapR (\<lambda>st. agg_add (rt_of ev) st row) states)) (\<lambda>states.
       Ret (Some (ck, states), output)))))))"

definition sort_aggregate_op ::
    "env \<Rightarrow> string \<Rightarrow> string \<Rightarrow> expr list \<Rightarrow> named_expression list \<Rightarrow> schema \<Rightarrow> schema
     \<Rightarrow> unit batches \<Rightarrow> unit batches" where
  "sort_aggregate_op ev op frame group_by aggs input_schema s input =
     (if group_by = [] then hash_aggregate_op ev op group_by aggs s input
      else bindG (for_each (external_sorted_rows ev (in_memory_sort ev) op frame input_schema
               (map asc_item group_by) ''sort_aggregate'' input) (None, [])
             (stream_row ev op group_by aggs s)) (\<lambda>(cur, output).
           case cur of
             None \<Rightarrow> emit_rows ev op s output
           | Some g \<Rightarrow> bindG (lift (group_output (rt_of ev) [] group_by aggs g)) (\<lambda>r.
               emit_rows ev op s (output @ [r]))))"

section \<open>Sorting by the keys brings equal keys together\<close>

lemma item_equiv:
  assumes "\<not> is_nan (order_value rt e l)" and "\<not> is_nan (order_value rt e r)"
  shows "compare (item_cmp rt (asc_item e)) l r = Equiv \<longleftrightarrow> py_eq (order_value rt e l) (order_value rt e r)"
proof -
  let ?v = "order_value rt e l" and ?w = "order_value rt e r"
  have item: "se_expression (asc_item e) = e" "se_nulls_first (asc_item e) = False"
    "se_ascending (asc_item e) = True" by (simp_all add: asc_item_def)
  show ?thesis
  proof (cases "?v = VNull \<or> ?w = VNull")
    case True
    then show ?thesis
      unfolding item_cmp item Let_def compare_default by (elim disjE) simp_all
  next
    case False
    then obtain k m where "vkey ?v = Some k" "vkey ?w = Some m"
      using assms vkey_None by blast
    then show ?thesis
      using False py_eq_vkey [of ?v k ?w]
      unfolding item_cmp item Let_def compare_default value_key_def by auto
  qed
qed

definition the_key :: "py_runtime \<Rightarrow> expr list \<Rightarrow> row \<Rightarrow> group_key" where
  "the_key rt group_by row = map (\<lambda>e. order_value rt e row) group_by"

lemma row_key_the_key:
  "orderable rt (map asc_item group_by) R \<Longrightarrow> r \<in> R \<Longrightarrow> row_key rt group_by r = Inr (the_key rt group_by r)"
  unfolding row_key_def the_key_def
  by (rule mapR_total) (auto simp: orderable_def asc_item_def order_value_def is_ok_def split: sum.splits)

lemma rows_equiv:
  assumes "orderable rt (map asc_item group_by) R" and "l \<in> R" and "r \<in> R"
  shows "compare (row_cmp rt (map asc_item group_by)) l r = Equiv
    \<longleftrightarrow> key_eq (the_key rt group_by l) (the_key rt group_by r)"
  using assms(1)
proof (induction group_by)
  case (Cons e es)
  have "one_kind (order_value rt e ` R)" and es: "orderable rt (map asc_item es) R"
    using Cons.prems by (simp_all add: orderable_def asc_item_def)
  then have "\<not> is_nan (order_value rt e l)" "\<not> is_nan (order_value rt e r)"
    using assms(2,3) by (auto simp: one_kind_def)
  from item_equiv [OF this] Cons.IH [OF es] show ?case
    by (auto simp: cmp_pair the_key_def key_eq_def split: comp.splits)
qed (simp add: the_key_def key_eq_def)

lemma the_key_plain:
  "orderable rt (map asc_item group_by) R \<Longrightarrow> r \<in> R \<Longrightarrow> list_all (\<lambda>v. \<not> is_nan v) (the_key rt group_by r)"
  by (auto simp: the_key_def list_all_iff orderable_def asc_item_def one_kind_def)

lemma orderable_plain_keys: "orderable rt (map asc_item group_by) R \<Longrightarrow> plain_keys rt group_by R"
  using row_key_the_key the_key_plain by (fastforce simp: plain_keys_def)

text \<open>Keys of which equal ones are adjacent.\<close>

definition together :: "group_key list \<Rightarrow> bool" where
  "together ks \<longleftrightarrow> (\<forall>xs y zs. ks = xs @ y # zs \<longrightarrow>
     (\<forall>a \<in> set xs. \<forall>c \<in> set zs. key_eq a c \<longrightarrow> key_eq a y))"

lemma together_sorted:
  assumes "orderable rt (map asc_item group_by) R" and "set rows \<subseteq> R"
    and "sorted (row_cmp rt (map asc_item group_by)) rows"
  shows "together (map (the_key rt group_by) rows)"
  unfolding together_def
proof (intro allI impI ballI)
  let ?cmp = "row_cmp rt (map asc_item group_by)"
  fix xs y zs a c
  assume split: "map (the_key rt group_by) rows = xs @ y # zs"
    and a: "a \<in> set xs" and c: "c \<in> set zs" and eq: "key_eq a c"
  from split obtain us v ws where rows: "rows = us @ v # ws" and xs: "xs = map (the_key rt group_by) us"
    and y: "y = the_key rt group_by v" and zs: "zs = map (the_key rt group_by) ws"
    unfolding map_eq_append_conv map_eq_Cons_conv by blast
  obtain l where l: "l \<in> set us" "a = the_key rt group_by l" using a xs by auto
  obtain r where r: "r \<in> set ws" "c = the_key rt group_by r" using c zs by auto
  have R: "l \<in> R" "v \<in> R" "r \<in> R" using rows l r assms(2) by auto
  have "compare ?cmp l v \<noteq> Greater" and "compare ?cmp v r \<noteq> Greater"
    using assms(3) l r unfolding rows by (auto simp: sorted_append_iff dest: sorted_Cons_imp_not_less)
  moreover have "compare ?cmp l r = Equiv"
    using rows_equiv [OF assms(1) R(1,3)] eq l r by simp
  ultimately have "compare ?cmp l v = Equiv"
    by (metis (full_types) comp.exhaust compare.greater_iff_sym_less compare.trans_less_equiv
        compare.trans_equiv_less compare.sym)
  then show "key_eq a y" using rows_equiv [OF assms(1) R(1,2)] l y by simp
qed

section \<open>Groups do not depend on the order of the rows\<close>

lemma rows_with_map: "rows_with k (zip (map f rows) rows) = filter (\<lambda>r. key_eq k (f r)) rows"
  by (induction rows) (auto simp: rows_with_def)

lemma first_keys_distinct: "\<forall>k \<in> set ks. key_eq k k \<Longrightarrow> distinct (first_keys ks)"
proof -
  assume refl: "\<forall>k \<in> set ks. key_eq k k"
  have "set (first_keys ks) \<subseteq> set ks"
    by (induction ks rule: rev_induct) (auto simp: first_keys_snoc add_key_def first_keys_def)
  then show ?thesis
    using keys_apart_first [of ks] refl unfolding keys_apart_def distinct_conv_nth sorted_wrt_iff_nth_less
    by (metis linorder_neqE_nat nth_mem subsetD)
qed

lemma first_keys_hd:
  "\<forall>k \<in> set ks. key_eq k k \<Longrightarrow> k \<in> set (first_keys ks) \<longleftrightarrow> k \<in> set ks \<and> hd (filter (key_eq k) ks) = k"
proof (induction ks rule: rev_induct)
  case (snoc x ks)
  then have IH: "k \<in> set (first_keys ks) \<longleftrightarrow> k \<in> set ks \<and> hd (filter (key_eq k) ks) = k"
    and refl: "\<forall>k \<in> set ks. key_eq k k" "key_eq x x" by simp_all
  show ?case
  proof (cases "\<exists>k' \<in> set ks. key_eq k' x")
    case True
    then obtain k' where k': "k' \<in> set ks" "key_eq k' x" by blast
    with first_keys_cover [of k' ks] refl obtain k'' where "k'' \<in> set (first_keys ks)" "key_eq k'' x"
      using key_eq_trans by blast
    then have "first_keys (ks @ [x]) = first_keys ks"
      by (auto simp: first_keys_snoc add_key_def list_ex_iff)
    moreover have "hd (filter (key_eq k) (ks @ [x])) = hd (filter (key_eq k) ks)" if "k \<in> set ks"
      using refl that by (auto simp: filter_empty_conv hd_append)
    moreover have "hd (filter (key_eq k) (ks @ [x])) = k \<Longrightarrow> k \<in> set ks" if "k = x"
    proof -
      assume "hd (filter (key_eq k) (ks @ [x])) = k"
      moreover have "filter (key_eq k) ks \<noteq> []"
        using k' that key_eq_sym by (auto simp: filter_empty_conv)
      ultimately have "k \<in> set (filter (key_eq k) ks)" by (metis hd_append hd_in_set filter_append)
      then show "k \<in> set ks" by simp
    qed
    ultimately show ?thesis using IH by auto
  next
    case False
    then have new: "\<not> key_eq k' x" if "k' \<in> set ks" for k' using that by blast
    have "set (first_keys ks) \<subseteq> set ks"
      by (induction ks rule: rev_induct) (auto simp: first_keys_snoc add_key_def first_keys_def)
    then have "first_keys (ks @ [x]) = first_keys ks @ [x]"
      using new by (auto simp: first_keys_snoc add_key_def list_ex_iff)
    moreover have "filter (key_eq x) ks = []" using new key_eq_sym by (auto simp: filter_empty_conv)
    moreover have "hd (filter (key_eq k) (ks @ [x])) = hd (filter (key_eq k) ks)" if "k \<in> set ks"
      using refl that by (auto simp: filter_empty_conv hd_append)
    ultimately show ?thesis using IH refl(2) by auto
  qed
qed (simp add: first_keys_def)

lemma mapR_mapR: "bindR (mapR g ks) (mapR h) = Inr ys \<longleftrightarrow> mapR (\<lambda>k. bindR (g k) h) ks = Inr ys"
proof (induction ks arbitrary: ys)
  case (Cons k ks)
  show ?case
  proof (cases "mapR g ks")
    case (Inl e)
    then show ?thesis using Cons.IH by (cases "g k") (simp_all add: bindR_eq_Inr)
  next
    case (Inr vs)
    then show ?thesis using Cons.IH by (cases "g k") (simp_all add: bindR_eq_Inr)
  qed
qed simp

lemma mapR_mset:
  "mapR f xs = Inr us \<Longrightarrow> mset ys = mset xs \<Longrightarrow> \<exists>vs. mapR f ys = Inr vs \<and> mset vs = mset us"
proof -
  assume xs: "mapR f xs = Inr us" and m: "mset ys = mset xs"
  define g where "g x = (case f x of Inr v \<Rightarrow> v | Inl _ \<Rightarrow> undefined)" for x
  have "\<forall>x \<in> set xs. \<exists>v. f x = Inr v"
    using xs by (induction xs arbitrary: us) (auto simp: bindR_eq_Inr)
  then have f: "f x = Inr (g x)" if "x \<in> set xs" for x using that by (force simp: g_def)
  have "us = map g xs" using mapR_total [of xs f g] f xs by simp
  moreover have "mapR f ys = Inr (map g ys)"
    using f mset_eq_setD [OF m] by (intro mapR_total) auto
  ultimately show ?thesis using m by auto
qed

lemma aggregate_rows_sorted:
  assumes ord: "orderable rt (map asc_item group_by) (set rows)" and "group_by \<noteq> []"
    and "aggregate_rows rt columns group_by aggs (sort (row_cmp rt (map asc_item group_by)) rows) = Inr outs"
  shows "\<exists>outs'. aggregate_rows rt columns group_by aggs rows = Inr outs' \<and> mset outs' = mset outs"
proof -
  let ?cmp = "row_cmp rt (map asc_item group_by)" and ?f = "the_key rt group_by"
  let ?sorted = "sort ?cmp rows"
  have keys: "mapR (row_key rt group_by) rs = Inr (map ?f rs)" if "set rs \<subseteq> set rows" for rs
    using row_key_the_key [OF ord] that by (intro mapR_total) auto
  have same: "filter (\<lambda>r. key_eq (?f x) (?f r)) ?sorted = filter (\<lambda>r. key_eq (?f x) (?f r)) rows"
    if "x \<in> set rows" for x
  proof -
    have "filter (\<lambda>r. key_eq (?f x) (?f r)) rs = filter (\<lambda>r. compare ?cmp x r = Equiv) rs" if "set rs \<subseteq> set rows" for rs
      using rows_equiv [OF ord \<open>x \<in> set rows\<close>] that by (intro filter_cong) auto
    then show ?thesis by (simp add: stable_sort)
  qed
  have refl: "\<forall>k \<in> set (map ?f rs). key_eq k k" if "set rs \<subseteq> set rows" for rs
    using the_key_plain [OF ord] that by (auto intro: key_eq_refl)
  have "k \<in> set (first_keys (map ?f ?sorted)) \<longleftrightarrow> k \<in> set (first_keys (map ?f rows))" for k
  proof -
    have "filter (key_eq k) (map ?f ?sorted) = filter (key_eq k) (map ?f rows)" if "k \<in> ?f ` set rows"
      using that same by (auto simp: filter_map comp_def)
    then show ?thesis
      using refl [of rows] refl [of ?sorted] by (subst (1 2) first_keys_hd) auto
  qed
  then have ks: "mset (first_keys (map ?f rows)) = mset (first_keys (map ?f ?sorted))"
    using first_keys_distinct [OF refl] by (intro iffD1 [OF set_eq_iff_mset_eq_distinct]) auto
  let ?of = "\<lambda>rs k. bindR (group_of rt aggs (zip (map ?f rs) rs) k) (group_output rt columns group_by aggs)"
  have sub: "set ?sorted \<subseteq> set rows" by simp
  have rows_of: "aggregate_rows rt columns group_by aggs rs = Inr x \<longleftrightarrow> mapR (?of rs) (first_keys (map ?f rs)) = Inr x"
    if "set rs \<subseteq> set rows" for rs x
    using keys [OF that] assms(2)
    by (simp add: aggregate_rows_def groups_for_def map_fst_zip mapR_mapR)
  have "mapR (?of ?sorted) (first_keys (map ?f ?sorted)) = Inr outs"
    using rows_of [OF sub] assms(3) by blast
  from mapR_mset [OF this ks] obtain outs' where
    outs': "mapR (?of ?sorted) (first_keys (map ?f rows)) = Inr outs'" "mset outs' = mset outs" by blast
  have "mapR (?of ?sorted) (first_keys (map ?f rows)) = mapR (?of rows) (first_keys (map ?f rows))"
  proof (rule mapR_cong)
    fix k assume "k \<in> set (first_keys (map ?f rows))"
    then obtain x where "x \<in> set rows" "k = ?f x"
      using refl [of rows] by (auto simp: first_keys_hd)
    then show "?of ?sorted k = ?of rows k"
      using same by (simp add: group_of_def rows_with_map)
  qed simp
  with outs'(1) have "mapR (?of rows) (first_keys (map ?f rows)) = Inr outs'" by simp
  then show ?thesis using rows_of [OF order_refl] outs'(2) by blast
qed

section \<open>One group at a time\<close>

text \<open>
  The groups closed so far and the current one: their states are folds over rows of \<open>R\<close>, and if
  equal keys are adjacent they are the groups of the rows seen.
\<close>

definition folded :: "py_runtime \<Rightarrow> named_expression list \<Rightarrow> row set \<Rightarrow> group_key \<times> agg_state list \<Rightarrow> bool" where
  "folded rt aggs R g \<longleftrightarrow> (\<exists>rs. set rs \<subseteq> R \<and> mapR (agg_fold rt rs) aggs = Inr (snd g))"

definition streamed ::
    "py_runtime \<Rightarrow> expr list \<Rightarrow> named_expression list \<Rightarrow> row set \<Rightarrow> row list \<Rightarrow> groups
     \<Rightarrow> (group_key \<times> agg_state list) option \<Rightarrow> bool" where
  "streamed rt group_by aggs R seen ended cur \<longleftrightarrow>
     (\<exists>keys. mapR (row_key rt group_by) seen = Inr keys \<and> set seen \<subseteq> R
       \<and> (\<forall>g \<in> set_option cur. folded rt aggs R g)
       \<and> (cur = None \<longleftrightarrow> seen = []) \<and> (cur = None \<longrightarrow> ended = [])
       \<and> (together keys \<longrightarrow> groups_for rt group_by aggs (zip keys seen) = Inr (ended @ (case cur of None \<Rightarrow> [] | Some g \<Rightarrow> [g]))
            \<and> (\<forall>g \<in> set_option cur. key_eq (fst g) (last keys))))"

lemma folded_new:
  assumes "mapR (\<lambda>st. agg_add rt st row) (map (\<lambda>item. new_state (ne_expression item)) aggs) = Inr sts" and "row \<in> R"
  shows "folded rt aggs R (k, sts)"
proof -
  have "mapR (agg_fold rt []) aggs = Inr (map (\<lambda>item. new_state (ne_expression item)) aggs)"
    by (rule mapR_total) (simp add: agg_fold_def)
  from mapR_fold_snoc [OF this assms(1)] assms(2) show ?thesis
    by (auto simp: folded_def intro!: exI [of _ "[row]"])
qed

lemma folded_add:
  assumes "folded rt aggs R g" and "mapR (\<lambda>st. agg_add rt st row) (snd g) = Inr sts" and "row \<in> R"
  shows "folded rt aggs R (fst g, sts)"
proof -
  obtain rs where "set rs \<subseteq> R" "mapR (agg_fold rt rs) aggs = Inr (snd g)"
    using assms(1) by (auto simp: folded_def)
  with mapR_fold_snoc [OF this(2) assms(2)] assms(3) show ?thesis
    by (auto simp: folded_def intro!: exI [of _ "rs @ [row]"])
qed

lemma folded_state:
  assumes "folded rt aggs R g" and "st \<in> set (snd g)"
  obtains rs item where "set rs \<subseteq> R" "item \<in> set aggs" "agg_fold rt rs item = Inr st"
proof -
  obtain rs where rs: "set rs \<subseteq> R" "mapR (agg_fold rt rs) aggs = Inr (snd g)"
    using assms(1) by (auto simp: folded_def)
  then obtain item where "item \<in> set aggs" "agg_fold rt rs item = Inr st"
    using assms(2) unfolding mapR_Inr_iff list_all2_conv_all_nth in_set_conv_nth by metis
  with rs(1) show thesis by (rule that)
qed

lemma folded_output_error:
  assumes "folded rt aggs R g" and "agg_errors rt group_by aggs R E"
    and "group_output rt columns group_by aggs g = Inl e"
  shows "E e"
proof -
  obtain st where "st \<in> set (snd g)" "agg_finish rt st = Inl e"
    using assms(3) mapR_error [of "agg_finish rt" "snd g" e] by (auto simp: group_output_def bindR_eq_Inl)
  moreover obtain rs item where "set rs \<subseteq> R" "item \<in> set aggs" "agg_fold rt rs item = Inr st"
    using folded_state [OF assms(1) calculation(1)] by blast
  ultimately show "E e" using assms(2) by (auto simp: agg_errors_def)
qed

lemma folded_add_error:
  assumes "folded rt aggs R g" and "agg_errors rt group_by aggs R E" and "row \<in> R"
    and "mapR (\<lambda>st. agg_add rt st row) (snd g) = Inl e"
  shows "E e"
proof -
  obtain st where "st \<in> set (snd g)" "agg_add rt st row = Inl e"
    using mapR_error [OF assms(4)] by blast
  moreover obtain rs item where rs: "set rs \<subseteq> R" "item \<in> set aggs" "agg_fold rt rs item = Inr st"
    using folded_state [OF assms(1) calculation(1)] by blast
  ultimately have "agg_fold rt (rs @ [row]) item = Inl e"
    by (simp add: agg_fold_def foldR_append)
  moreover have "set (rs @ [row]) \<subseteq> R" using rs(1) assms(3) by simp
  ultimately show "E e" using assms(2) rs(2) unfolding agg_errors_def by (metis bindR_simps(1))
qed

lemma folded_fresh: "folded rt aggs R (k, map (\<lambda>item. new_state (ne_expression item)) aggs)"
proof -
  have "mapR (agg_fold rt []) aggs = Inr (map (\<lambda>item. new_state (ne_expression item)) aggs)"
    by (rule mapR_total) (simp add: agg_fold_def)
  then show ?thesis by (auto simp: folded_def intro!: exI [of _ "[]"])
qed

lemma group_update_append:
  "\<forall>g \<in> set ended. \<not> key_eq (fst g) k \<Longrightarrow>
     group_update k fresh f (ended @ gs) = bindR (group_update k fresh f gs) (\<lambda>gs'. Inr (ended @ gs'))"
  by (induction ended) (auto simp: bindR_assoc)

lemma together_prefix: "together (ks @ [k]) \<Longrightarrow> together ks"
  unfolding together_def
proof (intro allI impI ballI)
  fix xs y zs a c
  assume all: "\<forall>xs y zs. ks @ [k] = xs @ y # zs \<longrightarrow> (\<forall>a \<in> set xs. \<forall>c \<in> set zs. key_eq a c \<longrightarrow> key_eq a y)"
    and "ks = xs @ y # zs" and "a \<in> set xs" and "c \<in> set zs" and "key_eq a c"
  then have "ks @ [k] = xs @ y # (zs @ [k])" and "c \<in> set (zs @ [k])" by simp_all
  with all \<open>a \<in> set xs\<close> \<open>key_eq a c\<close> show "key_eq a y" by blast
qed

lemma groups_for_keys:
  assumes "groups_for rt group_by aggs krs = Inr gs" and "group_by \<noteq> []"
  shows "map fst gs = first_keys (map fst krs)"
proof -
  have "mapR (group_of rt aggs krs) ks = Inr gs \<Longrightarrow> map fst gs = ks" for ks
    by (induction ks arbitrary: gs) (auto simp: bindR_eq_Inr group_of_fst dest: group_of_fst)
  then show ?thesis using assms by (simp add: groups_for_def)
qed

text \<open>The closed groups do not have the key of the next row.\<close>

lemma closed_apart:
  assumes gs: "groups_for rt group_by aggs (zip keys seen) = Inr (ended @ [g])" and "group_by \<noteq> []"
    and len: "length keys = length seen" and last: "key_eq (fst g) (last keys)" and tog: "together (keys @ [k])"
    and "h \<in> set ended"
  shows "\<not> key_eq (fst h) k"
proof
  assume eq: "key_eq (fst h) k"
  have ks: "map fst ended @ [fst g] = first_keys keys"
    using groups_for_keys [OF gs assms(2)] len by (simp add: map_fst_zip)
  have "set (first_keys ks) \<subseteq> set ks" for ks
    by (induction ks rule: rev_induct) (auto simp: first_keys_snoc add_key_def first_keys_def)
  then have "fst h \<in> set keys"
    using assms(6) ks by (metis (no_types, lifting) UnCI image_eqI list.set_map set_append subsetD)
  then have "keys = butlast keys @ [last keys]" and "fst h \<in> set (butlast keys) \<or> fst h = last keys"
    by (metis append_butlast_last_id empty_iff empty_set,
        metis append_butlast_last_id empty_iff empty_set Un_iff list.set(1) set_ConsD set_append)
  moreover have "key_eq (fst h) (last keys)" if "fst h \<in> set (butlast keys)"
    using tog calculation(1) that eq unfolding together_def
    by (metis append.assoc append_Cons append_Nil list.set_intros(1))
  ultimately have "key_eq (fst h) (fst g)"
    using last key_eq_sym key_eq_trans by metis
  moreover have "keys_apart (map fst ended @ [fst g])"
    unfolding ks by (rule keys_apart_first)
  ultimately show False
    using assms(6) by (auto simp: keys_apart_def sorted_wrt_append)
qed

lemma streamed_step:
  assumes st: "streamed rt group_by aggs R seen ended cur" and aggs: "all_aggregates aggs"
    and gb: "group_by \<noteq> []" and plain: "plain_keys rt group_by R" and row: "row \<in> R"
    and k: "row_key rt group_by row = Inr k"
    and step: "(case cur of
        Some g \<Rightarrow> if key_eq k (fst g) then g' = (fst g, sts) \<and> ended' = ended \<and> mapR (\<lambda>st. agg_add rt st row) (snd g) = Inr sts
          else g' = (k, sts) \<and> ended' = ended @ [g]
            \<and> mapR (\<lambda>st. agg_add rt st row) (map (\<lambda>item. new_state (ne_expression item)) aggs) = Inr sts
      | None \<Rightarrow> g' = (k, sts) \<and> ended' = []
            \<and> mapR (\<lambda>st. agg_add rt st row) (map (\<lambda>item. new_state (ne_expression item)) aggs) = Inr sts)"
  shows "streamed rt group_by aggs R (seen @ [row]) ended' (Some g')"
proof -
  let ?fresh = "map (\<lambda>item. new_state (ne_expression item)) aggs"
  let ?cur = "case cur of None \<Rightarrow> [] | Some g \<Rightarrow> [g]"
  obtain keys where keys: "mapR (row_key rt group_by) seen = Inr keys" and R: "set seen \<subseteq> R"
    and fold: "\<And>g. cur = Some g \<Longrightarrow> folded rt aggs R g"
    and none: "cur = None \<longleftrightarrow> seen = []" "cur = None \<Longrightarrow> ended = []"
    and tog: "together keys \<Longrightarrow> groups_for rt group_by aggs (zip keys seen) = Inr (ended @ ?cur)
      \<and> (\<forall>g \<in> set_option cur. key_eq (fst g) (last keys))"
    using st by (auto simp: streamed_def)
  have len: "length keys = length seen" using keys by (rule mapR_length)
  have refl: "key_eq k k" using plain k row by (auto simp: plain_keys_def intro: key_eq_refl)
  have fold': "folded rt aggs R g'"
    using step fold folded_new [of rt row aggs sts R k] folded_add [of rt aggs R _ row sts] row
    by (auto split: option.splits if_splits)
  have fst: "key_eq (fst g') k"
    using step refl key_eq_sym by (auto split: option.splits if_splits)
  have "groups_for rt group_by aggs (zip (keys @ [k]) (seen @ [row])) = Inr (ended' @ [g'])"
    if "together (keys @ [k])"
  proof -
    note prev = tog [OF together_prefix [OF that]]
    have "groups_seen rt group_by aggs seen (ended @ ?cur)"
      using keys prev by (auto simp: groups_seen_def)
    moreover have "group_row rt group_by (new_states aggs) (ended @ ?cur) row = Inr (ended' @ [g'])"
    proof (cases cur)
      case None
      then show ?thesis
        using step none(2) k aggs by (auto simp: group_row_def new_states_ok)
    next
      case (Some g)
      then have "\<forall>h \<in> set ended. \<not> key_eq (fst h) k"
        using closed_apart [of rt group_by aggs keys seen ended g k] prev gb len that by auto
      then show ?thesis
        using Some step k aggs key_eq_sym
        by (cases g) (auto simp: group_row_def new_states_ok group_update_append split: if_splits)
    qed
    moreover have "agg_errors rt group_by aggs R (\<lambda>_. True)" by (simp add: agg_errors_def)
    ultimately have "groups_seen rt group_by aggs (seen @ [row]) (ended' @ [g'])"
      using group_row_step [OF _ aggs plain, of seen "ended @ ?cur" row] R row by fastforce
    then show ?thesis using keys k by (auto simp: groups_seen_def mapR_append)
  qed
  then show ?thesis
    using keys k R row fold' fst by (auto simp: streamed_def mapR_append)
qed

context execution_context
begin

lemma wp_close_group:
  assumes "folded (rt_of ev) aggs R g" and "agg_errors (rt_of ev) group_by aggs R err"
    and conv: "conversion_ok ev s" "\<And>r e. ev_conform ev s r = Inl e \<Longrightarrow> err e"
    and post: "\<And>r os written left. group_output (rt_of ev) [] group_by aggs g = Inr r \<Longrightarrow>
      output @ [r] = written @ left \<Longrightarrow> conformed ev s written (rows_of os) \<Longrightarrow> Q os left"
  shows "wp inv (batch_ok ev s) (close_group ev op group_by aggs s g output) Q err"
proof (cases "group_output (rt_of ev) [] group_by aggs g")
  case (Inl e)
  then show ?thesis
    using folded_output_error [OF assms(1,2) Inl] by (simp add: close_group_def lift_def)
next
  case (Inr r)
  have "wp inv (batch_ok ev s) (emit_rows ev op s (output @ [r])) (\<lambda>os _. Q os []) err"
    using conv post [OF Inr] by (intro wp_emit_rows) auto
  moreover have "Q [] (output @ [r])" using post [OF Inr, of "[]" "output @ [r]" "[]"] by simp
  ultimately show ?thesis using Inr by (auto simp: close_group_def lift_def)
qed

lemma wp_stream_row:
  assumes st: "streamed (rt_of ev) group_by aggs R seen ended cur" and row: "row \<in> R"
    and outs: "mapR (group_output (rt_of ev) [] group_by aggs) ended = Inr (outs @ output)"
    and aggs: "all_aggregates aggs" and gb: "group_by \<noteq> []" and plain: "plain_keys (rt_of ev) group_by R"
    and errs: "agg_errors (rt_of ev) group_by aggs R err"
    and conv: "conversion_ok ev s" "\<And>r e. ev_conform ev s r = Inl e \<Longrightarrow> err e"
    and post: "\<And>ended' g' written left os. streamed (rt_of ev) group_by aggs R (seen @ [row]) ended' (Some g') \<Longrightarrow>
      mapR (group_output (rt_of ev) [] group_by aggs) ended' = Inr ((outs @ written) @ left) \<Longrightarrow>
      conformed ev s written (rows_of os) \<Longrightarrow> Q os (Some g', left)"
  shows "wp inv (batch_ok ev s) (stream_row ev op group_by aggs s (cur, output) row) Q err"
proof (cases "row_key (rt_of ev) group_by row")
  case (Inl e)
  then have "err e" using errs row by (auto simp: agg_errors_def)
  then show ?thesis using Inl by (simp add: stream_row_def lift_def wp_check_cancelled)
next
  case (Inr k)
  let ?fresh = "map (\<lambda>item. new_state (ne_expression item)) aggs"
  note step = streamed_step [OF st aggs gb plain row Inr]
  have folded: "folded (rt_of ev) aggs R g" if "cur = Some g" for g
    using st that by (auto simp: streamed_def)
  have none: "cur = None \<Longrightarrow> ended = []" using st by (auto simp: streamed_def)
  have new: "wp inv (batch_ok ev s) (bindG (lift (mapR (\<lambda>st. agg_add (rt_of ev) st row) ?fresh))
      (\<lambda>sts. Ret (Some (k, sts), left))) (\<lambda>bs. Q (os @ bs)) err"
    if g: "cur = None \<and> ended' = [] \<or> (\<exists>g. cur = Some g \<and> \<not> key_eq k (fst g) \<and> ended' = ended @ [g])"
      and out: "mapR (group_output (rt_of ev) [] group_by aggs) ended' = Inr ((outs @ written) @ left)"
      and "conformed ev s written (rows_of os)" for ended' written left os
  proof (cases "mapR (\<lambda>st. agg_add (rt_of ev) st row) ?fresh")
    case (Inl e)
    then have "err e" using folded_add_error [OF folded_fresh errs row, of k e] by simp
    then show ?thesis using Inl by (simp add: lift_def)
  next
    case (Inr sts)
    then have "streamed (rt_of ev) group_by aggs R (seen @ [row]) ended' (Some (k, sts))"
      using g by (intro step [of _ sts]) auto
    from post [OF this out that(3)] Inr show ?thesis by (simp add: lift_def)
  qed
  have "wp inv (batch_ok ev s) (bindG (case cur of
         None \<Rightarrow> Ret (None, output)
       | Some g \<Rightarrow> if key_eq k (fst g) then Ret (Some g, output)
           else bindG (close_group ev op group_by aggs s g output) (\<lambda>output. Ret (None, output)))
       (\<lambda>(cur, output).
     bindG (case cur of
         None \<Rightarrow> bindG (lift (new_states aggs)) (\<lambda>states. Ret (k, states))
       | Some g \<Rightarrow> Ret g) (\<lambda>(ck, states).
     bindG (lift (mapR (\<lambda>st. agg_add (rt_of ev) st row) states)) (\<lambda>states.
       Ret (Some (ck, states), output))))) Q err"
  proof (cases cur)
    case None
    then have "outs = []" "output = []" using none outs by simp_all
    then show ?thesis
      using None new [of "[]" "[]" "[]" "[]"] by (simp add: new_states_ok [OF aggs] lift_def)
  next
    case (Some g)
    show ?thesis
    proof (cases "key_eq k (fst g)")
      case True
      show ?thesis
      proof (cases "mapR (\<lambda>st. agg_add (rt_of ev) st row) (snd g)")
        case (Inl e)
        then have "err e" using folded_add_error [OF folded [OF Some] errs row] by simp
        then show ?thesis using Some True Inl by (simp add: lift_def split_beta)
      next
        case (Inr sts)
        then have "streamed (rt_of ev) group_by aggs R (seen @ [row]) ended (Some (fst g, sts))"
          using Some True by (intro step [of _ sts]) auto
        moreover have "mapR (group_output (rt_of ev) [] group_by aggs) ended = Inr ((outs @ []) @ output)"
          using outs by simp
        ultimately have "Q [] (Some (fst g, sts), output)" by (rule post) simp
        then show ?thesis using Some True Inr by (simp add: lift_def split_beta)
      qed
    next
      case False
      have "wp inv (batch_ok ev s) (close_group ev op group_by aggs s g output)
          (\<lambda>os left. wp inv (batch_ok ev s) (bindG (lift (mapR (\<lambda>st. agg_add (rt_of ev) st row) ?fresh))
              (\<lambda>sts. Ret (Some (k, sts), left))) (\<lambda>bs. Q (os @ bs)) err) err"
      proof (rule wp_close_group [OF folded [OF Some] errs conv])
        fix r os written left
        assume "group_output (rt_of ev) [] group_by aggs g = Inr r" and "output @ [r] = written @ left"
          and "conformed ev s written (rows_of os)"
        moreover from this have "mapR (group_output (rt_of ev) [] group_by aggs) (ended @ [g])
            = Inr ((outs @ written) @ left)"
          using outs by (simp add: mapR_append)
        ultimately show "wp inv (batch_ok ev s) (bindG (lift (mapR (\<lambda>st. agg_add (rt_of ev) st row) ?fresh))
              (\<lambda>sts. Ret (Some (k, sts), left))) (\<lambda>bs. Q (os @ bs)) err"
          using Some False by (intro new [of "ended @ [g]" written]) auto
      qed
      then show ?thesis using Some False by (simp add: new_states_ok [OF aggs] lift_def)
    qed
  qed
  then show ?thesis
    unfolding stream_row_def prod.case Inr bind_lift by (rule wp_checked)
qed

lemma wp_sort_aggregate_op:
  assumes input: "wp inv (\<lambda>b. batch_ok ev s b \<and> set (bt_rows b) \<subseteq> R) input (\<lambda>bs _. P (rows_of bs)) err"
    and ord: "orderable (rt_of ev) (map asc_item group_by) R" and gb: "group_by \<noteq> []"
    and aggs: "all_aggregates aggs" and errs: "agg_errors (rt_of ev) group_by aggs R err"
    and conv: "conversion_ok ev out" "\<And>r e. ev_conform ev out r = Inl e \<Longrightarrow> err e"
  shows "wp inv (batch_ok ev out) (sort_aggregate_op ev op frame group_by aggs s out input)
    (\<lambda>bs _. \<exists>rows outs. P rows \<and> set rows \<subseteq> R
       \<and> aggregate_rows (rt_of ev) [] group_by aggs (sort (row_cmp (rt_of ev) (map asc_item group_by)) rows) = Inr outs
       \<and> conformed ev out outs (rows_of bs)) err"
proof -
  have srt: "row_sorter inv err ev (in_memory_sort ev)"
    by (rule in_memory_sorter) (rule execution_context_axioms)
  let ?cmp = "row_cmp (rt_of ev) (map asc_item group_by)" and ?rt = "rt_of ev"
  let ?sorted = "external_sorted_rows ev (in_memory_sort ev) op frame s (map asc_item group_by) ''sort_aggregate'' input"
  have plain: "plain_keys ?rt group_by R" using ord by (rule orderable_plain_keys)
  let ?in = "\<lambda>rows. P rows \<and> set rows \<subseteq> R"
  let ?P = "\<lambda>rs. \<exists>rows. ?in rows \<and> rs = sort ?cmp rows"
  have input': "wp inv (\<lambda>b. batch_ok ev s b \<and> set (bt_rows b) \<subseteq> R) input (\<lambda>bs _. ?in (rows_of bs)) err"
  proof (rule wp_yielded, rule wp_mono [OF input])
    fix bs and u :: unit
    assume "P (rows_of bs)"
    then show "list_all (\<lambda>b. batch_ok ev s b \<and> set (bt_rows b) \<subseteq> R) bs \<longrightarrow> ?in (rows_of bs)"
      by (auto simp: rows_of_def list_all_iff)
  qed
  have rows: "wp inv (\<lambda>r. r \<in> R) ?sorted (\<lambda>rs _. ?P rs) err"
    by (rule row_sorter.wp_external_sorted_rows [OF srt input' ord]) auto
  let ?J = "\<lambda>seen (cur, buf) as. \<exists>ended outs. streamed ?rt group_by aggs R seen ended cur
    \<and> mapR (group_output ?rt [] group_by aggs) ended = Inr (outs @ buf) \<and> conformed ev out outs (rows_of as)"
  let ?finish = "\<lambda>(cur, buf). case cur of
      None \<Rightarrow> emit_rows ev op out buf
    | Some g \<Rightarrow> bindG (lift (group_output ?rt [] group_by aggs g)) (\<lambda>r. emit_rows ev op out (buf @ [r]))"
  let ?Q = "\<lambda>bs. \<exists>rows outs. P rows \<and> set rows \<subseteq> R \<and> aggregate_rows ?rt [] group_by aggs (sort ?cmp rows) = Inr outs
       \<and> conformed ev out outs (rows_of bs)"
  have finish: "wp inv (batch_ok ev out) (?finish st) (\<lambda>bs _. ?Q (as @ bs)) err"
    if J: "?J rs st as" and P: "?P rs" for rs st as
  proof -
    obtain cur buf where st: "st = (cur, buf)" by fastforce
    obtain ended outs where str: "streamed ?rt group_by aggs R rs ended cur"
      and outs: "mapR (group_output ?rt [] group_by aggs) ended = Inr (outs @ buf)"
      and conf: "conformed ev out outs (rows_of as)" using J st by auto
    obtain rows where "?in rows" and rs: "rs = sort ?cmp rows" using P by blast
    obtain keys where keys: "mapR (row_key ?rt group_by) rs = Inr keys"
      and R: "set rs \<subseteq> R" and none: "cur = None \<longleftrightarrow> rs = []" "cur = None \<Longrightarrow> ended = []"
      and tog: "together keys \<Longrightarrow> groups_for ?rt group_by aggs (zip keys rs) = Inr (ended @ (case cur of None \<Rightarrow> [] | Some g \<Rightarrow> [g]))"
      using str by (auto simp: streamed_def)
    have "mapR (row_key ?rt group_by) rs = Inr (map (the_key ?rt group_by) rs)"
      using row_key_the_key [OF ord] R by (intro mapR_total) auto
    then have "keys = map (the_key ?rt group_by) rs" using keys by simp
    then have "together keys" using together_sorted [OF ord R] rs by simp
    then have gs: "groups_seen ?rt group_by aggs rs (ended @ (case cur of None \<Rightarrow> [] | Some g \<Rightarrow> [g]))"
      using tog keys by (auto simp: groups_seen_def)
    have ready: "?Q (as @ bs)" if "mapR (group_output ?rt [] group_by aggs) (ended @ (case cur of None \<Rightarrow> [] | Some g \<Rightarrow> [g]))
        = Inr (outs @ more)" and "conformed ev out more (rows_of bs)" for bs more
      using groups_seen_rows [OF gs that(1)] \<open>?in rows\<close> conformed_append [OF conf that(2)] rs by auto
    show ?thesis
    proof (cases cur)
      case None
      then show ?thesis
        using st conv ready outs by (auto intro!: wp_emit_rows)
    next
      case (Some g)
      then have g: "folded ?rt aggs R g" using str by (auto simp: streamed_def)
      show ?thesis
      proof (cases "group_output ?rt [] group_by aggs g")
        case (Inl e)
        then show ?thesis using st Some folded_output_error [OF g errs Inl] by simp
      next
        case (Inr r)
        then have "mapR (group_output ?rt [] group_by aggs) (ended @ [g]) = Inr (outs @ buf @ [r])"
          using outs by (simp add: mapR_append)
        then show ?thesis
          using st Some Inr conv ready [of "buf @ [r]"] by (auto intro!: wp_emit_rows)
      qed
    qed
  qed
  have "wp inv (batch_ok ev out) (for_each ?sorted (None, []) (stream_row ev op group_by aggs out))
      (\<lambda>as st. wp inv (batch_ok ev out) (?finish st) (\<lambda>bs _. ?Q (as @ bs)) err) err"
  proof (rule wp_for_each [OF rows, where J = ?J])
    show "?J [] (None, []) []"
      using gb by (auto simp: streamed_def groups_for_def first_keys_def)
  next
    fix seen st as r
    assume J: "?J seen st as" and r: "r \<in> R"
    obtain cur buf where st: "st = (cur, buf)" by fastforce
    obtain ended outs where str: "streamed ?rt group_by aggs R seen ended cur"
      and outs: "mapR (group_output ?rt [] group_by aggs) ended = Inr (outs @ buf)"
      and conf: "conformed ev out outs (rows_of as)" using J st by auto
    show "wp inv (batch_ok ev out) (stream_row ev op group_by aggs out st r) (\<lambda>os st'. ?J (seen @ [r]) st' (as @ os)) err"
      unfolding st
    proof (rule wp_stream_row [OF str r outs aggs gb plain errs conv])
      fix ended' g' written left os
      assume "streamed ?rt group_by aggs R (seen @ [r]) ended' (Some g')"
        and "mapR (group_output ?rt [] group_by aggs) ended' = Inr ((outs @ written) @ left)"
        and "conformed ev out written (rows_of os)"
      then show "?J (seen @ [r]) (Some g', left) (as @ os)"
        using conformed_append [OF conf] by auto
    qed
  next
    fix rs st as
    assume "?J rs st as" and "?P rs"
    then show "wp inv (batch_ok ev out) (?finish st) (\<lambda>bs _. ?Q (as @ bs)) err" by (rule finish)
  qed
  then show ?thesis
    using gb by (simp add: sort_aggregate_op_def)
qed

end

end
