(* ===== verification/GroupingOps.thy ===== *)
theory GroupingOps
  imports SortAggregate
begin

text \<open>
  Grouping sets (\<open>GroupingSetsOperator\<close>) and the output schemas of aggregates: the input is
  buffered, aggregated once per grouping set, and the outputs follow each other.
\<close>

section \<open>The operator\<close>

text \<open>\<open>_unique_expressions\<close>: the first expression of every text, in order.\<close>

definition unique_expressions :: "py_runtime \<Rightarrow> expr list list \<Rightarrow> expr list" where
  "unique_expressions rt grouping_sets = map snd (fold (\<lambda>e d.
     if expr_sql rt e \<in> fst ` set d then d else d @ [(expr_sql rt e, e)]) (concat grouping_sets) [])"

definition collect_rows :: "string \<Rightarrow> unit batches \<Rightarrow> (ctx, 'a, row list) gen" where
  "collect_rows op input = for_each input [] (\<lambda>rows b.
     bindG check_cancelled (\<lambda>_. bindG (count_input op (length (bt_rows b))) (\<lambda>_.
       Ret (rows @ bt_rows b))))"

definition unchecked_states :: "named_expression list \<Rightarrow> agg_state list" where
  "unchecked_states aggs = map (\<lambda>item. new_state (ne_expression item)) aggs"

definition one_grouping_set ::
    "env \<Rightarrow> expr list \<Rightarrow> named_expression list \<Rightarrow> row list \<Rightarrow> row list \<Rightarrow> expr list \<Rightarrow> (ctx, batch, row list) gen" where
  "one_grouping_set ev columns aggs input_rows rows gset =
     bindG (for_list input_rows (if gset = [] then [([], unchecked_states aggs)] else []) (\<lambda>groups row.
       bindG check_cancelled (\<lambda>_. lift (group_row (rt_of ev) gset (Inr (unchecked_states aggs)) groups row))))
       (\<lambda>groups. bindG (lift (mapR (group_output (rt_of ev) columns gset aggs) groups)) (\<lambda>outs.
          Ret (rows @ outs)))"

definition grouping_sets_op ::
    "env \<Rightarrow> string \<Rightarrow> expr list list \<Rightarrow> named_expression list \<Rightarrow> schema \<Rightarrow> unit batches \<Rightarrow> unit batches" where
  "grouping_sets_op ev op gsets aggs s input =
     bindG (collect_rows op input) (\<lambda>input_rows.
     bindG (for_list gsets [] (one_grouping_set ev (unique_expressions (rt_of ev) gsets) aggs input_rows))
       (emit_rows ev op s))"

text \<open>\<open>arrow_schema_for_aggregate\<close>, \<open>arrow_schema_for_grouping_sets\<close> and \<open>arrow_schema_for_window\<close>.\<close>

definition sql_field :: "py_runtime \<Rightarrow> bool \<Rightarrow> expr \<Rightarrow> schema_field" where
  "sql_field rt null e = plain_field (expr_sql rt e) (ti_type (expr_type e)) (null \<or> ti_nullable (expr_type e))"

definition schema_for_aggregate :: "py_runtime \<Rightarrow> expr list \<Rightarrow> named_expression list \<Rightarrow> schema res" where
  "schema_for_aggregate rt group_by aggs =
     make_schema (map (sql_field rt False) group_by @ map (\<lambda>a. sql_field rt False (ne_expression a)) aggs) []"

definition schema_for_grouping_sets :: "py_runtime \<Rightarrow> expr list list \<Rightarrow> named_expression list \<Rightarrow> schema res" where
  "schema_for_grouping_sets rt gsets aggs =
     make_schema (map (sql_field rt True) (unique_expressions rt gsets)
       @ map (\<lambda>a. sql_field rt False (ne_expression a)) aggs) []"

definition schema_for_window :: "py_runtime \<Rightarrow> schema \<Rightarrow> named_expression list \<Rightarrow> schema" where
  "schema_for_window rt input items = input\<lparr>sc_fields := foldl (\<lambda>fs item.
     if expr_sql rt (ne_expression item) \<in> sf_name ` set fs then fs
     else fs @ [sql_field rt False (ne_expression item)]) (sc_fields input) items\<rparr>"

section \<open>What it delivers\<close>

context execution_context
begin

lemma wp_collect_rows:
  assumes "wp inv B input (\<lambda>bs _. P (rows_of bs)) err"
  shows "wp inv Y (collect_rows op input) (\<lambda>as rows. as = [] \<and> P rows) err"
  unfolding collect_rows_def
  by (rule wp_for_each [OF assms, where J = "\<lambda>bs rows as. as = [] \<and> rows = rows_of bs"])
    (auto intro!: wp_check_cancelled wp_count_input)

lemma wp_one_grouping_set:
  assumes aggs: "all_aggregates aggs" and plain: "plain_keys (rt_of ev) gset R"
    and errs: "agg_errors (rt_of ev) gset aggs R err" and R: "set input_rows \<subseteq> R"
    and post: "\<And>outs. aggregate_rows (rt_of ev) columns gset aggs input_rows = Inr outs \<Longrightarrow> Q [] (rows @ outs)"
  shows "wp inv Y (one_grouping_set ev columns aggs input_rows rows gset) Q err"
proof -
  let ?start = "if gset = [] then [([], unchecked_states aggs)] else []"
  have fresh: "new_states aggs = Inr (unchecked_states aggs)"
    using new_states_ok [OF aggs] by (simp add: unchecked_states_def)
  have start: "groups_seen (rt_of ev) gset aggs [] ?start"
    by (rule groups_seen_start [OF aggs]) (simp add: fresh)
  have "wp inv Y (for_list input_rows ?start (\<lambda>groups row. bindG check_cancelled (\<lambda>_.
      lift (group_row (rt_of ev) gset (Inr (unchecked_states aggs)) groups row))))
      (\<lambda>as groups. as = [] \<and> groups_seen (rt_of ev) gset aggs input_rows groups) err"
    unfolding fresh [symmetric] using R by (intro wp_group_rows [OF start aggs plain errs]) auto
  then show ?thesis
    unfolding one_grouping_set_def
  proof (rule wp_bindI)
    fix groups
    assume seen: "groups_seen (rt_of ev) gset aggs input_rows groups"
    show "wp inv Y (bindG (lift (mapR (group_output (rt_of ev) columns gset aggs) groups)) (\<lambda>outs.
        Ret (rows @ outs))) Q err"
    proof (cases "mapR (group_output (rt_of ev) columns gset aggs) groups")
      case (Inl e)
      then show ?thesis using group_output_error [OF seen errs R Inl] by simp
    next
      case (Inr outs)
      then show ?thesis using post groups_seen_rows [OF seen Inr] by simp
    qed
  qed
qed

lemma wp_grouping_sets_op:
  assumes input: "wp inv (\<lambda>b. batch_ok ev s b \<and> set (bt_rows b) \<subseteq> R) input (\<lambda>bs _. P (rows_of bs)) err"
    and aggs: "all_aggregates aggs"
    and sets: "\<And>gset. gset \<in> set gsets \<Longrightarrow> plain_keys (rt_of ev) gset R \<and> agg_errors (rt_of ev) gset aggs R err"
    and conv: "conversion_ok ev out" "\<And>r e. ev_conform ev out r = Inl e \<Longrightarrow> err e"
  shows "wp inv (batch_ok ev out) (grouping_sets_op ev op gsets aggs out input)
    (\<lambda>bs _. \<exists>rows outs. P rows
       \<and> mapR (\<lambda>g. aggregate_rows (rt_of ev) (unique_expressions (rt_of ev) gsets) g aggs rows) gsets = Inr outs
       \<and> conformed ev out (concat outs) (rows_of bs)) err"
proof -
  let ?columns = "unique_expressions (rt_of ev) gsets"
  let ?agg = "\<lambda>rows g. aggregate_rows (rt_of ev) ?columns g aggs rows"
  have "wp inv (\<lambda>b. batch_ok ev s b \<and> set (bt_rows b) \<subseteq> R) input
      (\<lambda>bs _. P (rows_of bs) \<and> set (rows_of bs) \<subseteq> R) err"
    by (rule wp_yielded, rule wp_mono [OF input]) (auto simp: rows_of_def list_all_iff)
  from wp_collect_rows [OF this] show ?thesis
    unfolding grouping_sets_op_def
  proof (rule wp_bindI)
    fix rows
    assume rows: "P rows \<and> set rows \<subseteq> R"
    have "wp inv (batch_ok ev out) (for_list gsets [] (one_grouping_set ev ?columns aggs rows))
        (\<lambda>as all. as = [] \<and> (\<exists>outs. mapR (?agg rows) gsets = Inr outs \<and> all = concat outs)) err"
    proof (rule wp_for_list_prefix [where J = "\<lambda>pre all as. as = []
          \<and> (\<exists>outs. mapR (?agg rows) pre = Inr outs \<and> all = concat outs)"])
      fix pre gset all and as :: "batch list"
      assume "set (pre @ [gset]) \<subseteq> set gsets"
        and J: "as = [] \<and> (\<exists>outs. mapR (?agg rows) pre = Inr outs \<and> all = concat outs)"
      then have gset: "plain_keys (rt_of ev) gset R" "agg_errors (rt_of ev) gset aggs R err"
        using sets by simp_all
      show "wp inv (batch_ok ev out) (one_grouping_set ev ?columns aggs rows all gset) (\<lambda>os all'. as @ os = []
          \<and> (\<exists>outs. mapR (?agg rows) (pre @ [gset]) = Inr outs \<and> all' = concat outs)) err"
        using J rows by (intro wp_one_grouping_set [OF aggs gset]) (auto simp: mapR_append)
    qed auto
    then show "wp inv (batch_ok ev out) (bindG (for_list gsets [] (one_grouping_set ev ?columns aggs rows))
        (emit_rows ev op out)) (\<lambda>bs _. \<exists>rows outs. P rows \<and> mapR (?agg rows) gsets = Inr outs
          \<and> conformed ev out (concat outs) (rows_of bs)) err"
    proof (rule wp_bindI)
      fix all
      assume "\<exists>outs. mapR (?agg rows) gsets = Inr outs \<and> all = concat outs"
      then show "wp inv (batch_ok ev out) (emit_rows ev op out all) (\<lambda>bs _. \<exists>rows outs. P rows
          \<and> mapR (?agg rows) gsets = Inr outs \<and> conformed ev out (concat outs) (rows_of bs)) err"
        using rows conv by (auto intro!: wp_emit_rows)
    qed
  qed
qed

end

end
