(* ===== verification/WindowOp.thy ===== *)
theory WindowOp
  imports GroupingOps
begin

text \<open>
  The window operator (\<open>WindowOperator\<close>): partitions, the order within a partition, ranking
  functions, and aggregates over frames.  Rows are objects that the operator updates in place;
  they are addressed by their index in the operator's list.
\<close>

section \<open>Frames\<close>

text \<open>\<open>str.split()\<close> on the white space of Latin-1 text.\<close>

definition is_space :: "char \<Rightarrow> bool" where
  "is_space c = (let n = of_char c :: nat in n \<in> {32, 133, 160} \<or> 9 \<le> n \<and> n \<le> 13 \<or> 28 \<le> n \<and> n \<le> 31)"

definition add_word :: "string \<Rightarrow> string list \<Rightarrow> string list" where
  "add_word w ws = (if w = [] then ws else w # ws)"

fun split_words :: "string \<Rightarrow> string \<Rightarrow> string list" where
  "split_words w [] = add_word w []"
| "split_words w (c # cs) =
     (if is_space c then add_word w (split_words [] cs) else split_words (w @ [c]) cs)"

definition frame_boundary :: "py_runtime \<Rightarrow> string \<Rightarrow> int \<Rightarrow> int \<Rightarrow> bool \<Rightarrow> int res" where
  "frame_boundary rt boundary index rowcount is_end =
     (if boundary = ''UNBOUNDED PRECEDING'' then Inr 0
      else if boundary = ''UNBOUNDED FOLLOWING'' then Inr rowcount
      else if boundary = ''CURRENT ROW'' then Inr (index + of_bool is_end)
      else case split_words [] boundary of
          [amount_text, direction] \<Rightarrow>
            bindR (some_or PyValueError (rt_parse_int rt amount_text)) (\<lambda>amount.
              let position = (if direction = ''PRECEDING'' then index - amount else index + amount);
                  position = (if is_end then position + 1 else position)
              in Inr (min (max position 0) rowcount))
        | _ \<Rightarrow> Inl PyValueError)"

text \<open>The loop that extends the default frame over the peers that follow.\<close>

function peers_end :: "group_key list \<Rightarrow> group_key \<Rightarrow> nat \<Rightarrow> nat \<Rightarrow> nat" where
  "peers_end peers peer rowcount e =
     (if e < rowcount \<and> key_eq (peers ! e) peer then peers_end peers peer rowcount (Suc e) else e)"
  by pat_completeness auto
termination
  by (relation "measure (\<lambda>(peers, peer, rowcount, e). rowcount - e)") auto

declare peers_end.simps [simp del]

definition window_bounds ::
    "py_runtime \<Rightarrow> window_frame option \<Rightarrow> nat \<Rightarrow> nat \<Rightarrow> group_key list \<Rightarrow> (int \<times> int) res" where
  "window_bounds rt frame index rowcount peers = (case frame of
       None \<Rightarrow> if peers = [] \<or> peers ! 0 = [] then Inr (0, int rowcount)
         else Inr (0, int (peers_end peers (peers ! index) rowcount (Suc index)))
     | Some w \<Rightarrow> bindR (frame_boundary rt (wf_start w) (int index) (int rowcount) False) (\<lambda>s.
         bindR (frame_boundary rt (wf_end w) (int index) (int rowcount) True) (\<lambda>e. Inr (s, e))))"

section \<open>The operator\<close>

fun window_parts :: "expr \<Rightarrow> (expr \<times> expr list \<times> expr sort_expression list \<times> window_frame option) option" where
  "window_parts (WindowFunction f parts orders frame) = Some (f, parts, orders, frame)"
| "window_parts _ = None"

type_synonym partitions = "(group_key \<times> nat list) list"

fun partition_add :: "group_key \<Rightarrow> nat \<Rightarrow> partitions \<Rightarrow> partitions" where
  "partition_add k i [] = [(k, [i])]"
| "partition_add k i ((k', is) # ps) =
     (if key_eq k' k then (k', is @ [i]) # ps else (k', is) # partition_add k i ps)"

definition window_partitions :: "py_runtime \<Rightarrow> expr list \<Rightarrow> row list \<Rightarrow> partitions res" where
  "window_partitions rt es rows =
     foldR (\<lambda>ps i. bindR (row_key rt es (rows ! i)) (\<lambda>k. Inr (partition_add k i ps))) [] [0..<length rows]"

text \<open>
  One row of an ordered partition: the variables are the rows, \<open>dense_rank\<close> and \<open>previous_peer\<close>.
\<close>

type_synonym window_state = "row list \<times> nat \<times> group_key option"

definition peer_differs :: "group_key \<Rightarrow> group_key option \<Rightarrow> bool" where
  "peer_differs peer previous = (case previous of None \<Rightarrow> True | Some p \<Rightarrow> \<not> key_eq peer p)"

definition rank_value ::
    "string \<Rightarrow> string \<Rightarrow> nat list \<Rightarrow> group_key list \<Rightarrow> window_state \<Rightarrow> nat
     \<Rightarrow> (sql_value \<times> nat \<times> group_key option) res" where
  "rank_value name sql ordered peers st index = (case st of (rows, dense, previous) \<Rightarrow>
     if name = ''row_number'' then Inr (VInt (int index + 1), dense, previous)
     else let peer = peers ! index;
              dense' = (if index = 0 \<or> peer_differs peer previous then dense + 1 else dense)
       in bindR (if name = ''dense_rank'' then Inr (VInt (int dense'))
                 else if peer_differs peer previous then Inr (VInt (int index + 1))
                 else row_or PyKeyError (rows ! (ordered ! (index - 1))) sql)
            (\<lambda>v. Inr (v, dense', Some peer)))"

definition aggregate_value ::
    "py_runtime \<Rightarrow> expr \<Rightarrow> window_frame option \<Rightarrow> nat list \<Rightarrow> group_key list \<Rightarrow> row list \<Rightarrow> nat \<Rightarrow> sql_value res" where
  "aggregate_value rt f frame ordered peers rows index =
     bindR (window_bounds rt frame index (length ordered) peers) (\<lambda>(s, e).
     bindR (foldR (agg_add rt) (new_state f)
       (map (\<lambda>i. rows ! i) (take (nat (e - s)) (drop (nat s) ordered)))) (agg_finish rt))"

definition window_step ::
    "py_runtime \<Rightarrow> string \<Rightarrow> expr \<Rightarrow> window_frame option \<Rightarrow> nat list \<Rightarrow> group_key list
     \<Rightarrow> window_state \<Rightarrow> nat \<Rightarrow> window_state res" where
  "window_step rt sql f frame ordered peers st index =
     bindR (case f of
         ScalarFunction name args ti \<Rightarrow> rank_value name sql ordered peers st index
       | _ \<Rightarrow> bindR (aggregate_value rt f frame ordered peers (fst st) index) (\<lambda>v. Inr (v, snd st)))
       (\<lambda>(v, rest). let i = ordered ! index in Inr ((fst st)[i := ((fst st) ! i)(sql \<mapsto> v)], rest))"

definition window_partition ::
    "env \<Rightarrow> (nat, batch) sorting \<Rightarrow> string \<Rightarrow> expr \<Rightarrow> expr sort_expression list \<Rightarrow> window_frame option
     \<Rightarrow> row list \<Rightarrow> nat list \<Rightarrow> (ctx, batch, row list) gen" where
  "window_partition ev srt sql f orders frame rows is =
     bindG (if orders \<noteq> [] then srt orders (\<lambda>i. rows ! i) is else Ret is) (\<lambda>ordered.
     bindG (lift (mapR (\<lambda>i. row_key (rt_of ev) (map se_expression orders) (rows ! i)) ordered)) (\<lambda>peers.
     bindG (for_list [0..<length ordered] (rows, 0, None) (\<lambda>st index. bindG check_cancelled (\<lambda>_.
        lift (window_step (rt_of ev) sql f frame ordered peers st index)))) (\<lambda>st. Ret (fst st))))"

definition evaluate_window ::
    "env \<Rightarrow> (nat, batch) sorting \<Rightarrow> row list \<Rightarrow> named_expression \<Rightarrow> (ctx, batch, row list) gen" where
  "evaluate_window ev srt rows item = (case window_parts (ne_expression item) of
       None \<Rightarrow> Fail PyAttributeError
     | Some (f, parts, orders, frame) \<Rightarrow>
         bindG (lift (window_partitions (rt_of ev) parts rows)) (\<lambda>ps.
           for_list (map snd ps) rows
             (window_partition ev srt (expr_sql (rt_of ev) (ne_expression item)) f orders frame)))"

definition window_op ::
    "env \<Rightarrow> (nat, batch) sorting \<Rightarrow> string \<Rightarrow> named_expression list \<Rightarrow> schema \<Rightarrow> unit batches \<Rightarrow> unit batches" where
  "window_op ev srt op items s input =
     bindG (collect_rows op input) (\<lambda>rows.
     bindG (for_list items rows (evaluate_window ev srt)) (emit_rows ev op s))"

section \<open>Frames stay within the partition\<close>

lemma frame_boundary_range:
  assumes "frame_boundary rt b (int index) (int rowcount) is_end = Inr p" and "index < rowcount"
  shows "0 \<le> p \<and> p \<le> int rowcount"
  using assms by (auto simp: frame_boundary_def bindR_eq_Inr Let_def split: if_splits list.splits)

lemma peers_end_range: "e \<le> rowcount \<Longrightarrow> e \<le> peers_end peers peer rowcount e \<and> peers_end peers peer rowcount e \<le> rowcount"
proof (induction peers peer rowcount e rule: peers_end.induct)
  case (1 peers peer rowcount e)
  then show ?case by (simp add: peers_end.simps [of peers peer rowcount e]) fastforce
qed

lemma peers_end_peers:
  "e \<le> q \<Longrightarrow> q < peers_end peers peer rowcount e \<Longrightarrow> key_eq (peers ! q) peer"
proof (induction peers peer rowcount e rule: peers_end.induct)
  case (1 peers peer rowcount e)
  then show ?case
    by (cases "q = e") (auto simp: peers_end.simps [of peers peer rowcount e] split: if_splits)
qed

lemma peers_end_stop:
  "e \<le> rowcount \<Longrightarrow> peers_end peers peer rowcount e < rowcount \<Longrightarrow> \<not> key_eq (peers ! peers_end peers peer rowcount e) peer"
proof (induction peers peer rowcount e rule: peers_end.induct)
  case (1 peers peer rowcount e)
  then show ?case
    by (cases "e < rowcount \<and> key_eq (peers ! e) peer") (auto simp: peers_end.simps [of peers peer rowcount e])
qed

text \<open>
  C35.  The frame of a row lies within its partition: whatever the frame clause, both bounds are
  between 0 and the number of rows; and without a frame clause, in an ordered partition, the
  frame ends right after the run of rows that follow and are peers of the current row.
\<close>

theorem window_bounds_in_partition:
  assumes "window_bounds rt frame index rowcount peers = Inr (s, e)" and "index < rowcount"
  shows "0 \<le> s \<and> s \<le> int rowcount \<and> 0 \<le> e \<and> e \<le> int rowcount
    \<and> (frame = None \<longrightarrow> s = 0 \<and> (peers \<noteq> [] \<and> peers ! 0 \<noteq> [] \<longrightarrow> int index < e
         \<and> (\<forall>q. index < q \<and> int q < e \<longrightarrow> key_eq (peers ! q) (peers ! index))
         \<and> (e < int rowcount \<longrightarrow> \<not> key_eq (peers ! nat e) (peers ! index))))"
proof (cases frame)
  case None
  then show ?thesis
    using assms peers_end_range [of "Suc index" rowcount peers "peers ! index"]
      peers_end_peers [of "Suc index" _ peers "peers ! index" rowcount]
      peers_end_stop [of "Suc index" rowcount peers "peers ! index"]
    by (auto simp: window_bounds_def split: if_splits)
next
  case (Some w)
  then show ?thesis
    using assms frame_boundary_range by (auto simp: window_bounds_def bindR_eq_Inr)
qed

theorem window_bounds_in_partition_witness:
  "\<forall>rt. window_bounds rt None 1 4 [[VInt 1], [VInt 2], [VInt 2], [VInt 3]] = Inr (0, 3) \<and> (3 :: int) \<le> 4"
proof
  fix rt
  have b: "window_bounds rt None 1 4 [[VInt 1], [VInt 2], [VInt 2], [VInt 3]] = Inr (0, 3)"
    by (simp add: window_bounds_def peers_end.simps key_eq_def py_eq_def)
  then show "window_bounds rt None 1 4 [[VInt 1], [VInt 2], [VInt 2], [VInt 3]] = Inr (0, 3) \<and> (3 :: int) \<le> 4"
    using window_bounds_in_partition [OF b] by simp
qed

section \<open>Ranks\<close>

text \<open>A row starts a run of peers; the ranks in terms of the runs.\<close>

definition starts_run :: "group_key list \<Rightarrow> nat \<Rightarrow> bool" where
  "starts_run peers q \<longleftrightarrow> q = 0 \<or> \<not> key_eq (peers ! q) (peers ! (q - 1))"

definition rank_of :: "string \<Rightarrow> group_key list \<Rightarrow> nat \<Rightarrow> nat" where
  "rank_of name peers p =
     (if name = ''row_number'' then p + 1
      else if name = ''dense_rank'' then card {q. q \<le> p \<and> starts_run peers q}
      else Suc (Max {q. q \<le> p \<and> starts_run peers q}))"

text \<open>After \<open>n\<close> rows of the ordered partition.\<close>

definition ranked ::
    "string \<Rightarrow> string \<Rightarrow> nat list \<Rightarrow> group_key list \<Rightarrow> row list \<Rightarrow> nat \<Rightarrow> window_state \<Rightarrow> bool" where
  "ranked name sql ordered peers rows n st \<longleftrightarrow> (case st of (rows', dense, previous) \<Rightarrow>
     length rows' = length rows
     \<and> (\<forall>i. i \<notin> set ordered \<longrightarrow> rows' ! i = rows ! i)
     \<and> (\<forall>p < length ordered. rows' ! (ordered ! p) = (if p < n
          then (rows ! (ordered ! p))(sql \<mapsto> VInt (int (rank_of name peers p))) else rows ! (ordered ! p)))
     \<and> (name \<noteq> ''row_number'' \<longrightarrow> previous = (if n = 0 then None else Some (peers ! (n - 1)))
          \<and> dense = card {q. q < n \<and> starts_run peers q}))"

lemma runs_Suc:
  "{q. q \<le> n \<and> starts_run peers q} = (if starts_run peers n then insert n {q. q < n \<and> starts_run peers q}
     else {q. q < n \<and> starts_run peers q})"
  by (auto simp: le_less)

lemma rank_of_Suc:
  assumes "\<not> starts_run peers n" and "name \<noteq> ''row_number''" and "name \<noteq> ''dense_rank''"
  shows "rank_of name peers n = rank_of name peers (n - 1)"
proof -
  have "0 < n" using assms(1) by (auto simp: starts_run_def)
  then have "q \<le> n \<and> starts_run peers q \<longleftrightarrow> q \<le> n - 1 \<and> starts_run peers q" for q
    using assms(1) by (cases "q = n") auto
  then show ?thesis using assms(2,3) by (simp add: rank_of_def)
qed

lemma rank_value_ranked:
  assumes r: "ranked name sql ordered peers rows n st" and n: "n < length ordered"
  shows "\<exists>dense previous. rank_value name sql ordered peers st n
      = Inr (VInt (int (rank_of name peers n)), dense, previous)
    \<and> (name \<noteq> ''row_number'' \<longrightarrow> previous = Some (peers ! n) \<and> dense = card {q. q < Suc n \<and> starts_run peers q})"
proof (cases "name = ''row_number''")
  case True
  then show ?thesis by (cases st) (simp add: rank_value_def rank_of_def)
next
  case False
  obtain rows' dense previous where st: "st = (rows', dense, previous)" by (cases st) auto
  have prev: "previous = (if n = 0 then None else Some (peers ! (n - 1)))"
    and dense: "dense = card {q. q < n \<and> starts_run peers q}"
    using r False by (simp_all add: ranked_def st)
  have differs: "peer_differs (peers ! n) previous = starts_run peers n"
    unfolding prev by (simp add: peer_differs_def starts_run_def)
  have zero: "n = 0 \<Longrightarrow> starts_run peers n" by (simp add: starts_run_def)
  have fin: "finite {q. q < n \<and> starts_run peers q}" by simp
  have card: "(if starts_run peers n then dense + 1 else dense) = card {q. q < Suc n \<and> starts_run peers q}"
    using runs_Suc [of n peers] fin by (simp add: dense less_Suc_eq_le)
  show ?thesis
  proof (cases "starts_run peers n")
    case True
    have "Max {q. q \<le> n \<and> starts_run peers q} = n"
      using True by (intro Max_eqI) auto
    then show ?thesis
      using st False True differs card by (auto simp: rank_value_def Let_def rank_of_def less_Suc_eq_le)
  next
    case run: False
    then have "n \<noteq> 0" using zero by blast
    then have "rows' ! (ordered ! (n - 1)) = (rows ! (ordered ! (n - 1)))(sql \<mapsto> VInt (int (rank_of name peers (n - 1))))"
      using r n by (simp add: ranked_def st)
    then have last: "row_or PyKeyError (rows' ! (ordered ! (n - 1))) sql = Inr (VInt (int (rank_of name peers (n - 1))))"
      by (simp add: row_or_def)
    show ?thesis
    proof (cases "name = ''dense_rank''")
      case True
      then show ?thesis
        using st run differs card \<open>n \<noteq> 0\<close> by (auto simp: rank_value_def Let_def rank_of_def less_Suc_eq_le)
    next
      case rank: False
      then show ?thesis
        using st run False differs card \<open>n \<noteq> 0\<close> last rank_of_Suc [OF run False rank]
        by (auto simp: rank_value_def Let_def)
    qed
  qed
qed

lemma window_step_ranked:
  assumes r: "ranked name sql ordered peers rows n st" and n: "n < length ordered"
    and ok: "distinct ordered" "\<forall>i \<in> set ordered. i < length rows"
  shows "\<exists>st'. window_step rt sql (ScalarFunction name args ti) frame ordered peers st n = Inr st'
    \<and> ranked name sql ordered peers rows (Suc n) st'"
proof -
  obtain rows' rest where st: "st = (rows', rest)" by (cases st)
  obtain dense previous where v: "rank_value name sql ordered peers st n
      = Inr (VInt (int (rank_of name peers n)), dense, previous)"
    and next_state: "name \<noteq> ''row_number'' \<longrightarrow> previous = Some (peers ! n) \<and> dense = card {q. q < Suc n \<and> starts_run peers q}"
    using rank_value_ranked [OF r n] by blast
  let ?i = "ordered ! n" and ?v = "VInt (int (rank_of name peers n))"
  let ?st' = "(rows'[?i := (rows' ! ?i)(sql \<mapsto> ?v)], dense, previous)"
  have old: "length rows' = length rows" "rows' ! ?i = rows ! ?i"
    using r n by (auto simp: ranked_def st split: prod.splits)
  have i: "?i < length rows" using ok(2) n by simp
  have same: "ordered ! p = ?i \<longleftrightarrow> p = n" if "p < length ordered" for p
    using ok(1) n that by (simp add: nth_eq_iff_index_eq)
  let ?rows = "rows'[?i := (rows' ! ?i)(sql \<mapsto> ?v)]"
  have done_before: "rows' ! (ordered ! p) = (if p < n
      then (rows ! (ordered ! p))(sql \<mapsto> VInt (int (rank_of name peers p))) else rows ! (ordered ! p))"
    if "p < length ordered" for p
    using r that by (auto simp: ranked_def st split: prod.splits)
  have "?rows ! (ordered ! p) = (if p < Suc n
      then (rows ! (ordered ! p))(sql \<mapsto> VInt (int (rank_of name peers p))) else rows ! (ordered ! p))"
    if p: "p < length ordered" for p
  proof (cases "p = n")
    case True
    then show ?thesis using old i by simp
  next
    case False
    then have "ordered ! p \<noteq> ?i" using same [OF p] by simp
    then show ?thesis using done_before [OF p] False by (simp add: less_Suc_eq)
  qed
  moreover have "?rows ! j = rows ! j" if "j \<notin> set ordered" for j
  proof -
    have "?i \<noteq> j" using that nth_mem [OF n] by blast
    then show ?thesis using r that by (simp add: ranked_def st split: prod.splits)
  qed
  ultimately have "ranked name sql ordered peers rows (Suc n) ?st'"
    using old next_state by (simp add: ranked_def)
  moreover have "window_step rt sql (ScalarFunction name args ti) frame ordered peers st n = Inr ?st'"
    using v by (simp add: window_step_def st Let_def)
  ultimately show ?thesis by blast
qed

text \<open>
  C36.  Ranking functions over an ordered partition: the loop never fails and gives every row of
  the partition its position (\<open>row_number\<close>), one plus the number of rows before its run of
  peers (\<open>rank\<close>), or the number of runs up to its own (\<open>dense_rank\<close>), under the text of the
  window expression, and changes nothing else.
\<close>

theorem ranks_of_partition:
  assumes "distinct ordered" and "\<forall>i \<in> set ordered. i < length rows"
  shows "\<exists>rows' dense previous. foldR (window_step rt sql (ScalarFunction name args ti) frame ordered peers)
        (rows, 0, None) [0..<length ordered] = Inr (rows', dense, previous)
    \<and> length rows' = length rows
    \<and> (\<forall>i. i \<notin> set ordered \<longrightarrow> rows' ! i = rows ! i)
    \<and> (\<forall>p < length ordered. rows' ! (ordered ! p)
         = (rows ! (ordered ! p))(sql \<mapsto> VInt (int (rank_of name peers p))))"
proof -
  have "\<exists>st. foldR (window_step rt sql (ScalarFunction name args ti) frame ordered peers) (rows, 0, None) [0..<n] = Inr st
      \<and> ranked name sql ordered peers rows n st" if "n \<le> length ordered" for n
    using that
  proof (induction n)
    case 0
    then show ?case by (simp add: ranked_def)
  next
    case (Suc n)
    then obtain st where "foldR (window_step rt sql (ScalarFunction name args ti) frame ordered peers)
        (rows, 0, None) [0..<n] = Inr st" and r: "ranked name sql ordered peers rows n st" by auto
    moreover obtain st' where "window_step rt sql (ScalarFunction name args ti) frame ordered peers st n = Inr st'"
      and "ranked name sql ordered peers rows (Suc n) st'"
      using window_step_ranked [OF r _ assms] Suc.prems by (meson Suc_le_lessD)
    ultimately show ?case by (auto simp: foldR_append)
  qed
  from this [OF order_refl] show ?thesis
    by (fastforce simp: ranked_def split: prod.splits)
qed

theorem ranks_of_partition_witness:
  "\<forall>rt ti. \<exists>rows' dense previous. foldR (window_step rt ''r'' (ScalarFunction ''rank'' [] ti) None [1, 0, 2]
        [[VInt 1], [VInt 1], [VInt 2]]) (replicate 3 Map.empty, 0, None) [0..<3] = Inr (rows', dense, previous)
    \<and> rows' ! 2 = [''r'' \<mapsto> VInt 3]"
proof (intro allI)
  fix rt :: py_runtime and ti
  have "Max {q. q \<le> 2 \<and> starts_run [[VInt 1], [VInt 1], [VInt 2]] q} = 2"
    by (rule Max_eqI) (auto simp: starts_run_def key_eq_def py_eq_def)
  then have r: "rank_of ''rank'' [[VInt 1], [VInt 1], [VInt 2]] 2 = 3"
    by (simp add: rank_of_def)
  have "distinct [1, 0, 2 :: nat]" "\<forall>i \<in> set [1, 0, 2]. i < length (replicate 3 (Map.empty :: row))" by auto
  from ranks_of_partition [OF this, of rt "''r''" "''rank''" "[]" ti None "[[VInt 1], [VInt 1], [VInt 2]]"]
  obtain rows' dense previous where fold: "foldR (window_step rt ''r'' (ScalarFunction ''rank'' [] ti) None [1, 0, 2]
        [[VInt 1], [VInt 1], [VInt 2]]) (replicate 3 Map.empty, 0, None) [0..<length [1, 0, 2 :: nat]] = Inr (rows', dense, previous)"
    and ranks: "\<forall>p < length [1, 0, 2 :: nat]. rows' ! ([1, 0, 2] ! p) = (replicate 3 Map.empty ! ([1, 0, 2] ! p))
      (''r'' \<mapsto> VInt (int (rank_of ''rank'' [[VInt 1], [VInt 1], [VInt 2]] p)))" by blast
  have "rows' ! 2 = [''r'' \<mapsto> VInt 3]"
    using ranks [THEN spec, of 2] r by simp
  with fold show "\<exists>rows' dense previous. foldR (window_step rt ''r'' (ScalarFunction ''rank'' [] ti) None [1, 0, 2]
        [[VInt 1], [VInt 1], [VInt 2]]) (replicate 3 Map.empty, 0, None) [0..<3] = Inr (rows', dense, previous)
    \<and> rows' ! 2 = [''r'' \<mapsto> VInt 3]" by (simp add: numeral_3_eq_3)
qed

end
