(* ===== verification/Joins.thy ===== *)
theory Joins
  imports WindowOp
begin

text \<open>
  The hash join (\<open>HashJoinOperator\<close>): the build side in memory with a hash table; when it does not
  fit, both sides partitioned into spill files and joined partition by partition, again with a
  hash table or, when a partition does not fit, by merging sorted files.
\<close>

section \<open>Keys and sides\<close>

definition join_key :: "py_runtime \<Rightarrow> expr list \<Rightarrow> row \<Rightarrow> group_key option res" where
  "join_key rt es row = bindR (mapR (evaluate rt row) es) (\<lambda>vs.
     Inr (if VNull \<in> set vs then None else Some vs))"

definition side_is_preserved :: "string \<Rightarrow> string \<Rightarrow> bool" where
  "side_is_preserved join_type side \<longleftrightarrow> join_type = ''full'' \<or> join_type = side"

fun compare_join_keys :: "group_key \<Rightarrow> group_key \<Rightarrow> int res" where
  "compare_join_keys [] [] = Inr 0"
| "compare_join_keys (a # as) (b # bs) =
     bindR (py_lt b a) (\<lambda>greater. bindR (py_lt a b) (\<lambda>less.
       let c = of_bool greater - of_bool less in
       if c \<noteq> 0 then Inr c else compare_join_keys as bs))"
| "compare_join_keys _ _ = Inl PyValueError"

record hash_join =
  hj_left_keys :: "expr list"
  hj_right_keys :: "expr list"
  hj_type :: string
  hj_schema :: schema
  hj_left_columns :: "string list"
  hj_right_columns :: "string list"
  hj_build_left :: bool
  hj_channel :: "string option"

definition make_hash_join ::
    "expr list \<Rightarrow> expr list \<Rightarrow> string \<Rightarrow> schema \<Rightarrow> string list \<Rightarrow> string list \<Rightarrow> string \<Rightarrow> string option
     \<Rightarrow> hash_join res" where
  "make_hash_join lks rks jt s lcs rcs build_side ch =
     (if jt \<notin> {''inner'', ''left'', ''right'', ''full''} then Inl PyValueError
      else if lks = [] \<or> length lks \<noteq> length rks then Inl PyValueError
      else if build_side \<notin> {''left'', ''right''} then Inl PyValueError
      else Inr \<lparr>hj_left_keys = lks, hj_right_keys = rks, hj_type = jt, hj_schema = s,
                hj_left_columns = lcs, hj_right_columns = rcs,
                hj_build_left = (build_side = ''left''), hj_channel = ch\<rparr>)"

definition build_keys :: "hash_join \<Rightarrow> expr list" where
  "build_keys j = (if hj_build_left j then hj_left_keys j else hj_right_keys j)"

definition probe_keys :: "hash_join \<Rightarrow> expr list" where
  "probe_keys j = (if hj_build_left j then hj_right_keys j else hj_left_keys j)"

definition build_columns :: "hash_join \<Rightarrow> string list" where
  "build_columns j = (if hj_build_left j then hj_left_columns j else hj_right_columns j)"

definition probe_columns :: "hash_join \<Rightarrow> string list" where
  "probe_columns j = (if hj_build_left j then hj_right_columns j else hj_left_columns j)"

definition build_preserved :: "hash_join \<Rightarrow> bool" where
  "build_preserved j = side_is_preserved (hj_type j) (if hj_build_left j then ''left'' else ''right'')"

definition probe_preserved :: "hash_join \<Rightarrow> bool" where
  "probe_preserved j = side_is_preserved (hj_type j) (if hj_build_left j then ''right'' else ''left'')"

text \<open>\<open>left | right\<close> of two dicts, with the build row on its side, and \<open>dict.fromkeys\<close>.\<close>

definition join_rows :: "hash_join \<Rightarrow> row \<Rightarrow> row \<Rightarrow> row" where
  "join_rows j b p = (if hj_build_left j then b ++ p else p ++ b)"

definition null_row :: "string set \<Rightarrow> row" where
  "null_row names = (\<lambda>c. if c \<in> names then Some VNull else None)"

text \<open>The hash table: keys to the indices of their build rows.\<close>

type_synonym hash_table = partitions

definition table_add :: "group_key option \<Rightarrow> nat \<Rightarrow> hash_table \<Rightarrow> hash_table" where
  "table_add k i t = (case k of None \<Rightarrow> t | Some k \<Rightarrow> partition_add k i t)"

fun table_get :: "hash_table \<Rightarrow> group_key \<Rightarrow> nat list" where
  "table_get [] k = []"
| "table_get ((k', is) # t) k = (if key_eq k' k then is else table_get t k)"

section \<open>Joining against the table\<close>

text \<open>
  One probe row: the variables are the output rows and the matched indices.  \<open>null_build\<close> is the
  row of \<open>None\<close>s for the build side.
\<close>

definition probe_row ::
    "py_runtime \<Rightarrow> hash_join \<Rightarrow> row list \<Rightarrow> hash_table \<Rightarrow> row \<Rightarrow> row list \<times> nat set \<Rightarrow> row
     \<Rightarrow> (row list \<times> nat set) res" where
  "probe_row rt j builds t null_build st p = (case st of (out, matched) \<Rightarrow>
     bindR (join_key rt (probe_keys j) p) (\<lambda>k.
       let matches = (case k of None \<Rightarrow> [] | Some k \<Rightarrow> table_get t k) in
       Inr (if matches \<noteq> []
            then (out @ map (\<lambda>i. join_rows j (builds ! i) p) matches, matched \<union> set matches)
            else if probe_preserved j then (out @ [join_rows j null_build p], matched)
            else (out, matched))))"

definition flush_full ::
    "env \<Rightarrow> string \<Rightarrow> schema \<Rightarrow> row list \<Rightarrow> (ctx, batch, row list) gen" where
  "flush_full ev op s out = bindG (get cx_batch_size) (\<lambda>n.
     if n \<le> length out then bindG (emit_rows ev op s out) (\<lambda>_. Ret []) else Ret out)"

definition probe_step ::
    "env \<Rightarrow> string \<Rightarrow> hash_join \<Rightarrow> row list \<Rightarrow> hash_table \<Rightarrow> row \<Rightarrow> row list \<times> nat set \<Rightarrow> row
     \<Rightarrow> (ctx, batch, row list \<times> nat set) gen" where
  "probe_step ev op j builds t null_build st p =
     bindG (lift (probe_row (rt_of ev) j builds t null_build st p)) (\<lambda>(out, matched).
     bindG (flush_full ev op (hj_schema j) out) (\<lambda>out. Ret (out, matched)))"

text \<open>\<open>_hash_partition_rows\<close>.\<close>

definition build_table :: "py_runtime \<Rightarrow> hash_join \<Rightarrow> row list \<Rightarrow> hash_table res" where
  "build_table rt j builds = foldR (\<lambda>t i. bindR (join_key rt (build_keys j) (builds ! i)) (\<lambda>k.
     Inr (table_add k i t))) [] [0..<length builds]"

definition unmatched_builds :: "hash_join \<Rightarrow> row list \<Rightarrow> nat set \<Rightarrow> row \<Rightarrow> row list" where
  "unmatched_builds j builds matched null_probe =
     map (\<lambda>i. join_rows j (builds ! i) null_probe) (filter (\<lambda>i. i \<notin> matched) [0..<length builds])"

definition hash_partition_rows ::
    "env \<Rightarrow> string \<Rightarrow> hash_join \<Rightarrow> row list \<Rightarrow> unit rows \<Rightarrow> unit batches" where
  "hash_partition_rows ev op j builds probes =
     bindG (lift (build_table (rt_of ev) j builds)) (\<lambda>t.
     bindG (for_each probes ([], {})
       (probe_step ev op j builds t (null_row (set (build_columns j))))) (\<lambda>(out, matched).
     emit_rows ev op (hj_schema j)
       (if build_preserved j
        then out @ unmatched_builds j builds matched (null_row (set (probe_columns j))) else out)))"

section \<open>Spilled partitions\<close>

definition rows_from_batches :: "string \<Rightarrow> unit batches \<Rightarrow> unit rows" where
  "rows_from_batches op g = for_each g () (\<lambda>_ b.
     bindG check_cancelled (\<lambda>_. bindG (count_input op (length (bt_rows b))) (\<lambda>_. from_list (bt_rows b))))"

definition partition_number :: "env \<Rightarrow> expr list \<Rightarrow> nat \<Rightarrow> row \<Rightarrow> nat res" where
  "partition_number ev es n row = bindR (join_key (rt_of ev) es row) (\<lambda>k. Inr (case k of
     None \<Rightarrow> 0 | Some vs \<Rightarrow> nat (ev_hash ev vs mod int n)))"

text \<open>The files and the buffers of \<open>_partition_rows\<close>, one list per partition.\<close>

type_synonym part_state = "row list list list \<times> row list list"

definition flush_buffers ::
    "env \<Rightarrow> string \<Rightarrow> string \<Rightarrow> schema \<Rightarrow> string \<Rightarrow> part_state \<Rightarrow> (ctx, 'a, part_state) gen" where
  "flush_buffers ev op frame s prefix st =
     bindG (for_list [0..<length (snd st)] st (\<lambda>(files, buffers) p.
         if buffers ! p = [] then Ret (files, buffers)
         else bindG (spill_file ev op s (buffers ! p) (prefix @ ''-'' @ fmt05 p) id) (\<lambda>content.
           Ret (files[p := files ! p @ [content]], buffers[p := []])))) (\<lambda>st'.
     bindG (release_step frame) (\<lambda>_. Ret st'))"

definition buffer_row :: "part_state \<Rightarrow> nat \<Rightarrow> row \<Rightarrow> part_state" where
  "buffer_row st p row = (fst st, (snd st)[p := snd st ! p @ [row]])"

definition partition_row ::
    "env \<Rightarrow> string \<Rightarrow> string \<Rightarrow> schema \<Rightarrow> expr list \<Rightarrow> nat \<Rightarrow> string \<Rightarrow> part_state \<Rightarrow> row
     \<Rightarrow> (ctx, 'a, part_state) gen" where
  "partition_row ev op frame s es n prefix st row =
     bindG check_cancelled (\<lambda>_.
     bindG (try_reserve_step frame (row_size ev row)) (\<lambda>ok.
     if ok then bindG (lift (partition_number ev es n row)) (\<lambda>p. Ret (buffer_row st p row))
     else bindG (flush_buffers ev op frame s prefix st) (\<lambda>st1.
       bindG (try_reserve_step frame (row_size ev row)) (\<lambda>ok.
       bindG (lift (partition_number ev es n row)) (\<lambda>p.
         if ok then Ret (buffer_row st1 p row)
         else flush_buffers ev op frame s prefix (buffer_row st1 p row))))))"

definition partition_rows ::
    "env \<Rightarrow> string \<Rightarrow> string \<Rightarrow> schema \<Rightarrow> expr list \<Rightarrow> nat \<Rightarrow> string \<Rightarrow> unit rows
     \<Rightarrow> (ctx, 'a, row list list list) gen" where
  "partition_rows ev op frame s es n prefix rows = finallyG (release_frame frame)
     (bindG (for_each rows (replicate n [], replicate n []) (partition_row ev op frame s es n prefix)) (\<lambda>st.
      bindG (flush_buffers ev op frame s prefix st) (\<lambda>st'. Ret (fst st'))))"

text \<open>Reading spill files back: in batches of at most 1024 rows, or row by row.\<close>

definition batches_from_files :: "schema \<Rightarrow> row list list \<Rightarrow> unit batches" where
  "batches_from_files s files = for_list files () (\<lambda>_ content.
     bindG (get cx_batch_size) (\<lambda>n.
       for_list (chunks (max 1 (min n 1024)) content) () (\<lambda>_ rows.
         bindG check_cancelled (\<lambda>_. yieldG \<lparr>bt_schema = s, bt_rows = rows\<rparr>))))"

definition rows_from_files :: "schema \<Rightarrow> row list list \<Rightarrow> unit rows" where
  "rows_from_files s files = for_each (batches_from_files s files) () (\<lambda>_ b.
     for_list (bt_rows b) () (\<lambda>_ row. bindG check_cancelled (\<lambda>_. yieldG row)))"

section \<open>Merging sorted partitions\<close>

text \<open>\<open>_take_key_group\<close>: the rows of the current key, and the first row after them.\<close>

type_synonym side = "(row \<times> unit rows) option"

primrec take_key_group ::
    "py_runtime \<Rightarrow> expr list \<Rightarrow> group_key \<Rightarrow> unit rows \<Rightarrow> (row list \<Rightarrow> side \<Rightarrow> unit batches) \<Rightarrow> unit batches" where
  "take_key_group rt es k (Ret u) = (\<lambda>c. c [] None)"
| "take_key_group rt es k (Fail e) = (\<lambda>c. Fail e)"
| "take_key_group rt es k (Yield row g) = (\<lambda>c. bindG (lift (join_key rt es row)) (\<lambda>k'.
     case k' of
       Some k' \<Rightarrow> if key_eq k' k then take_key_group rt es k g (\<lambda>group next. c (row # group) next)
                  else c [] (Some (row, g))
     | None \<Rightarrow> c [] (Some (row, g))))"
| "take_key_group rt es k (Act f) = (\<lambda>c. Act (map_prod id (\<lambda>g. take_key_group rt es k g c) \<circ> f))"

lemma take_key_group_cong [fundef_cong]:
  "g = g' \<Longrightarrow> (\<And>group next. part_of next g' \<Longrightarrow> c group next = c' group next) \<Longrightarrow>
     take_key_group rt es k g c = take_key_group rt es k g' c'"
proof (induction g' arbitrary: g c c' rule: gen_induct)
  case (Yield row g')
  have "c group next = c' group next" if "part_of next g'" for group "next"
    using Yield.prems(2) part_of_yield [OF that] by blast
  then have "take_key_group rt es k g' (\<lambda>group next. c (row # group) next)
      = take_key_group rt es k g' (\<lambda>group next. c' (row # group) next)"
    by (intro Yield.IH) auto
  moreover have "c [] (Some (row, g')) = c' [] (Some (row, g'))"
    using Yield.prems(2) by (simp add: subgen.yield tranclp.r_into_trancl)
  ultimately show ?case
    using Yield.prems(1) by (auto intro!: arg_cong [where f = "bindG _"] split: option.split)
next
  case (Act f)
  have "take_key_group rt es k (snd (f s)) c = take_key_group rt es k (snd (f s)) c'" for s
    using Act.prems(2) part_of_act [of _ f s] by (intro Act.IH [OF refl]) blast
  then show ?case using Act.prems(1) by (auto simp: map_prod_def split_beta)
qed auto

definition lone_build :: "hash_join \<Rightarrow> row \<Rightarrow> row list" where
  "lone_build j b = (if build_preserved j then [join_rows j b (null_row (set (probe_columns j)))] else [])"

definition lone_probe :: "hash_join \<Rightarrow> row \<Rightarrow> row list" where
  "lone_probe j p = (if probe_preserved j then [join_rows j (null_row (set (build_columns j))) p] else [])"

definition drain :: "(row \<Rightarrow> row list) \<Rightarrow> side \<Rightarrow> row list \<Rightarrow> (ctx, batch, row list) gen" where
  "drain lone x out = (case x of
       None \<Rightarrow> Ret out
     | Some (r, g) \<Rightarrow> for_each g (out @ lone r) (\<lambda>out r. Ret (out @ lone r)))"

text \<open>The rounds of \<open>_merge_join_rows\<close>; every round reads on in one of the inputs.\<close>

function merge_join ::
    "env \<Rightarrow> string \<Rightarrow> hash_join \<Rightarrow> side \<Rightarrow> side \<Rightarrow> row list \<Rightarrow> unit batches" where
  "merge_join ev op j (Some (b, bs)) (Some (p, ps)) out =
     bindG check_cancelled (\<lambda>_.
     bindG (lift (join_key (rt_of ev) (build_keys j) b)) (\<lambda>bk.
     bindG (lift (join_key (rt_of ev) (probe_keys j) p)) (\<lambda>pk.
     case bk of
       None \<Rightarrow> pull bs (\<lambda>b'. bindG (flush_full ev op (hj_schema j) (out @ lone_build j b)) (\<lambda>out.
           merge_join ev op j b' (Some (p, ps)) out))
     | Some bk \<Rightarrow> (case pk of
         None \<Rightarrow> pull ps (\<lambda>p'. bindG (flush_full ev op (hj_schema j) (out @ lone_probe j p)) (\<lambda>out.
           merge_join ev op j (Some (b, bs)) p' out))
       | Some pk \<Rightarrow>
           if key_eq bk pk then
             take_key_group (rt_of ev) (build_keys j) bk bs (\<lambda>bg b'.
             take_key_group (rt_of ev) (probe_keys j) pk ps (\<lambda>pg p'.
             bindG (flush_full ev op (hj_schema j)
                 (out @ concat (map (\<lambda>l. map (join_rows j l) (p # pg)) (b # bg)))) (\<lambda>out.
               merge_join ev op j b' p' out)))
           else bindG (lift (compare_join_keys bk pk)) (\<lambda>c.
             if c < 0 then pull bs (\<lambda>b'. bindG (flush_full ev op (hj_schema j) (out @ lone_build j b)) (\<lambda>out.
               merge_join ev op j b' (Some (p, ps)) out))
             else pull ps (\<lambda>p'. bindG (flush_full ev op (hj_schema j) (out @ lone_probe j p)) (\<lambda>out.
               merge_join ev op j (Some (b, bs)) p' out)))))))"
| "merge_join ev op j None x out = bindG (drain (lone_probe j) x out) (emit_rows ev op (hj_schema j))"
| "merge_join ev op j (Some y) None out = bindG (drain (lone_build j) (Some y) out) (emit_rows ev op (hj_schema j))"
  by pat_completeness auto
termination
proof (relation "inv_image (side_order <*lex*> side_order) (\<lambda>(ev, op, j, b, p, out). (b, p))")
  show "wf (inv_image (side_order <*lex*> side_order) (\<lambda>(ev, op, j, b, p, out). (b, p)))"
    by (intro wf_inv_image wf_lex_prod wf_side_order)
qed (auto simp: side_order_def)

definition merge_join_rows :: "env \<Rightarrow> string \<Rightarrow> hash_join \<Rightarrow> unit rows \<Rightarrow> unit rows \<Rightarrow> unit batches" where
  "merge_join_rows ev op j builds probes =
     pull builds (\<lambda>b. pull probes (\<lambda>p. merge_join ev op j b p []))"

definition sort_merge_partition ::
    "env \<Rightarrow> string \<Rightarrow> string \<Rightarrow> hash_join \<Rightarrow> schema \<Rightarrow> schema \<Rightarrow> row list list \<Rightarrow> row list list \<Rightarrow> unit batches" where
  "sort_merge_partition ev op frame j bschema pschema bfiles pfiles =
     merge_join_rows ev op j
       (external_sorted_rows ev (in_memory_sort ev) (op @ ''/sort'') (frame @ ''/build'') bschema
          (map asc_item (build_keys j)) ''external_sort'' (batches_from_files bschema bfiles))
       (external_sorted_rows ev (in_memory_sort ev) (op @ ''/sort'') (frame @ ''/probe'') pschema
          (map asc_item (probe_keys j)) ''external_sort'' (batches_from_files pschema pfiles))"

section \<open>The operator\<close>

text \<open>\<open>_join_partition\<close>: the build rows that fit, or \<open>None\<close> when one does not.\<close>

definition read_build ::
    "env \<Rightarrow> string \<Rightarrow> schema \<Rightarrow> row list list \<Rightarrow> (ctx, 'a, row list option) gen" where
  "read_build ev frame s files =
     bindG (for_loop (rows_from_files s files) [] (\<lambda>rows row rest.
         bindG (try_reserve_step frame (row_size ev row)) (\<lambda>ok.
           Ret (if ok then Inl (rows @ [row]) else Inr ())))) (\<lambda>r.
       Ret (case r of Inl rows \<Rightarrow> Some rows | Inr _ \<Rightarrow> None))"

definition bump_spill :: "(spill_metrics \<Rightarrow> spill_metrics) \<Rightarrow> (ctx, 'a, unit) gen" where
  "bump_spill f = modify (\<lambda>s. s\<lparr>cx_spill := f (cx_spill s)\<rparr>)"

definition join_partition ::
    "env \<Rightarrow> string \<Rightarrow> string \<Rightarrow> hash_join \<Rightarrow> schema \<Rightarrow> schema \<Rightarrow> row list list \<Rightarrow> row list list \<Rightarrow> unit batches" where
  "join_partition ev op frame j bschema pschema bfiles pfiles =
     bindG (read_build ev frame bschema bfiles) (\<lambda>fits. case fits of
         None \<Rightarrow> bindG (release_step frame) (\<lambda>_.
           bindG (bump_spill (\<lambda>sp. sp\<lparr>sort_merge_fallbacks := sort_merge_fallbacks sp + 1\<rparr>)) (\<lambda>_.
             sort_merge_partition ev op frame j bschema pschema bfiles pfiles))
       | Some builds \<Rightarrow> finallyG (release_frame frame)
           (hash_partition_rows ev op j builds (rows_from_files pschema pfiles)))"

definition partition_count :: nat where
  "partition_count = 8"

definition sub_schema :: "schema \<Rightarrow> string list \<Rightarrow> schema" where
  "sub_schema s names = \<lparr>sc_fields = map (\<lambda>n. the (find (\<lambda>f. sf_name f = n) (sc_fields s))) names, sc_metadata = []\<rparr>"

text \<open>\<open>_execute_partitioned\<close>.\<close>

definition partitioned_probe ::
    "env \<Rightarrow> string \<Rightarrow> string \<Rightarrow> hash_join \<Rightarrow> schema \<Rightarrow> row list list list \<Rightarrow> schema \<Rightarrow> unit rows \<Rightarrow> unit batches" where
  "partitioned_probe ev op frame j bschema bfiles pschema probes =
     bindG (partition_rows ev op (frame @ ''/probe'') pschema (probe_keys j) partition_count ''join-probe'' probes) (\<lambda>pfiles.
     bindG (bump_spill (\<lambda>sp. sp\<lparr>hash_partitions := hash_partitions sp
         + int (length (filter (\<lambda>i. bfiles ! i \<noteq> [] \<or> pfiles ! i \<noteq> []) [0..<partition_count]))\<rparr>)) (\<lambda>_.
       for_list [0..<partition_count] () (\<lambda>_ i.
         join_partition ev op (frame @ ''/partition'') j bschema pschema (bfiles ! i) (pfiles ! i))))"

definition execute_partitioned ::
    "env \<Rightarrow> string \<Rightarrow> string \<Rightarrow> hash_join \<Rightarrow> schema \<Rightarrow> unit rows \<Rightarrow> unit batches \<Rightarrow> unit batches" where
  "execute_partitioned ev op frame j bschema builds probe =
     bindG (partition_rows ev op (frame @ ''/build'') bschema (build_keys j) partition_count ''join-build'' builds) (\<lambda>bfiles.
     pull probe (\<lambda>first. case first of
         None \<Rightarrow> partitioned_probe ev op frame j bschema bfiles (sub_schema (hj_schema j) (probe_columns j)) (Ret ())
       | Some (b, rest) \<Rightarrow> partitioned_probe ev op frame j bschema bfiles (bt_schema b)
           (rows_from_batches op (Yield b rest))))"

text \<open>
  Reading the build side: the rows so far and their hash table; or, when a row is refused, the
  rows of its batch that are left, itself first.
\<close>

fun build_batch ::
    "env \<Rightarrow> string \<Rightarrow> hash_join \<Rightarrow> row list \<times> hash_table \<Rightarrow> row list
     \<Rightarrow> (ctx, 'a, (row list \<times> hash_table) + (row list \<times> row list)) gen" where
  "build_batch ev frame j st [] = Ret (Inl st)"
| "build_batch ev frame j st (row # rows) =
     bindG (try_reserve_step frame (row_size ev row)) (\<lambda>ok.
       if \<not> ok then Ret (Inr (fst st, row # rows))
       else bindG (lift (join_key (rt_of ev) (build_keys j) row)) (\<lambda>k.
         build_batch ev frame j (fst st @ [row], table_add k (length (fst st)) (snd st)) rows))"

definition build_step ::
    "env \<Rightarrow> string \<Rightarrow> string \<Rightarrow> hash_join \<Rightarrow> unit batches \<Rightarrow> row list \<times> hash_table \<Rightarrow> batch \<Rightarrow> unit batches
     \<Rightarrow> (ctx, batch, (row list \<times> hash_table) + unit) gen" where
  "build_step ev op frame j probe st b rest =
     bindG check_cancelled (\<lambda>_. bindG (count_input op (length (bt_rows b))) (\<lambda>_.
     bindG (build_batch ev frame j st (bt_rows b)) (\<lambda>r. case r of
         Inl st' \<Rightarrow> Ret (Inl st')
       | Inr (rows, left) \<Rightarrow> bindG (release_step frame) (\<lambda>_.
           bindG (execute_partitioned ev op frame j (bt_schema b)
               (bindG (from_list (rows @ left)) (\<lambda>_. rows_from_batches op rest)) probe)
             (\<lambda>_. Ret (Inr ()))))))"

definition build_filter :: "env \<Rightarrow> hash_join \<Rightarrow> row list \<Rightarrow> runtime_filter res" where
  "build_filter ev j builds = bindR (create_filter ev (length (build_keys j)) (max (int (length builds)) 1)) (\<lambda>f.
     foldR (\<lambda>f row. bindR (join_key (rt_of ev) (build_keys j) row) (\<lambda>k. case k of
       None \<Rightarrow> Inr f | Some vs \<Rightarrow> filter_add ev f vs)) f builds)"

definition publish_filter :: "env \<Rightarrow> hash_join \<Rightarrow> row list \<Rightarrow> (ctx, 'a, unit) gen" where
  "publish_filter ev j builds = (case hj_channel j of
       None \<Rightarrow> Ret ()
     | Some ch \<Rightarrow> bindG (lift (build_filter ev j builds)) (\<lambda>f.
         modify (\<lambda>s. s\<lparr>cx_channels := (cx_channels s)(ch := Some f)\<rparr>)))"

definition build_names :: "hash_join \<Rightarrow> row list \<Rightarrow> string set" where
  "build_names j builds = (case builds of [] \<Rightarrow> set (build_columns j) | r # _ \<Rightarrow> dom r)"

text \<open>Probing in memory; the last variable is \<open>probe_names\<close>.\<close>

definition probe_batch ::
    "env \<Rightarrow> string \<Rightarrow> hash_join \<Rightarrow> row list \<Rightarrow> hash_table \<Rightarrow> (row list \<times> nat set) \<times> string list \<Rightarrow> batch
     \<Rightarrow> (ctx, batch, (row list \<times> nat set) \<times> string list) gen" where
  "probe_batch ev op j builds t st b =
     bindG check_cancelled (\<lambda>_. bindG (count_input op (length (bt_rows b))) (\<lambda>_.
     bindG (for_list (bt_rows b) (fst st) (\<lambda>st row. bindG check_cancelled (\<lambda>_.
         probe_step ev op j builds t (null_row (build_names j builds)) st row))) (\<lambda>st'.
       Ret (st', field_names (bt_schema b)))))"

definition finish_probe ::
    "env \<Rightarrow> string \<Rightarrow> hash_join \<Rightarrow> row list \<Rightarrow> (row list \<times> nat set) \<times> string list \<Rightarrow> unit batches" where
  "finish_probe ev op j builds st = (case st of ((out, matched), names) \<Rightarrow>
     let names = (if names = [] then probe_columns j else names) in
     bindG (if build_preserved j
            then for_list (unmatched_builds j builds matched (null_row (set names))) out
              (\<lambda>out r. flush_full ev op (hj_schema j) (out @ [r]))
            else Ret out) (emit_rows ev op (hj_schema j)))"

definition hash_join_op ::
    "env \<Rightarrow> string \<Rightarrow> string \<Rightarrow> hash_join \<Rightarrow> unit batches \<Rightarrow> unit batches \<Rightarrow> unit batches" where
  "hash_join_op ev op frame j left right =
     (let build = (if hj_build_left j then left else right);
          probe = (if hj_build_left j then right else left) in
      finallyG (finish_frame op frame)
        (bindG (for_loop build ([], []) (build_step ev op frame j probe)) (\<lambda>r. case r of
            Inr _ \<Rightarrow> Ret ()
          | Inl (builds, t) \<Rightarrow> bindG (publish_filter ev j builds) (\<lambda>_.
              bindG (for_each probe (([], {}), []) (probe_batch ev op j builds t)) (\<lambda>st.
                finish_probe ev op j builds st)))))"

end
