(* ===== verification/OperatorLaws.thy ===== *)
theory OperatorLaws
  imports Joins
begin

text \<open>
  What each streaming operator of \<open>execution/operators.py\<close> promises, in every execution context:
  its output as a function of the rows its input delivers, and the exceptions it may raise.
\<close>

section \<open>A small input\<close>

text \<open>An environment whose conversions change no row, and three rows under a schema.\<close>

abbreviation exact :: "env \<Rightarrow> env" where
  "exact ev \<equiv> ev\<lparr>ev_conform := \<lambda>_ r. Inr r\<rparr>"

definition sample_rows :: "row list" where
  "sample_rows = [[''g'' \<mapsto> VInt 2, ''x'' \<mapsto> VInt 5], [''g'' \<mapsto> VInt 1, ''x'' \<mapsto> VInt 7],
     [''g'' \<mapsto> VInt 2, ''x'' \<mapsto> VInt 6]]"

definition sample_schema :: schema where
  "sample_schema = \<lparr>sc_fields = [], sc_metadata = []\<rparr>"

definition sample_input :: "unit batches" where
  "sample_input = from_list [\<lparr>bt_schema = sample_schema, bt_rows = sample_rows\<rparr>]"

abbreviation sample_column :: "string \<Rightarrow> expr" where
  "sample_column c \<equiv> Column c [] (TypeInfo T_INT64 True)"

lemma conversion_exact [simp]: "conversion_ok (exact ev) s" "conforms (exact ev) s r"
  by (simp_all add: conversion_ok_def conforms_def)

lemma conformed_exact [simp]: "conformed (exact ev) s rows out \<longleftrightarrow> out = rows"
  by (simp add: conformed_conforming list_all_iff)

lemma delivers_sample:
  "delivers (batch_ok (exact ev) sample_schema) (\<lambda>rows. rows = sample_rows) (\<lambda>_. False) sample_input"
  unfolding sample_input_def delivers_from_list by (simp add: batch_ok_def list_all_iff)

lemma delivers_sample_in:
  "delivers (\<lambda>b. batch_ok (exact ev) sample_schema b \<and> set (bt_rows b) \<subseteq> set sample_rows)
     (\<lambda>rows. rows = sample_rows) (\<lambda>_. False) sample_input"
  unfolding sample_input_def delivers_from_list by (simp add: batch_ok_def list_all_iff)

lemma orderable_sample: "orderable rt [SortExpression (sample_column ''g'') asc nf] (set sample_rows)"
  by (simp add: orderable_def sample_rows_def one_kind_def order_value_def is_ok_def qualified_name_def is_nan_def)

text \<open>Counting rows.\<close>

definition sample_count :: named_expression where
  "sample_count = NamedExpression ''n'' (AggregateFunction ''count'' [] (TypeInfo T_INT64 False) False)"

lemma count_folds:
  "as_function st = ne_expression sample_count \<Longrightarrow>
     \<exists>st'. foldR (agg_add rt) st rows = Inr st' \<and> as_function st' = ne_expression sample_count"
  by (induction rows arbitrary: st) (auto simp: agg_add_def agg_update_def sample_count_def)

lemma agg_errors_sample: "group_by \<in> {[], [sample_column ''g'']} \<Longrightarrow>
    agg_errors rt group_by [sample_count] (set sample_rows) E"
proof -
  have "bindR (agg_fold rt rows sample_count) (agg_finish rt) \<noteq> Inl e" for rows e
    using count_folds [of "new_state (ne_expression sample_count)" rt rows]
    by (auto simp: agg_fold_def new_state_def agg_finish_def sample_count_def)
  then show "group_by \<in> {[], [sample_column ''g'']} \<Longrightarrow> agg_errors rt group_by [sample_count] (set sample_rows) E"
    by (auto simp: agg_errors_def row_key_def sample_rows_def qualified_name_def)
qed

lemma all_aggregates_sample: "all_aggregates [sample_count]"
  by (simp add: all_aggregates_def sample_count_def)

lemma plain_keys_sample: "group_by \<in> {[], [sample_column ''g'']} \<Longrightarrow> plain_keys rt group_by (set sample_rows)"
  by (auto simp: plain_keys_def row_key_def sample_rows_def qualified_name_def is_nan_def)

lemma agg_errors_mono: "(\<And>e. E e \<Longrightarrow> E' e) \<Longrightarrow> agg_errors rt group_by aggs R E \<Longrightarrow> agg_errors rt group_by aggs R E'"
  unfolding agg_errors_def by meson

section \<open>Streaming operators\<close>

text \<open>
  A scan renames the columns of its table after the alias and lets exactly the rows pass that
  every runtime filter admits, in the order of the data source.
\<close>

theorem scan_op_delivers:
  assumes "delivers (batch_ok ev s) P E source"
    and "bindings = map (\<lambda>(es, f). (es, Given f)) F"
    and "t = (if alias \<noteq> [] then s\<lparr>sc_fields := map (rename_field alias) (sc_fields s)\<rparr> else s)"
    and "\<And>r. conforms ev s r \<Longrightarrow> conforms ev t (if alias \<noteq> [] then rename_row alias r else r)"
    and "\<And>r e. conforms ev t r \<Longrightarrow> row_survives ev F r = Inl e \<Longrightarrow> E e"
  shows "delivers (batch_ok ev t)
    (\<lambda>out. \<exists>rows. P rows \<and> out = filter (\<lambda>r. row_survives ev F r = Inr True)
       (map (if alias \<noteq> [] then rename_row alias else id) rows)) E (scan_op ev op alias bindings source)"
proof (rule deliversI [OF _ assms(1)])
  fix inv :: "ctx \<Rightarrow> bool" and err :: "exn \<Rightarrow> bool"
  assume ctx: "execution_context inv err" and E: "\<And>e. E e \<Longrightarrow> err e"
    and input: "wp inv (batch_ok ev s) source (\<lambda>bs _. P (rows_of bs)) err"
  have "resolved_filters st bindings = F" for st
    unfolding assms(2) by (induction F) auto
  then show "wp inv (batch_ok ev t) (scan_op ev op alias bindings source) (\<lambda>bs _. \<exists>rows. P rows
      \<and> rows_of bs = filter (\<lambda>r. row_survives ev F r = Inr True) (map (if alias \<noteq> [] then rename_row alias else id) rows)) err"
    using assms(3,4,5) E by (intro execution_context.wp_scan_op [OF ctx input]) blast+
qed

theorem scan_op_delivers_witness:
  "\<forall>ev. delivers (batch_ok (exact ev) sample_schema) (\<lambda>out. \<exists>rows. rows = sample_rows
      \<and> out = filter (\<lambda>r. row_survives (exact ev) [] r = Inr True) (map (rename_row ''t'') rows)) (\<lambda>_. False)
    (scan_op (exact ev) ''scan'' ''t'' [] sample_input)"
proof
  fix ev
  show "delivers (batch_ok (exact ev) sample_schema) (\<lambda>out. \<exists>rows. rows = sample_rows
      \<and> out = filter (\<lambda>r. row_survives (exact ev) [] r = Inr True) (map (rename_row ''t'') rows)) (\<lambda>_. False)
    (scan_op (exact ev) ''scan'' ''t'' [] sample_input)"
    using scan_op_delivers [OF delivers_sample [of ev], of "[]" "[]" sample_schema "''t''" "''scan''"]
    by (simp add: sample_schema_def)
qed

text \<open>
  A filter delivers exactly the rows on which its predicate is TRUE, not those on which it is FALSE or
  NULL, in order, and raises only what evaluating the predicate raises.
\<close>

theorem filter_op_delivers:
  assumes "delivers (batch_ok ev s) P E input" and "conversion_ok ev s"
    and "\<And>r e. conforms ev s r \<Longrightarrow> evaluate (rt_of ev) r predicate = Inl e \<Longrightarrow> E e"
  shows "delivers (batch_ok ev s) (\<lambda>out. \<exists>rows. P rows
      \<and> out = filter (\<lambda>r. evaluate (rt_of ev) r predicate = Inr (VBool True)) rows) E
    (filter_op ev op predicate input)"
  by (rule deliversI [OF _ assms(1)], rule execution_context.wp_filter_op) (use assms(2,3) in auto)

theorem filter_op_delivers_witness:
  "\<forall>ev. delivers (batch_ok (exact ev) sample_schema) (\<lambda>out. \<exists>rows. rows = sample_rows
      \<and> out = filter (\<lambda>r. evaluate (rt_of (exact ev)) r (Literal (VBool True) (TypeInfo T_BOOLEAN False))
           = Inr (VBool True)) rows) (\<lambda>_. False)
    (filter_op (exact ev) ''filter'' (Literal (VBool True) (TypeInfo T_BOOLEAN False)) sample_input)"
  by (rule allI, rule filter_op_delivers [OF delivers_sample]) simp_all

text \<open>
  A projection evaluates its expressions on every row and delivers the rows converted to the
  output schema, one for one and in order.
\<close>

theorem project_op_delivers:
  assumes "delivers (batch_ok ev s) P E input" and "conversion_ok ev out"
    and "\<And>r e. conforms ev s r \<Longrightarrow> project_row (rt_of ev) items r = Inl e \<Longrightarrow> E e"
    and "\<And>r p e. conforms ev s r \<Longrightarrow> project_row (rt_of ev) items r = Inr p \<Longrightarrow> ev_conform ev out p = Inl e \<Longrightarrow> E e"
  shows "delivers (batch_ok ev out) (\<lambda>res. \<exists>rows ps. P rows
      \<and> mapR (project_row (rt_of ev) items) rows = Inr ps \<and> conformed ev out ps res) E
    (project_op ev op items out input)"
proof (rule deliversI [OF _ assms(1)])
  fix inv :: "ctx \<Rightarrow> bool" and err :: "exn \<Rightarrow> bool"
  assume "execution_context inv err" and "\<And>e. E e \<Longrightarrow> err e"
    and "wp inv (batch_ok ev s) input (\<lambda>bs _. P (rows_of bs)) err"
  from execution_context.wp_project_op [OF this(1,3) assms(2), of items op] this(2) assms(3,4)
  show "wp inv (batch_ok ev out) (project_op ev op items out input) (\<lambda>bs _. \<exists>rows ps. P rows
      \<and> mapR (project_row (rt_of ev) items) rows = Inr ps \<and> conformed ev out ps (rows_of bs)) err"
    by (auto elim!: wp_mono)
qed

theorem project_op_delivers_witness:
  "\<forall>ev. delivers (batch_ok (exact ev) sample_schema) (\<lambda>res. \<exists>rows ps. rows = sample_rows
      \<and> mapR (project_row (rt_of (exact ev)) [NamedExpression ''one'' (Literal (VInt 1) (TypeInfo T_INT64 False))]) rows = Inr ps
      \<and> conformed (exact ev) sample_schema ps res) (\<lambda>_. False)
    (project_op (exact ev) ''project'' [NamedExpression ''one'' (Literal (VInt 1) (TypeInfo T_INT64 False))]
       sample_schema sample_input)"
  by (rule allI, rule project_op_delivers [OF delivers_sample]) (auto simp: project_row_def)

text \<open>
  A limit delivers the first rows of its input, and stops reading: either the input came to its
  end, or the batches read so far hold enough rows.
\<close>

theorem limit_op_takes:
  assumes "delivers (batch_ok ev s) P E input"
  shows "delivers (batch_ok ev s) (\<lambda>out. \<exists>seen. out = take n (rows_of seen)
      \<and> (may_return input seen \<and> P (rows_of seen) \<or> may_yield input seen \<and> n \<le> length (rows_of seen))) E
    (limit_op op n input)"
  by (rule deliversI [OF _ assms], rule execution_context.wp_limit_op)

theorem limit_op_takes_witness:
  "\<forall>ev. delivers (batch_ok (exact ev) sample_schema) (\<lambda>out. \<exists>seen. out = take 2 (rows_of seen)
      \<and> (may_return sample_input seen \<and> rows_of seen = sample_rows
         \<or> may_yield sample_input seen \<and> 2 \<le> length (rows_of seen))) (\<lambda>_. False)
    (limit_op ''limit'' 2 sample_input)"
  by (rule allI, rule limit_op_takes [OF delivers_sample])

text \<open>
  C32. ORDER BY delivers a stable sort of its input under the SQL order of the keys, whatever the
  memory account refuses and however many runs are spilled and merged; nothing else is raised.
\<close>

theorem order_op_sorts:
  assumes "delivers (\<lambda>b. batch_ok ev s b \<and> set (bt_rows b) \<subseteq> R) P E input"
    and "orderable (rt_of ev) orders R" and "conversion_ok ev s"
  shows "delivers (batch_ok ev s) (\<lambda>out. \<exists>rows. P rows \<and> out = sort (row_cmp (rt_of ev) orders) rows) E
    (order_op ev (in_memory_sort ev) op frame orders s input)"
  by (rule deliversI [OF _ assms(1)], rule execution_context.wp_order_op) (use assms(2,3) in auto)

theorem order_op_sorts_witness:
  "\<forall>ev. delivers (batch_ok (exact ev) sample_schema)
      (\<lambda>out. \<exists>rows. rows = sample_rows
         \<and> out = sort (row_cmp (rt_of (exact ev)) [SortExpression (sample_column ''g'') True False]) rows) (\<lambda>_. False)
    (order_op (exact ev) (in_memory_sort (exact ev)) ''order'' ''order'' [SortExpression (sample_column ''g'') True False]
       sample_schema sample_input)"
  by (rule allI, rule order_op_sorts [OF delivers_sample_in]) (simp_all add: orderable_sample)

section \<open>Aggregation\<close>

text \<open>
  C34. The hash aggregate delivers one row per group of equal keys, in the order in which the keys
  first occur, with every aggregate folded over the rows of its group; without keys, one row even
  for an empty input.
\<close>

theorem hash_aggregate_delivers:
  assumes "delivers (\<lambda>b. batch_ok ev s b \<and> set (bt_rows b) \<subseteq> R) P E input"
    and "all_aggregates aggs" and "plain_keys (rt_of ev) group_by R"
    and "agg_errors (rt_of ev) group_by aggs R E"
    and "conversion_ok ev out" and "\<And>r e. ev_conform ev out r = Inl e \<Longrightarrow> E e"
  shows "delivers (batch_ok ev out) (\<lambda>res. \<exists>rows outs. P rows
      \<and> aggregate_rows (rt_of ev) [] group_by aggs rows = Inr outs \<and> conformed ev out outs res) E
    (hash_aggregate_op ev op group_by aggs out input)"
proof (rule deliversI [OF _ assms(1)])
  fix inv :: "ctx \<Rightarrow> bool" and err :: "exn \<Rightarrow> bool"
  assume "execution_context inv err" and "\<And>e. E e \<Longrightarrow> err e"
    and "wp inv (\<lambda>b. batch_ok ev s b \<and> set (bt_rows b) \<subseteq> R) input (\<lambda>bs _. P (rows_of bs)) err"
  moreover from this(2) have "agg_errors (rt_of ev) group_by aggs R err"
    using assms(4) by (rule agg_errors_mono)
  ultimately show "wp inv (batch_ok ev out) (hash_aggregate_op ev op group_by aggs out input) (\<lambda>bs _. \<exists>rows outs. P rows
      \<and> aggregate_rows (rt_of ev) [] group_by aggs rows = Inr outs \<and> conformed ev out outs (rows_of bs)) err"
    using assms(2,3,5,6) by (intro execution_context.wp_hash_aggregate_op) auto
qed

theorem hash_aggregate_delivers_witness:
  "\<forall>ev. delivers (batch_ok (exact ev) sample_schema) (\<lambda>res. \<exists>rows outs. rows = sample_rows
      \<and> aggregate_rows (rt_of (exact ev)) [] [sample_column ''g''] [sample_count] rows = Inr outs
      \<and> conformed (exact ev) sample_schema outs res) (\<lambda>_. False)
    (hash_aggregate_op (exact ev) ''agg'' [sample_column ''g''] [sample_count] sample_schema sample_input)"
  by (rule allI, rule hash_aggregate_delivers [OF delivers_sample_in])
    (simp_all add: agg_errors_sample plain_keys_sample all_aggregates_sample)

lemma wp_sorted_groups:
  assumes ctx: "execution_context I err"
    and input: "wp I (\<lambda>b. batch_ok ev s b \<and> set (bt_rows b) \<subseteq> R) input (\<lambda>bs _. P (rows_of bs)) err"
    and ord: "orderable (rt_of ev) (map asc_item group_by) R" and keys: "group_by \<noteq> []"
    and "all_aggregates aggs" and "agg_errors (rt_of ev) group_by aggs R err"
    and "conversion_ok ev out" and "\<And>r e. ev_conform ev out r = Inl e \<Longrightarrow> err e"
  shows "wp I (batch_ok ev out) (sort_aggregate_op ev op frame group_by aggs s out input)
      (\<lambda>bs _. \<exists>rows outs sorted_outs. P rows \<and> aggregate_rows (rt_of ev) [] group_by aggs rows = Inr outs
         \<and> mset sorted_outs = mset outs \<and> conformed ev out sorted_outs (rows_of bs)) err"
proof (rule wp_mono [OF execution_context.wp_sort_aggregate_op [OF ctx input ord keys assms(5-7)]])
  fix bs and u :: unit
  assume "\<exists>rows outs. P rows \<and> set rows \<subseteq> R
     \<and> aggregate_rows (rt_of ev) [] group_by aggs (sort (row_cmp (rt_of ev) (map asc_item group_by)) rows) = Inr outs
     \<and> conformed ev out outs (rows_of bs)"
  then obtain rows outs where rows: "P rows" "set rows \<subseteq> R" and conf: "conformed ev out outs (rows_of bs)"
    and agg: "aggregate_rows (rt_of ev) [] group_by aggs (sort (row_cmp (rt_of ev) (map asc_item group_by)) rows) = Inr outs"
    by blast
  from aggregate_rows_sorted [OF orderable_subset [OF ord rows(2)] keys agg] rows(1) conf
  show "\<exists>rows outs sorted_outs. P rows \<and> aggregate_rows (rt_of ev) [] group_by aggs rows = Inr outs
       \<and> mset sorted_outs = mset outs \<and> conformed ev out sorted_outs (rows_of bs)" by metis
qed (use assms(8) in auto)

text \<open>
  C33. The sort aggregate, which sorts its input externally and folds one group at a time, delivers
  the same rows as the hash aggregate over the same input, in another order.
\<close>

theorem sort_aggregate_is_hash_aggregate:
  assumes "delivers (\<lambda>b. batch_ok ev s b \<and> set (bt_rows b) \<subseteq> R) P E input"
    and "orderable (rt_of ev) (map asc_item group_by) R" and "group_by \<noteq> []"
    and "all_aggregates aggs" and "agg_errors (rt_of ev) group_by aggs R E"
    and "conversion_ok ev out" and "\<And>r e. ev_conform ev out r = Inl e \<Longrightarrow> E e"
  shows "delivers (batch_ok ev out) (\<lambda>res. \<exists>rows outs sorted_outs. P rows
      \<and> aggregate_rows (rt_of ev) [] group_by aggs rows = Inr outs
      \<and> mset sorted_outs = mset outs \<and> conformed ev out sorted_outs res) E
    (sort_aggregate_op ev op frame group_by aggs s out input)"
proof (rule deliversI [OF _ assms(1)])
  fix inv :: "ctx \<Rightarrow> bool" and err :: "exn \<Rightarrow> bool"
  assume ctx: "execution_context inv err" and E: "\<And>e. E e \<Longrightarrow> err e"
    and input: "wp inv (\<lambda>b. batch_ok ev s b \<and> set (bt_rows b) \<subseteq> R) input (\<lambda>bs _. P (rows_of bs)) err"
  have "agg_errors (rt_of ev) group_by aggs R err" using E assms(5) by (rule agg_errors_mono)
  then show "wp inv (batch_ok ev out) (sort_aggregate_op ev op frame group_by aggs s out input)
      (\<lambda>bs _. \<exists>rows outs sorted_outs. P rows \<and> aggregate_rows (rt_of ev) [] group_by aggs rows = Inr outs
         \<and> mset sorted_outs = mset outs \<and> conformed ev out sorted_outs (rows_of bs)) err"
    using assms(2-4,6,7) E by (intro wp_sorted_groups [OF ctx input]) auto
qed

theorem sort_aggregate_is_hash_aggregate_witness:
  "\<forall>ev. delivers (batch_ok (exact ev) sample_schema) (\<lambda>res. \<exists>rows outs sorted_outs. rows = sample_rows
      \<and> aggregate_rows (rt_of (exact ev)) [] [sample_column ''g''] [sample_count] rows = Inr outs
      \<and> mset sorted_outs = mset outs \<and> conformed (exact ev) sample_schema sorted_outs res) (\<lambda>_. False)
    (sort_aggregate_op (exact ev) ''agg'' ''agg'' [sample_column ''g''] [sample_count] sample_schema sample_schema sample_input)"
  by (rule allI, rule sort_aggregate_is_hash_aggregate [OF delivers_sample_in])
    (simp_all add: agg_errors_sample orderable_sample all_aggregates_sample asc_item_def)

text \<open>
  Grouping sets deliver, one grouping set after the other, the aggregate of the whole input by
  that set, with NULL in the columns of the other sets.
\<close>

theorem grouping_sets_delivers:
  assumes "delivers (\<lambda>b. batch_ok ev s b \<and> set (bt_rows b) \<subseteq> R) P E input"
    and "all_aggregates aggs"
    and "\<forall>g \<in> set gsets. plain_keys (rt_of ev) g R \<and> agg_errors (rt_of ev) g aggs R E"
    and "conversion_ok ev out" and "\<And>r e. ev_conform ev out r = Inl e \<Longrightarrow> E e"
  shows "delivers (batch_ok ev out) (\<lambda>res. \<exists>rows outs. P rows
      \<and> mapR (\<lambda>g. aggregate_rows (rt_of ev) (unique_expressions (rt_of ev) gsets) g aggs rows) gsets = Inr outs
      \<and> conformed ev out (concat outs) res) E
    (grouping_sets_op ev op gsets aggs out input)"
proof (rule deliversI [OF _ assms(1)])
  fix inv :: "ctx \<Rightarrow> bool" and err :: "exn \<Rightarrow> bool"
  assume ctx: "execution_context inv err" and E: "\<And>e. E e \<Longrightarrow> err e"
    and input: "wp inv (\<lambda>b. batch_ok ev s b \<and> set (bt_rows b) \<subseteq> R) input (\<lambda>bs _. P (rows_of bs)) err"
  have "plain_keys (rt_of ev) g R \<and> agg_errors (rt_of ev) g aggs R err" if "g \<in> set gsets" for g
    using assms(3) that E by (blast intro: agg_errors_mono)
  from execution_context.wp_grouping_sets_op [OF ctx input assms(2) this assms(4)] assms(5) E
  show "wp inv (batch_ok ev out) (grouping_sets_op ev op gsets aggs out input) (\<lambda>bs _. \<exists>rows outs. P rows
      \<and> mapR (\<lambda>g. aggregate_rows (rt_of ev) (unique_expressions (rt_of ev) gsets) g aggs rows) gsets = Inr outs
      \<and> conformed ev out (concat outs) (rows_of bs)) err" by blast
qed

theorem grouping_sets_delivers_witness:
  "\<forall>ev. delivers (batch_ok (exact ev) sample_schema) (\<lambda>res. \<exists>rows outs. rows = sample_rows
      \<and> mapR (\<lambda>g. aggregate_rows (rt_of (exact ev)) (unique_expressions (rt_of (exact ev)) [[sample_column ''g''], []])
            g [sample_count] rows) [[sample_column ''g''], []] = Inr outs
      \<and> conformed (exact ev) sample_schema (concat outs) res) (\<lambda>_. False)
    (grouping_sets_op (exact ev) ''gs'' [[sample_column ''g''], []] [sample_count] sample_schema sample_input)"
  by (rule allI, rule grouping_sets_delivers [OF delivers_sample_in])
    (simp_all add: agg_errors_sample plain_keys_sample all_aggregates_sample)

end
