(* ===== verification/JoinLaws.thy ===== *)
theory JoinLaws
  imports Joins
begin

text \<open>
  The hash join is the nested-loop join: its specification, the hash table, the partitioning by
  the hash of the key, and the merge of sorted partitions.
\<close>

section \<open>The nested-loop join\<close>

definition key_of :: "py_runtime \<Rightarrow> expr list \<Rightarrow> row \<Rightarrow> group_key option" where
  "key_of rt es row = (case join_key rt es row of Inr k \<Rightarrow> k | Inl _ \<Rightarrow> None)"

definition joins :: "py_runtime \<Rightarrow> hash_join \<Rightarrow> row \<Rightarrow> row \<Rightarrow> bool" where
  "joins rt j b p = (case key_of rt (build_keys j) b of
       None \<Rightarrow> False
     | Some k \<Rightarrow> (case key_of rt (probe_keys j) p of None \<Rightarrow> False | Some k' \<Rightarrow> key_eq k k'))"

text \<open>The output for one probe row, and for the build rows that no probe row matches.\<close>

definition probe_output :: "py_runtime \<Rightarrow> hash_join \<Rightarrow> row list \<Rightarrow> row \<Rightarrow> row list" where
  "probe_output rt j bs p = (let ms = filter (\<lambda>b. joins rt j b p) bs in
     if ms = [] then lone_probe j p else map (\<lambda>b. join_rows j b p) ms)"

definition build_output :: "py_runtime \<Rightarrow> hash_join \<Rightarrow> row list \<Rightarrow> row list \<Rightarrow> row list" where
  "build_output rt j bs ps = concat (map (lone_build j) (filter (\<lambda>b. \<forall>p \<in> set ps. \<not> joins rt j b p) bs))"

definition nested_loop_join :: "py_runtime \<Rightarrow> hash_join \<Rightarrow> row list \<Rightarrow> row list \<Rightarrow> row list" where
  "nested_loop_join rt j bs ps = concat (map (probe_output rt j bs) ps) @ build_output rt j bs ps"

text \<open>Rows whose join keys evaluate.\<close>

definition keyed :: "py_runtime \<Rightarrow> expr list \<Rightarrow> row set \<Rightarrow> bool" where
  "keyed rt es R \<longleftrightarrow> (\<forall>r \<in> R. is_ok (join_key rt es r))"

lemma keyed_key: "keyed rt es R \<Longrightarrow> r \<in> R \<Longrightarrow> join_key rt es r = Inr (key_of rt es r)"
  by (auto simp: keyed_def key_of_def is_ok_def split: sum.splits)

section \<open>The hash table\<close>

lemma table_get_add:
  "table_get (partition_add k' i t) k = table_get t k @ (if key_eq k' k then [i] else [])"
  by (induction t) (auto, (metis key_eq_trans key_eq_sym)+)

definition table_of :: "py_runtime \<Rightarrow> hash_join \<Rightarrow> row list \<Rightarrow> hash_table \<Rightarrow> bool" where
  "table_of rt j bs t \<longleftrightarrow> (\<forall>k. table_get t k = filter (\<lambda>i.
     case key_of rt (build_keys j) (bs ! i) of None \<Rightarrow> False | Some k' \<Rightarrow> key_eq k' k) [0..<length bs])"

lemma table_of_Nil: "table_of rt j [] []"
  by (simp add: table_of_def)

lemma table_of_snoc:
  assumes "table_of rt j bs t"
  shows "table_of rt j (bs @ [b]) (table_add (key_of rt (build_keys j) b) (length bs) t)"
proof -
  have "filter (\<lambda>i. case key_of rt (build_keys j) ((bs @ [b]) ! i) of None \<Rightarrow> False | Some k' \<Rightarrow> key_eq k' k) [0..<length bs]
      = filter (\<lambda>i. case key_of rt (build_keys j) (bs ! i) of None \<Rightarrow> False | Some k' \<Rightarrow> key_eq k' k) [0..<length bs]" for k
    by (rule filter_cong) (auto simp: nth_append)
  then show ?thesis
    using assms by (auto simp: table_of_def table_add_def table_get_add split: option.split)
qed

lemma table_of_add:
  assumes "table_of rt j bs t" and "keyed rt (build_keys j) {b}"
  shows "\<exists>k. join_key rt (build_keys j) b = Inr k \<and> table_of rt j (bs @ [b]) (table_add k (length bs) t)"
  using table_of_snoc [OF assms(1)] keyed_key [OF assms(2)] by auto

lemma build_table_of:
  assumes "keyed rt (build_keys j) (set bs)"
  shows "\<exists>t. build_table rt j bs = Inr t \<and> table_of rt j bs t"
proof -
  let ?step = "\<lambda>t i. bindR (join_key rt (build_keys j) (bs ! i)) (\<lambda>k. Inr (table_add k i t))"
  have "\<exists>t. foldR ?step [] [0..<n] = Inr t \<and> table_of rt j (take n bs) t" if "n \<le> length bs" for n
    using that
  proof (induction n)
    case 0
    then show ?case by (simp add: table_of_Nil)
  next
    case (Suc n)
    then obtain t where t: "foldR ?step [] [0..<n] = Inr t" "table_of rt j (take n bs) t" by auto
    have "keyed rt (build_keys j) {bs ! n}"
      using assms Suc.prems by (simp add: keyed_def)
    from table_of_add [OF t(2) this] show ?case
      using t(1) Suc.prems by (auto simp: foldR_append take_Suc_conv_app_nth)
  qed
  from this [of "length bs"] show ?thesis by (simp add: build_table_def)
qed

text \<open>The rows found through the table are the rows that join.\<close>

lemma table_matches:
  assumes "table_of rt j bs t"
  shows "(case key_of rt (probe_keys j) p of None \<Rightarrow> [] | Some k \<Rightarrow> table_get t k)
    = filter (\<lambda>i. joins rt j (bs ! i) p) [0..<length bs]"
  using assms by (auto simp: table_of_def joins_def split: option.split intro!: filter_cong)

lemma map_nth_filter: "map (\<lambda>i. f (bs ! i)) (filter (\<lambda>i. P (bs ! i)) [0..<length bs]) = map f (filter P bs)"
proof -
  have "filter P bs = filter P (map ((!) bs) [0..<length bs])" by (simp add: map_nth)
  then show ?thesis by (simp add: filter_map comp_def)
qed

definition matched_in :: "py_runtime \<Rightarrow> hash_join \<Rightarrow> row list \<Rightarrow> row list \<Rightarrow> nat set" where
  "matched_in rt j bs ps = {i. i < length bs \<and> (\<exists>p \<in> set ps. joins rt j (bs ! i) p)}"

lemma probe_row_output:
  assumes "table_of rt j bs t" and "keyed rt (probe_keys j) {p}"
  shows "probe_row rt j bs t (null_row (set (build_columns j))) (out, matched_in rt j bs seen) p
    = Inr (out @ probe_output rt j bs p, matched_in rt j bs (seen @ [p]))"
proof -
  let ?ms = "filter (\<lambda>i. joins rt j (bs ! i) p) [0..<length bs]"
  have ms: "map (\<lambda>i. join_rows j (bs ! i) p) ?ms = map (\<lambda>b. join_rows j b p) (filter (\<lambda>b. joins rt j b p) bs)"
    by (rule map_nth_filter)
  then have empty: "?ms = [] \<longleftrightarrow> filter (\<lambda>b. joins rt j b p) bs = []" by (metis map_is_Nil_conv)
  have matched: "matched_in rt j bs (seen @ [p]) = matched_in rt j bs seen \<union> set ?ms"
    by (auto simp: matched_in_def)
  have key: "join_key rt (probe_keys j) p = Inr (key_of rt (probe_keys j) p)"
    using keyed_key [OF assms(2)] by simp
  show ?thesis
  proof (cases "?ms = []")
    case True
    then show ?thesis
      using key empty matched
      by (simp add: probe_row_def table_matches [OF assms(1)] probe_output_def lone_probe_def)
  next
    case False
    then show ?thesis
      using key empty ms matched
      by (simp add: probe_row_def table_matches [OF assms(1)] probe_output_def)
  qed
qed

lemma unmatched_output:
  "(if build_preserved j then unmatched_builds j bs (matched_in rt j bs ps) (null_row (set (probe_columns j))) else [])
   = build_output rt j bs ps"
proof -
  have "filter (\<lambda>i. i \<notin> matched_in rt j bs ps) [0..<length bs]
      = filter (\<lambda>i. \<forall>p \<in> set ps. \<not> joins rt j (bs ! i) p) [0..<length bs]"
    by (rule filter_cong) (auto simp: matched_in_def)
  then show ?thesis
    using map_nth_filter [of "\<lambda>b. join_rows j b (null_row (set (probe_columns j)))" bs
        "\<lambda>b. \<forall>p \<in> set ps. \<not> joins rt j b p"]
    by (simp add: unmatched_builds_def build_output_def lone_build_def [abs_def] concat_map_singleton)
qed

section \<open>Probing\<close>

text \<open>The rows emitted and buffered so far are the output for the probe rows seen.\<close>

definition probed ::
    "env \<Rightarrow> hash_join \<Rightarrow> row list \<Rightarrow> row list \<Rightarrow> row list \<times> nat set \<Rightarrow> batch list \<Rightarrow> bool" where
  "probed ev j bs seen st as \<longleftrightarrow> (\<exists>written. conformed ev (hj_schema j) written (rows_of as)
     \<and> written @ fst st = concat (map (probe_output (rt_of ev) j bs) seen)
     \<and> snd st = matched_in (rt_of ev) j bs seen)"

lemma probed_Nil: "probed ev j bs [] ([], {}) []"
  by (simp add: probed_def matched_in_def)

context execution_context
begin

lemma wp_flush_full:
  assumes "conversion_ok ev s" and "\<And>r e. ev_conform ev s r = Inl e \<Longrightarrow> err e"
    and "\<And>written left os. out = written @ left \<Longrightarrow> conformed ev s written (rows_of os) \<Longrightarrow> Q os left"
  shows "wp inv (batch_ok ev s) (flush_full ev op s out) Q err"
proof -
  have "wp inv (batch_ok ev s) (emit_rows ev op s out) (\<lambda>os _. Q os []) err"
    using assms by (intro wp_emit_rows) auto
  moreover have "Q [] out" using assms(3) [of "[]" out "[]"] by simp
  ultimately show ?thesis
    by (auto simp: flush_full_def)
qed

lemma wp_probe_step:
  assumes "table_of (rt_of ev) j bs t" and "keyed (rt_of ev) (probe_keys j) {p}"
    and conv: "conversion_ok ev (hj_schema j)" "\<And>r e. ev_conform ev (hj_schema j) r = Inl e \<Longrightarrow> err e"
    and "probed ev j bs seen st as"
  shows "wp inv (batch_ok ev (hj_schema j))
    (probe_step ev op j bs t (null_row (set (build_columns j))) st p)
    (\<lambda>os st'. probed ev j bs (seen @ [p]) st' (as @ os)) err"
proof -
  obtain out matched where st: "st = (out, matched)" by fastforce
  then obtain written where w: "conformed ev (hj_schema j) written (rows_of as)"
      "written @ out = concat (map (probe_output (rt_of ev) j bs) seen)"
    and m: "matched = matched_in (rt_of ev) j bs seen"
    using assms(5) by (auto simp: probed_def)
  let ?out = "out @ probe_output (rt_of ev) j bs p"
  have "wp inv (batch_ok ev (hj_schema j)) (flush_full ev op (hj_schema j) ?out)
      (\<lambda>os left. probed ev j bs (seen @ [p]) (left, matched_in (rt_of ev) j bs (seen @ [p])) (as @ os)) err"
  proof (rule wp_flush_full [OF conv])
    fix more left os
    assume "?out = more @ left" and "conformed ev (hj_schema j) more (rows_of os)"
    then have "conformed ev (hj_schema j) (written @ more) (rows_of (as @ os))"
      and "(written @ more) @ left = concat (map (probe_output (rt_of ev) j bs) (seen @ [p]))"
      using w by (auto intro: conformed_append simp flip: append_assoc)
        (metis append.assoc)
    then show "probed ev j bs (seen @ [p]) (left, matched_in (rt_of ev) j bs (seen @ [p])) (as @ os)"
      unfolding probed_def by auto
  qed
  then show ?thesis
    unfolding probe_step_def st m
    by (simp add: probe_row_output [OF assms(1,2)])
qed

lemma wp_hash_partition_rows:
  assumes "keyed (rt_of ev) (build_keys j) (set bs)" and "keyed (rt_of ev) (probe_keys j) R"
    and probes: "wp inv (\<lambda>p. p \<in> R) probes (\<lambda>ps _. P ps) err"
    and conv: "conversion_ok ev (hj_schema j)" "\<And>r e. ev_conform ev (hj_schema j) r = Inl e \<Longrightarrow> err e"
    and post: "\<And>ps os. P ps \<Longrightarrow> conformed ev (hj_schema j) (nested_loop_join (rt_of ev) j bs ps) (rows_of os) \<Longrightarrow> Q os ()"
  shows "wp inv (batch_ok ev (hj_schema j)) (hash_partition_rows ev op j bs probes) Q err"
proof -
  obtain t where t: "build_table (rt_of ev) j bs = Inr t" "table_of (rt_of ev) j bs t"
    using build_table_of [OF assms(1)] by blast
  let ?finish = "\<lambda>(out, matched). emit_rows ev op (hj_schema j) (if build_preserved j
        then out @ unmatched_builds j bs matched (null_row (set (probe_columns j))) else out)"
  have "wp inv (batch_ok ev (hj_schema j)) (for_each probes ([], {})
       (probe_step ev op j bs t (null_row (set (build_columns j)))))
       (\<lambda>as st. wp inv (batch_ok ev (hj_schema j)) (?finish st) (\<lambda>os. Q (as @ os)) err) err"
  proof (rule wp_for_each [OF probes, where J = "probed ev j bs"])
    fix seen st as p
    assume "probed ev j bs seen st as" and "p \<in> R"
    moreover have "keyed (rt_of ev) (probe_keys j) {p}" using assms(2) \<open>p \<in> R\<close> by (simp add: keyed_def)
    ultimately show "wp inv (batch_ok ev (hj_schema j)) (probe_step ev op j bs t (null_row (set (build_columns j))) st p)
        (\<lambda>os st'. probed ev j bs (seen @ [p]) st' (as @ os)) err"
      by (intro wp_probe_step [OF t(2) _ conv])
  next
    fix ps st as
    assume "probed ev j bs ps st as" and P: "P ps"
    then obtain out written where st: "st = (out, matched_in (rt_of ev) j bs ps)"
      and w: "conformed ev (hj_schema j) written (rows_of as)"
        "written @ out = concat (map (probe_output (rt_of ev) j bs) ps)"
      by (cases st) (auto simp: probed_def)
    let ?out = "out @ build_output (rt_of ev) j bs ps"
    have "wp inv (batch_ok ev (hj_schema j)) (emit_rows ev op (hj_schema j) ?out) (\<lambda>os. Q (as @ os)) err"
    proof (rule wp_emit_rows [OF conv(2) conv(1)])
      fix os
      assume "conformed ev (hj_schema j) ?out (rows_of os)"
      from conformed_append [OF w(1) this] show "Q (as @ os) ()"
        by (intro post [OF P]) (simp add: nested_loop_join_def flip: w(2))
    qed
    moreover have "(if build_preserved j then out @ unmatched_builds j bs (matched_in (rt_of ev) j bs ps)
        (null_row (set (probe_columns j))) else out) = ?out"
      using unmatched_output [of j bs "rt_of ev" ps] by (auto split: if_splits)
    ultimately show "wp inv (batch_ok ev (hj_schema j)) (?finish st) (\<lambda>os. Q (as @ os)) err"
      unfolding st by simp
  qed (rule probed_Nil)
  then show ?thesis
    unfolding hash_partition_rows_def t by simp
qed

end

section \<open>Partitions\<close>

text \<open>Python's contract for \<open>hash\<close>: keys that are equal have equal hashes.\<close>

definition hash_respects_eq :: "env \<Rightarrow> bool" where
  "hash_respects_eq ev \<longleftrightarrow> (\<forall>a b. key_eq a b \<longrightarrow> ev_hash ev a = ev_hash ev b)"

definition part_of_row :: "env \<Rightarrow> expr list \<Rightarrow> row \<Rightarrow> nat" where
  "part_of_row ev es row = (case key_of (rt_of ev) es row of
     None \<Rightarrow> 0 | Some k \<Rightarrow> nat (ev_hash ev k mod int partition_count))"

definition in_part :: "env \<Rightarrow> expr list \<Rightarrow> row list \<Rightarrow> nat \<Rightarrow> row list" where
  "in_part ev es rows i = filter (\<lambda>r. part_of_row ev es r = i) rows"

lemma part_of_row_less: "part_of_row ev es row < partition_count"
  by (auto simp: part_of_row_def partition_count_def nat_less_iff split: option.split)

lemma joins_same_part:
  "hash_respects_eq ev \<Longrightarrow> joins (rt_of ev) j b p \<Longrightarrow>
     part_of_row ev (build_keys j) b = part_of_row ev (probe_keys j) p"
  by (auto simp: joins_def part_of_row_def hash_respects_eq_def split: option.splits)

lemma sum_parts:
  fixes g :: "'a \<Rightarrow> 'b multiset" and n :: nat
  assumes "\<And>x. x \<in> set xs \<Longrightarrow> part x < n"
  shows "(\<Sum>i<n. \<Sum>x\<leftarrow>filter (\<lambda>x. part x = i) xs. g x) = (\<Sum>x\<leftarrow>xs. g x)"
  using assms
proof (induction xs)
  case (Cons x xs)
  have "(\<Sum>i<n. \<Sum>y\<leftarrow>filter (\<lambda>y. part y = i) (x # xs). g y)
      = (\<Sum>i<n. (if part x = i then g x else {#}) + (\<Sum>y\<leftarrow>filter (\<lambda>y. part y = i) xs. g y))"
    by (rule sum.cong) auto
  also have "\<dots> = (\<Sum>i<n. if part x = i then g x else {#}) + (\<Sum>i<n. \<Sum>y\<leftarrow>filter (\<lambda>y. part y = i) xs. g y)"
    by (rule sum.distrib)
  also have "(\<Sum>i<n. if part x = i then g x else {#}) = g x"
    using Cons.prems [of x] by simp
  finally show ?case using Cons by simp
qed simp

lemma mset_concat_map: "mset (concat (map f xs)) = (\<Sum>x\<leftarrow>xs. mset (f x))"
  by (induction xs) auto

text \<open>The join of the inputs is the sum of the joins of their partitions.\<close>

lemma nested_loop_join_parts:
  assumes "hash_respects_eq ev"
  shows "mset (nested_loop_join (rt_of ev) j bs ps) = (\<Sum>i<partition_count.
    mset (nested_loop_join (rt_of ev) j (in_part ev (build_keys j) bs i) (in_part ev (probe_keys j) ps i)))"
proof -
  let ?rt = "rt_of ev" and ?b = "part_of_row ev (build_keys j)" and ?p = "part_of_row ev (probe_keys j)"
  let ?bs = "in_part ev (build_keys j) bs" and ?ps = "in_part ev (probe_keys j) ps"
  have same: "joins ?rt j b p \<Longrightarrow> ?b b = ?p p" for b p by (rule joins_same_part [OF assms])
  have "probe_output ?rt j (?bs (?p p)) p = probe_output ?rt j bs p" for p
    using same by (auto simp: probe_output_def in_part_def filter_filter intro!: arg_cong2 [where f = If] arg_cong [where f = "map _"])
      (metis (mono_tags, lifting) filter_cong)+
  then have probe: "(\<Sum>p\<leftarrow>?ps i. mset (probe_output ?rt j (?bs i) p)) = (\<Sum>p\<leftarrow>?ps i. mset (probe_output ?rt j bs p))" for i
    by (intro arg_cong [where f = sum_list] map_cong) (auto simp: in_part_def)
  have "filter (\<lambda>b. \<forall>p \<in> set (?ps i). \<not> joins ?rt j b p) (?bs i)
      = filter (\<lambda>b. ?b b = i) (filter (\<lambda>b. \<forall>p \<in> set ps. \<not> joins ?rt j b p) bs)" for i
    unfolding in_part_def filter_filter by (rule filter_cong) (use same in auto)
  then have build: "mset (build_output ?rt j (?bs i) (?ps i)) = (\<Sum>b\<leftarrow>filter (\<lambda>b. ?b b = i)
      (filter (\<lambda>b. \<forall>p \<in> set ps. \<not> joins ?rt j b p) bs). mset (lone_build j b))" for i
    by (simp add: build_output_def mset_concat_map)
  let ?U = "filter (\<lambda>b. \<forall>p \<in> set ps. \<not> joins ?rt j b p) bs"
  have "mset (nested_loop_join ?rt j (?bs i) (?ps i)) = (\<Sum>p\<leftarrow>filter (\<lambda>p. ?p p = i) ps. mset (probe_output ?rt j bs p))
      + (\<Sum>b\<leftarrow>filter (\<lambda>b. ?b b = i) ?U. mset (lone_build j b))" for i
    unfolding nested_loop_join_def mset_append mset_concat_map probe build by (simp only: in_part_def)
  then have "(\<Sum>i<partition_count. mset (nested_loop_join ?rt j (?bs i) (?ps i)))
      = (\<Sum>p\<leftarrow>ps. mset (probe_output ?rt j bs p)) + (\<Sum>b\<leftarrow>?U. mset (lone_build j b))"
    by (simp only: sum.distrib sum_parts [OF part_of_row_less])
  then show ?thesis
    by (simp only: nested_loop_join_def build_output_def mset_append mset_concat_map)
qed

lemma partition_number_part:
  "keyed (rt_of ev) es {row} \<Longrightarrow> partition_number ev es partition_count row = Inr (part_of_row ev es row)"
  using keyed_key [of "rt_of ev" es "{row}" row]
  by (auto simp: partition_number_def part_of_row_def split: option.split)

text \<open>Files and buffers of every partition hold its rows, in order.\<close>

definition spooled :: "env \<Rightarrow> expr list \<Rightarrow> row list \<Rightarrow> part_state \<Rightarrow> bool" where
  "spooled ev es seen st \<longleftrightarrow> length (fst st) = partition_count \<and> length (snd st) = partition_count
     \<and> (\<forall>i < partition_count. concat (fst st ! i) @ snd st ! i = in_part ev es seen i)"

lemma spooled_Nil: "spooled ev es [] (replicate partition_count [], replicate partition_count [])"
  by (simp add: spooled_def in_part_def)

lemma spooled_buffer:
  "spooled ev es seen st \<Longrightarrow> spooled ev es (seen @ [row]) (buffer_row st (part_of_row ev es row) row)"
  using part_of_row_less [of ev es row]
  by (auto simp: spooled_def buffer_row_def in_part_def nth_list_update simp flip: append_assoc)

lemma spooled_flush:
  assumes "spooled ev es seen (files, bufs)" and "i < partition_count"
  shows "spooled ev es seen (files[i := files ! i @ [bufs ! i]], bufs[i := []])"
  using assms by (auto simp: spooled_def nth_list_update)

lemma spooled_subset:
  "spooled ev es seen (files, bufs) \<Longrightarrow> i < partition_count \<Longrightarrow> set (bufs ! i) \<subseteq> set seen"
proof -
  assume "spooled ev es seen (files, bufs)" and "i < partition_count"
  then have "concat (files ! i) @ bufs ! i = in_part ev es seen i" by (simp add: spooled_def)
  then have "set (bufs ! i) \<subseteq> set (in_part ev es seen i)" by (metis Un_upper2 set_append)
  then show ?thesis by (auto simp: in_part_def)
qed

definition partitioned :: "env \<Rightarrow> expr list \<Rightarrow> row list \<Rightarrow> row list list list \<Rightarrow> bool" where
  "partitioned ev es rows files \<longleftrightarrow> length files = partition_count
     \<and> (\<forall>i < partition_count. concat (files ! i) = in_part ev es rows i)"

context execution_context
begin

lemma wp_flush_buffers:
  assumes "spooled ev es seen st" and "\<forall>r \<in> set seen. conforms ev s r"
    and "\<And>st'. spooled ev es seen st' \<Longrightarrow> \<forall>i < partition_count. snd st' ! i = [] \<Longrightarrow> Q [] st'"
  shows "wp inv Y (flush_buffers ev op frame s prefix st) Q err"
proof -
  let ?body = "\<lambda>(files, bufs) p. if bufs ! p = [] then Ret (files, bufs)
         else bindG (spill_file ev op s (bufs ! p) (prefix @ ''-'' @ fmt05 p) id) (\<lambda>content.
           Ret (files[p := files ! p @ [content]], bufs[p := []]))"
  have len: "length (snd st) = partition_count" using assms(1) by (simp add: spooled_def)
  have "wp inv Y (for_list [0..<length (snd st)] st ?body)
      (\<lambda>as st'. as = [] \<and> spooled ev es seen st' \<and> (\<forall>i < partition_count. snd st' ! i = [])) err"
  proof (rule wp_for_list [where J = "\<lambda>i st' as. as = [] \<and> spooled ev es seen st' \<and> (\<forall>k < i. snd st' ! k = [])"])
    fix i st' and as :: "'a list"
    assume i: "i < length [0..<length (snd st)]"
      and J: "as = [] \<and> spooled ev es seen st' \<and> (\<forall>k < i. snd st' ! k = [])"
    obtain files bufs where st': "st' = (files, bufs)" by fastforce
    have i': "i < partition_count" using i len by simp
    have sp: "spooled ev es seen (files, bufs)" using J st' by simp
    then have "length bufs = partition_count" by (simp add: spooled_def)
    then show "wp inv Y (?body st' ([0..<length (snd st)] ! i))
        (\<lambda>os v'. as @ os = [] \<and> spooled ev es seen v' \<and> (\<forall>k < Suc i. snd v' ! k = [])) err"
      using J st' i' len spooled_flush [OF sp i'] spooled_subset [OF sp i'] assms(2)
      by (auto simp: less_Suc_eq nth_list_update intro!: wp_spill_file)
  qed (use assms(1) len in auto)
  then show ?thesis
    unfolding flush_buffers_def by (rule wp_bindI) (use assms(3) in \<open>auto intro!: wp_release_step\<close>)
qed

lemma wp_partition_row:
  assumes "spooled ev es seen st" and "\<forall>r \<in> set (seen @ [row]). conforms ev s r" and "keyed (rt_of ev) es {row}"
    and "\<And>st'. spooled ev es (seen @ [row]) st' \<Longrightarrow> Q [] st'"
  shows "wp inv Y (partition_row ev op frame s es partition_count prefix st row) Q err"
proof -
  note number = partition_number_part [OF assms(3)]
  let ?buffer = "\<lambda>st. buffer_row st (part_of_row ev es row) row"
  have buffered: "spooled ev es (seen @ [row]) (?buffer st')" if "spooled ev es seen st'" for st'
    using that by (rule spooled_buffer)
  have "wp inv Y (flush_buffers ev op frame s prefix st) (\<lambda>os st1. wp inv Y
      (bindG (try_reserve_step frame (row_size ev row)) (\<lambda>ok. bindG (lift (partition_number ev es partition_count row)) (\<lambda>p.
         if ok then Ret (buffer_row st1 p row) else flush_buffers ev op frame s prefix (buffer_row st1 p row))))
      (\<lambda>bs. Q (os @ bs)) err) err"
  proof (rule wp_flush_buffers [OF assms(1)])
    fix st1 assume "spooled ev es seen st1"
    note sp = buffered [OF this]
    show "wp inv Y
      (bindG (try_reserve_step frame (row_size ev row)) (\<lambda>ok. bindG (lift (partition_number ev es partition_count row)) (\<lambda>p.
         if ok then Ret (buffer_row st1 p row) else flush_buffers ev op frame s prefix (buffer_row st1 p row))))
      (\<lambda>bs. Q ([] @ bs)) err"
      using assms(4) assms(4) [OF sp] number
      by (auto intro!: wp_try_reserve intro: wp_flush_buffers [OF sp assms(2)])
  qed (use assms(2) in simp)
  then have retry: "wp inv Y (bindG (flush_buffers ev op frame s prefix st) (\<lambda>st1.
      bindG (try_reserve_step frame (row_size ev row)) (\<lambda>ok. bindG (lift (partition_number ev es partition_count row)) (\<lambda>p.
         if ok then Ret (buffer_row st1 p row) else flush_buffers ev op frame s prefix (buffer_row st1 p row))))) Q err"
    by simp
  show ?thesis
    unfolding partition_row_def wp_bind [of _ _ check_cancelled] wp_bind [of _ _ "try_reserve_step _ _"]
    using retry assms(4) [OF buffered [OF assms(1)]] number
    by (intro wp_check_cancelled wp_try_reserve) (simp_all add: bind_lift)
qed

lemma wp_partition_rows:
  assumes rows: "wp inv (\<lambda>r. r \<in> R \<and> conforms ev s r) rows (\<lambda>rs _. P rs) err" and "keyed (rt_of ev) es R"
    and "\<And>rs files. P rs \<Longrightarrow> partitioned ev es rs files \<Longrightarrow> Q [] files"
  shows "wp inv Y (partition_rows ev op frame s es partition_count prefix rows) Q err"
proof -
  let ?ok = "\<lambda>rs. \<forall>r \<in> set rs. conforms ev s r"
  have "wp inv Y (for_each rows (replicate partition_count [], replicate partition_count [])
      (partition_row ev op frame s es partition_count prefix))
      (\<lambda>as st. as = [] \<and> (\<exists>rs. P rs \<and> ?ok rs \<and> spooled ev es rs st)) err"
  proof (rule wp_for_each [OF rows, where J = "\<lambda>seen st as. as = [] \<and> ?ok seen \<and> spooled ev es seen st"])
    fix seen st and as :: "'a list" and r
    assume J: "as = [] \<and> ?ok seen \<and> spooled ev es seen st" and r: "r \<in> R \<and> conforms ev s r"
    have "keyed (rt_of ev) es {r}" using assms(2) r by (simp add: keyed_def)
    then show "wp inv Y (partition_row ev op frame s es partition_count prefix st r)
        (\<lambda>os st'. as @ os = [] \<and> ?ok (seen @ [r]) \<and> spooled ev es (seen @ [r]) st') err"
      using J r by (intro wp_partition_row) auto
  qed (auto simp: spooled_Nil)
  then have "wp inv Y (bindG (for_each rows (replicate partition_count [], replicate partition_count [])
      (partition_row ev op frame s es partition_count prefix)) (\<lambda>st.
      bindG (flush_buffers ev op frame s prefix st) (\<lambda>st'. Ret (fst st')))) Q err"
  proof (rule wp_bindI)
    fix st
    assume "\<exists>rs. P rs \<and> ?ok rs \<and> spooled ev es rs st"
    then obtain rs where rs: "P rs" "?ok rs" "spooled ev es rs st" by blast
    have "wp inv Y (flush_buffers ev op frame s prefix st) (\<lambda>os st'. Q os (fst st')) err"
    proof (rule wp_flush_buffers [OF rs(3,2)])
      fix st' assume "spooled ev es rs st'" and "\<forall>i < partition_count. snd st' ! i = []"
      then have "partitioned ev es rs (fst st')" by (simp add: spooled_def partitioned_def)
      with rs(1) show "Q [] (fst st')" by (rule assms(3))
    qed
    then show "wp inv Y (bindG (flush_buffers ev op frame s prefix st) (\<lambda>st'. Ret (fst st'))) Q err" by simp
  qed
  then show ?thesis
    unfolding partition_rows_def by (rule wp_release_frame)
qed

text \<open>Reading spill files back gives their rows in order.\<close>

lemma wp_batches_from_files:
  assumes "\<forall>r \<in> set (concat files). conforms ev s r"
    and "\<And>bs. rows_of bs = concat files \<Longrightarrow> set (rows_of bs) = set (concat files) \<Longrightarrow> Q bs ()"
  shows "wp inv (\<lambda>b. batch_ok ev s b \<and> set (bt_rows b) \<subseteq> set (concat files)) (batches_from_files s files) Q err"
  unfolding batches_from_files_def
proof (rule wp_for_list_prefix [where J = "\<lambda>pre _ bs. rows_of bs = concat pre"])
  let ?Y = "\<lambda>b. batch_ok ev s b \<and> set (bt_rows b) \<subseteq> set (concat files)"
  fix pre content bs and v :: unit
  assume sub: "set (pre @ [content]) \<subseteq> set files" and J: "rows_of bs = concat pre"
  have "wp inv ?Y (for_list (chunks n content) () (\<lambda>_ rows.
      bindG check_cancelled (\<lambda>_. yieldG \<lparr>bt_schema = s, bt_rows = rows\<rparr>)))
      (\<lambda>os _. rows_of (bs @ os) = concat (pre @ [content])) err" if n: "0 < n" for n
  proof (rule wp_for_list_prefix [where J = "\<lambda>done _ os. rows_of os = concat done"])
    fix "done" chunk os and v :: unit
    assume "set (done @ [chunk]) \<subseteq> set (chunks n content)" and "rows_of os = concat done"
    moreover from this have "set chunk \<subseteq> set (concat files)"
      using set_chunks [OF n, of chunk content] sub by auto
    ultimately show "wp inv ?Y (bindG check_cancelled (\<lambda>_. yieldG \<lparr>bt_schema = s, bt_rows = chunk\<rparr>))
        (\<lambda>os' v'. rows_of (os @ os') = concat (done @ [chunk])) err"
      using assms(1) by (auto simp: batch_ok_def list_all_iff intro!: wp_check_cancelled)
  qed (use J concat_chunks [OF n, of content] in auto)
  then show "wp inv ?Y (bindG (get cx_batch_size) (\<lambda>n. for_list (chunks (max 1 (min n 1024)) content) () (\<lambda>_ rows.
      bindG check_cancelled (\<lambda>_. yieldG \<lparr>bt_schema = s, bt_rows = rows\<rparr>))))
      (\<lambda>os v'. rows_of (bs @ os) = concat (pre @ [content])) err"
    by simp
qed (use assms(2) in auto)

lemma wp_rows_from_files:
  assumes "\<forall>r \<in> set (concat files). conforms ev s r"
    and "Q (concat files) ()"
  shows "wp inv (\<lambda>r. r \<in> set (concat files)) (rows_from_files s files) Q err"
proof -
  have input: "wp inv (\<lambda>b. batch_ok ev s b \<and> set (bt_rows b) \<subseteq> set (concat files)) (batches_from_files s files)
      (\<lambda>bs _. rows_of bs = concat files) err"
    using assms(1) by (rule wp_batches_from_files) simp
  show ?thesis
    unfolding rows_from_files_def
  proof (rule wp_for_each [OF input, where J = "\<lambda>bs _ as. as = rows_of bs"])
    fix bs as b and v :: unit
    assume J: "as = rows_of bs" and b: "batch_ok ev s b \<and> set (bt_rows b) \<subseteq> set (concat files)"
    show "wp inv (\<lambda>r. r \<in> set (concat files)) (for_list (bt_rows b) () (\<lambda>_ row. bindG check_cancelled (\<lambda>_. yieldG row)))
        (\<lambda>os v'. as @ os = rows_of (bs @ [b])) err"
      by (rule wp_for_list_prefix [where J = "\<lambda>pre _ os. os = pre"])
        (use J b in \<open>auto intro!: wp_check_cancelled\<close>)
  qed (use assms(2) in auto)
qed

end

end
