(* ===== verification/MergeJoin.thy ===== *)
theory MergeJoin
  imports JoinLaws
begin

text \<open>
  The fallback of the hash join for partitions that do not fit: both sides sorted externally by
  their keys and merged.  The merge delivers the nested-loop join of its inputs.
\<close>

section \<open>The order of join keys\<close>

definition key_vals :: "group_key \<Rightarrow> okey list" where
  "key_vals k = map value_key k"

definition plain_key :: "group_key \<Rightarrow> bool" where
  "plain_key k \<longleftrightarrow> list_all (\<lambda>v. v \<noteq> VNull \<and> \<not> is_nan v) k"

lemma vkey_plain: "v \<noteq> VNull \<Longrightarrow> \<not> is_nan v \<Longrightarrow> vkey v = Some (value_key v)"
  using vkey_None [of v] by (auto simp: value_key_def split: option.split)

lemma key_eq_vals:
  "plain_key k \<Longrightarrow> plain_key k' \<Longrightarrow> key_eq k k' \<longleftrightarrow> key_vals k = key_vals k'"
proof (induction k arbitrary: k')
  case (Cons v k)
  then show ?case
    using py_eq_vkey [of v "value_key v"] vkey_plain
    by (cases k') (auto simp: key_eq_def key_vals_def plain_key_def)
qed (auto simp: key_eq_def key_vals_def)

lemma compare_join_keys_vals:
  assumes "plain_key k" and "plain_key k'" and "list_all2 (\<lambda>v w. kind v = kind w) k k'"
  shows "\<exists>c. compare_join_keys k k' = Inr c \<and> (c < 0 \<longleftrightarrow> key_vals k < key_vals k')"
  using assms(3,1,2)
proof (induction rule: list_all2_induct)
  case (Cons v k w k')
  have v: "vkey v = Some (value_key v)" "vkey w = Some (value_key w)"
    using Cons.prems by (simp_all add: plain_key_def vkey_plain)
  have "py_lt w v = Inr (value_key w < value_key v)" "py_lt v w = Inr (value_key v < value_key w)"
    using py_lt_vkey [OF v(2) v(1)] py_lt_vkey [OF v] Cons.hyps(1) by simp_all
  moreover obtain c where "compare_join_keys k k' = Inr c" "c < 0 \<longleftrightarrow> key_vals k < key_vals k'"
    using Cons by (auto simp: plain_key_def)
  ultimately show ?case
    by (auto simp: key_vals_def Let_def)
qed (simp add: key_vals_def)

text \<open>Both sides can be ordered by their keys, and the keys compared with each other.\<close>

definition mergeable :: "py_runtime \<Rightarrow> hash_join \<Rightarrow> row set \<Rightarrow> row set \<Rightarrow> bool" where
  "mergeable rt j RB RP \<longleftrightarrow> length (build_keys j) = length (probe_keys j)
     \<and> orderable rt (map asc_item (build_keys j)) RB \<and> orderable rt (map asc_item (probe_keys j)) RP
     \<and> list_all2 (\<lambda>be pe. one_kind (order_value rt be ` RB \<union> order_value rt pe ` RP)) (build_keys j) (probe_keys j)"

lemma mergeable_subset: "mergeable rt j RB RP \<Longrightarrow> B \<subseteq> RB \<Longrightarrow> P \<subseteq> RP \<Longrightarrow> mergeable rt j B P"
  unfolding mergeable_def
  by (blast intro: orderable_subset one_kind_subset list.rel_mono_strong)

lemma key_of_the_key:
  "orderable rt (map asc_item es) R \<Longrightarrow> r \<in> R \<Longrightarrow>
     key_of rt es r = (if VNull \<in> set (the_key rt es r) then None else Some (the_key rt es r))"
  using row_key_the_key [of rt es R r] by (simp add: key_of_def join_key_def row_key_def)

lemma orderable_keyed: "orderable rt (map asc_item es) R \<Longrightarrow> keyed rt es R"
  using row_key_the_key [of rt es R] by (auto simp: keyed_def join_key_def row_key_def)

lemma key_of_plain:
  "orderable rt (map asc_item es) R \<Longrightarrow> r \<in> R \<Longrightarrow> key_of rt es r = Some k \<Longrightarrow>
     k = the_key rt es r \<and> plain_key k"
  using the_key_plain [of rt es R r]
  by (auto simp: key_of_the_key plain_key_def list_all_iff split: if_splits)

lemma row_cmp_vals:
  assumes "orderable rt (map asc_item es) R" and "l \<in> R" and "r \<in> R"
    and "plain_key (the_key rt es l)" and "plain_key (the_key rt es r)"
  shows "compare (row_cmp rt (map asc_item es)) l r
    = compare default (key_vals (the_key rt es l)) (key_vals (the_key rt es r))"
  using assms(1,4,5)
proof (induction es)
  case (Cons e es)
  then have "compare (row_cmp rt (map asc_item es)) l r
    = compare default (key_vals (the_key rt es l)) (key_vals (the_key rt es r))"
    by (auto simp: orderable_def plain_key_def the_key_def)
  moreover have "order_value rt e l \<noteq> VNull" "order_value rt e r \<noteq> VNull"
    using Cons.prems by (simp_all add: plain_key_def the_key_def)
  moreover have "key_vals (the_key rt (e # es) x) = value_key (order_value rt e x) # key_vals (the_key rt es x)" for x
    by (simp add: key_vals_def the_key_def)
  moreover have "se_expression (asc_item e) = e" "se_nulls_first (asc_item e) = False"
    "se_ascending (asc_item e) = True" by (simp_all add: asc_item_def)
  ultimately show ?case
    by (simp add: cmp_pair item_cmp compare_default Let_def)
qed (simp add: the_key_def key_vals_def compare_default)

lemma sorted_key_vals:
  assumes "orderable rt (map asc_item es) R" and "sorted (row_cmp rt (map asc_item es)) (x # xs)"
    and "set (x # xs) \<subseteq> R" and "y \<in> set xs"
    and "key_of rt es x = Some k" and "key_of rt es y = Some k'"
  shows "key_vals k \<le> key_vals k'"
proof -
  have "compare (row_cmp rt (map asc_item es)) x y \<noteq> Greater"
    using assms(2,4) sorted_hd_least by fastforce
  moreover have "x \<in> R" "y \<in> R" using assms(3,4) by auto
  moreover from this have "k = the_key rt es x" "plain_key k" "k' = the_key rt es y" "plain_key k'"
    using key_of_plain [OF assms(1)] assms(5,6) by blast+
  ultimately show ?thesis
    using row_cmp_vals [OF assms(1)] by (auto simp: compare_default split: if_splits)
qed

section \<open>Steps of the merge\<close>

abbreviation join_bag :: "py_runtime \<Rightarrow> hash_join \<Rightarrow> row list \<Rightarrow> row list \<Rightarrow> row multiset" where
  "join_bag rt j bs ps \<equiv> mset (nested_loop_join rt j bs ps)"

lemma nested_loop_Nil [simp]:
  "nested_loop_join rt j [] ps = concat (map (lone_probe j) ps)"
  "nested_loop_join rt j bs [] = concat (map (lone_build j) bs)"
proof -
  have "probe_output rt j [] = lone_probe j" by (rule ext) (simp add: probe_output_def)
  then show "nested_loop_join rt j [] ps = concat (map (lone_probe j) ps)"
    by (simp add: nested_loop_join_def build_output_def)
qed (simp add: nested_loop_join_def build_output_def)

lemma mset_concat_map_bag: "mset (concat (map f xs)) = \<Sum>\<^sub># (image_mset (\<lambda>x. mset (f x)) (mset xs))"
  by (induction xs) auto

lemma join_bag_mset:
  assumes "mset bs = mset bs'" and "mset ps = mset ps'"
  shows "join_bag rt j bs ps = join_bag rt j bs' ps'"
proof -
  have probe: "(\<lambda>p. mset (probe_output rt j bs p)) = (\<lambda>p. mset (probe_output rt j bs' p))"
  proof
    fix p
    let ?ms = "filter (\<lambda>b. joins rt j b p)"
    have m: "mset (?ms bs) = mset (?ms bs')" using assms(1) by simp
    then have "?ms bs = [] \<longleftrightarrow> ?ms bs' = []" by (metis mset_zero_iff)
    moreover have "mset (map (\<lambda>b. join_rows j b p) (?ms bs)) = mset (map (\<lambda>b. join_rows j b p) (?ms bs'))"
      unfolding mset_map m ..
    ultimately show "mset (probe_output rt j bs p) = mset (probe_output rt j bs' p)"
      by (simp only: probe_output_def Let_def split: if_split) blast
  qed
  moreover have "mset (build_output rt j bs ps) = mset (build_output rt j bs' ps')"
    unfolding build_output_def mset_concat_map_bag mset_filter assms(1) mset_eq_setD [OF assms(2)] ..
  ultimately show ?thesis
    unfolding nested_loop_join_def mset_append mset_concat_map_bag assms(2) probe by (simp only:)
qed

lemma join_bag_build:
  assumes "\<forall>p \<in> set ps. \<not> joins rt j b p"
  shows "join_bag rt j (b # bs) ps = mset (lone_build j b) + join_bag rt j bs ps"
proof -
  have "map (probe_output rt j (b # bs)) ps = map (probe_output rt j bs) ps"
    using assms by (simp add: probe_output_def)
  moreover have "build_output rt j (b # bs) ps = lone_build j b @ build_output rt j bs ps"
    using assms by (simp add: build_output_def)
  ultimately show ?thesis
    unfolding nested_loop_join_def mset_append by (simp only: mset_append ac_simps)
qed

lemma join_bag_probe:
  assumes "\<forall>b \<in> set bs. \<not> joins rt j b p"
  shows "join_bag rt j bs (p # ps) = mset (lone_probe j p) + join_bag rt j bs ps"
proof -
  have "filter (\<lambda>b. joins rt j b p) bs = []" using assms by simp
  then have "probe_output rt j bs p = lone_probe j p" by (simp add: probe_output_def)
  moreover have "build_output rt j bs (p # ps) = build_output rt j bs ps"
    unfolding build_output_def by (intro arg_cong [where f = "\<lambda>xs. concat (map (lone_build j) xs)"] filter_cong) (use assms in auto)
  ultimately show ?thesis by (simp add: nested_loop_join_def)
qed

lemma product_swap:
  "mset (concat (map (\<lambda>p. map (\<lambda>b. f b p) bs) ps)) = mset (concat (map (\<lambda>b. map (f b) ps) bs))"
proof (induction ps)
  case (Cons p ps)
  have "mset (concat (map (\<lambda>b. map (f b) (p # ps)) bs)) = mset (map (\<lambda>b. f b p) bs) + mset (concat (map (\<lambda>b. map (f b) ps) bs))"
    by (induction bs) auto
  with Cons show ?case by simp
qed (simp add: mset_concat_map)

lemma join_bag_group:
  assumes "\<forall>b \<in> set bg. \<forall>p \<in> set pg. joins rt j b p" and "bg \<noteq> []" and "pg \<noteq> []"
    and "\<forall>b \<in> set bs. \<forall>p \<in> set pg. \<not> joins rt j b p" and "\<forall>b \<in> set bg. \<forall>p \<in> set ps. \<not> joins rt j b p"
  shows "join_bag rt j (bg @ bs) (pg @ ps)
    = mset (concat (map (\<lambda>b. map (join_rows j b) pg) bg)) + join_bag rt j bs ps"
proof -
  have "probe_output rt j (bg @ bs) p = map (\<lambda>b. join_rows j b p) bg" if "p \<in> set pg" for p
  proof -
    have "filter (\<lambda>b. joins rt j b p) (bg @ bs) = bg" using assms(1,4) that by simp
    then show ?thesis using assms(2) by (simp add: probe_output_def)
  qed
  then have "concat (map (probe_output rt j (bg @ bs)) pg) = concat (map (\<lambda>p. map (\<lambda>b. join_rows j b p) bg) pg)"
    by (intro arg_cong [where f = concat] map_cong) auto
  moreover have "map (probe_output rt j (bg @ bs)) ps = map (probe_output rt j bs) ps"
    using assms(5) by (auto simp: probe_output_def)
  moreover have "build_output rt j (bg @ bs) (pg @ ps) = build_output rt j bs ps"
  proof -
    have "filter (\<lambda>b. \<forall>p \<in> set (pg @ ps). \<not> joins rt j b p) bg = []"
      using assms(1,3) by (cases pg) auto
    moreover have "filter (\<lambda>b. \<forall>p \<in> set (pg @ ps). \<not> joins rt j b p) bs = filter (\<lambda>b. \<forall>p \<in> set ps. \<not> joins rt j b p) bs"
      using assms(4) by (intro filter_cong) auto
    ultimately show ?thesis by (simp add: build_output_def)
  qed
  ultimately show ?thesis
    unfolding nested_loop_join_def map_append concat_append mset_append
    by (simp only: product_swap [of "\<lambda>b p. join_rows j b p" bg pg] ac_simps)
qed

text \<open>Reading the rows of one key.\<close>

definition has_key :: "py_runtime \<Rightarrow> expr list \<Rightarrow> group_key \<Rightarrow> row \<Rightarrow> bool" where
  "has_key rt es k r \<longleftrightarrow> (case key_of rt es r of None \<Rightarrow> False | Some k' \<Rightarrow> key_eq k' k)"

lemma wp_take_key_group:
  assumes "wp I (\<lambda>r. r \<in> R) g (\<lambda>bs _. P bs) err" and "keyed rt es R"
    and "\<And>group rest. side_wp I (\<lambda>r. r \<in> R) rest (\<lambda>bs. P (group @ bs)) err \<Longrightarrow> part_of rest g \<Longrightarrow>
      \<forall>r \<in> set group. has_key rt es k r \<Longrightarrow> \<forall>r h. rest = Some (r, h) \<longrightarrow> \<not> has_key rt es k r \<Longrightarrow>
      wp I Y (c group rest) Q err"
  shows "wp I Y (take_key_group rt es k g c) Q err"
  using assms(1,3)
proof (induction g arbitrary: P c rule: gen_induct)
  case (Ret u)
  then show ?case by simp
next
  case (Yield r g)
  have r: "join_key rt es r = Inr (key_of rt es r)" using Yield.prems(1) keyed_key [OF assms(2)] by simp
  show ?case
  proof (cases "has_key rt es k r")
    case True
    have "wp I Y (take_key_group rt es k g (\<lambda>group rest. c (r # group) rest)) Q err"
    proof (rule Yield.IH)
      show "wp I (\<lambda>r. r \<in> R) g (\<lambda>bs _. P (r # bs)) err" using Yield.prems(1) by simp
    next
      fix group and rest :: side
      assume "side_wp I (\<lambda>r. r \<in> R) rest (\<lambda>bs. P (r # group @ bs)) err" and "part_of rest g"
        and "\<forall>r \<in> set group. has_key rt es k r" and "\<forall>r h. rest = Some (r, h) \<longrightarrow> \<not> has_key rt es k r"
      then show "wp I Y (c (r # group) rest) Q err"
        using True by (intro Yield.prems(2)) (auto intro: part_of_yield)
    qed
    then show ?thesis using True r by (auto simp: has_key_def split: option.splits)
  next
    case False
    have "wp I Y (c [] (Some (r, g))) Q err"
      using Yield.prems(1) False by (intro Yield.prems(2)) (auto simp: subgen.yield tranclp.r_into_trancl)
    then show ?thesis using False r by (auto simp: has_key_def split: option.splits)
  qed
next
  case (Act f)
  have "wp I Y (take_key_group rt es k (snd (f s)) c) Q err" if "I s" for s
    using Act.prems(1) that by (intro Act.IH [of s P]) (auto intro: Act.prems(2) part_of_act)
  then show ?case using Act.prems(1) by simp
qed simp

section \<open>The merge delivers the join\<close>

text \<open>
  What the merge has delivered when it returns: with the rows \<open>out\<close> that it started with, the join
  of what its sides still had to deliver.
\<close>

definition merged ::
    "env \<Rightarrow> hash_join \<Rightarrow> (row list \<Rightarrow> bool) \<Rightarrow> (row list \<Rightarrow> bool) \<Rightarrow> row list \<Rightarrow> row list \<Rightarrow> bool" where
  "merged ev j PB PP out res \<longleftrightarrow> (\<exists>bs ps outs. PB bs \<and> PP ps
     \<and> mset outs = mset out + join_bag (rt_of ev) j bs ps \<and> conformed ev (hj_schema j) outs res)"

lemma merged_step:
  assumes "out @ new = written @ left" and "conformed ev (hj_schema j) written res"
    and "merged ev j PB' PP' left res'"
    and "\<And>bs ps. PB' bs \<Longrightarrow> PP' ps \<Longrightarrow> \<exists>bs0 ps0. PB bs0 \<and> PP ps0
      \<and> join_bag (rt_of ev) j bs0 ps0 = mset new + join_bag (rt_of ev) j bs ps"
  shows "merged ev j PB PP out (res @ res')"
proof -
  obtain bs ps outs where "PB' bs" "PP' ps" and outs: "mset outs = mset left + join_bag (rt_of ev) j bs ps"
    and conf: "conformed ev (hj_schema j) outs res'" using assms(3) by (auto simp: merged_def)
  then obtain bs0 ps0 where "PB bs0" "PP ps0"
    and bag: "join_bag (rt_of ev) j bs0 ps0 = mset new + join_bag (rt_of ev) j bs ps" using assms(4) by blast
  moreover have "mset out + mset new = mset written + mset left"
    using arg_cong [OF assms(1), of mset] by simp
  then have "mset (written @ outs) = mset out + join_bag (rt_of ev) j bs0 ps0"
    unfolding mset_append outs bag by (metis add.assoc)
  ultimately show ?thesis
    unfolding merged_def using conformed_append [OF assms(2) conf] by blast
qed

text \<open>What an input of the merge guarantees: rows of \<open>R\<close>, sorted by their keys.\<close>

definition sorted_input :: "py_runtime \<Rightarrow> expr list \<Rightarrow> row set \<Rightarrow> row list \<Rightarrow> bool" where
  "sorted_input rt es R rows \<longleftrightarrow> sorted (row_cmp rt (map asc_item es)) rows \<and> set rows \<subseteq> R"

lemma sorted_input_append: "sorted_input rt es R (xs @ ys) \<Longrightarrow> sorted_input rt es R ys"
proof (induction xs)
  case (Cons x xs)
  then show ?case by (cases "xs @ ys") (auto simp: sorted_input_def)
qed simp

lemma sorted_input_tl: "sorted_input rt es R (x # xs) \<Longrightarrow> sorted_input rt es R xs"
  using sorted_input_append [of rt es R "[x]" xs] by simp

text \<open>The head of one side joins no row of the other: it is less, or a row was read past its key.\<close>

lemma not_joins_less:
  assumes m: "mergeable rt j RB RP" and "sorted_input rt (build_keys j) RB (b # bs)"
    and "sorted_input rt (probe_keys j) RP (p # ps)"
    and "key_of rt (build_keys j) b = Some bk" and "key_of rt (probe_keys j) p = Some pk"
  shows "key_vals bk < key_vals pk \<Longrightarrow> q \<in> set (p # ps) \<Longrightarrow> \<not> joins rt j b q"
    and "key_vals pk < key_vals bk \<Longrightarrow> c \<in> set (b # bs) \<Longrightarrow> \<not> joins rt j c p"
proof -
  have ordB: "orderable rt (map asc_item (build_keys j)) RB" and ordP: "orderable rt (map asc_item (probe_keys j)) RP"
    using m by (simp_all add: mergeable_def)
  have b: "b \<in> RB" "plain_key bk" and p: "p \<in> RP" "plain_key pk"
    using assms(2,3) key_of_plain [OF ordB _ assms(4)] key_of_plain [OF ordP _ assms(5)]
    by (auto simp: sorted_input_def)
  show "\<not> joins rt j b q" if less: "key_vals bk < key_vals pk" and q: "q \<in> set (p # ps)"
  proof (cases "key_of rt (probe_keys j) q")
    case (Some k)
    have "key_vals pk \<le> key_vals k"
      using sorted_key_vals [OF ordP, of p ps q pk k] assms(3,5) Some q by (auto simp: sorted_input_def)
    moreover have "plain_key k" using key_of_plain [OF ordP _ Some] q assms(3) by (auto simp: sorted_input_def)
    ultimately show ?thesis using less Some assms(4) key_eq_vals [OF b(2)] by (auto simp: joins_def)
  qed (simp add: joins_def assms(4))
  show "\<not> joins rt j c p" if less: "key_vals pk < key_vals bk" and c: "c \<in> set (b # bs)"
  proof (cases "key_of rt (build_keys j) c")
    case (Some k)
    have "key_vals bk \<le> key_vals k"
      using sorted_key_vals [OF ordB, of b bs c bk k] assms(2,4) Some c by (auto simp: sorted_input_def)
    moreover have "plain_key k" using key_of_plain [OF ordB _ Some] c assms(2) by (auto simp: sorted_input_def)
    ultimately show ?thesis using less Some assms(5) key_eq_vals [OF _ p(2)] by (auto simp: joins_def)
  qed (simp add: joins_def)
qed

text \<open>After the group of a key no row has that key.\<close>

lemma no_key_after:
  assumes ord: "orderable rt (map asc_item es) R" and "sorted_input rt es R (x # grp @ rest)"
    and "key_of rt es x = Some k" and "rest \<noteq> [] \<Longrightarrow> \<not> has_key rt es k (hd rest)"
    and "y \<in> set rest"
  shows "\<not> has_key rt es k y"
proof
  assume "has_key rt es k y"
  then obtain k' where y: "key_of rt es y = Some k'" and eq: "key_eq k' k"
    by (auto simp: has_key_def split: option.splits)
  obtain r rs where rest: "rest = r # rs" using assms(5) by (cases rest) auto
  have sorted: "sorted_input rt es R (r # rs)"
    using sorted_input_append [of rt es R "x # grp" rest] assms(2) rest by simp
  have plain: "plain_key k" "plain_key k'"
    using key_of_plain [OF ord _ assms(3)] key_of_plain [OF ord _ y] assms(2,5) by (auto simp: sorted_input_def)
  have eqv: "key_vals k' = key_vals k" using eq key_eq_vals [OF plain(2,1)] by simp
  have not_r: "\<not> has_key rt es k r" using assms(4) rest by simp
  show False
  proof (cases "y = r")
    case True
    then show ?thesis using not_r \<open>has_key rt es k y\<close> by simp
  next
    case False
    then have y_rs: "y \<in> set rs" using assms(5) rest by simp
    let ?cmp = "row_cmp rt (map asc_item es)"
    have "compare ?cmp x r \<noteq> Greater" "compare ?cmp r y \<noteq> Greater"
      using assms(2) sorted y_rs rest sorted_hd_least [of ?cmp "x # grp @ rest" r]
        sorted_hd_least [of ?cmp "r # rs" y] by (auto simp: sorted_input_def)
    moreover have "x \<in> R" "r \<in> R" "y \<in> R" using assms(2,5) rest by (auto simp: sorted_input_def)
    moreover have "compare ?cmp x y = Equiv"
      using row_cmp_vals [OF ord \<open>x \<in> R\<close> \<open>y \<in> R\<close>] plain eqv key_of_plain [OF ord \<open>x \<in> R\<close> assms(3)]
        key_of_plain [OF ord \<open>y \<in> R\<close> y] by (simp add: compare_default del: split_paired_All)
    ultimately have "compare ?cmp x r = Equiv"
      by (cases "compare ?cmp x r"; cases "compare ?cmp r y")
        (auto dest: compare.trans_less compare.trans_less_equiv)
    then have "key_eq (the_key rt es x) (the_key rt es r)"
      using rows_equiv [OF ord \<open>x \<in> R\<close> \<open>r \<in> R\<close>] by simp
    moreover have "k = the_key rt es x" using key_of_plain [OF ord \<open>x \<in> R\<close> assms(3)] by simp
    ultimately have "key_eq k (the_key rt es r)" by simp
    moreover from this have "VNull \<notin> set (the_key rt es r)"
      using plain(1) py_eq_null by (auto simp: key_eq_def plain_key_def list_all2_conv_all_nth in_set_conv_nth list_all_length)
    ultimately have "has_key rt es k r"
      using key_of_the_key [OF ord \<open>r \<in> R\<close>] key_eq_sym by (auto simp: has_key_def)
    with not_r show ?thesis ..
  qed
qed

text \<open>The rows an input still delivers start with the row read.\<close>

definition starts :: "side \<Rightarrow> row list \<Rightarrow> bool" where
  "starts x rows \<longleftrightarrow> (case x of None \<Rightarrow> rows = [] | Some (r, _) \<Rightarrow> \<exists>rest. rows = r # rest)"

lemma side_wp_starts: "side_wp I B x P err \<Longrightarrow> side_wp I B x (\<lambda>rows. P rows \<and> starts x rows) err"
  by (cases x) (auto simp: starts_def elim: wp_mono)

lemma join_keys_kinds:
  assumes "mergeable rt j RB RP" and "b \<in> RB" and "p \<in> RP"
    and "key_of rt (build_keys j) b = Some bk" and "key_of rt (probe_keys j) p = Some pk"
  shows "plain_key bk \<and> plain_key pk \<and> list_all2 (\<lambda>v w. kind v = kind w) bk pk"
proof -
  have ord: "orderable rt (map asc_item (build_keys j)) RB" "orderable rt (map asc_item (probe_keys j)) RP"
    and kinds: "list_all2 (\<lambda>be pe. one_kind (order_value rt be ` RB \<union> order_value rt pe ` RP)) (build_keys j) (probe_keys j)"
    using assms(1) by (simp_all add: mergeable_def)
  have bk: "bk = the_key rt (build_keys j) b" "plain_key bk" and pk: "pk = the_key rt (probe_keys j) p" "plain_key pk"
    using key_of_plain [OF ord(1) assms(2,4)] key_of_plain [OF ord(2) assms(3,5)] by blast+
  have "list_all2 (\<lambda>be pe. order_value rt be b \<noteq> VNull \<longrightarrow> order_value rt pe p \<noteq> VNull \<longrightarrow>
      kind (order_value rt be b) = kind (order_value rt pe p)) (build_keys j) (probe_keys j)"
    using kinds
  proof (rule list.rel_mono_strong)
    fix be pe assume "one_kind (order_value rt be ` RB \<union> order_value rt pe ` RP)"
    then show "order_value rt be b \<noteq> VNull \<longrightarrow> order_value rt pe p \<noteq> VNull \<longrightarrow>
        kind (order_value rt be b) = kind (order_value rt pe p)"
      using assms(2,3) unfolding one_kind_def by blast
  qed
  then show ?thesis
    using bk pk by (auto simp: the_key_def plain_key_def list_all2_conv_all_nth list_all_length)
qed

text \<open>The two groups of a key join each other and nothing after them.\<close>

lemma join_bag_key_groups:
  assumes ordB: "orderable rt (map asc_item (build_keys j)) RB" and ordP: "orderable rt (map asc_item (probe_keys j)) RP"
    and bk: "key_of rt (build_keys j) b = Some bk" and pk: "key_of rt (probe_keys j) p = Some pk"
    and eq: "key_eq bk pk" and plain: "plain_key bk" "plain_key pk"
    and "sorted_input rt (build_keys j) RB (b # bgs @ bs)" and "sorted_input rt (probe_keys j) RP (p # pgs @ ps)"
    and "\<forall>r \<in> set bgs. has_key rt (build_keys j) bk r" and "\<forall>r \<in> set pgs. has_key rt (probe_keys j) pk r"
    and "\<forall>r h. b' = Some (r, h) \<longrightarrow> \<not> has_key rt (build_keys j) bk r" and "starts b' bs"
    and "\<forall>r h. p' = Some (r, h) \<longrightarrow> \<not> has_key rt (probe_keys j) pk r" and "starts p' ps"
  shows "join_bag rt j (b # bgs @ bs) (p # pgs @ ps)
    = mset (concat (map (\<lambda>l. map (join_rows j l) (p # pgs)) (b # bgs))) + join_bag rt j bs ps"
proof -
  have refl: "key_eq bk bk" "key_eq pk pk" using plain by (auto simp: plain_key_def list_all_iff intro!: key_eq_refl)
  have hasB: "\<forall>r \<in> set (b # bgs). has_key rt (build_keys j) bk r"
    and hasP: "\<forall>r \<in> set (p # pgs). has_key rt (probe_keys j) pk r"
    using assms(10,11) bk pk refl by (simp_all add: has_key_def)
  have joinB: "joins rt j c q \<longleftrightarrow> has_key rt (probe_keys j) pk q" if "has_key rt (build_keys j) bk c" for c q
    using that eq by (auto simp: joins_def has_key_def split: option.splits) (meson key_eq_sym key_eq_trans)+
  have joinP: "joins rt j c q \<longleftrightarrow> has_key rt (build_keys j) bk c" if "has_key rt (probe_keys j) pk q" for c q
    using that eq by (auto simp: joins_def has_key_def split: option.splits) (meson key_eq_sym key_eq_trans)+
  have "bs \<noteq> [] \<Longrightarrow> \<not> has_key rt (build_keys j) bk (hd bs)" "ps \<noteq> [] \<Longrightarrow> \<not> has_key rt (probe_keys j) pk (hd ps)"
    using assms(12-15) by (auto simp: starts_def split: option.splits)
  then have afterB: "\<forall>y \<in> set bs. \<not> has_key rt (build_keys j) bk y" and afterP: "\<forall>y \<in> set ps. \<not> has_key rt (probe_keys j) pk y"
    using no_key_after [OF ordB assms(8) bk] no_key_after [OF ordP assms(9) pk] by blast+
  have "join_bag rt j ((b # bgs) @ bs) ((p # pgs) @ ps)
    = mset (concat (map (\<lambda>l. map (join_rows j l) (p # pgs)) (b # bgs))) + join_bag rt j bs ps"
    by (rule join_bag_group) (use hasB hasP joinB joinP afterB afterP in blast)+
  then show ?thesis by simp
qed

context execution_context
begin

lemma wp_drain:
  assumes "side_wp inv B x P err" and "\<And>rows. P rows \<Longrightarrow> Q [] (out @ concat (map lone rows))"
  shows "wp inv Y (drain lone x out) Q err"
proof (cases x)
  case None
  then show ?thesis using assms(1) assms(2) [of "[]"] by (simp add: drain_def)
next
  case (Some y)
  obtain r g where y: "y = (r, g)" by fastforce
  have g: "wp inv B g (\<lambda>rs _. P (r # rs)) err" using assms(1) Some y by simp
  have "wp inv Y (for_each g (out @ lone r) (\<lambda>out r. Ret (out @ lone r))) Q err"
    by (rule wp_for_each [OF g, where J = "\<lambda>rs v as. as = [] \<and> v = out @ lone r @ concat (map lone rs)"])
      (auto intro: assms(2) [of "r # rs" for rs, simplified])
  then show ?thesis using Some y by (simp add: drain_def)
qed

lemma wp_merge_drain:
  assumes conv: "conversion_ok ev (hj_schema j)" "\<And>r e. ev_conform ev (hj_schema j) r = Inl e \<Longrightarrow> err e"
    and "side_wp inv B x P err"
    and "\<And>rows. P rows \<Longrightarrow> \<exists>bs ps. PB bs \<and> PP ps
      \<and> join_bag (rt_of ev) j bs ps = mset (concat (map lone rows))"
  shows "wp inv (batch_ok ev (hj_schema j)) (bindG (drain lone x out) (emit_rows ev op (hj_schema j)))
    (\<lambda>os _. merged ev j PB PP out (rows_of os)) err"
proof -
  have "wp inv (batch_ok ev (hj_schema j)) (emit_rows ev op (hj_schema j) (out @ concat (map lone rows)))
      (\<lambda>os. (\<lambda>os _. merged ev j PB PP out (rows_of os)) ([] @ os)) err" if "P rows" for rows
  proof (rule wp_emit_rows [OF conv(2,1)])
    fix os
    assume "conformed ev (hj_schema j) (out @ concat (map lone rows)) (rows_of os)"
    with assms(4) [OF that] show "merged ev j PB PP out (rows_of ([] @ os))"
      unfolding merged_def by (metis append_Nil mset_append)
  qed
  then show ?thesis
    unfolding wp_bind by (rule wp_drain [OF assms(3)])
qed

lemma wp_merge_join:
  assumes m: "mergeable (rt_of ev) j RB RP"
    and conv: "conversion_ok ev (hj_schema j)" "\<And>r e. ev_conform ev (hj_schema j) r = Inl e \<Longrightarrow> err e"
  shows "side_wp inv (\<lambda>r. r \<in> RB) b PB err \<Longrightarrow> side_wp inv (\<lambda>r. r \<in> RP) p PP err \<Longrightarrow>
     (\<And>bs. PB bs \<Longrightarrow> sorted_input (rt_of ev) (build_keys j) RB bs) \<Longrightarrow>
     (\<And>ps. PP ps \<Longrightarrow> sorted_input (rt_of ev) (probe_keys j) RP ps) \<Longrightarrow>
     wp inv (batch_ok ev (hj_schema j)) (merge_join ev op j b p out) (\<lambda>os _. merged ev j PB PP out (rows_of os)) err"
proof (induction "(b, p)" arbitrary: b p PB PP out
    rule: wf_induct_rule [OF wf_lex_prod [OF wf_side_order wf_side_order]])
  case (1 b p PB PP out)
  let ?rt = "rt_of ev" and ?s = "hj_schema j"
  let ?done = "\<lambda>os _. merged ev j PB PP out (rows_of os)"
  have ordB: "orderable ?rt (map asc_item (build_keys j)) RB" and ordP: "orderable ?rt (map asc_item (probe_keys j)) RP"
    using m by (simp_all add: mergeable_def)
  let ?PB = "\<lambda>bs. PB bs \<and> starts b bs" and ?PP = "\<lambda>ps. PP ps \<and> starts p ps"
  have sideB: "side_wp inv (\<lambda>r. r \<in> RB) b ?PB err" and sideP: "side_wp inv (\<lambda>r. r \<in> RP) p ?PP err"
    using 1(2,3) by (simp_all add: side_wp_starts)
  txt \<open>A round that buffers \<open>new\<close> and goes on with smaller sides.\<close>
  have round: "wp inv (batch_ok ev ?s) (bindG (flush_full ev op ?s (out @ new)) (merge_join ev op j b' p')) ?done err"
    if less: "((b', p'), (b, p)) \<in> side_order <*lex*> side_order"
      and sides: "side_wp inv (\<lambda>r. r \<in> RB) b' PB' err" "side_wp inv (\<lambda>r. r \<in> RP) p' PP' err"
      and sorted: "\<And>bs. PB' bs \<Longrightarrow> sorted_input ?rt (build_keys j) RB bs" "\<And>ps. PP' ps \<Longrightarrow> sorted_input ?rt (probe_keys j) RP ps"
      and step: "\<And>bs ps. PB' bs \<Longrightarrow> PP' ps \<Longrightarrow> \<exists>bs0 ps0. PB bs0 \<and> PP ps0
          \<and> join_bag ?rt j bs0 ps0 = mset new + join_bag ?rt j bs ps" for b' p' PB' PP' new
    unfolding wp_bind
  proof (rule wp_flush_full [OF conv])
    fix written left os
    assume w: "out @ new = written @ left" "conformed ev ?s written (rows_of os)"
    show "wp inv (batch_ok ev ?s) (merge_join ev op j b' p' left) (\<lambda>bs. ?done (os @ bs)) err"
      by (rule wp_mono [OF 1(1) [OF less sides sorted]]) (use merged_step [OF w _ step] in auto)
  qed
  show ?case
  proof (cases b)
    case None
    have "merge_join ev op j b p out = bindG (drain (lone_probe j) p out) (emit_rows ev op ?s)"
      using None by simp
    moreover have "PB []" using 1(2) None by simp
    ultimately show ?thesis
      using wp_merge_drain [OF conv sideP, where lone = "lone_probe j" and PB = PB and PP = PP]
      by (metis nested_loop_Nil(1))
  next
    case b: (Some bb)
    obtain br bg where bb: "bb = (br, bg)" by fastforce
    show ?thesis
    proof (cases p)
      case None
      have "merge_join ev op j b p out = bindG (drain (lone_build j) b out) (emit_rows ev op ?s)"
        using None b by simp
      moreover have "PP []" using 1(3) None by simp
      ultimately show ?thesis
        using wp_merge_drain [OF conv sideB, where lone = "lone_build j" and PB = PB and PP = PP]
        by (metis nested_loop_Nil(2))
    next
      case p: (Some pp)
      obtain pr pg where pp: "pp = (pr, pg)" by fastforce
      have br: "br \<in> RB" "wp inv (\<lambda>r. r \<in> RB) bg (\<lambda>bs _. PB (br # bs)) err"
        and pr: "pr \<in> RP" "wp inv (\<lambda>r. r \<in> RP) pg (\<lambda>ps _. PP (pr # ps)) err"
        using 1(2,3) b bb p pp by simp_all
      have keys: "join_key ?rt (build_keys j) br = Inr (key_of ?rt (build_keys j) br)"
        "join_key ?rt (probe_keys j) pr = Inr (key_of ?rt (probe_keys j) pr)"
        using keyed_key [OF orderable_keyed [OF ordB] br(1)] keyed_key [OF orderable_keyed [OF ordP] pr(1)] .
      have adv_build: "wp inv (batch_ok ev ?s) (pull bg (\<lambda>b'. bindG (flush_full ev op ?s (out @ lone_build j br))
          (merge_join ev op j b' p))) ?done err"
        if "\<And>bs ps. PB (br # bs) \<Longrightarrow> PP ps \<Longrightarrow> starts p ps \<Longrightarrow> \<forall>q \<in> set ps. \<not> joins ?rt j br q"
      proof (rule wp_pull [OF br(2)])
        fix b'
        assume b': "side_wp inv (\<lambda>r. r \<in> RB) b' (\<lambda>bs. PB (br # bs)) err" and part: "part_of b' bg"
        show "wp inv (batch_ok ev ?s) (bindG (flush_full ev op ?s (out @ lone_build j br)) (merge_join ev op j b' p)) ?done err"
        proof (rule round [OF _ b' sideP])
          show "((b', p), (b, p)) \<in> side_order <*lex*> side_order"
            using part b bb by (auto simp: side_order_def)
        next
          fix bs ps assume "PB (br # bs)" and "PP ps \<and> starts p ps"
          with that join_bag_build [of ps ?rt j br bs]
          show "\<exists>bs0 ps0. PB bs0 \<and> PP ps0 \<and> join_bag ?rt j bs0 ps0 = mset (lone_build j br) + join_bag ?rt j bs ps"
            by blast
        qed (use 1(4,5) sorted_input_tl in blast)+
      qed
      have adv_probe: "wp inv (batch_ok ev ?s) (pull pg (\<lambda>p'. bindG (flush_full ev op ?s (out @ lone_probe j pr))
          (merge_join ev op j b p'))) ?done err"
        if "\<And>bs ps. PB bs \<Longrightarrow> starts b bs \<Longrightarrow> PP (pr # ps) \<Longrightarrow> \<forall>c \<in> set bs. \<not> joins ?rt j c pr"
      proof (rule wp_pull [OF pr(2)])
        fix p'
        assume p': "side_wp inv (\<lambda>r. r \<in> RP) p' (\<lambda>ps. PP (pr # ps)) err" and part: "part_of p' pg"
        show "wp inv (batch_ok ev ?s) (bindG (flush_full ev op ?s (out @ lone_probe j pr)) (merge_join ev op j b p')) ?done err"
        proof (rule round [OF _ sideB p'])
          show "((b, p'), (b, p)) \<in> side_order <*lex*> side_order"
            using part p pp by (auto simp: side_order_def)
        next
          fix bs ps assume "PB bs \<and> starts b bs" and "PP (pr # ps)"
          with that join_bag_probe [of bs ?rt j pr ps]
          show "\<exists>bs0 ps0. PB bs0 \<and> PP ps0 \<and> join_bag ?rt j bs0 ps0 = mset (lone_probe j pr) + join_bag ?rt j bs ps"
            by blast
        qed (use 1(4,5) sorted_input_tl in blast)+
      qed
      show ?thesis
      proof (cases "key_of ?rt (build_keys j) br")
        case None
        then have "wp inv (batch_ok ev ?s) (pull bg (\<lambda>b'. bindG (flush_full ev op ?s (out @ lone_build j br))
          (merge_join ev op j b' p))) ?done err"
          by (intro adv_build) (simp add: joins_def)
        then show ?thesis using None keys b bb p pp by (simp add: wp_check_cancelled)
      next
        case bk: (Some bk)
        show ?thesis
        proof (cases "key_of ?rt (probe_keys j) pr")
          case None
          then have "wp inv (batch_ok ev ?s) (pull pg (\<lambda>p'. bindG (flush_full ev op ?s (out @ lone_probe j pr))
            (merge_join ev op j b p'))) ?done err"
            by (intro adv_probe) (simp add: joins_def split: option.split)
          then show ?thesis using None bk keys b bb p pp by (simp add: wp_check_cancelled)
        next
          case pk: (Some pk)
          have kinds: "plain_key bk" "plain_key pk" "list_all2 (\<lambda>v w. kind v = kind w) bk pk"
            using join_keys_kinds [OF m br(1) pr(1) bk pk] by simp_all
          show ?thesis
          proof (cases "key_eq bk pk")
            case True
            have "wp inv (batch_ok ev ?s) (take_key_group ?rt (build_keys j) bk bg (\<lambda>bgs b'.
                take_key_group ?rt (probe_keys j) pk pg (\<lambda>pgs p'.
                bindG (flush_full ev op ?s (out @ concat (map (\<lambda>l. map (join_rows j l) (pr # pgs)) (br # bgs))))
                  (merge_join ev op j b' p')))) ?done err"
            proof (rule wp_take_key_group [OF br(2) orderable_keyed [OF ordB]],
                rule wp_take_key_group [OF pr(2) orderable_keyed [OF ordP]])
              fix bgs pgs b' p'
              assume b': "side_wp inv (\<lambda>r. r \<in> RB) b' (\<lambda>bs. PB (br # bgs @ bs)) err" "part_of b' bg"
                "\<forall>r \<in> set bgs. has_key ?rt (build_keys j) bk r" "\<forall>r h. b' = Some (r, h) \<longrightarrow> \<not> has_key ?rt (build_keys j) bk r"
                and p': "side_wp inv (\<lambda>r. r \<in> RP) p' (\<lambda>ps. PP (pr # pgs @ ps)) err" "part_of p' pg"
                "\<forall>r \<in> set pgs. has_key ?rt (probe_keys j) pk r" "\<forall>r h. p' = Some (r, h) \<longrightarrow> \<not> has_key ?rt (probe_keys j) pk r"
              show "wp inv (batch_ok ev ?s) (bindG (flush_full ev op ?s
                  (out @ concat (map (\<lambda>l. map (join_rows j l) (pr # pgs)) (br # bgs)))) (merge_join ev op j b' p')) ?done err"
              proof (rule round [OF _ side_wp_starts [OF b'(1)] side_wp_starts [OF p'(1)]])
                show "((b', p'), (b, p)) \<in> side_order <*lex*> side_order"
                  using b'(2) b bb by (auto simp: side_order_def)
              next
                fix bs ps
                assume bs: "PB (br # bgs @ bs) \<and> starts b' bs" and ps: "PP (pr # pgs @ ps) \<and> starts p' ps"
                have "join_bag ?rt j (br # bgs @ bs) (pr # pgs @ ps)
                    = mset (concat (map (\<lambda>l. map (join_rows j l) (pr # pgs)) (br # bgs))) + join_bag ?rt j bs ps"
                  using bs ps 1(4,5) b'(3,4) p'(3,4)
                  by (intro join_bag_key_groups [OF ordB ordP bk pk True kinds(1,2)]) auto
                then show "\<exists>bs0 ps0. PB bs0 \<and> PP ps0 \<and> join_bag ?rt j bs0 ps0
                    = mset (concat (map (\<lambda>l. map (join_rows j l) (pr # pgs)) (br # bgs))) + join_bag ?rt j bs ps"
                  using bs ps by blast
              qed (use 1(4,5) sorted_input_append [of ?rt "build_keys j" RB "br # bgs"]
                  sorted_input_append [of ?rt "probe_keys j" RP "pr # pgs"] in auto)
            qed
            then show ?thesis using True keys bk pk b bb p pp by (simp add: wp_check_cancelled)
          next
            case False
            obtain c where c: "compare_join_keys bk pk = Inr c" "c < 0 \<longleftrightarrow> key_vals bk < key_vals pk"
              using compare_join_keys_vals [OF kinds] by blast
            have neq: "key_vals bk \<noteq> key_vals pk" using False key_eq_vals [OF kinds(1,2)] by simp
            show ?thesis
            proof (cases "c < 0")
              case True
              have "wp inv (batch_ok ev ?s) (pull bg (\<lambda>b'. bindG (flush_full ev op ?s (out @ lone_build j br))
                (merge_join ev op j b' p))) ?done err"
              proof (rule adv_build)
                fix bs ps assume "PB (br # bs)" and "PP ps" and "starts p ps"
                moreover from this obtain rest where "ps = pr # rest" using p pp by (auto simp: starts_def)
                ultimately show "\<forall>q \<in> set ps. \<not> joins ?rt j br q"
                  using not_joins_less(1) [OF m _ _ bk pk] 1(4,5) c(2) True by blast
              qed
              then show ?thesis using True False c keys bk pk b bb p pp by (simp add: wp_check_cancelled)
            next
              case ge: False
              have "wp inv (batch_ok ev ?s) (pull pg (\<lambda>p'. bindG (flush_full ev op ?s (out @ lone_probe j pr))
                (merge_join ev op j b p'))) ?done err"
              proof (rule adv_probe)
                fix bs ps assume "PB bs" and "starts b bs" and "PP (pr # ps)"
                moreover from this obtain rest where "bs = br # rest" using b bb by (auto simp: starts_def)
                moreover have "key_vals pk < key_vals bk" using c(2) ge neq by simp
                ultimately show "\<forall>c \<in> set bs. \<not> joins ?rt j c pr"
                  using not_joins_less(2) [OF m _ _ bk pk] 1(4,5) by blast
              qed
              then show ?thesis using ge False c keys bk pk b bb p pp by (simp add: wp_check_cancelled)
            qed
          qed
        qed
      qed
    qed
  qed
qed

end

end
