(* ===== verification/HashJoin.thy ===== *)
theory HashJoin
  imports MergeJoin ExprLaws
begin

text \<open>
  The hash join as a whole: in memory, partitioned, or partitioned and merged, it delivers the
  nested-loop join of its inputs.
\<close>

section \<open>One partition\<close>

text \<open>The rows delivered are a join of the given rows, in some order.\<close>

definition join_of :: "env \<Rightarrow> hash_join \<Rightarrow> row list \<Rightarrow> row list \<Rightarrow> row list \<Rightarrow> bool" where
  "join_of ev j bs ps res \<longleftrightarrow> (\<exists>outs. mset outs = join_bag (rt_of ev) j bs ps \<and> conformed ev (hj_schema j) outs res)"

lemma mergeable_orderable:
  "mergeable rt j RB RP \<Longrightarrow> orderable rt (map asc_item (build_keys j)) RB"
  "mergeable rt j RB RP \<Longrightarrow> orderable rt (map asc_item (probe_keys j)) RP"
  by (simp_all add: mergeable_def)

context execution_context
begin

lemma wp_sorted_side:
  assumes "orderable (rt_of ev) (map asc_item es) (set (concat files))" and "\<forall>r \<in> set (concat files). conforms ev s r"
  shows "wp inv (\<lambda>r. r \<in> set (concat files))
    (external_sorted_rows ev (in_memory_sort ev) op frame s (map asc_item es) sk (batches_from_files s files))
    (\<lambda>rs _. rs = sort (row_cmp (rt_of ev) (map asc_item es)) (concat files)) err"
proof (rule row_sorter.wp_external_sorted_rows)
  show "row_sorter inv err ev (in_memory_sort ev)"
    by (rule in_memory_sorter) (rule execution_context_axioms)
  show "wp inv (\<lambda>b. batch_ok ev s b \<and> set (bt_rows b) \<subseteq> set (concat files)) (batches_from_files s files)
      (\<lambda>bs _. rows_of bs = concat files) err"
    using assms(2) by (rule wp_batches_from_files) simp
qed (use assms in auto)

lemma wp_sort_merge_partition:
  assumes m: "mergeable (rt_of ev) j (set (concat bfiles)) (set (concat pfiles))"
    and "\<forall>r \<in> set (concat bfiles). conforms ev bs r" and "\<forall>r \<in> set (concat pfiles). conforms ev ps r"
    and conv: "conversion_ok ev (hj_schema j)" "\<And>r e. ev_conform ev (hj_schema j) r = Inl e \<Longrightarrow> err e"
  shows "wp inv (batch_ok ev (hj_schema j)) (sort_merge_partition ev op frame j bs ps bfiles pfiles)
    (\<lambda>os _. join_of ev j (concat bfiles) (concat pfiles) (rows_of os)) err"
  unfolding sort_merge_partition_def merge_join_rows_def
proof (rule wp_pull [OF wp_sorted_side], rule_tac [3] wp_pull [OF wp_sorted_side])
  let ?b = "sort (row_cmp (rt_of ev) (map asc_item (build_keys j))) (concat bfiles)"
  let ?p = "sort (row_cmp (rt_of ev) (map asc_item (probe_keys j))) (concat pfiles)"
  fix b p
  assume sides: "side_wp inv (\<lambda>r. r \<in> set (concat bfiles)) b (\<lambda>rs. rs = ?b) err"
    "side_wp inv (\<lambda>r. r \<in> set (concat pfiles)) p (\<lambda>rs. rs = ?p) err"
  have "wp inv (batch_ok ev (hj_schema j)) (merge_join ev op j b p [])
      (\<lambda>os _. merged ev j (\<lambda>rs. rs = ?b) (\<lambda>rs. rs = ?p) [] (rows_of os)) err"
    by (rule wp_merge_join [OF m conv sides]) (simp_all add: sorted_input_def)
  then show "wp inv (batch_ok ev (hj_schema j)) (merge_join ev op j b p [])
      (\<lambda>os _. join_of ev j (concat bfiles) (concat pfiles) (rows_of os)) err"
  proof (rule wp_mono)
    fix os and u :: unit
    assume "merged ev j (\<lambda>rs. rs = ?b) (\<lambda>rs. rs = ?p) [] (rows_of os)"
    then show "join_of ev j (concat bfiles) (concat pfiles) (rows_of os)"
      using join_bag_mset [of ?b "concat bfiles" ?p "concat pfiles" "rt_of ev" j]
      by (auto simp: merged_def join_of_def)
  qed simp
qed (use assms mergeable_orderable [OF m] in simp_all)

lemma wp_read_build:
  assumes "\<forall>r \<in> set (concat files). conforms ev s r" and "Q [] (Some (concat files))" and "Q [] None"
  shows "wp inv Y (read_build ev frame s files) Q err"
proof -
  have "wp inv Y (for_loop (rows_from_files s files) [] (\<lambda>rows row rest.
         bindG (try_reserve_step frame (row_size ev row)) (\<lambda>ok. Ret (if ok then Inl (rows @ [row]) else Inr ()))))
      (\<lambda>os. (\<lambda>as r. as = [] \<and> (case r of Inl rows \<Rightarrow> rows = concat files | Inr _ \<Rightarrow> True)) ([] @ os)) err"
  proof (rule wp_for_loop [where J = "\<lambda>seen rows as. as = [] \<and> rows = seen" and T = "\<lambda>_. True"
        and B = "\<lambda>r. r \<in> set (concat files)" and P = "\<lambda>rs. rs = concat files" and pre = "[]"])
    show "wp inv (\<lambda>r. r \<in> set (concat files)) (rows_from_files s files) (\<lambda>rs _. [] @ rs = concat files) err"
      by (rule wp_rows_from_files [OF assms(1)]) simp
  qed (auto intro!: wp_try_reserve)
  then show ?thesis
    unfolding read_build_def wp_bind
    by (rule wp_mono) (use assms(2,3) in \<open>auto split: sum.splits\<close>)
qed

lemma wp_join_partition:
  assumes m: "mergeable (rt_of ev) j (set (concat bfiles)) (set (concat pfiles))"
    and "\<forall>r \<in> set (concat bfiles). conforms ev bs r" and "\<forall>r \<in> set (concat pfiles). conforms ev ps r"
    and conv: "conversion_ok ev (hj_schema j)" "\<And>r e. ev_conform ev (hj_schema j) r = Inl e \<Longrightarrow> err e"
  shows "wp inv (batch_ok ev (hj_schema j)) (join_partition ev op frame j bs ps bfiles pfiles)
    (\<lambda>os _. join_of ev j (concat bfiles) (concat pfiles) (rows_of os)) err"
proof -
  let ?Q = "\<lambda>os _. join_of ev j (concat bfiles) (concat pfiles) (rows_of os)"
  let ?next = "\<lambda>fits. case fits of
         None \<Rightarrow> bindG (release_step frame) (\<lambda>_.
           bindG (bump_spill (\<lambda>sp. sp\<lparr>sort_merge_fallbacks := sort_merge_fallbacks sp + 1\<rparr>)) (\<lambda>_.
             sort_merge_partition ev op frame j bs ps bfiles pfiles))
       | Some builds \<Rightarrow> finallyG (release_frame frame)
           (hash_partition_rows ev op j builds (rows_from_files ps pfiles))"
  have keyed: "keyed (rt_of ev) (build_keys j) (set (concat bfiles))" "keyed (rt_of ev) (probe_keys j) (set (concat pfiles))"
    using mergeable_orderable [OF m] by (blast intro: orderable_keyed)+
  have "wp inv (batch_ok ev (hj_schema j)) (hash_partition_rows ev op j (concat bfiles) (rows_from_files ps pfiles)) ?Q err"
  proof (rule wp_hash_partition_rows [OF keyed _ conv])
    show "wp inv (\<lambda>p. p \<in> set (concat pfiles)) (rows_from_files ps pfiles) (\<lambda>rs _. rs = concat pfiles) err"
      by (rule wp_rows_from_files [OF assms(3)]) simp
  qed (auto simp: join_of_def)
  then have hash: "wp inv (batch_ok ev (hj_schema j)) (?next (Some (concat bfiles))) ?Q err"
    by (simp add: wp_release_frame)
  have merge: "wp inv (batch_ok ev (hj_schema j)) (?next None) ?Q err"
    using wp_sort_merge_partition [OF m assms(2,3) conv, where op = op and frame = frame]
    by (auto simp: bump_spill_def inv_spill intro!: wp_release_step)
  show ?thesis
    unfolding join_partition_def wp_bind
    by (rule wp_read_build [OF assms(2)]) (use hash merge in simp_all)
qed

end

section \<open>All partitions\<close>

lemma partitioned_set:
  assumes "partitioned ev es rows files" and "i < partition_count"
  shows "concat (files ! i) = in_part ev es rows i" and "set (concat (files ! i)) \<subseteq> set rows"
  using assms by (auto simp: partitioned_def in_part_def)

context execution_context
begin

lemma wp_rows_from_batches:
  assumes "wp inv (\<lambda>b. batch_ok ev s b \<and> set (bt_rows b) \<subseteq> R) input (\<lambda>bs _. P (rows_of bs)) err"
    and "\<And>rows. P rows \<Longrightarrow> Q rows ()"
  shows "wp inv (\<lambda>r. r \<in> R \<and> conforms ev s r) (rows_from_batches op input) Q err"
  unfolding rows_from_batches_def
proof (rule wp_for_each [OF assms(1), where J = "\<lambda>bs _ as. as = rows_of bs"])
  fix bs as b and v :: unit
  assume "as = rows_of bs" and "batch_ok ev s b \<and> set (bt_rows b) \<subseteq> R"
  then show "wp inv (\<lambda>r. r \<in> R \<and> conforms ev s r) (bindG check_cancelled (\<lambda>_.
      bindG (count_input op (length (bt_rows b))) (\<lambda>_. from_list (bt_rows b))))
      (\<lambda>os v'. as @ os = rows_of (bs @ [b])) err"
    by (auto simp: batch_ok_def list_all_iff intro!: wp_check_cancelled wp_count_input)
qed (use assms(2) in auto)

lemma wp_partitioned_probe:
  assumes m: "mergeable (rt_of ev) j RB RP" and hash: "hash_respects_eq ev"
    and conv: "conversion_ok ev (hj_schema j)" "\<And>r e. ev_conform ev (hj_schema j) r = Inl e \<Longrightarrow> err e"
    and bfiles: "partitioned ev (build_keys j) bs bfiles" and bs: "set bs \<subseteq> RB" "\<forall>r \<in> set bs. conforms ev sb r"
    and probes: "wp inv (\<lambda>r. r \<in> RP \<and> conforms ev sp r) probes (\<lambda>ps _. PP ps) err"
  shows "wp inv (batch_ok ev (hj_schema j)) (partitioned_probe ev op frame j sb bfiles sp probes)
    (\<lambda>os _. \<exists>ps. PP ps \<and> join_of ev j bs ps (rows_of os)) err"
proof -
  let ?rt = "rt_of ev"
  let ?Q = "\<lambda>os _. \<exists>ps. PP ps \<and> join_of ev j bs ps (rows_of os)"
  let ?part = "\<lambda>ps i. join_bag ?rt j (in_part ev (build_keys j) bs i) (in_part ev (probe_keys j) ps i)"
  have probes': "wp inv (\<lambda>r. r \<in> RP \<and> conforms ev sp r) probes
      (\<lambda>ps _. PP ps \<and> (\<forall>r \<in> set ps. r \<in> RP \<and> conforms ev sp r)) err"
    by (rule wp_yielded, rule wp_mono [OF probes]) (auto simp: list_all_iff)
  have joined: "wp inv (batch_ok ev (hj_schema j)) (for_list [0..<partition_count] () (\<lambda>_ i.
       join_partition ev op (frame @ ''/partition'') j sb sp (bfiles ! i) (pfiles ! i))) ?Q err"
    if "PP ps" and ps: "\<forall>r \<in> set ps. r \<in> RP \<and> conforms ev sp r" and pfiles: "partitioned ev (probe_keys j) ps pfiles"
    for ps pfiles
  proof (rule wp_for_list [where J = "\<lambda>i _ os. \<exists>outs. mset outs = (\<Sum>k<i. ?part ps k) \<and> conformed ev (hj_schema j) outs (rows_of os)"])
    fix i os and v :: unit
    assume i: "i < length [0..<partition_count]"
      and J: "\<exists>outs. mset outs = (\<Sum>k<i. ?part ps k) \<and> conformed ev (hj_schema j) outs (rows_of os)"
    then have i': "i < partition_count" and nth: "[0..<partition_count] ! i = i" by simp_all
    note b = partitioned_set [OF bfiles i'] and p = partitioned_set [OF pfiles i']
    have m': "mergeable ?rt j (set (concat (bfiles ! i))) (set (concat (pfiles ! i)))"
      using b(2) p(2) bs(1) ps by (intro mergeable_subset [OF m]) blast+
    have "wp inv (batch_ok ev (hj_schema j)) (join_partition ev op (frame @ ''/partition'') j sb sp (bfiles ! i) (pfiles ! i))
        (\<lambda>os _. join_of ev j (concat (bfiles ! i)) (concat (pfiles ! i)) (rows_of os)) err"
      using b(2) p(2) bs(2) ps by (intro wp_join_partition [OF m' _ _ conv]) blast+
    then show "wp inv (batch_ok ev (hj_schema j)) (join_partition ev op (frame @ ''/partition'') j sb sp
          (bfiles ! ([0..<partition_count] ! i)) (pfiles ! ([0..<partition_count] ! i)))
        (\<lambda>os' v'. \<exists>outs. mset outs = (\<Sum>k<Suc i. ?part ps k) \<and> conformed ev (hj_schema j) outs (rows_of (os @ os'))) err"
      unfolding nth
    proof (rule wp_mono)
      fix os' and u :: unit
      assume "join_of ev j (concat (bfiles ! i)) (concat (pfiles ! i)) (rows_of os')"
      then obtain outs' where "mset outs' = ?part ps i" "conformed ev (hj_schema j) outs' (rows_of os')"
        unfolding b(1) p(1) by (auto simp: join_of_def)
      moreover obtain outs where "mset outs = (\<Sum>k<i. ?part ps k)" "conformed ev (hj_schema j) outs (rows_of os)"
        using J by blast
      ultimately show "\<exists>outs. mset outs = (\<Sum>k<Suc i. ?part ps k) \<and> conformed ev (hj_schema j) outs (rows_of (os @ os'))"
        by (intro exI [of _ "outs @ outs'"]) (simp add: conformed_append)
    qed simp
  next
    fix v :: unit and os
    assume "\<exists>outs. mset outs = (\<Sum>k<length [0..<partition_count]. ?part ps k) \<and> conformed ev (hj_schema j) outs (rows_of os)"
    then have "join_of ev j bs ps (rows_of os)"
      using nested_loop_join_parts [OF hash, of j bs ps] by (simp add: join_of_def)
    with \<open>PP ps\<close> show "?Q os v" by blast
  qed simp
  show ?thesis
    unfolding partitioned_probe_def wp_bind
  proof (rule wp_partition_rows [OF probes' orderable_keyed [OF mergeable_orderable(2) [OF m]]])
    fix ps pfiles
    assume "PP ps \<and> (\<forall>r \<in> set ps. r \<in> RP \<and> conforms ev sp r)" and "partitioned ev (probe_keys j) ps pfiles"
    with joined [of ps pfiles] show "wp inv (batch_ok ev (hj_schema j)) (bump_spill (\<lambda>sp. sp\<lparr>hash_partitions := hash_partitions sp
         + int (length (filter (\<lambda>i. bfiles ! i \<noteq> [] \<or> pfiles ! i \<noteq> []) [0..<partition_count]))\<rparr>))
       (\<lambda>as r. wp inv (batch_ok ev (hj_schema j)) (for_list [0..<partition_count] () (\<lambda>_ i.
         join_partition ev op (frame @ ''/partition'') j sb sp (bfiles ! i) (pfiles ! i))) (\<lambda>bs. ?Q ([] @ as @ bs)) err) err"
      by (simp add: bump_spill_def inv_spill)
  qed
qed

lemma wp_execute_partitioned:
  assumes m: "mergeable (rt_of ev) j RB RP" and hash: "hash_respects_eq ev"
    and conv: "conversion_ok ev (hj_schema j)" "\<And>r e. ev_conform ev (hj_schema j) r = Inl e \<Longrightarrow> err e"
    and builds: "wp inv (\<lambda>r. r \<in> RB \<and> conforms ev sb r) builds (\<lambda>bs _. PB bs) err"
    and probe: "wp inv (\<lambda>b. batch_ok ev sp b \<and> set (bt_rows b) \<subseteq> RP) probe (\<lambda>bs _. PP (rows_of bs)) err"
  shows "wp inv (batch_ok ev (hj_schema j)) (execute_partitioned ev op frame j sb builds probe)
    (\<lambda>os _. \<exists>bs ps. PB bs \<and> PP ps \<and> join_of ev j bs ps (rows_of os)) err"
  unfolding execute_partitioned_def wp_bind
proof (rule wp_partition_rows [OF _ orderable_keyed [OF mergeable_orderable(1) [OF m]]])
  show "wp inv (\<lambda>r. r \<in> RB \<and> conforms ev sb r) builds
      (\<lambda>bs _. PB bs \<and> (\<forall>r \<in> set bs. r \<in> RB \<and> conforms ev sb r)) err"
    by (rule wp_yielded, rule wp_mono [OF builds]) (auto simp: list_all_iff)
next
  fix bs bfiles
  assume bs: "PB bs \<and> (\<forall>r \<in> set bs. r \<in> RB \<and> conforms ev sb r)" and bfiles: "partitioned ev (build_keys j) bs bfiles"
  have probed: "wp inv (batch_ok ev (hj_schema j)) (partitioned_probe ev op frame j sb bfiles s probes)
      (\<lambda>os _. \<exists>bs ps. PB bs \<and> PP ps \<and> join_of ev j bs ps (rows_of ([] @ os))) err"
    if "wp inv (\<lambda>r. r \<in> RP \<and> conforms ev s r) probes (\<lambda>ps _. PP ps) err" for s probes
    by (rule wp_mono [OF wp_partitioned_probe [OF m hash conv bfiles _ _ that]]) (use bs in auto)
  show "wp inv (batch_ok ev (hj_schema j)) (pull probe (\<lambda>first. case first of
         None \<Rightarrow> partitioned_probe ev op frame j sb bfiles (sub_schema (hj_schema j) (probe_columns j)) (Ret ())
       | Some (b, rest) \<Rightarrow> partitioned_probe ev op frame j sb bfiles (bt_schema b) (rows_from_batches op (Yield b rest))))
      (\<lambda>os. (\<lambda>os _. \<exists>bs ps. PB bs \<and> PP ps \<and> join_of ev j bs ps (rows_of os)) ([] @ os)) err"
  proof (rule wp_pull [OF probe])
    fix x
    assume side: "side_wp inv (\<lambda>b. batch_ok ev sp b \<and> set (bt_rows b) \<subseteq> RP) x (\<lambda>bs. PP (rows_of bs)) err"
    show "wp inv (batch_ok ev (hj_schema j)) (case x of
         None \<Rightarrow> partitioned_probe ev op frame j sb bfiles (sub_schema (hj_schema j) (probe_columns j)) (Ret ())
       | Some (b, rest) \<Rightarrow> partitioned_probe ev op frame j sb bfiles (bt_schema b) (rows_from_batches op (Yield b rest)))
      (\<lambda>os. (\<lambda>os _. \<exists>bs ps. PB bs \<and> PP ps \<and> join_of ev j bs ps (rows_of os)) ([] @ os)) err"
    proof (cases x)
      case None
      then show ?thesis using side probed by simp
    next
      case (Some y)
      obtain b rest where y: "y = (b, rest)" by fastforce
      have "bt_schema b = sp" using side Some y by (simp add: batch_ok_def)
      moreover have "wp inv (\<lambda>r. r \<in> RP \<and> conforms ev sp r) (rows_from_batches op (Yield b rest)) (\<lambda>ps _. PP ps) err"
        by (rule wp_rows_from_batches [where P = PP]) (use side Some y in auto)
      ultimately show ?thesis using probed Some y by simp
    qed
  qed
qed

end

section \<open>Building and probing in memory\<close>

text \<open>The rows read so far and their table.\<close>

definition built :: "env \<Rightarrow> hash_join \<Rightarrow> row list \<Rightarrow> row list \<times> hash_table \<Rightarrow> bool" where
  "built ev j seen st \<longleftrightarrow> fst st = seen \<and> table_of (rt_of ev) j seen (snd st)"

text \<open>The names of the null-extended sides are the columns of the sides.\<close>

definition named :: "hash_join \<Rightarrow> row set \<Rightarrow> schema \<Rightarrow> bool" where
  "named j RB sp \<longleftrightarrow> (\<forall>r \<in> RB. dom r = set (build_columns j)) \<and> set (field_names sp) = set (probe_columns j)"

lemma build_names_columns:
  "named j RB sp \<Longrightarrow> set bs \<subseteq> RB \<Longrightarrow> build_names j bs = set (build_columns j)"
  by (cases bs) (simp_all add: build_names_def named_def)

context execution_context
begin

lemma wp_build_batch:
  assumes "built ev j seen st" and "keyed (rt_of ev) (build_keys j) (set rows)"
    and "\<And>st'. built ev j (seen @ rows) st' \<Longrightarrow> Q [] (Inl st')"
    and "\<And>done left. seen @ rows = done @ left \<Longrightarrow> Q [] (Inr (done, left))"
  shows "wp inv Y (build_batch ev frame j st rows) Q err"
  using assms
proof (induction rows arbitrary: seen st)
  case (Cons row rows)
  have row: "keyed (rt_of ev) (build_keys j) {row}" and rows: "keyed (rt_of ev) (build_keys j) (set rows)"
    using Cons.prems(2) by (simp_all add: keyed_def)
  from Cons.prems(1) have st: "fst st = seen" "table_of (rt_of ev) j seen (snd st)" by (simp_all add: built_def)
  from table_of_add [OF st(2) row] obtain k where k: "join_key (rt_of ev) (build_keys j) row = Inr k"
    "table_of (rt_of ev) j (seen @ [row]) (table_add k (length seen) (snd st))" by blast
  have "wp inv Y (build_batch ev frame j (fst st @ [row], table_add k (length (fst st)) (snd st)) rows) Q err"
    using st k(2) Cons.prems(3,4) by (intro Cons.IH [OF _ rows, of "seen @ [row]"]) (simp_all add: built_def)
  then show ?case
    using k(1) Cons.prems(4) [of seen "row # rows"] st(1) by (auto intro!: wp_try_reserve)
qed simp

lemma wp_build_step:
  assumes m: "mergeable (rt_of ev) j RB RP" and hash: "hash_respects_eq ev"
    and conv: "conversion_ok ev (hj_schema j)" "\<And>r e. ev_conform ev (hj_schema j) r = Inl e \<Longrightarrow> err e"
    and probe: "wp inv (\<lambda>b. batch_ok ev sp b \<and> set (bt_rows b) \<subseteq> RP) probe (\<lambda>bs _. PP (rows_of bs)) err"
    and st: "built ev j seen st" and seen: "\<forall>r \<in> set seen. r \<in> RB \<and> conforms ev sb r"
    and b: "batch_ok ev sb b" "set (bt_rows b) \<subseteq> RB"
    and rest: "wp inv (\<lambda>b. batch_ok ev sb b \<and> set (bt_rows b) \<subseteq> RB) rest
      (\<lambda>bs _. PB (seen @ bt_rows b @ rows_of bs)) err"
    and further: "\<And>st'. built ev j (seen @ bt_rows b) st' \<Longrightarrow> Q [] (Inl st')"
    and finished: "\<And>bs ps os. PB bs \<Longrightarrow> PP ps \<Longrightarrow> join_of ev j bs ps (rows_of os) \<Longrightarrow> Q os (Inr ())"
  shows "wp inv (batch_ok ev (hj_schema j)) (build_step ev op frame j probe st b rest) Q err"
proof -
  have rows: "\<forall>r \<in> set (bt_rows b). r \<in> RB \<and> conforms ev sb r" and sb: "bt_schema b = sb"
    using b by (auto simp: batch_ok_def list_all_iff)
  have "keyed (rt_of ev) (build_keys j) RB" by (rule orderable_keyed [OF mergeable_orderable(1) [OF m]])
  then have keyed: "keyed (rt_of ev) (build_keys j) (set (bt_rows b))" using b(2) by (auto simp: keyed_def)
  have spill: "wp inv (batch_ok ev (hj_schema j)) (execute_partitioned ev op frame j (bt_schema b)
      (bindG (from_list (done @ left)) (\<lambda>_. rows_from_batches op rest)) probe) (\<lambda>os _. Q os (Inr ())) err"
    if split: "seen @ bt_rows b = done @ left" for "done" left
  proof -
    have all: "\<forall>r \<in> set (done @ left). r \<in> RB \<and> conforms ev sb r"
      unfolding split [symmetric] using seen rows by auto
    have "wp inv (\<lambda>r. r \<in> RB \<and> conforms ev sb r) (rows_from_batches op rest) (\<lambda>rs _. PB (seen @ bt_rows b @ rs)) err"
      by (rule wp_rows_from_batches [where P = "\<lambda>rs. PB (seen @ bt_rows b @ rs)", OF rest])
    then have "wp inv (\<lambda>r. r \<in> RB \<and> conforms ev sb r) (rows_from_batches op rest) (\<lambda>rs _. PB ((done @ left) @ rs)) err"
      unfolding split [symmetric] by simp
    with all have "wp inv (\<lambda>r. r \<in> RB \<and> conforms ev sb r)
        (bindG (from_list (done @ left)) (\<lambda>_. rows_from_batches op rest)) (\<lambda>bs _. PB bs) err"
      by (simp add: list_all_iff)
    from wp_execute_partitioned [OF m hash conv this probe] show ?thesis
      unfolding sb by (rule wp_mono) (use finished in blast)+
  qed
  have "wp inv (batch_ok ev (hj_schema j)) (build_batch ev frame j st (bt_rows b))
      (\<lambda>as r. wp inv (batch_ok ev (hj_schema j)) (case r of
         Inl st' \<Rightarrow> Ret (Inl st')
       | Inr (rows, left) \<Rightarrow> bindG (release_step frame) (\<lambda>_.
           bindG (execute_partitioned ev op frame j (bt_schema b)
               (bindG (from_list (rows @ left)) (\<lambda>_. rows_from_batches op rest)) probe)
             (\<lambda>_. Ret (Inr ())))) (\<lambda>bs. Q (as @ bs)) err) err"
    by (rule wp_build_batch [OF st keyed]) (use further spill in \<open>auto intro!: wp_release_step\<close>)
  then show ?thesis
    by (simp add: build_step_def wp_check_cancelled wp_count_input)
qed

lemma wp_probe_batch:
  assumes "table_of (rt_of ev) j bs t" and "keyed (rt_of ev) (probe_keys j) (set (bt_rows b))"
    and conv: "conversion_ok ev (hj_schema j)" "\<And>r e. ev_conform ev (hj_schema j) r = Inl e \<Longrightarrow> err e"
    and "build_names j bs = set (build_columns j)" and "probed ev j bs seen (fst st) as"
  shows "wp inv (batch_ok ev (hj_schema j)) (probe_batch ev op j bs t st b)
    (\<lambda>os st'. snd st' = field_names (bt_schema b) \<and> probed ev j bs (seen @ bt_rows b) (fst st') (as @ os)) err"
proof -
  have "wp inv (batch_ok ev (hj_schema j)) (for_list (bt_rows b) (fst st) (\<lambda>st row. bindG check_cancelled (\<lambda>_.
         probe_step ev op j bs t (null_row (build_names j bs)) st row)))
      (\<lambda>os st'. probed ev j bs (seen @ bt_rows b) st' (as @ os)) err"
  proof (rule wp_for_list_prefix [where J = "\<lambda>pre st' os. probed ev j bs (seen @ pre) st' (as @ os)"])
    fix pre p st' os
    assume "set (pre @ [p]) \<subseteq> set (bt_rows b)" and J: "probed ev j bs (seen @ pre) st' (as @ os)"
    then have "keyed (rt_of ev) (probe_keys j) {p}" using assms(2) by (simp add: keyed_def)
    from wp_probe_step [OF assms(1) this conv J] show "wp inv (batch_ok ev (hj_schema j))
        (bindG check_cancelled (\<lambda>_. probe_step ev op j bs t (null_row (build_names j bs)) st' p))
        (\<lambda>os' v'. probed ev j bs (seen @ pre @ [p]) v' (as @ os @ os')) err"
      unfolding assms(5) by (intro wp_checked) simp
  qed (use assms(6) in auto)
  then show ?thesis
    by (simp add: probe_batch_def wp_check_cancelled wp_count_input)
qed

lemma wp_finish_probe:
  assumes conv: "conversion_ok ev (hj_schema j)" "\<And>r e. ev_conform ev (hj_schema j) r = Inl e \<Longrightarrow> err e"
    and "probed ev j bs ps (fst st) as" and names: "snd st = [] \<or> set (snd st) = set (probe_columns j)"
    and post: "\<And>os. conformed ev (hj_schema j) (nested_loop_join (rt_of ev) j bs ps) (rows_of (as @ os)) \<Longrightarrow> Q os ()"
  shows "wp inv (batch_ok ev (hj_schema j)) (finish_probe ev op j bs st) Q err"
proof -
  obtain out matched nm where st: "st = ((out, matched), nm)" by (metis prod.collapse)
  from assms(3) obtain written where w: "conformed ev (hj_schema j) written (rows_of as)"
      "written @ out = concat (map (probe_output (rt_of ev) j bs) ps)" and m: "matched = matched_in (rt_of ev) j bs ps"
    by (auto simp: probed_def st)
  let ?null = "null_row (set (if nm = [] then probe_columns j else nm))"
  let ?rows = "if build_preserved j then unmatched_builds j bs matched ?null else []"
  have null: "?null = null_row (set (probe_columns j))" using names st by auto
  have rows: "?rows = build_output (rt_of ev) j bs ps"
    unfolding null m using unmatched_output [of j bs "rt_of ev" ps] by simp
  have loop: "wp inv (batch_ok ev (hj_schema j)) (if build_preserved j
            then for_list (unmatched_builds j bs matched ?null) out
              (\<lambda>out r. flush_full ev op (hj_schema j) (out @ [r]))
            else Ret out) (\<lambda>os left. \<exists>new. conformed ev (hj_schema j) new (rows_of os) \<and> new @ left = out @ ?rows) err"
  proof (cases "build_preserved j")
    case True
    have "wp inv (batch_ok ev (hj_schema j)) (for_list ?rows out (\<lambda>out r. flush_full ev op (hj_schema j) (out @ [r])))
        (\<lambda>os left. \<exists>new. conformed ev (hj_schema j) new (rows_of os) \<and> new @ left = out @ ?rows) err"
    proof (rule wp_for_list_prefix [where J = "\<lambda>pre left os. \<exists>new. conformed ev (hj_schema j) new (rows_of os) \<and> new @ left = out @ pre"])
      fix pre r left os
      assume "\<exists>new. conformed ev (hj_schema j) new (rows_of os) \<and> new @ left = out @ pre"
      then obtain new where new: "conformed ev (hj_schema j) new (rows_of os)" "new @ left = out @ pre" by blast
      show "wp inv (batch_ok ev (hj_schema j)) (flush_full ev op (hj_schema j) (left @ [r]))
          (\<lambda>os' left'. \<exists>new. conformed ev (hj_schema j) new (rows_of (os @ os')) \<and> new @ left' = out @ pre @ [r]) err"
      proof (rule wp_flush_full [OF conv])
        fix w' left' os'
        assume "left @ [r] = w' @ left'" and "conformed ev (hj_schema j) w' (rows_of os')"
        then have "conformed ev (hj_schema j) (new @ w') (rows_of (os @ os'))" and "(new @ w') @ left' = out @ pre @ [r]"
          using new(1) arg_cong [OF new(2), of "\<lambda>xs. xs @ [r]"] by (simp_all add: conformed_append)
        then show "\<exists>new. conformed ev (hj_schema j) new (rows_of (os @ os')) \<and> new @ left' = out @ pre @ [r]" by blast
      qed
    qed auto
    then show ?thesis using True by simp
  qed auto
  show ?thesis
    unfolding finish_probe_def st prod.case Let_def wp_bind
  proof (rule wp_mono [OF loop])
    fix os left
    assume "\<exists>new. conformed ev (hj_schema j) new (rows_of os) \<and> new @ left = out @ ?rows"
    then obtain new where new: "conformed ev (hj_schema j) new (rows_of os)" "new @ left = out @ ?rows" by blast
    show "wp inv (batch_ok ev (hj_schema j)) (emit_rows ev op (hj_schema j) left) (\<lambda>bs. Q (os @ bs)) err"
    proof (rule wp_emit_rows [OF conv(2,1)])
      fix os'
      assume "conformed ev (hj_schema j) left (rows_of os')"
      then have "conformed ev (hj_schema j) (written @ new @ left) (rows_of as @ rows_of os @ rows_of os')"
        using w(1) new(1) by (intro conformed_append)
      moreover have "written @ new @ left = nested_loop_join (rt_of ev) j bs ps"
        using new(2) rows arg_cong [OF w(2), of "\<lambda>xs. xs @ build_output (rt_of ev) j bs ps"]
        by (simp add: nested_loop_join_def)
      ultimately show "Q (os @ os') ()" by (intro post) simp
    qed
  qed simp
qed

lemma wp_publish_filter:
  assumes "\<And>e. hj_channel j \<noteq> None \<Longrightarrow> build_filter ev j bs = Inl e \<Longrightarrow> err e" and "Q [] ()"
  shows "wp inv Y (publish_filter ev j bs) Q err"
  using assms by (auto simp: publish_filter_def wp_lift inv_channels split: option.split sum.split)

end

section \<open>The whole operator\<close>

context execution_context
begin

lemma wp_hash_join_op:
  assumes m: "mergeable (rt_of ev) j RB RP" and hash: "hash_respects_eq ev" and names: "named j RB sp"
    and conv: "conversion_ok ev (hj_schema j)" "\<And>r e. ev_conform ev (hj_schema j) r = Inl e \<Longrightarrow> err e"
    and filters: "\<And>bs e. hj_channel j \<noteq> None \<Longrightarrow> set bs \<subseteq> RB \<Longrightarrow> build_filter ev j bs = Inl e \<Longrightarrow> err e"
    and build: "wp inv (\<lambda>b. batch_ok ev sb b \<and> set (bt_rows b) \<subseteq> RB) (if hj_build_left j then left else right)
      (\<lambda>bs _. PB (rows_of bs)) err"
    and probe: "wp inv (\<lambda>b. batch_ok ev sp b \<and> set (bt_rows b) \<subseteq> RP) (if hj_build_left j then right else left)
      (\<lambda>bs _. PP (rows_of bs)) err"
  shows "wp inv (batch_ok ev (hj_schema j)) (hash_join_op ev op frame j left right)
    (\<lambda>os _. \<exists>bs ps. PB bs \<and> PP ps \<and> join_of ev j bs ps (rows_of os)) err"
proof -
  let ?build = "if hj_build_left j then left else right" and ?probe = "if hj_build_left j then right else left"
  let ?Q = "\<lambda>os _. \<exists>bs ps. PB bs \<and> PP ps \<and> join_of ev j bs ps (rows_of os)"
  let ?ok = "\<lambda>rs. \<forall>r \<in> set rs. r \<in> RB \<and> conforms ev sb r"
  have in_memory: "wp inv (batch_ok ev (hj_schema j)) (bindG (publish_filter ev j bs) (\<lambda>_.
      bindG (for_each ?probe (([], {}), []) (probe_batch ev op j bs t)) (finish_probe ev op j bs))) ?Q err"
    if bs: "PB bs" "?ok bs" and t: "table_of (rt_of ev) j bs t" for bs t
  proof -
    have keyed: "keyed (rt_of ev) (probe_keys j) RP" by (rule orderable_keyed [OF mergeable_orderable(2) [OF m]])
    have bn: "build_names j bs = set (build_columns j)" using bs(2) by (intro build_names_columns [OF names]) auto
    let ?J = "\<lambda>seen st as. probed ev j bs (rows_of seen) (fst st) as \<and> (snd st = [] \<or> set (snd st) = set (probe_columns j))"
    have "wp inv (batch_ok ev (hj_schema j)) (for_each ?probe (([], {}), []) (probe_batch ev op j bs t))
        (\<lambda>as st. wp inv (batch_ok ev (hj_schema j)) (finish_probe ev op j bs st) (\<lambda>os. ?Q (as @ os)) err) err"
    proof (rule wp_for_each [OF probe, where J = ?J])
      fix seen st as b
      assume J: "?J seen st as" and b: "batch_ok ev sp b \<and> set (bt_rows b) \<subseteq> RP"
      then have "keyed (rt_of ev) (probe_keys j) (set (bt_rows b))" using keyed by (auto simp: keyed_def)
      then have "wp inv (batch_ok ev (hj_schema j)) (probe_batch ev op j bs t st b)
        (\<lambda>os st'. snd st' = field_names (bt_schema b) \<and> probed ev j bs (rows_of seen @ bt_rows b) (fst st') (as @ os)) err"
        using J by (intro wp_probe_batch [OF t _ conv bn]) auto
      then show "wp inv (batch_ok ev (hj_schema j)) (probe_batch ev op j bs t st b) (\<lambda>os st'. ?J (seen @ [b]) st' (as @ os)) err"
        by (rule wp_mono) (use b names in \<open>auto simp: batch_ok_def named_def\<close>)
    next
      fix seen st as
      assume "?J seen st as" and "PP (rows_of seen)"
      then show "wp inv (batch_ok ev (hj_schema j)) (finish_probe ev op j bs st) (\<lambda>os. ?Q (as @ os)) err"
        using bs(1) by (intro wp_finish_probe [OF conv, where bs = bs and ps = "rows_of seen" and as = as]) (auto simp: join_of_def)
    qed (simp add: probed_Nil)
    moreover have "set bs \<subseteq> RB" using bs(2) by auto
    ultimately show ?thesis
      unfolding wp_bind [of _ _ "publish_filter _ _ _"]
      by (intro wp_publish_filter) (use filters in \<open>simp_all\<close>)
  qed
  let ?after = "\<lambda>r. case r of Inr _ \<Rightarrow> Ret ()
      | Inl (bs, t) \<Rightarrow> bindG (publish_filter ev j bs) (\<lambda>_.
          bindG (for_each ?probe (([], {}), []) (probe_batch ev op j bs t)) (\<lambda>st. finish_probe ev op j bs st))"
  have "wp inv (batch_ok ev (hj_schema j)) (for_loop ?build ([], []) (build_step ev op frame j ?probe))
      (\<lambda>os. (\<lambda>as r. wp inv (batch_ok ev (hj_schema j)) (?after r) (\<lambda>os. ?Q (as @ os)) err) ([] @ os)) err"
  proof (rule wp_for_loop [where pre = "[]" and T = "\<lambda>_. True" and P = "\<lambda>bs. PB (rows_of bs)"
        and J = "\<lambda>seen st as. as = [] \<and> built ev j (rows_of seen) st \<and> ?ok (rows_of seen)"])
    fix seen st b and as :: "batch list" and rest :: "unit batches"
    assume J: "as = [] \<and> built ev j (rows_of seen) st \<and> ?ok (rows_of seen)"
      and b: "batch_ok ev sb b \<and> set (bt_rows b) \<subseteq> RB"
      and rest: "wp inv (\<lambda>b. batch_ok ev sb b \<and> set (bt_rows b) \<subseteq> RB) rest (\<lambda>bs' _. PB (rows_of ((seen @ [b]) @ bs'))) err"
    have "\<forall>r \<in> set (bt_rows b). r \<in> RB \<and> conforms ev sb r" using b by (auto simp: batch_ok_def list_all_iff)
    then have ok: "?ok (rows_of (seen @ [b]))" using J by auto
    show "wp inv (batch_ok ev (hj_schema j)) (build_step ev op frame j ?probe st b rest)
        (\<lambda>os r. case r of Inl v' \<Rightarrow> (as @ os = [] \<and> built ev j (rows_of (seen @ [b])) v' \<and> ?ok (rows_of (seen @ [b])))
           | Inr x \<Rightarrow> wp inv (batch_ok ev (hj_schema j)) (?after (Inr x)) (\<lambda>os'. ?Q ((as @ os) @ os')) err) err"
      by (rule wp_build_step [OF m hash conv probe, where seen = "rows_of seen" and sb = sb and PB = PB])
        (use J b rest ok in auto)
  next
    fix seen st and as :: "batch list"
    assume J: "as = [] \<and> built ev j (rows_of seen) st \<and> ?ok (rows_of seen)" and "PB (rows_of seen)"
    then show "wp inv (batch_ok ev (hj_schema j)) (?after (Inl st)) (\<lambda>os. ?Q (as @ os)) err"
      using in_memory [of "rows_of seen" "snd st"] by (cases st) (auto simp: built_def)
  qed (use build in \<open>auto simp: built_def table_of_Nil\<close>)
  then show ?thesis
    unfolding hash_join_op_def Let_def by (intro wp_finish_frame) (simp only: wp_bind append_Nil)
qed

end

lemma deliversI2:
  assumes "\<And>inv err. execution_context inv err \<Longrightarrow> (\<And>e. E e \<Longrightarrow> err e) \<Longrightarrow>
      wp inv B g (\<lambda>bs _. P (rows_of bs)) err \<Longrightarrow> wp inv B2 g2 (\<lambda>bs _. P2 (rows_of bs)) err \<Longrightarrow>
      wp inv B' h (\<lambda>bs _. P' (rows_of bs)) err"
    and "delivers B P E g" and "delivers B2 P2 E g2"
  shows "delivers B' P' E h"
  using assms(1) [OF quiet.execution_context_axioms, of E]
    assms(1) [OF any.execution_context_axioms, of E] assms(2,3)
  by (simp add: delivers_def)

text \<open>
  C1. A hash join delivers the nested-loop join of its two inputs, as a multiset, with the unmatched
  rows of the preserved sides extended by NULL: whether the build side fits in memory, is partitioned
  with the probe side into spill files, or a partition is sorted and merged.  It raises what its inputs,
  the output conversion or the building of its runtime filter raise, and otherwise only what the context
  does.
\<close>

theorem hash_join_is_nested_loop:
  assumes "mergeable (rt_of ev) j RB RP" and "hash_respects_eq ev" and "named j RB sp"
    and "conversion_ok ev (hj_schema j)" and "\<And>r e. ev_conform ev (hj_schema j) r = Inl e \<Longrightarrow> E e"
    and "\<And>bs e. hj_channel j \<noteq> None \<Longrightarrow> set bs \<subseteq> RB \<Longrightarrow> build_filter ev j bs = Inl e \<Longrightarrow> E e"
    and "delivers (\<lambda>b. batch_ok ev sb b \<and> set (bt_rows b) \<subseteq> RB) PB E (if hj_build_left j then left else right)"
    and "delivers (\<lambda>b. batch_ok ev sp b \<and> set (bt_rows b) \<subseteq> RP) PP E (if hj_build_left j then right else left)"
  shows "delivers (batch_ok ev (hj_schema j)) (\<lambda>res. \<exists>bs ps outs. PB bs \<and> PP ps
      \<and> mset outs = mset (nested_loop_join (rt_of ev) j bs ps) \<and> conformed ev (hj_schema j) outs res) E
    (hash_join_op ev op frame j left right)"
proof (rule deliversI2 [OF _ assms(7,8)])
  fix inv :: "ctx \<Rightarrow> bool" and err :: "exn \<Rightarrow> bool"
  assume ctx: "execution_context inv err" and E: "\<And>e. E e \<Longrightarrow> err e"
    and inputs: "wp inv (\<lambda>b. batch_ok ev sb b \<and> set (bt_rows b) \<subseteq> RB) (if hj_build_left j then left else right)
        (\<lambda>bs _. PB (rows_of bs)) err"
      "wp inv (\<lambda>b. batch_ok ev sp b \<and> set (bt_rows b) \<subseteq> RP) (if hj_build_left j then right else left)
        (\<lambda>bs _. PP (rows_of bs)) err"
  have "wp inv (batch_ok ev (hj_schema j)) (hash_join_op ev op frame j left right)
      (\<lambda>os _. \<exists>bs ps. PB bs \<and> PP ps \<and> join_of ev j bs ps (rows_of os)) err"
    by (rule execution_context.wp_hash_join_op [OF ctx assms(1-4) _ _ inputs]) (use assms(5,6) E in blast)+
  then show "wp inv (batch_ok ev (hj_schema j)) (hash_join_op ev op frame j left right)
      (\<lambda>os _. \<exists>bs ps outs. PB bs \<and> PP ps
        \<and> mset outs = mset (nested_loop_join (rt_of ev) j bs ps) \<and> conformed ev (hj_schema j) outs (rows_of os)) err"
    by (rule wp_mono) (auto simp: join_of_def)
qed

text \<open>A left join of three rows with themselves on \<open>g\<close>, with other column names.\<close>

definition sample_join :: hash_join where
  "sample_join = \<lparr>hj_left_keys = [Column ''g'' [] int_type], hj_right_keys = [Column ''h'' [] int_type],
     hj_type = ''left'', hj_schema = \<lparr>sc_fields = [], sc_metadata = []\<rparr>,
     hj_left_columns = [''g''], hj_right_columns = [''h''], hj_build_left = False, hj_channel = None\<rparr>"

definition sample_probe :: batch where
  "sample_probe = \<lparr>bt_schema = \<lparr>sc_fields = [plain_field ''g'' T_INT64 True], sc_metadata = []\<rparr>,
     bt_rows = [[''g'' \<mapsto> VInt 1], [''g'' \<mapsto> VNull]]\<rparr>"

definition sample_build :: batch where
  "sample_build = \<lparr>bt_schema = \<lparr>sc_fields = [plain_field ''h'' T_INT64 True], sc_metadata = []\<rparr>,
     bt_rows = [[''h'' \<mapsto> VInt 1], [''h'' \<mapsto> VInt 1]]\<rparr>"

abbreviation sample_env :: "env \<Rightarrow> env" where
  "sample_env ev \<equiv> ev\<lparr>ev_conform := \<lambda>_ r. Inr r, ev_hash := \<lambda>_. 0\<rparr>"

lemmas sample_join_defs = sample_join_def sample_probe_def sample_build_def

lemma sample_join_ok:
  "mergeable rt sample_join (set (bt_rows sample_build)) (set (bt_rows sample_probe))"
  "named sample_join (set (bt_rows sample_build)) (bt_schema sample_probe)"
  by (simp_all add: mergeable_def named_def sample_join_defs build_keys_def probe_keys_def build_columns_def
      probe_columns_def orderable_def asc_item_def one_kind_def order_value_def is_nan_def qualified_name_def
      field_names_def plain_field_def)

theorem hash_join_is_nested_loop_witness:
  "\<forall>ev. delivers (batch_ok (sample_env ev) (hj_schema sample_join)) (\<lambda>res. \<exists>bs ps outs.
      bs = bt_rows sample_build \<and> ps = bt_rows sample_probe
      \<and> mset outs = mset (nested_loop_join (rt_of (sample_env ev)) sample_join bs ps)
      \<and> conformed (sample_env ev) (hj_schema sample_join) outs res) (\<lambda>_. False)
    (hash_join_op (sample_env ev) ''join'' ''join'' sample_join (from_list [sample_probe]) (from_list [sample_build]))"
proof
  fix ev
  have side: "\<not> hj_build_left sample_join" by (simp add: sample_join_def)
  show "delivers (batch_ok (sample_env ev) (hj_schema sample_join)) (\<lambda>res. \<exists>bs ps outs.
      bs = bt_rows sample_build \<and> ps = bt_rows sample_probe
      \<and> mset outs = mset (nested_loop_join (rt_of (sample_env ev)) sample_join bs ps)
      \<and> conformed (sample_env ev) (hj_schema sample_join) outs res) (\<lambda>_. False)
    (hash_join_op (sample_env ev) ''join'' ''join'' sample_join (from_list [sample_probe]) (from_list [sample_build]))"
  proof (rule hash_join_is_nested_loop [OF sample_join_ok(1) _ sample_join_ok(2)])
    show "delivers (\<lambda>b. batch_ok (sample_env ev) (bt_schema sample_build) b \<and> set (bt_rows b) \<subseteq> set (bt_rows sample_build))
        (\<lambda>rs. rs = bt_rows sample_build) (\<lambda>_. False)
        (if hj_build_left sample_join then from_list [sample_probe] else from_list [sample_build])"
      unfolding if_not_P [OF side] delivers_from_list by (simp add: batch_ok_def conforms_def list_all_iff)
    show "delivers (\<lambda>b. batch_ok (sample_env ev) (bt_schema sample_probe) b \<and> set (bt_rows b) \<subseteq> set (bt_rows sample_probe))
        (\<lambda>rs. rs = bt_rows sample_probe) (\<lambda>_. False)
        (if hj_build_left sample_join then from_list [sample_build] else from_list [sample_probe])"
      unfolding if_not_P [OF side] delivers_from_list by (simp add: batch_ok_def conforms_def list_all_iff)
  qed (simp_all add: hash_respects_eq_def conversion_ok_def conforms_def sample_join_def)
qed

end
