(* ===== verification/JoinFilter.thy ===== *)
theory JoinFilter
  imports HashJoin RuntimeFilter
begin

text \<open>
  The runtime filter of a join, composed with the join: a filter built from the keys of the build
  side may drop rows of the probe side before the join, where \<open>runtime_filter_is_safe\<close> allows
  it, without changing the result.
\<close>

section \<open>The filter of the build side\<close>

definition build_key_list :: "env \<Rightarrow> hash_join \<Rightarrow> row list \<Rightarrow> group_key list" where
  "build_key_list ev j bs = concat (map (\<lambda>b. case key_of (rt_of ev) (build_keys j) b of
     None \<Rightarrow> [] | Some k \<Rightarrow> [k]) bs)"

lemma build_filter_keys:
  assumes "keyed (rt_of ev) (build_keys j) (set bs)"
  shows "build_filter ev j bs = bindR (create_filter ev (length (build_keys j)) (max (int (length bs)) 1))
    (\<lambda>f. foldR (filter_add ev) f (build_key_list ev j bs))"
proof -
  have "foldR (\<lambda>f row. bindR (join_key (rt_of ev) (build_keys j) row) (\<lambda>k. case k of
       None \<Rightarrow> Inr f | Some vs \<Rightarrow> filter_add ev f vs)) f bs = foldR (filter_add ev) f (build_key_list ev j bs)" for f
    using assms
  proof (induction bs arbitrary: f)
    case (Cons b bs)
    have "join_key (rt_of ev) (build_keys j) b = Inr (key_of (rt_of ev) (build_keys j) b)"
      using keyed_key [OF Cons.prems] by simp
    moreover have "keyed (rt_of ev) (build_keys j) (set bs)" using Cons.prems by (simp add: keyed_def)
    ultimately show ?case
      using Cons.IH by (auto simp: build_key_list_def split: option.split)
  qed (simp add: build_key_list_def)
  then show ?thesis by (simp add: build_filter_def)
qed

text \<open>The keys of rows whose keys can be ordered are accepted by the filter.\<close>

lemma build_key_list_in: "k \<in> set (build_key_list ev j bs) \<longleftrightarrow> (\<exists>b \<in> set bs. key_of (rt_of ev) (build_keys j) b = Some k)"
  by (force simp: build_key_list_def split: option.splits)

lemma ordered_keys_ok:
  assumes ord: "orderable (rt_of ev) (map asc_item (build_keys j)) RB" and "set bs \<subseteq> RB"
  shows "\<exists>ks. length ks = length (build_keys j) \<and> keys_ok ks (build_key_list ev j bs)"
proof (cases "build_key_list ev j bs")
  case Nil
  then show ?thesis by (intro exI [of _ "replicate (length (build_keys j)) 0"]) (simp add: keys_ok_def)
next
  case (Cons k0 rest)
  have key: "k = the_key (rt_of ev) (build_keys j) b \<and> plain_key k \<and> b \<in> RB"
    if "key_of (rt_of ev) (build_keys j) b = Some k" and "b \<in> set bs" for b k
    using key_of_plain [OF ord _ that(1)] that(2) assms(2) by blast
  obtain b0 where b0: "b0 \<in> set bs" "key_of (rt_of ev) (build_keys j) b0 = Some k0"
    using build_key_list_in [of k0 ev j bs] Cons by auto
  have kinds: "kind (k ! i) = kind (k0 ! i)" if k: "k \<in> set (build_key_list ev j bs)" and i: "i < length (build_keys j)" for k i
  proof -
    obtain b where b: "b \<in> set bs" "key_of (rt_of ev) (build_keys j) b = Some k" using k build_key_list_in by blast
    let ?v = "order_value (rt_of ev) (build_keys j ! i)"
    have eqs: "k ! i = ?v b" "k0 ! i = ?v b0"
      using key [OF b(2,1)] key [OF b0(2,1)] i by (simp_all add: the_key_def)
    have "plain_key k" "plain_key k0" using key [OF b(2,1)] key [OF b0(2,1)] by blast+
    moreover have "length k = length (build_keys j)" "length k0 = length (build_keys j)"
      using key [OF b(2,1)] key [OF b0(2,1)] by (simp_all add: the_key_def)
    ultimately have "k ! i \<noteq> VNull" "k0 ! i \<noteq> VNull" using i by (simp_all add: plain_key_def list_all_length)
    moreover have "one_kind (?v ` RB)"
      using ord i by (simp add: orderable_def asc_item_def)
    moreover have "b \<in> RB" "b0 \<in> RB" using key [OF b(2,1)] key [OF b0(2,1)] by simp_all
    ultimately show ?thesis unfolding eqs one_kind_def by blast
  qed
  have "list_all2 (\<lambda>kd v. kind v = kd \<and> vkey v \<noteq> None) (map kind k0) k" if k: "k \<in> set (build_key_list ev j bs)" for k
  proof -
    obtain b where b: "b \<in> set bs" "key_of (rt_of ev) (build_keys j) b = Some k" using k build_key_list_in by blast
    have len: "length k = length (build_keys j)" "length k0 = length (build_keys j)"
      using key [OF b(2,1)] key [OF b0(2,1)] by (simp_all add: the_key_def)
    then show ?thesis
      using kinds [OF k] key [OF b(2,1)] vkey_None
      by (auto simp: list_all2_conv_all_nth plain_key_def list_all_length)
  qed
  then have "keys_ok (map kind k0) (build_key_list ev j bs)" by (simp add: keys_ok_def)
  moreover have "length k0 = length (build_keys j)" using key [OF b0(2,1)] by (simp add: the_key_def)
  ultimately show ?thesis by (intro exI [of _ "map kind k0"]) simp
qed

section \<open>Filtering before the join\<close>

text \<open>The rendering of keys, which the Bloom filter hashes, does not tell equal keys apart.\<close>

definition bytes_respect_eq :: "env \<Rightarrow> hash_join \<Rightarrow> row set \<Rightarrow> row set \<Rightarrow> bool" where
  "bytes_respect_eq ev j RB RP \<longleftrightarrow> (\<forall>b \<in> RB. \<forall>p \<in> RP. \<forall>k k'.
     key_of (rt_of ev) (build_keys j) b = Some k \<longrightarrow> key_of (rt_of ev) (probe_keys j) p = Some k' \<longrightarrow>
     key_eq k k' \<longrightarrow> key_bytes ev k' = key_bytes ev k)"

lemma joining_row_survives:
  assumes m: "mergeable (rt_of ev) j RB RP" and "set bs \<subseteq> RB" and "b \<in> set bs" and "p \<in> RP"
    and bytes: "bytes_respect_eq ev j RB RP" and f: "build_filter ev j bs = Inr f"
    and j: "joins (rt_of ev) j b p"
  shows "row_survives ev [(probe_keys j, f)] p = Inr True"
proof -
  let ?rt = "rt_of ev"
  have ord: "orderable ?rt (map asc_item (build_keys j)) RB" "orderable ?rt (map asc_item (probe_keys j)) RP"
    using mergeable_orderable [OF m] by simp_all
  obtain k k' where k: "key_of ?rt (build_keys j) b = Some k" "key_of ?rt (probe_keys j) p = Some k'" "key_eq k k'"
    using j by (auto simp: joins_def split: option.splits)
  obtain ks where ks: "length ks = length (build_keys j)" "keys_ok ks (build_key_list ev j bs)"
    using ordered_keys_ok [OF ord(1) assms(2)] by blast
  have "keyed ?rt (build_keys j) (set bs)"
    using orderable_keyed [OF ord(1)] assms(2) by (auto simp: keyed_def)
  from f build_filter_keys [OF this] ks(1) obtain f0 where
    f0: "create_filter ev (length ks) (max (int (length bs)) 1) = Inr f0" "foldR (filter_add ev) f0 (build_key_list ev j bs) = Inr f"
    by (auto simp: bindR_eq_Inr)
  have "k \<in> set (build_key_list ev j bs)" using k(1) assms(3) build_key_list_in by blast
  moreover have "key_bytes ev k' = key_bytes ev k"
    using bytes k assms(2,3,4) unfolding bytes_respect_eq_def by blast
  ultimately have "filter_might_contain ev f k' = Inr True"
    using filter_accepts [OF f0(1) ks(2)] k(3) f0(2) unfolding key_eq_def by fastforce
  moreover have "mapR (evaluate ?rt p) (probe_keys j) = Inr k'"
    using row_key_the_key [OF ord(2) assms(4)] key_of_plain [OF ord(2) assms(4) k(2)] by (simp add: row_key_def)
  ultimately show ?thesis by simp
qed

lemma safe_not_preserved:
  assumes "hj_type j \<in> {''inner'', ''left'', ''right'', ''full''}"
  shows "runtime_filter_is_safe (hj_type j) (if hj_build_left j then ''left'' else ''right'') \<longleftrightarrow> \<not> probe_preserved j"
  using assms by (auto simp: runtime_filter_is_safe_def probe_preserved_def side_is_preserved_def)

text \<open>
  C20. Where a runtime filter is considered safe, dropping the probe rows that the filter of the build
  side rejects leaves the join unchanged, provided that equal keys of the two sides are rendered to the
  same bytes.
\<close>

theorem runtime_filter_keeps_join:
  assumes "mergeable (rt_of ev) j RB RP" and "set bs \<subseteq> RB" and "set ps \<subseteq> RP"
    and "bytes_respect_eq ev j RB RP" and "build_filter ev j bs = Inr f"
    and "hj_type j \<in> {''inner'', ''left'', ''right'', ''full''}"
    and "runtime_filter_is_safe (hj_type j) (if hj_build_left j then ''left'' else ''right'')"
  shows "nested_loop_join (rt_of ev) j bs (filter (\<lambda>p. row_survives ev [(probe_keys j, f)] p = Inr True) ps)
    = nested_loop_join (rt_of ev) j bs ps"
proof -
  let ?rt = "rt_of ev" and ?keep = "\<lambda>p. row_survives ev [(probe_keys j, f)] p = Inr True"
  have lone: "lone_probe j p = []" for p
    using assms(7) safe_not_preserved [OF assms(6)] by (simp add: lone_probe_def)
  have survives: "?keep p" if "b \<in> set bs" "p \<in> set ps" "joins ?rt j b p" for b p
    using joining_row_survives [OF assms(1,2) that(1) _ assms(4,5) that(3)] assms(3) that(2) by blast
  have dropped: "probe_output ?rt j bs p = []" if "p \<in> set ps" "\<not> ?keep p" for p
    using survives that lone by (auto simp: probe_output_def filter_empty_conv)
  have "concat (map (probe_output ?rt j bs) (filter ?keep qs)) = concat (map (probe_output ?rt j bs) qs)"
    if "set qs \<subseteq> set ps" for qs
    using that by (induction qs) (auto simp: dropped)
  from this [OF order_refl] have "concat (map (probe_output ?rt j bs) (filter ?keep ps)) = concat (map (probe_output ?rt j bs) ps)" .
  moreover have "build_output ?rt j bs (filter ?keep ps) = build_output ?rt j bs ps"
    unfolding build_output_def
    by (intro arg_cong [where f = "\<lambda>xs. concat (map (lone_build j) xs)"] filter_cong) (use survives in auto)
  ultimately show ?thesis by (simp add: nested_loop_join_def)
qed

definition inner_sample :: hash_join where
  "inner_sample = sample_join\<lparr>hj_type := ''inner''\<rparr>"

theorem runtime_filter_keeps_join_witness:
  "\<forall>ev. \<exists>f. build_filter ev inner_sample (bt_rows sample_build) = Inr f
    \<and> nested_loop_join (rt_of ev) inner_sample (bt_rows sample_build)
        (filter (\<lambda>p. row_survives ev [(probe_keys inner_sample, f)] p = Inr True) (bt_rows sample_probe))
    = nested_loop_join (rt_of ev) inner_sample (bt_rows sample_build) (bt_rows sample_probe)"
proof
  fix ev :: env
  let ?bs = "bt_rows sample_build" and ?ps = "bt_rows sample_probe"
  have m: "mergeable (rt_of ev) inner_sample (set ?bs) (set ?ps)"
    using sample_join_ok(1) [of "rt_of ev"] by (simp add: inner_sample_def sample_join_def mergeable_def build_keys_def probe_keys_def)
  have keyed: "keyed (rt_of ev) (build_keys inner_sample) (set ?bs)"
    by (rule orderable_keyed [OF mergeable_orderable(1) [OF m]])
  have keys: "build_key_list ev inner_sample ?bs = [[VInt 1], [VInt 1]]"
    by (simp add: build_key_list_def inner_sample_def sample_join_defs build_keys_def key_of_def join_key_def qualified_name_def)
  obtain f0 where f0: "create_filter ev 1 2 = Inr f0"
    by (cases "create_filter ev 1 2") (auto simp: create_filter_def create_bloom_def Let_def)
  have "keys_ok [1] [[VInt 1], [VInt 1]]" by (simp add: keys_ok_def)
  with filter_accepts [of ev "[1]" 2 f0 "[[VInt 1], [VInt 1]]" "[VInt 1]" "[VInt 1]"] f0
  obtain f where f: "foldR (filter_add ev) f0 [[VInt 1], [VInt 1]] = Inr f"
    by (auto simp: is_nan_def)
  have bf: "build_filter ev inner_sample ?bs = Inr f"
    unfolding build_filter_keys [OF keyed] keys
    using f0 f by (simp add: inner_sample_def sample_join_defs build_keys_def)
  have "bytes_respect_eq ev inner_sample (set ?bs) (set ?ps)"
    by (simp add: bytes_respect_eq_def inner_sample_def sample_join_defs build_keys_def probe_keys_def key_of_def
        join_key_def qualified_name_def)
  from runtime_filter_keeps_join [OF m order_refl order_refl this bf] bf
  show "\<exists>f. build_filter ev inner_sample ?bs = Inr f
    \<and> nested_loop_join (rt_of ev) inner_sample ?bs (filter (\<lambda>p. row_survives ev [(probe_keys inner_sample, f)] p = Inr True) ?ps)
    = nested_loop_join (rt_of ev) inner_sample ?bs ?ps"
    by (simp add: inner_sample_def runtime_filter_is_safe_def)
qed

end
