(* ===== verification/Protocol.thy ===== *)
theory Protocol
  imports Logical
begin

text \<open>
  The envelopes of \<open>common/protocol.py\<close> that carry state between the Coordinator and the
  Workers: the life-cycle enumerations, the Worker record with its registration and heartbeat,
  partitions, statistics, stages, tasks and attempts.  A Pydantic model is a record; constructing one runs its field
  constraints and validators, so the constructor is a function into \<open>res\<close> that raises
  \<open>ValidationError\<close> (a \<open>ValueError\<close>).  Datetimes and timedeltas are integers (microseconds).
\<close>

section \<open>Life cycles\<close>

datatype query_state = QS_QUEUED | QS_PLANNING | QS_RUNNING | QS_SUCCEEDED | QS_FAILED | QS_CANCELED

datatype stage_state = SS_PENDING | SS_RUNNING | SS_SUCCEEDED | SS_FAILED | SS_CANCELED

datatype task_state = TS_PENDING | TS_RUNNING | TS_SUCCEEDED | TS_FAILED | TS_CANCELED

datatype attempt_state =
    AS_CREATED | AS_RUNNING | AS_SUCCEEDED | AS_FAILED | AS_CANCELED | AS_LOST

datatype worker_state = WS_REGISTERING | WS_ACTIVE | WS_DRAINING | WS_LOST

fun query_state_value :: "query_state \<Rightarrow> string" where
  "query_state_value QS_QUEUED = ''queued''"
| "query_state_value QS_PLANNING = ''planning''"
| "query_state_value QS_RUNNING = ''running''"
| "query_state_value QS_SUCCEEDED = ''succeeded''"
| "query_state_value QS_FAILED = ''failed''"
| "query_state_value QS_CANCELED = ''canceled''"

section \<open>Workers\<close>

record worker =
  w_id :: string
  w_endpoint :: string
  w_state :: worker_state
  w_slots :: int
  w_available_slots :: int
  w_memory_limit_bytes :: int
  w_lease_id :: "string option"
  w_lease_expires_at :: "int option"
  w_registered_at :: int
  w_last_heartbeat_at :: "int option"
  w_labels :: "(string, string) dict"

definition valid_worker :: "worker \<Rightarrow> bool" where
  "valid_worker w \<longleftrightarrow>
     1 \<le> w_slots w \<and> 0 \<le> w_available_slots w \<and> 0 < w_memory_limit_bytes w
     \<and> w_available_slots w \<le> w_slots w"

definition make_worker :: "worker \<Rightarrow> worker res" where
  "make_worker w = (if valid_worker w then Inr w else Inl PyValueError)"

record worker_registration =
  wr_id :: string
  wr_endpoint :: string
  wr_slots :: int
  wr_memory_limit_bytes :: int
  wr_labels :: "(string, string) dict"

definition make_registration :: "worker_registration \<Rightarrow> worker_registration res" where
  "make_registration r =
     (if 1 \<le> wr_slots r \<and> 0 < wr_memory_limit_bytes r then Inr r else Inl PyValueError)"

record worker_heartbeat =
  hb_lease_id :: string
  hb_available_slots :: int
  hb_state :: worker_state

text \<open>\<open>WorkerHeartbeat\<close> with its validator \<open>state_is_heartbeat_eligible\<close>.\<close>

definition valid_heartbeat :: "worker_heartbeat \<Rightarrow> bool" where
  "valid_heartbeat h \<longleftrightarrow>
     0 \<le> hb_available_slots h \<and> hb_state h \<in> {WS_ACTIVE, WS_DRAINING}"

definition make_heartbeat :: "worker_heartbeat \<Rightarrow> worker_heartbeat res" where
  "make_heartbeat h = (if valid_heartbeat h then Inr h else Inl PyValueError)"

section \<open>Partitions and statistics\<close>

record data_partition =
  p_id :: string
  p_ordinal :: int
  p_location :: string
  p_strategy :: partition_strategy
  p_keys :: "string list"
  p_size_bytes :: "int option"
  p_row_count :: "int option"
  p_checksum :: "string option"

definition non_negative :: "int option \<Rightarrow> bool" where
  "non_negative n = (case n of None \<Rightarrow> True | Some i \<Rightarrow> 0 \<le> i)"

definition make_partition :: "data_partition \<Rightarrow> data_partition res" where
  "make_partition p =
     (if 0 \<le> p_ordinal p \<and> non_negative (p_size_bytes p) \<and> non_negative (p_row_count p)
      then Inr p else Inl PyValueError)"

record column_statistics =
  cs_column_name :: string
  cs_null_count :: "int option"
  cs_distinct_count :: "int option"
  cs_min_value :: json
  cs_max_value :: json
  cs_average_size_bytes :: "pyfloat option"

record statistics =
  s_row_count :: "int option"
  s_size_bytes :: "int option"
  s_columns :: "(string, column_statistics) dict"
  s_source :: string

section \<open>Stages, tasks and attempts\<close>

record stage =
  st_id :: string
  st_query_id :: string
  st_state :: stage_state
  st_plan :: plan_node
  st_dependencies :: "string list"
  st_partition_count :: int

definition make_stage :: "stage \<Rightarrow> stage res" where
  "make_stage s = (if 1 \<le> st_partition_count s then Inr s else Inl PyValueError)"

record task =
  t_id :: string
  t_query_id :: string
  t_stage_id :: string
  t_partition :: data_partition
  t_state :: task_state
  t_attempt_ids :: "string list"

text \<open>
  The errors stored in an attempt are the two shapes the scheduler writes: the type and message
  of a local exception, or a redacted \<open>ErrorDetail\<close>.
\<close>

datatype attempt_error = LocalError string string | TaskError error_detail

record attempt =
  a_id :: string
  a_task_id :: string
  a_number :: nat
  a_worker_id :: "string option"
  a_state :: attempt_state
  a_started_at :: "int option"
  a_finished_at :: "int option"
  a_error :: "attempt_error option"

end
