(* ===== verification/CatalogModels.thy ===== *)
theory CatalogModels
  imports Protocol
begin

text \<open>
  The Catalog contracts the planner reads (\<open>catalog/models.py\<close>): a table with its schema,
  partitioning, partitions and statistics, and the validator of a table definition.  Creation
  times and free-form properties are left out: no modelled code reads them.
\<close>

datatype table_format = F_CSV | F_PARQUET | F_AVRO | F_ORC | F_ICEBERG

record catalog_table =
  ct_namespace :: string
  ct_name :: string
  ct_schema :: schema
  ct_format :: table_format
  ct_location :: string
  ct_partition_strategy :: partition_strategy
  ct_partition_keys :: "string list"
  ct_partitions :: "data_partition list"
  ct_statistics :: "statistics option"

record table_create =
  tc_name :: string
  tc_schema :: schema
  tc_format :: table_format
  tc_location :: string
  tc_partition_strategy :: partition_strategy
  tc_partition_keys :: "string list"

text \<open>The pattern of names and the validator \<open>partition_keys_exist\<close>.\<close>

definition name_char :: "char \<Rightarrow> bool" where
  "name_char c \<longleftrightarrow>
     (let n = of_char c :: nat in
      65 \<le> n \<and> n \<le> 90 \<or> 97 \<le> n \<and> n \<le> 122 \<or> c = CHR ''_'' \<or> 48 \<le> n \<and> n \<le> 57)"

definition is_digit :: "char \<Rightarrow> bool" where
  "is_digit c \<longleftrightarrow> (let n = of_char c :: nat in 48 \<le> n \<and> n \<le> 57)"

definition valid_name :: "string \<Rightarrow> bool" where
  "valid_name s \<longleftrightarrow>
     1 \<le> length s \<and> length s \<le> 255 \<and> \<not> is_digit (hd s) \<and> list_all name_char s"

definition make_table_create :: "table_create \<Rightarrow> table_create res" where
  "make_table_create t =
     (if \<not> valid_name (tc_name t) then Inl PyValueError
      else if tc_location t = [] then Inl PyValueError
      else if set (tc_partition_keys t) - set (map sf_name (sc_fields (tc_schema t))) \<noteq> {}
      then Inl PyValueError
      else Inr t)"

end
