(* ===== verification/Cost.thy ===== *)
theory Cost
  imports CatalogModels ExprUtils
begin

text \<open>
  Cardinality, distribution and cost estimation (\<open>optimizer/cost.py\<close>): the estimate of every
  logical operator from catalog metadata, the keys of a join, and the choice of its physical
  strategy.  Binary64 arithmetic is a parameter, as in the expression evaluator: \<open>+\<close>, \<open>-\<close>,
  \<open>*\<close>, \<open>/\<close> are \<open>rt_float_op\<close>, a decimal literal is the rounding of its value, and three
  functions of the standard library, \<open>math.log2\<close>, the compensated \<open>sum\<close> of floats and the
  format \<open>.2f\<close>, are fields of \<open>cost_runtime\<close>.
\<close>

section \<open>Floats\<close>

record cost_runtime = py_runtime +
  cr_log2 :: "pyfloat \<Rightarrow> pyfloat"
  cr_sum :: "pyfloat list \<Rightarrow> pyfloat"
  cr_fixed2 :: "pyfloat \<Rightarrow> string"  \<comment> \<open>\<open>format(x, '.2f')\<close>\<close>

definition fnum :: "pyfloat \<Rightarrow> num" where
  "fnum f = (case num_of (VFloat f) of Some n \<Rightarrow> n | None \<Rightarrow> NNaN)"

definition flt :: "pyfloat \<Rightarrow> pyfloat \<Rightarrow> bool" where
  "flt a b = num_lt (fnum a) (fnum b)"

definition feq :: "pyfloat \<Rightarrow> pyfloat \<Rightarrow> bool" where
  "feq a b = num_eq (fnum a) (fnum b)"

definition fle :: "pyfloat \<Rightarrow> pyfloat \<Rightarrow> bool" where
  "fle a b \<longleftrightarrow> flt a b \<or> feq a b"

text \<open>\<open>max(a, b)\<close> and \<open>min(a, b)\<close> keep the first argument unless the second is beyond it.\<close>

definition fmax :: "pyfloat \<Rightarrow> pyfloat \<Rightarrow> pyfloat" where
  "fmax a b = (if flt a b then b else a)"

definition fmin :: "pyfloat \<Rightarrow> pyfloat \<Rightarrow> pyfloat" where
  "fmin a b = (if flt b a then b else a)"

definition fadd :: "'x py_runtime_scheme \<Rightarrow> pyfloat \<Rightarrow> pyfloat \<Rightarrow> pyfloat" where
  "fadd rt a b = rt_float_op rt ADD a b"

definition fsub :: "'x py_runtime_scheme \<Rightarrow> pyfloat \<Rightarrow> pyfloat \<Rightarrow> pyfloat" where
  "fsub rt a b = rt_float_op rt SUBTRACT a b"

definition fmul :: "'x py_runtime_scheme \<Rightarrow> pyfloat \<Rightarrow> pyfloat \<Rightarrow> pyfloat" where
  "fmul rt a b = rt_float_op rt MULTIPLY a b"

definition is_zero :: "pyfloat \<Rightarrow> bool" where
  "is_zero f \<longleftrightarrow> f = Fin 0 \<or> f = NegZero"

definition fdiv :: "'x py_runtime_scheme \<Rightarrow> pyfloat \<Rightarrow> pyfloat \<Rightarrow> pyfloat res" where
  "fdiv rt a b = (if is_zero b then Inl PyZeroDivisionError else Inr (rt_float_op rt DIVIDE a b))"

definition dec :: "'x py_runtime_scheme \<Rightarrow> rat \<Rightarrow> pyfloat" where
  "dec rt r = rt_float_of_rat rt r"

definition float_of_int :: "'x py_runtime_scheme \<Rightarrow> int \<Rightarrow> pyfloat res" where
  "float_of_int rt i = (case rt_float_of_rat rt (of_int i) of
      PosInf \<Rightarrow> Inl PyOverflowError | NegInf \<Rightarrow> Inl PyOverflowError | f \<Rightarrow> Inr f)"

definition fsum :: "'x cost_runtime_scheme \<Rightarrow> pyfloat list \<Rightarrow> pyfloat" where
  "fsum rt fs = (if fs = [] then Fin 0 else cr_sum rt fs)"

definition DEFAULT_ROW_COUNT :: pyfloat where
  "DEFAULT_ROW_COUNT = Fin 1000000"

definition DEFAULT_NDV :: pyfloat where
  "DEFAULT_NDV = Fin 100000"

definition DEFAULT_NULL_FRACTION :: "'x py_runtime_scheme \<Rightarrow> pyfloat" where
  "DEFAULT_NULL_FRACTION rt = dec rt (1 / 10)"

section \<open>Records\<close>

datatype join_strategy =
    J_REUSE | J_BROADCAST | J_REPARTITION_LEFT | J_REPARTITION_RIGHT | J_REPARTITION_BOTH

fun join_strategy_value :: "join_strategy \<Rightarrow> string" where
  "join_strategy_value J_REUSE = ''reuse''"
| "join_strategy_value J_BROADCAST = ''broadcast''"
| "join_strategy_value J_REPARTITION_LEFT = ''repartition_left''"
| "join_strategy_value J_REPARTITION_RIGHT = ''repartition_right''"
| "join_strategy_value J_REPARTITION_BOTH = ''repartition_both''"

record distribution =
  d_strategy :: partition_strategy
  d_keys :: "string list"
  d_partition_count :: int

definition no_distribution :: distribution where
  "no_distribution = \<lparr>d_strategy = P_UNKNOWN, d_keys = [], d_partition_count = 1\<rparr>"

record column_estimate =
  ce_null_fraction :: pyfloat
  ce_distinct_count :: pyfloat
  ce_min_value :: json
  ce_max_value :: json
  ce_average_size_bytes :: pyfloat
  ce_sources :: "string set"

record cost =
  c_cpu :: pyfloat
  c_network :: pyfloat
  c_memory :: pyfloat
  c_disk :: pyfloat

definition no_cost :: cost where
  "no_cost = \<lparr>c_cpu = Fin 0, c_network = Fin 0, c_memory = Fin 0, c_disk = Fin 0\<rparr>"

definition add_cost :: "'x py_runtime_scheme \<Rightarrow> cost \<Rightarrow> cost \<Rightarrow> cost" where
  "add_cost rt a b =
     \<lparr>c_cpu = fadd rt (c_cpu a) (c_cpu b), c_network = fadd rt (c_network a) (c_network b),
      c_memory = fadd rt (c_memory a) (c_memory b), c_disk = fadd rt (c_disk a) (c_disk b)\<rparr>"

definition total_cost :: "'x py_runtime_scheme \<Rightarrow> cost \<Rightarrow> pyfloat" where
  "total_cost rt c =
     fadd rt (fadd rt (fadd rt (c_cpu c) (fmul rt (c_network c) (Fin 4)))
       (fmul rt (c_memory c) (dec rt (1 / 20)))) (fmul rt (c_disk c) (Fin 8))"

record plan_estimate =
  e_row_count :: pyfloat
  e_size_bytes :: pyfloat
  e_columns :: "(string, column_estimate) dict"
  e_cost :: cost
  e_sources :: "string set"
  e_distribution :: distribution

record join_decision =
  jd_node_id :: string
  jd_build_side :: string
  jd_strategy :: join_strategy
  jd_left_keys :: "string list"
  jd_right_keys :: "string list"
  jd_estimated_rows :: pyfloat
  jd_estimated_bytes :: pyfloat
  jd_cost :: cost
  jd_reason :: string

record cost_model =
  cm_catalog :: "(string, catalog_table) dict"
  cm_worker_count :: int
  cm_memory_budget_bytes :: pyfloat
  cm_broadcast_threshold_bytes :: pyfloat

definition casefold_keys :: "(string, 'v) dict \<Rightarrow> (string, 'v) dict" where
  "casefold_keys d = fold (\<lambda>(k, v) acc. dict_set acc (casefold k) v) d []"

definition make_cost_model ::
    "'x py_runtime_scheme \<Rightarrow> (string, catalog_table) dict \<Rightarrow> int \<Rightarrow> int \<Rightarrow> int \<Rightarrow> cost_model res" where
  "make_cost_model rt catalog worker_count memory_budget threshold =
     (if worker_count < 1 then Inl PyValueError
      else if memory_budget < 1 then Inl PyValueError
      else bindR (float_of_int rt memory_budget) (\<lambda>mb.
           bindR (float_of_int rt threshold) (\<lambda>th.
             Inr \<lparr>cm_catalog = casefold_keys catalog, cm_worker_count = worker_count,
                  cm_memory_budget_bytes = mb, cm_broadcast_threshold_bytes = th\<rparr>)))"

section \<open>Columns and widths\<close>

fun type_width :: "data_type \<Rightarrow> pyfloat" where
  "type_width T_BOOLEAN = Fin 1"
| "type_width T_INT32 = Fin 4"
| "type_width T_FLOAT32 = Fin 4"
| "type_width T_DATE = Fin 4"
| "type_width T_INT64 = Fin 8"
| "type_width T_FLOAT64 = Fin 8"
| "type_width T_DECIMAL = Fin 8"
| "type_width T_TIMESTAMP = Fin 8"
| "type_width T_BINARY = Fin 32"
| "type_width T_LIST = Fin 64"
| "type_width T_STRUCT = Fin 64"
| "type_width _ = Fin 24"

definition row_width :: "'x cost_runtime_scheme \<Rightarrow> schema \<Rightarrow> pyfloat" where
  "row_width rt s = fmax (fsum rt (map (type_width \<circ> sf_type) (sc_fields s))) (Fin 1)"

definition column_estimate_of :: "expr \<Rightarrow> plan_estimate \<Rightarrow> column_estimate option" where
  "column_estimate_of e est =
     (if \<not> is_column e then None
      else case dict_get (e_columns est)
                  (casefold (qualified_name (column_name e) (column_source e))) of
             Some c \<Rightarrow> Some c
           | None \<Rightarrow> dict_get (e_columns est) (casefold (column_name e)))"

definition starts_with :: "string \<Rightarrow> string \<Rightarrow> bool" where
  "starts_with p s \<longleftrightarrow> take (length p) s = p"

definition ends_with :: "string \<Rightarrow> string \<Rightarrow> bool" where
  "ends_with p s \<longleftrightarrow> starts_with (rev p) (rev s)"

definition uses_default_ndv :: "column_estimate \<Rightarrow> bool" where
  "uses_default_ndv c \<longleftrightarrow>
     (\<exists>s \<in> ce_sources c. ends_with ''.ndv'' s \<and> starts_with ''default:'' s)"

fun strip_cast :: "expr \<Rightarrow> expr" where
  "strip_cast (Cast e t i) = e"
| "strip_cast e = e"

fun reversed_operator :: "binary_operator \<Rightarrow> binary_operator" where
  "reversed_operator LESS_THAN = GREATER_THAN"
| "reversed_operator LESS_THAN_OR_EQUAL = GREATER_THAN_OR_EQUAL"
| "reversed_operator GREATER_THAN = LESS_THAN"
| "reversed_operator GREATER_THAN_OR_EQUAL = LESS_THAN_OR_EQUAL"
| "reversed_operator op = op"

fun literal_value :: "expr \<Rightarrow> sql_value" where
  "literal_value (Literal v ti) = v"
| "literal_value _ = VNull"

definition column_literal ::
    "binary_operator \<Rightarrow> expr \<Rightarrow> expr \<Rightarrow> (expr \<times> sql_value \<times> binary_operator) option" where
  "column_literal op l r =
     (let left = strip_cast l; right = strip_cast r in
      if is_column left \<and> is_literal right then Some (left, literal_value right, op)
      else if is_column right \<and> is_literal left
      then Some (right, literal_value left, reversed_operator op)
      else None)"

fun json_number :: "json \<Rightarrow> sql_value option" where
  "json_number (JBool b) = Some (VBool b)"
| "json_number (JInt i) = Some (VInt i)"
| "json_number (JFloat f) = Some (VFloat f)"
| "json_number _ = None"

fun sql_number :: "sql_value \<Rightarrow> sql_value option" where
  "sql_number (VBool b) = Some (VBool b)"
| "sql_number (VInt i) = Some (VInt i)"
| "sql_number (VFloat f) = Some (VFloat f)"
| "sql_number _ = None"

text \<open>The quotient of floats or of a float by an integer is a float.\<close>

definition as_float :: "'x py_runtime_scheme \<Rightarrow> sql_value \<Rightarrow> pyfloat res" where
  "as_float rt v = py_float (py_runtime.truncate rt) v"

definition range_selectivity ::
    "'x py_runtime_scheme \<Rightarrow> binary_operator \<Rightarrow> sql_value \<Rightarrow> column_estimate \<Rightarrow> pyfloat option res" where
  "range_selectivity rt op value column =
     (if op \<notin> {LESS_THAN, LESS_THAN_OR_EQUAL, GREATER_THAN, GREATER_THAN_OR_EQUAL} then Inr None
      else case (json_number (ce_min_value column), json_number (ce_max_value column)) of
          (Some lo, Some hi) \<Rightarrow>
            (case sql_number value of
               None \<Rightarrow> Inr None
             | Some v \<Rightarrow>
                 bindR (py_le hi lo) (\<lambda>flat.
                 if flat then Inr None
                 else
                   bindR (as_float rt v) (\<lambda>x.
                   bindR (numeric_operation (py_runtime.truncate rt) (VFloat x) lo SUBTRACT) (\<lambda>above.
                   bindR (numeric_operation (py_runtime.truncate rt) hi lo SUBTRACT) (\<lambda>span.
                   bindR (numeric_operation (py_runtime.truncate rt) above span DIVIDE) (\<lambda>q.
                   bindR (as_float rt q) (\<lambda>f.
                     let fraction = fmin (fmax f (Fin 0)) (Fin 1) in
                     if op \<in> {GREATER_THAN, GREATER_THAN_OR_EQUAL}
                     then Inr (Some (fsub rt (Fin 1) fraction))
                     else Inr (Some fraction))))))))
        | _ \<Rightarrow> Inr None)"

section \<open>Selectivity\<close>

text \<open>
  The comparison branch of \<open>_selectivity\<close>: a column against a literal, then an equality of two
  columns; \<open>None\<close> where the code falls through to the default.
\<close>

definition literal_selectivity ::
    "'x py_runtime_scheme \<Rightarrow> binary_operator \<Rightarrow> sql_value \<Rightarrow> column_estimate \<Rightarrow> (pyfloat \<times> string) res" where
  "literal_selectivity rt op value column =
     (let non_null = fsub rt (Fin 1) (ce_null_fraction column);
          ndv = fmax (ce_distinct_count column) (Fin 1)
      in if op = EQUAL then
           (if uses_default_ndv column
            then Inr (fmul rt non_null (dec rt (1 / 10)), ''default:equality_selectivity=0.1'')
            else bindR (fdiv rt non_null ndv) (\<lambda>q. Inr (q, ''column_ndv'')))
         else if op = NOT_EQUAL then
           (if uses_default_ndv column
            then Inr (fmul rt non_null (dec rt (9 / 10)), ''default:inequality_selectivity=0.9'')
            else bindR (fdiv rt (Fin 1) ndv) (\<lambda>q.
                   Inr (fmul rt non_null (fsub rt (Fin 1) q), ''column_ndv'')))
         else bindR (range_selectivity rt op value column) (\<lambda>ranged.
           case ranged of
             Some f \<Rightarrow> Inr (fmul rt non_null f, ''column_min_max'')
           | None \<Rightarrow> Inr (fmul rt non_null (Fin (1 / 2)), ''default:range_selectivity=0.5'')))"

text \<open>\<open>expression_columns\<close> is a set: a column that is compared with itself counts once.\<close>

definition comparison_selectivity ::
    "'x py_runtime_scheme \<Rightarrow> binary_operator \<Rightarrow> expr \<Rightarrow> expr \<Rightarrow> type_info \<Rightarrow> plan_estimate
       \<Rightarrow> (pyfloat \<times> string) option res" where
  "comparison_selectivity rt op l r ti est =
     (case (case column_literal op l r of
              None \<Rightarrow> None
            | Some (column, value, op') \<Rightarrow>
                map_option (\<lambda>c. (c, value, op')) (column_estimate_of column est)) of
        Some (c, value, op') \<Rightarrow> bindR (literal_selectivity rt op' value c) (\<lambda>x. Inr (Some x))
      | None \<Rightarrow>
          if op = EQUAL then
            (case remdups (expression_columns (Binary op l r ti)) of
               [a, b] \<Rightarrow>
                 (case (column_estimate_of a est, column_estimate_of b est) of
                    (Some x, Some y) \<Rightarrow>
                      bindR (fdiv rt (Fin 1) (fmax (ce_distinct_count x) (ce_distinct_count y))) (\<lambda>q.
                        Inr (Some (q, ''column_ndv'')))
                  | _ \<Rightarrow> Inr None)
             | _ \<Rightarrow> Inr None)
          else Inr None)"

definition default_selectivity :: "pyfloat \<times> string" where
  "default_selectivity = (Fin (1 / 2), ''default:filter_selectivity=0.5'')"

fun selectivity :: "'x py_runtime_scheme \<Rightarrow> plan_estimate \<Rightarrow> expr \<Rightarrow> (pyfloat \<times> string) res" where
  "selectivity rt est (Binary op l r ti) =
     (if op = OP_AND then
        bindR (selectivity rt est l) (\<lambda>(a, sa). bindR (selectivity rt est r) (\<lambda>(b, sb).
          Inr (fmul rt a b, ''derived:and('' @ sa @ '','' @ sb @ '')'')))
      else if op = OP_OR then
        bindR (selectivity rt est l) (\<lambda>(a, sa). bindR (selectivity rt est r) (\<lambda>(b, sb).
          Inr (fsub rt (fadd rt a b) (fmul rt a b), ''derived:or('' @ sa @ '','' @ sb @ '')'')))
      else bindR (comparison_selectivity rt op l r ti est) (\<lambda>x.
             Inr (case x of Some y \<Rightarrow> y | None \<Rightarrow> default_selectivity)))"
| "selectivity rt est (IsNull e ng) =
     Inr (case column_estimate_of e est of
            Some c \<Rightarrow> (if ng then fsub rt (Fin 1) (ce_null_fraction c) else ce_null_fraction c,
                        ''column_null_count'')
          | None \<Rightarrow> default_selectivity)"
| "selectivity rt est (InList e os ng) =
     (case column_estimate_of e est of
        Some c \<Rightarrow>
          bindR (float_of_int rt (int (length os))) (\<lambda>n.
          bindR (fdiv rt n (fmax (ce_distinct_count c) (Fin 1))) (\<lambda>q.
            Inr (fmul rt (fmin q (Fin 1)) (fsub rt (Fin 1) (ce_null_fraction c)), ''column_ndv'')))
      | None \<Rightarrow> Inr default_selectivity)"
| "selectivity rt est (Between e lo hi ng) = Inr (Fin (1 / 4), ''default:between_selectivity=0.25'')"
| "selectivity rt est (Like e p ng) = Inr (dec rt (1 / 5), ''default:like_selectivity=0.2'')"
| "selectivity rt est (Literal v ti) = Inr (if v = VBool True then Fin 1 else Fin 0, ''literal'')"
| "selectivity rt est _ = Inr default_selectivity"

section \<open>Operators\<close>

definition sum_sizes :: "int option list \<Rightarrow> int" where
  "sum_sizes ns = sum_list (map (\<lambda>n. case n of None \<Rightarrow> 0 | Some i \<Rightarrow> i) ns)"

text \<open>The row count of a scan and its evidence.\<close>

definition scan_rows ::
    "'x py_runtime_scheme \<Rightarrow> string \<Rightarrow> catalog_table \<Rightarrow> (pyfloat \<times> string) res" where
  "scan_rows rt name table =
     (case (case ct_statistics table of None \<Rightarrow> None | Some st \<Rightarrow> s_row_count st) of
        Some n \<Rightarrow> bindR (float_of_int rt n) (\<lambda>f. Inr (f, ''catalog:'' @ name @ ''.row_count''))
      | None \<Rightarrow>
          if ct_partitions table \<noteq> [] \<and> list_all (\<lambda>p. p_row_count p \<noteq> None) (ct_partitions table)
          then bindR (float_of_int rt (sum_sizes (map p_row_count (ct_partitions table)))) (\<lambda>f.
                 Inr (f, ''partitions:'' @ name @ ''.row_count''))
          else Inr (DEFAULT_ROW_COUNT, ''default:'' @ name @ ''.row_count=1000000''))"

text \<open>The estimate of one field of the scan with its evidence.\<close>

definition scan_column ::
    "'x py_runtime_scheme \<Rightarrow> string \<Rightarrow> pyfloat \<Rightarrow> (string, column_statistics) dict \<Rightarrow> schema_field
       \<Rightarrow> column_estimate res" where
  "scan_column rt name rows raw_columns field =
     (let raw = dict_get raw_columns (casefold (sf_name field));
          label = name @ ''.'' @ sf_name field in
      bindR (case (case raw of None \<Rightarrow> None | Some st \<Rightarrow> cs_null_count st) of
               Some n \<Rightarrow>
                 bindR (float_of_int rt n) (\<lambda>f. bindR (fdiv rt f (fmax rows (Fin 1))) (\<lambda>q.
                   Inr (fmin q (Fin 1), ''catalog:'' @ label @ ''.null_count'')))
             | None \<Rightarrow> Inr (if sf_nullable field then DEFAULT_NULL_FRACTION rt else Fin 0,
                              ''default:'' @ label @ ''.null_fraction''))
        (\<lambda>(nulls, null_source).
      bindR (case (case raw of None \<Rightarrow> None | Some st \<Rightarrow> cs_distinct_count st) of
               Some n \<Rightarrow>
                 bindR (float_of_int rt n) (\<lambda>f.
                   Inr (fmin f (fmax (fsub rt rows (fmul rt rows nulls)) (Fin 0)),
                        ''catalog:'' @ label @ ''.ndv''))
             | None \<Rightarrow> Inr (fmax (fmul rt rows (fsub rt (Fin 1) nulls)) (Fin 0),
                              ''default:'' @ label @ ''.ndv''))
        (\<lambda>(ndv, ndv_source).
      let (width, width_sources) =
        (case (case raw of None \<Rightarrow> None | Some st \<Rightarrow> cs_average_size_bytes st) of
           Some w \<Rightarrow> (w, {})
         | None \<Rightarrow> (type_width (sf_type field), {''default:'' @ label @ ''.width''}))
      in Inr \<lparr>ce_null_fraction = nulls, ce_distinct_count = ndv,
           ce_min_value = (case raw of None \<Rightarrow> JNull | Some st \<Rightarrow> cs_min_value st),
           ce_max_value = (case raw of None \<Rightarrow> JNull | Some st \<Rightarrow> cs_max_value st),
           ce_average_size_bytes = width,
           ce_sources = {null_source, ndv_source} \<union> width_sources\<rparr>)))"

definition scan_size ::
    "'x cost_runtime_scheme \<Rightarrow> string \<Rightarrow> catalog_table \<Rightarrow> pyfloat \<Rightarrow> (string, column_estimate) dict
       \<Rightarrow> (pyfloat \<times> string) res" where
  "scan_size rt name table rows columns =
     (case (case ct_statistics table of None \<Rightarrow> None | Some st \<Rightarrow> s_size_bytes st) of
        Some n \<Rightarrow> bindR (float_of_int rt n) (\<lambda>f. Inr (f, ''catalog:'' @ name @ ''.size_bytes''))
      | None \<Rightarrow>
          if ct_partitions table \<noteq> [] \<and> list_all (\<lambda>p. p_size_bytes p \<noteq> None) (ct_partitions table)
          then bindR (float_of_int rt (sum_sizes (map p_size_bytes (ct_partitions table)))) (\<lambda>f.
                 Inr (f, ''partitions:'' @ name @ ''.size_bytes''))
          else Inr (fmul rt rows (fsum rt (map (ce_average_size_bytes \<circ> snd) columns)),
                    ''default:'' @ name @ ''.size_bytes''))"

definition estimate_scan ::
    "'x cost_runtime_scheme \<Rightarrow> cost_model \<Rightarrow> string \<Rightarrow> string \<Rightarrow> schema \<Rightarrow> plan_estimate res" where
  "estimate_scan rt cm name alias schema =
     (case dict_get (cm_catalog cm) (casefold name) of
        None \<Rightarrow> Inl PyValueError
      | Some table \<Rightarrow>
          let raw_columns = (case ct_statistics table of None \<Rightarrow> [] | Some st \<Rightarrow> casefold_keys (s_columns st));
              stat_sources = (case ct_statistics table of None \<Rightarrow> {}
                              | Some st \<Rightarrow> {''statistics_source:'' @ s_source st})
          in bindR (scan_rows rt name table) (\<lambda>(rows, row_source).
             bindR (mapR (\<lambda>f. bindR (scan_column rt name rows raw_columns f) (\<lambda>c.
                      Inr (casefold (alias @ ''.'' @ sf_name f), c))) (sc_fields schema)) (\<lambda>estimates.
             let columns = dict_update [] estimates in
             bindR (scan_size rt name table rows columns) (\<lambda>(size, size_source).
               Inr \<lparr>e_row_count = rows, e_size_bytes = size, e_columns = columns,
                    e_cost = no_cost\<lparr>c_cpu := fmul rt rows (dec rt (1 / 10)), c_disk := size\<rparr>,
                    e_sources = stat_sources \<union> {row_source, size_source}
                                \<union> \<Union> (set (map (ce_sources \<circ> snd) estimates)),
                    e_distribution =
                      \<lparr>d_strategy = ct_partition_strategy table,
                       d_keys = map (\<lambda>k. casefold (alias @ ''.'' @ k)) (ct_partition_keys table),
                       d_partition_count = max (int (length (ct_partitions table))) 1\<rparr>\<rparr>))))"

definition ratio_of :: "'x py_runtime_scheme \<Rightarrow> pyfloat \<Rightarrow> pyfloat \<Rightarrow> pyfloat res" where
  "ratio_of rt rows child_rows = (if is_zero child_rows then Inr (Fin 0) else fdiv rt rows child_rows)"

definition estimate_filter ::
    "'x cost_runtime_scheme \<Rightarrow> expr \<Rightarrow> plan_estimate \<Rightarrow> plan_estimate res" where
  "estimate_filter rt predicate child =
     bindR (selectivity rt child predicate) (\<lambda>(sel, evidence).
     let rows = fmin (fmax (fmul rt (e_row_count child) sel) (Fin 0)) (e_row_count child) in
     bindR (ratio_of rt rows (e_row_count child)) (\<lambda>ratio.
       Inr \<lparr>e_row_count = rows, e_size_bytes = fmul rt (e_size_bytes child) ratio,
            e_columns = map (\<lambda>(name, c).
              (name, c\<lparr>ce_null_fraction := fmin (ce_null_fraction c) (Fin 1),
                       ce_distinct_count := fmin (ce_distinct_count c) (fmax rows (Fin 1))\<rparr>))
              (e_columns child),
            e_cost = add_cost rt (e_cost child) (no_cost\<lparr>c_cpu := e_row_count child\<rparr>),
            e_sources = e_sources child \<union> {evidence},
            e_distribution = e_distribution child\<rparr>))"

definition estimate_project ::
    "'x cost_runtime_scheme \<Rightarrow> named_expression list \<Rightarrow> schema \<Rightarrow> plan_estimate \<Rightarrow> plan_estimate" where
  "estimate_project rt items schema child =
     \<lparr>e_row_count = e_row_count child,
      e_size_bytes = fmul rt (e_row_count child) (row_width rt schema),
      e_columns = fold (\<lambda>item d.
        case column_estimate_of (ne_expression item) child of
          None \<Rightarrow> d | Some c \<Rightarrow> dict_set d (casefold (ne_name item)) c) items [],
      e_cost = add_cost rt (e_cost child)
        (no_cost\<lparr>c_cpu := fmul rt (e_row_count child) (dec rt (1 / 5))\<rparr>),
      e_sources = e_sources child \<union> {''derived:project''},
      e_distribution = e_distribution child\<rparr>"

text \<open>\<open>math.prod\<close> multiplies from the left, starting with one.\<close>

definition group_count :: "'x py_runtime_scheme \<Rightarrow> expr list \<Rightarrow> plan_estimate \<Rightarrow> pyfloat" where
  "group_count rt es child =
     (if es = [] then Fin 1
      else if feq (e_row_count child) (Fin 0) then Fin 0
      else let counts = map (\<lambda>e. case column_estimate_of e child of
                 Some c \<Rightarrow> ce_distinct_count c | None \<Rightarrow> DEFAULT_NDV) es
           in fmax (fmin (foldl (fmul rt) (Fin 1) counts) (e_row_count child)) (Fin 1))"

definition estimate_aggregate ::
    "'x cost_runtime_scheme \<Rightarrow> cost_model \<Rightarrow> expr list \<Rightarrow> schema \<Rightarrow> plan_estimate \<Rightarrow> plan_estimate" where
  "estimate_aggregate rt cm group_by schema child =
     (let rows = group_count rt group_by child;
          memory = fmul rt rows (row_width rt schema);
          budget = cm_memory_budget_bytes cm
      in \<lparr>e_row_count = rows, e_size_bytes = fmul rt rows (row_width rt schema), e_columns = [],
          e_cost = add_cost rt (e_cost child)
            (no_cost\<lparr>c_cpu := e_row_count child, c_memory := fmin memory budget,
                     c_disk := fmul rt (fmax (fsub rt memory budget) (Fin 0)) (Fin 2)\<rparr>),
          e_sources = e_sources child \<union> {''derived:aggregate''},
          e_distribution = no_distribution\<rparr>)"

definition estimate_grouping_sets ::
    "'x cost_runtime_scheme \<Rightarrow> expr list list \<Rightarrow> schema \<Rightarrow> plan_estimate \<Rightarrow> plan_estimate res" where
  "estimate_grouping_sets rt sets schema child =
     bindR (float_of_int rt (max (int (length sets)) 1)) (\<lambda>n.
     let rows = fmin (fmul rt (e_row_count child) n)
                  (fsum rt (map (\<lambda>g. group_count rt g child) sets)) in
     Inr \<lparr>e_row_count = rows, e_size_bytes = fmul rt rows (row_width rt schema), e_columns = [],
          e_cost = add_cost rt (e_cost child) (no_cost\<lparr>c_cpu := fmul rt (e_row_count child) n\<rparr>),
          e_sources = e_sources child \<union> {''derived:grouping_sets''},
          e_distribution = no_distribution\<rparr>)"

definition estimate_unary ::
    "'x py_runtime_scheme \<Rightarrow> plan_estimate \<Rightarrow> pyfloat \<Rightarrow> pyfloat \<Rightarrow> pyfloat \<Rightarrow> pyfloat \<Rightarrow> plan_estimate res" where
  "estimate_unary rt child rows cpu memory disk =
     bindR (ratio_of rt rows (e_row_count child)) (\<lambda>ratio.
       Inr (child\<lparr>e_row_count := rows, e_size_bytes := fmul rt (e_size_bytes child) ratio,
         e_cost := add_cost rt (e_cost child)
           \<lparr>c_cpu = cpu, c_network = Fin 0, c_memory = memory, c_disk = disk\<rparr>,
         e_sources := e_sources child \<union> {''derived:unary''}\<rparr>))"

section \<open>Joins\<close>

text \<open>\<open>_join_keys\<close>: the pairs of columns that equate one side with the other.\<close>

fun join_key_pairs :: "string set \<Rightarrow> string set \<Rightarrow> expr \<Rightarrow> (string \<times> string) list" where
  "join_key_pairs ls rs (Binary op l r ti) =
     (if op = OP_AND then join_key_pairs ls rs l @ join_key_pairs ls rs r
      else if op \<noteq> EQUAL then []
      else if \<not> is_column l \<or> \<not> is_column r then []
      else
        let a = casefold (column_source l); b = casefold (column_source r);
            x = casefold (qualified_name (column_name l) (column_source l));
            y = casefold (qualified_name (column_name r) (column_source r))
        in if a \<in> ls \<and> b \<in> rs then [(x, y)]
           else if b \<in> ls \<and> a \<in> rs then [(y, x)]
           else [])"
| "join_key_pairs ls rs _ = []"

definition join_keys :: "plan \<Rightarrow> plan \<Rightarrow> expr \<Rightarrow> string list \<times> string list" where
  "join_keys l r condition =
     (let ps = join_key_pairs (plan_sources l) (plan_sources r) condition
      in (map fst ps, map snd ps))"

definition partitioned_on :: "distribution \<Rightarrow> string list \<Rightarrow> bool" where
  "partitioned_on d ks \<longleftrightarrow>
     d_strategy d = P_SINGLE
     \<or> d_strategy d = P_HASH \<and> ks \<noteq> [] \<and> map casefold (d_keys d) = map casefold ks"

definition compatible :: "distribution \<Rightarrow> distribution \<Rightarrow> string list \<Rightarrow> string list \<Rightarrow> bool" where
  "compatible l r lks rks \<longleftrightarrow>
     d_strategy l = P_SINGLE \<and> d_strategy r = P_SINGLE
     \<or> partitioned_on l lks \<and> partitioned_on r rks \<and> d_partition_count l = d_partition_count r"

definition key_selectivity ::
    "'x py_runtime_scheme \<Rightarrow> plan_estimate \<Rightarrow> plan_estimate \<Rightarrow> pyfloat \<Rightarrow> string \<times> string \<Rightarrow> pyfloat res" where
  "key_selectivity rt left right sel k =
     (case (dict_get (e_columns left) (casefold (fst k)), dict_get (e_columns right) (casefold (snd k))) of
        (Some lc, Some rc) \<Rightarrow>
          if uses_default_ndv lc \<or> uses_default_ndv rc then Inr (fmul rt sel (dec rt (1 / 10)))
          else
            bindR (fdiv rt (fmul rt (fsub rt (Fin 1) (ce_null_fraction lc))
                              (fsub rt (Fin 1) (ce_null_fraction rc)))
                     (fmax (fmax (ce_distinct_count lc) (ce_distinct_count rc)) (Fin 1))) (\<lambda>q.
              Inr (fmul rt sel q))
      | _ \<Rightarrow> Inr (fmul rt sel (dec rt (1 / 10))))"

definition estimated_join_rows ::
    "'x py_runtime_scheme \<Rightarrow> string \<Rightarrow> plan_estimate \<Rightarrow> plan_estimate \<Rightarrow> string list \<Rightarrow> string list
       \<Rightarrow> pyfloat res" where
  "estimated_join_rows rt join_type left right lks rks =
     bindR (if lks \<noteq> []
            then bindR (foldR (key_selectivity rt left right) (Fin 1) (zip lks rks)) (\<lambda>sel.
                   Inr (fmul rt (fmul rt (e_row_count left) (e_row_count right)) sel))
            else Inr (fmul rt (fmul rt (e_row_count left) (e_row_count right)) (dec rt (1 / 10))))
       (\<lambda>rows.
         let rows' =
           (if join_type = ''left'' then fmax rows (e_row_count left)
            else if join_type = ''right'' then fmax rows (e_row_count right)
            else if join_type = ''full'' then fmax (fmax rows (e_row_count left)) (e_row_count right)
            else rows)
         in Inr (fmax rows' (Fin 0)))"

type_synonym strategy_choice = "join_strategy \<times> pyfloat \<times> string"

text \<open>\<open>min(candidates, key=...)\<close>: the first candidate no other is below.\<close>

definition choice_less :: "strategy_choice \<Rightarrow> strategy_choice \<Rightarrow> bool" where
  "choice_less a b =
     (if feq (fst (snd a)) (fst (snd b))
      then join_strategy_value (fst a) < join_strategy_value (fst b)
      else flt (fst (snd a)) (fst (snd b)))"

fun first_min :: "('a \<Rightarrow> 'a \<Rightarrow> bool) \<Rightarrow> 'a \<Rightarrow> 'a list \<Rightarrow> 'a" where
  "first_min lt best [] = best"
| "first_min lt best (x # xs) = first_min lt (if lt x best then x else best) xs"

definition build_side_of :: "plan_estimate \<Rightarrow> plan_estimate \<Rightarrow> string" where
  "build_side_of left right =
     (if fle (e_size_bytes left) (e_size_bytes right) then ''left'' else ''right'')"

definition strategy_candidates ::
    "'x py_runtime_scheme \<Rightarrow> cost_model \<Rightarrow> plan_estimate \<Rightarrow> plan_estimate \<Rightarrow> string list \<Rightarrow> string list
       \<Rightarrow> string \<Rightarrow> strategy_choice list res" where
  "strategy_candidates rt cm left right lks rks build_side =
     (let build = (if build_side = ''left'' then left else right) in
      bindR (if fle (e_size_bytes build)
                  (fmin (cm_broadcast_threshold_bytes cm) (cm_memory_budget_bytes cm))
             then bindR (float_of_int rt (max (cm_worker_count cm - 1) 0)) (\<lambda>n.
                    Inr [(J_BROADCAST, fmul rt (e_size_bytes build) n,
                          ''broadcast '' @ build_side @ '' build input'')])
             else Inr []) (\<lambda>broadcast.
        Inr ((if compatible (e_distribution left) (e_distribution right) lks rks
              then [(J_REUSE, Fin 0, ''both inputs already colocated'')] else [])
           @ (if partitioned_on (e_distribution left) lks
              then [(J_REPARTITION_RIGHT, e_size_bytes right, ''reuse left partitioning'')] else [])
           @ (if partitioned_on (e_distribution right) rks
              then [(J_REPARTITION_LEFT, e_size_bytes left, ''reuse right partitioning'')] else [])
           @ [(J_REPARTITION_BOTH, fadd rt (e_size_bytes left) (e_size_bytes right),
               ''hash repartition both inputs'')]
           @ broadcast)))"

definition join_strategy_of ::
    "'x py_runtime_scheme \<Rightarrow> cost_model \<Rightarrow> plan_estimate \<Rightarrow> plan_estimate \<Rightarrow> string list \<Rightarrow> string list
       \<Rightarrow> string \<Rightarrow> strategy_choice res" where
  "join_strategy_of rt cm left right lks rks build_side =
     bindR (strategy_candidates rt cm left right lks rks build_side) (\<lambda>cs.
       case cs of [] \<Rightarrow> Inl PyValueError | c # rest \<Rightarrow> Inr (first_min choice_less c rest))"

definition join_distribution ::
    "join_strategy \<Rightarrow> plan_estimate \<Rightarrow> plan_estimate \<Rightarrow> string list \<Rightarrow> string list \<Rightarrow> int \<Rightarrow> distribution" where
  "join_distribution strategy left right lks rks worker_count =
     (case strategy of
        J_REUSE \<Rightarrow> e_distribution left
      | J_REPARTITION_RIGHT \<Rightarrow> e_distribution left
      | J_REPARTITION_LEFT \<Rightarrow> e_distribution right
      | J_BROADCAST \<Rightarrow>
          if fle (e_size_bytes left) (e_size_bytes right) then e_distribution right
          else e_distribution left
      | J_REPARTITION_BOTH \<Rightarrow>
          \<lparr>d_strategy = P_HASH, d_keys = (if lks \<noteq> [] then lks else rks),
           d_partition_count = worker_count\<rparr>)"

text \<open>\<open>estimate_join\<close>, given the estimates of the two inputs.\<close>

definition join_estimate ::
    "'x cost_runtime_scheme \<Rightarrow> cost_model \<Rightarrow> string \<Rightarrow> plan \<Rightarrow> plan \<Rightarrow> string \<Rightarrow> expr \<Rightarrow> schema
       \<Rightarrow> plan_estimate \<Rightarrow> plan_estimate \<Rightarrow> (plan_estimate \<times> join_decision) res" where
  "join_estimate rt cm i l r join_type condition schema left right =
     (let (lks, rks) = join_keys l r condition in
      bindR (estimated_join_rows rt join_type left right lks rks) (\<lambda>rows.
      let size = fmul rt rows (row_width rt schema);
          build_side = build_side_of left right in
      bindR (join_strategy_of rt cm left right lks rks build_side) (\<lambda>(strategy, network, reason).
      let build_bytes = (if build_side = ''left'' then e_size_bytes left else e_size_bytes right);
          spill = fmax (fsub rt build_bytes (cm_memory_budget_bytes cm)) (Fin 0);
          operation =
            \<lparr>c_cpu = fadd rt (fadd rt (e_row_count left) (e_row_count right)) rows,
             c_network = network, c_memory = fmin build_bytes (cm_memory_budget_bytes cm),
             c_disk = fmul rt spill (Fin 2)\<rparr>
      in Inr
        (\<lparr>e_row_count = rows, e_size_bytes = size,
          e_columns = dict_update (e_columns left) (e_columns right),
          e_cost = add_cost rt (add_cost rt (e_cost left) (e_cost right)) operation,
          e_sources = e_sources left \<union> e_sources right \<union> {''derived:join''},
          e_distribution = join_distribution strategy left right lks rks (cm_worker_count cm)\<rparr>,
         \<lparr>jd_node_id = i, jd_build_side = build_side, jd_strategy = strategy, jd_left_keys = lks,
          jd_right_keys = rks, jd_estimated_rows = rows, jd_estimated_bytes = size,
          jd_cost = operation, jd_reason = reason\<rparr>))))"

section \<open>Plans\<close>

fun estimate :: "'x cost_runtime_scheme \<Rightarrow> cost_model \<Rightarrow> plan \<Rightarrow> plan_estimate res" where
  "estimate rt cm (Scan i name alias s) = estimate_scan rt cm name alias s"
| "estimate rt cm (Filter i p e s ph) = bindR (estimate rt cm p) (estimate_filter rt e)"
| "estimate rt cm (Project i p es s) =
     bindR (estimate rt cm p) (\<lambda>c. Inr (estimate_project rt es s c))"
| "estimate rt cm (Aggregate i p gs as s) =
     bindR (estimate rt cm p) (\<lambda>c. Inr (estimate_aggregate rt cm gs s c))"
| "estimate rt cm (GroupingSets i p gs as s) =
     bindR (estimate rt cm p) (estimate_grouping_sets rt gs s)"
| "estimate rt cm (Join i l r jt e s inlim b) =
     bindR (estimate rt cm l) (\<lambda>left. bindR (estimate rt cm r) (\<lambda>right.
     bindR (join_estimate rt cm i l r jt e s left right) (\<lambda>(est, d). Inr est)))"
| "estimate rt cm (Limit i p n s) =
     bindR (estimate rt cm p) (\<lambda>c. bindR (float_of_int rt n) (\<lambda>f.
     let rows = fmin (e_row_count c) f in
     estimate_unary rt c rows (fmul rt rows (dec rt (1 / 20))) (Fin 0) (Fin 0)))"
| "estimate rt cm (Order i p os s) =
     bindR (estimate rt cm p) (\<lambda>c.
     let working = e_size_bytes c;
         spill = fmax (fsub rt working (cm_memory_budget_bytes cm)) (Fin 0) in
     estimate_unary rt c (e_row_count c)
       (fmul rt (e_row_count c) (fmax (cr_log2 rt (fmax (e_row_count c) (Fin 1))) (Fin 1)))
       (fmin working (cm_memory_budget_bytes cm)) (fmul rt spill (Fin 2)))"
| "estimate rt cm (Window i p es s) =
     bindR (estimate rt cm p) (\<lambda>c.
     estimate_unary rt c (e_row_count c) (e_row_count c)
       (fmin (e_size_bytes c) (cm_memory_budget_bytes cm)) (Fin 0))"
| "estimate rt cm (Exchange i p st ks n s) = Inl PyTypeError"

text \<open>\<open>estimate_join\<close> of a join node.\<close>

fun estimate_join :: "'x cost_runtime_scheme \<Rightarrow> cost_model \<Rightarrow> plan \<Rightarrow> (plan_estimate \<times> join_decision) res" where
  "estimate_join rt cm (Join i l r jt e s inlim b) =
     bindR (estimate rt cm l) (\<lambda>left. bindR (estimate rt cm r) (\<lambda>right.
       join_estimate rt cm i l r jt e s left right))"
| "estimate_join rt cm _ = Inl PyAttributeError"

end
