(* ===== verification/Cbo.thy ===== *)
theory Cbo
  imports Cost Optimizer
begin

text \<open>
  Cost-based optimization (\<open>optimizer/cbo.py\<close>): the dynamic program that reorders a region of
  inner joins, the traversal that finds the regions, the collection of estimates and join
  decisions, and the driver on top of the rule optimizer.  Sets of leaves are bit masks, as in
  the code; the table \<open>best\<close> is a dictionary from masks to plans with their estimates.
\<close>

unbundle bit_operations_syntax

section \<open>Regions\<close>

definition nondeterministic_functions :: "string list" where
  "nondeterministic_functions =
     [''current_date'', ''current_timestamp'', ''now'', ''random'', ''rand'', ''uuid'']"

fun is_nondeterministic_call :: "expr \<Rightarrow> bool" where
  "is_nondeterministic_call (ScalarFunction n args ti) =
     (casefold n \<in> set nondeterministic_functions)"
| "is_nondeterministic_call _ = False"

definition is_deterministic :: "expr \<Rightarrow> bool" where
  "is_deterministic e \<longleftrightarrow> \<not> list_ex is_nondeterministic_call (walk_expression e)"

text \<open>\<open>flatten\<close>: the leaves of a region and the conjuncts of its conditions.\<close>

fun flatten :: "plan \<Rightarrow> plan list \<times> expr list" where
  "flatten (Join i l r jt e s inlim b) =
     (if jt = ''inner'' \<and> is_deterministic e then
        (fst (flatten l) @ fst (flatten r), snd (flatten l) @ snd (flatten r) @ split_conjuncts e)
      else ([Join i l r jt e s inlim b], []))"
| "flatten p = ([p], [])"

definition crossing_predicates :: "expr list \<Rightarrow> plan \<Rightarrow> plan \<Rightarrow> expr list" where
  "crossing_predicates predicates l r =
     filter (\<lambda>p. expression_sources p \<subseteq> plan_sources l \<union> plan_sources r
       \<and> expression_sources p \<inter> plan_sources l \<noteq> {}
       \<and> expression_sources p \<inter> plan_sources r \<noteq> {}) predicates"

definition rename_schema_field :: "string \<Rightarrow> schema_field \<Rightarrow> schema_field" where
  "rename_schema_field alias f =
     (if CHR ''.'' \<notin> set (sf_name f)
      then SchemaField (alias @ ''.'' @ sf_name f) (sf_type f) (sf_nullable f) (sf_metadata f)
             (sf_children f)
      else f)"

fun qualified_fields :: "plan \<Rightarrow> schema_field list" where
  "qualified_fields (Scan i t a s) = map (rename_schema_field a) (sc_fields s)"
| "qualified_fields p = sc_fields (output_schema p)"

definition join_schema :: "plan \<Rightarrow> plan \<Rightarrow> schema res" where
  "join_schema l r =
     make_schema (qualified_fields l @ qualified_fields r) (sc_metadata (output_schema l))"

section \<open>Masks\<close>

text \<open>\<open>itertools.combinations\<close>, in lexicographic order.\<close>

fun combinations :: "'a list \<Rightarrow> nat \<Rightarrow> 'a list list" where
  "combinations xs 0 = [[]]"
| "combinations [] (Suc k) = []"
| "combinations (x # xs) (Suc k) = map (Cons x) (combinations xs k) @ combinations xs (Suc k)"

definition mask_of :: "nat list \<Rightarrow> int" where
  "mask_of is = sum_list (map (\<lambda>i. 2 ^ i) is)"

text \<open>The loop over \<open>left_mask\<close>: the non-empty submasks below the start, downwards.\<close>

function submasks :: "int \<Rightarrow> int \<Rightarrow> int list" where
  "submasks m left =
     (if left \<le> 0 then [] else left # submasks m ((left - 1) AND m))"
  by pat_completeness auto
termination
proof (relation "measure (\<lambda>(m, left). nat left)")
  fix m left :: int
  assume "\<not> left \<le> 0"
  then have "(left - 1) AND m \<le> left - 1" by (simp add: AND_upper1)
  then show "((m, (left - 1) AND m), (m, left)) \<in> measure (\<lambda>(m, left). nat left)"
    using \<open>\<not> left \<le> 0\<close> by simp
qed simp

declare submasks.simps [simp del]

section \<open>The dynamic program\<close>

type_synonym best_table = "(int, plan \<times> plan_estimate) dict"

definition cbo_join_id :: "plan \<Rightarrow> plan \<Rightarrow> string" where
  "cbo_join_id l r =
     ''cbo_join_'' @ join ''_'' (sorted_list_of_set (plan_sources l \<union> plan_sources r))"

text \<open>The candidate for one split of the mask, when both halves have a plan and a predicate
  connects them.\<close>

definition split_candidate ::
    "cost_runtime \<Rightarrow> cost_model \<Rightarrow> expr list \<Rightarrow> best_table \<Rightarrow> int \<Rightarrow> int
       \<Rightarrow> (plan \<times> plan_estimate) list res" where
  "split_candidate rt cm predicates best m left =
     (let right = m XOR left; anchor = m AND - m in
      if right = 0 \<or> left AND anchor = 0 then Inr []
      else case (dict_get best left, dict_get best right) of
          (Some (l, _), Some (r, _)) \<Rightarrow>
            (let crossing = crossing_predicates predicates l r in
             if crossing = [] then Inr []
             else
               bindR (combine_conjuncts crossing) (\<lambda>condition.
               bindR (join_schema l r) (\<lambda>schema.
               bindR (make_join (cbo_join_id l r) l r ''inner'' condition schema None ''right'') (\<lambda>p.
               bindR (estimate rt cm p) (\<lambda>est. Inr [(p, est)])))))
        | _ \<Rightarrow> Inr [])"

definition candidate_less ::
    "cost_runtime \<Rightarrow> plan \<times> plan_estimate \<Rightarrow> plan \<times> plan_estimate \<Rightarrow> bool" where
  "candidate_less rt a b =
     (let x = total_cost rt (e_cost (snd a)); y = total_cost rt (e_cost (snd b)) in
      if feq x y
      then plan_text (py_runtime.truncate rt) (fst a) 0 < plan_text (py_runtime.truncate rt) (fst b) 0
      else flt x y)"

definition mask_step ::
    "cost_runtime \<Rightarrow> cost_model \<Rightarrow> expr list \<Rightarrow> best_table \<Rightarrow> nat list \<Rightarrow> best_table res" where
  "mask_step rt cm predicates best idx =
     (let m = mask_of idx in
      bindR (mapR (split_candidate rt cm predicates best m) (submasks m ((m - 1) AND m))) (\<lambda>css.
        case concat css of
          [] \<Rightarrow> Inr best
        | c # rest \<Rightarrow> Inr (dict_set best m (first_min (candidate_less rt) c rest))))"

definition initial_best :: "cost_runtime \<Rightarrow> cost_model \<Rightarrow> plan list \<Rightarrow> best_table res" where
  "initial_best rt cm leaves =
     bindR (mapR (\<lambda>(i, leaf). bindR (estimate rt cm leaf) (\<lambda>est. Inr (2 ^ i, leaf, est)))
              (zip [0..<length leaves] leaves)) (\<lambda>entries.
       Inr (dict_update [] entries))"

definition region_table :: "cost_runtime \<Rightarrow> cost_model \<Rightarrow> expr list \<Rightarrow> plan list \<Rightarrow> best_table res" where
  "region_table rt cm predicates leaves =
     bindR (initial_best rt cm leaves) (\<lambda>best.
       foldR (mask_step rt cm predicates) best
         (concat (map (combinations [0..<length leaves]) [2..<Suc (length leaves)])))"

text \<open>The checks that make \<open>_reorder_region\<close> give up before the dynamic program.\<close>

definition region_eligible :: "plan list \<Rightarrow> expr list \<Rightarrow> bool" where
  "region_eligible leaves predicates \<longleftrightarrow>
     3 \<le> length leaves
     \<and> list_all (\<lambda>p. plan_sources p \<noteq> {}) leaves
     \<and> card (\<Union> (set (map plan_sources leaves))) = sum_list (map (\<lambda>p. card (plan_sources p)) leaves)
     \<and> list_all (\<lambda>e. is_deterministic e \<and> 2 \<le> card (expression_sources e)) predicates"

fun relabel_join :: "plan \<Rightarrow> string \<Rightarrow> schema \<Rightarrow> plan res" where
  "relabel_join (Join i l r jt e s inlim b) i' s' = make_join i' l r jt e s' inlim b"
| "relabel_join p i' s' = Inl PyAssertionError"

fun inner_join :: "plan \<Rightarrow> bool" where
  "inner_join (Join i l r jt e s inlim b) = (jt = ''inner'')"
| "inner_join p = False"

definition reorder_region :: "cost_runtime \<Rightarrow> cost_model \<Rightarrow> plan \<Rightarrow> plan option res" where
  "reorder_region rt cm region =
     (if \<not> inner_join region then Inr None
      else
        let leaves = fst (flatten region); predicates = snd (flatten region) in
        if \<not> region_eligible leaves predicates then Inr None
        else
          bindR (region_table rt cm predicates leaves) (\<lambda>best.
            case dict_get best (2 ^ length leaves - 1) of
              None \<Rightarrow> Inr None
            | Some (winner, _) \<Rightarrow>
                bindR (relabel_join winner (node_id region) (output_schema region)) (\<lambda>p. Inr (Some p))))"

section \<open>The traversal and the driver\<close>

fun region_root :: "plan \<Rightarrow> bool" where
  "region_root (Join i l r jt e s inlim b) = (jt = ''inner'' \<and> is_deterministic e)"
| "region_root p = False"

function reorder_recursive ::
    "cost_runtime \<Rightarrow> cost_model \<Rightarrow> plan \<Rightarrow> bool \<Rightarrow> (plan \<times> nat) res" where
  "reorder_recursive rt cm p inside_region =
     bindR (mapR (\<lambda>c. reorder_recursive rt cm c (region_root p)) (children p)) (\<lambda>rs.
     bindR (if map fst rs \<noteq> children p then replace_children p (map fst rs) else Inr p) (\<lambda>candidate.
     bindR (if inside_region then Inr None else reorder_region rt cm candidate) (\<lambda>reordered.
       Inr (case reordered of
              None \<Rightarrow> (candidate, sum_list (map snd rs))
            | Some q \<Rightarrow> (q, sum_list (map snd rs) + 1)))))"
  by pat_completeness auto
termination
  by (relation "measure (\<lambda>(rt, cm, p, inside). size p)") (auto intro: size_children)

declare reorder_recursive.simps [simp del]

type_synonym collected = "(string, plan_estimate) dict \<times> join_decision list"

fun is_join :: "plan \<Rightarrow> bool" where
  "is_join (Join i l r jt e s inlim b) = True"
| "is_join p = False"

function collect_estimates ::
    "cost_runtime \<Rightarrow> cost_model \<Rightarrow> plan \<Rightarrow> collected \<Rightarrow> collected res" where
  "collect_estimates rt cm p st =
     bindR (foldR (\<lambda>st c. collect_estimates rt cm c st) st (children p)) (\<lambda>(estimates, decisions).
       if is_join p then
         bindR (estimate_join rt cm p) (\<lambda>(est, d).
           Inr (dict_set estimates (node_id p) est, decisions @ [d]))
       else
         bindR (estimate rt cm p) (\<lambda>est. Inr (dict_set estimates (node_id p) est, decisions)))"
  by pat_completeness auto
termination
  by (relation "measure (\<lambda>(rt, cm, p, st). size p)") (auto intro: size_children)

declare collect_estimates.simps [simp del]

record cbo_result =
  cb_original_plan :: plan
  cb_rbo_result :: optimization_result
  cb_optimized_plan :: plan
  cb_estimate :: plan_estimate
  cb_node_estimates :: "(string, plan_estimate) dict"
  cb_join_decisions :: "join_decision list"
  cb_reordered_regions :: nat

text \<open>\<open>CostBasedOptimizer.optimize\<close> after the rule optimizer returned \<open>rbo\<close>.\<close>

definition cost_based_optimize ::
    "cost_runtime \<Rightarrow> cost_model \<Rightarrow> (plan \<Rightarrow> optimization_result res) \<Rightarrow> plan \<Rightarrow> cbo_result res" where
  "cost_based_optimize rt cm rule_optimizer p =
     bindR (rule_optimizer p) (\<lambda>rbo.
     bindR (reorder_recursive rt cm (or_optimized_plan rbo) False) (\<lambda>(reordered, regions).
     bindR (collect_estimates rt cm reordered ([], [])) (\<lambda>(estimates, decisions).
     bindR (some_or PyKeyError (dict_get estimates (node_id reordered))) (\<lambda>est.
       Inr \<lparr>cb_original_plan = p, cb_rbo_result = rbo, cb_optimized_plan = reordered,
            cb_estimate = est, cb_node_estimates = estimates, cb_join_decisions = decisions,
            cb_reordered_regions = regions\<rparr>))))"

section \<open>Explain\<close>

definition estimate_lines :: "cost_runtime \<Rightarrow> string \<Rightarrow> plan_estimate \<Rightarrow> string list" where
  "estimate_lines rt i est =
     (let f = cr_fixed2 rt; c = e_cost est in
      [i @ '': rows='' @ f (e_row_count est) @ '', bytes='' @ f (e_size_bytes est) @ '', ''
         @ ''cost(cpu='' @ f (c_cpu c) @ '', network='' @ f (c_network c) @ '', ''
         @ ''memory='' @ f (c_memory c) @ '', disk='' @ f (c_disk c)
         @ '', total='' @ f (total_cost rt c) @ '')'',
       ''  sources: '' @ join '', '' (sorted_list_of_set (e_sources est))])"

definition decision_line :: "cost_runtime \<Rightarrow> join_decision \<Rightarrow> string" where
  "decision_line rt d =
     jd_node_id d @ '': build='' @ jd_build_side d @ '', ''
     @ ''strategy='' @ join_strategy_value (jd_strategy d)
     @ '', rows='' @ cr_fixed2 rt (jd_estimated_rows d) @ '', ''
     @ ''network='' @ cr_fixed2 rt (c_network (jd_cost d)) @ ''; '' @ jd_reason d"

definition explain_cbo :: "cost_runtime \<Rightarrow> cbo_result \<Rightarrow> string res" where
  "explain_cbo rt r =
     bindR (mapR (\<lambda>i. bindR (some_or PyKeyError (dict_get (cb_node_estimates r) i)) (\<lambda>est.
              Inr (estimate_lines rt i est))) (preorder_ids (cb_optimized_plan r))) (\<lambda>lines.
       Inr (join [CHR 10]
         ([explain_result (py_runtime.truncate rt) (cb_rbo_result r), '''',
           ''== Cost-Based Optimized Plan =='',
           plan_text (py_runtime.truncate rt) (cb_optimized_plan r) 0, '''',
           ''== Cardinality and Cost Estimates ==''] @ concat lines
          @ ['''', ''== Join Decisions ==''] 
          @ (if cb_join_decisions r = [] then [''(no joins)''] else [])
          @ map (decision_line rt) (cb_join_decisions r)
          @ [''Reordered inner-join regions: '' @ show_nat (cb_reordered_regions r)])))"

end
