(* ===== verification/CostLaws.thy ===== *)
theory CostLaws
  imports Cost
begin

text \<open>
  What the cost model promises the physical planner: the keys of a join decision are equalities
  of its condition between the two inputs, a strategy is chosen only where its precondition
  holds, and no applicable strategy moves less data.  The last section shows the one division
  whose divisor the code does not guard.
\<close>

section \<open>The order of candidates\<close>

definition comparable :: "pyfloat \<Rightarrow> bool" where
  "comparable f \<longleftrightarrow> f \<noteq> NaN"

lemma fnum_simps [simp]:
  "fnum NaN = NNaN" "fnum PosInf = NPosInf" "fnum NegInf = NNegInf" "fnum NegZero = NRat 0"
  "fnum (Fin r) = NRat r"
  by (simp_all add: fnum_def)

lemma fnum_comparable: "comparable f \<longleftrightarrow> fnum f \<noteq> NNaN"
  by (cases f) (simp_all add: comparable_def)

text \<open>On floats that are not \<open>nan\<close> the order is that of a linearly ordered key.\<close>

fun num_rank :: "num \<Rightarrow> nat \<times> rat" where
  "num_rank NNaN = (3, 0)"
| "num_rank NNegInf = (0, 0)"
| "num_rank (NRat r) = (1, r)"
| "num_rank NPosInf = (2, 0)"

lemma num_lt_rank: "a \<noteq> NNaN \<Longrightarrow> b \<noteq> NNaN \<Longrightarrow> num_lt a b \<longleftrightarrow> num_rank a < num_rank b"
  by (cases a; cases b) auto

lemma num_eq_rank: "a \<noteq> NNaN \<Longrightarrow> b \<noteq> NNaN \<Longrightarrow> num_eq a b \<longleftrightarrow> num_rank a = num_rank b"
  by (cases a; cases b) auto

definition choice_ok :: "strategy_choice \<Rightarrow> bool" where
  "choice_ok c = comparable (fst (snd c))"

definition choice_key :: "strategy_choice \<Rightarrow> (nat \<times> rat) \<times> string" where
  "choice_key c = (num_rank (fnum (fst (snd c))), join_strategy_value (fst c))"

lemma choice_less_key:
  assumes "choice_ok a" and "choice_ok b"
  shows "choice_less a b \<longleftrightarrow> choice_key a < choice_key b"
proof -
  have n: "fnum (fst (snd a)) \<noteq> NNaN" "fnum (fst (snd b)) \<noteq> NNaN"
    using assms by (simp_all add: choice_ok_def fnum_comparable)
  have pair: "(x, y) < (x', y') \<longleftrightarrow> x < x' \<or> x = x' \<and> y < y'"
    for x x' :: "nat \<times> rat" and y y' :: string by (auto simp: order.strict_iff_order)
  show ?thesis
    unfolding choice_less_def feq_def flt_def choice_key_def num_lt_rank [OF n] num_eq_rank [OF n] pair
    by auto
qed

lemma first_min_in: "first_min lt b xs \<in> insert b (set xs)"
proof (induction xs arbitrary: b)
  case (Cons x xs)
  from Cons.IH [of "if lt x b then x else b"] show ?case by (auto split: if_splits)
qed simp

lemma first_min_least:
  assumes "choice_ok b" and "\<forall>x \<in> set xs. choice_ok x" and "x \<in> insert b (set xs)"
  shows "choice_key (first_min choice_less b xs) \<le> choice_key x"
  using assms
proof (induction xs arbitrary: b x)
  case Nil
  then show ?case by simp
next
  case (Cons y ys)
  let ?b = "if choice_less y b then y else b"
  let ?m = "first_min choice_less ?b ys"
  have ok: "choice_ok ?b" "choice_ok b" "choice_ok y" using Cons.prems by auto
  have least: "choice_key ?m \<le> choice_key z" if "z \<in> insert ?b (set ys)" for z
    using Cons.IH [OF ok(1) _ that] Cons.prems(2) by simp
  have "choice_key ?b \<le> choice_key b" "choice_key ?b \<le> choice_key y"
    using choice_less_key [OF ok(3,2)] by auto
  moreover have "choice_key ?m \<le> choice_key ?b" using least by blast
  ultimately have "choice_key ?m \<le> choice_key b" "choice_key ?m \<le> choice_key y" by auto
  moreover have "\<forall>z \<in> set ys. choice_key ?m \<le> choice_key z" using least by blast
  ultimately show ?case using Cons.prems(3) by auto
qed

section \<open>Join keys\<close>

text \<open>An equality of a column of one input with a column of the other.\<close>

definition equates :: "string set \<Rightarrow> string set \<Rightarrow> expr \<Rightarrow> string \<times> string \<Rightarrow> bool" where
  "equates ls rs e k \<longleftrightarrow>
     (\<exists>a b ti x y. e = Binary EQUAL a b ti \<and> is_column a \<and> is_column b
        \<and> (x, y) \<in> {(a, b), (b, a)}
        \<and> casefold (column_source x) \<in> ls \<and> casefold (column_source y) \<in> rs
        \<and> k = (casefold (qualified_name (column_name x) (column_source x)),
               casefold (qualified_name (column_name y) (column_source y))))"

lemma join_key_pairs_equate:
  "k \<in> set (join_key_pairs ls rs e) \<Longrightarrow> \<exists>c \<in> set (split_conjuncts e). equates ls rs c k"
proof (induction ls rs e rule: join_key_pairs.induct)
  case (1 ls rs op l r ti)
  show ?case
  proof (cases "op = OP_AND")
    case True
    with 1 show ?thesis by auto
  next
    case False
    with "1.prems" have "equates ls rs (Binary op l r ti) k"
      unfolding equates_def by (auto simp: Let_def split: if_splits)
    moreover have "split_conjuncts (Binary op l r ti) = [Binary op l r ti]"
      using False by (cases op) auto
    ultimately show ?thesis by simp
  qed
qed simp_all

section \<open>Decisions\<close>

text \<open>What must hold of the inputs for a strategy to be applicable.\<close>

definition applicable ::
    "cost_model \<Rightarrow> plan_estimate \<Rightarrow> plan_estimate \<Rightarrow> join_decision \<Rightarrow> join_strategy \<Rightarrow> bool" where
  "applicable cm left right d strategy \<longleftrightarrow>
     (case strategy of
        J_REUSE \<Rightarrow> compatible (e_distribution left) (e_distribution right)
                     (jd_left_keys d) (jd_right_keys d)
      | J_REPARTITION_RIGHT \<Rightarrow> partitioned_on (e_distribution left) (jd_left_keys d)
      | J_REPARTITION_LEFT \<Rightarrow> partitioned_on (e_distribution right) (jd_right_keys d)
      | J_REPARTITION_BOTH \<Rightarrow> True
      | J_BROADCAST \<Rightarrow>
          fle (e_size_bytes (if jd_build_side d = ''left'' then left else right))
            (fmin (cm_broadcast_threshold_bytes cm) (cm_memory_budget_bytes cm)))"

lemma candidates_applicable:
  assumes "strategy_candidates rt cm left right lks rks side = Inr cs" and "(s, n, why) \<in> set cs"
    and "jd_left_keys d = lks" and "jd_right_keys d = rks" and "jd_build_side d = side"
  shows "applicable cm left right d s"
  using assms
  by (auto simp: strategy_candidates_def applicable_def bindR_eq_Inr Let_def split: if_splits)

text \<open>How much data a strategy moves over the network.\<close>

definition moved_bytes ::
    "'x py_runtime_scheme \<Rightarrow> cost_model \<Rightarrow> plan_estimate \<Rightarrow> plan_estimate \<Rightarrow> string \<Rightarrow> join_strategy \<Rightarrow> pyfloat" where
  "moved_bytes rt cm left right side strategy =
     (case strategy of
        J_REUSE \<Rightarrow> Fin 0
      | J_REPARTITION_RIGHT \<Rightarrow> e_size_bytes right
      | J_REPARTITION_LEFT \<Rightarrow> e_size_bytes left
      | J_REPARTITION_BOTH \<Rightarrow> fadd rt (e_size_bytes left) (e_size_bytes right)
      | J_BROADCAST \<Rightarrow>
          fmul rt (e_size_bytes (if side = ''left'' then left else right))
            (rt_float_of_rat rt (of_int (max (cm_worker_count cm - 1) 0))))"

lemma float_of_int_Inr: "float_of_int rt i = Inr f \<Longrightarrow> f = rt_float_of_rat rt (of_int i)"
  by (auto simp: float_of_int_def split: pyfloat.splits)

lemma candidates_moved:
  assumes "strategy_candidates rt cm left right lks rks side = Inr cs" and "(s, n, why) \<in> set cs"
  shows "n = moved_bytes rt cm left right side s"
  using assms
  by (auto simp: strategy_candidates_def moved_bytes_def bindR_eq_Inr Let_def
      dest!: float_of_int_Inr split: if_splits)

lemma applicable_candidate:
  assumes "strategy_candidates rt cm left right lks rks side = Inr cs" and "applicable cm left right d s"
    and "jd_left_keys d = lks" and "jd_right_keys d = rks" and "jd_build_side d = side"
  shows "\<exists>why. (s, moved_bytes rt cm left right side s, why) \<in> set cs"
  using assms
  by (cases s)
     (auto simp: strategy_candidates_def applicable_def moved_bytes_def bindR_eq_Inr Let_def
       dest!: float_of_int_Inr split: if_splits)

lemma join_strategy_least:
  assumes "join_strategy_of rt cm left right lks rks side = Inr (s, n, why)"
    and keys: "jd_left_keys d = lks" "jd_right_keys d = rks" "jd_build_side d = side"
    and numbers: "\<And>s'. comparable (moved_bytes rt cm left right side s')"
  shows "applicable cm left right d s \<and> n = moved_bytes rt cm left right side s
    \<and> (\<forall>s'. applicable cm left right d s' \<longrightarrow> \<not> flt (moved_bytes rt cm left right side s') n)"
proof -
  obtain c rest where cs: "strategy_candidates rt cm left right lks rks side = Inr (c # rest)"
    and best: "first_min choice_less c rest = (s, n, why)"
  proof -
    obtain cs where "strategy_candidates rt cm left right lks rks side = Inr cs"
      using assms(1) by (auto simp: join_strategy_of_def bindR_eq_Inr)
    with assms(1) that show thesis by (cases cs) (auto simp: join_strategy_of_def)
  qed
  have here: "(s, n, why) \<in> set (c # rest)"
    using first_min_in [of choice_less c rest] best by simp
  have ok: "choice_ok x" if "x \<in> set (c # rest)" for x
    using candidates_moved [OF cs, of "fst x" "fst (snd x)" "snd (snd x)"] that numbers
    by (simp add: choice_ok_def)
  have "\<not> flt (moved_bytes rt cm left right side s') n" if app: "applicable cm left right d s'" for s'
  proof -
    obtain why' where x: "(s', moved_bytes rt cm left right side s', why') \<in> set (c # rest)"
      using applicable_candidate [OF cs app keys] by blast
    then have "choice_key (s, n, why) \<le> choice_key (s', moved_bytes rt cm left right side s', why')"
      using first_min_least [of c rest] ok best by simp
    then have "num_rank (fnum n) \<le> num_rank (fnum (moved_bytes rt cm left right side s'))"
      by (auto simp: choice_key_def)
    then show ?thesis
      using ok [OF here] ok [OF x]
      by (auto simp: flt_def num_lt_rank choice_ok_def fnum_comparable)
  qed
  with candidates_applicable [OF cs here keys] candidates_moved [OF cs here] show ?thesis by simp
qed

text \<open>
  C25.  The decision for a join is sound and cheapest.  Its key pairs come from equality
  conjuncts of the join condition, each between a column of the left input and a column of the
  right input.  The strategy is applicable: inputs are reused only if they are co-partitioned on
  the keys, one side stays in place only if it is already partitioned on its keys, and a build
  side is broadcast only if it fits both the broadcast threshold and the memory budget.  And no
  applicable strategy moves fewer bytes, provided no estimate is \<open>nan\<close>.
\<close>

theorem join_decision_sound:
  assumes "estimate rt cm l = Inr left" and "estimate rt cm r = Inr right"
    and "estimate_join rt cm (Join i l r jt e s inlim b) = Inr (est, d)"
    and "\<And>s'. comparable (moved_bytes rt cm left right (jd_build_side d) s')"
  shows "jd_node_id d = i
    \<and> length (jd_left_keys d) = length (jd_right_keys d)
    \<and> (\<forall>k \<in> set (zip (jd_left_keys d) (jd_right_keys d)).
         \<exists>c \<in> set (split_conjuncts e). equates (plan_sources l) (plan_sources r) c k)
    \<and> jd_build_side d = (if fle (e_size_bytes left) (e_size_bytes right) then ''left'' else ''right'')
    \<and> applicable cm left right d (jd_strategy d)
    \<and> c_network (jd_cost d) = moved_bytes rt cm left right (jd_build_side d) (jd_strategy d)
    \<and> (\<forall>s'. applicable cm left right d s' \<longrightarrow>
         \<not> flt (moved_bytes rt cm left right (jd_build_side d) s') (c_network (jd_cost d)))"
proof -
  obtain lks rks where ks: "join_keys l r e = (lks, rks)" by fastforce
  obtain rows strategy n why where
    str: "join_strategy_of rt cm left right lks rks (build_side_of left right) = Inr (strategy, n, why)"
    and d: "jd_node_id d = i" "jd_left_keys d = lks" "jd_right_keys d = rks"
      "jd_build_side d = build_side_of left right" "jd_strategy d = strategy"
      "c_network (jd_cost d) = n"
    using assms(1-3) ks
    by (auto simp: join_estimate_def Let_def bindR_eq_Inr split_beta)
  note least = join_strategy_least [OF str d(2-4)] assms(4) [unfolded d(4)]
  have "zip lks rks = join_key_pairs (plan_sources l) (plan_sources r) e"
    using ks by (auto simp: join_keys_def Let_def zip_map_fst_snd)
  moreover have "length lks = length rks" using ks by (auto simp: join_keys_def Let_def)
  ultimately show ?thesis
    using least d join_key_pairs_equate by (auto simp: build_side_of_def)
qed

text \<open>A runtime whose floats are exact, and a catalog of two small tables.\<close>

fun exact_op :: "binary_operator \<Rightarrow> pyfloat \<Rightarrow> pyfloat \<Rightarrow> pyfloat" where
  "exact_op ADD (Fin a) (Fin b) = Fin (a + b)"
| "exact_op SUBTRACT (Fin a) (Fin b) = Fin (a - b)"
| "exact_op MULTIPLY (Fin a) (Fin b) = Fin (a * b)"
| "exact_op DIVIDE (Fin a) (Fin b) = Fin (a / b)"
| "exact_op _ _ _ = NaN"

definition sample_rt :: cost_runtime where
  "sample_rt =
     \<lparr>rt_float_repr = (\<lambda>_. []), rt_bytes_repr = (\<lambda>_. []), rt_date_str = (\<lambda>_. []),
      rt_ts_str = (\<lambda>_. []), rt_parse_int = (\<lambda>_. None), rt_parse_float = (\<lambda>_. None),
      rt_parse_decimal = (\<lambda>_. None), rt_parse_date = (\<lambda>_. None), rt_parse_ts = (\<lambda>_. None),
      rt_float_of_rat = Fin, rt_float_op = exact_op, rt_float_neg = (\<lambda>f. f),
      rt_decimal_op = (\<lambda>_ _ _. None), rt_decimal_plus = (\<lambda>d. d), rt_round_float = (\<lambda>f _. VFloat f),
      rt_round_decimal = (\<lambda>d _. VDecimal (fst d) (snd d)), rt_upper = (\<lambda>s. s), rt_lower = (\<lambda>s. s),
      cr_log2 = (\<lambda>f. f), cr_sum = foldl (exact_op ADD) (Fin 0),
      cr_fixed2 = (\<lambda>_. [])\<rparr>"

definition cost_schema :: "string \<Rightarrow> schema" where
  "cost_schema c = \<lparr>sc_fields = [plain_field c T_INT64 False], sc_metadata = []\<rparr>"

definition sample_table :: "string \<Rightarrow> string \<Rightarrow> int \<Rightarrow> partition_strategy \<Rightarrow> catalog_table" where
  "sample_table name c rows strategy =
     \<lparr>ct_namespace = ''n'', ct_name = name, ct_schema = cost_schema c, ct_format = F_PARQUET,
      ct_location = ''l'', ct_partition_strategy = strategy, ct_partition_keys = [c],
      ct_partitions = [],
      ct_statistics = Some \<lparr>s_row_count = Some rows, s_size_bytes = Some (8 * rows),
        s_columns = [(c, \<lparr>cs_column_name = c, cs_null_count = Some 0,
          cs_distinct_count = Some rows, cs_min_value = JInt 0, cs_max_value = JInt rows,
          cs_average_size_bytes = Some (Fin 8)\<rparr>)], s_source = ''import''\<rparr>\<rparr>"

definition sample_model :: cost_model where
  "sample_model =
     \<lparr>cm_catalog = [(''t'', sample_table ''t'' ''a'' 100 P_HASH),
        (''u'', sample_table ''u'' ''b'' 10 P_ROUND_ROBIN), (''z'', sample_table ''z'' ''c'' 0 P_SINGLE),
        (''v'', sample_table ''v'' ''d'' 20 P_HASH)],
      cm_worker_count = 2, cm_memory_budget_bytes = Fin 67108864,
      cm_broadcast_threshold_bytes = Fin 10485760\<rparr>"

definition cost_column :: "string \<Rightarrow> string \<Rightarrow> expr" where
  "cost_column c a = Column c a (TypeInfo T_INT64 False)"

definition sample_left :: plan where
  "sample_left = Scan ''s1'' ''t'' ''t'' (cost_schema ''a'')"

definition sample_right :: plan where
  "sample_right = Scan ''s2'' ''u'' ''u'' (cost_schema ''b'')"

definition sample_condition :: expr where
  "sample_condition =
     Binary EQUAL (cost_column ''a'' ''t'') (cost_column ''b'' ''u'') (TypeInfo T_BOOLEAN True)"

definition sample_join_plan :: plan where
  "sample_join_plan =
     Join ''j'' sample_left sample_right ''inner'' sample_condition
       \<lparr>sc_fields = [plain_field ''t.a'' T_INT64 False, plain_field ''u.b'' T_INT64 False],
        sc_metadata = []\<rparr> None ''right''"

lemma sample_estimates:
  "\<exists>left right est d. estimate sample_rt sample_model sample_left = Inr left
    \<and> estimate sample_rt sample_model sample_right = Inr right
    \<and> e_size_bytes left = Fin 800 \<and> e_size_bytes right = Fin 80
    \<and> estimate_join sample_rt sample_model sample_join_plan = Inr (est, d)
    \<and> jd_strategy d = J_BROADCAST"
proof -
  have "(case estimate sample_rt sample_model sample_left of Inl e \<Rightarrow> False
    | Inr left \<Rightarrow> case estimate sample_rt sample_model sample_right of Inl e \<Rightarrow> False
    | Inr right \<Rightarrow> e_size_bytes left = Fin 800 \<and> e_size_bytes right = Fin 80
        \<and> (case estimate_join sample_rt sample_model sample_join_plan of Inl e \<Rightarrow> False
           | Inr (est, d) \<Rightarrow> jd_strategy d = J_BROADCAST))"
    by code_simp
  then show ?thesis by (auto split: sum.splits)
qed

lemma join_decision_sound_witness:
  "\<exists>est d. estimate_join sample_rt sample_model sample_join_plan = Inr (est, d)
    \<and> jd_strategy d = J_BROADCAST
    \<and> (\<forall>k \<in> set (zip (jd_left_keys d) (jd_right_keys d)).
         \<exists>c \<in> set (split_conjuncts sample_condition).
           equates (plan_sources sample_left) (plan_sources sample_right) c k)"
proof -
  obtain left right est d where e: "estimate sample_rt sample_model sample_left = Inr left"
      "estimate sample_rt sample_model sample_right = Inr right"
      "estimate_join sample_rt sample_model sample_join_plan = Inr (est, d)"
    and size: "e_size_bytes left = Fin 800" "e_size_bytes right = Fin 80"
    and b: "jd_strategy d = J_BROADCAST"
    using sample_estimates by blast
  have "comparable (moved_bytes sample_rt sample_model left right side s)" for side s
    by (cases s) (simp_all add: moved_bytes_def size comparable_def sample_rt_def fadd_def fmul_def)
  from join_decision_sound [OF e(1,2) e(3) [unfolded sample_join_plan_def] this]
  show ?thesis using e(3) b by blast
qed

section \<open>An unguarded division\<close>

text \<open>
  Comparing two columns that both hold no value divides by the larger of two distinct counts
  that are zero: every other division of the model has a divisor of at least one or is skipped
  for an empty input.
\<close>

lemma zero_ndv_division:
  assumes "column_estimate_of a est = Some x" and "column_estimate_of b est = Some y"
    and "ce_distinct_count x = Fin 0" and "ce_distinct_count y = Fin 0"
    and "is_column a" and "is_column b" and "a \<noteq> b"
  shows "selectivity rt est (Binary EQUAL a b ti) = Inl PyZeroDivisionError"
proof -
  obtain n s t where a: "a = Column n s t" using assms(5) by (cases a) auto
  obtain n' s' t' where b: "b = Column n' s' t'" using assms(6) by (cases b) auto
  have "remdups [a, b] = [a, b]" using assms(7) by simp
  moreover have "expression_columns (Binary EQUAL a b ti) = [a, b]"
    unfolding a b expression_columns_def
    by (simp add: walk_expression.simps [of "Binary _ _ _ _"] walk_expression.simps [of "Column _ _ _"])
  ultimately show ?thesis using assms
    by (simp add: comparison_selectivity_def column_literal_def a b Let_def fdiv_def fmax_def
        flt_def fnum_def is_zero_def)
qed

lemma scan_column_zero:
  assumes "rt_float_of_rat rt 0 = Fin 0"
    and "dict_get raw (casefold (sf_name f)) = Some st" and "cs_distinct_count st = Some 0"
    and "scan_column rt name rows raw f = Inr c"
  shows "ce_distinct_count c = Fin 0"
proof -
  have "float_of_int rt 0 = Inr (Fin 0)" using assms(1) by (simp add: float_of_int_def)
  moreover have "fmin (Fin 0) (fmax v (Fin 0)) = Fin 0" for v
    by (cases v) (simp_all add: fmin_def fmax_def flt_def fnum_def)
  ultimately show ?thesis using assms(2-4)
    by (auto simp: scan_column_def Let_def bindR_eq_Inr split_beta split: option.splits)
qed

lemma dict_update_get:
  "dict_get (dict_update d e) k = (case map_of (rev e) k of Some v \<Rightarrow> Some v | None \<Rightarrow> dict_get d k)"
proof (induction e rule: rev_induct)
  case Nil
  then show ?case by (simp add: dict_update_def)
next
  case (snoc x xs)
  then show ?case by (cases x) (simp add: dict_update_def)
qed

text \<open>
  The statistics of the table bound to \<open>name\<close> say that the column \<open>x\<close> holds no value: every
  field it may resolve to has a recorded distinct count of zero.
\<close>

definition no_values :: "cost_model \<Rightarrow> string \<Rightarrow> schema \<Rightarrow> string \<Rightarrow> bool" where
  "no_values cm name s x \<longleftrightarrow>
     (\<exists>table stats raw.
        dict_get (cm_catalog cm) (casefold name) = Some table \<and> ct_statistics table = Some stats
        \<and> dict_get (casefold_keys (s_columns stats)) (casefold x) = Some raw
        \<and> cs_distinct_count raw = Some 0)
     \<and> casefold x \<in> casefold ` sf_name ` set (sc_fields s)"

lemma mapR_pairs:
  assumes "mapR (\<lambda>f. bindR (g f) (\<lambda>c. Inr (h f, c))) fs = Inr ps"
  shows "(k, c) \<in> set ps \<longleftrightarrow> (\<exists>f \<in> set fs. k = h f \<and> g f = Inr c)"
  using assms by (induction fs arbitrary: ps) (auto simp: bindR_eq_Inr)

lemma mapR_pairs_total:
  assumes "mapR (\<lambda>f. bindR (g f) (\<lambda>c. Inr (h f, c))) fs = Inr ps" and "f \<in> set fs"
  shows "\<exists>c. g f = Inr c \<and> (h f, c) \<in> set ps"
  using assms by (induction fs arbitrary: ps) (auto simp: bindR_eq_Inr)

lemma scan_estimates:
  assumes "estimate_scan rt cm name alias s = Inr est"
    and "dict_get (cm_catalog cm) (casefold name) = Some table" and "ct_statistics table = Some stats"
  obtains rows estimates where
    "mapR (\<lambda>f. bindR (scan_column rt name rows (casefold_keys (s_columns stats)) f) (\<lambda>c.
       Inr (casefold (alias @ ''.'' @ sf_name f), c))) (sc_fields s) = Inr estimates"
    and "e_columns est = dict_update [] estimates"
  using assms by (auto simp: estimate_scan_def Let_def bindR_eq_Inr split_beta)

lemma scan_no_values:
  assumes rt: "rt_float_of_rat rt 0 = Fin 0"
    and scan: "estimate_scan rt cm name alias s = Inr est"
    and none: "no_values cm name s x" and "alias \<noteq> []"
  shows "\<exists>c. column_estimate_of (Column x alias ti) est = Some c \<and> ce_distinct_count c = Fin 0"
proof -
  obtain table stats raw where t: "dict_get (cm_catalog cm) (casefold name) = Some table"
      "ct_statistics table = Some stats"
      "dict_get (casefold_keys (s_columns stats)) (casefold x) = Some raw"
      "cs_distinct_count raw = Some 0"
    using none by (auto simp: no_values_def)
  obtain rows estimates where
    est: "mapR (\<lambda>f. bindR (scan_column rt name rows (casefold_keys (s_columns stats)) f) (\<lambda>c.
            Inr (casefold (alias @ ''.'' @ sf_name f), c))) (sc_fields s) = Inr estimates"
    and cols: "e_columns est = dict_update [] estimates"
    by (rule scan_estimates [OF scan t(1,2)])
  let ?k = "casefold (alias @ ''.'' @ x)"
  have key: "?k = casefold (alias @ ''.'' @ y) \<longleftrightarrow> casefold x = casefold y" for y
    by (simp add: casefold_def)
  have zero: "ce_distinct_count c = Fin 0" if c: "(?k, c) \<in> set estimates" for c
  proof -
    obtain f where f: "?k = casefold (alias @ ''.'' @ sf_name f)"
      "scan_column rt name rows (casefold_keys (s_columns stats)) f = Inr c"
      using c mapR_pairs [OF est] by blast
    have "dict_get (casefold_keys (s_columns stats)) (casefold (sf_name f)) = Some raw"
      using t(3) key [THEN iffD1, OF f(1)] by (simp only:)
    from scan_column_zero [OF rt this t(4) f(2)] show ?thesis .
  qed
  obtain f where f: "f \<in> set (sc_fields s)" "casefold x = casefold (sf_name f)"
    using none by (auto simp: no_values_def)
  obtain c where "(casefold (alias @ ''.'' @ sf_name f), c) \<in> set estimates"
    using mapR_pairs_total [OF est f(1)] by blast
  then have "(?k, c) \<in> set estimates" using key [THEN iffD2, OF f(2)] by (simp only:)
  then have "map_of (rev estimates) ?k \<noteq> None" unfolding map_of_eq_None_iff by (metis fst_conv image_eqI set_rev)
  then obtain c' where c': "map_of (rev estimates) ?k = Some c'" by blast
  then have "(?k, c') \<in> set estimates" using map_of_SomeD by fastforce
  with c' show ?thesis
    using zero \<open>alias \<noteq> []\<close>
    by (simp add: column_estimate_of_def cols dict_update_get qualified_name_def)
qed

text \<open>
  The cost model divides by zero on columns without values.  When the statistics of a table
  give two different columns a distinct count of zero, as they do for every column of an empty table and
  for every column that holds only \<open>NULL\<close>, a filter that compares the two columns for equality
  cannot be estimated: \<open>estimate\<close> raises \<open>ZeroDivisionError\<close> although the estimate of the scan
  succeeds, and with it the whole optimization fails.
\<close>

theorem filter_on_empty_columns_raises:
  assumes "rt_float_of_rat rt 0 = Fin 0"
    and "estimate rt cm (Scan i name alias s) = Inr est" and "alias \<noteq> []"
    and "no_values cm name s x" and "no_values cm name s y" and "x \<noteq> y"
  shows "estimate rt cm
      (Filter j (Scan i name alias s) (Binary EQUAL (Column x alias ti) (Column y alias ti') ti'') s ph)
    = Inl PyZeroDivisionError"
proof -
  have scan: "estimate_scan rt cm name alias s = Inr est" using assms(2) by simp
  obtain cx where x: "column_estimate_of (Column x alias ti) est = Some cx"
      "ce_distinct_count cx = Fin 0"
    using scan_no_values [OF assms(1) scan assms(4,3)] by blast
  obtain cy where y: "column_estimate_of (Column y alias ti') est = Some cy"
      "ce_distinct_count cy = Fin 0"
    using scan_no_values [OF assms(1) scan assms(5,3)] by blast
  have "selectivity rt est (Binary EQUAL (Column x alias ti) (Column y alias ti') ti'')
      = Inl PyZeroDivisionError"
    by (rule zero_ndv_division [OF x(1) y(1) x(2) y(2)]) (simp_all add: assms(6))
  with scan show ?thesis
    by (simp add: estimate_filter_def del: selectivity.simps)
qed

text \<open>A catalog with one empty table of two columns.\<close>

definition empty_column :: "string \<Rightarrow> column_statistics" where
  "empty_column c = \<lparr>cs_column_name = c, cs_null_count = Some 0, cs_distinct_count = Some 0,
     cs_min_value = JNull, cs_max_value = JNull, cs_average_size_bytes = Some (Fin 8)\<rparr>"

definition empty_schema :: schema where
  "empty_schema = \<lparr>sc_fields = [plain_field ''c'' T_INT64 False, plain_field ''e'' T_INT64 False], sc_metadata = []\<rparr>"

definition empty_table :: catalog_table where
  "empty_table = (sample_table ''z'' ''c'' 0 P_SINGLE)\<lparr>ct_schema := empty_schema,
     ct_statistics := Some \<lparr>s_row_count = Some 0, s_size_bytes = Some 0,
       s_columns = [(''c'', empty_column ''c''), (''e'', empty_column ''e'')], s_source = ''import''\<rparr>\<rparr>"

definition empty_model :: cost_model where
  "empty_model = sample_model\<lparr>cm_catalog := [(''z'', empty_table)]\<rparr>"

lemma filter_on_empty_columns_raises_witness:
  "estimate sample_rt empty_model
     (Filter ''f'' (Scan ''s'' ''z'' ''z'' empty_schema)
        (Binary EQUAL (cost_column ''c'' ''z'') (cost_column ''e'' ''z'') (TypeInfo T_BOOLEAN True))
        empty_schema ''where'')
   = Inl PyZeroDivisionError"
proof -
  have "is_ok (estimate sample_rt empty_model (Scan ''s'' ''z'' ''z'' empty_schema))"
    by code_simp
  then obtain est where "estimate sample_rt empty_model (Scan ''s'' ''z'' ''z'' empty_schema) = Inr est"
    by (auto simp: is_ok_iff)
  moreover have "no_values empty_model ''z'' empty_schema x" if x: "x = ''c'' \<or> x = ''e''" for x
  proof -
    have "dict_get (cm_catalog empty_model) (casefold ''z'') = Some empty_table"
      by (simp add: empty_model_def dict_get_def casefold_def lower_char_def)
    moreover have "dict_get (casefold_keys (s_columns (the (ct_statistics empty_table)))) (casefold x)
        = Some (empty_column x)"
      using x by (auto simp: empty_table_def casefold_keys_def dict_get_def dict_set_def casefold_def lower_char_def)
    ultimately show ?thesis
      using x by (fastforce simp: no_values_def empty_table_def empty_schema_def empty_column_def plain_field_def)
  qed
  moreover have "rt_float_of_rat sample_rt 0 = Fin 0" by (simp add: sample_rt_def)
  ultimately show ?thesis
    unfolding cost_column_def by (intro filter_on_empty_columns_raises) simp_all
qed

end
