(* ===== verification/CboLaws.thy ===== *)
theory CboLaws
  imports Cbo CostLaws
begin

text \<open>
  Reordering a region of inner joins keeps its inputs and its predicates.  A plan for a mask
  joins exactly the leaves of the mask and applies exactly the predicates whose sources those
  leaves provide, each at a join it connects.  The law needs that no predicate is confined to one
  leaf; the last section shows a region where one is, and the code drops it.
\<close>

unbundle bit_operations_syntax

section \<open>Regions\<close>

lemma flatten_leaf: "p \<in> set (fst (flatten q)) \<Longrightarrow> flatten p = ([p], [])"
  by (induction q rule: flatten.induct) (auto split: if_splits)

lemma split_conjuncts_atom: "c \<in> set (split_conjuncts e) \<Longrightarrow> split_conjuncts c = [c]"
  by (induction e rule: split_conjuncts.induct) auto

lemma flatten_conjunct: "c \<in> set (snd (flatten q)) \<Longrightarrow> split_conjuncts c = [c]"
  by (induction q rule: flatten.induct) (auto dest: split_conjuncts_atom split: if_splits)

lemma flatten_sources: "plan_sources q = \<Union> (plan_sources ` set (fst (flatten q)))"
  by (induction q rule: flatten.induct) auto

lemma flatten_finite_sources: "finite (plan_sources q)"
  by (induction q) auto

lemma split_conjuncts_foldl:
  "split_conjuncts (foldl (\<lambda>acc x. Binary OP_AND acc x (expr_type acc)) e es)
     = split_conjuncts e @ concat (map split_conjuncts es)"
  by (induction es arbitrary: e) auto

lemma split_conjuncts_combine:
  assumes "combine_conjuncts es = Inr e" and "\<forall>c \<in> set es. split_conjuncts c = [c]"
  shows "split_conjuncts e = es"
proof -
  obtain x xs where es: "es = x # xs"
    and e: "e = foldl (\<lambda>acc x. Binary OP_AND acc x (expr_type acc)) x xs"
    using assms(1) by (auto simp: combine_conjuncts_def split: list.splits)
  have "\<forall>c \<in> set ys. split_conjuncts c = [c] \<Longrightarrow> concat (map split_conjuncts ys) = ys" for ys
    by (induction ys) auto
  then have "concat (map split_conjuncts xs) = xs" using assms(2) es by simp
  with assms(2) show ?thesis by (simp add: es e split_conjuncts_foldl)
qed

lemma deterministic_and:
  "is_deterministic (Binary OP_AND a b ti) \<longleftrightarrow> is_deterministic a \<and> is_deterministic b"
  unfolding is_deterministic_def by (subst walk_expression.simps) simp

lemma deterministic_combine:
  assumes "combine_conjuncts es = Inr e" and "\<forall>c \<in> set es. is_deterministic c"
  shows "is_deterministic e"
proof -
  have "is_deterministic (foldl (\<lambda>acc x. Binary OP_AND acc x (expr_type acc)) x xs)"
    if "is_deterministic x" "\<forall>c \<in> set xs. is_deterministic c" for x xs
    using that by (induction xs arbitrary: x) (auto simp: deterministic_and)
  then show ?thesis
    using assms by (auto simp: combine_conjuncts_def split: list.splits)
qed

section \<open>Masks\<close>

definition bits :: "nat \<Rightarrow> int \<Rightarrow> nat set" where
  "bits n m = {i. i < n \<and> bit m i}"

lemma bits_finite [simp]: "finite (bits n m)"
  by (simp add: bits_def)

lemma submasks_bits:
  "x \<in> set (submasks m s) \<Longrightarrow> \<forall>i. bit s i \<longrightarrow> bit m i \<Longrightarrow> bit x i \<Longrightarrow> bit m i"
proof (induction m s rule: submasks.induct)
  case (1 m left)
  from "1.prems" show ?case
    by (subst (asm) submasks.simps) (auto simp: bit_and_iff split: if_splits intro: "1.IH")
qed

lemma bits_split:
  assumes "\<forall>i. bit left i \<longrightarrow> bit m i"
  shows "bits n m = bits n left \<union> bits n (m XOR left)" and "bits n left \<inter> bits n (m XOR left) = {}"
  using assms by (auto simp: bits_def bit_xor_iff)

lemma bits_single: "i < n \<Longrightarrow> bits n (2 ^ i) = {i}"
  by (auto simp: bits_def bit_exp_iff)

lemma bits_full: "bits n (2 ^ n - 1) = {0..<n}"
  by (auto simp: bits_def bit_mask_iff simp flip: mask_eq_exp_minus_1)

section \<open>Plans of a mask\<close>

text \<open>Every predicate of the region is applied at a join it connects.\<close>

fun placed :: "plan \<Rightarrow> bool" where
  "placed (Join i l r jt e s inlim b) \<longleftrightarrow>
     (jt = ''inner'' \<and> is_deterministic e \<longrightarrow>
        placed l \<and> placed r
        \<and> (\<forall>c \<in> set (split_conjuncts e).
             expression_sources c \<subseteq> plan_sources l \<union> plan_sources r
             \<and> expression_sources c \<inter> plan_sources l \<noteq> {}
             \<and> expression_sources c \<inter> plan_sources r \<noteq> {}))"
| "placed p \<longleftrightarrow> True"

text \<open>The predicates that no single leaf provides the sources of.\<close>

definition connecting :: "plan list \<Rightarrow> expr list \<Rightarrow> expr list" where
  "connecting leaves predicates =
     filter (\<lambda>e. \<forall>p \<in> set leaves. \<not> expression_sources e \<subseteq> plan_sources p) predicates"

definition region_plan :: "plan list \<Rightarrow> expr list \<Rightarrow> int \<Rightarrow> plan \<Rightarrow> bool" where
  "region_plan leaves predicates m p \<longleftrightarrow>
     mset (fst (flatten p)) = image_mset ((!) leaves) (mset_set (bits (length leaves) m))
     \<and> mset (snd (flatten p))
         = mset (filter (\<lambda>e. expression_sources e \<subseteq> plan_sources p) (connecting leaves predicates))
     \<and> placed p"

text \<open>The region has disjoint leaves and deterministic predicates with sources.\<close>

definition region_ok :: "plan list \<Rightarrow> expr list \<Rightarrow> bool" where
  "region_ok leaves predicates \<longleftrightarrow>
     (\<forall>p \<in> set leaves. flatten p = ([p], []) \<and> placed p)
     \<and> (\<forall>i j. i < j \<longrightarrow> j < length leaves \<longrightarrow>
          plan_sources (leaves ! i) \<inter> plan_sources (leaves ! j) = {})
     \<and> (\<forall>e \<in> set predicates. split_conjuncts e = [e] \<and> is_deterministic e
          \<and> expression_sources e \<noteq> {})"

lemma region_plan_sources:
  assumes "region_plan leaves predicates m p"
  shows "plan_sources p = (\<Union>i \<in> bits (length leaves) m. plan_sources (leaves ! i))"
proof -
  have "set_mset (mset (fst (flatten p)))
      = set_mset (image_mset ((!) leaves) (mset_set (bits (length leaves) m)))"
    using assms by (simp only: region_plan_def)
  then have "set (fst (flatten p)) = (!) leaves ` bits (length leaves) m" by simp
  then show ?thesis unfolding flatten_sources [of p] by simp
qed

lemma mset_filter_cases:
  assumes "\<forall>e \<in> set es. (S e \<longleftrightarrow> P e \<or> Q e \<or> R e) \<and> \<not> (P e \<and> Q e) \<and> \<not> (P e \<and> R e) \<and> \<not> (Q e \<and> R e)"
  shows "mset (filter S es) = mset (filter P es) + mset (filter Q es) + mset (filter R es)"
  using assms by (induction es) auto

lemma filter_split:
  assumes "A \<inter> B = {}" and "\<forall>e \<in> set es. src e \<noteq> {}"
  shows "mset (filter (\<lambda>e. src e \<subseteq> A \<union> B) es)
    = mset (filter (\<lambda>e. src e \<subseteq> A) es) + mset (filter (\<lambda>e. src e \<subseteq> B) es)
      + mset (filter (\<lambda>e. src e \<subseteq> A \<union> B \<and> src e \<inter> A \<noteq> {} \<and> src e \<inter> B \<noteq> {}) es)"
proof (rule mset_filter_cases, intro ballI)
  fix e assume "e \<in> set es"
  with assms show "(src e \<subseteq> A \<union> B \<longleftrightarrow> src e \<subseteq> A \<or> src e \<subseteq> B
        \<or> src e \<subseteq> A \<union> B \<and> src e \<inter> A \<noteq> {} \<and> src e \<inter> B \<noteq> {})
      \<and> \<not> (src e \<subseteq> A \<and> src e \<subseteq> B)
      \<and> \<not> (src e \<subseteq> A \<and> src e \<subseteq> A \<union> B \<and> src e \<inter> A \<noteq> {} \<and> src e \<inter> B \<noteq> {})
      \<and> \<not> (src e \<subseteq> B \<and> src e \<subseteq> A \<union> B \<and> src e \<inter> A \<noteq> {} \<and> src e \<inter> B \<noteq> {})"
    by blast
qed

text \<open>A confined predicate never crosses a join of two disjoint sets of leaves.\<close>

lemma crossing_connecting:
  assumes l: "region_plan leaves predicates a l" and r: "region_plan leaves predicates b r"
    and cover: "\<And>i j. i \<in> bits (length leaves) a \<Longrightarrow> j \<in> bits (length leaves) b \<Longrightarrow>
        plan_sources (leaves ! i) \<inter> plan_sources (leaves ! j) = {}"
    and disjoint: "\<And>i j. i < j \<Longrightarrow> j < length leaves \<Longrightarrow>
        plan_sources (leaves ! i) \<inter> plan_sources (leaves ! j) = {}"
  shows "crossing_predicates predicates l r = crossing_predicates (connecting leaves predicates) l r"
proof -
  have "\<not> expression_sources e \<subseteq> plan_sources p"
    if e: "expression_sources e \<inter> plan_sources l \<noteq> {}" "expression_sources e \<inter> plan_sources r \<noteq> {}"
      and p: "p \<in> set leaves" for e p
  proof
    assume sub: "expression_sources e \<subseteq> plan_sources p"
    obtain k where k: "k < length leaves" "p = leaves ! k" using p by (auto simp: in_set_conv_nth)
    obtain i where i: "i \<in> bits (length leaves) a" "plan_sources (leaves ! i) \<inter> plan_sources p \<noteq> {}"
      using e(1) sub unfolding region_plan_sources [OF l] by blast
    obtain j where j: "j \<in> bits (length leaves) b" "plan_sources (leaves ! j) \<inter> plan_sources p \<noteq> {}"
      using e(2) sub unfolding region_plan_sources [OF r] by blast
    have "i = k" "j = k"
      using i j k disjoint unfolding bits_def by (metis (no_types, lifting) Int_commute linorder_neqE_nat mem_Collect_eq)+
    then show False using cover [OF i(1) j(1)] i(2) k(2) by simp
  qed
  then show ?thesis
    unfolding crossing_predicates_def connecting_def filter_filter
    by (intro filter_cong refl) blast
qed

lemma region_plan_join:
  assumes ok: "region_ok leaves predicates"
    and l: "region_plan leaves predicates left l" and r: "region_plan leaves predicates (m XOR left) r"
    and sub: "\<forall>i. bit left i \<longrightarrow> bit m i"
    and cond: "combine_conjuncts (crossing_predicates predicates l r) = Inr e"
  shows "region_plan leaves predicates m (Join i l r ''inner'' e s None b)"
proof -
  let ?n = "length leaves"
  let ?c = "crossing_predicates predicates l r"
  have atoms: "\<forall>c \<in> set ?c. split_conjuncts c = [c]" and det: "\<forall>c \<in> set ?c. is_deterministic c"
    using ok by (auto simp: region_ok_def crossing_predicates_def)
  note conj = split_conjuncts_combine [OF cond atoms] and dete = deterministic_combine [OF cond det]
  have apart: "plan_sources (leaves ! i) \<inter> plan_sources (leaves ! j) = {}"
    if "i \<in> bits ?n left" "j \<in> bits ?n (m XOR left)" for i j
  proof -
    have "i \<noteq> j" "i < ?n" "j < ?n"
      using that bits_split(2) [OF sub, of ?n] by (auto simp: bits_def)
    then show ?thesis
      using ok unfolding region_ok_def by (metis Int_commute linorder_neqE_nat)
  qed
  then have disjoint: "plan_sources l \<inter> plan_sources r = {}"
    unfolding region_plan_sources [OF l] region_plan_sources [OF r] by blast
  have crossing: "?c = crossing_predicates (connecting leaves predicates) l r"
    using crossing_connecting [OF l r apart] ok by (auto simp: region_ok_def)
  have leaves: "image_mset ((!) leaves) (mset_set (bits ?n m))
      = image_mset ((!) leaves) (mset_set (bits ?n left))
        + image_mset ((!) leaves) (mset_set (bits ?n (m XOR left)))"
    using bits_split(2) [OF sub, of ?n] by (simp add: bits_split(1) [OF sub, of ?n] mset_set_Union)
  have "\<forall>e \<in> set (connecting leaves predicates). expression_sources e \<noteq> {}"
    using ok by (auto simp: region_ok_def connecting_def)
  from filter_split [OF disjoint this] have preds:
    "mset (filter (\<lambda>e. expression_sources e \<subseteq> plan_sources l \<union> plan_sources r)
       (connecting leaves predicates))
     = mset (snd (flatten l)) + mset (snd (flatten r)) + mset ?c"
    using l r unfolding crossing by (simp add: region_plan_def crossing_predicates_def)
  have "\<forall>c \<in> set ?c. expression_sources c \<subseteq> plan_sources l \<union> plan_sources r
      \<and> expression_sources c \<inter> plan_sources l \<noteq> {} \<and> expression_sources c \<inter> plan_sources r \<noteq> {}"
    by (simp add: crossing_predicates_def)
  with l r leaves dete conj preds show ?thesis by (simp add: region_plan_def)
qed

section \<open>The table\<close>

definition table_ok :: "plan list \<Rightarrow> expr list \<Rightarrow> best_table \<Rightarrow> bool" where
  "table_ok leaves predicates best \<longleftrightarrow>
     (\<forall>m p est. dict_get best m = Some (p, est) \<longrightarrow> region_plan leaves predicates m p)"

lemma split_candidate_region:
  assumes ok: "region_ok leaves predicates" and best: "table_ok leaves predicates best"
    and sub: "\<forall>i. bit left i \<longrightarrow> bit m i"
    and cs: "split_candidate rt cm predicates best m left = Inr cs" and "(p, est) \<in> set cs"
  shows "region_plan leaves predicates m p"
proof -
  obtain l el r er where lr: "dict_get best left = Some (l, el)" "dict_get best (m XOR left) = Some (r, er)"
    using cs \<open>(p, est) \<in> set cs\<close>
    by (auto simp: split_candidate_def Let_def split: if_splits option.splits)
  then have p: "\<exists>e s. combine_conjuncts (crossing_predicates predicates l r) = Inr e
        \<and> make_join (cbo_join_id l r) l r ''inner'' e s None ''right'' = Inr p"
    using cs \<open>(p, est) \<in> set cs\<close>
    by (auto simp: split_candidate_def Let_def bindR_eq_Inr split: if_splits)
  from lr have "region_plan leaves predicates left l" "region_plan leaves predicates (m XOR left) r"
    using best by (auto simp: table_ok_def)
  from region_plan_join [OF ok this sub] p show ?thesis
    by (auto simp: make_join_def)
qed

lemma mapR_in: "mapR f xs = Inr ys \<Longrightarrow> y \<in> set ys \<Longrightarrow> \<exists>x \<in> set xs. f x = Inr y"
  by (induction xs arbitrary: ys) (auto simp: bindR_eq_Inr)

lemma case_list_Inr:
  "(case xs of [] \<Rightarrow> Inr a | c # r \<Rightarrow> Inr (f c r)) = Inr b \<Longrightarrow> b = (case xs of [] \<Rightarrow> a | c # r \<Rightarrow> f c r)"
  by (cases xs) auto

lemma mask_step_ok:
  assumes ok: "region_ok leaves predicates" and best: "table_ok leaves predicates best"
    and step: "mask_step rt cm predicates best idx = Inr best'"
  shows "table_ok leaves predicates best'"
proof -
  let ?m = "mask_of idx"
  let ?subs = "submasks ?m ((?m - 1) AND ?m)"
  obtain css where css: "mapR (split_candidate rt cm predicates best ?m) ?subs = Inr css"
    and res: "(case concat css of [] \<Rightarrow> Inr best
        | c # rest \<Rightarrow> Inr (dict_set best ?m (first_min (candidate_less rt) c rest))) = (Inr best' :: best_table res)"
    using step by (auto simp: mask_step_def Let_def bindR_eq_Inr)
  from res have best': "best' = (case concat css of [] \<Rightarrow> best
        | c # rest \<Rightarrow> dict_set best ?m (first_min (candidate_less rt) c rest))"
    by (rule case_list_Inr)
  have region: "region_plan leaves predicates ?m p" if "(p, est) \<in> set (concat css)" for p est
  proof -
    obtain cs where "cs \<in> set css" "(p, est) \<in> set cs" using \<open>(p, est) \<in> set (concat css)\<close> by auto
    moreover then obtain left where "left \<in> set ?subs"
      "split_candidate rt cm predicates best ?m left = Inr cs"
      using mapR_in [OF css] by blast
    moreover have "\<forall>i. bit left i \<longrightarrow> bit ?m i"
      using submasks_bits [OF \<open>left \<in> set ?subs\<close>] by (simp add: bit_and_iff)
    ultimately show ?thesis using split_candidate_region [OF ok best] by blast
  qed
  show ?thesis
  proof (cases "concat css")
    case Nil
    then show ?thesis using best unfolding best' by (simp only: list.case)
  next
    case (Cons c rest)
    obtain p est where f: "first_min (candidate_less rt) c rest = (p, est)" by fastforce
    then have "(p, est) \<in> set (concat css)"
      using first_min_in [of "candidate_less rt" c rest] Cons by simp
    then have "region_plan leaves predicates ?m p" by (rule region)
    then show ?thesis using best unfolding best' Cons list.case f by (simp add: table_ok_def)
  qed
qed

lemma initial_best_ok:
  assumes ok: "region_ok leaves predicates" and init: "initial_best rt cm leaves = Inr best"
  shows "table_ok leaves predicates best"
proof -
  obtain entries where
    es: "mapR (\<lambda>(i, leaf). bindR (estimate rt cm leaf) (\<lambda>est. Inr (2 ^ i, leaf, est)))
           (zip [0..<length leaves] leaves) = Inr entries"
    and best: "best = dict_update [] entries"
    using init by (auto simp: initial_best_def bindR_eq_Inr)
  have entry: "\<exists>i < length leaves. m = 2 ^ i \<and> p = leaves ! i" if here: "(m, p, est) \<in> set entries" for m p est
  proof -
    obtain i where "i < length leaves" "entries ! i = (m, p, est)"
      "\<exists>x. (2 ^ i, leaves ! i, x) = entries ! i"
      using es here
      by (auto simp: mapR_Inr_iff list_all2_conv_all_nth in_set_conv_nth bindR_eq_Inr split_beta)
    then show ?thesis by auto
  qed
  have leaf: "region_plan leaves predicates (2 ^ i) (leaves ! i)" if "i < length leaves" for i
  proof -
    have "flatten (leaves ! i) = ([leaves ! i], [])" "placed (leaves ! i)"
      using ok that by (auto simp: region_ok_def)
    moreover have "filter (\<lambda>e. expression_sources e \<subseteq> plan_sources (leaves ! i))
        (connecting leaves predicates) = []"
      using that by (auto simp: connecting_def filter_empty_conv)
    ultimately show ?thesis using that by (simp add: region_plan_def bits_single)
  qed
  have "(m, p, est) \<in> set entries" if "dict_get best m = Some (p, est)" for m p est
    using that unfolding best dict_update_get
    by (auto simp: dict_get_def split: option.splits dest!: map_of_SomeD)
  then show ?thesis using entry leaf unfolding table_ok_def by blast
qed

lemma region_table_ok:
  assumes "region_ok leaves predicates" and "region_table rt cm predicates leaves = Inr best"
  shows "table_ok leaves predicates best"
  using assms
  by (auto simp: region_table_def bindR_eq_Inr intro: initial_best_ok mask_step_ok
      elim!: foldR_invariant)

section \<open>Disjoint leaves\<close>

lemma card_Union_le_sum: "card (\<Union> (set As)) \<le> sum_list (map card As)"
  by (induction As) (auto intro: order_trans [OF card_Un_le])

lemma disjoint_of_card:
  assumes "card (\<Union> (set As)) = sum_list (map card As)" and "\<forall>A \<in> set As. finite A"
    and "i < j" and "j < length As"
  shows "As ! i \<inter> As ! j = {}"
  using assms
proof (induction As arbitrary: i j)
  case (Cons A As)
  have fin: "finite A" "finite (\<Union> (set As))" using Cons.prems(2) by auto
  have "card A + card (\<Union> (set As)) = card (A \<union> \<Union> (set As)) + card (A \<inter> \<Union> (set As))"
    using card_Un_Int [OF fin] .
  then have "card (A \<inter> \<Union> (set As)) = 0" "card (\<Union> (set As)) = sum_list (map card As)"
    using Cons.prems(1) card_Union_le_sum [of As] by auto
  then have "A \<inter> \<Union> (set As) = {}" using fin by simp
  show ?case
  proof (cases i)
    case 0
    then have "As ! (j - 1) \<in> set As" "(A # As) ! j = As ! (j - 1)"
      using Cons.prems(3,4) by auto
    with 0 \<open>A \<inter> \<Union> (set As) = {}\<close> show ?thesis by auto
  next
    case (Suc k)
    then have "As ! k \<inter> As ! (j - 1) = {}"
      using Cons.prems(2-4) \<open>card (\<Union> (set As)) = _\<close> by (intro Cons.IH) auto
    with Suc Cons.prems(3) show ?thesis by simp
  qed
qed simp

lemma region_ok_eligible:
  assumes "region_eligible (fst (flatten q)) (snd (flatten q))"
    and "\<forall>p \<in> set (fst (flatten q)). placed p"
  shows "region_ok (fst (flatten q)) (snd (flatten q))"
proof -
  let ?ls = "fst (flatten q)"
  have "plan_sources (?ls ! i) \<inter> plan_sources (?ls ! j) = {}" if "i < j" "j < length ?ls" for i j
    using disjoint_of_card [of "map plan_sources ?ls" i j] assms(1) that flatten_finite_sources
    by (simp add: region_eligible_def comp_def)
  moreover have "expression_sources e \<noteq> {}" if "e \<in> set (snd (flatten q))" for e
    using assms(1) that by (auto simp: region_eligible_def list_all_iff)
  ultimately show ?thesis
    using assms flatten_leaf flatten_conjunct
    by (auto simp: region_ok_def region_eligible_def list_all_iff)
qed

section \<open>Properties\<close>

lemma relabel_join_flatten:
  assumes "relabel_join p i' s' = Inr q" and "2 \<le> length (fst (flatten p))"
  shows "flatten q = flatten p \<and> (placed p \<longrightarrow> placed q)
    \<and> node_id q = i' \<and> output_schema q = s'"
  using assms by (cases p) (auto simp: make_join_def split: if_splits)

lemma region_plan_full:
  assumes "region_plan leaves predicates (2 ^ length leaves - 1) p"
    and "\<forall>e \<in> set predicates. expression_sources e \<subseteq> \<Union> (plan_sources ` set leaves)"
  shows "mset (fst (flatten p)) = mset leaves"
    and "mset (snd (flatten p)) = mset (connecting leaves predicates)"
proof -
  have "mset (map ((!) leaves) [0..<length leaves]) = mset leaves" by (simp only: map_nth)
  then show ls: "mset (fst (flatten p)) = mset leaves"
    using assms(1) by (simp add: region_plan_def bits_full)
  have "plan_sources p = \<Union> (plan_sources ` set leaves)"
    unfolding flatten_sources [of p] using ls by (metis set_mset_mset)
  then have "filter (\<lambda>e. expression_sources e \<subseteq> plan_sources p) (connecting leaves predicates)
      = connecting leaves predicates"
    using assms(2) by (intro filter_True) (auto simp: connecting_def)
  then show "mset (snd (flatten p)) = mset (connecting leaves predicates)"
    using assms(1) by (simp add: region_plan_def)
qed

lemma reorder_region_exact:
  assumes "reorder_region rt cm p = Inr (Some q)"
    and "\<forall>l \<in> set (fst (flatten p)). placed l"
    and "\<forall>e \<in> set (snd (flatten p)). expression_sources e \<subseteq> plan_sources p"
  shows "mset (fst (flatten q)) = mset (fst (flatten p))
    \<and> mset (snd (flatten q)) = mset (connecting (fst (flatten p)) (snd (flatten p)))
    \<and> placed q \<and> node_id q = node_id p \<and> output_schema q = output_schema p"
proof -
  let ?ls = "fst (flatten p)" and ?es = "snd (flatten p)"
  obtain best where el: "region_eligible ?ls ?es"
    and best: "region_table rt cm ?es ?ls = Inr best"
    and res: "(case dict_get best (2 ^ length ?ls - 1) of None \<Rightarrow> Inr None
      | Some (winner, _) \<Rightarrow> bindR (relabel_join winner (node_id p) (output_schema p)) (\<lambda>p. Inr (Some p)))
        = Inr (Some q)"
    using assms(1) by (auto simp: reorder_region_def Let_def bindR_eq_Inr split: if_splits)
  from res obtain winner est where win: "dict_get best (2 ^ length ?ls - 1) = Some (winner, est)"
    and q: "relabel_join winner (node_id p) (output_schema p) = Inr q"
    by (cases "dict_get best (2 ^ length ?ls - 1)") (auto simp: bindR_eq_Inr split_beta)
  have ok: "region_ok ?ls ?es" using region_ok_eligible [OF el] assms(2) by blast
  have plan: "region_plan ?ls ?es (2 ^ length ?ls - 1) winner"
    using region_table_ok [OF ok best] win by (auto simp: table_ok_def)
  have "\<forall>e \<in> set ?es. expression_sources e \<subseteq> \<Union> (plan_sources ` set ?ls)"
    using assms(3) flatten_sources [of p] by simp
  note full = region_plan_full [OF plan this]
  have "length (fst (flatten winner)) = length ?ls" using full(1) by (metis size_mset)
  then have "2 \<le> length (fst (flatten winner))" using el by (simp add: region_eligible_def)
  with relabel_join_flatten [OF q] full plan show ?thesis by (simp add: region_plan_def)
qed

text \<open>
  C24.  Join reordering keeps the region.  When a region of inner joins is rewritten, the new
  tree joins exactly the same inputs and applies exactly the same conjuncts, each as often as
  before; every conjunct is evaluated at a join whose inputs provide all its sources and which
  it connects; and the root keeps its identifier and its output schema.  This needs every
  conjunct to mention sources of the region only and none to be confined to a single input.
\<close>

theorem reorder_keeps_region:
  assumes "reorder_region rt cm p = Inr (Some q)"
    and "\<forall>l \<in> set (fst (flatten p)). placed l"
    and "\<forall>e \<in> set (snd (flatten p)). expression_sources e \<subseteq> plan_sources p
           \<and> (\<forall>l \<in> set (fst (flatten p)). \<not> expression_sources e \<subseteq> plan_sources l)"
  shows "mset (fst (flatten q)) = mset (fst (flatten p))
    \<and> mset (snd (flatten q)) = mset (snd (flatten p))
    \<and> placed q \<and> node_id q = node_id p \<and> output_schema q = output_schema p"
proof -
  have "connecting (fst (flatten p)) (snd (flatten p)) = snd (flatten p)"
    using assms(3) by (simp add: connecting_def filter_id_conv)
  then show ?thesis using reorder_region_exact [OF assms(1,2)] assms(3) by simp
qed

text \<open>A catalog of four tables without column statistics, one partition each.\<close>

definition region_catalog_table :: "string \<Rightarrow> int \<Rightarrow> catalog_table" where
  "region_catalog_table name rows =
     \<lparr>ct_namespace = ''n'', ct_name = name, ct_schema = \<lparr>sc_fields = [], sc_metadata = []\<rparr>,
      ct_format = F_PARQUET, ct_location = ''l'', ct_partition_strategy = P_SINGLE,
      ct_partition_keys = [],
      ct_partitions = [\<lparr>p_id = ''p'', p_ordinal = 0, p_location = ''l'', p_strategy = P_SINGLE,
        p_keys = [], p_size_bytes = Some (8 * rows), p_row_count = Some rows, p_checksum = None\<rparr>],
      ct_statistics = None\<rparr>"

definition region_model :: cost_model where
  "region_model =
     \<lparr>cm_catalog = map (\<lambda>(n, rows). (n, region_catalog_table n rows))
        [(''t'', 100), (''u'', 10), (''z'', 5), (''v'', 20)],
      cm_worker_count = 2, cm_memory_budget_bytes = Fin 67108864,
      cm_broadcast_threshold_bytes = Fin 10485760\<rparr>"

definition sample_scan :: "string \<Rightarrow> plan" where
  "sample_scan a = Scan a a a \<lparr>sc_fields = [], sc_metadata = []\<rparr>"

definition sample_equals :: "string \<Rightarrow> string \<Rightarrow> string \<Rightarrow> string \<Rightarrow> expr" where
  "sample_equals a x b y =
     Binary EQUAL (cost_column x a) (cost_column y b) (TypeInfo T_BOOLEAN True)"

definition sample_inner :: "string \<Rightarrow> plan \<Rightarrow> plan \<Rightarrow> string \<Rightarrow> expr \<Rightarrow> plan" where
  "sample_inner i l r join_type e =
     Join i l r join_type e \<lparr>sc_fields = [], sc_metadata = []\<rparr> None ''right''"

definition sample_region :: plan where
  "sample_region =
     sample_inner ''j2''
       (sample_inner ''j1'' (sample_scan ''t'') (sample_scan ''u'') ''inner''
          (sample_equals ''t'' ''a'' ''u'' ''b''))
       (sample_scan ''z'') ''inner'' (sample_equals ''u'' ''b'' ''z'' ''c'')"

definition reordered :: "plan \<Rightarrow> plan option" where
  "reordered p =
     (case reorder_region sample_rt region_model p of Inl e \<Rightarrow> None | Inr q \<Rightarrow> q)"

lemma reordered_Some: "reordered p = Some q \<Longrightarrow> reorder_region sample_rt region_model p = Inr (Some q)"
  by (auto simp: reordered_def split: sum.splits)

definition scoped_region :: "plan \<Rightarrow> bool" where
  "scoped_region p \<longleftrightarrow>
     list_all placed (fst (flatten p))
     \<and> list_all (\<lambda>e. expression_sources e \<subseteq> plan_sources p) (snd (flatten p))"

lemma sample_region_reordered: "reordered sample_region \<noteq> None"
  by code_simp

lemma reorder_keeps_region_witness:
  "\<exists>q. reorder_region sample_rt region_model sample_region = Inr (Some q)
    \<and> mset (fst (flatten q)) = mset (fst (flatten sample_region))
    \<and> mset (snd (flatten q)) = mset (snd (flatten sample_region))"
proof -
  obtain q where q: "reorder_region sample_rt region_model sample_region = Inr (Some q)"
    using reordered_Some sample_region_reordered by blast
  have "scoped_region sample_region
      \<and> list_all (\<lambda>e. list_all (\<lambda>l. \<not> expression_sources e \<subseteq> plan_sources l)
          (fst (flatten sample_region))) (snd (flatten sample_region))"
    by code_simp
  then have "\<forall>l \<in> set (fst (flatten sample_region)). placed l"
    "\<forall>e \<in> set (snd (flatten sample_region)). expression_sources e \<subseteq> plan_sources sample_region
       \<and> (\<forall>l \<in> set (fst (flatten sample_region)). \<not> expression_sources e \<subseteq> plan_sources l)"
    by (auto simp: scoped_region_def list_all_iff)
  from reorder_keeps_region [OF q this] q show ?thesis by blast
qed

text \<open>
  Join reordering drops a conjunct that a single input could decide.  In a region with an
  outer join as input, a conjunct of an inner \<open>ON\<close> clause whose columns all belong to that outer
  join is not pushed into it and connects no two inputs, so the rewritten tree does not apply it:
  the query returns rows the original plan rejects.
\<close>

theorem reorder_drops_confined_conjuncts:
  assumes "reorder_region rt cm p = Inr (Some q)"
    and "\<forall>l \<in> set (fst (flatten p)). placed l"
    and "\<forall>e \<in> set (snd (flatten p)). expression_sources e \<subseteq> plan_sources p"
    and "e \<in> set (snd (flatten p))" and "l \<in> set (fst (flatten p))"
    and "expression_sources e \<subseteq> plan_sources l"
  shows "e \<notin> set (snd (flatten q))"
proof -
  have "set (snd (flatten q)) = set (connecting (fst (flatten p)) (snd (flatten p)))"
    using reorder_region_exact [OF assms(1-3)] by (metis set_mset_mset)
  then show ?thesis using assms(5,6) by (auto simp: connecting_def)
qed

text \<open>
  \<open>FROM (t LEFT JOIN u ON t.a = u.b) JOIN z ON u.b = z.c AND t.a = u.b JOIN v ON z.c = v.d\<close>.
\<close>

definition sample_outer :: plan where
  "sample_outer =
     sample_inner ''j1'' (sample_scan ''t'') (sample_scan ''u'') ''left''
       (sample_equals ''t'' ''a'' ''u'' ''b'')"

definition sample_mixed_region :: plan where
  "sample_mixed_region =
     sample_inner ''j3''
       (sample_inner ''j2'' sample_outer (sample_scan ''z'') ''inner''
          (Binary OP_AND (sample_equals ''u'' ''b'' ''z'' ''c'') (sample_equals ''t'' ''a'' ''u'' ''b'')
             (TypeInfo T_BOOLEAN True)))
       (sample_scan ''v'') ''inner'' (sample_equals ''z'' ''c'' ''v'' ''d'')"

lemma sample_mixed_region_reordered: "reordered sample_mixed_region \<noteq> None"
  by code_simp

lemma reorder_drops_confined_conjuncts_witness:
  "\<exists>q. reorder_region sample_rt region_model sample_mixed_region = Inr (Some q)
    \<and> sample_equals ''t'' ''a'' ''u'' ''b'' \<in> set (snd (flatten sample_mixed_region))
    \<and> sample_equals ''t'' ''a'' ''u'' ''b'' \<notin> set (snd (flatten q))"
proof -
  obtain q where q: "reorder_region sample_rt region_model sample_mixed_region = Inr (Some q)"
    using reordered_Some sample_mixed_region_reordered by blast
  have "scoped_region sample_mixed_region" by code_simp
  then have scoped: "\<forall>l \<in> set (fst (flatten sample_mixed_region)). placed l"
    "\<forall>e \<in> set (snd (flatten sample_mixed_region)). expression_sources e \<subseteq> plan_sources sample_mixed_region"
    by (auto simp: scoped_region_def list_all_iff)
  have e: "sample_equals ''t'' ''a'' ''u'' ''b'' \<in> set (snd (flatten sample_mixed_region))"
    by code_simp
  have l: "sample_outer \<in> set (fst (flatten sample_mixed_region))"
    "expression_sources (sample_equals ''t'' ''a'' ''u'' ''b'') \<subseteq> plan_sources sample_outer"
    by code_simp+
  from reorder_drops_confined_conjuncts [OF q scoped e l] q e show ?thesis by blast
qed

end
