(* ===== verification/Physical.thy ===== *)
theory Physical
  imports Cost
begin

text \<open>
  Physical exchanges and the Stage DAG (\<open>execution/physical.py\<close>): \<open>materialize_exchanges\<close> turns
  the join decisions and the needs of blocking operators into \<open>Exchange\<close> nodes, and
  \<open>StagePlanner\<close> cuts the plan at every exchange into stages with one task per partition.  The
  planner's counter and its two growing lists are the record \<open>split_state\<close>; the recursion of
  \<open>_split\<close> through \<open>fragment\<close> is one function over the plan.
\<close>

section \<open>Exchanges\<close>

definition exchange_over ::
    "plan \<Rightarrow> expr list \<Rightarrow> partition_strategy \<Rightarrow> int \<Rightarrow> string \<Rightarrow> plan res" where
  "exchange_over p ks strategy n suffix =
     make_exchange (''exchange_'' @ node_id p @ ''_'' @ suffix) p strategy ks n (output_schema p)"

text \<open>\<open>_columns\<close>: the text before the first dot is the source.\<close>

definition column_of_name :: "string \<Rightarrow> expr" where
  "column_of_name name =
     (let source = takeWhile (\<lambda>c. c \<noteq> CHR ''.'') name;
          column = drop (Suc (length source)) name
      in Column (if column \<noteq> [] then column else source) (if column \<noteq> [] then source else [])
           (TypeInfo T_NULL True))"

definition columns_of_names :: "string list \<Rightarrow> expr list" where
  "columns_of_names = map column_of_name"

fun partition_key_parts :: "expr \<Rightarrow> expr list" where
  "partition_key_parts (WindowFunction f ps os fr) = ps"
| "partition_key_parts _ = []"

definition window_partition_keys :: "py_runtime \<Rightarrow> named_expression list \<Rightarrow> expr list" where
  "window_partition_keys rt items =
     (case items of
        [] \<Rightarrow> []
      | first # rest \<Rightarrow>
          let ps = partition_key_parts (ne_expression first);
              signature = map (expr_sql rt) ps
          in if signature = [] then []
             else if list_all (\<lambda>x. map (expr_sql rt) (partition_key_parts (ne_expression x)) = signature) rest
             then ps else [])"

text \<open>\<open>_replace_children\<close> of this module keeps every schema.\<close>

fun with_input :: "plan \<Rightarrow> plan list \<Rightarrow> plan res" where
  "with_input (Project i p es s) cs = (case cs of [] \<Rightarrow> Inl PyIndexError | c # _ \<Rightarrow> Inr (Project i c es s))"
| "with_input (Filter i p e s ph) cs = (case cs of [] \<Rightarrow> Inl PyIndexError | c # _ \<Rightarrow> Inr (Filter i c e s ph))"
| "with_input (Aggregate i p gs as s) cs =
     (case cs of [] \<Rightarrow> Inl PyIndexError | c # _ \<Rightarrow> Inr (Aggregate i c gs as s))"
| "with_input (Limit i p n s) cs = (case cs of [] \<Rightarrow> Inl PyIndexError | c # _ \<Rightarrow> Inr (Limit i c n s))"
| "with_input (Order i p os s) cs = (case cs of [] \<Rightarrow> Inl PyIndexError | c # _ \<Rightarrow> Inr (Order i c os s))"
| "with_input (Window i p es s) cs = (case cs of [] \<Rightarrow> Inl PyIndexError | c # _ \<Rightarrow> Inr (Window i c es s))"
| "with_input (GroupingSets i p gs as s) cs =
     (case cs of [] \<Rightarrow> Inl PyIndexError | c # _ \<Rightarrow> Inr (GroupingSets i c gs as s))"
| "with_input (Join i l r jt e s inlim b) cs =
     (case cs of c # d # _ \<Rightarrow> make_join i c d jt e s inlim b | _ \<Rightarrow> Inl PyIndexError)"
| "with_input p cs = Inr p"

definition join_exchanges :: "join_decision \<Rightarrow> int \<Rightarrow> plan \<Rightarrow> plan \<Rightarrow> (plan \<times> plan) res" where
  "join_exchanges d n l r =
     (let lks = columns_of_names (jd_left_keys d); rks = columns_of_names (jd_right_keys d) in
      bindR (if jd_strategy d \<in> {J_REPARTITION_LEFT, J_REPARTITION_BOTH}
             then exchange_over l lks P_HASH n ''left'' else Inr l) (\<lambda>l'.
      bindR (if jd_strategy d \<in> {J_REPARTITION_RIGHT, J_REPARTITION_BOTH}
             then exchange_over r rks P_HASH n ''right'' else Inr r) (\<lambda>r'.
        if jd_strategy d = J_BROADCAST then
          (if jd_build_side d = ''left''
           then bindR (exchange_over l' [] P_BROADCAST n ''left'') (\<lambda>l''. Inr (l'', r'))
           else bindR (exchange_over r' [] P_BROADCAST n ''right'') (\<lambda>r''. Inr (l', r'')))
        else Inr (l', r'))))"

text \<open>What \<open>visit\<close> does to a node whose children have been visited.\<close>

fun add_exchanges :: "py_runtime \<Rightarrow> (string, join_decision) dict \<Rightarrow> int \<Rightarrow> plan \<Rightarrow> plan res" where
  "add_exchanges rt by_node n (Join i l r jt e s inlim b) =
     (case dict_get by_node i of
        None \<Rightarrow> Inl PyValueError
      | Some d \<Rightarrow>
          bindR (join_exchanges d n l r) (\<lambda>(l', r').
            make_join i l' r' jt e s inlim (jd_build_side d)))"
| "add_exchanges rt by_node n (Aggregate i p gs as s) =
     bindR (exchange_over p gs (if gs \<noteq> [] then P_HASH else P_SINGLE) (if gs \<noteq> [] then n else 1)
              ''aggregate'') (\<lambda>p'. Inr (Aggregate i p' gs as s))"
| "add_exchanges rt by_node n (GroupingSets i p gs as s) =
     bindR (exchange_over p [] P_SINGLE 1 ''global'') (\<lambda>p'. Inr (GroupingSets i p' gs as s))"
| "add_exchanges rt by_node n (Order i p os s) =
     bindR (exchange_over p [] P_SINGLE 1 ''global'') (\<lambda>p'. Inr (Order i p' os s))"
| "add_exchanges rt by_node n (Window i p es s) =
     (let ks = window_partition_keys rt es in
      bindR (exchange_over p ks (if ks \<noteq> [] then P_HASH else P_SINGLE) (if ks \<noteq> [] then n else 1)
               ''window'') (\<lambda>p'. Inr (Window i p' es s)))"
| "add_exchanges rt by_node n (Limit i p k s) =
     bindR (exchange_over p [] P_SINGLE 1 ''limit'') (\<lambda>p'. Inr (Limit i p' k s))"
| "add_exchanges rt by_node n p = Inr p"

function visit_exchanges :: "py_runtime \<Rightarrow> (string, join_decision) dict \<Rightarrow> int \<Rightarrow> plan \<Rightarrow> plan res" where
  "visit_exchanges rt by_node n p =
     (if is_scan p then Inr p
      else bindR (mapR (visit_exchanges rt by_node n) (children p)) (\<lambda>cs.
           bindR (with_input p cs) (\<lambda>q. add_exchanges rt by_node n q)))"
  by pat_completeness auto
termination
  by (relation "measure (\<lambda>(rt, by_node, n, p). size p)") (auto intro: size_children)

declare visit_exchanges.simps [simp del]

definition decisions_by_node :: "join_decision list \<Rightarrow> (string, join_decision) dict" where
  "decisions_by_node ds = fold (\<lambda>d acc. dict_set acc (jd_node_id d) d) ds []"

definition materialize_exchanges :: "py_runtime \<Rightarrow> plan \<Rightarrow> join_decision list \<Rightarrow> int \<Rightarrow> plan res" where
  "materialize_exchanges rt p ds n =
     (if n < 1 then Inl PyValueError else visit_exchanges rt (decisions_by_node ds) n p)"

section \<open>Stages\<close>

record split_state =
  sp_next :: nat
  sp_stages :: "stage list"
  sp_tasks :: "task list"

record stage_graph =
  sg_root :: string
  sg_stages :: "stage list"
  sg_tasks :: "task list"

definition stage_name :: "string \<Rightarrow> nat \<Rightarrow> string" where
  "stage_name query_id k = query_id @ ''-stage-'' @ fmt03 k"

definition task_name :: "string \<Rightarrow> nat \<Rightarrow> string" where
  "task_name stage_id ordinal = stage_id @ ''-task-'' @ fmt05 ordinal"

definition stage_task :: "string \<Rightarrow> string \<Rightarrow> nat \<Rightarrow> task" where
  "stage_task query_id stage_id ordinal =
     \<lparr>t_id = task_name stage_id ordinal, t_query_id = query_id, t_stage_id = stage_id,
      t_partition = \<lparr>p_id = stage_id @ ''-partition-'' @ fmt05 ordinal, p_ordinal = int ordinal,
        p_location = [], p_strategy = P_UNKNOWN, p_keys = [], p_size_bytes = None,
        p_row_count = None, p_checksum = None\<rparr>,
      t_state = TS_PENDING, t_attempt_ids = []\<rparr>"

text \<open>The end of \<open>_split\<close>: record the stage and its tasks.\<close>

definition add_stage ::
    "string \<Rightarrow> string \<Rightarrow> int \<Rightarrow> plan_node \<Rightarrow> string list \<Rightarrow> split_state \<Rightarrow> split_state res" where
  "add_stage query_id stage_id n node dependencies st =
     bindR (make_stage \<lparr>st_id = stage_id, st_query_id = query_id, st_state = SS_PENDING,
              st_plan = node, st_dependencies = dependencies, st_partition_count = n\<rparr>) (\<lambda>stage.
       Inr (st\<lparr>sp_stages := sp_stages st @ [stage],
               sp_tasks := sp_tasks st @ map (stage_task query_id stage_id) [0..<nat n]\<rparr>))"

definition exchange_node :: "py_runtime \<Rightarrow> plan \<Rightarrow> string \<Rightarrow> plan_node" where
  "exchange_node rt p source =
     PlanNode (node_id p) N_EXCHANGE [] (Some (output_schema p))
       (node_properties rt p @ [(''source_stage_id'', JStr source)])"

type_synonym fragment_state = "split_state \<times> string list"

text \<open>\<open>fragment\<close>, with the call of \<open>_split\<close> on the input of an exchange in place.\<close>

function plan_fragment ::
    "py_runtime \<Rightarrow> string \<Rightarrow> plan \<Rightarrow> fragment_state \<Rightarrow> (plan_node \<times> fragment_state) res" where
  "plan_fragment rt query_id p (st, dependencies) =
     (case p of
        Exchange i c strategy ks n s \<Rightarrow>
          (let source = stage_name query_id (sp_next st) in
           bindR (plan_fragment rt query_id c (st\<lparr>sp_next := Suc (sp_next st)\<rparr>, [])) (\<lambda>(node, st', deps).
           bindR (add_stage query_id source n node deps st') (\<lambda>st''.
             Inr (exchange_node rt p source, st'', dependencies @ [source]))))
      | _ \<Rightarrow>
          bindR (foldR (\<lambda>acc c.
                   bindR (plan_fragment rt query_id c (snd acc)) (\<lambda>(node, fs').
                     Inr (fst acc @ [node], fs')))
                 ([], (st, dependencies)) (children p)) (\<lambda>(nodes, fs).
            Inr (PlanNode (node_id p) (node_type p) nodes (Some (output_schema p)) (node_properties rt p), fs)))"
  by pat_completeness auto

termination
  by (relation "measure (\<lambda>(rt, query_id, p, fs). size p)") (auto intro: size_children)

declare plan_fragment.simps [simp del]

text \<open>\<open>_split\<close> of a plan for a number of partitions, and \<open>StagePlanner.plan\<close>.\<close>

definition split_stage :: "py_runtime \<Rightarrow> string \<Rightarrow> plan \<Rightarrow> int \<Rightarrow> split_state \<Rightarrow> (string \<times> split_state) res" where
  "split_stage rt query_id p n st =
     (let stage_id = stage_name query_id (sp_next st) in
      bindR (plan_fragment rt query_id p (st\<lparr>sp_next := Suc (sp_next st)\<rparr>, [])) (\<lambda>(node, st', deps).
      bindR (add_stage query_id stage_id n node deps st') (\<lambda>st''. Inr (stage_id, st''))))"

definition plan_stages :: "py_runtime \<Rightarrow> string \<Rightarrow> plan \<Rightarrow> int \<Rightarrow> stage_graph res" where
  "plan_stages rt query_id p root_partition_count =
     bindR (split_stage rt query_id p root_partition_count
              \<lparr>sp_next = 0, sp_stages = [], sp_tasks = []\<rparr>) (\<lambda>(root_id, st).
       Inr \<lparr>sg_root = root_id, sg_stages = sp_stages st, sg_tasks = sp_tasks st\<rparr>)"

lemma plan_fragment_exchange:
  "plan_fragment rt query_id (Exchange i c strategy ks n s) (st, dependencies) =
     bindR (split_stage rt query_id c n st) (\<lambda>(source, st').
       Inr (exchange_node rt (Exchange i c strategy ks n s) source, st', dependencies @ [source]))"
proof (cases "plan_fragment rt query_id c (st\<lparr>sp_next := Suc (sp_next st)\<rparr>, [])")
  case (Inl e)
  then show ?thesis by (subst plan_fragment.simps) (simp add: split_stage_def Let_def)
next
  case (Inr r)
  then show ?thesis
    by (subst plan_fragment.simps) (simp add: split_stage_def Let_def bindR_assoc split_beta)
qed

lemma plan_fragment_other:
  "\<not> is_exchange p \<Longrightarrow>
   plan_fragment rt query_id p fs =
     bindR (foldR (\<lambda>acc c.
              bindR (plan_fragment rt query_id c (snd acc)) (\<lambda>(node, fs').
                Inr (fst acc @ [node], fs')))
            ([], fs) (children p)) (\<lambda>(nodes, fs).
       Inr (PlanNode (node_id p) (node_type p) nodes (Some (output_schema p)) (node_properties rt p), fs))"
  by (cases fs; cases p) (simp_all add: plan_fragment.simps)

end
