(* ===== verification/Registry.thy ===== *)
theory Registry
  imports Protocol
begin

text \<open>
  The Coordinator's in-memory Worker registry (\<open>coordinator/registry.py\<close>): membership with
  renewable leases.  Every method reads the clock once; the reading is the argument \<open>now\<close>, and
  the lease identifier that \<open>uuid4\<close> draws is the argument \<open>lease\<close>.  The asyncio lock makes each
  method one atomic step, so the methods are functions on the registry and a run of the
  Coordinator is a sequence of steps with a clock that does not go backwards.  Deep copies are
  values.
\<close>

section \<open>The methods\<close>

record registry =
  lease_ttl :: int
  workers :: "(string, worker) dict"

definition new_registry :: "int \<Rightarrow> registry" where
  "new_registry ttl = \<lparr>lease_ttl = ttl, workers = []\<rparr>"

definition register ::
    "int \<Rightarrow> string \<Rightarrow> worker_registration \<Rightarrow> registry \<Rightarrow> worker res \<times> registry" where
  "register now lease r reg =
     (case make_worker
        \<lparr>w_id = wr_id r, w_endpoint = wr_endpoint r, w_state = WS_ACTIVE, w_slots = wr_slots r,
         w_available_slots = wr_slots r, w_memory_limit_bytes = wr_memory_limit_bytes r,
         w_lease_id = Some lease, w_lease_expires_at = Some (now + lease_ttl reg),
         w_registered_at = now, w_last_heartbeat_at = Some now, w_labels = wr_labels r\<rparr> of
        Inl e \<Rightarrow> (Inl e, reg)
      | Inr w \<Rightarrow> (Inr w, reg\<lparr>workers := dict_set (workers reg) (w_id w) w\<rparr>))"

definition lease_expired :: "int \<Rightarrow> worker \<Rightarrow> bool" where
  "lease_expired now w \<longleftrightarrow>
     (case w_lease_expires_at w of None \<Rightarrow> True | Some end_time \<Rightarrow> end_time \<le> now)"

definition heartbeat ::
    "int \<Rightarrow> string \<Rightarrow> worker_heartbeat \<Rightarrow> registry \<Rightarrow> worker res \<times> registry" where
  "heartbeat now wid h reg =
     (case dict_get (workers reg) wid of
        None \<Rightarrow>
          (Inl (raise_domain NOT_FOUND (''Worker '' @ py_repr wid @ '' is not registered.'') 404
             [(''worker_id'', CStr wid)]), reg)
      | Some w \<Rightarrow>
          if w_lease_id w \<noteq> Some (hb_lease_id h)
          then (Inl (raise_domain LEASE_REJECTED
                  (''Lease for Worker '' @ py_repr wid @ '' is not valid.'') 409
                  [(''worker_id'', CStr wid)]), reg)
          else if lease_expired now w
          then (Inl (raise_domain LEASE_REJECTED
                  (''Lease for Worker '' @ py_repr wid @ '' has expired.'') 409
                  [(''worker_id'', CStr wid)]),
                reg\<lparr>workers := dict_set (workers reg) wid (w\<lparr>w_state := WS_LOST\<rparr>)\<rparr>)
          else if w_slots w < hb_available_slots h
          then (Inl (raise_domain INVALID_REQUEST
                  ''Available slots cannot exceed configured Worker slots.'' 422
                  [(''worker_id'', CStr wid), (''slots'', CInt (w_slots w))]), reg)
          else
            (let w' = w\<lparr>w_available_slots := hb_available_slots h, w_state := hb_state h,
                        w_last_heartbeat_at := Some now,
                        w_lease_expires_at := Some (now + lease_ttl reg)\<rparr>
             in (Inr w', reg\<lparr>workers := dict_set (workers reg) wid w'\<rparr>)))"

definition expires_now :: "int \<Rightarrow> worker \<Rightarrow> bool" where
  "expires_now now w \<longleftrightarrow>
     w_state w \<noteq> WS_LOST
     \<and> (case w_lease_expires_at w of None \<Rightarrow> False | Some end_time \<Rightarrow> end_time \<le> now)"

definition expire_leases :: "int \<Rightarrow> registry \<Rightarrow> string list \<times> registry" where
  "expire_leases now reg =
     (map (w_id \<circ> snd) (filter (\<lambda>(k, w). expires_now now w) (workers reg)),
      reg\<lparr>workers := map (\<lambda>(k, w).
        (k, if expires_now now w then w\<lparr>w_state := WS_LOST, w_available_slots := 0\<rparr> else w))
        (workers reg)\<rparr>)"

definition list_workers :: "registry \<Rightarrow> worker list" where
  "list_workers reg = sort_key w_id (map snd (workers reg))"

section \<open>Runs of the registry\<close>

datatype registry_call =
    Register worker_registration string
  | Heartbeat string worker_heartbeat
  | Expire

fun registry_step :: "int \<Rightarrow> registry_call \<Rightarrow> registry \<Rightarrow> registry" where
  "registry_step now (Register r lease) reg = snd (register now lease r reg)"
| "registry_step now (Heartbeat wid h) reg = snd (heartbeat now wid h reg)"
| "registry_step now Expire reg = snd (expire_leases now reg)"

text \<open>The heartbeats that reach the registry have passed their validator.\<close>

fun valid_call :: "registry_call \<Rightarrow> bool" where
  "valid_call (Heartbeat wid h) = valid_heartbeat h"
| "valid_call _ = True"

inductive registry_reachable :: "int \<Rightarrow> int \<Rightarrow> registry \<Rightarrow> bool" for ttl :: int where
  Start: "registry_reachable ttl now (new_registry ttl)"
| Call: "registry_reachable ttl now reg \<Longrightarrow> now \<le> later \<Longrightarrow> valid_call c
         \<Longrightarrow> registry_reachable ttl later (registry_step later c reg)"

declare dict_get_None [simp del]

section \<open>The invariant\<close>

text \<open>
  What holds of every stored Worker at time \<open>now\<close>: its slots are within capacity, it carries a
  lease that ends one \<open>ttl\<close> after the last accepted heartbeat, and it is lost only when that
  lease is over.
\<close>

definition worker_ok :: "int \<Rightarrow> int \<Rightarrow> worker \<Rightarrow> bool" where
  "worker_ok ttl now w \<longleftrightarrow>
     valid_worker w \<and> w_state w \<noteq> WS_REGISTERING
     \<and> (\<exists>lease. w_lease_id w = Some lease)
     \<and> (\<exists>beat. w_last_heartbeat_at w = Some beat \<and> w_registered_at w \<le> beat \<and> beat \<le> now
          \<and> w_lease_expires_at w = Some (beat + ttl)
          \<and> (w_state w = WS_LOST \<longrightarrow> beat + ttl \<le> now))"

definition registry_ok :: "int \<Rightarrow> int \<Rightarrow> registry \<Rightarrow> bool" where
  "registry_ok ttl now reg \<longleftrightarrow>
     lease_ttl reg = ttl \<and> dict_ok (workers reg)
     \<and> (\<forall>(k, w) \<in> set (workers reg). w_id w = k \<and> worker_ok ttl now w)"

lemma in_dict_set:
  "(k', w') \<in> set (dict_set d k w) \<Longrightarrow> k' = k \<and> w' = w \<or> (k', w') \<in> set d"
  unfolding dict_set_def by (induction d) (auto split: if_splits)

lemma registry_ok_get:
  "registry_ok ttl now reg \<Longrightarrow> dict_get (workers reg) k = Some w
   \<Longrightarrow> w_id w = k \<and> worker_ok ttl now w"
  by (auto simp: registry_ok_def dest!: dict_get_Some_in)

lemma registry_ok_set:
  assumes "registry_ok ttl now reg" and "w_id w = k" and "worker_ok ttl now w"
  shows "registry_ok ttl now (reg\<lparr>workers := dict_set (workers reg) k w\<rparr>)"
  using assms by (auto simp: registry_ok_def dest!: in_dict_set)

lemma worker_ok_later: "worker_ok ttl now w \<Longrightarrow> now \<le> later \<Longrightarrow> worker_ok ttl later w"
  by (fastforce simp: worker_ok_def)

lemma registry_ok_later: "registry_ok ttl now reg \<Longrightarrow> now \<le> later \<Longrightarrow> registry_ok ttl later reg"
  by (fastforce simp: registry_ok_def intro: worker_ok_later)

lemma registry_ok_register:
  assumes "registry_ok ttl now reg"
  shows "registry_ok ttl now (snd (register now lease r reg))"
proof -
  have "lease_ttl reg = ttl" using assms by (simp add: registry_ok_def)
  then show ?thesis using assms
    by (auto simp: register_def make_worker_def worker_ok_def intro!: registry_ok_set)
qed

lemma registry_ok_heartbeat:
  assumes ok: "registry_ok ttl now reg" and h: "valid_heartbeat h"
  shows "registry_ok ttl now (snd (heartbeat now wid h reg))"
proof (cases "dict_get (workers reg) wid")
  case None
  with ok show ?thesis by (simp add: heartbeat_def)
next
  case (Some w)
  have ttl: "lease_ttl reg = ttl" using ok by (simp add: registry_ok_def)
  from registry_ok_get [OF ok Some] have id: "w_id w = wid" and w: "worker_ok ttl now w" by auto
  have "worker_ok ttl now (w\<lparr>w_state := WS_LOST\<rparr>)" if "lease_expired now w"
    using w that by (auto simp: worker_ok_def valid_worker_def lease_expired_def)
  moreover have "worker_ok ttl now (w\<lparr>w_available_slots := hb_available_slots h,
      w_state := hb_state h, w_last_heartbeat_at := Some now,
      w_lease_expires_at := Some (now + ttl)\<rparr>)" if "\<not> w_slots w < hb_available_slots h"
    using w h that by (auto simp: worker_ok_def valid_worker_def valid_heartbeat_def)
  ultimately show ?thesis using ok Some id ttl
    by (auto simp: heartbeat_def Let_def intro!: registry_ok_set)
qed

lemma registry_ok_expire:
  assumes "registry_ok ttl now reg"
  shows "registry_ok ttl now (snd (expire_leases now reg))"
proof -
  have "worker_ok ttl now (w\<lparr>w_state := WS_LOST, w_available_slots := 0\<rparr>)"
    if "worker_ok ttl now w" "expires_now now w" for w
    using that by (auto simp: worker_ok_def valid_worker_def expires_now_def)
  then show ?thesis using assms
    by (fastforce simp: registry_ok_def expire_leases_def dict_ok_def comp_def split_beta)
qed

lemma registry_step_ok:
  "registry_ok ttl now reg \<Longrightarrow> valid_call c \<Longrightarrow> registry_ok ttl now (registry_step now c reg)"
  by (cases c) (simp_all add: registry_ok_register registry_ok_heartbeat registry_ok_expire)

lemma reachable_registry_ok: "registry_reachable ttl now reg \<Longrightarrow> registry_ok ttl now reg"
proof (induction rule: registry_reachable.induct)
  case (Start now)
  then show ?case by (simp add: registry_ok_def new_registry_def)
next
  case (Call now reg later c)
  then show ?case by (blast intro: registry_step_ok registry_ok_later)
qed


section \<open>Leases are not revived\<close>

definition registry_calls :: "(int \<times> registry_call) list \<Rightarrow> registry \<Rightarrow> registry" where
  "registry_calls cs reg = fold (\<lambda>(now, c). registry_step now c) cs reg"

fun registers :: "string \<Rightarrow> registry_call \<Rightarrow> bool" where
  "registers k (Register r lease) = (wr_id r = k)"
| "registers k _ = False"

text \<open>The Worker \<open>k\<close> is lost and its lease was over by \<open>now\<close>.\<close>

definition fenced :: "int \<Rightarrow> string \<Rightarrow> registry \<Rightarrow> bool" where
  "fenced now k reg =
     (case dict_get (workers reg) k of
        None \<Rightarrow> False
      | Some w \<Rightarrow> w_state w = WS_LOST \<and> lease_expired now w)"

lemma fenced_iff:
  "fenced now k reg \<longleftrightarrow>
     (\<exists>w. dict_get (workers reg) k = Some w \<and> w_state w = WS_LOST \<and> lease_expired now w)"
  by (auto simp: fenced_def split: option.splits)

lemma lease_expired_later: "lease_expired now w \<Longrightarrow> now \<le> later \<Longrightarrow> lease_expired later w"
  by (auto simp: lease_expired_def split: option.splits)

lemma reachable_lost_fenced:
  assumes "registry_reachable ttl now reg"
    and "dict_get (workers reg) k = Some w" and "w_state w = WS_LOST"
  shows "fenced now k reg"
  using registry_ok_get [OF reachable_registry_ok [OF assms(1)] assms(2)] assms(2,3)
  by (auto simp: fenced_def worker_ok_def lease_expired_def)

lemma dict_get_map_snd:
  "dict_get (map (\<lambda>(k, w). (k, f w)) d) k = map_option f (dict_get d k)"
  by (induction d) (auto simp: dict_get_def)

lemma workers_expire:
  "dict_get (workers (snd (expire_leases now reg))) k =
     map_option (\<lambda>w. if expires_now now w then w\<lparr>w_state := WS_LOST, w_available_slots := 0\<rparr> else w)
       (dict_get (workers reg) k)"
  by (simp add: expire_leases_def dict_get_map_snd)

lemma heartbeat_other:
  "k \<noteq> wid \<Longrightarrow> dict_get (workers (snd (heartbeat now wid h reg))) k = dict_get (workers reg) k"
  by (auto simp: heartbeat_def Let_def split: option.splits)

lemma fenced_heartbeat_rejected:
  assumes "fenced now k reg"
  shows "\<exists>d. fst (heartbeat now k h reg) = Inl (DomainError d) \<and> de_code d = LEASE_REJECTED
           \<and> de_status d = 409"
  using assms by (auto simp: fenced_iff heartbeat_def raise_domain_def)

lemma fenced_step:
  assumes "fenced now k reg" and "now \<le> later" and "\<not> registers k c"
  shows "fenced later k (registry_step later c reg)"
proof -
  obtain w where w: "dict_get (workers reg) k = Some w" "w_state w = WS_LOST" "lease_expired now w"
    using assms(1) by (auto simp: fenced_iff)
  note over = lease_expired_later [OF w(3) assms(2)]
  show ?thesis
  proof (cases c)
    case (Register r lease)
    with w over assms(3) show ?thesis
      by (auto simp: fenced_iff register_def make_worker_def)
  next
    case (Heartbeat wid h)
    have "lease_expired later (w\<lparr>w_state := WS_LOST\<rparr>)"
      using over by (simp add: lease_expired_def)
    then have "fenced later k (snd (heartbeat later wid h reg))"
    proof (cases "k = wid")
      case True
      with w over \<open>lease_expired later (w\<lparr>w_state := WS_LOST\<rparr>)\<close> show ?thesis
        by (auto simp: fenced_iff heartbeat_def)
    next
      case False
      with w over show ?thesis by (simp add: fenced_iff heartbeat_other)
    qed
    with Heartbeat show ?thesis by simp
  next
    case Expire
    with w over show ?thesis
      by (simp add: fenced_iff workers_expire expires_now_def)
  qed
qed

lemma fenced_calls:
  assumes "fenced now k reg" and "sorted_wrt (\<le>) (now # map fst cs)"
    and "\<forall>(t, c) \<in> set cs. \<not> registers k c"
  shows "fenced (last (now # map fst cs)) k (registry_calls cs reg)"
  using assms
proof (induction cs arbitrary: now reg)
  case Nil
  then show ?case by (simp add: registry_calls_def)
next
  case (Cons tc cs)
  obtain t c where tc: "tc = (t, c)" by (cases tc)
  have "fenced t k (registry_step t c reg)" using Cons.prems tc by (auto intro!: fenced_step)
  from Cons.IH [OF this] Cons.prems tc show ?case by (simp add: registry_calls_def)
qed

section \<open>Properties\<close>

text \<open>
  C38.  In every state the registry can reach, the Workers it lists are sorted by identifier
  without duplicates, their free slots lie between zero and their capacity, each holds a lease
  that ends exactly one lease period after its last accepted heartbeat, and none is marked lost
  while its lease still runs.
\<close>

theorem registry_invariant:
  assumes "registry_reachable ttl now reg"
  shows "sorted (map w_id (list_workers reg)) \<and> distinct (map w_id (list_workers reg))
    \<and> (\<forall>w \<in> set (list_workers reg).
         0 \<le> w_available_slots w \<and> w_available_slots w \<le> w_slots w
         \<and> (\<exists>beat. w_last_heartbeat_at w = Some beat \<and> beat \<le> now
              \<and> w_lease_expires_at w = Some (beat + ttl)
              \<and> (w_state w = WS_LOST \<longrightarrow> beat + ttl \<le> now)))"
proof -
  note ok = reachable_registry_ok [OF assms]
  have ids: "map w_id (map snd (workers reg)) = map fst (workers reg)"
    using ok by (auto simp: registry_ok_def)
  have "mset (map w_id (list_workers reg)) = mset (map w_id (map snd (workers reg)))"
    unfolding list_workers_def by (simp only: mset_map mset_sort)
  then have "distinct (map w_id (list_workers reg))"
    using ok ids by (metis mset_eq_imp_distinct_iff registry_ok_def dict_ok_def)
  then show ?thesis
    using ok by (fastforce simp: list_workers_def registry_ok_def worker_ok_def valid_worker_def)
qed

definition sample_registration :: "string \<Rightarrow> worker_registration" where
  "sample_registration k =
     \<lparr>wr_id = k, wr_endpoint = ''http://w'', wr_slots = 2, wr_memory_limit_bytes = 1024,
      wr_labels = []\<rparr>"

definition sample_registry :: registry where
  "sample_registry =
     registry_step 14 Expire
       (registry_step 3 (Register (sample_registration ''w1'') ''lease-1'') (new_registry 10))"

lemma sample_registry_reachable: "registry_reachable 10 14 sample_registry"
proof -
  have "registry_reachable 10 3
      (registry_step 3 (Register (sample_registration ''w1'') ''lease-1'') (new_registry 10))"
    by (rule registry_reachable.Call [OF registry_reachable.Start [of 10 3]]) simp_all
  then show ?thesis unfolding sample_registry_def by (rule registry_reachable.Call) simp_all
qed

lemma registry_invariant_witness:
  "sorted (map w_id (list_workers sample_registry))
   \<and> distinct (map w_id (list_workers sample_registry))
   \<and> list_all (\<lambda>w. 0 \<le> w_available_slots w \<and> w_available_slots w \<le> w_slots w
         \<and> (\<exists>beat. w_last_heartbeat_at w = Some beat \<and> beat \<le> 14
              \<and> w_lease_expires_at w = Some (beat + 10)
              \<and> (w_state w = WS_LOST \<longrightarrow> beat + 10 \<le> 14))) (list_workers sample_registry)"
  unfolding list_all_iff by (rule registry_invariant [OF sample_registry_reachable])

text \<open>
  C39.  A lost Worker is fenced for good: once the registry has marked it lost, whatever
  heartbeats, expiries and registrations of other Workers follow, with a clock that does not
  go backwards, it stays lost and every heartbeat it sends, under any lease, is refused with
  \<open>LEASE_REJECTED\<close> and status 409.  Only registering again brings it back.
\<close>

theorem lost_worker_stays_fenced:
  assumes "registry_reachable ttl now reg"
    and "dict_get (workers reg) k = Some w" and "w_state w = WS_LOST"
    and "sorted_wrt (\<le>) (now # map fst cs)"
    and "\<forall>(t, c) \<in> set cs. \<not> registers k c"
    and "last (now # map fst cs) \<le> later"
  shows "(\<exists>w'. dict_get (workers (registry_calls cs reg)) k = Some w' \<and> w_state w' = WS_LOST)
    \<and> (\<exists>d. fst (heartbeat later k h (registry_calls cs reg)) = Inl (DomainError d)
         \<and> de_code d = LEASE_REJECTED \<and> de_status d = 409)"
proof -
  have f: "fenced (last (now # map fst cs)) k (registry_calls cs reg)"
    by (rule fenced_calls [OF reachable_lost_fenced [OF assms(1-3)] assms(4,5)])
  then have "fenced later k (registry_calls cs reg)"
    using assms(6) by (auto simp: fenced_iff intro: lease_expired_later)
  from fenced_heartbeat_rejected [OF this] f show ?thesis by (auto simp: fenced_iff)
qed

definition sample_heartbeat :: worker_heartbeat where
  "sample_heartbeat = \<lparr>hb_lease_id = ''lease-1'', hb_available_slots = 1, hb_state = WS_ACTIVE\<rparr>"

lemma sample_registry_lost:
  "dict_get (workers sample_registry) ''w1''
     = Some \<lparr>w_id = ''w1'', w_endpoint = ''http://w'', w_state = WS_LOST, w_slots = 2,
          w_available_slots = 0, w_memory_limit_bytes = 1024, w_lease_id = Some ''lease-1'',
          w_lease_expires_at = Some 13, w_registered_at = 3, w_last_heartbeat_at = Some 3,
          w_labels = []\<rparr>"
  by (simp add: sample_registry_def expire_leases_def register_def make_worker_def valid_worker_def
      new_registry_def sample_registration_def expires_now_def dict_get_def dict_set_def)

lemma lost_worker_stays_fenced_witness:
  "(\<exists>w'. dict_get (workers (registry_calls [(15, Heartbeat ''w1'' sample_heartbeat)] sample_registry))
        ''w1'' = Some w' \<and> w_state w' = WS_LOST)
    \<and> (\<exists>d. fst (heartbeat 16 ''w1'' sample_heartbeat
             (registry_calls [(15, Heartbeat ''w1'' sample_heartbeat)] sample_registry))
           = Inl (DomainError d)
         \<and> de_code d = LEASE_REJECTED \<and> de_status d = 409)"
  by (rule lost_worker_stays_fenced [OF sample_registry_reachable sample_registry_lost]) simp_all

text \<open>A request is refused with a code, an HTTP status and a message, and leaves the registry \<open>reg\<close>.\<close>

definition refused :: "worker res \<times> registry \<Rightarrow> error_code \<Rightarrow> int \<Rightarrow> string \<Rightarrow> registry \<Rightarrow> bool" where
  "refused out code status msg reg \<longleftrightarrow> snd out = reg
     \<and> (\<exists>d. fst out = Inl (DomainError d) \<and> de_code d = code \<and> de_status d = status \<and> de_message d = msg)"

text \<open>
  C40. What a heartbeat does on every branch, in the order of the checks.  An unknown Worker is refused
  with \<open>NOT_FOUND\<close> (404), a heartbeat that does not present the current lease with \<open>LEASE_REJECTED\<close> (409),
  and neither changes the registry; one with the current lease that comes too late is refused with
  \<open>LEASE_REJECTED\<close> (409) too, told apart by its message only, and marks that Worker alone as lost (the slots
  it had stay recorded, unlike after \<open>expire_leases\<close>); one that claims more slots than the Worker has is
  refused with \<open>INVALID_REQUEST\<close> (422) and changes nothing.  Every other heartbeat is accepted: the Worker
  takes the claimed state and slots and its lease runs from now, and no other Worker changes.
\<close>

theorem heartbeat_accepts_exactly_live_leases:
  "(dict_get (workers reg) k = None \<longrightarrow>
      refused (heartbeat now k h reg) NOT_FOUND 404 (''Worker '' @ py_repr k @ '' is not registered.'') reg)
   \<and> (\<forall>w. dict_get (workers reg) k = Some w \<longrightarrow>
      (if w_lease_id w \<noteq> Some (hb_lease_id h) then
         refused (heartbeat now k h reg) LEASE_REJECTED 409 (''Lease for Worker '' @ py_repr k @ '' is not valid.'') reg
       else if lease_expired now w then
         refused (heartbeat now k h reg) LEASE_REJECTED 409 (''Lease for Worker '' @ py_repr k @ '' has expired.'')
           (reg\<lparr>workers := dict_set (workers reg) k (w\<lparr>w_state := WS_LOST\<rparr>)\<rparr>)
       else if w_slots w < hb_available_slots h then
         refused (heartbeat now k h reg) INVALID_REQUEST 422 ''Available slots cannot exceed configured Worker slots.'' reg
       else \<exists>w'. heartbeat now k h reg = (Inr w', reg\<lparr>workers := dict_set (workers reg) k w'\<rparr>)
         \<and> w_lease_expires_at w' = Some (now + lease_ttl reg) \<and> w_lease_id w' = w_lease_id w
         \<and> w_available_slots w' = hb_available_slots h \<and> w_state w' = hb_state h
         \<and> w_last_heartbeat_at w' = Some now \<and> w_slots w' = w_slots w))"
proof (cases "dict_get (workers reg) k")
  case None
  then show ?thesis by (simp add: heartbeat_def refused_def raise_domain_def)
next
  case (Some w)
  then show ?thesis by (simp add: heartbeat_def refused_def raise_domain_def Let_def)
qed

lemma heartbeat_accepts_exactly_live_leases_witness:
  "refused (heartbeat 20 ''w1'' sample_heartbeat
      (registry_step 3 (Register (sample_registration ''w1'') ''lease-1'') (new_registry 10)))
      LEASE_REJECTED 409 (''Lease for Worker '' @ py_repr ''w1'' @ '' has expired.'')
      (let reg = registry_step 3 (Register (sample_registration ''w1'') ''lease-1'') (new_registry 10) in
       reg\<lparr>workers := dict_set (workers reg) ''w1'' ((the (dict_get (workers reg) ''w1''))\<lparr>w_state := WS_LOST\<rparr>)\<rparr>)
   \<and> is_ok (fst (heartbeat 5 ''w1'' sample_heartbeat
      (registry_step 3 (Register (sample_registration ''w1'') ''lease-1'') (new_registry 10))))"
proof -
  let ?reg = "registry_step 3 (Register (sample_registration ''w1'') ''lease-1'') (new_registry 10)"
  obtain w where w: "dict_get (workers ?reg) ''w1'' = Some w" "w_lease_id w = Some (hb_lease_id sample_heartbeat)"
      "\<not> lease_expired 5 w" "lease_expired 20 w" "\<not> w_slots w < hb_available_slots sample_heartbeat"
    by (simp add: register_def make_worker_def valid_worker_def new_registry_def
        sample_registration_def sample_heartbeat_def lease_expired_def)
  have "\<exists>w'. heartbeat 5 ''w1'' sample_heartbeat ?reg
      = (Inr w', ?reg\<lparr>workers := dict_set (workers ?reg) ''w1'' w'\<rparr>)"
    using heartbeat_accepts_exactly_live_leases [of ?reg "''w1''" 5 sample_heartbeat] w by auto
  moreover have "refused (heartbeat 20 ''w1'' sample_heartbeat ?reg) LEASE_REJECTED 409
      (''Lease for Worker '' @ py_repr ''w1'' @ '' has expired.'')
      (?reg\<lparr>workers := dict_set (workers ?reg) ''w1'' (w\<lparr>w_state := WS_LOST\<rparr>)\<rparr>)"
    using heartbeat_accepts_exactly_live_leases [of ?reg "''w1''" 20 sample_heartbeat] w(1,2,4) by simp
  ultimately show ?thesis using w(1) by (auto simp: Let_def)
qed

lemma expired_ids:
  assumes ok: "registry_ok ttl now reg"
  shows "k \<in> set (fst (expire_leases now reg)) \<longleftrightarrow>
    (\<exists>w. dict_get (workers reg) k = Some w \<and> expires_now now w)"
proof -
  have "dict_get (workers reg) k = Some w \<longleftrightarrow> (k, w) \<in> set (workers reg)" for w
    using ok by (auto simp: registry_ok_def dict_get_def dict_ok_def)
  then show ?thesis using ok
    by (fastforce simp: expire_leases_def registry_ok_def image_iff)
qed

lemma live_after_expiry:
  assumes ok: "registry_ok ttl now reg"
    and w: "dict_get (workers (snd (expire_leases now reg))) k = Some w" and "w_state w \<noteq> WS_LOST"
  shows "\<exists>end_time. w_lease_expires_at w = Some end_time \<and> now < end_time"
proof -
  obtain v where v: "dict_get (workers reg) k = Some v"
    and "w = (if expires_now now v then v\<lparr>w_state := WS_LOST, w_available_slots := 0\<rparr> else v)"
    using w by (auto simp: workers_expire)
  then have "w = v" "w_state v \<noteq> WS_LOST" "\<not> expires_now now v"
    using assms(3) by (auto split: if_splits)
  with registry_ok_get [OF ok v] show ?thesis by (auto simp: expires_now_def worker_ok_def)
qed

text \<open>
  \<open>expire_leases\<close> leaves no lapsed lease behind: afterwards every Worker that is not lost
  holds a lease that ends later than now, the Workers that were live keep their record, and
  the identifiers returned are exactly those of the Workers that were marked lost, each with no
  free slot left.
\<close>

theorem expire_leases_exact:
  assumes "registry_reachable ttl now reg" and "now \<le> later"
  shows "(\<forall>k w. dict_get (workers (snd (expire_leases later reg))) k = Some w \<longrightarrow>
            w_state w = WS_LOST \<or> (\<exists>end_time. w_lease_expires_at w = Some end_time \<and> later < end_time))
    \<and> set (fst (expire_leases later reg)) =
        {k. \<exists>w w'. dict_get (workers reg) k = Some w \<and> w_state w \<noteq> WS_LOST
              \<and> dict_get (workers (snd (expire_leases later reg))) k = Some w'
              \<and> w_state w' = WS_LOST \<and> w_available_slots w' = 0}
    \<and> (\<forall>k. k \<notin> set (fst (expire_leases later reg)) \<longrightarrow>
         dict_get (workers (snd (expire_leases later reg))) k = dict_get (workers reg) k)"
proof -
  have ok: "registry_ok ttl later reg"
    using registry_ok_later [OF reachable_registry_ok [OF assms(1)] assms(2)] .
  have "k \<in> set (fst (expire_leases later reg)) \<longleftrightarrow>
      k \<in> {k. \<exists>w w'. dict_get (workers reg) k = Some w \<and> w_state w \<noteq> WS_LOST
            \<and> dict_get (workers (snd (expire_leases later reg))) k = Some w'
            \<and> w_state w' = WS_LOST \<and> w_available_slots w' = 0}" for k
    unfolding expired_ids [OF ok] workers_expire mem_Collect_eq
    by (cases "dict_get (workers reg) k") (auto simp: expires_now_def)
  moreover have "dict_get (workers (snd (expire_leases later reg))) k = dict_get (workers reg) k"
    if "k \<notin> set (fst (expire_leases later reg))" for k
    using that unfolding expired_ids [OF ok] workers_expire
    by (cases "dict_get (workers reg) k") auto
  ultimately show ?thesis using live_after_expiry [OF ok] by blast
qed

lemma expire_leases_exact_witness:
  "set (fst (expire_leases 20 sample_registry)) =
        {k. \<exists>w w'. dict_get (workers sample_registry) k = Some w \<and> w_state w \<noteq> WS_LOST
              \<and> dict_get (workers (snd (expire_leases 20 sample_registry))) k = Some w'
              \<and> w_state w' = WS_LOST \<and> w_available_slots w' = 0}"
  by (rule expire_leases_exact [THEN conjunct2, THEN conjunct1, OF sample_registry_reachable]) simp

end
