(* ===== verification/Scheduler.thy ===== *)
theory Scheduler
  imports Physical Registry
begin

text \<open>
  The dependency-aware scheduler (\<open>execution/scheduler.py\<close>).  \<open>TaskScheduler.run\<close> is one
  coroutine that starts the stages, and \<open>_run_task\<close> is one coroutine per task of the current
  stage; they interleave at their \<open>await\<close>s.  The state \<open>sched\<close> holds what they share (the states
  of stages and tasks, the attempts, the outcomes, the round-robin counter, the cancellation
  token, the slots of the Workers) and, for every coroutine, its local variables and the
  \<open>await\<close> it is at.  Each function below is the code between two \<open>await\<close>s; \<open>sched_step\<close>
  interleaves them with the environment: results and failures of attempts, lease expiries,
  terminated Workers and cancellation.  Readings of the clock are arguments.
\<close>

section \<open>Policy, Workers and configuration\<close>

record retry_policy =
  rp_max_attempts :: int
  rp_backoff_seconds :: pyfloat
  rp_attempt_timeout_seconds :: pyfloat
  rp_lease_poll_interval_seconds :: pyfloat

definition make_retry_policy :: "retry_policy \<Rightarrow> retry_policy res" where
  "make_retry_policy p =
     (if rp_max_attempts p < 1 then Inl PyValueError
      else if flt (rp_backoff_seconds p) (Fin 0) then Inl PyValueError
      else if fle (rp_attempt_timeout_seconds p) (Fin 0) then Inl PyValueError
      else if fle (rp_lease_poll_interval_seconds p) (Fin 0) then Inl PyValueError
      else Inr p)"

record logical_worker =
  lw_id :: string
  lw_slots :: int

definition make_logical_worker :: "string \<Rightarrow> int \<Rightarrow> logical_worker res" where
  "make_logical_worker i slots =
     (if slots < 1 then Inl PyValueError else Inr \<lparr>lw_id = i, lw_slots = slots\<rparr>)"

record config =
  cf_policy :: retry_policy
  cf_workers :: "logical_worker list"
  cf_graph :: stage_graph
  cf_runners :: "string set"

text \<open>\<open>TaskScheduler.__init__\<close>.\<close>

definition make_config ::
    "retry_policy \<Rightarrow> logical_worker list \<Rightarrow> stage_graph \<Rightarrow> string set \<Rightarrow> config res" where
  "make_config policy ws graph runners =
     (if \<not> distinct (map lw_id ws) then Inl PyValueError
      else if ws = [] then Inl PyValueError
      else Inr \<lparr>cf_policy = policy, cf_workers = sort_key lw_id ws, cf_graph = graph,
                cf_runners = runners\<rparr>)"

definition attempts_allowed :: "config \<Rightarrow> nat" where
  "attempts_allowed cf = nat (rp_max_attempts (cf_policy cf))"

fun failure_kind :: "exn \<Rightarrow> string" where
  "failure_kind (DomainError d) = ''domain''"
| "failure_kind WorkerLostError = ''network''"
| "failure_kind PyTimeoutError = ''timeout''"
| "failure_kind _ = ''worker_execution''"

section \<open>The state\<close>

record 'v task_outcome =
  to_task :: string
  to_attempt :: string
  to_worker :: string
  to_value :: 'v

text \<open>The \<open>await\<close> a task coroutine is at; a queued attempt waits for a slot of its Worker.\<close>

datatype 'v phase =
    Created | Ready | Queued string string | Executing string string | Backoff string
  | Returned "'v task_outcome" | Raised exn

record 'v task_run =
  r_task :: string
  r_number :: nat
  r_previous :: "string set"
  r_last_attempt :: "string option"
  r_last_error :: "exn option"
  r_phase :: "'v phase"

datatype main_state = M_Loop | M_Stage string | M_Done | M_Raised exn

record 'v sched =
  sd_stage_state :: "string \<Rightarrow> stage_state"
  sd_task_state :: "string \<Rightarrow> task_state"
  sd_attempt_ids :: "string \<Rightarrow> string list"
  sd_attempts :: "string \<rightharpoonup> attempt"
  sd_outcomes :: "string \<rightharpoonup> 'v task_outcome"
  sd_running :: "string \<Rightarrow> nat"
  sd_max_running :: "string \<Rightarrow> nat"
  sd_active :: "string \<Rightarrow> bool"
  sd_next_worker :: nat
  sd_cancelled :: bool
  sd_remaining :: "string set"
  sd_queue :: "string list"
  sd_runs :: "'v task_run list"
  sd_main :: main_state

definition initial_sched :: "config \<Rightarrow> nat \<Rightarrow> (string \<Rightarrow> bool) \<Rightarrow> 'v sched" where
  "initial_sched cf next_worker active =
     \<lparr>sd_stage_state = (\<lambda>_. SS_PENDING), sd_task_state = (\<lambda>_. TS_PENDING),
      sd_attempt_ids = (\<lambda>_. []), sd_attempts = Map.empty, sd_outcomes = Map.empty,
      sd_running = (\<lambda>_. 0), sd_max_running = (\<lambda>_. 0), sd_active = active,
      sd_next_worker = next_worker, sd_cancelled = False,
      sd_remaining = set (map st_id (sg_stages (cf_graph cf))), sd_queue = [], sd_runs = [],
      sd_main = M_Loop\<rparr>"

section \<open>Choosing a Worker\<close>

text \<open>The registry's view is \<open>None\<close> when the scheduler has no registry.\<close>

definition healthy_workers ::
    "config \<Rightarrow> (string \<Rightarrow> bool) \<Rightarrow> (string \<Rightarrow> worker_state option) option \<Rightarrow> string list" where
  "healthy_workers cf active registered =
     filter (\<lambda>w. active w \<and> (case registered of None \<Rightarrow> True | Some st \<Rightarrow> st w = Some WS_ACTIVE))
       (map lw_id (cf_workers cf))"

definition choose_worker :: "nat \<Rightarrow> string list \<Rightarrow> string set \<Rightarrow> string res" where
  "choose_worker next_worker healthy previous =
     (if healthy = [] then Inl WorkerLostError
      else
        let preferred = filter (\<lambda>w. w \<notin> previous) healthy;
            candidates = (if preferred \<noteq> [] then preferred else healthy)
        in Inr (candidates ! (next_worker mod length candidates)))"

section \<open>The coroutine of a task\<close>

definition task_of :: "config \<Rightarrow> string \<Rightarrow> task option" where
  "task_of cf tid = find (\<lambda>t. t_id t = tid) (sg_tasks (cf_graph cf))"

definition stage_id_of :: "config \<Rightarrow> string \<Rightarrow> string" where
  "stage_id_of cf tid = (case task_of cf tid of None \<Rightarrow> [] | Some t \<Rightarrow> t_stage_id t)"

definition query_id_of :: "config \<Rightarrow> string \<Rightarrow> string" where
  "query_id_of cf tid = (case task_of cf tid of None \<Rightarrow> [] | Some t \<Rightarrow> t_query_id t)"

definition set_run :: "nat \<Rightarrow> 'v task_run \<Rightarrow> 'v sched \<Rightarrow> 'v sched" where
  "set_run i r s = s\<lparr>sd_runs := (sd_runs s)[i := r]\<rparr>"

definition set_task_state :: "string \<Rightarrow> task_state \<Rightarrow> 'v sched \<Rightarrow> 'v sched" where
  "set_task_state tid st s = s\<lparr>sd_task_state := (sd_task_state s)(tid := st)\<rparr>"

definition set_attempt :: "string \<Rightarrow> (attempt \<Rightarrow> attempt) \<Rightarrow> 'v sched \<Rightarrow> 'v sched" where
  "set_attempt aid f s =
     s\<lparr>sd_attempts := (sd_attempts s)(aid := map_option f (sd_attempts s aid))\<rparr>"

definition new_attempt :: "string \<Rightarrow> attempt \<Rightarrow> 'v sched \<Rightarrow> 'v sched" where
  "new_attempt tid a s =
     s\<lparr>sd_attempts := (sd_attempts s)(a_id a \<mapsto> a),
       sd_attempt_ids := (sd_attempt_ids s)(tid := sd_attempt_ids s tid @ [a_id a])\<rparr>"

definition attempt_name :: "string \<Rightarrow> nat \<Rightarrow> string" where
  "attempt_name tid k = tid @ ''-attempt-'' @ fmt03 k"

text \<open>After the loop: the task failed, and its last error is redacted and raised.\<close>

definition error_context ::
    "config \<Rightarrow> string \<Rightarrow> string \<Rightarrow> string option \<Rightarrow> err_context \<Rightarrow> exn \<Rightarrow> err_context" where
  "error_context cf tid aid worker extra e =
     [(''query_id'', CStr (query_id_of cf tid)), (''stage_id'', CStr (stage_id_of cf tid)),
      (''task_id'', CStr tid), (''attempt_id'', CStr aid),
      (''worker_id'', case worker of None \<Rightarrow> CNull | Some w \<Rightarrow> CStr w)]
     @ extra @ [(''failure_kind'', CStr (failure_kind e))]"

definition task_failure :: "config \<Rightarrow> string \<Rightarrow> string \<Rightarrow> string option \<Rightarrow> nat \<Rightarrow> exn \<Rightarrow> exn" where
  "task_failure cf tid aid worker attempts e =
     (let detail = public_task_error e
            (error_context cf tid aid worker [(''attempt_count'', CInt (int attempts))] e)
      in DomainError \<lparr>de_code = ed_code detail, de_message = ed_message detail,
           de_status = (case e of DomainError d \<Rightarrow> de_status d | _ \<Rightarrow> 500),
           de_context = ed_context detail\<rparr>)"

definition fail_task :: "config \<Rightarrow> nat \<Rightarrow> 'v task_run \<Rightarrow> 'v sched \<Rightarrow> 'v sched" where
  "fail_task cf i r s =
     (case (r_last_attempt r, r_last_error r) of
        (Some aid, Some e) \<Rightarrow>
          set_run i (r\<lparr>r_phase := Raised (task_failure cf (r_task r) aid
              (case sd_attempts s aid of None \<Rightarrow> None | Some a \<Rightarrow> a_worker_id a)
              (length (sd_attempt_ids s (r_task r))) e)\<rparr>)
            (set_task_state (r_task r) TS_FAILED s)
      | _ \<Rightarrow> set_run i (r\<lparr>r_phase := Raised PyAssertionError\<rparr>) s)"

definition begin_run :: "nat \<Rightarrow> 'v task_run \<Rightarrow> 'v sched \<Rightarrow> 'v sched" where
  "begin_run i r s =
     set_run i (r\<lparr>r_phase := Ready\<rparr>) (set_task_state (r_task r) TS_RUNNING s)"

text \<open>The top of the loop: check the token, choose a Worker, create the attempt.\<close>

definition dispatch_run ::
    "config \<Rightarrow> string list \<Rightarrow> int \<Rightarrow> nat \<Rightarrow> 'v task_run \<Rightarrow> 'v sched \<Rightarrow> 'v sched" where
  "dispatch_run cf healthy now i r s =
     (let tid = r_task r; k = length (sd_attempt_ids s tid); aid = attempt_name tid k in
      if sd_cancelled s then set_run i (r\<lparr>r_phase := Raised ExecutionCancelled\<rparr>) s
      else case choose_worker (sd_next_worker s) healthy (r_previous r) of
          Inl e \<Rightarrow>
            (case r_last_attempt r of
               Some _ \<Rightarrow> fail_task cf i (r\<lparr>r_last_error := Some e\<rparr>) s
             | None \<Rightarrow>
                 fail_task cf i (r\<lparr>r_last_error := Some e, r_last_attempt := Some aid\<rparr>)
                   (new_attempt tid
                      \<lparr>a_id = aid, a_task_id = tid, a_number = k, a_worker_id = None,
                       a_state = AS_FAILED, a_started_at = Some now, a_finished_at = Some now,
                       a_error = Some (LocalError ''WorkerLostError'' ''No healthy Worker is available.'')\<rparr> s))
        | Inr w \<Rightarrow>
            set_run i (r\<lparr>r_previous := insert w (r_previous r), r_last_attempt := Some aid,
                         r_phase := Queued aid w\<rparr>)
              (new_attempt tid
                 \<lparr>a_id = aid, a_task_id = tid, a_number = k, a_worker_id = Some w,
                  a_state = AS_CREATED, a_started_at = None, a_finished_at = None, a_error = None\<rparr>
                 (s\<lparr>sd_next_worker := Suc (sd_next_worker s)\<rparr>)))"

text \<open>\<open>LogicalWorker.execute\<close> gets a slot, and gives it back in its \<open>finally\<close>.\<close>

definition slots_of :: "config \<Rightarrow> string \<Rightarrow> nat" where
  "slots_of cf w =
     (case find (\<lambda>x. lw_id x = w) (cf_workers cf) of None \<Rightarrow> 0 | Some x \<Rightarrow> nat (lw_slots x))"

definition enter_slot :: "string \<Rightarrow> 'v sched \<Rightarrow> 'v sched" where
  "enter_slot w s =
     (let n = Suc (sd_running s w) in
      s\<lparr>sd_running := (sd_running s)(w := n),
        sd_max_running := (sd_max_running s)(w := max (sd_max_running s w) n)\<rparr>)"

definition leave_slot :: "string \<Rightarrow> 'v sched \<Rightarrow> 'v sched" where
  "leave_slot w s = s\<lparr>sd_running := (sd_running s)(w := sd_running s w - 1)\<rparr>"

text \<open>\<open>_mark_attempt_started\<close>: the first notification wins.\<close>

definition mark_started :: "string \<Rightarrow> int \<Rightarrow> 'v sched \<Rightarrow> 'v sched" where
  "mark_started aid now = set_attempt aid (\<lambda>a. a\<lparr>a_state := AS_RUNNING, a_started_at := Some now\<rparr>)"

definition finish_attempt :: "string \<Rightarrow> attempt_state \<Rightarrow> int \<Rightarrow> 'v sched \<Rightarrow> 'v sched" where
  "finish_attempt aid st now = set_attempt aid (\<lambda>a. a\<lparr>a_state := st, a_finished_at := Some now\<rparr>)"

text \<open>The end of \<open>_execute_attempt\<close>: a value or an exception, and the branches that handle it.\<close>

definition settle_run ::
    "config \<Rightarrow> exn + 'v \<Rightarrow> int \<Rightarrow> nat \<Rightarrow> 'v task_run \<Rightarrow> string \<Rightarrow> string \<Rightarrow> 'v sched \<Rightarrow> 'v sched" where
  "settle_run cf result now i r aid w s =
     (let tid = r_task r;
          result' = (case result of
            Inr v \<Rightarrow> if sd_cancelled s then Inl ExecutionCancelled else Inr v | Inl e \<Rightarrow> Inl e)
      in case result' of
          Inr v \<Rightarrow>
            set_run i (r\<lparr>r_phase := Returned
                \<lparr>to_task = tid, to_attempt = aid, to_worker = w, to_value = v\<rparr>\<rparr>)
              (set_task_state tid TS_SUCCEEDED (finish_attempt aid AS_SUCCEEDED now s))
        | Inl e \<Rightarrow>
            if e \<in> {ExecutionCancelled, AsyncCancelled} then
              set_run i (r\<lparr>r_phase := Raised e\<rparr>)
                (set_task_state tid TS_CANCELED (finish_attempt aid AS_CANCELED now s))
            else if e = CancellationConfirmationError then
              set_run i (r\<lparr>r_phase := Raised e\<rparr>)
                (set_task_state tid TS_FAILED (finish_attempt aid AS_FAILED now s))
            else
              let r' = r\<lparr>r_last_error := Some e\<rparr>;
                  s' = set_attempt aid (\<lambda>a. a\<lparr>a_state := (if e = WorkerLostError then AS_LOST else AS_FAILED),
                         a_error := Some (TaskError (public_task_error e (error_context cf tid aid (Some w) [] e)))\<rparr>) s
              in if Suc (r_number r) < attempts_allowed cf
                 then set_run i (r'\<lparr>r_phase := Backoff aid\<rparr>) s'
                 else fail_task cf i r' (set_attempt aid (\<lambda>a. a\<lparr>a_finished_at := Some now\<rparr>) s'))"

text \<open>\<open>_retry_backoff\<close> ends: the token is checked, then the next round of the loop begins.\<close>

definition end_backoff :: "int \<Rightarrow> nat \<Rightarrow> 'v task_run \<Rightarrow> string \<Rightarrow> 'v sched \<Rightarrow> 'v sched" where
  "end_backoff now i r aid s =
     set_run i
       (if sd_cancelled s then r\<lparr>r_phase := Raised ExecutionCancelled\<rparr>
        else r\<lparr>r_phase := Ready, r_number := Suc (r_number r)\<rparr>)
       (set_attempt aid (\<lambda>a. a\<lparr>a_finished_at := Some now\<rparr>) s)"

section \<open>The coroutine of the scheduler\<close>

fun deps_succeeded :: "config \<Rightarrow> 'v sched \<Rightarrow> string list \<Rightarrow> bool res" where
  "deps_succeeded cf s [] = Inr True"
| "deps_succeeded cf s (d # ds) =
     (if d \<notin> set (map st_id (sg_stages (cf_graph cf))) then Inl PyKeyError
      else if sd_stage_state s d = SS_SUCCEEDED then deps_succeeded cf s ds
      else Inr False)"

fun ready_stages :: "config \<Rightarrow> 'v sched \<Rightarrow> stage list \<Rightarrow> string list res" where
  "ready_stages cf s [] = Inr []"
| "ready_stages cf s (st # sts) =
     (if st_id st \<notin> sd_remaining s then ready_stages cf s sts
      else bindR (deps_succeeded cf s (st_dependencies st)) (\<lambda>ok.
           bindR (ready_stages cf s sts) (\<lambda>ids. Inr (if ok then st_id st # ids else ids))))"

definition tasks_of_stage :: "config \<Rightarrow> string \<Rightarrow> task list" where
  "tasks_of_stage cf sid =
     sort_key (p_ordinal \<circ> t_partition) (filter (\<lambda>t. t_stage_id t = sid) (sg_tasks (cf_graph cf)))"

definition new_run :: "task \<Rightarrow> 'v task_run" where
  "new_run t =
     \<lparr>r_task = t_id t, r_number = 0, r_previous = {}, r_last_attempt = None, r_last_error = None,
      r_phase = Created\<rparr>"

text \<open>Pending stages and tasks become canceled, and the result is returned.\<close>

definition cancel_pending :: "'v sched \<Rightarrow> 'v sched" where
  "cancel_pending s =
     s\<lparr>sd_stage_state := (\<lambda>x. if sd_stage_state s x = SS_PENDING then SS_CANCELED else sd_stage_state s x),
       sd_task_state := (\<lambda>x. if sd_task_state s x = TS_PENDING then TS_CANCELED else sd_task_state s x),
       sd_main := M_Done\<rparr>"

definition start_stage :: "config \<Rightarrow> string \<Rightarrow> string list \<Rightarrow> 'v sched \<Rightarrow> 'v sched" where
  "start_stage cf sid rest s =
     (let ts = tasks_of_stage cf sid;
          s' = s\<lparr>sd_stage_state := (sd_stage_state s)(sid := SS_RUNNING), sd_queue := rest\<rparr>
      in if list_all (\<lambda>t. t_id t \<in> cf_runners cf) ts
         then s'\<lparr>sd_runs := map new_run ts, sd_main := M_Stage sid\<rparr>
         else s'\<lparr>sd_runs := map new_run (takeWhile (\<lambda>t. t_id t \<in> cf_runners cf) ts),
                 sd_main := M_Raised PyKeyError\<rparr>)"

text \<open>One round of \<open>while remaining\<close>, or one of its inner loop over the ready stages.\<close>

definition main_next :: "config \<Rightarrow> 'v sched \<Rightarrow> 'v sched" where
  "main_next cf s =
     (case sd_queue s of
        sid # rest \<Rightarrow> if sd_cancelled s then cancel_pending s else start_stage cf sid rest s
      | [] \<Rightarrow>
          if sd_remaining s = {} then s\<lparr>sd_main := M_Done\<rparr>
          else case ready_stages cf s (sg_stages (cf_graph cf)) of
              Inl e \<Rightarrow> s\<lparr>sd_main := M_Raised e\<rparr>
            | Inr [] \<Rightarrow> s\<lparr>sd_main := M_Raised PyRuntimeError\<rparr>
            | Inr ids \<Rightarrow> s\<lparr>sd_queue := sort_key id ids\<rparr>)"

fun run_returned :: "'v task_run \<Rightarrow> 'v task_outcome option" where
  "run_returned r = (case r_phase r of Returned x \<Rightarrow> Some x | _ \<Rightarrow> None)"

fun run_raised :: "'v task_run \<Rightarrow> exn option" where
  "run_raised r = (case r_phase r of Raised e \<Rightarrow> Some e | _ \<Rightarrow> None)"

definition settled :: "'v task_run \<Rightarrow> bool" where
  "settled r \<longleftrightarrow> run_returned r \<noteq> None \<or> run_raised r \<noteq> None"

text \<open>\<open>gather\<close> returns: every task succeeded.\<close>

definition stage_succeeds :: "string \<Rightarrow> 'v sched \<Rightarrow> 'v sched" where
  "stage_succeeds sid s =
     s\<lparr>sd_outcomes := sd_outcomes s ++
         map_of (rev (map (\<lambda>x. (to_task x, x)) (List.map_filter run_returned (sd_runs s)))),
       sd_stage_state := (sd_stage_state s)(sid := SS_SUCCEEDED),
       sd_remaining := sd_remaining s - {sid}, sd_runs := [], sd_main := M_Loop\<rparr>"

text \<open>\<open>gather\<close> raises \<open>e\<close>: a cancellation waits for every task, any other error does not.\<close>

definition is_cancellation :: "exn \<Rightarrow> bool" where
  "is_cancellation e \<longleftrightarrow> e = ExecutionCancelled \<or> e = AsyncCancelled"

definition stage_raises :: "string \<Rightarrow> exn \<Rightarrow> 'v sched \<Rightarrow> 'v sched" where
  "stage_raises sid e s =
     (if is_cancellation e then
        let tids = set (map r_task (sd_runs s));
            s' = s\<lparr>sd_stage_state := (sd_stage_state s)(sid := SS_CANCELED),
                   sd_task_state := (\<lambda>x. if x \<in> tids \<and> sd_task_state s x \<in> {TS_PENDING, TS_RUNNING}
                                         then TS_CANCELED else sd_task_state s x)\<rparr>
        in if CancellationConfirmationError \<in> set (List.map_filter run_raised (sd_runs s))
           then s'\<lparr>sd_main := M_Raised CancellationConfirmationError\<rparr>
           else if e = ExecutionCancelled then cancel_pending s'
           else s'\<lparr>sd_main := M_Raised e\<rparr>
      else s\<lparr>sd_stage_state := (sd_stage_state s)(sid := SS_FAILED), sd_main := M_Raised e\<rparr>)"

section \<open>Interleaving\<close>

definition run_at :: "nat \<Rightarrow> 'v task_run \<Rightarrow> 'v sched \<Rightarrow> bool" where
  "run_at i r s \<longleftrightarrow> i < length (sd_runs s) \<and> sd_runs s ! i = r"

inductive sched_step :: "config \<Rightarrow> 'v sched \<Rightarrow> 'v sched \<Rightarrow> bool" for cf :: config where
  Main: "sd_main s = M_Loop \<Longrightarrow> sched_step cf s (main_next cf s)"
| StageSucceeds: "sd_main s = M_Stage sid \<Longrightarrow> \<forall>r \<in> set (sd_runs s). run_returned r \<noteq> None
    \<Longrightarrow> sched_step cf s (stage_succeeds sid s)"
| StageRaises: "sd_main s = M_Stage sid \<Longrightarrow> r \<in> set (sd_runs s) \<Longrightarrow> run_raised r = Some e
    \<Longrightarrow> (is_cancellation e \<Longrightarrow> \<forall>r' \<in> set (sd_runs s). settled r')
    \<Longrightarrow> sched_step cf s (stage_raises sid e s)"
| Begin: "run_at i r s \<Longrightarrow> r_phase r = Created \<Longrightarrow> sched_step cf s (begin_run i r s)"
| Dispatch: "run_at i r s \<Longrightarrow> r_phase r = Ready
    \<Longrightarrow> sched_step cf s (dispatch_run cf (healthy_workers cf (sd_active s) registered) now i r s)"
| Enter: "run_at i r s \<Longrightarrow> r_phase r = Queued aid w \<Longrightarrow> sd_running s w < slots_of cf w
    \<Longrightarrow> sd_active s w \<Longrightarrow> \<not> sd_cancelled s
    \<Longrightarrow> sched_step cf s (set_run i (r\<lparr>r_phase := Executing aid w\<rparr>) (enter_slot w s))"
| Started: "t \<in> set (sg_tasks (cf_graph cf)) \<Longrightarrow> aid \<in> set (sd_attempt_ids s (t_id t))
    \<Longrightarrow> sd_attempts s aid = Some a \<Longrightarrow> a_started_at a = None
    \<Longrightarrow> sched_step cf s (mark_started aid now s)"
| GiveUp: "run_at i r s \<Longrightarrow> r_phase r = Queued aid w
    \<Longrightarrow> sched_step cf s (settle_run cf (Inl e) now i r aid w s)"
| Settle: "run_at i r s \<Longrightarrow> r_phase r = Executing aid w
    \<Longrightarrow> sched_step cf s (settle_run cf result now i r aid w (leave_slot w s))"
| EndBackoff: "run_at i r s \<Longrightarrow> r_phase r = Backoff aid
    \<Longrightarrow> sched_step cf s (end_backoff now i r aid s)"
| Cancel: "\<not> sd_cancelled s \<Longrightarrow> sched_step cf s (s\<lparr>sd_cancelled := True\<rparr>)"
| Terminate: "sd_active s w \<Longrightarrow> w \<in> set (map lw_id (cf_workers cf))
    \<Longrightarrow> sched_step cf s (s\<lparr>sd_active := (sd_active s)(w := False)\<rparr>)"

end
