(* ===== verification/PhysicalLaws.thy ===== *)
theory PhysicalLaws
  imports Physical CostLaws
begin

text \<open>
  What the scheduler and the executors rely on: materializing exchanges only adds exchange nodes
  and build sides and gives every blocking operator the distribution it needs; splitting the plan
  gives a stage for every exchange, in an order in which dependencies come first, and a task for
  every partition.
\<close>

section \<open>Erasing exchanges\<close>

fun erase_exchanges :: "plan \<Rightarrow> plan" where
  "erase_exchanges (Scan i t a s) = Scan i t a s"
| "erase_exchanges (Project i p es s) = Project i (erase_exchanges p) es s"
| "erase_exchanges (Filter i p e s ph) = Filter i (erase_exchanges p) e s ph"
| "erase_exchanges (Aggregate i p gs as s) = Aggregate i (erase_exchanges p) gs as s"
| "erase_exchanges (Join i l r jt e s inlim b) =
     Join i (erase_exchanges l) (erase_exchanges r) jt e s inlim b"
| "erase_exchanges (Limit i p n s) = Limit i (erase_exchanges p) n s"
| "erase_exchanges (Order i p os s) = Order i (erase_exchanges p) os s"
| "erase_exchanges (Window i p es s) = Window i (erase_exchanges p) es s"
| "erase_exchanges (GroupingSets i p gs as s) = GroupingSets i (erase_exchanges p) gs as s"
| "erase_exchanges (Exchange i p st ks n s) = erase_exchanges p"

text \<open>The logical plan with the build sides of the decisions.\<close>

fun with_build_sides :: "(string, join_decision) dict \<Rightarrow> plan \<Rightarrow> plan" where
  "with_build_sides d (Scan i t a s) = Scan i t a s"
| "with_build_sides d (Project i p es s) = Project i (with_build_sides d p) es s"
| "with_build_sides d (Filter i p e s ph) = Filter i (with_build_sides d p) e s ph"
| "with_build_sides d (Aggregate i p gs as s) = Aggregate i (with_build_sides d p) gs as s"
| "with_build_sides d (Join i l r jt e s inlim b) =
     Join i (with_build_sides d l) (with_build_sides d r) jt e s inlim
       (case dict_get d i of Some x \<Rightarrow> jd_build_side x | None \<Rightarrow> b)"
| "with_build_sides d (Limit i p n s) = Limit i (with_build_sides d p) n s"
| "with_build_sides d (Order i p os s) = Order i (with_build_sides d p) os s"
| "with_build_sides d (Window i p es s) = Window i (with_build_sides d p) es s"
| "with_build_sides d (GroupingSets i p gs as s) = GroupingSets i (with_build_sides d p) gs as s"
| "with_build_sides d (Exchange i p st ks n s) = Exchange i (with_build_sides d p) st ks n s"

text \<open>The exchange on top of a plan, and what each blocking operator needs below it.\<close>

fun arrives :: "partition_strategy \<Rightarrow> expr list \<Rightarrow> int \<Rightarrow> plan \<Rightarrow> bool" where
  "arrives strategy ks n (Exchange i p st ks' n' s) \<longleftrightarrow> st = strategy \<and> ks' = ks \<and> n' = n"
| "arrives strategy ks n p \<longleftrightarrow> False"

definition grouped :: "expr list \<Rightarrow> int \<Rightarrow> plan \<Rightarrow> bool" where
  "grouped ks n p = (if ks \<noteq> [] then arrives P_HASH ks n p else arrives P_SINGLE [] 1 p)"

fun join_arrives :: "join_decision \<Rightarrow> int \<Rightarrow> plan \<Rightarrow> plan \<Rightarrow> bool" where
  "join_arrives d n l r \<longleftrightarrow>
     (case jd_strategy d of
        J_REUSE \<Rightarrow> True
      | J_REPARTITION_LEFT \<Rightarrow> arrives P_HASH (columns_of_names (jd_left_keys d)) n l
      | J_REPARTITION_RIGHT \<Rightarrow> arrives P_HASH (columns_of_names (jd_right_keys d)) n r
      | J_REPARTITION_BOTH \<Rightarrow>
          arrives P_HASH (columns_of_names (jd_left_keys d)) n l
          \<and> arrives P_HASH (columns_of_names (jd_right_keys d)) n r
      | J_BROADCAST \<Rightarrow> arrives P_BROADCAST [] n (if jd_build_side d = ''left'' then l else r))"

fun node_distributed :: "py_runtime \<Rightarrow> (string, join_decision) dict \<Rightarrow> int \<Rightarrow> plan \<Rightarrow> bool" where
  "node_distributed rt d n (Aggregate i p gs as s) \<longleftrightarrow> grouped gs n p"
| "node_distributed rt d n (Window i p es s) \<longleftrightarrow> grouped (window_partition_keys rt es) n p"
| "node_distributed rt d n (GroupingSets i p gs as s) \<longleftrightarrow> arrives P_SINGLE [] 1 p"
| "node_distributed rt d n (Order i p os s) \<longleftrightarrow> arrives P_SINGLE [] 1 p"
| "node_distributed rt d n (Limit i p k s) \<longleftrightarrow> arrives P_SINGLE [] 1 p"
| "node_distributed rt d n (Join i l r jt e s inlim b) \<longleftrightarrow>
     (case dict_get d i of None \<Rightarrow> False | Some x \<Rightarrow> join_arrives x n l r)"
| "node_distributed rt d n p \<longleftrightarrow> True"

definition distributed :: "py_runtime \<Rightarrow> (string, join_decision) dict \<Rightarrow> int \<Rightarrow> plan \<Rightarrow> bool" where
  "distributed rt d n p \<longleftrightarrow> (\<forall>q \<in> set (walk_plan p). node_distributed rt d n q)"

lemma distributed_step:
  "distributed rt d n p \<longleftrightarrow>
     node_distributed rt d n p \<and> (\<forall>c \<in> set (children p). distributed rt d n c)"
  unfolding distributed_def by (subst walk_plan.simps) auto

lemma make_exchange_Inr: "make_exchange i p st ks n s = Inr q \<Longrightarrow> q = Exchange i p st ks n s"
  by (auto simp: make_exchange_def split: if_splits)

lemma exchange_over_Inr:
  assumes "exchange_over p ks strategy n suffix = Inr q"
  shows "erase_exchanges q = erase_exchanges p \<and> arrives strategy ks n q
    \<and> (distributed rt d m p \<longrightarrow> distributed rt d m q)"
  using assms unfolding exchange_over_def
  by (auto dest!: make_exchange_Inr simp: distributed_step [of _ _ _ "Exchange _ _ _ _ _ _"])

lemma join_exchanges_Inr:
  assumes "join_exchanges d n l r = Inr (l', r')"
  shows "erase_exchanges l' = erase_exchanges l \<and> erase_exchanges r' = erase_exchanges r
    \<and> join_arrives d n l' r'
    \<and> (distributed rt ds m l \<longrightarrow> distributed rt ds m l')
    \<and> (distributed rt ds m r \<longrightarrow> distributed rt ds m r')"
  using assms exchange_over_Inr [of _ _ _ _ _ _ rt ds m]
  by (cases "jd_strategy d") (auto simp: join_exchanges_def Let_def bindR_eq_Inr split: if_splits)

lemma add_exchanges_Inr:
  assumes "add_exchanges rt d n p = Inr q" and "\<not> is_exchange p"
    and "\<forall>c \<in> set (children p). distributed rt d n c"
  shows "erase_exchanges q = (case erase_exchanges p of
           Join i l r jt e s inlim b \<Rightarrow>
             Join i l r jt e s inlim (case dict_get d i of Some x \<Rightarrow> jd_build_side x | None \<Rightarrow> b)
         | x \<Rightarrow> x) \<and> distributed rt d n q"
proof (cases p)
  case (Join i l r jt e s inlim b)
  then obtain x l' r' where x: "dict_get d i = Some x" and e: "join_exchanges x n l r = Inr (l', r')"
    and q: "make_join i l' r' jt e s inlim (jd_build_side x) = Inr q"
    using assms(1) by (auto simp: bindR_eq_Inr split: option.splits simp del: dict_get_None)
  have "q = Join i l' r' jt e s inlim (jd_build_side x)"
    using q by (auto simp: make_join_def split: if_splits)
  then show ?thesis
    using join_exchanges_Inr [OF e, of rt d n] assms(3) Join x
    by (simp add: distributed_step [of _ _ _ "Join _ _ _ _ _ _ _ _"])
qed (use assms exchange_over_Inr [of _ _ _ _ _ _ rt d n] in
     \<open>auto simp: bindR_eq_Inr Let_def grouped_def distributed_step [of _ _ _ "Project _ _ _ _"]
       distributed_step [of _ _ _ "Filter _ _ _ _ _"] distributed_step [of _ _ _ "Aggregate _ _ _ _ _"]
       distributed_step [of _ _ _ "Limit _ _ _ _"] distributed_step [of _ _ _ "Order _ _ _ _"]
       distributed_step [of _ _ _ "Window _ _ _ _"] distributed_step [of _ _ _ "GroupingSets _ _ _ _ _"]
       distributed_step [of _ _ _ "Scan _ _ _ _"] split: if_splits\<close>)

lemma with_input_Inr:
  assumes "with_input p cs = Inr q" and "length cs = length (children p)"
    and "\<not> is_scan p" and "\<not> is_exchange p"
  shows "children q = cs \<and> \<not> is_exchange q
    \<and> erase_exchanges q = (case p of
        Project i p es s \<Rightarrow> Project i (erase_exchanges (cs ! 0)) es s
      | Filter i p e s ph \<Rightarrow> Filter i (erase_exchanges (cs ! 0)) e s ph
      | Aggregate i p gs as s \<Rightarrow> Aggregate i (erase_exchanges (cs ! 0)) gs as s
      | Join i l r jt e s inlim b \<Rightarrow>
          Join i (erase_exchanges (cs ! 0)) (erase_exchanges (cs ! 1)) jt e s inlim b
      | Limit i p n s \<Rightarrow> Limit i (erase_exchanges (cs ! 0)) n s
      | Order i p os s \<Rightarrow> Order i (erase_exchanges (cs ! 0)) os s
      | Window i p es s \<Rightarrow> Window i (erase_exchanges (cs ! 0)) es s
      | GroupingSets i p gs as s \<Rightarrow> GroupingSets i (erase_exchanges (cs ! 0)) gs as s
      | x \<Rightarrow> x)"
  using assms
  by (cases p) (auto simp: make_join_def length_Suc_conv numeral_2_eq_2 split: list.splits if_splits)

lemma visit_exchanges_Inr:
  assumes "visit_exchanges rt d n p = Inr q" and "logical p"
  shows "erase_exchanges q = with_build_sides d p \<and> distributed rt d n q"
  using assms
proof (induction rt d n p arbitrary: q rule: visit_exchanges.induct)
  case (1 rt d n p)
  have log: "\<not> is_exchange p" "\<forall>c \<in> set (children p). logical c"
    using "1.prems"(2) unfolding logical_def by (subst (asm) walk_plan.simps; auto simp: list_all_iff)+
  show ?case
  proof (cases "is_scan p")
    case True
    then obtain i t a sc where p: "p = Scan i t a sc" by (cases p) auto
    then have "q = p" using "1.prems"(1) True by (subst (asm) visit_exchanges.simps) simp
    then show ?thesis by (simp add: p distributed_step [of _ _ _ "Scan _ _ _ _"])
  next
    case False
    then obtain cs r where cs: "mapR (visit_exchanges rt d n) (children p) = Inr cs"
      and r: "with_input p cs = Inr r" and q: "add_exchanges rt d n r = Inr q"
      using "1.prems"(1) by (subst (asm) visit_exchanges.simps) (auto simp: bindR_eq_Inr)
    have kids: "list_all2 (\<lambda>c c'. erase_exchanges c' = with_build_sides d c \<and> distributed rt d n c')
        (children p) cs"
      using cs "1.IH" [OF False] log(2)
      by (auto simp: mapR_Inr_iff intro: list.rel_mono_strong)
    then have dist: "\<forall>c \<in> set cs. distributed rt d n c"
      by (auto simp: list_all2_conv_all_nth in_set_conv_nth)
    note len = list_all2_lengthD [OF kids, symmetric]
    note inp = with_input_Inr [OF r len False log(1)]
    have "\<not> is_exchange r" "\<forall>c \<in> set (children r). distributed rt d n c" using inp dist by auto
    note added = add_exchanges_Inr [OF q this]
    have "erase_exchanges q = with_build_sides d p"
      using conjunct1 [OF added] inp kids log(1) False
      by (cases p) (auto simp: list_all2_Cons1)
    with added show ?thesis by blast
  qed
qed

text \<open>
  C8.  Materializing exchanges distributes the plan without changing it.  The physical plan with
  its exchanges erased is the logical plan with the build sides the cost model chose; every
  grouping reads an input hashed on its own grouping keys, every window one hashed on its common
  partition keys, every global operator a single partition, and the inputs of every join arrive
  as the join decision demands.
\<close>

theorem materialize_distributes:
  assumes "materialize_exchanges rt p ds n = Inr q" and "logical p"
  shows "erase_exchanges q = with_build_sides (decisions_by_node ds) p
    \<and> distributed rt (decisions_by_node ds) n q"
  using assms visit_exchanges_Inr by (auto simp: materialize_exchanges_def split: if_splits)

definition plain_rt :: py_runtime where
  "plain_rt = py_runtime.truncate sample_rt"

definition sample_decision :: join_decision where
  "sample_decision =
     \<lparr>jd_node_id = ''j'', jd_build_side = ''left'', jd_strategy = J_REPARTITION_RIGHT,
      jd_left_keys = [''t.a''], jd_right_keys = [''u.b''], jd_estimated_rows = Fin 1,
      jd_estimated_bytes = Fin 1, jd_cost = no_cost, jd_reason = []\<rparr>"

definition sample_aggregate_plan :: plan where
  "sample_aggregate_plan =
     Limit ''l'' (Aggregate ''g'' sample_join_plan [cost_column ''a'' ''t''] [] (cost_schema ''a''))
       3 (cost_schema ''a'')"

lemma materialize_distributes_witness:
  "\<exists>q. materialize_exchanges plain_rt sample_aggregate_plan [sample_decision] 4 = Inr q
    \<and> erase_exchanges q = with_build_sides (decisions_by_node [sample_decision]) sample_aggregate_plan
    \<and> distributed plain_rt (decisions_by_node [sample_decision]) 4 q"
proof -
  have "is_ok (materialize_exchanges plain_rt sample_aggregate_plan [sample_decision] 4)"
    by code_simp
  then obtain q where q: "materialize_exchanges plain_rt sample_aggregate_plan [sample_decision] 4 = Inr q"
    by (auto simp: is_ok_iff)
  have "logical sample_aggregate_plan" by code_simp
  from materialize_distributes [OF q this] q show ?thesis by blast
qed

section \<open>Stages come in dependency order\<close>

fun deps_ok :: "string set \<Rightarrow> stage list \<Rightarrow> bool" where
  "deps_ok seen [] \<longleftrightarrow> True"
| "deps_ok seen (s # ss) \<longleftrightarrow> set (st_dependencies s) \<subseteq> seen \<and> deps_ok (insert (st_id s) seen) ss"

lemma deps_ok_append:
  "deps_ok seen (xs @ ys) \<longleftrightarrow> deps_ok seen xs \<and> deps_ok (seen \<union> st_id ` set xs) ys"
  by (induction xs arbitrary: seen) simp_all

lemma deps_ok_mono: "deps_ok seen xs \<Longrightarrow> seen \<subseteq> seen' \<Longrightarrow> deps_ok seen' xs"
proof (induction xs arbitrary: seen seen')
  case (Cons x xs)
  have sub: "insert (st_id x) seen \<subseteq> insert (st_id x) seen'" using Cons.prems(2) by blast
  have "deps_ok (insert (st_id x) seen') xs" using Cons.IH [OF _ sub] Cons.prems(1) by simp
  moreover have "set (st_dependencies x) \<subseteq> seen'" using Cons.prems by (meson deps_ok.simps(2) order_trans)
  ultimately show ?case by simp
qed simp

definition stage_tasks_of :: "stage \<Rightarrow> task list" where
  "stage_tasks_of s = map (stage_task (st_query_id s) (st_id s)) [0..<nat (st_partition_count s)]"

definition fresh_stage :: "string \<Rightarrow> stage \<Rightarrow> bool" where
  "fresh_stage q s \<longleftrightarrow> st_query_id s = q \<and> st_state s = SS_PENDING \<and> 1 \<le> st_partition_count s"

text \<open>The stages and tasks added between two states of the planner.\<close>

definition extends ::
    "string \<Rightarrow> split_state \<Rightarrow> split_state \<Rightarrow> stage list \<Rightarrow> bool" where
  "extends q st st' new \<longleftrightarrow>
     sp_stages st' = sp_stages st @ new
     \<and> sp_tasks st' = sp_tasks st @ concat (map stage_tasks_of new)
     \<and> sp_next st' = sp_next st + length new
     \<and> distinct (map st_id new)
     \<and> st_id ` set new = stage_name q ` {sp_next st..<sp_next st'}
     \<and> deps_ok {} new \<and> list_all (fresh_stage q) new"

lemma stage_name_inject [simp]: "stage_name q i = stage_name q j \<longleftrightarrow> i = j"
  by (simp add: stage_name_def)

lemma stage_name_disjoint:
  "b \<le> c \<Longrightarrow> stage_name q ` {a..<b} \<inter> stage_name q ` {c..<d} = {}"
  by auto

lemma extends_refl: "extends q st st []"
  by (simp add: extends_def)

lemma extends_trans:
  assumes a: "extends q st st' new" and b: "extends q st' st'' new'"
  shows "extends q st st'' (new @ new')"
proof -
  have "st_id ` set new \<inter> st_id ` set new' = {}"
    using a b stage_name_disjoint [of "sp_next st'" "sp_next st'"] by (simp add: extends_def)
  moreover have "deps_ok (st_id ` set new) new'"
    using b by (auto simp: extends_def intro: deps_ok_mono)
  moreover have "{sp_next st..<sp_next st''} = {sp_next st..<sp_next st'} \<union> {sp_next st'..<sp_next st''}"
    using a b by (auto simp: extends_def)
  ultimately show ?thesis using a b
    by (simp add: extends_def deps_ok_append image_Un)
qed

lemma extends_stage:
  assumes inner: "extends q (st\<lparr>sp_next := Suc (sp_next st)\<rparr>) st' new"
    and deps: "set ds \<subseteq> st_id ` set new"
    and add: "add_stage q (stage_name q (sp_next st)) n node ds st' = Inr st''"
  shows "\<exists>s. extends q st st'' (new @ [s]) \<and> st_id s = stage_name q (sp_next st)
    \<and> st_dependencies s = ds \<and> st_plan s = node \<and> st_partition_count s = n"
proof -
  let ?s = "\<lparr>st_id = stage_name q (sp_next st), st_query_id = q, st_state = SS_PENDING,
    st_plan = node, st_dependencies = ds, st_partition_count = n\<rparr>"
  have st'': "st'' = st'\<lparr>sp_stages := sp_stages st' @ [?s],
      sp_tasks := sp_tasks st' @ map (stage_task q (stage_name q (sp_next st))) [0..<nat n]\<rparr>" and n: "1 \<le> n"
    using add by (auto simp: add_stage_def make_stage_def bindR_eq_Inr split: if_splits)
  have "{sp_next st..<sp_next st'} = insert (sp_next st) {Suc (sp_next st)..<sp_next st'}"
    using inner by (auto simp: extends_def)
  then have "extends q st st'' (new @ [?s])"
    using inner deps n
    by (auto simp: extends_def st'' deps_ok_append fresh_stage_def stage_tasks_of_def)
  then show ?thesis by force
qed

text \<open>The number of exchanges, and the shape of a fragment: exchanges are its leaves.\<close>

fun exchange_count :: "plan \<Rightarrow> nat" where
  "exchange_count p = (if is_exchange p then 1 else 0) + sum_list (map exchange_count (children p))"

declare exchange_count.simps [simp del]

fun exchange_leaves :: "plan_node \<Rightarrow> bool" where
  "exchange_leaves (PlanNode i ty cs s props) \<longleftrightarrow>
     (ty = N_EXCHANGE \<longrightarrow> cs = []) \<and> list_all exchange_leaves cs"

definition fragment_ok ::
    "string \<Rightarrow> plan list \<Rightarrow> split_state \<Rightarrow> string list \<Rightarrow> plan_node list \<Rightarrow> split_state \<Rightarrow> string list \<Rightarrow> bool" where
  "fragment_ok q ps st ds nodes st' ds' \<longleftrightarrow>
     (\<exists>new fresh. extends q st st' new \<and> ds' = ds @ fresh \<and> set fresh \<subseteq> st_id ` set new
        \<and> list_all exchange_leaves nodes \<and> list_all (exchange_leaves \<circ> st_plan) new
        \<and> length new = sum_list (map exchange_count ps))"

lemma fragment_ok_Nil: "fragment_ok q [] st ds [] st ds"
  by (auto simp: fragment_ok_def intro: extends_refl)

lemma fragment_ok_append:
  assumes "fragment_ok q ps st ds nodes st' ds'" and "fragment_ok q ps' st' ds' nodes' st'' ds''"
  shows "fragment_ok q (ps @ ps') st ds (nodes @ nodes') st'' ds''"
  using assms unfolding fragment_ok_def by (fastforce intro: extends_trans)

lemma fragment_children:
  assumes "\<And>c st ds node st' ds'. c \<in> set cs \<Longrightarrow>
      plan_fragment rt q c (st, ds) = Inr (node, st', ds') \<Longrightarrow> fragment_ok q [c] st ds [node] st' ds'"
    and "foldR (\<lambda>acc c. bindR (plan_fragment rt q c (snd acc)) (\<lambda>(node, fs').
           Inr (fst acc @ [node], fs'))) (ns, st, ds) cs = Inr (nodes, st', ds')"
  shows "\<exists>new. nodes = ns @ new \<and> fragment_ok q cs st ds new st' ds'"
  using assms
proof (induction cs arbitrary: ns st ds)
  case Nil
  then show ?case by (auto intro: fragment_ok_Nil)
next
  case (Cons c cs)
  obtain node st1 ds1 where step: "plan_fragment rt q c (st, ds) = Inr (node, st1, ds1)"
    and rest: "foldR (\<lambda>acc c. bindR (plan_fragment rt q c (snd acc)) (\<lambda>(node, fs').
           Inr (fst acc @ [node], fs'))) (ns @ [node], st1, ds1) cs = Inr (nodes, st', ds')"
    using Cons.prems(2) by (auto simp: bindR_eq_Inr)
  obtain new where "nodes = (ns @ [node]) @ new" "fragment_ok q cs st1 ds1 new st' ds'"
    using Cons.IH [OF _ rest] Cons.prems(1) by auto
  with fragment_ok_append [OF Cons.prems(1) [OF _ step]] show ?case by fastforce
qed

lemma fragment_node:
  assumes "fragment_ok q (children p) st ds nodes st' ds'" and "\<not> is_exchange p"
  shows "fragment_ok q [p] st ds
    [PlanNode (node_id p) (node_type p) nodes (Some (output_schema p)) props] st' ds'"
proof -
  have "node_type p \<noteq> N_EXCHANGE" using assms(2) by (cases p) auto
  with assms show ?thesis by (auto simp: fragment_ok_def exchange_count.simps [of p])
qed

lemma split_stage_ok:
  assumes frag: "\<And>st ds node st' ds'. plan_fragment rt q p (st, ds) = Inr (node, st', ds') \<Longrightarrow>
      fragment_ok q [p] st ds [node] st' ds'"
    and split: "split_stage rt q p n st = Inr (sid, st')"
  shows "\<exists>new s. extends q st st' (new @ [s]) \<and> st_id s = sid \<and> sid = stage_name q (sp_next st)
    \<and> st_partition_count s = n \<and> list_all (exchange_leaves \<circ> st_plan) (new @ [s])
    \<and> length new = exchange_count p"
proof -
  obtain node st1 ds where f: "plan_fragment rt q p (st\<lparr>sp_next := Suc (sp_next st)\<rparr>, []) = Inr (node, st1, ds)"
    and add: "add_stage q (stage_name q (sp_next st)) n node ds st1 = Inr st'"
    and sid: "sid = stage_name q (sp_next st)"
    using split by (auto simp: split_stage_def Let_def bindR_eq_Inr)
  obtain new where inner: "extends q (st\<lparr>sp_next := Suc (sp_next st)\<rparr>) st1 new"
    and "set ds \<subseteq> st_id ` set new" "exchange_leaves node"
    "list_all (exchange_leaves \<circ> st_plan) new" "length new = exchange_count p"
    using frag [OF f] by (auto simp: fragment_ok_def)
  with extends_stage [OF inner _ add] sid show ?thesis by fastforce
qed

lemma plan_fragment_ok:
  "plan_fragment rt q p (st, ds) = Inr (node, st', ds') \<Longrightarrow> fragment_ok q [p] st ds [node] st' ds'"
proof (induction p arbitrary: st ds node st' ds' rule: measure_induct_rule [of size])
  case (less p)
  show ?case
  proof (cases "is_exchange p")
    case True
    then obtain i c strategy ks n s where p: "p = Exchange i c strategy ks n s" by (cases p) auto
    then obtain sid where split: "split_stage rt q c n st = Inr (sid, st')"
      and node: "node = exchange_node rt p sid" "ds' = ds @ [sid]"
      using less.prems by (auto simp: plan_fragment_exchange bindR_eq_Inr)
    have frag: "plan_fragment rt q c (st, ds) = Inr (node, st', ds') \<Longrightarrow> fragment_ok q [c] st ds [node] st' ds'"
      for st ds node st' ds' using p by (intro less.IH) auto
    obtain new s where x: "extends q st st' (new @ [s])" "st_id s = sid"
      "list_all (exchange_leaves \<circ> st_plan) (new @ [s])" "length new = exchange_count c"
      using split_stage_ok [OF frag split] by blast
    have "fragment_ok q [p] st ds [node] st' ds'"
      unfolding fragment_ok_def
      using x node by (intro exI [of _ "new @ [s]"] exI [of _ "[sid]"])
        (auto simp: exchange_node_def p exchange_count.simps [of "Exchange _ _ _ _ _ _"])
    then show ?thesis .
  next
    case False
    obtain nodes where fold: "foldR (\<lambda>acc c. bindR (plan_fragment rt q c (snd acc)) (\<lambda>(node, fs').
           Inr (fst acc @ [node], fs'))) ([], st, ds) (children p) = Inr (nodes, st', ds')"
      and node: "node = PlanNode (node_id p) (node_type p) nodes (Some (output_schema p)) (node_properties rt p)"
      using less.prems by (auto simp: plan_fragment_other [OF False] bindR_eq_Inr)
    have "fragment_ok q (children p) st ds nodes st' ds'"
      using fragment_children [OF _ fold] less.IH size_children by fastforce
    from fragment_node [OF this False] show ?thesis by (simp add: node)
  qed
qed

lemma plan_stages_graph:
  assumes "plan_stages rt q p n = Inr g"
  shows "distinct (map st_id (sg_stages g)) \<and> deps_ok {} (sg_stages g)
    \<and> sg_stages g \<noteq> [] \<and> st_id (last (sg_stages g)) = sg_root g
    \<and> length (sg_stages g) = Suc (exchange_count p)
    \<and> sg_tasks g = concat (map stage_tasks_of (sg_stages g))
    \<and> list_all (\<lambda>s. st_state s = SS_PENDING \<and> 1 \<le> st_partition_count s
         \<and> exchange_leaves (st_plan s)) (sg_stages g)"
proof -
  obtain st where split: "split_stage rt q p n \<lparr>sp_next = 0, sp_stages = [], sp_tasks = []\<rparr>
      = Inr (sg_root g, st)" and g: "sg_stages g = sp_stages st" "sg_tasks g = sp_tasks st"
    using assms by (auto simp: plan_stages_def bindR_eq_Inr)
  obtain new s where "extends q \<lparr>sp_next = 0, sp_stages = [], sp_tasks = []\<rparr> st (new @ [s])"
    "st_id s = sg_root g" "list_all (exchange_leaves \<circ> st_plan) (new @ [s])"
    "length new = exchange_count p"
  proof -
    have "\<exists>new s. extends q \<lparr>sp_next = 0, sp_stages = [], sp_tasks = []\<rparr> st (new @ [s])
        \<and> st_id s = sg_root g \<and> list_all (exchange_leaves \<circ> st_plan) (new @ [s])
        \<and> length new = exchange_count p"
      using split_stage_ok [OF _ split] plan_fragment_ok by blast
    then show thesis using that by blast
  qed
  then show ?thesis
    by (auto simp: g extends_def fresh_stage_def list_all_iff)
qed

text \<open>
  C16.  The Stage DAG is well formed.  Cutting a plan yields one stage more than it has exchanges;
  stage identifiers are distinct; every stage depends only on stages listed before it, so the
  graph has no cycle, and the root stage comes last; every stage has exactly one pending task for
  each of its partitions, numbered from zero; and inside a fragment an exchange is a leaf, the
  place where the output of another stage is read.
\<close>

theorem stage_graph_well_formed:
  assumes "plan_stages rt q p n = Inr g"
  shows "distinct (map st_id (sg_stages g)) \<and> deps_ok {} (sg_stages g)
    \<and> sg_stages g \<noteq> [] \<and> st_id (last (sg_stages g)) = sg_root g
    \<and> length (sg_stages g) = Suc (exchange_count p)
    \<and> sg_tasks g = concat (map stage_tasks_of (sg_stages g))
    \<and> list_all (\<lambda>s. st_state s = SS_PENDING \<and> 1 \<le> st_partition_count s
         \<and> exchange_leaves (st_plan s)) (sg_stages g)"
  using plan_stages_graph [OF assms] .

definition sample_physical :: plan where
  "sample_physical =
     Limit ''l'' (Exchange ''x2'' (Aggregate ''g'' (Exchange ''x1'' sample_left P_HASH
         [cost_column ''a'' ''t''] 2 (cost_schema ''a'')) [cost_column ''a'' ''t''] []
         (cost_schema ''a'')) P_SINGLE [] 1 (cost_schema ''a'')) 3 (cost_schema ''a'')"

lemma stage_graph_well_formed_witness:
  "\<exists>g. plan_stages plain_rt ''q'' sample_physical 1 = Inr g
    \<and> distinct (map st_id (sg_stages g)) \<and> deps_ok {} (sg_stages g)
    \<and> length (sg_stages g) = Suc (exchange_count sample_physical)"
proof -
  have "is_ok (plan_stages plain_rt ''q'' sample_physical 1)" by code_simp
  then obtain g where "plan_stages plain_rt ''q'' sample_physical 1 = Inr g"
    by (auto simp: is_ok_iff)
  with stage_graph_well_formed [OF this] show ?thesis by blast
qed

end
