(* ===== verification/SchedulerLaws.thy ===== *)
theory SchedulerLaws
  imports Scheduler PhysicalLaws
begin

text \<open>
  Correctness of the scheduler.  The invariant \<open>sched_ok\<close> of the interleaving machine has three
  parts: the order of stages, the bookkeeping of every task coroutine, and the slots of the
  Workers.  A step of one coroutine changes only its own run and its own task; that is
  \<open>local_change\<close>, proved to keep the invariant once.  Safety, bounds, termination of every
  schedule and success of every undisturbed one follow.
\<close>

section \<open>Well-formed configurations\<close>

abbreviation stages :: "config \<Rightarrow> stage list" where
  "stages cf \<equiv> sg_stages (cf_graph cf)"

abbreviation stage_ids :: "config \<Rightarrow> string set" where
  "stage_ids cf \<equiv> set (map st_id (stages cf))"

abbreviation tasks :: "config \<Rightarrow> task list" where
  "tasks cf \<equiv> sg_tasks (cf_graph cf)"

definition config_ok :: "config \<Rightarrow> bool" where
  "config_ok cf \<longleftrightarrow>
     1 \<le> rp_max_attempts (cf_policy cf)
     \<and> distinct (map st_id (stages cf)) \<and> deps_ok {} (stages cf)
     \<and> distinct (map t_id (tasks cf))
     \<and> distinct (map lw_id (cf_workers cf)) \<and> cf_workers cf \<noteq> []
     \<and> (\<forall>w \<in> set (cf_workers cf). 1 \<le> lw_slots w)"

section \<open>The invariant\<close>

definition deps_done :: "config \<Rightarrow> 'v sched \<Rightarrow> string \<Rightarrow> bool" where
  "deps_done cf s x \<longleftrightarrow>
     (\<forall>st \<in> set (stages cf). st_id st = x \<longrightarrow>
        (\<forall>d \<in> set (st_dependencies st). sd_stage_state s d = SS_SUCCEEDED))"

fun main_ok :: "config \<Rightarrow> 'v sched \<Rightarrow> main_state \<Rightarrow> bool" where
  "main_ok cf s M_Loop \<longleftrightarrow>
     sd_runs s = [] \<and> (\<forall>x \<in> sd_remaining s. sd_stage_state s x = SS_PENDING)"
| "main_ok cf s (M_Stage sid) \<longleftrightarrow>
     sid \<in> sd_remaining s \<and> sid \<notin> set (sd_queue s) \<and> sd_stage_state s sid = SS_RUNNING
     \<and> (\<forall>x \<in> sd_remaining s. x \<noteq> sid \<longrightarrow> sd_stage_state s x = SS_PENDING)
     \<and> map r_task (sd_runs s) = map t_id (tasks_of_stage cf sid)"
| "main_ok cf s _ \<longleftrightarrow> True"

definition order_ok :: "config \<Rightarrow> 'v sched \<Rightarrow> bool" where
  "order_ok cf s \<longleftrightarrow>
     sd_remaining s \<subseteq> stage_ids cf
     \<and> (\<forall>x \<in> stage_ids cf. sd_stage_state s x = SS_SUCCEEDED \<longleftrightarrow> x \<notin> sd_remaining s)
     \<and> distinct (sd_queue s) \<and> set (sd_queue s) \<subseteq> sd_remaining s
     \<and> (\<forall>x \<in> set (sd_queue s). deps_done cf s x)
     \<and> (\<forall>x \<in> stage_ids cf. sd_stage_state s x \<in> {SS_RUNNING, SS_SUCCEEDED, SS_FAILED} \<longrightarrow> deps_done cf s x)
     \<and> main_ok cf s (sd_main s)"

definition tasks_ok :: "config \<Rightarrow> 'v sched \<Rightarrow> bool" where
  "tasks_ok cf s \<longleftrightarrow>
     (\<forall>t \<in> set (tasks cf).
        (sd_stage_state s (t_stage_id t) = SS_PENDING \<longrightarrow> sd_attempt_ids s (t_id t) = [])
        \<and> (sd_stage_state s (t_stage_id t) = SS_SUCCEEDED \<longrightarrow>
             sd_task_state s (t_id t) = TS_SUCCEEDED
             \<and> (\<exists>x. sd_outcomes s (t_id t) = Some x \<and> to_task x = t_id t)))
     \<and> (\<forall>r \<in> set (sd_runs s). \<exists>t \<in> set (tasks cf). t_id t = r_task r
          \<and> sd_stage_state s (t_stage_id t) \<notin> {SS_PENDING, SS_SUCCEEDED})"

text \<open>A run with the attempts and the state of its task.\<close>

fun phase_ok :: "config \<Rightarrow> string list \<Rightarrow> task_state \<Rightarrow> 'v task_run \<Rightarrow> 'v phase \<Rightarrow> bool" where
  "phase_ok cf ids st r Created \<longleftrightarrow> r_number r = 0 \<and> ids = []"
| "phase_ok cf ids st r Ready \<longleftrightarrow> r_number r < attempts_allowed cf \<and> length ids = r_number r"
| "phase_ok cf ids st r (Queued aid w) \<longleftrightarrow>
     r_number r < attempts_allowed cf \<and> length ids = Suc (r_number r) \<and> w \<in> set (map lw_id (cf_workers cf))"
| "phase_ok cf ids st r (Executing aid w) \<longleftrightarrow>
     r_number r < attempts_allowed cf \<and> length ids = Suc (r_number r) \<and> w \<in> set (map lw_id (cf_workers cf))"
| "phase_ok cf ids st r (Backoff aid) \<longleftrightarrow>
     Suc (r_number r) < attempts_allowed cf \<and> length ids = Suc (r_number r)"
| "phase_ok cf ids st r (Returned x) \<longleftrightarrow>
     length ids \<le> attempts_allowed cf \<and> st = TS_SUCCEEDED \<and> to_task x = r_task r"
| "phase_ok cf ids st r (Raised e) \<longleftrightarrow> length ids \<le> attempts_allowed cf"

definition run_ok :: "config \<Rightarrow> 'v sched \<Rightarrow> 'v task_run \<Rightarrow> bool" where
  "run_ok cf s r \<longleftrightarrow>
     phase_ok cf (sd_attempt_ids s (r_task r)) (sd_task_state s (r_task r)) r (r_phase r)"

definition ids_ok :: "config \<Rightarrow> string \<Rightarrow> string list \<Rightarrow> bool" where
  "ids_ok cf tid ids \<longleftrightarrow>
     length ids \<le> attempts_allowed cf \<and> ids = map (attempt_name tid) [0..<length ids]"

definition runs_ok :: "config \<Rightarrow> 'v sched \<Rightarrow> bool" where
  "runs_ok cf s \<longleftrightarrow>
     distinct (map r_task (sd_runs s)) \<and> (\<forall>r \<in> set (sd_runs s). run_ok cf s r)
     \<and> (\<forall>tid. ids_ok cf tid (sd_attempt_ids s tid))"

fun on_worker :: "string \<Rightarrow> 'v task_run \<Rightarrow> bool" where
  "on_worker w r = (case r_phase r of Executing aid w' \<Rightarrow> w' = w | _ \<Rightarrow> False)"

definition slots_ok :: "config \<Rightarrow> 'v sched \<Rightarrow> bool" where
  "slots_ok cf s \<longleftrightarrow>
     (\<forall>w. sd_running s w = length (filter (on_worker w) (sd_runs s))
        \<and> sd_running s w \<le> slots_of cf w \<and> sd_max_running s w \<le> slots_of cf w)"

definition sched_ok :: "config \<Rightarrow> 'v sched \<Rightarrow> bool" where
  "sched_ok cf s \<longleftrightarrow> order_ok cf s \<and> tasks_ok cf s \<and> runs_ok cf s \<and> slots_ok cf s"

lemma attempts_positive: "config_ok cf \<Longrightarrow> 0 < attempts_allowed cf"
  by (simp add: config_ok_def attempts_allowed_def)

lemma initial_ok: "config_ok cf \<Longrightarrow> sched_ok cf (initial_sched cf n active)"
  by (auto simp: sched_ok_def order_ok_def tasks_ok_def runs_ok_def slots_ok_def initial_sched_def
      ids_ok_def)

section \<open>Steps of one coroutine\<close>

text \<open>
  How far a coroutine is from its end: five steps per attempt that is left, the first of them
  the start.
\<close>

fun run_rank :: "config \<Rightarrow> 'v task_run \<Rightarrow> nat" where
  "run_rank cf r =
     (let k = 5 * (attempts_allowed cf - Suc (r_number r))
      in case r_phase r of
           Created \<Rightarrow> k + 5 | Ready \<Rightarrow> k + 4 | Queued _ _ \<Rightarrow> k + 3 | Executing _ _ \<Rightarrow> k + 2
         | Backoff _ \<Rightarrow> k + 1 | Returned _ \<Rightarrow> 0 | Raised _ \<Rightarrow> 0)"

text \<open>What a step of run \<open>i\<close> may change: it brings the run closer to its end.\<close>

definition local_change :: "config \<Rightarrow> nat \<Rightarrow> 'v task_run \<Rightarrow> 'v sched \<Rightarrow> 'v sched \<Rightarrow> bool" where
  "local_change cf i r s s' \<longleftrightarrow>
     (\<exists>r'. r_task r' = r_task r \<and> sd_runs s' = (sd_runs s)[i := r'] \<and> run_ok cf s' r'
        \<and> run_rank cf r' < run_rank cf r
        \<and> (\<forall>w. sd_running s' w + (if on_worker w r then 1 else 0)
                = sd_running s w + (if on_worker w r' then 1 else 0)))
     \<and> (\<forall>x. x \<noteq> r_task r \<longrightarrow> sd_task_state s' x = sd_task_state s x
          \<and> sd_attempt_ids s' x = sd_attempt_ids s x)
     \<and> ids_ok cf (r_task r) (sd_attempt_ids s' (r_task r))
     \<and> (\<forall>w. sd_running s' w \<le> slots_of cf w \<and> sd_max_running s' w \<le> slots_of cf w)
     \<and> sd_stage_state s' = sd_stage_state s \<and> sd_outcomes s' = sd_outcomes s
     \<and> sd_remaining s' = sd_remaining s \<and> sd_queue s' = sd_queue s \<and> sd_main s' = sd_main s"

lemma main_ok_cong:
  assumes "main_ok cf s m" and "sd_stage_state s' = sd_stage_state s"
    and "sd_remaining s' = sd_remaining s" and "sd_queue s' = sd_queue s"
    and "map r_task (sd_runs s') = map r_task (sd_runs s)"
  shows "main_ok cf s' m"
proof -
  have "sd_runs s' = [] \<longleftrightarrow> sd_runs s = []" using assms(5) by (metis map_is_Nil_conv)
  with assms show ?thesis by (cases m) auto
qed

lemma length_filter_update:
  assumes "i < length xs"
  shows "length (filter P (xs[i := y])) + (if P (xs ! i) then 1 else 0)
    = length (filter P xs) + (if P y then 1 else 0)"
  using assms
proof (induction xs arbitrary: i)
  case (Cons x xs)
  then show ?case by (cases i) auto
qed simp

lemma order_ok_cong:
  assumes ok: "order_ok cf s" and st: "sd_stage_state s' = sd_stage_state s"
    and rem: "sd_remaining s' = sd_remaining s" and q: "sd_queue s' = sd_queue s"
    and m: "sd_main s' = sd_main s" and names: "map r_task (sd_runs s') = map r_task (sd_runs s)"
  shows "order_ok cf s'"
proof -
  have "deps_done cf s' = deps_done cf s" by (rule ext) (simp add: deps_done_def st)
  moreover have "main_ok cf s' (sd_main s)"
    using ok by (intro main_ok_cong [OF _ st rem q names]) (simp add: order_ok_def)
  ultimately show ?thesis using ok unfolding order_ok_def st rem q m by simp
qed

text \<open>The other runs keep their tasks, which are not the task that changes.\<close>

lemma runs_ok_update:
  assumes ok: "runs_ok cf s" and r: "run_at i r s"
    and r': "r_task r' = r_task r" "sd_runs s' = (sd_runs s)[i := r']" "run_ok cf s' r'"
    and other: "\<And>x. x \<noteq> r_task r \<Longrightarrow> sd_task_state s' x = sd_task_state s x
        \<and> sd_attempt_ids s' x = sd_attempt_ids s x"
    and ids: "ids_ok cf (r_task r) (sd_attempt_ids s' (r_task r))"
  shows "runs_ok cf s'"
proof -
  have i: "i < length (sd_runs s)" "sd_runs s ! i = r" using r by (auto simp: run_at_def)
  have names: "map r_task (sd_runs s') = map r_task (sd_runs s)"
    using r' i by (metis list_update_id map_update)
  have "run_ok cf s' q" if q: "q \<in> set (sd_runs s')" for q
  proof -
    obtain j where j: "j < length (sd_runs s)" "sd_runs s' ! j = q"
      using q r'(2) by (metis in_set_conv_nth length_list_update)
    show ?thesis
    proof (cases "j = i")
      case True
      with j r' show ?thesis by simp
    next
      case False
      with j r'(2) have qs: "sd_runs s ! j = q" by simp
      have "r_task (sd_runs s ! j) \<noteq> r_task (sd_runs s ! i)"
        using ok j(1) i(1) False
          nth_eq_iff_index_eq [of "map r_task (sd_runs s)" j i] by (simp add: runs_ok_def)
      then have "r_task q \<noteq> r_task r" using i qs by simp
      moreover have "run_ok cf s q" using ok j(1) qs nth_mem unfolding runs_ok_def by blast
      ultimately show ?thesis by (simp add: run_ok_def other)
    qed
  qed
  moreover have "ids_ok cf x (sd_attempt_ids s' x)" for x
    using ok ids other by (cases "x = r_task r") (simp_all add: runs_ok_def)
  moreover have "distinct (map r_task (sd_runs s'))" using ok names by (simp add: runs_ok_def)
  ultimately show ?thesis by (simp add: runs_ok_def)
qed

lemma slots_ok_update:
  assumes ok: "slots_ok cf s" and r: "run_at i r s" and r': "sd_runs s' = (sd_runs s)[i := r']"
    and run: "\<And>w. sd_running s' w + (if on_worker w r then 1 else 0)
                = sd_running s w + (if on_worker w r' then 1 else 0)"
    and le: "\<And>w. sd_running s' w \<le> slots_of cf w \<and> sd_max_running s' w \<le> slots_of cf w"
  shows "slots_ok cf s'"
  unfolding slots_ok_def
proof (intro allI conjI)
  fix w
  have i: "i < length (sd_runs s)" "sd_runs s ! i = r" using r by (auto simp: run_at_def)
  have "sd_running s w = length (filter (on_worker w) (sd_runs s))"
    using ok by (simp add: slots_ok_def)
  then show "sd_running s' w = length (filter (on_worker w) (sd_runs s'))"
    using run [of w] length_filter_update [OF i(1), of "on_worker w" r'] i(2) r' by simp
qed (use le in simp_all)

lemma tasks_ok_update:
  assumes cfg: "config_ok cf" and ok: "tasks_ok cf s" and r: "run_at i r s"
    and r': "r_task r' = r_task r" "sd_runs s' = (sd_runs s)[i := r']"
    and other: "\<And>x. x \<noteq> r_task r \<Longrightarrow> sd_task_state s' x = sd_task_state s x
        \<and> sd_attempt_ids s' x = sd_attempt_ids s x"
    and st: "sd_stage_state s' = sd_stage_state s" "sd_outcomes s' = sd_outcomes s"
  shows "tasks_ok cf s'"
proof -
  have i: "r \<in> set (sd_runs s)" using r by (auto simp: run_at_def)
  obtain t where t: "t \<in> set (tasks cf)" "t_id t = r_task r"
    "sd_stage_state s (t_stage_id t) \<notin> {SS_PENDING, SS_SUCCEEDED}"
    using ok i unfolding tasks_ok_def by blast
  have same: "t' = t" if "t' \<in> set (tasks cf)" "t_id t' = r_task r" for t'
    using cfg that t(1,2) by (auto simp: config_ok_def distinct_map inj_on_def)
  show ?thesis
    unfolding tasks_ok_def st
  proof (intro conjI ballI impI)
    fix q assume "q \<in> set (sd_runs s')"
    then have "q = r' \<or> q \<in> set (sd_runs s)" using r'(2) set_update_subset_insert by fastforce
    then show "\<exists>t \<in> set (tasks cf). t_id t = r_task q
          \<and> sd_stage_state s (t_stage_id t) \<notin> {SS_PENDING, SS_SUCCEEDED}"
    proof
      assume "q = r'"
      with t r'(1) show ?thesis by auto
    qed (use ok in \<open>simp add: tasks_ok_def\<close>)
  next
    fix t' assume t': "t' \<in> set (tasks cf)" and pending: "sd_stage_state s (t_stage_id t') = SS_PENDING"
    then have "t_id t' \<noteq> r_task r" using same t(3) by auto
    with ok t' pending other show "sd_attempt_ids s' (t_id t') = []" by (simp add: tasks_ok_def)
  next
    fix t' assume t': "t' \<in> set (tasks cf)" and succ: "sd_stage_state s (t_stage_id t') = SS_SUCCEEDED"
    then have "t_id t' \<noteq> r_task r" using same t(3) by auto
    with ok t' succ other show "sd_task_state s' (t_id t') = TS_SUCCEEDED" by (simp add: tasks_ok_def)
    show "\<exists>x. sd_outcomes s (t_id t') = Some x \<and> to_task x = t_id t'"
      using ok t' succ by (simp add: tasks_ok_def)
  qed
qed

lemma local_change_ok:
  assumes cfg: "config_ok cf" and ok: "sched_ok cf s" and r: "run_at i r s"
    and ch: "local_change cf i r s s'"
  shows "sched_ok cf s'"
proof -
  obtain r' where r': "r_task r' = r_task r" "sd_runs s' = (sd_runs s)[i := r']" "run_ok cf s' r'"
    and run: "\<And>w. sd_running s' w + (if on_worker w r then 1 else 0)
                = sd_running s w + (if on_worker w r' then 1 else 0)"
    using ch unfolding local_change_def by blast
  have i: "i < length (sd_runs s)" "sd_runs s ! i = r" using r by (auto simp: run_at_def)
  have names: "map r_task (sd_runs s') = map r_task (sd_runs s)"
    using r' i by (metis list_update_id map_update)
  have other: "x \<noteq> r_task r \<Longrightarrow> sd_task_state s' x = sd_task_state s x
        \<and> sd_attempt_ids s' x = sd_attempt_ids s x" for x
    using ch unfolding local_change_def by blast
  have "order_ok cf s'"
    using order_ok_cong [OF _ _ _ _ _ names] ok ch unfolding sched_ok_def local_change_def by blast
  moreover have "runs_ok cf s'"
    using runs_ok_update [OF _ r r' other] ok ch unfolding sched_ok_def local_change_def by blast
  moreover have "slots_ok cf s'"
    using slots_ok_update [OF _ r r'(2) run] ok ch unfolding sched_ok_def local_change_def by blast
  moreover have "tasks_ok cf s'"
    using tasks_ok_update [OF cfg _ r r'(1,2) other] ok ch
    unfolding sched_ok_def local_change_def by blast
  ultimately show ?thesis by (simp add: sched_ok_def)
qed

section \<open>Every coroutine step is local\<close>

lemmas update_defs = set_run_def set_task_state_def set_attempt_def new_attempt_def
  finish_attempt_def

lemma run_facts:
  assumes "sched_ok cf s" and "run_at i r s"
  shows "run_ok cf s r" and "ids_ok cf (r_task r) (sd_attempt_ids s (r_task r))"
    and "sd_running s w \<le> slots_of cf w" and "sd_max_running s w \<le> slots_of cf w"
proof -
  have "r \<in> set (sd_runs s)" using assms(2) by (auto simp: run_at_def)
  with assms(1) show "run_ok cf s r" and "ids_ok cf (r_task r) (sd_attempt_ids s (r_task r))"
    by (simp_all add: sched_ok_def runs_ok_def)
  from assms(1) show "sd_running s w \<le> slots_of cf w" and "sd_max_running s w \<le> slots_of cf w"
    unfolding sched_ok_def slots_ok_def by blast+
qed

lemma ids_ok_append:
  "ids_ok cf tid ids \<Longrightarrow> length ids < attempts_allowed cf
    \<Longrightarrow> ids_ok cf tid (ids @ [attempt_name tid (length ids)])"
  by (auto simp: ids_ok_def)

lemma fail_task_form:
  "\<exists>e st. fail_task cf i r s = set_run i (r\<lparr>r_phase := Raised e\<rparr>) (set_task_state (r_task r) st s)"
proof (cases "\<exists>aid e. r_last_attempt r = Some aid \<and> r_last_error r = Some e")
  case True
  then obtain aid e where "r_last_attempt r = Some aid" "r_last_error r = Some e" by blast
  then have "\<exists>e'. fail_task cf i r s
      = set_run i (r\<lparr>r_phase := Raised e'\<rparr>) (set_task_state (r_task r) TS_FAILED s)"
    by (simp add: fail_task_def) blast
  then show ?thesis by blast
next
  case False
  then have "fail_task cf i r s = set_run i (r\<lparr>r_phase := Raised PyAssertionError\<rparr>) s"
    by (auto simp: fail_task_def split: option.splits)
  moreover have "set_task_state (r_task r) (sd_task_state s (r_task r)) s = s"
    by (simp add: set_task_state_def)
  ultimately show ?thesis by metis
qed

lemma local_changeI:
  assumes "sd_runs s' = (sd_runs s)[i := r']" and "r_task r' = r_task r" and "run_ok cf s' r'"
    and "run_rank cf r' < run_rank cf r"
    and "\<And>w. sd_running s' w + (if on_worker w r then 1 else 0)
           = sd_running s w + (if on_worker w r' then 1 else 0)"
    and "\<And>x. x \<noteq> r_task r \<Longrightarrow> sd_task_state s' x = sd_task_state s x
           \<and> sd_attempt_ids s' x = sd_attempt_ids s x"
    and "ids_ok cf (r_task r) (sd_attempt_ids s' (r_task r))"
    and "\<And>w. sd_running s' w \<le> slots_of cf w \<and> sd_max_running s' w \<le> slots_of cf w"
    and "sd_stage_state s' = sd_stage_state s" and "sd_outcomes s' = sd_outcomes s"
    and "sd_remaining s' = sd_remaining s" and "sd_queue s' = sd_queue s" and "sd_main s' = sd_main s"
  shows "local_change cf i r s s'"
  unfolding local_change_def using assms by blast

text \<open>A run that raises, with at most the allowed attempts and off its Worker.\<close>

lemma raised_is_local:
  assumes ok: "sched_ok cf s" and r: "run_at i r s" and r'': "r_task r'' = r_task r"
    and ids: "ids_ok cf (r_task r) ids"
    and running: "\<And>w. run w + (if on_worker w r then 1 else 0) = sd_running s w"
    and active: "0 < run_rank cf r"
  shows "local_change cf i r s (set_run i (r''\<lparr>r_phase := Raised e\<rparr>) (set_task_state (r_task r) st
     (s\<lparr>sd_running := run, sd_attempts := att, sd_attempt_ids := (sd_attempt_ids s)(r_task r := ids)\<rparr>)))"
proof -
  have "run w \<le> slots_of cf w" for w
    using run_facts(3) [OF ok r, of w] running [of w] by linarith
  then show ?thesis
    using r'' ids run_facts(4) [OF ok r] running active
    by (intro local_changeI [where r' = "r''\<lparr>r_phase := Raised e\<rparr>"])
      (simp_all add: update_defs run_ok_def ids_ok_def)
qed

lemma begin_run_local:
  assumes "config_ok cf" and ok: "sched_ok cf s" and r: "run_at i r s" and "r_phase r = Created"
  shows "local_change cf i r s (begin_run i r s)"
  using assms(4) run_facts [OF ok r] attempts_positive [OF assms(1)]
  by (intro local_changeI [where r' = "r\<lparr>r_phase := Ready\<rparr>"])
    (simp_all add: begin_run_def update_defs run_ok_def)

lemma end_backoff_local:
  assumes ok: "sched_ok cf s" and r: "run_at i r s" and "r_phase r = Backoff aid"
  shows "local_change cf i r s (end_backoff now i r aid s)"
  using assms(3) run_facts [OF ok r]
  by (intro local_changeI [where r' = "if sd_cancelled s then r\<lparr>r_phase := Raised ExecutionCancelled\<rparr>
        else r\<lparr>r_phase := Ready, r_number := Suc (r_number r)\<rparr>"])
    (auto simp: end_backoff_def update_defs run_ok_def Suc_diff_Suc [symmetric])

lemma enter_local:
  assumes ok: "sched_ok cf s" and r: "run_at i r s" and "r_phase r = Queued aid w"
    and "sd_running s w < slots_of cf w"
  shows "local_change cf i r s (set_run i (r\<lparr>r_phase := Executing aid w\<rparr>) (enter_slot w s))"
  using assms(3,4) run_facts [OF ok r]
  by (intro local_changeI [where r' = "r\<lparr>r_phase := Executing aid w\<rparr>"])
    (simp_all add: enter_slot_def Let_def update_defs run_ok_def)

lemma dispatch_run_local:
  assumes ok: "sched_ok cf s" and r: "run_at i r s" and ready: "r_phase r = Ready"
    and healthy: "set healthy \<subseteq> set (map lw_id (cf_workers cf))"
  shows "local_change cf i r s (dispatch_run cf healthy now i r s)"
proof -
  let ?ids = "sd_attempt_ids s (r_task r)"
  let ?aid = "attempt_name (r_task r) (length ?ids)"
  have k: "length ?ids = r_number r" "r_number r < attempts_allowed cf"
    using run_facts(1) [OF ok r] ready by (simp_all add: run_ok_def)
  have ids: "ids_ok cf (r_task r) ?ids" "ids_ok cf (r_task r) (?ids @ [?aid])"
    using run_facts(2) [OF ok r] ids_ok_append [OF run_facts(2) [OF ok r]] k by simp_all
  have off: "\<not> on_worker w r" and active: "0 < run_rank cf r" for w using ready k by simp_all
  consider (cancelled) "sd_cancelled s"
    | (nobody) e where "\<not> sd_cancelled s" "choose_worker (sd_next_worker s) healthy (r_previous r) = Inl e"
    | (chosen) w where "\<not> sd_cancelled s" "choose_worker (sd_next_worker s) healthy (r_previous r) = Inr w"
    by (cases "choose_worker (sd_next_worker s) healthy (r_previous r)") auto
  then show ?thesis
  proof cases
    case cancelled
    then show ?thesis
      using raised_is_local [OF ok r refl ids(1), of "sd_running s" _ "sd_task_state s (r_task r)" "sd_attempts s"] off active
      by (simp add: dispatch_run_def Let_def update_defs)
  next
    case nobody
    show ?thesis
    proof (cases "r_last_attempt r")
      case None
      let ?s = "new_attempt (r_task r)
                      \<lparr>a_id = ?aid, a_task_id = r_task r, a_number = length ?ids, a_worker_id = None,
                       a_state = AS_FAILED, a_started_at = Some now, a_finished_at = Some now,
                       a_error = Some (LocalError ''WorkerLostError'' ''No healthy Worker is available.'')\<rparr> s"
      let ?r = "r\<lparr>r_last_error := Some e, r_last_attempt := Some ?aid\<rparr>"
      have "dispatch_run cf healthy now i r s = fail_task cf i ?r ?s"
        using nobody None by (simp add: dispatch_run_def Let_def)
      then obtain e' st where f: "dispatch_run cf healthy now i r s = set_run i
          (?r\<lparr>r_phase := Raised e'\<rparr>) (set_task_state (r_task r) st ?s)"
        using fail_task_form [of cf i ?r ?s] by auto
      show ?thesis
        using raised_is_local [OF ok r _ ids(2), of "r\<lparr>r_last_error := Some e, r_last_attempt := Some ?aid\<rparr>"
            "sd_running s" e' st] off active
        by (simp add: f new_attempt_def)
    next
      case (Some aid)
      obtain e' st where f: "dispatch_run cf healthy now i r s = set_run i
          (r\<lparr>r_last_error := Some e, r_phase := Raised e'\<rparr>) (set_task_state (r_task r) st s)"
        using nobody Some fail_task_form [of cf i "r\<lparr>r_last_error := Some e\<rparr>" s]
        by (auto simp: dispatch_run_def Let_def)
      show ?thesis
        using raised_is_local [OF ok r _ ids(1), of "r\<lparr>r_last_error := Some e\<rparr>"
            "sd_running s" e' st "sd_attempts s"] off active
        by (simp add: f)
    qed
  next
    case chosen
    then have "w \<in> set healthy"
      by (auto simp: choose_worker_def Let_def split: if_splits)
        (metis filter_is_subset in_mono length_greater_0_conv mod_less_divisor nth_mem
          empty_filter_conv)+
    then have "w \<in> set (map lw_id (cf_workers cf))" using healthy by blast
    with chosen show ?thesis
      using run_facts [OF ok r] ids k off ready
      by (intro local_changeI [where r' = "r\<lparr>r_previous := insert w (r_previous r),
              r_last_attempt := Some ?aid, r_phase := Queued ?aid w\<rparr>"])
        (simp_all add: dispatch_run_def Let_def update_defs run_ok_def)
  qed
qed

text \<open>An attempt settles with its slot given back, or without one.\<close>

lemma settle_error_local:
  assumes ok: "sched_ok cf s" and r: "run_at i r s"
    and phase: "r_phase r = Queued aid w \<or> r_phase r = Executing aid w"
    and running: "\<And>w. run w + (if on_worker w r then 1 else 0) = sd_running s w"
  shows "local_change cf i r s (settle_run cf (Inl e) now i r aid w (s\<lparr>sd_running := run\<rparr>))"
proof -
  have k: "length (sd_attempt_ids s (r_task r)) = Suc (r_number r)" "r_number r < attempts_allowed cf"
    using run_facts(1) [OF ok r] phase by (auto simp: run_ok_def)
  note ids = run_facts(2) [OF ok r]
  have le: "run v \<le> slots_of cf v" for v
    using run_facts(3) [OF ok r, of v] running [of v] by linarith
  have active: "0 < run_rank cf r" using phase k(2) by auto
  note raised = raised_is_local [OF ok r _ ids running active]
  consider (cancelled) "e \<in> {ExecutionCancelled, AsyncCancelled}"
    | (unconfirmed) "e = CancellationConfirmationError"
    | (again) "e \<notin> {ExecutionCancelled, AsyncCancelled, CancellationConfirmationError}"
        "Suc (r_number r) < attempts_allowed cf"
    | (final) "e \<notin> {ExecutionCancelled, AsyncCancelled, CancellationConfirmationError}"
        "\<not> Suc (r_number r) < attempts_allowed cf"
    by blast
  then show ?thesis
  proof cases
    case cancelled
    then show ?thesis
      using raised [OF refl, of e TS_CANCELED] by (simp add: settle_run_def Let_def update_defs)
  next
    case unconfirmed
    then show ?thesis
      using raised [OF refl, of CancellationConfirmationError TS_FAILED]
      by (simp add: settle_run_def Let_def update_defs)
  next
    case again
    then show ?thesis
      using k ids le running run_facts(4) [OF ok r]
      by (intro local_changeI [where r' = "r\<lparr>r_last_error := Some e, r_phase := Backoff aid\<rparr>"])
        (use phase in \<open>auto simp: settle_run_def Let_def update_defs run_ok_def\<close>)
  next
    case final
    let ?s = "set_attempt aid (\<lambda>a. a\<lparr>a_finished_at := Some now\<rparr>)
      (set_attempt aid (\<lambda>a. a\<lparr>a_state := (if e = WorkerLostError then AS_LOST else AS_FAILED),
         a_error := Some (TaskError (public_task_error e (error_context cf (r_task r) aid (Some w) [] e)))\<rparr>)
       (s\<lparr>sd_running := run\<rparr>))"
    have "settle_run cf (Inl e) now i r aid w (s\<lparr>sd_running := run\<rparr>)
        = fail_task cf i (r\<lparr>r_last_error := Some e\<rparr>) ?s"
      using final by (simp add: settle_run_def Let_def)
    then obtain e' st where "settle_run cf (Inl e) now i r aid w (s\<lparr>sd_running := run\<rparr>)
        = set_run i (r\<lparr>r_last_error := Some e, r_phase := Raised e'\<rparr>) (set_task_state (r_task r) st ?s)"
      using fail_task_form [of cf i "r\<lparr>r_last_error := Some e\<rparr>" ?s] by auto
    then show ?thesis
      using raised [of "r\<lparr>r_last_error := Some e\<rparr>" e' st] by (simp add: update_defs)
  qed
qed

lemma settle_run_local:
  assumes ok: "sched_ok cf s" and r: "run_at i r s"
    and phase: "r_phase r = Queued aid w \<or> r_phase r = Executing aid w"
    and running: "\<And>w. run w + (if on_worker w r then 1 else 0) = sd_running s w"
  shows "local_change cf i r s (settle_run cf result now i r aid w (s\<lparr>sd_running := run\<rparr>))"
proof (cases "\<exists>v. result = Inr v \<and> \<not> sd_cancelled s")
  case True
  then obtain v where v: "result = Inr v" "\<not> sd_cancelled s" by blast
  have "r_number r < attempts_allowed cf" using run_facts(1) [OF ok r] phase by (auto simp: run_ok_def)
  moreover have "run v \<le> slots_of cf v" for v
    using run_facts(3) [OF ok r, of v] running [of v] by linarith
  ultimately show ?thesis
    using v run_facts [OF ok r] phase running
    by (intro local_changeI [where r' = "r\<lparr>r_phase := Returned
            \<lparr>to_task = r_task r, to_attempt = aid, to_worker = w, to_value = v\<rparr>\<rparr>"])
      (auto simp add: settle_run_def Let_def update_defs run_ok_def ids_ok_def)
next
  case False
  then have "settle_run cf result now i r aid w (s\<lparr>sd_running := run\<rparr>)
      = settle_run cf (Inl (case result of Inl e \<Rightarrow> e | Inr _ \<Rightarrow> ExecutionCancelled)) now i r aid w
          (s\<lparr>sd_running := run\<rparr>)"
    by (cases result) (simp_all add: settle_run_def)
  then show ?thesis using settle_error_local [OF assms] by simp
qed

section \<open>Steps of the scheduler itself\<close>

lemma sched_ok_cong:
  assumes ok: "sched_ok cf s"
    and same: "sd_stage_state s' = sd_stage_state s" "sd_task_state s' = sd_task_state s"
      "sd_attempt_ids s' = sd_attempt_ids s" "sd_outcomes s' = sd_outcomes s"
      "sd_running s' = sd_running s" "sd_max_running s' = sd_max_running s"
      "sd_remaining s' = sd_remaining s" "sd_queue s' = sd_queue s" "sd_runs s' = sd_runs s"
      "sd_main s' = sd_main s"
  shows "sched_ok cf s'"
proof -
  have "order_ok cf s'" by (rule order_ok_cong [of cf s, OF _ same(1,7,8,10)]) (use ok in \<open>simp_all add: sched_ok_def same\<close>)
  moreover have runs: "run_ok cf s' = run_ok cf s" by (rule ext) (simp add: run_ok_def same)
  have "tasks_ok cf s' = tasks_ok cf s" unfolding tasks_ok_def same ..
  moreover have "runs_ok cf s' = runs_ok cf s" unfolding runs_ok_def same runs ..
  moreover have "slots_ok cf s' = slots_ok cf s" unfolding slots_ok_def same ..
  ultimately show ?thesis using ok by (simp add: sched_ok_def)
qed

lemma deps_succeeded_sound:
  "deps_succeeded cf s ds = Inr True \<Longrightarrow> \<forall>d \<in> set ds. sd_stage_state s d = SS_SUCCEEDED"
  by (induction ds) (simp_all split: if_splits)

lemma ready_stages_sound:
  assumes "ready_stages cf s sts = Inr ids" and "distinct (map st_id sts)"
  shows "distinct ids" and "set ids \<subseteq> set (map st_id sts) \<inter> sd_remaining s"
    and "\<forall>st \<in> set sts. st_id st \<in> set ids \<longrightarrow>
       (\<forall>d \<in> set (st_dependencies st). sd_stage_state s d = SS_SUCCEEDED)"
proof -
  have "distinct ids \<and> set ids \<subseteq> set (map st_id sts) \<inter> sd_remaining s
     \<and> (\<forall>st \<in> set sts. st_id st \<in> set ids \<longrightarrow>
       (\<forall>d \<in> set (st_dependencies st). sd_stage_state s d = SS_SUCCEEDED))"
    using assms
  proof (induction sts arbitrary: ids)
    case (Cons st sts)
    show ?case
    proof (cases "st_id st \<in> sd_remaining s")
      case False
      with Cons show ?thesis by (auto 0 3)
    next
      case True
      with Cons.prems obtain ok ids' where h: "deps_succeeded cf s (st_dependencies st) = Inr ok"
        "ready_stages cf s sts = Inr ids'" "ids = (if ok then st_id st # ids' else ids')"
        by (auto simp: bindR_def split: sum.splits)
      have "st_id st \<notin> set ids'" using Cons.IH [OF h(2)] Cons.prems(2) by auto
      moreover have "ok \<Longrightarrow> \<forall>d \<in> set (st_dependencies st). sd_stage_state s d = SS_SUCCEEDED"
        using h(1) deps_succeeded_sound by simp
      moreover have "st_id st' \<noteq> st_id st" if "st' \<in> set sts" for st'
        using that Cons.prems(2) by (auto simp: image_iff)
      ultimately show ?thesis
        using Cons.IH [OF h(2)] Cons.prems(2) True h(3) by (auto split: if_splits)
    qed
  qed simp
  then show "distinct ids" and "set ids \<subseteq> set (map st_id sts) \<inter> sd_remaining s"
    and "\<forall>st \<in> set sts. st_id st \<in> set ids \<longrightarrow>
       (\<forall>d \<in> set (st_dependencies st). sd_stage_state s d = SS_SUCCEEDED)"
    by blast+
qed

lemma deps_done_mono:
  assumes "deps_done cf s x"
    and "\<And>d. sd_stage_state s d = SS_SUCCEEDED \<Longrightarrow> sd_stage_state s' d = SS_SUCCEEDED"
  shows "deps_done cf s' x"
  using assms unfolding deps_done_def by blast

lemma runs_ok_cong:
  assumes "runs_ok cf s" and "sd_runs s' = sd_runs s" and "sd_attempt_ids s' = sd_attempt_ids s"
    and "\<And>x. sd_task_state s x = TS_SUCCEEDED \<Longrightarrow> sd_task_state s' x = TS_SUCCEEDED"
  shows "runs_ok cf s'"
proof -
  have "run_ok cf s' r" if "run_ok cf s r" for r
    using that assms(3,4) by (cases "r_phase r") (simp_all add: run_ok_def)
  with assms(1-3) show ?thesis by (simp add: runs_ok_def)
qed

lemma slots_ok_cong:
  assumes "slots_ok cf s" and "sd_runs s' = sd_runs s" and "sd_running s' = sd_running s"
    and "sd_max_running s' = sd_max_running s"
  shows "slots_ok cf s'"
  using assms(1) unfolding slots_ok_def assms(2-4) .

text \<open>Stages and tasks that are not final may change, the others and the runs do not.\<close>

lemma tasks_ok_mono:
  assumes ok: "tasks_ok cf s" and runs: "sd_runs s' = sd_runs s"
    and ids: "sd_attempt_ids s' = sd_attempt_ids s" and out: "sd_outcomes s' = sd_outcomes s"
    and pending: "\<And>x. sd_stage_state s' x = SS_PENDING \<Longrightarrow> sd_stage_state s x = SS_PENDING"
    and succ: "\<And>x. sd_stage_state s' x = SS_SUCCEEDED \<longleftrightarrow> sd_stage_state s x = SS_SUCCEEDED"
    and task: "\<And>x. sd_task_state s x = TS_SUCCEEDED \<Longrightarrow> sd_task_state s' x = TS_SUCCEEDED"
  shows "tasks_ok cf s'"
  unfolding tasks_ok_def runs ids out succ
proof (intro conjI ballI impI)
  fix r assume "r \<in> set (sd_runs s)"
  then obtain t where "t \<in> set (tasks cf)" "t_id t = r_task r"
    "sd_stage_state s (t_stage_id t) \<notin> {SS_PENDING, SS_SUCCEEDED}"
    using ok unfolding tasks_ok_def by blast
  then show "\<exists>t \<in> set (tasks cf). t_id t = r_task r
      \<and> sd_stage_state s' (t_stage_id t) \<notin> {SS_PENDING, SS_SUCCEEDED}"
    using pending succ by blast
qed (use ok pending task in \<open>auto simp: tasks_ok_def\<close>)

lemma cancel_pending_ok:
  assumes "sched_ok cf s"
  shows "sched_ok cf (cancel_pending s)"
proof -
  let ?s = "cancel_pending s"
  have state: "sd_stage_state ?s x = (if sd_stage_state s x = SS_PENDING then SS_CANCELED else sd_stage_state s x)" for x
    by (simp add: cancel_pending_def)
  have same: "sd_runs ?s = sd_runs s" "sd_attempt_ids ?s = sd_attempt_ids s" "sd_outcomes ?s = sd_outcomes s"
    "sd_remaining ?s = sd_remaining s" "sd_queue ?s = sd_queue s" "sd_running ?s = sd_running s"
    "sd_max_running ?s = sd_max_running s" "sd_main ?s = M_Done"
    by (simp_all add: cancel_pending_def)
  have deps: "deps_done cf s x \<Longrightarrow> deps_done cf ?s x" for x
    by (erule deps_done_mono) (simp add: state)
  have "order_ok cf ?s"
    using assms deps unfolding sched_ok_def order_ok_def same
    by (auto simp: state split: if_splits)
  moreover have "tasks_ok cf ?s"
    by (rule tasks_ok_mono [of cf s, OF _ same(1-3)])
      (use assms in \<open>auto simp: sched_ok_def state cancel_pending_def split: if_splits\<close>)
  moreover have "runs_ok cf ?s"
    by (rule runs_ok_cong [of cf s, OF _ same(1,2)])
      (use assms in \<open>auto simp: sched_ok_def cancel_pending_def\<close>)
  moreover have "slots_ok cf ?s"
    by (rule slots_ok_cong [of cf s, OF _ same(1,6,7)]) (use assms in \<open>simp add: sched_ok_def\<close>)
  ultimately show ?thesis by (simp add: sched_ok_def)
qed

lemma cancel_pending_main: "cancel_pending (s\<lparr>sd_main := m\<rparr>) = cancel_pending s"
  by (simp add: cancel_pending_def cong: if_cong)

lemma tasks_of_stage_facts:
  "set (tasks_of_stage cf sid) = {t \<in> set (tasks cf). t_stage_id t = sid}"
  "config_ok cf \<Longrightarrow> distinct (map t_id (tasks_of_stage cf sid))"
  by (auto simp: tasks_of_stage_def config_ok_def distinct_map inj_on_def)

lemma map_new_run [simp]: "map r_task (map new_run ts) = map t_id ts"
  by (simp add: new_run_def comp_def)

text \<open>Fresh runs of the tasks of a stage that starts.\<close>

lemma fresh_runs_ok:
  assumes cfg: "config_ok cf" and ok: "sched_ok cf s" and none: "sd_runs s = []"
    and pending: "sd_stage_state s sid = SS_PENDING"
    and runs: "sd_runs s' = map new_run ts" "set ts \<subseteq> set (tasks_of_stage cf sid)" "distinct (map t_id ts)"
    and same: "sd_task_state s' = sd_task_state s" "sd_attempt_ids s' = sd_attempt_ids s"
      "sd_outcomes s' = sd_outcomes s" "sd_running s' = sd_running s" "sd_max_running s' = sd_max_running s"
    and state: "sd_stage_state s' = (sd_stage_state s)(sid := SS_RUNNING)"
  shows "tasks_ok cf s' \<and> runs_ok cf s' \<and> slots_ok cf s'"
proof (intro conjI)
  have old: "tasks_ok cf s" "runs_ok cf s" "slots_ok cf s" using ok by (simp_all add: sched_ok_def)
  have ts: "t \<in> set (tasks cf)" "t_stage_id t = sid" if "t \<in> set ts" for t
    using that runs(2) by (auto simp: tasks_of_stage_facts)
  show "tasks_ok cf s'"
    unfolding tasks_ok_def runs same
  proof (intro conjI ballI impI)
    fix r assume "r \<in> set (map (new_run :: _ \<Rightarrow> 'a task_run) ts)"
    then show "\<exists>t \<in> set (tasks cf). t_id t = r_task r
        \<and> sd_stage_state s' (t_stage_id t) \<notin> {SS_PENDING, SS_SUCCEEDED}"
      using ts state by (auto simp: new_run_def)
  qed (use old(1) state in \<open>auto simp: tasks_ok_def split: if_splits\<close>)
  have fresh: "sd_attempt_ids s (t_id t) = []" if "t \<in> set ts" for t
    using old(1) ts that pending by (simp add: tasks_ok_def)
  show "runs_ok cf s'"
    unfolding runs_ok_def runs same
    using fresh runs(3) old(2) by (auto simp: run_ok_def new_run_def same runs_ok_def comp_def)
  have off: "filter (on_worker w) (map new_run ts) = []" for w
    by (induction ts) (simp_all add: new_run_def)
  show "slots_ok cf s'"
    using old(3) none unfolding slots_ok_def runs same off by simp
qed

lemma start_stage_ok:
  assumes cfg: "config_ok cf" and ok: "sched_ok cf s" and m: "sd_main s = M_Loop"
    and q: "sd_queue s = sid # rest"
  shows "sched_ok cf (start_stage cf sid rest s)"
proof -
  let ?s = "start_stage cf sid rest s"
  let ?ts = "tasks_of_stage cf sid"
  have order: "order_ok cf s" and none: "sd_runs s = []" and sid: "sid \<in> sd_remaining s"
    and pending: "\<And>x. x \<in> sd_remaining s \<Longrightarrow> sd_stage_state s x = SS_PENDING"
    using ok m q by (auto simp: sched_ok_def order_ok_def)
  have state: "sd_stage_state ?s = (sd_stage_state s)(sid := SS_RUNNING)"
    and same: "sd_task_state ?s = sd_task_state s" "sd_attempt_ids ?s = sd_attempt_ids s"
      "sd_outcomes ?s = sd_outcomes s" "sd_running ?s = sd_running s" "sd_max_running ?s = sd_max_running s"
    and main: "sd_remaining ?s = sd_remaining s" "sd_queue ?s = rest"
    and runs: "sd_runs ?s = map new_run (takeWhile (\<lambda>t. t_id t \<in> cf_runners cf) ?ts)"
    by (simp_all add: start_stage_def Let_def) (metis list_all_iff takeWhile_eq_all_conv)
  have sid_main: "sd_main ?s = M_Stage sid \<and> map r_task (sd_runs ?s) = map t_id ?ts
      \<or> sd_main ?s = M_Raised PyKeyError"
    by (auto simp: start_stage_def Let_def new_run_def)
  have sub: "set (takeWhile (\<lambda>t. t_id t \<in> cf_runners cf) ?ts) \<subseteq> set ?ts"
    by (auto dest: set_takeWhileD)
  have dist: "distinct (map t_id (takeWhile (\<lambda>t. t_id t \<in> cf_runners cf) ?ts))"
    using tasks_of_stage_facts(2) [OF cfg, of sid]
    by (metis distinct_append map_append takeWhile_dropWhile_id)
  have deps: "deps_done cf s x \<Longrightarrow> deps_done cf ?s x" for x
    by (erule deps_done_mono) (use pending [OF sid] in \<open>auto simp: state\<close>)
  have "main_ok cf ?s (sd_main ?s)"
    using sid_main order sid pending q main state by (auto simp: order_ok_def)
  then have "order_ok cf ?s"
    using order sid q deps unfolding order_ok_def main state by auto
  with fresh_runs_ok [OF cfg ok none pending [OF sid] runs sub dist same state]
  show ?thesis by (simp add: sched_ok_def)
qed

lemma queue_main_ok:
  assumes ok: "sched_ok cf s" and q: "distinct q" "set q \<subseteq> sd_remaining s" "\<forall>x \<in> set q. deps_done cf s x"
    and m: "main_ok cf (s\<lparr>sd_queue := q, sd_main := m'\<rparr>) m'"
  shows "sched_ok cf (s\<lparr>sd_queue := q, sd_main := m'\<rparr>)"
proof -
  let ?s = "s\<lparr>sd_queue := q, sd_main := m'\<rparr>"
  have deps: "deps_done cf ?s = deps_done cf s" by (rule ext) (simp add: deps_done_def)
  have "order_ok cf ?s"
    using ok q m unfolding sched_ok_def order_ok_def deps by simp
  moreover have "tasks_ok cf ?s" using ok by (simp add: sched_ok_def tasks_ok_def)
  moreover have "runs_ok cf ?s"
    by (rule runs_ok_cong [of cf s]) (use ok in \<open>simp_all add: sched_ok_def\<close>)
  moreover have "slots_ok cf ?s"
    by (rule slots_ok_cong [of cf s]) (use ok in \<open>simp_all add: sched_ok_def\<close>)
  ultimately show ?thesis by (simp add: sched_ok_def)
qed

lemma main_next_ok:
  assumes cfg: "config_ok cf" and ok: "sched_ok cf s" and m: "sd_main s = M_Loop"
  shows "sched_ok cf (main_next cf s)"
proof (cases "sd_queue s")
  case (Cons sid rest)
  then show ?thesis
    using start_stage_ok [OF assms Cons] cancel_pending_ok [OF ok] by (simp add: main_next_def)
next
  case Nil
  have stop: "sched_ok cf (s\<lparr>sd_main := m'\<rparr>)" if "main_ok cf (s\<lparr>sd_main := m'\<rparr>) m'" for m'
  proof -
    have "s\<lparr>sd_queue := [], sd_main := m'\<rparr> = s\<lparr>sd_main := m'\<rparr>" using Nil by (cases s) simp
    then show ?thesis using queue_main_ok [OF ok, of "[]" m'] that by simp
  qed
  show ?thesis
  proof (cases "ready_stages cf s (stages cf)")
    case (Inl e)
    then show ?thesis using Nil stop [of M_Done] stop [of "M_Raised e"] by (simp add: main_next_def)
  next
    case (Inr ids)
    have dist: "distinct (map st_id (stages cf))" using cfg by (simp add: config_ok_def)
    note ready = ready_stages_sound [OF Inr dist]
    have "main_ok cf (s\<lparr>sd_queue := sort_key id ids, sd_main := M_Loop\<rparr>) M_Loop"
      using ok m by (simp add: sched_ok_def order_ok_def)
    then have "sched_ok cf (s\<lparr>sd_queue := sort_key id ids, sd_main := M_Loop\<rparr>)"
      using ready by (intro queue_main_ok [OF ok]) (auto simp: deps_done_def)
    moreover have "s\<lparr>sd_queue := sort_key id ids, sd_main := M_Loop\<rparr> = s\<lparr>sd_queue := sort_key id ids\<rparr>"
      using m by (cases s) simp
    ultimately have "sched_ok cf (s\<lparr>sd_queue := sort_key id ids\<rparr>)" by simp
    then show ?thesis
      using Nil Inr stop [of M_Done] stop [of "M_Raised PyRuntimeError"]
      by (cases ids) (simp_all add: main_next_def del: sort_key_simps)
  qed
qed

lemma outcome_lookup:
  assumes "\<forall>r \<in> set rs. \<exists>x. run_returned r = Some x \<and> to_task x = r_task r"
  shows "\<And>tid x. map_of (rev (map (\<lambda>x. (to_task x, x)) (List.map_filter run_returned rs))) tid = Some x
      \<Longrightarrow> to_task x = tid"
    and "tid \<in> set (map r_task rs)
      \<Longrightarrow> map_of (rev (map (\<lambda>x. (to_task x, x)) (List.map_filter run_returned rs))) tid \<noteq> None"
proof -
  show "\<And>tid x. map_of (rev (map (\<lambda>x. (to_task x, x)) (List.map_filter run_returned rs))) tid = Some x
      \<Longrightarrow> to_task x = tid"
    by (drule map_of_SomeD) auto
  assume "tid \<in> set (map r_task rs)"
  then obtain r x where "r \<in> set rs" "r_task r = tid" "run_returned r = Some x" "to_task x = tid"
    using assms by fastforce
  then have "x \<in> set (List.map_filter run_returned rs)"
    by (auto simp: List.map_filter_def image_iff)
  with \<open>to_task x = tid\<close> show
    "map_of (rev (map (\<lambda>x. (to_task x, x)) (List.map_filter run_returned rs))) tid \<noteq> None"
    by (auto simp: map_of_eq_None_iff image_iff)
qed

lemma returned_run:
  assumes "sched_ok cf s" and "r \<in> set (sd_runs s)" and "run_returned r \<noteq> None"
  shows "\<exists>x. run_returned r = Some x \<and> to_task x = r_task r"
    and "sd_task_state s (r_task r) = TS_SUCCEEDED" and "\<not> on_worker w r"
proof -
  have "run_ok cf s r" using assms(1,2) by (simp add: sched_ok_def runs_ok_def)
  moreover obtain x where "r_phase r = Returned x" using assms(3) by (cases "r_phase r") simp_all
  ultimately show "\<exists>x. run_returned r = Some x \<and> to_task x = r_task r"
    and "sd_task_state s (r_task r) = TS_SUCCEEDED" and "\<not> on_worker w r"
    by (simp_all add: run_ok_def)
qed

lemma stage_facts:
  assumes "sched_ok cf s" and "sd_main s = M_Stage sid"
  shows "sid \<in> sd_remaining s" and "sid \<notin> set (sd_queue s)" and "sd_stage_state s sid = SS_RUNNING"
    and "x \<in> sd_remaining s \<Longrightarrow> x \<noteq> sid \<Longrightarrow> sd_stage_state s x = SS_PENDING"
    and "map r_task (sd_runs s) = map t_id (tasks_of_stage cf sid)"
  using assms by (simp_all add: sched_ok_def order_ok_def)

lemma stage_succeeds_ok:
  assumes cfg: "config_ok cf" and ok: "sched_ok cf s" and m: "sd_main s = M_Stage sid"
    and returned: "\<forall>r \<in> set (sd_runs s). run_returned r \<noteq> None"
  shows "sched_ok cf (stage_succeeds sid s)"
proof -
  let ?s = "stage_succeeds sid s"
  note sid = stage_facts [OF ok m]
  define new where "new = map_of (rev (map (\<lambda>x. (to_task x, x)) (List.map_filter run_returned (sd_runs s))))"
  have state: "sd_stage_state ?s = (sd_stage_state s)(sid := SS_SUCCEEDED)"
    and out: "sd_outcomes ?s = sd_outcomes s ++ new"
    and same: "sd_task_state ?s = sd_task_state s" "sd_attempt_ids ?s = sd_attempt_ids s"
      "sd_queue ?s = sd_queue s" "sd_runs ?s = []" "sd_remaining ?s = sd_remaining s - {sid}"
      "sd_running ?s = sd_running s" "sd_max_running ?s = sd_max_running s" "sd_main ?s = M_Loop"
    by (simp_all add: stage_succeeds_def new_def)
  have deps: "deps_done cf s x \<Longrightarrow> deps_done cf ?s x" for x
    by (erule deps_done_mono) (simp add: state)
  have order: "order_ok cf s" and tasks: "tasks_ok cf s" and runs: "runs_ok cf s" and slots: "slots_ok cf s"
    using ok by (simp_all add: sched_ok_def)
  have "\<forall>r \<in> set (sd_runs s). \<exists>x. run_returned r = Some x \<and> to_task x = r_task r"
    using returned_run(1) [OF ok] returned by blast
  note lookup = outcome_lookup [OF this, folded new_def]
  have "main_ok cf ?s M_Loop" using sid(4) by (simp add: same state)
  moreover have "deps_done cf s sid"
    using order sid(1,3) unfolding order_ok_def by (metis insertI1 subsetD)
  ultimately have "order_ok cf ?s"
    using order sid(1,2) deps unfolding order_ok_def same state by auto
  moreover have "tasks_ok cf ?s"
    unfolding tasks_ok_def same
  proof (intro conjI ballI impI)
    fix t assume t: "t \<in> set (tasks cf)"
    { assume "sd_stage_state ?s (t_stage_id t) = SS_PENDING"
      with tasks t show "sd_attempt_ids s (t_id t) = []"
        by (auto simp: tasks_ok_def state split: if_splits) }
    assume succ: "sd_stage_state ?s (t_stage_id t) = SS_SUCCEEDED"
    have mine: "\<exists>r \<in> set (sd_runs s). r_task r = t_id t" if "t_stage_id t = sid"
    proof -
      have "t_id t \<in> set (map r_task (sd_runs s))"
        using t that tasks_of_stage_facts(1) [of cf sid] unfolding sid(5) by auto
      then show ?thesis by auto
    qed
    show "sd_task_state s (t_id t) = TS_SUCCEEDED"
    proof (cases "t_stage_id t = sid")
      case True
      then show ?thesis using mine returned_run(2) [OF ok] returned by metis
    next
      case False
      then show ?thesis using tasks t succ by (simp add: tasks_ok_def state)
    qed
    show "\<exists>x. sd_outcomes ?s (t_id t) = Some x \<and> to_task x = t_id t"
    proof (cases "new (t_id t)")
      case None
      then have "t_id t \<notin> set (map r_task (sd_runs s))" using lookup(2) by blast
      then have "t_stage_id t \<noteq> sid" using mine by force
      with tasks t succ None show ?thesis by (auto simp: tasks_ok_def out state map_add_def)
    next
      case (Some x)
      with lookup(1) show ?thesis by (simp add: out)
    qed
  qed (use same(4) in simp)
  moreover have "runs_ok cf ?s" using runs by (simp add: runs_ok_def same)
  moreover have "filter (on_worker w) (sd_runs s) = []" for w
    using returned_run(3) [OF ok] returned by (simp add: filter_empty_conv)
  then have "slots_ok cf ?s" using slots unfolding slots_ok_def same by simp
  ultimately show ?thesis by (simp add: sched_ok_def)
qed

lemma stage_raises_ok:
  assumes cfg: "config_ok cf" and ok: "sched_ok cf s" and m: "sd_main s = M_Stage sid"
  shows "sched_ok cf (stage_raises sid e s)"
proof -
  note sid = stage_facts [OF ok m]
  have stop: "sched_ok cf s'" if state: "sd_stage_state s' = (sd_stage_state s)(sid := v)" and v: "v \<in> {SS_CANCELED, SS_FAILED}"
    and task: "\<And>x. sd_task_state s x = TS_SUCCEEDED \<Longrightarrow> sd_task_state s' x = TS_SUCCEEDED"
    and same: "sd_runs s' = sd_runs s" "sd_attempt_ids s' = sd_attempt_ids s" "sd_outcomes s' = sd_outcomes s"
      "sd_remaining s' = sd_remaining s" "sd_queue s' = sd_queue s" "sd_running s' = sd_running s"
      "sd_max_running s' = sd_max_running s" and main: "main_ok cf s' (sd_main s')" for s' v
  proof -
    have deps: "deps_done cf s x \<Longrightarrow> deps_done cf s' x" for x
      by (erule deps_done_mono) (use sid(3) in \<open>auto simp: state\<close>)
    have "deps_done cf s sid"
      using ok sid(1,3) unfolding sched_ok_def order_ok_def by (metis insertI1 subsetD)
    then have "order_ok cf s'"
      using ok main deps sid(1,3) v unfolding sched_ok_def order_ok_def same by (auto simp: state)
    moreover have "tasks_ok cf s'"
      by (rule tasks_ok_mono [of cf s, OF _ same(1-3) _ _ task])
        (use ok sid(3) v in \<open>auto simp: sched_ok_def state split: if_splits\<close>)
    moreover have "runs_ok cf s'"
      by (rule runs_ok_cong [of cf s, OF _ same(1,2) task]) (use ok in \<open>auto simp: sched_ok_def\<close>)
    moreover have "slots_ok cf s'"
      by (rule slots_ok_cong [of cf s, OF _ same(1,6,7)]) (use ok in \<open>simp add: sched_ok_def\<close>)
    ultimately show ?thesis by (simp add: sched_ok_def)
  qed
  let ?c = "s\<lparr>sd_stage_state := (sd_stage_state s)(sid := SS_CANCELED),
      sd_task_state := (\<lambda>x. if x \<in> set (map r_task (sd_runs s)) \<and> sd_task_state s x \<in> {TS_PENDING, TS_RUNNING}
                            then TS_CANCELED else sd_task_state s x)\<rparr>"
  have c: "sched_ok cf (?c\<lparr>sd_main := M_Raised e'\<rparr>)" for e'
    by (rule stop [of _ SS_CANCELED]) auto
  have f: "sched_ok cf (s\<lparr>sd_stage_state := (sd_stage_state s)(sid := SS_FAILED), sd_main := M_Raised e\<rparr>)"
    by (rule stop [of _ SS_FAILED]) auto
  have p: "cancel_pending ?c = cancel_pending (?c\<lparr>sd_main := M_Raised e\<rparr>)"
    by (rule cancel_pending_main [symmetric])
  show ?thesis
    using c f cancel_pending_ok [OF c [of e]] unfolding stage_raises_def Let_def p by auto
qed

section \<open>Reachable states\<close>

text \<open>A step is one of the scheduler, of the environment, or local to a coroutine.\<close>

lemma sched_step_local:
  assumes "sched_step cf s s'" and cfg: "config_ok cf" and ok: "sched_ok cf s"
  shows "(sd_main s = M_Loop \<and> s' = main_next cf s)
    \<or> (\<exists>sid. sd_main s = M_Stage sid \<and> (\<forall>r \<in> set (sd_runs s). run_returned r \<noteq> None)
         \<and> s' = stage_succeeds sid s)
    \<or> (\<exists>sid e. sd_main s = M_Stage sid \<and> s' = stage_raises sid e s)
    \<or> (\<exists>t aid a now. t \<in> set (tasks cf) \<and> aid \<in> set (sd_attempt_ids s (t_id t)) \<and> sd_attempts s aid = Some a
         \<and> a_started_at a = None \<and> s' = mark_started aid now s)
    \<or> (\<not> sd_cancelled s \<and> s' = s\<lparr>sd_cancelled := True\<rparr>)
    \<or> (\<exists>w. sd_active s w \<and> w \<in> set (map lw_id (cf_workers cf))
         \<and> s' = s\<lparr>sd_active := (sd_active s)(w := False)\<rparr>)
    \<or> (\<exists>i r. run_at i r s \<and> local_change cf i r s s')"
  using assms(1)
proof cases
  case (Begin i r)
  then show ?thesis using begin_run_local [OF cfg ok] by blast
next
  case (Dispatch i r registered now)
  have "set (healthy_workers cf (sd_active s) registered) \<subseteq> set (map lw_id (cf_workers cf))"
    by (auto simp: healthy_workers_def)
  then show ?thesis using Dispatch dispatch_run_local [OF ok] by blast
next
  case (Enter i r aid w)
  then show ?thesis using enter_local [OF ok] by blast
next
  case (GiveUp i r aid w e now)
  have "local_change cf i r s (settle_run cf (Inl e) now i r aid w (s\<lparr>sd_running := sd_running s\<rparr>))"
    by (rule settle_run_local [OF ok]) (use GiveUp in simp_all)
  then show ?thesis using GiveUp by auto
next
  case (Settle i r aid w result now)
  have one: "on_worker w' r \<longleftrightarrow> w' = w" for w' using Settle by auto
  have "0 < sd_running s w"
  proof -
    have "r \<in> set (sd_runs s)" using Settle by (auto simp: run_at_def)
    then have "r \<in> set (filter (on_worker w) (sd_runs s))" using one by simp
    then have "0 < length (filter (on_worker w) (sd_runs s))" by (rule length_pos_if_in_set)
    then show ?thesis using ok by (simp add: sched_ok_def slots_ok_def)
  qed
  then have "local_change cf i r s (settle_run cf result now i r aid w (leave_slot w s))"
    unfolding leave_slot_def by (intro settle_run_local [OF ok]) (use Settle one in simp_all)
  then show ?thesis using Settle by blast
next
  case (EndBackoff i r aid now)
  then show ?thesis using end_backoff_local [OF ok] by blast
qed blast+

lemma sched_step_ok:
  assumes "sched_step cf s s'" and cfg: "config_ok cf" and ok: "sched_ok cf s"
  shows "sched_ok cf s'"
  using sched_step_local [OF assms]
proof (elim disjE exE conjE)
  fix i r assume "run_at i r s" "local_change cf i r s s'"
  then show ?thesis by (rule local_change_ok [OF cfg ok])
next
  fix t aid a now assume "s' = mark_started aid now s"
  then show ?thesis using sched_ok_cong [OF ok, of s'] by (simp add: mark_started_def set_attempt_def)
qed (use main_next_ok [OF cfg ok] stage_succeeds_ok [OF cfg ok] stage_raises_ok [OF cfg ok]
      sched_ok_cong [OF ok, of s'] in simp_all)

lemma reachable_ok:
  assumes "(sched_step cf)\<^sup>*\<^sup>* (initial_sched cf n active) s" and "config_ok cf"
  shows "sched_ok cf s"
  using assms(1)
  by (induction rule: rtranclp_induct) (use assms(2) initial_ok sched_step_ok in blast)+

section \<open>Every schedule ends\<close>

fun main_rank :: "main_state \<Rightarrow> string list \<Rightarrow> nat" where
  "main_rank M_Loop q = (if q = [] then 3 else 2)"
| "main_rank (M_Stage _) _ = 1"
| "main_rank _ _ = 0"

definition unstarted :: "config \<Rightarrow> 'v sched \<Rightarrow> string set" where
  "unstarted cf s =
     {aid \<in> (\<Union>t \<in> set (tasks cf). set (sd_attempt_ids s (t_id t))).
        \<exists>a. sd_attempts s aid = Some a \<and> a_started_at a = None}"

definition sched_order :: "config \<Rightarrow> ('v sched \<times> 'v sched) set" where
  "sched_order cf = measures
     [\<lambda>s. card (sd_remaining s), \<lambda>s. main_rank (sd_main s) (sd_queue s),
      \<lambda>s. sum_list (map (run_rank cf) (sd_runs s)), \<lambda>s. card (unstarted cf s),
      \<lambda>s. if sd_cancelled s then 0 else 1,
      \<lambda>s. card {w \<in> set (map lw_id (cf_workers cf)). sd_active s w}]"

lemma sum_list_update_less:
  fixes f :: "'a \<Rightarrow> nat"
  assumes "i < length xs" and "f y < f (xs ! i)"
  shows "sum_list (map f (xs[i := y])) < sum_list (map f xs)"
  using assms
proof (induction xs arbitrary: i)
  case (Cons x xs)
  then show ?case by (cases i) auto
qed simp

lemma mark_started_unstarted:
  assumes "t \<in> set (tasks cf)" and "aid \<in> set (sd_attempt_ids s (t_id t))"
    and "sd_attempts s aid = Some a" and "a_started_at a = None"
  shows "card (unstarted cf (mark_started aid now s)) < card (unstarted cf s)"
proof -
  have "unstarted cf (mark_started aid now s) = unstarted cf s - {aid}"
    by (auto simp: unstarted_def mark_started_def set_attempt_def split: if_splits)
  moreover have "aid \<in> unstarted cf s" using assms by (auto simp: unstarted_def)
  moreover have "finite (unstarted cf s)" by (simp add: unstarted_def)
  ultimately show ?thesis by (metis card_Diff1_less)
qed

lemma main_next_rank:
  assumes "sd_main s = M_Loop"
  shows "sd_remaining (main_next cf s) = sd_remaining s"
    and "main_rank (sd_main (main_next cf s)) (sd_queue (main_next cf s)) < main_rank (sd_main s) (sd_queue s)"
proof -
  have "sort_key id ids \<noteq> []" if "ids \<noteq> []" for ids :: "string list"
    using that by (metis length_0_conv length_sort)
  with assms show "sd_remaining (main_next cf s) = sd_remaining s"
    and "main_rank (sd_main (main_next cf s)) (sd_queue (main_next cf s)) < main_rank (sd_main s) (sd_queue s)"
    by (auto simp: main_next_def start_stage_def cancel_pending_def Let_def
        split: list.splits sum.splits simp del: sort_key_simps)
qed

lemma sched_step_decreases:
  assumes "sched_step cf s s'" and cfg: "config_ok cf" and ok: "sched_ok cf s"
  shows "(s', s) \<in> sched_order cf"
  using sched_step_local [OF assms]
proof (elim disjE exE conjE)
  assume "sd_main s = M_Loop" "s' = main_next cf s"
  then show ?thesis using main_next_rank [of s cf] by (simp add: sched_order_def)
next
  fix sid assume m: "sd_main s = M_Stage sid" and s': "s' = stage_succeeds sid s"
  have "finite (sd_remaining s)"
    using ok by (auto simp: sched_ok_def order_ok_def intro: finite_subset)
  then have "card (sd_remaining s - {sid}) < card (sd_remaining s)"
    using stage_facts(1) [OF ok m] by (rule card_Diff1_less)
  then show ?thesis by (simp add: sched_order_def s' stage_succeeds_def)
next
  fix sid e assume "sd_main s = M_Stage sid" "s' = stage_raises sid e s"
  then show ?thesis
    by (auto simp: sched_order_def stage_raises_def Let_def cancel_pending_def)
next
  fix t aid a now
  assume "t \<in> set (tasks cf)" "aid \<in> set (sd_attempt_ids s (t_id t))"
    "sd_attempts s aid = Some a" "a_started_at a = None" and s': "s' = mark_started aid now s"
  then have "card (unstarted cf s') < card (unstarted cf s)"
    using mark_started_unstarted by blast
  moreover have "sd_runs s' = sd_runs s" "sd_main s' = sd_main s" "sd_queue s' = sd_queue s"
    "sd_remaining s' = sd_remaining s"
    by (simp_all add: s' mark_started_def set_attempt_def)
  ultimately show ?thesis by (simp add: sched_order_def)
next
  assume "\<not> sd_cancelled s" "s' = s\<lparr>sd_cancelled := True\<rparr>"
  then show ?thesis by (simp add: sched_order_def unstarted_def)
next
  fix w assume w: "sd_active s w" "w \<in> set (map lw_id (cf_workers cf))"
    and s': "s' = s\<lparr>sd_active := (sd_active s)(w := False)\<rparr>"
  have "{v \<in> set (map lw_id (cf_workers cf)). sd_active s' v}
      = {v \<in> set (map lw_id (cf_workers cf)). sd_active s v} - {w}"
    by (auto simp: s')
  then have "card {v \<in> set (map lw_id (cf_workers cf)). sd_active s' v}
      < card {v \<in> set (map lw_id (cf_workers cf)). sd_active s v}"
    using w by (metis (mono_tags, lifting) List.finite_set card_Diff1_less finite_subset mem_Collect_eq subsetI)
  then show ?thesis by (simp add: sched_order_def unstarted_def s')
next
  fix i r assume r: "run_at i r s" and "local_change cf i r s s'"
  then obtain r' where "sd_runs s' = (sd_runs s)[i := r']" "run_rank cf r' < run_rank cf r"
    and same: "sd_main s' = sd_main s" "sd_queue s' = sd_queue s" "sd_remaining s' = sd_remaining s"
    unfolding local_change_def by blast
  then have "sum_list (map (run_rank cf) (sd_runs s')) < sum_list (map (run_rank cf) (sd_runs s))"
    using sum_list_update_less [of i "sd_runs s" "run_rank cf" r'] r by (simp add: run_at_def)
  with same show ?thesis by (simp add: sched_order_def)
qed

lemma wf_sched_order: "wf (sched_order cf)"
  by (simp add: sched_order_def)

section \<open>The scheduler of a planned query\<close>

text \<open>Built by the constructors, for the stages of a plan.\<close>

definition scheduler_for :: "py_runtime \<Rightarrow> string \<Rightarrow> plan \<Rightarrow> int \<Rightarrow> config \<Rightarrow> bool" where
  "scheduler_for rt q p n cf \<longleftrightarrow>
     (\<exists>policy ws g runners. make_retry_policy policy = Inr policy
        \<and> (\<forall>w \<in> set ws. make_logical_worker (lw_id w) (lw_slots w) = Inr w)
        \<and> plan_stages rt q p n = Inr g \<and> make_config policy ws g runners = Inr cf)"

lemma task_name_inject [simp]: "task_name a i = task_name b j \<longleftrightarrow> a = b \<and> i = j"
proof
  assume "task_name a i = task_name b j"
  then have "(a @ ''-task'') @ CHR ''-'' # fmt05 i = (b @ ''-task'') @ CHR ''-'' # fmt05 j"
    by (simp add: task_name_def)
  from split_at_last [OF this] show "a = b \<and> i = j" by simp
qed simp

lemma stage_tasks_distinct:
  "distinct (map st_id ss) \<Longrightarrow> distinct (map t_id (concat (map stage_tasks_of ss)))"
proof (induction ss)
  case (Cons s ss)
  have ids: "map t_id (stage_tasks_of x) = map (task_name (st_id x)) [0..<nat (st_partition_count x)]" for x
    by (simp add: stage_tasks_of_def stage_task_def comp_def)
  have "distinct (map t_id (stage_tasks_of s))"
    unfolding ids by (simp add: distinct_map inj_on_def)
  moreover have "t_id t \<noteq> t_id t'"
    if t: "t \<in> set (stage_tasks_of s)" and x: "x \<in> set ss" and t': "t' \<in> set (stage_tasks_of x)" for t x t'
  proof -
    have "st_id s \<noteq> st_id x" using Cons.prems x by (auto simp: image_iff)
    then show ?thesis using t t' by (auto simp: stage_tasks_of_def stage_task_def)
  qed
  then have "set (map t_id (stage_tasks_of s)) \<inter> set (map t_id (concat (map stage_tasks_of ss))) = {}"
    by (auto simp: image_iff)
  moreover have "distinct (map t_id (concat (map stage_tasks_of ss)))" using Cons by simp
  ultimately show ?case by (simp only: list.map concat.simps map_append distinct_append)
qed simp

lemma scheduler_for_facts:
  assumes "scheduler_for rt q p n cf"
  shows "config_ok cf" and "tasks cf = concat (map stage_tasks_of (stages cf))" and "stages cf \<noteq> []"
proof -
  obtain policy ws g runners where policy: "make_retry_policy policy = Inr policy"
    and ws: "\<forall>w \<in> set ws. make_logical_worker (lw_id w) (lw_slots w) = Inr w"
    and g: "plan_stages rt q p n = Inr g" and cf: "make_config policy ws g runners = Inr cf"
    using assms unfolding scheduler_for_def by blast
  have c: "cf = \<lparr>cf_policy = policy, cf_workers = sort_key lw_id ws, cf_graph = g, cf_runners = runners\<rparr>"
    "distinct (map lw_id ws)" "ws \<noteq> []"
    using cf by (auto simp: make_config_def split: if_splits)
  note graph = plan_stages_graph [OF g]
  then show tasks: "tasks cf = concat (map stage_tasks_of (stages cf))" and "stages cf \<noteq> []"
    by (simp_all add: c(1))
  have "distinct (map t_id (tasks cf))"
    unfolding tasks using graph by (intro stage_tasks_distinct) (simp add: c(1))
  moreover have "1 \<le> rp_max_attempts policy"
    using policy by (simp add: make_retry_policy_def split: if_splits)
  moreover have "distinct (map lw_id (sort_key lw_id ws))"
    using c(2) by (simp add: distinct_map)
  moreover have "sort_key lw_id ws \<noteq> []" using c(3) by (metis length_0_conv length_sort)
  moreover have "\<forall>w \<in> set ws. 1 \<le> lw_slots w"
    using ws by (auto simp: make_logical_worker_def split: if_splits)
  ultimately show "config_ok cf" using graph by (simp add: config_ok_def c(1))
qed

end
