(* ===== verification/SchedulerRuns.thy ===== *)
theory SchedulerRuns
  imports SchedulerLaws
begin

text \<open>
  What the scheduler guarantees over whole runs: the safety of the stage order, the bounds on
  attempts and slots, termination of every schedule, and success of a schedule that nothing
  disturbs.  A schedule is undisturbed when no token is cancelled, no Worker is lost and every
  attempt that executes returns a value.
\<close>

section \<open>Undisturbed schedules\<close>

inductive smooth_step :: "config \<Rightarrow> 'v sched \<Rightarrow> 'v sched \<Rightarrow> bool" for cf :: config where
  S_Main: "sd_main s = M_Loop \<Longrightarrow> smooth_step cf s (main_next cf s)"
| S_Succeeds: "sd_main s = M_Stage sid \<Longrightarrow> \<forall>r \<in> set (sd_runs s). run_returned r \<noteq> None
    \<Longrightarrow> smooth_step cf s (stage_succeeds sid s)"
| S_Begin: "run_at i r s \<Longrightarrow> r_phase r = Created \<Longrightarrow> smooth_step cf s (begin_run i r s)"
| S_Dispatch: "run_at i r s \<Longrightarrow> r_phase r = Ready \<Longrightarrow> healthy_workers cf (sd_active s) registered \<noteq> []
    \<Longrightarrow> smooth_step cf s (dispatch_run cf (healthy_workers cf (sd_active s) registered) now i r s)"
| S_Enter: "run_at i r s \<Longrightarrow> r_phase r = Queued aid w \<Longrightarrow> sd_running s w < slots_of cf w
    \<Longrightarrow> sd_active s w \<Longrightarrow> \<not> sd_cancelled s
    \<Longrightarrow> smooth_step cf s (set_run i (r\<lparr>r_phase := Executing aid w\<rparr>) (enter_slot w s))"
| S_Started: "t \<in> set (tasks cf) \<Longrightarrow> aid \<in> set (sd_attempt_ids s (t_id t)) \<Longrightarrow> sd_attempts s aid = Some a
    \<Longrightarrow> a_started_at a = None \<Longrightarrow> smooth_step cf s (mark_started aid now s)"
| S_Settle: "run_at i r s \<Longrightarrow> r_phase r = Executing aid w
    \<Longrightarrow> smooth_step cf s (settle_run cf (Inr v) now i r aid w (leave_slot w s))"

lemma smooth_is_step: "smooth_step cf s s' \<Longrightarrow> sched_step cf s s'"
  by (induction rule: smooth_step.induct) (blast intro: sched_step.intros)+

fun smooth_phase :: "'v phase \<Rightarrow> bool" where
  "smooth_phase (Backoff _) = False"
| "smooth_phase (Raised _) = False"
| "smooth_phase _ = True"

fun smooth_main :: "main_state \<Rightarrow> string set \<Rightarrow> bool" where
  "smooth_main (M_Raised _) _ = False"
| "smooth_main M_Done remaining = (remaining = {})"
| "smooth_main _ _ = True"

definition smooth_ok :: "config \<Rightarrow> 'v sched \<Rightarrow> bool" where
  "smooth_ok cf s \<longleftrightarrow>
     \<not> sd_cancelled s \<and> (\<forall>w \<in> set (map lw_id (cf_workers cf)). sd_active s w)
     \<and> (\<forall>r \<in> set (sd_runs s). smooth_phase (r_phase r))
     \<and> smooth_main (sd_main s) (sd_remaining s)"

subsection \<open>Some stage is always ready\<close>

lemma deps_succeeded_total:
  "set ds \<subseteq> stage_ids cf
    \<Longrightarrow> deps_succeeded cf s ds = Inr (\<forall>d \<in> set ds. sd_stage_state s d = SS_SUCCEEDED)"
  by (induction ds) auto

lemma ready_stages_total:
  assumes "\<forall>st \<in> set sts. set (st_dependencies st) \<subseteq> stage_ids cf"
  shows "\<exists>ids. ready_stages cf s sts = Inr ids \<and> (\<forall>st \<in> set sts. st_id st \<in> sd_remaining s
      \<longrightarrow> (\<forall>d \<in> set (st_dependencies st). sd_stage_state s d = SS_SUCCEEDED) \<longrightarrow> st_id st \<in> set ids)"
  using assms
proof (induction sts)
  case (Cons st sts)
  then obtain ids where ids: "ready_stages cf s sts = Inr ids"
    and all: "\<forall>st \<in> set sts. st_id st \<in> sd_remaining s
      \<longrightarrow> (\<forall>d \<in> set (st_dependencies st). sd_stage_state s d = SS_SUCCEEDED) \<longrightarrow> st_id st \<in> set ids"
    by auto
  have "deps_succeeded cf s (st_dependencies st)
      = Inr (\<forall>d \<in> set (st_dependencies st). sd_stage_state s d = SS_SUCCEEDED)"
    using Cons.prems by (intro deps_succeeded_total) simp
  then show ?case using ids all by (cases "st_id st \<in> sd_remaining s") auto
qed simp

lemma first_remaining_ready:
  assumes "deps_ok seen sts" and "\<forall>x \<in> seen. sd_stage_state s x = SS_SUCCEEDED"
    and "\<forall>st \<in> set sts. st_id st \<notin> sd_remaining s \<longrightarrow> sd_stage_state s (st_id st) = SS_SUCCEEDED"
    and "\<exists>st \<in> set sts. st_id st \<in> sd_remaining s"
  shows "\<exists>st \<in> set sts. st_id st \<in> sd_remaining s
    \<and> (\<forall>d \<in> set (st_dependencies st). sd_stage_state s d = SS_SUCCEEDED)"
  using assms
proof (induction sts arbitrary: seen)
  case (Cons st sts)
  show ?case
  proof (cases "st_id st \<in> sd_remaining s")
    case True
    with Cons.prems(1,2) show ?thesis by (auto dest: subsetD)
  next
    case False
    with Cons.prems have "\<exists>st \<in> set sts. st_id st \<in> sd_remaining s
      \<and> (\<forall>d \<in> set (st_dependencies st). sd_stage_state s d = SS_SUCCEEDED)"
      by (intro Cons.IH [of "insert (st_id st) seen"]) auto
    then show ?thesis by auto
  qed
qed simp

lemma deps_ok_known:
  assumes "deps_ok seen sts" and "st \<in> set sts"
  shows "set (st_dependencies st) \<subseteq> seen \<union> set (map st_id sts)"
  using assms
proof (induction sts arbitrary: seen)
  case (Cons x sts)
  show ?case
  proof (cases "st = x")
    case False
    then have "set (st_dependencies st) \<subseteq> insert (st_id x) seen \<union> set (map st_id sts)"
      using Cons.prems by (intro Cons.IH) simp_all
    then show ?thesis by auto
  qed (use Cons.prems in auto)
qed simp

lemma some_stage_ready:
  assumes cfg: "config_ok cf" and ok: "sched_ok cf s" and "sd_remaining s \<noteq> {}"
  shows "\<exists>x ids. ready_stages cf s (stages cf) = Inr (x # ids)"
proof -
  have graph: "deps_ok {} (stages cf)" using cfg by (simp add: config_ok_def)
  have order: "order_ok cf s" using ok by (simp add: sched_ok_def)
  obtain ids where ids: "ready_stages cf s (stages cf) = Inr ids"
    and all: "\<forall>st \<in> set (stages cf). st_id st \<in> sd_remaining s
      \<longrightarrow> (\<forall>d \<in> set (st_dependencies st). sd_stage_state s d = SS_SUCCEEDED) \<longrightarrow> st_id st \<in> set ids"
    using ready_stages_total [of "stages cf" cf s] deps_ok_known [OF graph] by auto
  have "sd_remaining s \<subseteq> stage_ids cf" and succ: "\<forall>x \<in> stage_ids cf. sd_stage_state s x = SS_SUCCEEDED \<longleftrightarrow> x \<notin> sd_remaining s"
    using order unfolding order_ok_def by blast+
  then have "\<exists>st \<in> set (stages cf). st_id st \<in> sd_remaining s" using assms(3) by auto
  moreover have "\<forall>st \<in> set (stages cf). st_id st \<notin> sd_remaining s \<longrightarrow> sd_stage_state s (st_id st) = SS_SUCCEEDED"
    using succ by simp
  ultimately obtain st where "st \<in> set (stages cf)" "st_id st \<in> sd_remaining s"
    "\<forall>d \<in> set (st_dependencies st). sd_stage_state s d = SS_SUCCEEDED"
    using first_remaining_ready [OF graph, of s] by blast
  then have "ids \<noteq> []" using all by fastforce
  with ids show ?thesis by (cases ids) auto
qed

subsection \<open>Nothing disturbs an undisturbed schedule\<close>

lemma smooth_run:
  assumes "smooth_ok cf s" and "i < length (sd_runs s)" and "smooth_phase (r_phase r')"
  shows "\<forall>r \<in> set ((sd_runs s)[i := r']). smooth_phase (r_phase r)"
  using assms set_update_subset_insert [of "sd_runs s" i r'] by (auto simp: smooth_ok_def)

lemma smooth_ok_update:
  assumes "smooth_ok cf s" and "run_at i r s" and "smooth_phase (r_phase r')"
    and "sd_runs s' = (sd_runs s)[i := r']" and "sd_cancelled s' = sd_cancelled s"
    and "sd_active s' = sd_active s" and "sd_main s' = sd_main s" and "sd_remaining s' = sd_remaining s"
  shows "smooth_ok cf s'"
  using assms smooth_run [OF assms(1) _ assms(3), of i] by (simp add: smooth_ok_def run_at_def)

lemma smooth_initial:
  "\<forall>w \<in> set (map lw_id (cf_workers cf)). active w \<Longrightarrow> smooth_ok cf (initial_sched cf n active)"
  by (simp add: smooth_ok_def initial_sched_def)

lemma smooth_main_next:
  assumes cfg: "config_ok cf" and runners: "set (map t_id (tasks cf)) \<subseteq> cf_runners cf"
    and ok: "sched_ok cf s" and smooth: "smooth_ok cf s" and m: "sd_main s = M_Loop"
  shows "smooth_ok cf (main_next cf s)"
proof (cases "sd_queue s")
  case Nil
  show ?thesis
  proof (cases "sd_remaining s = {}")
    case True
    then show ?thesis using smooth Nil by (simp add: main_next_def smooth_ok_def)
  next
    case False
    obtain x ids where "ready_stages cf s (stages cf) = Inr (x # ids)"
      using some_stage_ready [OF cfg ok False] by blast
    then show ?thesis
      using smooth Nil False m by (simp add: main_next_def smooth_ok_def del: sort_key_simps)
  qed
next
  case (Cons sid rest)
  have "list_all (\<lambda>t. t_id t \<in> cf_runners cf) (tasks_of_stage cf sid)"
    using runners by (auto simp: list_all_iff tasks_of_stage_facts)
  then show ?thesis
    using smooth Cons by (auto simp: main_next_def start_stage_def smooth_ok_def new_run_def)
qed

lemma choose_worker_total: "healthy \<noteq> [] \<Longrightarrow> \<exists>w. choose_worker n healthy previous = Inr w"
  by (simp add: choose_worker_def Let_def)

lemma smooth_step_ok:
  assumes "smooth_step cf s s'" and cfg: "config_ok cf"
    and runners: "set (map t_id (tasks cf)) \<subseteq> cf_runners cf"
    and ok: "sched_ok cf s" and smooth: "smooth_ok cf s"
  shows "smooth_ok cf s'"
  using assms(1)
proof cases
  case S_Main
  then show ?thesis using smooth_main_next [OF cfg runners ok smooth] by simp
next
  case (S_Succeeds sid)
  then show ?thesis using smooth by (simp add: smooth_ok_def stage_succeeds_def)
next
  case (S_Begin i r)
  then show ?thesis
    by (intro smooth_ok_update [OF smooth, of i r "r\<lparr>r_phase := Ready\<rparr>"])
      (simp_all add: begin_run_def update_defs)
next
  case (S_Dispatch i r registered now)
  obtain w where "choose_worker (sd_next_worker s) (healthy_workers cf (sd_active s) registered) (r_previous r) = Inr w"
    using choose_worker_total [OF S_Dispatch(4)] by blast
  moreover have "\<not> sd_cancelled s" using smooth by (simp add: smooth_ok_def)
  ultimately show ?thesis
    unfolding S_Dispatch(1)
    by (intro smooth_ok_update [OF smooth S_Dispatch(2), of "r\<lparr>r_previous := insert w (r_previous r),
          r_last_attempt := Some (attempt_name (r_task r) (length (sd_attempt_ids s (r_task r)))),
          r_phase := Queued (attempt_name (r_task r) (length (sd_attempt_ids s (r_task r)))) w\<rparr>"])
      (simp_all add: dispatch_run_def Let_def update_defs)
next
  case (S_Enter i r aid w)
  then show ?thesis
    by (intro smooth_ok_update [OF smooth, of i r "r\<lparr>r_phase := Executing aid w\<rparr>"])
      (simp_all add: enter_slot_def Let_def update_defs)
next
  case (S_Started t aid a now)
  then show ?thesis using smooth by (simp add: smooth_ok_def mark_started_def set_attempt_def)
next
  case (S_Settle i r aid w v now)
  moreover have "\<not> sd_cancelled s" using smooth by (simp add: smooth_ok_def)
  ultimately show ?thesis
    by (intro smooth_ok_update [OF smooth, of i r "r\<lparr>r_phase := Returned
          \<lparr>to_task = r_task r, to_attempt = aid, to_worker = w, to_value = v\<rparr>\<rparr>"])
      (simp_all add: settle_run_def leave_slot_def Let_def update_defs)
qed

subsection \<open>No deadlock\<close>

lemma run_progress:
  assumes cfg: "config_ok cf" and ok: "sched_ok cf s" and smooth: "smooth_ok cf s"
    and r: "run_at i r s" and open_run: "run_returned r = None"
  shows "\<exists>s'. smooth_step cf s s'"
proof (cases "r_phase r")
  case Created
  then show ?thesis using S_Begin [OF r] by blast
next
  case Ready
  have "healthy_workers cf (sd_active s) None = map lw_id (cf_workers cf)"
    using smooth by (simp add: healthy_workers_def smooth_ok_def)
  moreover have "cf_workers cf \<noteq> []" using cfg by (simp add: config_ok_def)
  ultimately show ?thesis using S_Dispatch [OF r Ready, of cf None] by auto
next
  case (Executing aid w)
  then show ?thesis using S_Settle [OF r] by blast
next
  case (Queued aid w)
  have w: "w \<in> set (map lw_id (cf_workers cf))"
    using run_facts(1) [OF ok r] Queued by (simp add: run_ok_def)
  show ?thesis
  proof (cases "sd_running s w < slots_of cf w")
    case True
    then show ?thesis using S_Enter [OF r Queued True] smooth w by (auto simp: smooth_ok_def)
  next
    case False
    obtain x where "find (\<lambda>x. lw_id x = w) (cf_workers cf) = Some x" "x \<in> set (cf_workers cf)"
      using w by (cases "find (\<lambda>x. lw_id x = w) (cf_workers cf)") (auto simp: find_None_iff find_Some_iff)
    then have "0 < slots_of cf w" using cfg by (fastforce simp: slots_of_def config_ok_def)
    with False have "0 < length (filter (on_worker w) (sd_runs s))"
      using ok by (auto simp: sched_ok_def slots_ok_def)
    then obtain r' where "r' \<in> set (sd_runs s)" "on_worker w r'"
      unfolding length_greater_0_conv filter_empty_conv by blast
    then obtain j aid' where "run_at j r' s" "r_phase r' = Executing aid' w"
      by (auto simp: in_set_conv_nth run_at_def split: phase.splits)
    then have "smooth_step cf s (settle_run cf (Inr undefined) 0 j r' aid' w (leave_slot w s))"
      by (rule S_Settle)
    then show ?thesis by blast
  qed
next
  case (Backoff aid)
  moreover have "smooth_phase (r_phase r)" using smooth r by (auto simp: smooth_ok_def run_at_def)
  ultimately show ?thesis by simp
next
  case (Returned x)
  then show ?thesis using open_run by simp
next
  case (Raised e)
  moreover have "smooth_phase (r_phase r)" using smooth r by (auto simp: smooth_ok_def run_at_def)
  ultimately show ?thesis by simp
qed

lemma smooth_progress:
  assumes cfg: "config_ok cf" and ok: "sched_ok cf s" and smooth: "smooth_ok cf s"
    and open_main: "sd_main s \<noteq> M_Done"
  shows "\<exists>s'. smooth_step cf s s'"
proof (cases "sd_main s")
  case M_Loop
  then show ?thesis using S_Main by blast
next
  case (M_Stage sid)
  show ?thesis
  proof (cases "\<forall>r \<in> set (sd_runs s). run_returned r \<noteq> None")
    case True
    then show ?thesis using S_Succeeds [OF M_Stage] by blast
  next
    case False
    then obtain i where "i < length (sd_runs s)" "run_returned (sd_runs s ! i) = None"
      by (metis in_set_conv_nth)
    then show ?thesis using run_progress [OF cfg ok smooth, of i] by (simp add: run_at_def)
  qed
next
  case (M_Raised e)
  then show ?thesis using smooth by (simp add: smooth_ok_def)
qed (use open_main in simp)

subsection \<open>Maximal undisturbed schedules\<close>

lemma undisturbed_ok:
  assumes cfg: "config_ok cf" and runners: "set (map t_id (tasks cf)) \<subseteq> cf_runners cf"
    and active: "\<forall>w \<in> set (map lw_id (cf_workers cf)). active w"
    and reach: "(smooth_step cf)\<^sup>*\<^sup>* (initial_sched cf n active) s"
  shows "sched_ok cf s \<and> smooth_ok cf s"
  using reach
proof (induction rule: rtranclp_induct)
  case base
  show ?case by (intro conjI initial_ok cfg smooth_initial active)
next
  case (step s s')
  then show ?case
    using sched_step_ok [OF smooth_is_step cfg] smooth_step_ok [OF _ cfg runners] by blast
qed

lemma undisturbed_stuck:
  assumes "config_ok cf" and "sched_ok cf s" and "smooth_ok cf s" and "\<nexists>s'. smooth_step cf s s'"
  shows "sd_main s = M_Done \<and> (\<forall>x \<in> stage_ids cf. sd_stage_state s x = SS_SUCCEEDED)"
proof -
  have m: "sd_main s = M_Done" using smooth_progress [OF assms(1-3)] assms(4) by blast
  then have "sd_remaining s = {}" using assms(3) by (simp add: smooth_ok_def)
  then show ?thesis using m assms(2) by (simp add: sched_ok_def order_ok_def)
qed

lemma undisturbed_extends:
  assumes cfg: "config_ok cf" and runners: "set (map t_id (tasks cf)) \<subseteq> cf_runners cf"
    and "sched_ok cf s" and "smooth_ok cf s"
  shows "\<exists>s'. (smooth_step cf)\<^sup>*\<^sup>* s s' \<and> (\<nexists>s''. smooth_step cf s' s'')"
  using assms(3,4)
proof (induction s rule: wf_induct_rule [OF wf_sched_order [of cf]])
  case (1 s)
  show ?case
  proof (cases "\<exists>s'. smooth_step cf s s'")
    case True
    then obtain s' where s': "smooth_step cf s s'" by blast
    note step = smooth_is_step [OF s']
    have "(s', s) \<in> sched_order cf" by (rule sched_step_decreases [OF step cfg 1(2)])
    moreover have "sched_ok cf s'" by (rule sched_step_ok [OF step cfg 1(2)])
    moreover have "smooth_ok cf s'" by (rule smooth_step_ok [OF s' cfg runners 1(2,3)])
    ultimately show ?thesis using 1(1) s' by (meson converse_rtranclp_into_rtranclp)
  qed blast
qed

lemma succeeded_tasks:
  assumes "sched_ok cf s" and "t \<in> set (tasks cf)" and "sd_stage_state s (t_stage_id t) = SS_SUCCEEDED"
  shows "sd_task_state s (t_id t) = TS_SUCCEEDED"
    and "\<exists>x. sd_outcomes s (t_id t) = Some x \<and> to_task x = t_id t"
  using assms unfolding sched_ok_def tasks_ok_def by blast+

lemma task_stage: 
  assumes "scheduler_for rt q p n cf" and "t \<in> set (tasks cf)"
  shows "t_stage_id t \<in> stage_ids cf"
  using assms(2) unfolding scheduler_for_facts(2) [OF assms(1)]
  by (auto simp: stage_tasks_of_def stage_task_def)

section \<open>A planned query with its Workers\<close>

definition sample_policy :: retry_policy where
  "sample_policy = \<lparr>rp_max_attempts = 2, rp_backoff_seconds = Fin 0, rp_attempt_timeout_seconds = Fin 1,
     rp_lease_poll_interval_seconds = Fin 1\<rparr>"

definition sample_workers :: "logical_worker list" where
  "sample_workers = [\<lparr>lw_id = ''w1'', lw_slots = 1\<rparr>, \<lparr>lw_id = ''w2'', lw_slots = 2\<rparr>]"

lemma sample_scheduler:
  obtains cf where "scheduler_for plain_rt ''q'' sample_physical 1 cf" and "cf_runners cf = UNIV"
proof -
  have "is_ok (plan_stages plain_rt ''q'' sample_physical 1)" by code_simp
  then obtain g where g: "plan_stages plain_rt ''q'' sample_physical 1 = Inr g"
    by (auto simp: is_ok_iff)
  have policy: "make_retry_policy sample_policy = Inr sample_policy" by code_simp
  have ws: "\<forall>w \<in> set sample_workers. make_logical_worker (lw_id w) (lw_slots w) = Inr w"
    by (simp add: sample_workers_def make_logical_worker_def)
  let ?cf = "\<lparr>cf_policy = sample_policy, cf_workers = sort_key lw_id sample_workers, cf_graph = g, cf_runners = UNIV\<rparr>"
  have "make_config sample_policy sample_workers g UNIV = Inr ?cf"
    by (simp add: make_config_def sample_workers_def)
  then have "scheduler_for plain_rt ''q'' sample_physical 1 ?cf"
    unfolding scheduler_for_def using policy ws g by blast
  then show thesis using that by simp
qed

lemma sample_run:
  assumes "scheduler_for rt q p n cf" and "cf_runners cf = UNIV"
  shows "\<exists>s :: nat sched. (smooth_step cf)\<^sup>*\<^sup>* (initial_sched cf 0 (\<lambda>_. True)) s
    \<and> (\<nexists>s'. smooth_step cf s s') \<and> (\<forall>x \<in> stage_ids cf. sd_stage_state s x = SS_SUCCEEDED)"
proof -
  note cfg = scheduler_for_facts(1) [OF assms(1)]
  have active: "\<forall>w \<in> set (map lw_id (cf_workers cf)). (\<lambda>_. True) w" by simp
  have runners: "set (map t_id (tasks cf)) \<subseteq> cf_runners cf" using assms(2) by simp
  obtain s :: "nat sched" where s: "(smooth_step cf)\<^sup>*\<^sup>* (initial_sched cf 0 (\<lambda>_. True)) s" "\<nexists>s'. smooth_step cf s s'"
    using undisturbed_extends [OF cfg runners initial_ok [OF cfg] smooth_initial [OF active]] by blast
  from undisturbed_ok [OF cfg runners active s(1)] undisturbed_stuck [OF cfg _ _ s(2)] s
  show ?thesis by blast
qed

lemma smooth_reach: "(smooth_step cf)\<^sup>*\<^sup>* s s' \<Longrightarrow> (sched_step cf)\<^sup>*\<^sup>* s s'"
  by (induction rule: rtranclp_induct) (auto intro: rtranclp.rtrancl_into_rtrancl smooth_is_step)

section \<open>Properties\<close>

text \<open>
  C2.  An undisturbed schedule of a planned query succeeds.  From every state it reaches it can be
  continued to a state in which no step is left; and wherever no step is left, \<open>run\<close> has
  returned, every stage has succeeded and every task has an outcome of its own.  So there is no
  deadlock between the stages, the slots and the retries.
\<close>

theorem undisturbed_schedule_succeeds:
  fixes s :: "'v sched"
  assumes "scheduler_for rt q p n cf" and "set (map t_id (tasks cf)) \<subseteq> cf_runners cf"
    and "\<forall>w \<in> set (map lw_id (cf_workers cf)). active w"
    and "(smooth_step cf)\<^sup>*\<^sup>* (initial_sched cf k active) s"
  shows "(\<exists>s'. (smooth_step cf)\<^sup>*\<^sup>* s s' \<and> (\<nexists>s''. smooth_step cf s' s''))
    \<and> ((\<nexists>s'. smooth_step cf s s') \<longrightarrow> sd_main s = M_Done
         \<and> (\<forall>st \<in> set (stages cf). sd_stage_state s (st_id st) = SS_SUCCEEDED)
         \<and> (\<forall>t \<in> set (tasks cf). \<exists>x. sd_outcomes s (t_id t) = Some x \<and> to_task x = t_id t))"
proof -
  note cfg = scheduler_for_facts(1) [OF assms(1)]
  have ok: "sched_ok cf s" "smooth_ok cf s" using undisturbed_ok [OF cfg assms(2-4)] by simp_all
  show ?thesis
  proof (intro conjI impI)
    show "\<exists>s'. (smooth_step cf)\<^sup>*\<^sup>* s s' \<and> (\<nexists>s''. smooth_step cf s' s'')"
      by (rule undisturbed_extends [OF cfg assms(2) ok])
    assume "\<nexists>s'. smooth_step cf s s'"
    from undisturbed_stuck [OF cfg ok this] have final: "sd_main s = M_Done"
      "\<forall>x \<in> stage_ids cf. sd_stage_state s x = SS_SUCCEEDED" by simp_all
    show "sd_main s = M_Done" by (rule final(1))
    show "\<forall>st \<in> set (stages cf). sd_stage_state s (st_id st) = SS_SUCCEEDED" using final(2) by simp
    show "\<forall>t \<in> set (tasks cf). \<exists>x. sd_outcomes s (t_id t) = Some x \<and> to_task x = t_id t"
      using succeeded_tasks(2) [OF ok(1)] task_stage [OF assms(1)] final(2) by blast
  qed
qed

lemma undisturbed_schedule_succeeds_witness:
  "\<exists>cf. \<exists>s :: nat sched. scheduler_for plain_rt ''q'' sample_physical 1 cf
    \<and> (smooth_step cf)\<^sup>*\<^sup>* (initial_sched cf 0 (\<lambda>_. True)) s \<and> sd_main s = M_Done
    \<and> stages cf \<noteq> [] \<and> (\<forall>st \<in> set (stages cf). sd_stage_state s (st_id st) = SS_SUCCEEDED)"
proof -
  obtain cf where cf: "scheduler_for plain_rt ''q'' sample_physical 1 cf" "cf_runners cf = UNIV"
    by (rule sample_scheduler)
  have h: "set (map t_id (tasks cf)) \<subseteq> cf_runners cf" "\<forall>w \<in> set (map lw_id (cf_workers cf)). (\<lambda>_. True) w"
    using cf(2) by simp_all
  obtain s :: "nat sched" where s: "(smooth_step cf)\<^sup>*\<^sup>* (initial_sched cf 0 (\<lambda>_. True)) s"
    "\<nexists>s'. smooth_step cf s s'"
    using undisturbed_schedule_succeeds [OF cf(1) h rtranclp.rtrancl_refl] by blast
  from undisturbed_schedule_succeeds [OF cf(1) h s(1)] scheduler_for_facts(3) [OF cf(1)] s cf(1)
  show ?thesis by blast
qed

text \<open>
  C3.  Every schedule of a planned query ends, whatever fails, is lost or is cancelled: there is no
  infinite sequence of steps, so retries, backoffs and rounds of the main loop are bounded.
\<close>

theorem schedules_terminate:
  assumes "scheduler_for rt q p n cf"
  shows "\<nexists>f. f (0::nat) = (initial_sched cf k active :: 'v sched) \<and> (\<forall>i. sched_step cf (f i) (f (Suc i)))"
proof
  note cfg = scheduler_for_facts(1) [OF assms]
  assume "\<exists>f. f (0::nat) = (initial_sched cf k active :: 'v sched) \<and> (\<forall>i. sched_step cf (f i) (f (Suc i)))"
  then obtain f where f: "f (0::nat) = (initial_sched cf k active :: 'v sched)"
    and steps: "\<And>i. sched_step cf (f i) (f (Suc i))" by blast
  have "(sched_step cf)\<^sup>*\<^sup>* (initial_sched cf k active) (f i)" for i
    by (induction i) (use f steps in \<open>auto intro: rtranclp.rtrancl_into_rtrancl\<close>)
  then have "sched_ok cf (f i)" for i using reachable_ok [OF _ cfg] by blast
  then have "(f (Suc i), f i) \<in> sched_order cf" for i
    using sched_step_decreases [OF steps cfg] by blast
  then show False using wf_sched_order [of cf] by (auto simp: wf_iff_no_infinite_down_chain)
qed

lemma schedules_terminate_witness:
  "\<exists>cf. scheduler_for plain_rt ''q'' sample_physical 1 cf
    \<and> (\<nexists>f. f (0::nat) = (initial_sched cf 0 (\<lambda>_. True) :: nat sched) \<and> (\<forall>i. sched_step cf (f i) (f (Suc i))))"
proof -
  obtain cf where "scheduler_for plain_rt ''q'' sample_physical 1 cf" by (rule sample_scheduler)
  with schedules_terminate [OF this] show ?thesis by blast
qed

text \<open>
  C4.  In every reachable state a stage that runs, has succeeded or has failed has only succeeded
  dependencies; and a stage has succeeded only if each of its tasks has, with an outcome of its
  own.  No task of a stage that has not started has an attempt.
\<close>

theorem stage_order_safety:
  assumes "scheduler_for rt q p n cf" and "(sched_step cf)\<^sup>*\<^sup>* (initial_sched cf k active) s"
    and "st \<in> set (stages cf)"
  shows "(sd_stage_state s (st_id st) \<in> {SS_RUNNING, SS_SUCCEEDED, SS_FAILED}
           \<longrightarrow> (\<forall>d \<in> set (st_dependencies st). sd_stage_state s d = SS_SUCCEEDED))
    \<and> (\<forall>t \<in> set (stage_tasks_of st).
         (sd_stage_state s (st_id st) = SS_SUCCEEDED \<longrightarrow> sd_task_state s (t_id t) = TS_SUCCEEDED
            \<and> (\<exists>x. sd_outcomes s (t_id t) = Some x \<and> to_task x = t_id t))
         \<and> (sd_stage_state s (st_id st) = SS_PENDING \<longrightarrow> sd_attempt_ids s (t_id t) = []))"
proof -
  have ok: "sched_ok cf s" by (rule reachable_ok [OF assms(2) scheduler_for_facts(1) [OF assms(1)]])
  have t: "t \<in> set (tasks cf) \<and> t_stage_id t = st_id st" if "t \<in> set (stage_tasks_of st)" for t
    using that assms(3) unfolding scheduler_for_facts(2) [OF assms(1)]
    by (auto simp: stage_tasks_of_def stage_task_def)
  have "sd_stage_state s (st_id st) \<in> {SS_RUNNING, SS_SUCCEEDED, SS_FAILED} \<longrightarrow> deps_done cf s (st_id st)"
  proof -
    have "st_id st \<in> stage_ids cf" using assms(3) by simp
    then show ?thesis using ok unfolding sched_ok_def order_ok_def by blast
  qed
  moreover have "sd_stage_state s (st_id st) = SS_PENDING \<longrightarrow> sd_attempt_ids s (t_id t) = []"
    if "t \<in> set (stage_tasks_of st)" for t
    using t [OF that] ok unfolding sched_ok_def tasks_ok_def by auto
  ultimately show ?thesis
    using t succeeded_tasks [OF ok] assms(3) unfolding deps_done_def by metis
qed

lemma stage_order_safety_witness:
  "\<exists>cf. \<exists>s :: nat sched. stages cf \<noteq> [] \<and> (\<forall>st \<in> set (stages cf). sd_stage_state s (st_id st) = SS_SUCCEEDED
    \<and> (\<forall>d \<in> set (st_dependencies st). sd_stage_state s d = SS_SUCCEEDED)
    \<and> (\<forall>t \<in> set (stage_tasks_of st). sd_task_state s (t_id t) = TS_SUCCEEDED))"
proof -
  obtain cf where cf: "scheduler_for plain_rt ''q'' sample_physical 1 cf" "cf_runners cf = UNIV"
    by (rule sample_scheduler)
  obtain s :: "nat sched" where s: "(smooth_step cf)\<^sup>*\<^sup>* (initial_sched cf 0 (\<lambda>_. True)) s"
    "\<forall>x \<in> stage_ids cf. sd_stage_state s x = SS_SUCCEEDED"
    using sample_run [OF cf] by blast
  have "sd_stage_state s (st_id st) = SS_SUCCEEDED
      \<and> (\<forall>d \<in> set (st_dependencies st). sd_stage_state s d = SS_SUCCEEDED)
      \<and> (\<forall>t \<in> set (stage_tasks_of st). sd_task_state s (t_id t) = TS_SUCCEEDED)"
    if st: "st \<in> set (stages cf)" for st
    using stage_order_safety [OF cf(1) smooth_reach [OF s(1)] st] s(2) st by simp
  then show ?thesis using scheduler_for_facts(3) [OF cf(1)] by blast
qed

text \<open>
  C5.  In every reachable state a task has at most \<open>max_attempts\<close> attempts, with distinct
  identifiers, and a Worker never runs, and never has run, more attempts than it has slots.
\<close>

theorem attempt_and_slot_bounds:
  assumes "scheduler_for rt q p n cf" and "(sched_step cf)\<^sup>*\<^sup>* (initial_sched cf k active) s"
  shows "length (sd_attempt_ids s tid) \<le> attempts_allowed cf \<and> distinct (sd_attempt_ids s tid)
    \<and> sd_running s w \<le> slots_of cf w \<and> sd_max_running s w \<le> slots_of cf w"
proof -
  have ok: "sched_ok cf s" by (rule reachable_ok [OF assms(2) scheduler_for_facts(1) [OF assms(1)]])
  have ids: "ids_ok cf tid (sd_attempt_ids s tid)" using ok by (simp add: sched_ok_def runs_ok_def)
  have "distinct (map (attempt_name tid) [0..<m])" for m
    by (auto simp: distinct_map inj_on_def attempt_name_def)
  then have "distinct (sd_attempt_ids s tid)" using ids unfolding ids_ok_def by metis
  moreover have "sd_running s w \<le> slots_of cf w \<and> sd_max_running s w \<le> slots_of cf w"
    using ok unfolding sched_ok_def slots_ok_def by blast
  ultimately show ?thesis using ids by (simp add: ids_ok_def)
qed

lemma attempt_and_slot_bounds_witness:
  "\<exists>cf. \<exists>s :: nat sched. (\<forall>x \<in> stage_ids cf. sd_stage_state s x = SS_SUCCEEDED)
    \<and> (\<forall>tid w. length (sd_attempt_ids s tid) \<le> attempts_allowed cf \<and> distinct (sd_attempt_ids s tid)
         \<and> sd_max_running s w \<le> slots_of cf w)"
proof -
  obtain cf where cf: "scheduler_for plain_rt ''q'' sample_physical 1 cf" "cf_runners cf = UNIV"
    by (rule sample_scheduler)
  obtain s :: "nat sched" where s: "(smooth_step cf)\<^sup>*\<^sup>* (initial_sched cf 0 (\<lambda>_. True)) s"
    "\<forall>x \<in> stage_ids cf. sd_stage_state s x = SS_SUCCEEDED"
    using sample_run [OF cf] by blast
  with attempt_and_slot_bounds [OF cf(1) smooth_reach [OF s(1)]] show ?thesis by blast
qed

end
