(* ===== verification/Actions.thy ===== *)
theory Actions
  imports Errors
begin

text \<open>
  Code that reads and writes a state and may raise: an action returns a result or an exception
  together with the state it leaves behind, so what was done before an exception stays done.
\<close>

type_synonym ('s, 'a) action = "'s \<Rightarrow> 'a res \<times> 's"

definition retA :: "'a \<Rightarrow> ('s, 'a) action" where
  "retA x = (\<lambda>s. (Inr x, s))"

definition raiseA :: "exn \<Rightarrow> ('s, 'a) action" where
  "raiseA e = (\<lambda>s. (Inl e, s))"

definition liftA :: "'a res \<Rightarrow> ('s, 'a) action" where
  "liftA m = (\<lambda>s. (m, s))"

definition bindA :: "('s, 'a) action \<Rightarrow> ('a \<Rightarrow> ('s, 'b) action) \<Rightarrow> ('s, 'b) action" where
  "bindA m k = (\<lambda>s. case m s of (Inl e, s') \<Rightarrow> (Inl e, s') | (Inr x, s') \<Rightarrow> k x s')"

text \<open>A loop over a list that threads a value.\<close>

fun foldA :: "('v \<Rightarrow> 'a \<Rightarrow> ('s, 'v) action) \<Rightarrow> 'v \<Rightarrow> 'a list \<Rightarrow> ('s, 'v) action" where
  "foldA f v [] = retA v"
| "foldA f v (x # xs) = bindA (f v x) (\<lambda>v'. foldA f v' xs)"

lemma bindA_Inr:
  "bindA m k s = (Inr y, s') \<longleftrightarrow> (\<exists>x s''. m s = (Inr x, s'') \<and> k x s'' = (Inr y, s'))"
  by (auto simp: bindA_def split: prod.splits sum.splits)

lemma bindA_Inl:
  "bindA m k s = (Inl e, s')
    \<longleftrightarrow> m s = (Inl e, s') \<or> (\<exists>x s''. m s = (Inr x, s'') \<and> k x s'' = (Inl e, s'))"
  by (auto simp: bindA_def split: prod.splits sum.splits)

lemma action_simps [simp]:
  "retA x s = (Inr x, s)" "raiseA e s = (Inl e, s)" "liftA m s = (m, s)"
  by (simp_all add: retA_def raiseA_def liftA_def)

lemma liftA_Inr: "liftA m s = (Inr y, s') \<longleftrightarrow> m = Inr y \<and> s' = s"
  by (auto simp: liftA_def)

lemma foldA_append:
  "foldA f v (xs @ ys) = bindA (foldA f v xs) (\<lambda>v'. foldA f v' ys)"
  by (induction xs arbitrary: v) (auto simp: bindA_def retA_def fun_eq_iff split: prod.splits sum.splits)

end
