(* ===== verification/Shuffle.thy ===== *)
theory Shuffle
  imports Actions Context Cost
begin

text \<open>
  Shuffle files (\<open>execution/shuffle.py\<close>): a task splits its table into one immutable file per
  target partition and publishes a manifest that lists them; a downstream task reads one
  partition from the manifests of all upstream tasks and checks what it reads.  Parquet coding
  and the JSON validation are fields of \<open>shuffle_env\<close>, SHA-256 is \<open>fr_sha256\<close>.  A location is the
  list of safe segments that \<open>_join\<close> appends to the root.  The object store answers every request
  itself: \<open>os_faults n\<close> is the failure of the \<open>n\<close>-th request, with what a failed write that is
  not atomic leaves behind.  An absent cancellation token is one that is never set.
\<close>

section \<open>The object store\<close>

type_synonym location = "string list"

record object_store =
  os_objects :: "location \<rightharpoonup> string"
  os_calls :: nat
  os_faults :: "nat \<Rightarrow> (exn \<times> string option) option"
  os_checks :: nat
  os_cancelled :: "nat \<Rightarrow> bool"

definition check_token :: "(object_store, unit) action" where
  "check_token s =
     (if os_cancelled s (os_checks s) then Inl ExecutionCancelled else Inr (),
      s\<lparr>os_checks := Suc (os_checks s)\<rparr>)"

definition read_bytes :: "location \<Rightarrow> (object_store, string) action" where
  "read_bytes loc s =
     (case os_faults s (os_calls s) of
        Some (e, _) \<Rightarrow> Inl e
      | None \<Rightarrow> (case os_objects s loc of None \<Rightarrow> Inl (PyOSError 2) | Some data \<Rightarrow> Inr data),
      s\<lparr>os_calls := Suc (os_calls s)\<rparr>)"

definition write_bytes :: "location \<Rightarrow> string \<Rightarrow> (object_store, unit) action" where
  "write_bytes loc data s =
     (let s' = s\<lparr>os_calls := Suc (os_calls s)\<rparr> in
      case os_faults s (os_calls s) of
        Some (e, None) \<Rightarrow> (Inl e, s')
      | Some (e, Some rest) \<Rightarrow> (Inl e, s'\<lparr>os_objects := (os_objects s)(loc \<mapsto> rest)\<rparr>)
      | None \<Rightarrow> (Inr (), s'\<lparr>os_objects := (os_objects s)(loc \<mapsto> data)\<rparr>))"

text \<open>\<open>publish_bytes\<close> makes the whole object visible or nothing.\<close>

definition publish_bytes :: "location \<Rightarrow> string \<Rightarrow> (object_store, unit) action" where
  "publish_bytes loc data s =
     (let s' = s\<lparr>os_calls := Suc (os_calls s)\<rparr> in
      case os_faults s (os_calls s) of
        Some (e, _) \<Rightarrow> (Inl e, s')
      | None \<Rightarrow> (Inr (), s'\<lparr>os_objects := (os_objects s)(loc \<mapsto> data)\<rparr>))"

section \<open>Manifests\<close>

record shuffle_file =
  fl_partition :: int
  fl_location :: location
  fl_row_count :: int
  fl_size_bytes :: int
  fl_checksum :: string

record shuffle_metrics =
  sm_records_written :: int
  sm_bytes_written :: int
  sm_records_read :: int
  sm_bytes_read :: int
  sm_partition_count :: int
  sm_write_seconds :: pyfloat
  sm_read_seconds :: pyfloat
  sm_spill_bytes :: int

definition no_shuffle_metrics :: shuffle_metrics where
  "no_shuffle_metrics =
     \<lparr>sm_records_written = 0, sm_bytes_written = 0, sm_records_read = 0, sm_bytes_read = 0,
      sm_partition_count = 0, sm_write_seconds = Fin 0, sm_read_seconds = Fin 0, sm_spill_bytes = 0\<rparr>"

text \<open>The Pydantic constraints: counters and times are not negative.\<close>

definition make_shuffle_metrics :: "shuffle_metrics \<Rightarrow> shuffle_metrics res" where
  "make_shuffle_metrics m =
     (if 0 \<le> sm_records_written m \<and> 0 \<le> sm_bytes_written m \<and> 0 \<le> sm_records_read m
         \<and> 0 \<le> sm_bytes_read m \<and> 0 \<le> sm_partition_count m \<and> fle (Fin 0) (sm_write_seconds m)
         \<and> fle (Fin 0) (sm_read_seconds m) \<and> 0 \<le> sm_spill_bytes m
      then Inr m else Inl PyValueError)"

definition add_shuffle_metrics ::
    "'x py_runtime_scheme \<Rightarrow> shuffle_metrics \<Rightarrow> shuffle_metrics \<Rightarrow> shuffle_metrics res" where
  "add_shuffle_metrics rt a b = make_shuffle_metrics
     \<lparr>sm_records_written = sm_records_written a + sm_records_written b,
      sm_bytes_written = sm_bytes_written a + sm_bytes_written b,
      sm_records_read = sm_records_read a + sm_records_read b,
      sm_bytes_read = sm_bytes_read a + sm_bytes_read b,
      sm_partition_count = max (sm_partition_count a) (sm_partition_count b),
      sm_write_seconds = fadd rt (sm_write_seconds a) (sm_write_seconds b),
      sm_read_seconds = fadd rt (sm_read_seconds a) (sm_read_seconds b),
      sm_spill_bytes = sm_spill_bytes a + sm_spill_bytes b\<rparr>"

definition make_shuffle_file :: "shuffle_file \<Rightarrow> shuffle_file res" where
  "make_shuffle_file f =
     (if 0 \<le> fl_partition f \<and> 0 \<le> fl_row_count f \<and> 0 \<le> fl_size_bytes f
      then Inr f else Inl PyValueError)"

record shuffle_manifest =
  mf_query_id :: string
  mf_stage_id :: string
  mf_task_id :: string
  mf_attempt_id :: string
  mf_files :: "shuffle_file list"
  mf_metrics :: shuffle_metrics

text \<open>Parquet, and Pydantic's validation of the text of a manifest.\<close>

record shuffle_env = env +
  se_encode :: "batch \<Rightarrow> string res"
  se_decode :: "string \<Rightarrow> batch res"
  se_validate :: "string \<Rightarrow> shuffle_manifest res"

section \<open>Locations\<close>

definition hex_text :: "nat \<Rightarrow> nat \<Rightarrow> string" where
  "hex_text w n = map (\<lambda>i. hex_digit (n div 16 ^ (w - Suc i) mod 16)) [0..<w]"

definition hexdigest :: "'x filter_runtime_scheme \<Rightarrow> string \<Rightarrow> string" where
  "hexdigest ev data = hex_text 64 (fr_sha256 ev data)"

definition safe_segment :: "'x filter_runtime_scheme \<Rightarrow> string \<Rightarrow> string" where
  "safe_segment ev v =
     (if length v \<le> 16 then v else take 3 v @ ''-'' @ take 12 (hexdigest ev v))"

definition shuffle_location :: "'x filter_runtime_scheme \<Rightarrow> string list \<Rightarrow> location" where
  "shuffle_location ev parts = map (safe_segment ev) parts"

definition data_location ::
    "'x filter_runtime_scheme \<Rightarrow> string \<Rightarrow> string \<Rightarrow> string \<Rightarrow> string \<Rightarrow> nat \<Rightarrow> location" where
  "data_location ev query stage task attempt part =
     shuffle_location ev [query, stage, task, attempt, ''part-'' @ fmt05 part @ ''.parquet'']"

definition manifest_location ::
    "'x filter_runtime_scheme \<Rightarrow> string \<Rightarrow> string \<Rightarrow> string \<Rightarrow> string \<Rightarrow> location" where
  "manifest_location ev query stage task attempt =
     shuffle_location ev [query, stage, task, attempt, ''manifest.json'']"

section \<open>Partitions\<close>

definition hex_bytes :: "string \<Rightarrow> string" where
  "hex_bytes s = concat (map (\<lambda>c. hex_text 2 (of_char c)) s)"

fun stable_json :: "py_runtime \<Rightarrow> sql_value \<Rightarrow> json" where
  "stable_json rt (VBytes s) = JObject [(''bytes'', JStr (hex_bytes s))]"
| "stable_json rt (VStr s) = JStr s"
| "stable_json rt (VInt i) = JInt i"
| "stable_json rt (VFloat f) = JFloat f"
| "stable_json rt (VBool b) = JBool b"
| "stable_json rt VNull = JNull"
| "stable_json rt v = JStr (py_str rt v)"

definition key_text :: "py_runtime \<Rightarrow> sql_value list \<Rightarrow> string" where
  "key_text rt vs = json_dumps rt (JList (map (stable_json rt) vs))"

text \<open>The first eight bytes of the digest, modulo the number of partitions.\<close>

definition partition_of_key :: "env \<Rightarrow> nat \<Rightarrow> sql_value list \<Rightarrow> nat" where
  "partition_of_key ev n vs = fr_sha256 ev (key_text (rt_of ev) vs) div 2 ^ 192 mod n"

definition partition_of :: "env \<Rightarrow> expr list \<Rightarrow> nat \<Rightarrow> row \<Rightarrow> nat res" where
  "partition_of ev ks n row =
     bindR (mapR (evaluate (rt_of ev) row) ks) (\<lambda>vs. Inr (partition_of_key ev n vs))"

section \<open>Writing\<close>

definition targets_of :: "env \<Rightarrow> expr list \<Rightarrow> nat \<Rightarrow> bool \<Rightarrow> row \<Rightarrow> nat list res" where
  "targets_of ev ks n broadcast row =
     (if broadcast then Inr [0..<n] else bindR (partition_of ev ks n row) (\<lambda>p. Inr [p]))"

definition add_index :: "nat \<Rightarrow> nat list list \<Rightarrow> nat \<Rightarrow> nat list list" where
  "add_index index assignments target = assignments[target := assignments ! target @ [index]]"

definition assign_row ::
    "env \<Rightarrow> expr list \<Rightarrow> nat \<Rightarrow> bool \<Rightarrow> nat list list \<Rightarrow> nat \<times> row \<Rightarrow> (object_store, nat list list) action" where
  "assign_row ev ks n broadcast assignments = (\<lambda>(index, row).
     bindA check_token (\<lambda>_.
     bindA (liftA (targets_of ev ks n broadcast row)) (\<lambda>targets.
       retA (foldl (add_index index) assignments targets))))"

definition write_partition ::
    "shuffle_env \<Rightarrow> string \<Rightarrow> string \<Rightarrow> string \<Rightarrow> string \<Rightarrow> batch
     \<Rightarrow> shuffle_file list \<Rightarrow> nat \<times> nat list \<Rightarrow> (object_store, shuffle_file list) action" where
  "write_partition se query stage task attempt table files = (\<lambda>(part, indexes).
     bindA check_token (\<lambda>_.
     let output = table\<lparr>bt_rows := map ((!) (bt_rows table)) indexes\<rparr>;
         loc = data_location se query stage task attempt part
     in bindA (liftA (se_encode se output)) (\<lambda>payload.
        bindA (write_bytes loc payload) (\<lambda>_.
        bindA (liftA (make_shuffle_file
                 \<lparr>fl_partition = int part, fl_location = loc,
                  fl_row_count = int (length (bt_rows output)), fl_size_bytes = int (length payload),
                  fl_checksum = hexdigest se payload\<rparr>)) (\<lambda>f.
          retA (files @ [f]))))))"

subsection \<open>The manifest as JSON\<close>

text \<open>A location is rendered by \<open>_join\<close>; the JSON value keeps its segments apart.\<close>

definition file_json :: "shuffle_file \<Rightarrow> json" where
  "file_json f = JObject
     [(''partition'', JInt (fl_partition f)), (''location'', JList (map JStr (fl_location f))),
      (''row_count'', JInt (fl_row_count f)), (''size_bytes'', JInt (fl_size_bytes f)),
      (''checksum'', JStr (fl_checksum f))]"

definition metrics_json :: "shuffle_metrics \<Rightarrow> json" where
  "metrics_json m = JObject
     [(''records_written'', JInt (sm_records_written m)), (''bytes_written'', JInt (sm_bytes_written m)),
      (''records_read'', JInt (sm_records_read m)), (''bytes_read'', JInt (sm_bytes_read m)),
      (''partition_count'', JInt (sm_partition_count m)),
      (''write_seconds'', JFloat (sm_write_seconds m)), (''read_seconds'', JFloat (sm_read_seconds m)),
      (''spill_bytes'', JInt (sm_spill_bytes m))]"

definition manifest_json :: "shuffle_manifest \<Rightarrow> json" where
  "manifest_json m = JObject
     [(''version'', JInt 1), (''query_id'', JStr (mf_query_id m)), (''stage_id'', JStr (mf_stage_id m)),
      (''task_id'', JStr (mf_task_id m)), (''attempt_id'', JStr (mf_attempt_id m)),
      (''files'', JList (map file_json (mf_files m))), (''metrics'', metrics_json (mf_metrics m))]"

definition shuffle_write ::
    "shuffle_env \<Rightarrow> string \<Rightarrow> string \<Rightarrow> string \<Rightarrow> string \<Rightarrow> batch \<Rightarrow> int \<Rightarrow> expr list \<Rightarrow> bool \<Rightarrow> pyfloat
     \<Rightarrow> (object_store, shuffle_manifest) action" where
  "shuffle_write se query stage task attempt table partition_count ks broadcast seconds =
     (if partition_count < 1 then raiseA PyValueError
      else if \<not> broadcast \<and> 1 < partition_count \<and> ks = [] then raiseA PyValueError
      else
        let n = nat partition_count in
        bindA (foldA (assign_row (env.truncate se) ks n broadcast) (replicate n [])
                 (enumerate 0 (bt_rows table))) (\<lambda>assignments.
        bindA (foldA (write_partition se query stage task attempt table) []
                 (enumerate 0 assignments)) (\<lambda>files.
        bindA (liftA (make_shuffle_metrics (no_shuffle_metrics
                 \<lparr>sm_records_written := sum_list (map fl_row_count files),
                  sm_bytes_written := sum_list (map fl_size_bytes files),
                  sm_partition_count := partition_count, sm_write_seconds := seconds\<rparr>))) (\<lambda>metrics.
        let manifest = \<lparr>mf_query_id = query, mf_stage_id = stage, mf_task_id = task,
                        mf_attempt_id = attempt, mf_files = files, mf_metrics = metrics\<rparr> in
        bindA check_token (\<lambda>_.
        bindA (publish_bytes (manifest_location se query stage task attempt)
                 (json_dumps (py_runtime.truncate se) (manifest_json manifest))) (\<lambda>_.
        bindA check_token (\<lambda>_. retA manifest)))))))"

section \<open>Reading\<close>

definition read_file :: "shuffle_env \<Rightarrow> shuffle_file \<Rightarrow> (object_store, batch \<times> nat) action" where
  "read_file se f =
     bindA (read_bytes (fl_location f)) (\<lambda>payload.
       if int (length payload) \<noteq> fl_size_bytes f then raiseA PyValueError
       else if hexdigest se payload \<noteq> fl_checksum f then raiseA PyValueError
       else bindA (liftA (se_decode se payload)) (\<lambda>table.
         if int (length (bt_rows table)) \<noteq> fl_row_count f then raiseA PyValueError
         else retA (table, length payload)))"

definition read_manifest ::
    "shuffle_env \<Rightarrow> nat \<Rightarrow> batch list \<times> nat \<times> nat \<Rightarrow> shuffle_manifest
     \<Rightarrow> (object_store, batch list \<times> nat \<times> nat) action" where
  "read_manifest se part = (\<lambda>(tables, rows_read, bytes_read) manifest.
     bindA check_token (\<lambda>_.
       case filter (\<lambda>f. fl_partition f = int part) (mf_files manifest) of
         [f] \<Rightarrow> bindA (read_file se f) (\<lambda>(table, n).
                  retA (tables @ [table], rows_read + length (bt_rows table), bytes_read + n))
       | _ \<Rightarrow> raiseA PyValueError))"

text \<open>\<open>pa.concat_tables\<close> wants equal schemas; no table at all gives the empty one.\<close>

definition concat_tables :: "batch list \<Rightarrow> batch res" where
  "concat_tables tables = (case tables of
       [] \<Rightarrow> Inr \<lparr>bt_schema = \<lparr>sc_fields = [], sc_metadata = []\<rparr>, bt_rows = []\<rparr>
     | t # ts \<Rightarrow> if list_all (\<lambda>u. bt_schema u = bt_schema t) ts
                 then Inr \<lparr>bt_schema = bt_schema t, bt_rows = concat (map bt_rows tables)\<rparr>
                 else Inl PyValueError)"

definition read_partition ::
    "shuffle_env \<Rightarrow> shuffle_manifest list \<Rightarrow> nat \<Rightarrow> pyfloat \<Rightarrow> (object_store, batch \<times> shuffle_metrics) action" where
  "read_partition se manifests part seconds =
     bindA (foldA (read_manifest se part) ([], 0, 0) manifests) (\<lambda>(tables, rows_read, bytes_read).
     bindA (liftA (concat_tables tables)) (\<lambda>combined.
     bindA (liftA (make_shuffle_metrics (no_shuffle_metrics
              \<lparr>sm_records_read := int rows_read, sm_bytes_read := int bytes_read,
               sm_partition_count := 1, sm_read_seconds := seconds\<rparr>))) (\<lambda>metrics.
       retA (combined, metrics))))"

subsection \<open>Loading a manifest\<close>

definition load_manifest ::
    "shuffle_env \<Rightarrow> string \<Rightarrow> string \<Rightarrow> string \<Rightarrow> string \<Rightarrow> (object_store, shuffle_manifest) action" where
  "load_manifest se query stage task attempt =
     bindA (read_bytes (manifest_location se query stage task attempt)) (\<lambda>payload.
       liftA (se_validate se payload))"

end
