(* ===== verification/ShuffleLaws.thy ===== *)
theory ShuffleLaws
  imports Shuffle PhysicalLaws
begin

text \<open>
  What the shuffle guarantees: a partition read from the manifests of successful writes holds
  exactly the rows assigned to it, damage is detected, and a manifest is visible only when the
  files it lists are.
\<close>

section \<open>The rows of a partition\<close>

definition goes_to :: "env \<Rightarrow> expr list \<Rightarrow> nat \<Rightarrow> bool \<Rightarrow> nat \<Rightarrow> row \<Rightarrow> bool" where
  "goes_to ev ks n broadcast p row \<longleftrightarrow>
     (case targets_of ev ks n broadcast row of Inl _ \<Rightarrow> False | Inr ts \<Rightarrow> p \<in> set ts)"

lemma targets_ok:
  assumes "targets_of ev ks n broadcast row = Inr ts" and "0 < n"
  shows "distinct ts" and "set ts \<subseteq> {..<n}" and "\<not> broadcast \<Longrightarrow> length ts = 1"
  using assms
  by (auto simp: targets_of_def partition_of_def partition_of_key_def bindR_eq_Inr split: if_splits)

lemma add_indexes:
  assumes "distinct ts" and "set ts \<subseteq> {..<length as}"
  shows "length (foldl (add_index i) as ts) = length as"
    and "p < length as \<Longrightarrow> foldl (add_index i) as ts ! p = as ! p @ (if p \<in> set ts then [i] else [])"
  using assms
proof (induction ts arbitrary: as)
  case (Cons t ts)
  { case 1 with Cons.IH(1) [of "add_index i as t"] show ?case by (simp add: add_index_def) }
  { case 2 with Cons.IH(2) [of "add_index i as t"] show ?case
      by (auto simp: add_index_def nth_list_update) }
qed simp_all

lemma check_token_objects: "check_token s = (r, s') \<Longrightarrow> os_objects s' = os_objects s"
  by (auto simp: check_token_def)

lemma assign_row_Inr:
  "assign_row ev ks n broadcast as (k, r) s = (Inr as', s') \<longleftrightarrow>
     (\<exists>ts. targets_of ev ks n broadcast r = Inr ts \<and> check_token s = (Inr (), s')
        \<and> as' = foldl (add_index k) as ts)"
  by (auto simp: bindA_Inr assign_row_def liftA_Inr)

lemma assign_fold:
  assumes "foldA (assign_row ev ks n broadcast) as (enumerate k rows) s = (Inr as', s')"
    and "0 < n" and "length as = n"
  shows "length as' = n \<and> os_objects s' = os_objects s
    \<and> (\<forall>p < n. as' ! p = as ! p @ map fst (filter (\<lambda>(i, r). goes_to ev ks n broadcast p r) (enumerate k rows)))
    \<and> (\<forall>r \<in> set rows. is_ok (targets_of ev ks n broadcast r))"
  using assms
proof (induction rows arbitrary: as k s)
  case (Cons r rows)
  from Cons.prems(1) obtain ts t where ts: "targets_of ev ks n broadcast r = Inr ts"
    and t: "check_token s = (Inr (), t)"
    and rest: "foldA (assign_row ev ks n broadcast) (foldl (add_index k) as ts) (enumerate (Suc k) rows) t = (Inr as', s')"
    by (auto simp: bindA_Inr assign_row_Inr)
  note ok = targets_ok [OF ts Cons.prems(2)]
  have len: "length (foldl (add_index k) as ts) = n" using add_indexes(1) ok Cons.prems(3) by simp
  have at: "foldl (add_index k) as ts ! p = as ! p @ (if goes_to ev ks n broadcast p r then [k] else [])"
    if "p < n" for p
    using add_indexes(2) [of ts as p k] ok Cons.prems(3) that ts by (simp add: goes_to_def)
  show ?case
    using Cons.IH [OF rest Cons.prems(2) len] check_token_objects [OF t] at ts by (auto simp: goes_to_def)
qed simp

lemma enumerate_rows:
  "map ((!) rows) (map fst (filter (\<lambda>(i, r). P r) (enumerate 0 rows))) = filter P rows"
proof -
  have "map ((!) rows) (map fst (filter (\<lambda>(i, r). P r) (enumerate 0 rows)))
      = map snd (filter (\<lambda>(i, r). P r) (enumerate 0 rows))"
    by (auto simp: in_set_enumerate_eq)
  also have "map snd (filter (\<lambda>(i, r). P r) (enumerate k rows)) = filter P rows" for k
    by (induction rows arbitrary: k) auto
  finally show ?thesis .
qed

text \<open>Without broadcast every row goes to one partition.\<close>

lemma partitions_conserve:
  assumes "0 < n" and "\<forall>r \<in> set rows. is_ok (targets_of ev ks n False r)"
  shows "mset (concat (map (\<lambda>p. filter (goes_to ev ks n False p) rows) [0..<n])) = mset rows"
  using assms(2)
proof (induction rows)
  case (Cons r rows)
  obtain ts where ts: "targets_of ev ks n False r = Inr ts" using Cons.prems by (auto simp: is_ok_iff)
  obtain q where q: "ts = [q]" "q < n"
    using targets_ok [OF ts assms(1)] by (cases ts) auto
  have "mset (concat (map (\<lambda>p. filter (goes_to ev ks n False p) (r # rows)) ps))
      = (if q \<in> set ps then {#r#} else {#}) + mset (concat (map (\<lambda>p. filter (goes_to ev ks n False p) rows) ps))"
    if "distinct ps" for ps
    using that by (induction ps) (auto simp: goes_to_def ts q(1))
  from this [of "[0..<n]"] q(2) Cons show ?case by simp
qed (simp add: concat_eq_Nil_conv)

section \<open>What a write leaves behind\<close>

lemma write_bytes_Inr:
  "write_bytes loc data s = (Inr u, s') \<longleftrightarrow>
     os_faults s (os_calls s) = None
     \<and> s' = s\<lparr>os_calls := Suc (os_calls s), os_objects := (os_objects s)(loc \<mapsto> data)\<rparr>"
  by (auto simp: write_bytes_def Let_def split: option.splits)

lemma publish_bytes_Inr:
  "publish_bytes loc data s = (Inr u, s') \<longleftrightarrow>
     os_faults s (os_calls s) = None
     \<and> s' = s\<lparr>os_calls := Suc (os_calls s), os_objects := (os_objects s)(loc \<mapsto> data)\<rparr>"
  by (auto simp: publish_bytes_def Let_def split: option.splits)

text \<open>The record of a stored file.\<close>

definition stored_file :: "shuffle_env \<Rightarrow> location \<Rightarrow> nat \<Rightarrow> batch \<Rightarrow> string \<Rightarrow> shuffle_file" where
  "stored_file se loc p output payload =
     \<lparr>fl_partition = int p, fl_location = loc, fl_row_count = int (length (bt_rows output)),
      fl_size_bytes = int (length payload), fl_checksum = hexdigest se payload\<rparr>"

lemma write_partition_Inr:
  "write_partition se query stage task attempt table files (p, indexes) s = (Inr files', s') \<longleftrightarrow>
     (\<exists>t payload. check_token s = (Inr (), t)
        \<and> se_encode se (table\<lparr>bt_rows := map ((!) (bt_rows table)) indexes\<rparr>) = Inr payload
        \<and> os_faults t (os_calls t) = None
        \<and> s' = t\<lparr>os_calls := Suc (os_calls t), os_objects := (os_objects t)
             (data_location se query stage task attempt p \<mapsto> payload)\<rparr>
        \<and> files' = files @ [stored_file se (data_location se query stage task attempt p) p
             (table\<lparr>bt_rows := map ((!) (bt_rows table)) indexes\<rparr>) payload])"
  by (auto simp: write_partition_def bindA_Inr liftA_Inr write_bytes_Inr Let_def make_shuffle_file_def
      stored_file_def)

text \<open>Files listed for the partitions \<open>k\<close>, \<open>k + 1\<close>, and so on, and stored at their locations.\<close>

fun files_stored ::
    "shuffle_env \<Rightarrow> (nat \<Rightarrow> location) \<Rightarrow> (location \<rightharpoonup> string) \<Rightarrow> batch \<Rightarrow> (nat \<times> nat list) list \<Rightarrow> shuffle_file list \<Rightarrow> bool" where
  "files_stored se loc objects table [] fs \<longleftrightarrow> fs = []"
| "files_stored se loc objects table ((p, indexes) # parts) fs \<longleftrightarrow>
     (\<exists>payload fs'. se_encode se (table\<lparr>bt_rows := map ((!) (bt_rows table)) indexes\<rparr>) = Inr payload
        \<and> objects (loc p) = Some payload
        \<and> fs = stored_file se (loc p) p (table\<lparr>bt_rows := map ((!) (bt_rows table)) indexes\<rparr>) payload # fs'
        \<and> files_stored se loc objects table parts fs')"

lemma files_stored_cong:
  "files_stored se loc objects table parts fs
    \<Longrightarrow> (\<And>p. p \<in> fst ` set parts \<Longrightarrow> objects' (loc p) = objects (loc p))
    \<Longrightarrow> files_stored se loc objects' table parts fs"
  by (induction se loc objects table parts fs rule: files_stored.induct) auto

lemma write_partitions:
  assumes "foldA (write_partition se query stage task attempt table) files parts s = (Inr files', s')"
    and "distinct (map fst parts)"
    and "inj_on (data_location se query stage task attempt) (fst ` set parts)"
  shows "(\<exists>fs. files' = files @ fs
        \<and> files_stored se (data_location se query stage task attempt) (os_objects s') table parts fs)
    \<and> (\<forall>loc. loc \<notin> data_location se query stage task attempt ` fst ` set parts
          \<longrightarrow> os_objects s' loc = os_objects s loc)"
  using assms
proof (induction parts arbitrary: files s)
  case (Cons part parts)
  let ?loc = "data_location se query stage task attempt"
  obtain p indexes where part: "part = (p, indexes)" by (cases part)
  let ?b = "table\<lparr>bt_rows := map ((!) (bt_rows table)) indexes\<rparr>"
  from Cons.prems(1) obtain t u payload where t: "check_token s = (Inr (), t)"
    and payload: "se_encode se ?b = Inr payload"
    and u: "u = t\<lparr>os_calls := Suc (os_calls t), os_objects := (os_objects t)(?loc p \<mapsto> payload)\<rparr>"
    and rest: "foldA (write_partition se query stage task attempt table)
        (files @ [stored_file se (?loc p) p ?b payload]) parts u = (Inr files', s')"
    by (auto simp: part bindA_Inr write_partition_Inr)
  have "inj_on ?loc (fst ` set parts)" using Cons.prems(3) by (auto simp: inj_on_def)
  note IH = Cons.IH [OF rest _ this]
  have new: "?loc p \<notin> ?loc ` fst ` set parts"
    using Cons.prems(2,3) by (auto simp: part inj_on_def image_iff)
  have "os_objects s' (?loc p) = Some payload"
    using IH Cons.prems(2) new by (simp add: u)
  then show ?case
    using IH Cons.prems(2) payload check_token_objects [OF t] by (auto simp: part u)
qed simp

lemma write_partitions_counted:
  "foldA (write_partition se query stage task attempt table) files parts s = (Inr files', s')
    \<Longrightarrow> \<forall>f \<in> set files. 0 \<le> fl_row_count f \<and> 0 \<le> fl_size_bytes f
    \<Longrightarrow> \<forall>f \<in> set files'. 0 \<le> fl_row_count f \<and> 0 \<le> fl_size_bytes f"
proof (induction parts arbitrary: files s)
  case (Cons part parts)
  obtain p ixs where part: "part = (p, ixs)" by (cases part)
  from Cons.prems(1) obtain f t where "foldA (write_partition se query stage task attempt table) (files @ [f]) parts t
      = (Inr files', s')" "0 \<le> fl_row_count f" "0 \<le> fl_size_bytes f"
    by (auto simp: part bindA_Inr write_partition_Inr stored_file_def)
  with Cons.IH [of "files @ [f]" t] Cons.prems(2) show ?case by auto
qed simp

lemma segment_not_manifest: "safe_segment se (''part-'' @ x) \<noteq> ''manifest.json''"
  by (auto simp: safe_segment_def)

lemma data_not_manifest:
  "data_location se query stage task attempt p \<noteq> manifest_location se query' stage' task' attempt'"
  using segment_not_manifest [of se "fmt05 p @ ''.parquet''"]
  by (simp add: data_location_def manifest_location_def shuffle_location_def safe_segment_def [of se "''manifest.json''"])

text \<open>A manifest whose files hold the rows assigned to their partitions.\<close>

definition intact ::
    "shuffle_env \<Rightarrow> string \<Rightarrow> string \<Rightarrow> nat \<Rightarrow> expr list \<Rightarrow> bool \<Rightarrow> (location \<rightharpoonup> string)
     \<Rightarrow> string \<times> string \<times> batch \<Rightarrow> shuffle_manifest \<Rightarrow> bool" where
  "intact se query stage n ks broadcast objects = (\<lambda>(task, attempt, table) m.
     \<exists>as. length as = n
       \<and> files_stored se (data_location se query stage task attempt) objects table (enumerate 0 as) (mf_files m)
       \<and> (\<forall>p < n. map ((!) (bt_rows table)) (as ! p)
            = filter (goes_to (env.truncate se) ks n broadcast p) (bt_rows table))
       \<and> (\<forall>r \<in> set (bt_rows table). is_ok (targets_of (env.truncate se) ks n broadcast r)))"

lemma intact_cong:
  assumes "intact se query stage n ks broadcast objects (task, attempt, table) m"
    and "\<And>p. p < n \<Longrightarrow> objects' (data_location se query stage task attempt p)
           = objects (data_location se query stage task attempt p)"
  shows "intact se query stage n ks broadcast objects' (task, attempt, table) m"
proof -
  obtain as where as: "length as = n"
    "files_stored se (data_location se query stage task attempt) objects table (enumerate 0 as) (mf_files m)"
    "\<forall>p < n. map ((!) (bt_rows table)) (as ! p)
            = filter (goes_to (env.truncate se) ks n broadcast p) (bt_rows table)"
    "\<forall>r \<in> set (bt_rows table). is_ok (targets_of (env.truncate se) ks n broadcast r)"
    using assms(1) unfolding intact_def by auto
  have "files_stored se (data_location se query stage task attempt) objects' table (enumerate 0 as) (mf_files m)"
    by (rule files_stored_cong [OF as(2)]) (use as(1) assms(2) in \<open>auto simp: in_set_enumerate_eq\<close>)
  with as show ?thesis unfolding intact_def by auto
qed

lemma shuffle_write_Inr:
  assumes "shuffle_write se query stage task attempt table k ks broadcast seconds s = (Inr m, s')"
    and "inj_on (data_location se query stage task attempt) {..<nat k}"
  shows "0 < nat k" and "intact se query stage (nat k) ks broadcast (os_objects s') (task, attempt, table) m"
    and "os_objects s' (manifest_location se query stage task attempt)
        = Some (json_dumps (py_runtime.truncate se) (manifest_json m))"
    and "\<And>loc. loc \<notin> data_location se query stage task attempt ` {..<nat k}
        \<Longrightarrow> loc \<noteq> manifest_location se query stage task attempt \<Longrightarrow> os_objects s' loc = os_objects s loc"
proof -
  let ?ev = "env.truncate se" and ?n = "nat k" and ?loc = "data_location se query stage task attempt"
  from assms(1) show n: "0 < ?n" by (auto simp: shuffle_write_def split: if_splits)
  from assms(1) obtain as t1 t2 where
    as: "foldA (assign_row ?ev ks ?n broadcast) (replicate ?n []) (enumerate 0 (bt_rows table)) s = (Inr as, t1)"
    and files: "foldA (write_partition se query stage task attempt table) [] (enumerate 0 as) t1 = (Inr (mf_files m), t2)"
    and pub: "os_objects s' = (os_objects t2)(manifest_location se query stage task attempt
        \<mapsto> json_dumps (py_runtime.truncate se) (manifest_json m))"
    by (auto simp: shuffle_write_def bindA_Inr liftA_Inr publish_bytes_Inr Let_def split: if_splits
        dest!: check_token_objects)
  note assigned = assign_fold [OF as n, simplified]
  have parts: "fst ` set (enumerate 0 as) = {..<?n}"
  proof -
    have "set (map fst (enumerate 0 as)) = {0..<0 + length as}"
      by (simp only: map_fst_enumerate set_upt)
    then have "fst ` set (enumerate 0 as) = {0..<0 + length as}" unfolding set_map .
    then show ?thesis using assigned by (simp only: add_0 atLeast0LessThan)
  qed
  have "distinct (map fst (enumerate 0 as))" by simp
  note written = write_partitions [OF files this, unfolded parts, OF assms(2)]
  have manifest: "manifest_location se query stage task attempt \<notin> ?loc ` {..<?n}"
    using data_not_manifest by (metis imageE)
  have objects: "os_objects s' loc = os_objects t2 loc" if "loc \<noteq> manifest_location se query stage task attempt" for loc
    using that pub by simp
  have same: "os_objects s' (?loc p) = os_objects t2 (?loc p)" for p
    by (rule objects) (rule data_not_manifest)
  have "files_stored se ?loc (os_objects s') table (enumerate 0 as) (mf_files m)"
    by (rule files_stored_cong [of _ _ "os_objects t2"]) (use written same in simp_all)
  moreover have "map ((!) (bt_rows table)) (as ! p) = filter (goes_to ?ev ks ?n broadcast p) (bt_rows table)"
    if "p < ?n" for p
    using assigned that enumerate_rows [of "bt_rows table"] by simp
  ultimately show "intact se query stage ?n ks broadcast (os_objects s') (task, attempt, table) m"
    unfolding intact_def using assigned by auto
  show "os_objects s' (manifest_location se query stage task attempt)
        = Some (json_dumps (py_runtime.truncate se) (manifest_json m))" using pub by simp
  fix loc assume "loc \<notin> ?loc ` {..<?n}" "loc \<noteq> manifest_location se query stage task attempt"
  then show "os_objects s' loc = os_objects s loc" using objects written assigned by simp
qed

section \<open>Writing a whole exchange\<close>

text \<open>The writes of the tasks of a stage, one after the other.\<close>

definition write_job ::
    "shuffle_env \<Rightarrow> string \<Rightarrow> string \<Rightarrow> int \<Rightarrow> expr list \<Rightarrow> bool \<Rightarrow> pyfloat \<Rightarrow> shuffle_manifest list
     \<Rightarrow> string \<times> string \<times> batch \<Rightarrow> (object_store, shuffle_manifest list) action" where
  "write_job se query stage k ks broadcast seconds ms = (\<lambda>(task, attempt, table).
     bindA (shuffle_write se query stage task attempt table k ks broadcast seconds) (\<lambda>m. retA (ms @ [m])))"

lemma write_job_Inr:
  "write_job se query stage k ks broadcast seconds ms (task, attempt, table) s = (Inr ms', s') \<longleftrightarrow>
     (\<exists>m. shuffle_write se query stage task attempt table k ks broadcast seconds s = (Inr m, s')
        \<and> ms' = ms @ [m])"
  by (auto simp: write_job_def bindA_Inr)

definition write_all ::
    "shuffle_env \<Rightarrow> string \<Rightarrow> string \<Rightarrow> int \<Rightarrow> expr list \<Rightarrow> bool \<Rightarrow> pyfloat \<Rightarrow> (string \<times> string \<times> batch) list
     \<Rightarrow> (object_store, shuffle_manifest list) action" where
  "write_all se query stage k ks broadcast seconds jobs =
     foldA (write_job se query stage k ks broadcast seconds) [] jobs"

text \<open>No two files of the writes share a location.\<close>

definition job_files :: "shuffle_env \<Rightarrow> string \<Rightarrow> string \<Rightarrow> int \<Rightarrow> string \<times> string \<times> batch \<Rightarrow> location list" where
  "job_files se query stage k = (\<lambda>(task, attempt, _).
     map (data_location se query stage task attempt) [0..<nat k])"

definition separate :: "shuffle_env \<Rightarrow> string \<Rightarrow> string \<Rightarrow> int \<Rightarrow> (string \<times> string \<times> batch) list \<Rightarrow> bool" where
  "separate se query stage k jobs \<longleftrightarrow>
     distinct (concat (map (job_files se query stage k) jobs))"

lemma write_all_intact:
  assumes "foldA (write_job se query stage k ks broadcast seconds) ms jobs s = (Inr ms', s')"
    and "separate se query stage k jobs"
  shows "(\<exists>new. ms' = ms @ new
      \<and> list_all2 (intact se query stage (nat k) ks broadcast (os_objects s')) jobs new)
    \<and> (\<forall>loc. loc \<notin> set (concat (map (job_files se query stage k) jobs))
         \<longrightarrow> (\<forall>task attempt. loc \<noteq> manifest_location se query stage task attempt)
         \<longrightarrow> os_objects s' loc = os_objects s loc)"
  using assms
proof (induction jobs arbitrary: ms s)
  case (Cons job jobs)
  obtain task attempt table where job: "job = (task, attempt, table)" by (cases job)
  let ?loc = "data_location se query stage task attempt"
  from Cons.prems(1) obtain m t where
    m: "shuffle_write se query stage task attempt table k ks broadcast seconds s = (Inr m, t)"
    and rest: "foldA (write_job se query stage k ks broadcast seconds) (ms @ [m]) jobs t = (Inr ms', s')"
    by (auto simp: job bindA_Inr write_job_Inr)
  have files: "job_files se query stage k job = map ?loc [0..<nat k]" by (simp add: job_files_def job)
  have sep: "separate se query stage k jobs" "inj_on ?loc {..<nat k}"
    and new: "?loc ` {..<nat k} \<inter> set (concat (map (job_files se query stage k) jobs)) = {}"
    using Cons.prems(2) by (auto simp: separate_def files distinct_map atLeast0LessThan)
  note w = shuffle_write_Inr [OF m sep(2)]
  note IH = Cons.IH [OF rest sep(1)]
  have "os_objects s' (?loc p) = os_objects t (?loc p)" if "p < nat k" for p
  proof -
    have "?loc p \<notin> set (concat (map (job_files se query stage k) jobs))" using new that by blast
    then show ?thesis using IH data_not_manifest by blast
  qed
  then have "intact se query stage (nat k) ks broadcast (os_objects s') job m"
    using intact_cong [OF w(2)] job by simp
  moreover have "os_objects s' loc = os_objects s loc"
    if "loc \<notin> set (concat (map (job_files se query stage k) (job # jobs)))"
      and "\<forall>task attempt. loc \<noteq> manifest_location se query stage task attempt" for loc
    using IH w(4) [of loc] that by (auto simp: files atLeast0LessThan)
  ultimately show ?case using IH by auto
qed simp

section \<open>Reading a partition back\<close>

definition quiet_store :: "object_store \<Rightarrow> bool" where
  "quiet_store s \<longleftrightarrow> (\<forall>n. os_faults s n = None) \<and> (\<forall>n. \<not> os_cancelled s n)"

lemma quiet_store_counters [simp]:
  "quiet_store (s\<lparr>os_calls := a\<rparr>) = quiet_store s" "quiet_store (s\<lparr>os_checks := a\<rparr>) = quiet_store s"
  by (simp_all add: quiet_store_def)

lemma unlisted_file:
  "files_stored se loc objects table parts fs \<Longrightarrow> p \<notin> fst ` set parts
    \<Longrightarrow> filter (\<lambda>f. fl_partition f = int p) fs = []"
  by (induction se loc objects table parts fs rule: files_stored.induct) (auto simp: stored_file_def)

lemma listed_file:
  assumes "files_stored se loc objects table parts fs" and "distinct (map fst parts)" and "(p, ixs) \<in> set parts"
  shows "\<exists>payload. se_encode se (table\<lparr>bt_rows := map ((!) (bt_rows table)) ixs\<rparr>) = Inr payload
    \<and> objects (loc p) = Some payload
    \<and> filter (\<lambda>f. fl_partition f = int p) fs
        = [stored_file se (loc p) p (table\<lparr>bt_rows := map ((!) (bt_rows table)) ixs\<rparr>) payload]"
  using assms
proof (induction se loc objects table parts fs rule: files_stored.induct)
    case (2 se loc objects table q ixs' parts fs)
    then obtain payload fs' where f: "se_encode se (table\<lparr>bt_rows := map ((!) (bt_rows table)) ixs'\<rparr>) = Inr payload"
      "objects (loc q) = Some payload"
      "fs = stored_file se (loc q) q (table\<lparr>bt_rows := map ((!) (bt_rows table)) ixs'\<rparr>) payload # fs'"
      "files_stored se loc objects table parts fs'" by auto
    show ?case
    proof (cases "q = p")
      case True
      then have "p \<notin> fst ` set parts" and "ixs' = ixs" using 2(3,4) by force+
      then show ?thesis using f True unlisted_file [OF f(4)] by (simp add: stored_file_def)
    next
      case False
      then show ?thesis using 2 f by (auto simp: stored_file_def)
    qed
qed simp

text \<open>The rows of a table for one partition.\<close>

definition table_part :: "shuffle_env \<Rightarrow> expr list \<Rightarrow> nat \<Rightarrow> bool \<Rightarrow> nat \<Rightarrow> batch \<Rightarrow> batch" where
  "table_part se ks n broadcast p table =
     table\<lparr>bt_rows := filter (goes_to (env.truncate se) ks n broadcast p) (bt_rows table)\<rparr>"

lemma read_manifest_intact:
  assumes ok: "intact se query stage n ks broadcast (os_objects s) (task, attempt, table) m" and "p < n"
    and quiet: "quiet_store s"
    and decode: "\<forall>payload. se_encode se (table_part se ks n broadcast p table) = Inr payload
        \<longrightarrow> se_decode se payload = Inr (table_part se ks n broadcast p table)"
  shows "\<exists>bytes s'. read_manifest se p (tables, rows, size0) m s
      = (Inr (tables @ [table_part se ks n broadcast p table],
              rows + length (bt_rows (table_part se ks n broadcast p table)), size0 + bytes), s')
    \<and> os_objects s' = os_objects s \<and> quiet_store s'"
proof -
  obtain as where as: "length as = n"
    "files_stored se (data_location se query stage task attempt) (os_objects s) table (enumerate 0 as) (mf_files m)"
    "\<forall>p < n. map ((!) (bt_rows table)) (as ! p) = filter (goes_to (env.truncate se) ks n broadcast p) (bt_rows table)"
    using ok unfolding intact_def by auto
  have "(p, as ! p) \<in> set (enumerate 0 as)" using as(1) assms(2) by (simp add: in_set_enumerate_eq)
  from listed_file [OF as(2) _ this] as(3) assms(2)
  obtain payload where f: "se_encode se (table_part se ks n broadcast p table) = Inr payload"
    "os_objects s (data_location se query stage task attempt p) = Some payload"
    "filter (\<lambda>f. fl_partition f = int p) (mf_files m) = [stored_file se (data_location se query stage task attempt p) p
        (table_part se ks n broadcast p table) payload]"
    by (auto simp: table_part_def)
  show ?thesis
    using f decode [rule_format, OF f(1)] quiet
    by (auto simp: table_part_def read_manifest_def bindA_def check_token_def read_file_def read_bytes_def stored_file_def
        quiet_store_def)
qed

lemma read_manifests_intact:
  assumes "list_all2 (intact se query stage n ks broadcast objects) jobs ms" and "p < n"
    and "quiet_store s" and "os_objects s = objects"
    and decode: "\<forall>job \<in> set jobs. \<forall>payload. se_encode se (table_part se ks n broadcast p (snd (snd job))) = Inr payload
        \<longrightarrow> se_decode se payload = Inr (table_part se ks n broadcast p (snd (snd job)))"
  shows "\<exists>bytes s'. foldA (read_manifest se p) (tables, rows, size0) ms s
      = (Inr (tables @ map (\<lambda>job. table_part se ks n broadcast p (snd (snd job))) jobs,
              rows + length (concat (map (\<lambda>job. bt_rows (table_part se ks n broadcast p (snd (snd job)))) jobs)),
              size0 + bytes), s')"
  using assms(1,3,4,5)
proof (induction jobs ms arbitrary: s tables rows size0 rule: list_all2_induct)
  case (Cons job jobs m ms)
  obtain task attempt table where job: "job = (task, attempt, table)" by (cases job)
  obtain b t where r: "read_manifest se p (tables, rows, size0) m s
      = (Inr (tables @ [table_part se ks n broadcast p table],
              rows + length (bt_rows (table_part se ks n broadcast p table)), size0 + b), t)"
    and t: "os_objects t = os_objects s" "quiet_store t"
  proof -
    have "intact se query stage n ks broadcast (os_objects s) (task, attempt, table) m"
      using Cons.hyps(1) Cons.prems(2) job by simp
    moreover have "\<forall>payload. se_encode se (table_part se ks n broadcast p table) = Inr payload
        \<longrightarrow> se_decode se payload = Inr (table_part se ks n broadcast p table)"
      using Cons.prems(3) job by simp
    ultimately show thesis
      using read_manifest_intact [OF _ assms(2) Cons.prems(1)] that by blast
  qed
  obtain bytes s' where rest: "foldA (read_manifest se p)
       (tables @ [table_part se ks n broadcast p table],
        rows + length (bt_rows (table_part se ks n broadcast p table)), size0 + b) ms t
     = (Inr ((tables @ [table_part se ks n broadcast p table]) @ map (\<lambda>job. table_part se ks n broadcast p (snd (snd job))) jobs,
        rows + length (bt_rows (table_part se ks n broadcast p table))
          + length (concat (map (\<lambda>job. bt_rows (table_part se ks n broadcast p (snd (snd job)))) jobs)),
        size0 + b + bytes), s')"
    using Cons.IH [of t "tables @ [table_part se ks n broadcast p table]"
        "rows + length (bt_rows (table_part se ks n broadcast p table))" "size0 + b"] t Cons.prems(2,3) by auto
  show ?case
    by (intro exI [of _ "b + bytes"] exI [of _ s']) (simp add: bindA_def r rest job add.assoc)
qed auto

section \<open>Writes succeed\<close>

lemma check_token_quiet:
  "quiet_store s \<Longrightarrow> \<exists>s'. check_token s = (Inr (), s') \<and> quiet_store s'"
  by (simp add: check_token_def quiet_store_def)

lemma foldA_total:
  assumes "P s" and "\<And>v x s. x \<in> set xs \<Longrightarrow> P s \<Longrightarrow> \<exists>w t. f v x s = (Inr w, t) \<and> P t"
  shows "\<exists>w t. foldA f v xs s = (Inr w, t) \<and> P t"
  using assms
proof (induction xs arbitrary: v s)
  case (Cons x xs)
  then obtain w t where "f v x s = (Inr w, t)" "P t" by (meson list.set_intros(1))
  with Cons.IH [of t w] Cons.prems(2) show ?case by (simp add: bindA_def)
qed simp

lemma write_partition_total:
  assumes "quiet_store s" and "\<And>b. is_ok (se_encode se b)"
  shows "\<exists>w t. write_partition se query stage task attempt table files (p, ixs) s = (Inr w, t) \<and> quiet_store t"
proof -
  obtain u where u: "check_token s = (Inr (), u)" "quiet_store u" using check_token_quiet [OF assms(1)] by blast
  obtain payload where "se_encode se (table\<lparr>bt_rows := map ((!) (bt_rows table)) ixs\<rparr>) = Inr payload"
    using assms(2) is_ok_iff by metis
  with u show ?thesis unfolding write_partition_Inr by (simp add: quiet_store_def)
qed

lemma shuffle_write_total:
  assumes "quiet_store s" and "\<And>b. is_ok (se_encode se b)" and "1 \<le> k" and "broadcast \<or> k = 1 \<or> ks \<noteq> []"
    and "\<forall>r \<in> set (bt_rows table). is_ok (targets_of (env.truncate se) ks (nat k) broadcast r)"
    and "fle (Fin 0) seconds"
  shows "\<exists>m t. shuffle_write se query stage task attempt table k ks broadcast seconds s = (Inr m, t) \<and> quiet_store t"
proof -
  have assign: "\<exists>w t. assign_row (env.truncate se) ks (nat k) broadcast v x s = (Inr w, t) \<and> quiet_store t"
    if mem: "x \<in> set (enumerate 0 (bt_rows table))" and quiet: "quiet_store s" for v x s
  proof -
    obtain i r where x: "x = (i, r)" by (cases x)
    have "r \<in> set (bt_rows table)" using mem unfolding x enumerate_eq_zip by (rule set_zip_rightD)
    then obtain ts where "targets_of (env.truncate se) ks (nat k) broadcast r = Inr ts"
      using assms(5) is_ok_iff by metis
    then show ?thesis using check_token_quiet [OF quiet] unfolding x assign_row_Inr by blast
  qed
  have "\<exists>asg s1. foldA (assign_row (env.truncate se) ks (nat k) broadcast) (replicate (nat k) [])
      (enumerate 0 (bt_rows table)) s = (Inr asg, s1) \<and> quiet_store s1"
    by (rule foldA_total [where P = quiet_store, OF assms(1)]) (rule assign)
  then obtain asg s1 where asg: "foldA (assign_row (env.truncate se) ks (nat k) broadcast) (replicate (nat k) [])
      (enumerate 0 (bt_rows table)) s = (Inr asg, s1)" "quiet_store s1"
    by (elim exE conjE)
  have wrote: "\<exists>w t. write_partition se query stage task attempt table v x s = (Inr w, t) \<and> quiet_store t"
    if "quiet_store s" for v x s
    using write_partition_total [OF that assms(2)] by (cases x) simp
  have "\<exists>files s2. foldA (write_partition se query stage task attempt table) [] (enumerate 0 asg) s1
      = (Inr files, s2) \<and> quiet_store s2"
    by (rule foldA_total [where P = quiet_store, OF asg(2)]) (rule wrote)
  then obtain files s2 where files: "foldA (write_partition se query stage task attempt table) [] (enumerate 0 asg) s1
      = (Inr files, s2)" "quiet_store s2"
    by (elim exE conjE)
  have "\<forall>f \<in> set files. 0 \<le> fl_row_count f \<and> 0 \<le> fl_size_bytes f"
    using write_partitions_counted [OF files(1)] by simp
  then have "0 \<le> sum_list (map fl_row_count files)" "0 \<le> sum_list (map fl_size_bytes files)"
    by (auto intro!: sum_list_nonneg)
  then have m: "\<exists>m. make_shuffle_metrics (no_shuffle_metrics
                 \<lparr>sm_records_written := sum_list (map fl_row_count files),
                  sm_bytes_written := sum_list (map fl_size_bytes files),
                  sm_partition_count := k, sm_write_seconds := seconds\<rparr>) = Inr m"
    using assms(3,6) by (simp add: make_shuffle_metrics_def no_shuffle_metrics_def fle_def feq_def fnum_def)
  obtain s3 where s3: "check_token s2 = (Inr (), s3)" "quiet_store s3" using check_token_quiet [OF files(2)] by blast
  have publish: "\<exists>t. publish_bytes loc data s3 = (Inr (), t) \<and> quiet_store t" for loc data
    using s3(2) by (simp add: publish_bytes_Inr quiet_store_def)
  from m obtain metrics where m: "make_shuffle_metrics (no_shuffle_metrics
                 \<lparr>sm_records_written := sum_list (map fl_row_count files),
                  sm_bytes_written := sum_list (map fl_size_bytes files),
                  sm_partition_count := k, sm_write_seconds := seconds\<rparr>) = Inr metrics" by blast
  let ?m = "\<lparr>mf_query_id = query, mf_stage_id = stage, mf_task_id = task, mf_attempt_id = attempt,
    mf_files = files, mf_metrics = metrics\<rparr>"
  obtain s4 where s4: "publish_bytes (manifest_location se query stage task attempt)
      (json_dumps (py_runtime.truncate se) (manifest_json ?m)) s3 = (Inr (), s4)" "quiet_store s4"
    using publish by blast
  obtain s5 where s5: "check_token s4 = (Inr (), s5)" "quiet_store s5" using check_token_quiet [OF s4(2)] by blast
  have guards: "(k < 1) = False" "(\<not> broadcast \<and> 1 < k \<and> ks = []) = False" using assms(3,4) by auto
  have "shuffle_write se query stage task attempt table k ks broadcast seconds s = (Inr ?m, s5)"
    unfolding shuffle_write_def Let_def
    by (simp only: guards if_False bindA_def action_simps asg(1) files(1) m s3(1) s4(1) s5(1) prod.case sum.case)
  then show ?thesis using s5(2) by blast
qed

section \<open>Properties\<close>

lemma intact_conserves:
  assumes "intact se query stage n ks broadcast objects job m" and "0 < n"
  shows "if broadcast then \<forall>p < n. bt_rows (table_part se ks n broadcast p (snd (snd job))) = bt_rows (snd (snd job))
     else mset (concat (map (\<lambda>p. bt_rows (table_part se ks n broadcast p (snd (snd job)))) [0..<n]))
        = mset (bt_rows (snd (snd job)))"
proof (cases broadcast)
  case True
  then show ?thesis by (simp add: table_part_def goes_to_def targets_of_def)
next
  case False
  have "\<forall>r \<in> set (bt_rows (snd (snd job))). is_ok (targets_of (env.truncate se) ks n broadcast r)"
    using assms(1) by (cases job) (auto simp: intact_def)
  then show ?thesis
    using partitions_conserve [OF assms(2)] False by (simp add: table_part_def)
qed

lemma concat_table_parts:
  assumes "\<forall>job \<in> set jobs. bt_schema (snd (snd job)) = schema0" and "jobs \<noteq> []"
  shows "concat_tables (map (\<lambda>job. table_part se ks n broadcast p (snd (snd job))) jobs)
      = Inr \<lparr>bt_schema = schema0, bt_rows = concat (map (\<lambda>job. bt_rows (table_part se ks n broadcast p (snd (snd job)))) jobs)\<rparr>"
  using assms by (cases jobs) (simp_all add: concat_tables_def list_all_iff comp_def table_part_def)

text \<open>
  C10.  What a stage writes, its readers get.  After the tasks of a stage have written their tables,
  reading partition \<open>p\<close> from their manifests delivers exactly the rows of every table that are
  assigned to \<open>p\<close>, in the order of the tasks, and counts them.  Without broadcast the partitions
  together hold every row exactly once, with broadcast each holds all rows.  The Parquet coder
  must decode what it encoded, the files must not share a location, and the store must answer.
\<close>

theorem shuffle_roundtrip:
  assumes written: "write_all se query stage k ks broadcast seconds jobs s = (Inr ms, s')"
    and "separate se query stage k jobs"
    and same: "\<forall>job \<in> set jobs. bt_schema (snd (snd job)) = schema0" and "jobs \<noteq> []"
    and decode: "\<forall>job \<in> set jobs. \<forall>payload. se_encode se (table_part se ks (nat k) broadcast p (snd (snd job))) = Inr payload
        \<longrightarrow> se_decode se payload = Inr (table_part se ks (nat k) broadcast p (snd (snd job)))"
    and reader: "os_objects t = os_objects s'" "quiet_store t" "p < nat k" "fle (Fin 0) seconds'"
  shows "(\<exists>metrics t'. read_partition se ms p seconds' t
        = (Inr (\<lparr>bt_schema = schema0,
                bt_rows = concat (map (\<lambda>job. bt_rows (table_part se ks (nat k) broadcast p (snd (snd job)))) jobs)\<rparr>, metrics), t')
        \<and> sm_records_read metrics
          = int (length (concat (map (\<lambda>job. bt_rows (table_part se ks (nat k) broadcast p (snd (snd job)))) jobs))))
    \<and> (\<forall>job \<in> set jobs.
         if broadcast then \<forall>p < nat k. bt_rows (table_part se ks (nat k) broadcast p (snd (snd job))) = bt_rows (snd (snd job))
         else mset (concat (map (\<lambda>p. bt_rows (table_part se ks (nat k) broadcast p (snd (snd job)))) [0..<nat k]))
            = mset (bt_rows (snd (snd job))))"
proof
  have intact: "list_all2 (intact se query stage (nat k) ks broadcast (os_objects s')) jobs ms"
    using write_all_intact [OF written [unfolded write_all_def] assms(2)] by auto
  obtain bytes t' where read: "foldA (read_manifest se p) ([], 0, 0) ms t
      = (Inr ([] @ map (\<lambda>job. table_part se ks (nat k) broadcast p (snd (snd job))) jobs,
              0 + length (concat (map (\<lambda>job. bt_rows (table_part se ks (nat k) broadcast p (snd (snd job)))) jobs)), 0 + bytes), t')"
    using read_manifests_intact [OF intact reader(3) reader(2) reader(1) decode] by blast
  define rows where "rows = concat (map (\<lambda>job. bt_rows (table_part se ks (nat k) broadcast p (snd (snd job)))) jobs)"
  have "read_partition se ms p seconds' t = (Inr (\<lparr>bt_schema = schema0, bt_rows = rows\<rparr>, no_shuffle_metrics
          \<lparr>sm_records_read := int (length rows), sm_bytes_read := int bytes, sm_partition_count := 1,
           sm_read_seconds := seconds'\<rparr>), t')"
    using reader(4) concat_table_parts [OF same assms(4), of se ks "nat k" broadcast p] read
    by (simp add: read_partition_def bindA_def rows_def make_shuffle_metrics_def no_shuffle_metrics_def
        fle_def feq_def fnum_def)
  then show "\<exists>metrics t'. read_partition se ms p seconds' t
        = (Inr (\<lparr>bt_schema = schema0,
                bt_rows = concat (map (\<lambda>job. bt_rows (table_part se ks (nat k) broadcast p (snd (snd job)))) jobs)\<rparr>, metrics), t')
        \<and> sm_records_read metrics
          = int (length (concat (map (\<lambda>job. bt_rows (table_part se ks (nat k) broadcast p (snd (snd job)))) jobs)))"
    unfolding rows_def [symmetric] by (intro exI conjI) (assumption, simp)
  show "\<forall>job \<in> set jobs.
         if broadcast then \<forall>p < nat k. bt_rows (table_part se ks (nat k) broadcast p (snd (snd job))) = bt_rows (snd (snd job))
         else mset (concat (map (\<lambda>p. bt_rows (table_part se ks (nat k) broadcast p (snd (snd job)))) [0..<nat k]))
            = mset (bt_rows (snd (snd job)))"
  proof
    fix job assume "job \<in> set jobs"
    then obtain m where "intact se query stage (nat k) ks broadcast (os_objects s') job m"
      using intact by (metis in_set_conv_nth list_all2_conv_all_nth)
    moreover have "0 < nat k" using reader(3) by simp
    ultimately show "if broadcast then \<forall>p < nat k. bt_rows (table_part se ks (nat k) broadcast p (snd (snd job))) = bt_rows (snd (snd job))
         else mset (concat (map (\<lambda>p. bt_rows (table_part se ks (nat k) broadcast p (snd (snd job)))) [0..<nat k]))
            = mset (bt_rows (snd (snd job)))" by (rule intact_conserves)
  qed
qed

text \<open>A read that returns has found every file undamaged.\<close>

definition undamaged :: "shuffle_env \<Rightarrow> (location \<rightharpoonup> string) \<Rightarrow> shuffle_file \<Rightarrow> bool" where
  "undamaged se objects f \<longleftrightarrow>
     (\<exists>payload table. objects (fl_location f) = Some payload
        \<and> int (length payload) = fl_size_bytes f \<and> hexdigest se payload = fl_checksum f
        \<and> se_decode se payload = Inr table \<and> int (length (bt_rows table)) = fl_row_count f)"

lemma read_file_undamaged:
  "read_file se f s = (Inr r, s') \<Longrightarrow> undamaged se (os_objects s) f \<and> os_objects s' = os_objects s"
  by (auto simp: read_file_def bindA_Inr read_bytes_def undamaged_def liftA_Inr
      split: option.splits if_splits)

lemma read_manifest_undamaged:
  assumes "read_manifest se p v m s = (Inr v', s')"
  shows "\<exists>f. filter (\<lambda>f. fl_partition f = int p) (mf_files m) = [f] \<and> undamaged se (os_objects s) f"
    and "os_objects s' = os_objects s"
proof -
  obtain tables rows size0 where v: "v = (tables, rows, size0)" by (cases v)
  have "(\<exists>f. filter (\<lambda>f. fl_partition f = int p) (mf_files m) = [f] \<and> undamaged se (os_objects s) f)
      \<and> os_objects s' = os_objects s"
    using assms read_file_undamaged
    by (auto simp: read_manifest_def v bindA_Inr raiseA_def dest!: check_token_objects split: list.splits) fastforce+
  then show "\<exists>f. filter (\<lambda>f. fl_partition f = int p) (mf_files m) = [f] \<and> undamaged se (os_objects s) f"
    and "os_objects s' = os_objects s" by auto
qed

text \<open>
  C11.  Damage is detected.  If one of the manifests does not list exactly one file of the partition,
  or the file it lists is missing, or differs in size, digest or number of rows from what the
  manifest recorded, or does not decode, then reading the partition raises; it never returns a
  table.
\<close>

theorem damaged_partition_rejected:
  assumes "m \<in> set ms"
    and "\<nexists>f. filter (\<lambda>f. fl_partition f = int p) (mf_files m) = [f] \<and> undamaged se (os_objects s) f"
  shows "\<exists>e s'. read_partition se ms p seconds s = (Inl e, s')"
proof -
  have "\<forall>m \<in> set ms. \<exists>f. filter (\<lambda>f. fl_partition f = int p) (mf_files m) = [f] \<and> undamaged se (os_objects s) f"
    if "foldA (read_manifest se p) v ms s = (Inr v', s')" for v v' s'
    using that
  proof (induction ms arbitrary: v s)
    case (Cons m ms)
    then obtain w t where "read_manifest se p v m s = (Inr w, t)" "foldA (read_manifest se p) w ms t = (Inr v', s')"
      by (auto simp: bindA_Inr)
    with read_manifest_undamaged [OF this(1)] Cons.IH [OF this(2)] show ?case by simp
  qed simp
  moreover obtain r s' where r: "read_partition se ms p seconds s = (r, s')" by fastforce
  ultimately have "r \<noteq> Inr x" for x
    using assms unfolding read_partition_def by (auto simp: bindA_Inr) blast+
  then show ?thesis using r by (cases r) auto
qed

section \<open>A small exchange\<close>

definition sample_store :: object_store where
  "sample_store = \<lparr>os_objects = Map.empty, os_calls = 0, os_faults = (\<lambda>_. None), os_checks = 0,
     os_cancelled = (\<lambda>_. False)\<rparr>"

definition int_table :: "int list \<Rightarrow> batch" where
  "int_table is = \<lparr>bt_schema = cost_schema ''a'', bt_rows = map (\<lambda>i. [''a'' \<mapsto> VInt i]) is\<rparr>"

text \<open>A digest that tells texts with a \<open>1\<close> apart, and a coder of small integer tables.\<close>

definition int_cell :: "row \<Rightarrow> char" where
  "int_cell r = (case r ''a'' of Some (VInt i) \<Rightarrow> char_of (nat i) | _ \<Rightarrow> CHR ''x'')"

definition sample_shuffle :: shuffle_env where
  "sample_shuffle = py_runtime.extend plain_rt
     \<lparr>fr_sha256 = (\<lambda>s. if CHR ''1'' \<in> set s then 2 ^ 208 + 2 ^ 192 else 0), fr_float_hex = (\<lambda>_. []),
      fr_date_iso = (\<lambda>_. []), fr_ts_iso = (\<lambda>_. []), fr_base64 = id, fr_bloom_bits = id, fr_bloom_hashes = (\<lambda>a b. a),
      ev_repr_bytes = (\<lambda>_. 1), ev_hash = (\<lambda>_. 0), ev_conform = (\<lambda>_. Inr),
      se_encode = (\<lambda>b. Inr (map int_cell (bt_rows b))),
      se_decode = (\<lambda>s. Inr (int_table (map (\<lambda>c. int (of_char c)) s))),
      se_validate = (\<lambda>_. Inl PyValueError)\<rparr>"

definition sample_jobs :: "(string \<times> string \<times> batch) list" where
  "sample_jobs = [(''t0'', ''a0'', int_table [0, 1]), (''t1'', ''a1'', int_table [1, 1, 0])]"

definition sample_key :: "expr list" where
  "sample_key = [Column ''a'' [] (TypeInfo T_INT64 True)]"

lemma sample_runtime:
  "rt_of (env.truncate sample_shuffle) = plain_rt"
  "fr_sha256 (env.truncate sample_shuffle) s = (if CHR ''1'' \<in> set s then 2 ^ 208 + 2 ^ 192 else 0)"
  "fr_sha256 sample_shuffle s = (if CHR ''1'' \<in> set s then 2 ^ 208 + 2 ^ 192 else 0)"
  by (simp_all add: sample_shuffle_def plain_rt_def py_runtime.defs env.defs)

lemma sample_key_text:
  "key_text plain_rt [VInt 0] = ''[0]''" "key_text plain_rt [VInt 1] = ''[1]''"
  by code_simp+

lemma sample_targets:
  "targets_of (env.truncate sample_shuffle) sample_key 2 False [''a'' \<mapsto> VInt 0] = Inr [0]"
  "targets_of (env.truncate sample_shuffle) sample_key 2 False [''a'' \<mapsto> VInt 1] = Inr [1]"
  by (simp_all add: targets_of_def partition_of_def partition_of_key_def sample_key_def sample_runtime
      sample_key_text row_or_def qualified_name_def)

lemma nth_hexdigest: "i < 64 \<Longrightarrow> hexdigest ev s ! i = hex_digit (fr_sha256 ev s div 16 ^ (63 - i) mod 16)"
  by (simp add: hexdigest_def hex_text_def)

lemma length_hexdigest [simp]: "length (hexdigest ev s) = 64"
  by (simp add: hexdigest_def hex_text_def)

lemma sample_parts:
  "safe_segment sample_shuffle (''part-'' @ fmt05 0 @ ''.parquet'')
     \<noteq> safe_segment sample_shuffle (''part-'' @ fmt05 1 @ ''.parquet'')"
proof -
  have f: "fmt05 0 = ''00000''" "fmt05 1 = ''00001''" by code_simp+
  have "hexdigest sample_shuffle ''part-00000.parquet'' ! 11 \<noteq> hexdigest sample_shuffle ''part-00001.parquet'' ! 11"
    by (simp add: nth_hexdigest sample_runtime hex_digit_def)
  then have "take 12 (hexdigest sample_shuffle ''part-00000.parquet'') ! 11
     \<noteq> take 12 (hexdigest sample_shuffle ''part-00001.parquet'') ! 11" by simp
  then have "take 12 (hexdigest sample_shuffle ''part-00000.parquet'')
     \<noteq> take 12 (hexdigest sample_shuffle ''part-00001.parquet'')"
    by metis
  then show ?thesis unfolding safe_segment_def f by auto
qed

lemma sample_jobs_separate: "separate sample_shuffle ''q'' ''s'' 2 sample_jobs"
proof -
  have two: "[0..<nat 2] = [0, 1]" by (simp add: numeral_2_eq_2)
  have "safe_segment sample_shuffle ''t0'' \<noteq> safe_segment sample_shuffle ''t1''" by (simp add: safe_segment_def)
  then show ?thesis using sample_parts
    unfolding separate_def sample_jobs_def job_files_def data_location_def shuffle_location_def two by auto
qed

lemma sample_store_quiet: "quiet_store sample_store" by (simp add: quiet_store_def sample_store_def)

lemma sample_write:
  assumes "quiet_store s" and "set is \<subseteq> {0, 1}"
  shows "\<exists>m t. shuffle_write sample_shuffle ''q'' ''s'' task attempt (int_table is) 2 sample_key False (Fin 1) s
     = (Inr m, t) \<and> quiet_store t"
proof (rule shuffle_write_total [OF assms(1)])
  show "\<forall>r \<in> set (bt_rows (int_table is)).
      is_ok (targets_of (env.truncate sample_shuffle) sample_key (nat 2) False r)"
    using assms(2) by (auto simp: int_table_def sample_targets)
qed (simp_all add: sample_shuffle_def sample_key_def py_runtime.defs fle_def flt_def fnum_def)

lemma sample_written:
  "\<exists>ms t. write_all sample_shuffle ''q'' ''s'' 2 sample_key False (Fin 1) sample_jobs sample_store
     = (Inr ms, t) \<and> quiet_store t"
proof -
  obtain m t where 1: "shuffle_write sample_shuffle ''q'' ''s'' ''t0'' ''a0'' (int_table [0, 1]) 2 sample_key False
      (Fin 1) sample_store = (Inr m, t)" "quiet_store t" using sample_write [OF sample_store_quiet, of "[0, 1]" "''t0''" "''a0''"] by auto
  obtain m' t' where 2: "shuffle_write sample_shuffle ''q'' ''s'' ''t1'' ''a1'' (int_table [1, 1, 0]) 2 sample_key False
      (Fin 1) t = (Inr m', t')" "quiet_store t'" using sample_write [OF 1(2), of "[1, 1, 0]" "''t1''" "''a1''"] by auto
  show ?thesis
    using 1 2 by (auto simp: write_all_def sample_jobs_def bindA_def write_job_def)
qed

lemma sample_encode: "se_encode sample_shuffle b = Inr (map int_cell (bt_rows b))"
  by (simp add: sample_shuffle_def py_runtime.defs)

lemma sample_read_back:
  "se_decode sample_shuffle (map int_cell (bt_rows (table_part sample_shuffle ks n b p (int_table is))))
   = Inr (table_part sample_shuffle ks n b p (int_table is))" if "set is \<subseteq> {0, 1}"
proof -
  have "map (\<lambda>r. [''a'' \<mapsto> VInt (int (of_char (int_cell r)))]) (filter P (map (\<lambda>i. [''a'' \<mapsto> VInt i]) is))
     = filter P (map (\<lambda>i. [''a'' \<mapsto> VInt i]) is)" for P
    using that by (induction "is") (auto simp: int_cell_def)
  then show ?thesis
    by (simp add: sample_shuffle_def py_runtime.defs table_part_def int_table_def comp_def)
qed

lemma shuffle_roundtrip_witness:
  "\<exists>ms s metrics t. write_all sample_shuffle ''q'' ''s'' 2 sample_key False (Fin 1) sample_jobs sample_store = (Inr ms, s)
    \<and> read_partition sample_shuffle ms 1 (Fin 1) s = (Inr (int_table [1, 1, 1], metrics), t)
    \<and> sm_records_read metrics = 3"
proof -
  obtain ms s where w: "write_all sample_shuffle ''q'' ''s'' 2 sample_key False (Fin 1) sample_jobs sample_store = (Inr ms, s)"
    and q: "quiet_store s" using sample_written by blast
  have rows: "bt_rows (table_part sample_shuffle sample_key (nat 2) False 1 (int_table is))
      = map (\<lambda>i. [''a'' \<mapsto> VInt i]) (filter (\<lambda>i. i = 1) is)" if "set is \<subseteq> {0, 1}" for "is"
    using that by (induction "is") (auto simp: table_part_def int_table_def goes_to_def sample_targets)
  have "\<exists>metrics t'. read_partition sample_shuffle ms 1 (Fin 1) s
        = (Inr (\<lparr>bt_schema = cost_schema ''a'', bt_rows = concat (map (\<lambda>job.
             bt_rows (table_part sample_shuffle sample_key (nat 2) False 1 (snd (snd job)))) sample_jobs)\<rparr>, metrics), t')
        \<and> sm_records_read metrics = int (length (concat (map (\<lambda>job.
             bt_rows (table_part sample_shuffle sample_key (nat 2) False 1 (snd (snd job)))) sample_jobs)))"
  proof (rule conjunct1 [OF shuffle_roundtrip [OF w sample_jobs_separate]])
    show "\<forall>job \<in> set sample_jobs. \<forall>payload.
        se_encode sample_shuffle (table_part sample_shuffle sample_key (nat 2) False 1 (snd (snd job))) = Inr payload
        \<longrightarrow> se_decode sample_shuffle payload = Inr (table_part sample_shuffle sample_key (nat 2) False 1 (snd (snd job)))"
      using sample_read_back [of "[0, 1]"] sample_read_back [of "[1, 1, 0]"]
      unfolding sample_jobs_def by (auto simp: sample_encode)
  qed (use q in \<open>simp_all add: sample_jobs_def int_table_def fle_def flt_def fnum_def\<close>)
  moreover have "concat (map (\<lambda>job. bt_rows (table_part sample_shuffle sample_key (nat 2) False 1 (snd (snd job)))) sample_jobs)
      = bt_rows (int_table [1, 1, 1])"
    using rows [of "[0, 1]"] rows [of "[1, 1, 0]"] unfolding sample_jobs_def by (simp add: int_table_def)
  ultimately show ?thesis using w by (auto simp: int_table_def)
qed

definition sample_manifest :: shuffle_manifest where
  "sample_manifest = \<lparr>mf_query_id = ''q'', mf_stage_id = ''s'', mf_task_id = ''t0'', mf_attempt_id = ''a0'',
     mf_files = [\<lparr>fl_partition = 0, fl_location = [''f''], fl_row_count = 2, fl_size_bytes = 2, fl_checksum = ''''\<rparr>],
     mf_metrics = no_shuffle_metrics\<rparr>"

lemma damaged_partition_rejected_witness:
  "\<exists>e s'. read_partition sample_shuffle [sample_manifest] 0 (Fin 1) sample_store = (Inl e, s')"
  by (rule damaged_partition_rejected [of sample_manifest])
     (simp_all add: sample_manifest_def undamaged_def sample_store_def)
end
