(* ===== verification/Engine.thy ===== *)
theory Engine
  imports HashJoin OperatorLaws CatalogModels
begin

text \<open>
  The local executor (\<open>execution/engine.py\<close>): the keys of a hash join are extracted from its
  condition, a plan is compiled to a tree of operators, and the tree is run in a context that is
  closed at the end.  The registry of data sources is the parameter \<open>sources\<close>: for a table it
  gives the function that scans a projection in batches.
\<close>

section \<open>Join keys\<close>

text \<open>
  \<open>_expression_sources\<close> looks at the fields of an expression that are expressions or tuples of
  expressions: the branches of a \<open>CASE\<close>, which are tuples of pairs, are not seen.
\<close>

fun key_children :: "expr \<Rightarrow> expr list" where
  "key_children (Case bs d ti) = [d]"
| "key_children e = expression_children e"

lemma key_children_subset: "set (key_children e) \<subseteq> set (expression_children e)"
  by (cases e) auto

function key_sources :: "expr \<Rightarrow> string set" where
  "key_sources e = (if is_column e then {casefold (column_source e)}
     else \<Union> (set (map key_sources (key_children e))))"
  by pat_completeness auto
termination
  by (relation "measure size") (use key_children_subset size_expression_children in auto)

declare key_sources.simps [simp del]

fun split_equalities :: "expr \<Rightarrow> (expr \<times> expr) list res" where
  "split_equalities (Binary OP_AND l r ti) =
     bindR (split_equalities l) (\<lambda>a. bindR (split_equalities r) (\<lambda>b. Inr (a @ b)))"
| "split_equalities (Binary EQUAL l r ti) = Inr [(l, r)]"
| "split_equalities e = Inl PyValueError"

definition orient_equality :: "string set \<Rightarrow> string set \<Rightarrow> expr \<times> expr \<Rightarrow> (expr \<times> expr) res" where
  "orient_equality left_sources right_sources = (\<lambda>(a, b).
     let first = key_sources a; second = key_sources b in
     if first \<noteq> {} \<and> first \<subseteq> left_sources \<and> second \<subseteq> right_sources then Inr (a, b)
     else if first \<noteq> {} \<and> first \<subseteq> right_sources \<and> second \<subseteq> left_sources then Inr (b, a)
     else Inl PyValueError)"

definition hash_join_keys :: "plan \<Rightarrow> plan \<Rightarrow> expr \<Rightarrow> (expr list \<times> expr list) res" where
  "hash_join_keys l r condition =
     bindR (split_equalities condition) (\<lambda>equalities.
     bindR (mapR (orient_equality (plan_sources l) (plan_sources r)) equalities) (\<lambda>keys.
       Inr (map fst keys, map snd keys)))"

section \<open>Names and schemas at run time\<close>

text \<open>The names of a grouping set come from a set; only their membership matters to the join.\<close>

fun runtime_names :: "py_runtime \<Rightarrow> plan \<Rightarrow> string list" where
  "runtime_names rt (Scan i t a s) = map (\<lambda>n. a @ ''.'' @ n) (field_names s)"
| "runtime_names rt (Filter i p e s ph) = runtime_names rt p"
| "runtime_names rt (Limit i p n s) = runtime_names rt p"
| "runtime_names rt (Order i p os s) = runtime_names rt p"
| "runtime_names rt (Project i p es s) = map ne_name es"
| "runtime_names rt (Aggregate i p gs as s) =
     map (expr_sql rt) gs @ map (\<lambda>x. expr_sql rt (ne_expression x)) as"
| "runtime_names rt (GroupingSets i p gs as s) =
     remdups (map (expr_sql rt) (concat gs)) @ map (\<lambda>x. expr_sql rt (ne_expression x)) as"
| "runtime_names rt (Window i p es s) =
     runtime_names rt p @ map (\<lambda>x. expr_sql rt (ne_expression x)) es"
| "runtime_names rt (Join i l r jt c s inlim b) = field_names s"
| "runtime_names rt (Exchange i p st ks n s) = field_names s"

fun runtime_schema :: "py_runtime \<Rightarrow> plan \<Rightarrow> schema res" where
  "runtime_schema rt (Scan i t a s) = Inr (s\<lparr>sc_fields := map (rename_field a) (sc_fields s)\<rparr>)"
| "runtime_schema rt (Filter i p e s ph) = runtime_schema rt p"
| "runtime_schema rt (Limit i p n s) = runtime_schema rt p"
| "runtime_schema rt (Order i p os s) = runtime_schema rt p"
| "runtime_schema rt (Aggregate i p gs as s) = schema_for_aggregate rt gs as"
| "runtime_schema rt (GroupingSets i p gs as s) = schema_for_grouping_sets rt gs as"
| "runtime_schema rt (Window i p es s) =
     bindR (runtime_schema rt p) (\<lambda>input. Inr (schema_for_window rt input es))"
| "runtime_schema rt (Project i p es s) = Inr s"
| "runtime_schema rt (Join i l r jt c s inlim b) = Inr s"
| "runtime_schema rt (Exchange i p st ks n s) = Inr s"

section \<open>The operator tree\<close>

definition scan_runtime_filters :: "string \<Rightarrow> bindings \<Rightarrow> bindings" where
  "scan_runtime_filters alias bindings =
     filter (\<lambda>(es, _). list_all (\<lambda>e. key_sources e = {casefold alias}) es) bindings"

record executor =
  le_tables :: "string \<Rightarrow> catalog_table option"                       \<comment> \<open>by the folded name\<close>
  le_sources :: "catalog_table \<Rightarrow> (string list \<Rightarrow> int \<Rightarrow> unit batches) res"

definition executor_table :: "executor \<Rightarrow> string \<Rightarrow> catalog_table res" where
  "executor_table ex name = (case le_tables ex (casefold name) of
     None \<Rightarrow> Inl PyValueError | Some t \<Rightarrow> Inr t)"

text \<open>
  \<open>_build\<close>.  The path from the root of the plan names the generator frames and the filter
  channel of a join, which are objects of their own in the code.
\<close>

fun build :: "env \<Rightarrow> executor \<Rightarrow> int \<Rightarrow> string \<Rightarrow> bindings \<Rightarrow> plan \<Rightarrow> unit batches res" where
  "build ev ex n path fs (Scan i t a s) =
     bindR (executor_table ex t) (\<lambda>table.
     bindR (le_sources ex table) (\<lambda>scan.
       Inr (scan_op ev i a (scan_runtime_filters a fs) (scan (field_names s) n))))"
| "build ev ex n path fs (Project i p es s) =
     bindR (build ev ex n (path @ ''i'') fs p) (\<lambda>input. Inr (project_op ev i es s input))"
| "build ev ex n path fs (Filter i p e s ph) =
     bindR (build ev ex n (path @ ''i'') fs p) (\<lambda>input. Inr (filter_op ev i e input))"
| "build ev ex n path fs (Limit i p k s) =
     bindR (build ev ex n (path @ ''i'') fs p) (make_limit_op i k)"
| "build ev ex n path fs (Order i p os s) =
     bindR (build ev ex n (path @ ''i'') fs p) (\<lambda>input.
     bindR (runtime_schema (rt_of ev) p) (\<lambda>schema0.
       Inr (order_op ev (in_memory_sort ev) i path os schema0 input)))"
| "build ev ex n path fs (Aggregate i p gs as s) =
     (if gs \<noteq> [] then
        bindR (runtime_schema (rt_of ev) p) (\<lambda>schema0.
        bindR (schema_for_aggregate (rt_of ev) gs as) (\<lambda>out.
        bindR (build ev ex n (path @ ''i'') fs p) (\<lambda>input.
          Inr (sort_aggregate_op ev i path gs as schema0 out input))))
      else
        bindR (schema_for_aggregate (rt_of ev) gs as) (\<lambda>out.
        bindR (build ev ex n (path @ ''i'') fs p) (\<lambda>input.
          Inr (hash_aggregate_op ev i gs as out input))))"
| "build ev ex n path fs (GroupingSets i p gs as s) =
     bindR (build ev ex n (path @ ''i'') fs p) (\<lambda>input.
     bindR (schema_for_grouping_sets (rt_of ev) gs as) (\<lambda>out.
       Inr (grouping_sets_op ev i gs as out input)))"
| "build ev ex n path fs (Window i p es s) =
     bindR (build ev ex n (path @ ''i'') fs p) (\<lambda>input.
     bindR (runtime_schema (rt_of ev) p) (\<lambda>schema0.
       Inr (window_op ev (in_memory_sort ev) i es (schema_for_window (rt_of ev) schema0 es) input)))"
| "build ev ex n path fs (Join i l r jt c s inlim b) =
     bindR (hash_join_keys l r c) (\<lambda>(lks, rks).
       let ch = (if runtime_filter_is_safe jt b then Some path else None);
           lfs = (if ch \<noteq> None \<and> b \<noteq> ''left'' then fs @ [(lks, Channel path)] else fs);
           rfs = (if ch \<noteq> None \<and> b = ''left'' then fs @ [(rks, Channel path)] else fs) in
       bindR (build ev ex n (path @ ''l'') lfs l) (\<lambda>left.
       bindR (build ev ex n (path @ ''r'') rfs r) (\<lambda>right.
       bindR (make_hash_join lks rks jt s (runtime_names (rt_of ev) l) (runtime_names (rt_of ev) r) b ch) (\<lambda>j.
         Inr (hash_join_op ev i path j left right)))))"
| "build ev ex n path fs (Exchange i p st ks k s) = Inl PyValueError"

section \<open>Execution\<close>

definition close_step :: "ctx \<Rightarrow> ctx \<times> unit res" where
  "close_step s = (case close_context s of Inl e \<Rightarrow> (s, Inl e) | Inr s' \<Rightarrow> (s', Inr ()))"

definition execute_plan :: "env \<Rightarrow> executor \<Rightarrow> plan \<Rightarrow> unit batches" where
  "execute_plan ev ex p = finallyG close_step
     (bindG (get cx_batch_size) (\<lambda>n. bindG (lift (build ev ex (int n) [] [] p)) (\<lambda>g. g)))"

text \<open>\<open>execute_table\<close> on the batches that were delivered; Arrow wants them of one schema.\<close>

definition executed_table :: "plan \<Rightarrow> batch list \<Rightarrow> batch res" where
  "executed_table p bs = (case bs of
       [] \<Rightarrow> Inr \<lparr>bt_schema = output_schema p, bt_rows = []\<rparr>
     | b # rest \<Rightarrow> if list_all (\<lambda>c. bt_schema c = bt_schema b) rest
                   then Inr \<lparr>bt_schema = bt_schema b, bt_rows = concat (map bt_rows bs)\<rparr>
                   else Inl PyValueError)"

end
