(* ===== verification/EngineLaws.thy ===== *)
theory EngineLaws
  imports Engine RuleLaws
begin

text \<open>
  The local executor is right: the keys it extracts decide a join as its condition does, and the
  operator tree of a plan delivers what the plan means.
\<close>

section \<open>Keys and condition\<close>

lemma plain_children: "plain_expr e \<Longrightarrow> c \<in> set (expression_children e) \<Longrightarrow> plain_expr c"
  using walk_children [of e] by (auto simp: plain_expr_def contains_aggregate_def contains_window_def list_ex_iff)

lemma plain_self: "plain_expr e \<Longrightarrow> \<not> is_aggregate e \<and> \<not> is_window e"
  using walk_self [of e] by (auto simp: plain_expr_def contains_aggregate_def contains_window_def list_ex_iff)

lemma columns_children: "c \<in> set (expression_children e) \<Longrightarrow> set (expression_columns c) \<subseteq> set (expression_columns e)"
  using walk_children [of e] by (auto simp: expression_columns_def)

text \<open>Evaluation reads a row only at the columns of the expression.\<close>

lemma evaluate_columns:
  "plain_expr e \<Longrightarrow> (\<And>c. c \<in> set (expression_columns e) \<Longrightarrow> evaluate rt row c = evaluate rt row' c)
    \<Longrightarrow> evaluate rt row e = evaluate rt row' e"
proof (induction e rule: measure_induct_rule [where f = size])
  case (less e)
  have IH: "evaluate rt row c = evaluate rt row' c" if c: "c \<in> set (expression_children e)" for c
    using less.IH [OF size_expression_children [OF c] plain_children [OF less.prems(1) c]]
      less.prems(2) columns_children [OF c] by blast
  show ?case
  proof (cases e)
    case (Column n s ti)
    then have "e \<in> set (expression_columns e)" by (simp add: expression_columns_def)
    then show ?thesis by (rule less.prems(2))
  next
    case (InList x os ng)
    then show ?thesis using IH by (simp cong: map_cong if_cong)
  next
    case (Case bs d ti)
    have child: "fst b \<in> set (expression_children e) \<and> snd b \<in> set (expression_children e)"
      if "b \<in> set bs" for b
      using Case that by (cases b) force
    then have eq: "map (\<lambda>(c, r). (evaluate rt row c, evaluate rt row r)) bs
        = map (\<lambda>(c, r). (evaluate rt row' c, evaluate rt row' r)) bs"
      using IH by (intro map_cong [OF refl]) (simp add: split_beta)
    have "evaluate rt row d = evaluate rt row' d" using Case IH by simp
    then show ?thesis unfolding Case evaluate.simps by (simp only: eq)
  next
    case (ScalarFunction n args ti)
    have "mapR (evaluate rt row) args = mapR (evaluate rt row') args"
      using ScalarFunction IH by (intro mapR_cong) auto
    then show ?thesis using ScalarFunction by simp
  qed (use IH plain_self [OF less.prems(1)] in auto)
qed

definition in_scope :: "row \<Rightarrow> expr \<Rightarrow> bool" where
  "in_scope r e \<longleftrightarrow> plain_expr e
     \<and> (\<forall>c \<in> set (expression_columns e). qualified_name (column_name c) (column_source c) \<in> dom r)"

lemma evaluate_in_scope:
  assumes "in_scope r e" and "r \<subseteq>\<^sub>m row"
  shows "evaluate rt row e = evaluate rt r e"
proof (rule evaluate_columns)
  show "plain_expr e" using assms(1) by (simp add: in_scope_def)
  fix c assume c: "c \<in> set (expression_columns e)"
  then have "is_column c" by (simp add: expression_columns_def)
  then obtain n s ti where "c = Column n s ti" by (cases c) auto
  moreover have "qualified_name n s \<in> dom r" using assms(1) c calculation by (auto simp: in_scope_def)
  moreover from this have "row (qualified_name n s) = r (qualified_name n s)"
    using assms(2) by (simp add: map_le_def)
  ultimately show "evaluate rt row c = evaluate rt r c" by auto
qed

definition equal_on :: "py_runtime \<Rightarrow> row \<Rightarrow> expr \<times> expr \<Rightarrow> bool" where
  "equal_on rt row = (\<lambda>(a, b). \<exists>x y. evaluate rt row a = Inr x \<and> evaluate rt row b = Inr y
     \<and> x \<noteq> VNull \<and> y \<noteq> VNull \<and> py_eq x y)"

lemma split_equalities_decide:
  assumes "split_equalities c = Inr es"
  shows "(evaluate rt row c = Inr (VBool True) \<longleftrightarrow> (\<forall>x \<in> set es. equal_on rt row x))
    \<and> (\<forall>v. evaluate rt row c = Inr v \<longrightarrow> is_tri v)"
  using assms
proof (induction c arbitrary: es rule: split_equalities.induct)
  case (1 l r ti)
  then obtain a b where "split_equalities l = Inr a" "split_equalities r = Inr b" "es = a @ b"
    by (auto simp: bindR_eq_Inr)
  with 1 show ?case
    by (auto simp: bindR_eq_Inr binary_value_of_def sql_and_def is_tri_def ball_Un split: if_splits)
next
  case (2 l r ti)
  then show ?case by (auto simp: bindR_eq_Inr binary_value_of_def equal_on_def is_tri_def split: if_splits) blast
qed simp_all

lemma oriented:
  "orient_equality ls rs x = Inr k \<Longrightarrow> k = x \<or> k = (snd x, fst x)"
  by (cases x) (auto simp: orient_equality_def Let_def split: if_splits)

lemma oriented_equal_on:
  "orient_equality ls rs x = Inr k \<Longrightarrow> equal_on rt row k = equal_on rt row x"
  using oriented [of ls rs x k] py_eq_sym by (cases x) (auto simp: equal_on_def)

lemma join_keys_equal_on:
  assumes "hash_join_keys l r c = Inr (lks, rks)"
  shows "length lks = length rks"
    and "evaluate rt row c = Inr (VBool True) \<longleftrightarrow> list_all (equal_on rt row) (zip lks rks)"
proof -
  obtain es ks where es: "split_equalities c = Inr es"
    and ks: "mapR (orient_equality (plan_sources l) (plan_sources r)) es = Inr ks"
    and keys: "lks = map fst ks" "rks = map snd ks"
    using assms by (auto simp: hash_join_keys_def bindR_eq_Inr)
  show "length lks = length rks" by (simp add: keys)
  have "list_all2 (\<lambda>x k. orient_equality (plan_sources l) (plan_sources r) x = Inr k) es ks"
    using ks by (simp add: mapR_Inr_iff)
  then have "(\<forall>x \<in> set es. equal_on rt row x) \<longleftrightarrow> list_all (equal_on rt row) ks"
    by (induction rule: list_all2_induct) (auto simp: oriented_equal_on)
  then show "evaluate rt row c = Inr (VBool True) \<longleftrightarrow> list_all (equal_on rt row) (zip lks rks)"
    using split_equalities_decide [OF es] by (simp add: keys zip_map_fst_snd)
qed

lemma join_key_Some:
  "join_key rt es row = Inr (Some ks) \<longleftrightarrow> mapR (evaluate rt row) es = Inr ks \<and> VNull \<notin> set ks"
  by (auto simp: join_key_def bindR_eq_Inr)

lemma keys_equal_on:
  assumes "length lks = length rks"
  shows "list_all (equal_on rt row) (zip lks rks) \<longleftrightarrow>
    (\<exists>ks ks'. join_key rt lks row = Inr (Some ks) \<and> join_key rt rks row = Inr (Some ks') \<and> key_eq ks ks')"
  using assms
proof (induction lks rks rule: list_induct2)
  case (Cons a as b bs)
  show ?case
    unfolding zip_Cons_Cons list.pred_inject Cons.IH
    by (force simp: join_key_Some equal_on_def bindR_eq_Inr key_eq_def list_all2_Cons1)
qed (simp add: join_key_Some key_eq_def)

text \<open>
  C7.  The hash join decides as the \<open>ON\<close> condition: two rows with different columns are joined on the
  keys extracted from the condition exactly when the condition is TRUE on the joined row, not when
  it is FALSE or NULL, provided that each key reads columns of its own side.
\<close>

theorem join_keys_decide_condition:
  assumes "hash_join_keys l r c = Inr (lks, rks)"
    and "make_hash_join lks rks jt s lcs rcs side ch = Inr j"
    and "dom b \<inter> dom p = {}"
    and "list_all (in_scope b) (build_keys j)" and "list_all (in_scope p) (probe_keys j)"
  shows "joins rt j b p \<longleftrightarrow> evaluate rt (join_rows j b p) c = Inr (VBool True)"
proof -
  let ?row = "join_rows j b p"
  have j: "hj_left_keys j = lks" "hj_right_keys j = rks"
    using assms(2) by (auto simp: make_hash_join_def split: if_splits)
  have le: "b \<subseteq>\<^sub>m ?row" "p \<subseteq>\<^sub>m ?row"
    using assms(3) by (auto simp: join_rows_def map_le_def map_add_def split: option.splits)
  have same: "join_key rt es ?row = join_key rt es x" if "list_all (in_scope x) es" "x \<subseteq>\<^sub>m ?row" for es x
  proof -
    have "mapR (evaluate rt ?row) es = mapR (evaluate rt x) es"
      using that evaluate_in_scope by (intro mapR_cong) (auto simp: list_all_iff)
    then show ?thesis by (simp add: join_key_def)
  qed
  have "joins rt j b p \<longleftrightarrow> (\<exists>ks ks'. join_key rt (build_keys j) b = Inr (Some ks)
      \<and> join_key rt (probe_keys j) p = Inr (Some ks') \<and> key_eq ks ks')"
    by (auto simp: joins_def key_of_def split: sum.splits option.splits)
  also have "\<dots> \<longleftrightarrow> (\<exists>ks ks'. join_key rt lks ?row = Inr (Some ks)
      \<and> join_key rt rks ?row = Inr (Some ks') \<and> key_eq ks ks')"
    using same [OF assms(4) le(1)] same [OF assms(5) le(2)] key_eq_sym
    by (auto simp: build_keys_def probe_keys_def j split: if_splits)
  finally show ?thesis
    using join_keys_equal_on [OF assms(1)] keys_equal_on by simp
qed

section \<open>What a plan means\<close>

text \<open>
  The results a plan may have, over tables given by \<open>data\<close>: the multiset semantics leaves the order
  of groups and of joined rows open.
\<close>

inductive plan_result :: "env \<Rightarrow> (string \<Rightarrow> string list \<Rightarrow> row list) \<Rightarrow> plan \<Rightarrow> row list \<Rightarrow> bool"
  for ev data where
  Scans: "plan_result ev data (Scan i t a s) (map (rename_row a) (data t (field_names s)))"
| Projects: "plan_result ev data p rows \<Longrightarrow> mapR (project_row (rt_of ev) es) rows = Inr ps
    \<Longrightarrow> conformed ev s ps out \<Longrightarrow> plan_result ev data (Project i p es s) out"
| Filters: "plan_result ev data p rows
    \<Longrightarrow> plan_result ev data (Filter i p e s ph) (filter (\<lambda>r. evaluate (rt_of ev) r e = Inr (VBool True)) rows)"
| Orders: "plan_result ev data p rows
    \<Longrightarrow> plan_result ev data (Order i p os s) (sort (row_cmp (rt_of ev) os) rows)"
| Aggregates: "plan_result ev data p rows \<Longrightarrow> aggregate_rows (rt_of ev) [] gs as rows = Inr groups
    \<Longrightarrow> mset outs = mset groups \<Longrightarrow> schema_for_aggregate (rt_of ev) gs as = Inr t
    \<Longrightarrow> conformed ev t outs out \<Longrightarrow> plan_result ev data (Aggregate i p gs as s) out"
| Grouping_Sets: "plan_result ev data p rows
    \<Longrightarrow> mapR (\<lambda>g. aggregate_rows (rt_of ev) (unique_expressions (rt_of ev) gs) g as rows) gs = Inr outs
    \<Longrightarrow> schema_for_grouping_sets (rt_of ev) gs as = Inr t
    \<Longrightarrow> conformed ev t (concat outs) out \<Longrightarrow> plan_result ev data (GroupingSets i p gs as s) out"
| Joins: "plan_result ev data l ls \<Longrightarrow> plan_result ev data r rs \<Longrightarrow> hash_join_keys l r c = Inr (lks, rks)
    \<Longrightarrow> make_hash_join lks rks jt s (runtime_names (rt_of ev) l) (runtime_names (rt_of ev) r) b None = Inr j
    \<Longrightarrow> mset outs = mset (nested_loop_join (rt_of ev) j (if b = ''left'' then ls else rs) (if b = ''left'' then rs else ls))
    \<Longrightarrow> conformed ev s outs out \<Longrightarrow> plan_result ev data (Join i l r jt c s inlim b) out"

text \<open>
  The plans the theorem covers: without \<open>LIMIT\<close> and windows, with joins that publish no runtime
  filter, keys that can be ordered, and \<open>E\<close> for what evaluating their expressions may raise.
\<close>

definition rows_of_plan :: "env \<Rightarrow> plan \<Rightarrow> row set" where
  "rows_of_plan ev p = {r. \<forall>s. runtime_schema (rt_of ev) p = Inr s \<longrightarrow> conforms ev s r}"

definition converts :: "env \<Rightarrow> (exn \<Rightarrow> bool) \<Rightarrow> schema res \<Rightarrow> bool" where
  "converts ev E t \<longleftrightarrow> (\<forall>s r e. t = Inr s \<longrightarrow> ev_conform ev s r = Inl e \<longrightarrow> E e)"

fun covered :: "env \<Rightarrow> (exn \<Rightarrow> bool) \<Rightarrow> plan \<Rightarrow> bool" where
  "covered ev E (Scan i t a s) \<longleftrightarrow> a \<noteq> []
     \<and> (\<forall>r. conforms ev s r \<longrightarrow> conforms ev (s\<lparr>sc_fields := map (rename_field a) (sc_fields s)\<rparr>) (rename_row a r))"
| "covered ev E (Project i p es s) \<longleftrightarrow> covered ev E p \<and> converts ev E (Inr s)
     \<and> (\<forall>r \<in> rows_of_plan ev p. \<forall>e. project_row (rt_of ev) es r = Inl e \<longrightarrow> E e)"
| "covered ev E (Filter i p e s ph) \<longleftrightarrow> covered ev E p
     \<and> (\<forall>r \<in> rows_of_plan ev p. \<forall>x. evaluate (rt_of ev) r e = Inl x \<longrightarrow> E x)"
| "covered ev E (Order i p os s) \<longleftrightarrow> covered ev E p \<and> orderable (rt_of ev) os (rows_of_plan ev p)"
| "covered ev E (Aggregate i p gs as s) \<longleftrightarrow> covered ev E p \<and> all_aggregates as
     \<and> orderable (rt_of ev) (map asc_item gs) (rows_of_plan ev p)
     \<and> agg_errors (rt_of ev) gs as (rows_of_plan ev p) E \<and> converts ev E (schema_for_aggregate (rt_of ev) gs as)"
| "covered ev E (GroupingSets i p gs as s) \<longleftrightarrow> covered ev E p \<and> all_aggregates as
     \<and> (\<forall>g \<in> set gs. plain_keys (rt_of ev) g (rows_of_plan ev p) \<and> agg_errors (rt_of ev) g as (rows_of_plan ev p) E)
     \<and> converts ev E (schema_for_grouping_sets (rt_of ev) gs as)"
| "covered ev E (Join i l r jt c s inlim b) \<longleftrightarrow> covered ev E l \<and> covered ev E r
     \<and> \<not> runtime_filter_is_safe jt b \<and> converts ev E (Inr s)
     \<and> (\<forall>lks rks j sp. hash_join_keys l r c = Inr (lks, rks)
         \<longrightarrow> make_hash_join lks rks jt s (runtime_names (rt_of ev) l) (runtime_names (rt_of ev) r) b None = Inr j
         \<longrightarrow> mergeable (rt_of ev) j (rows_of_plan ev (if b = ''left'' then l else r))
               (rows_of_plan ev (if b = ''left'' then r else l))
           \<and> (runtime_schema (rt_of ev) (if b = ''left'' then r else l) = Inr sp
              \<longrightarrow> named j (rows_of_plan ev (if b = ''left'' then l else r)) sp))"
| "covered ev E _ \<longleftrightarrow> False"

definition sources_deliver :: "env \<Rightarrow> (exn \<Rightarrow> bool) \<Rightarrow> executor \<Rightarrow> (string \<Rightarrow> string list \<Rightarrow> row list) \<Rightarrow> plan \<Rightarrow> bool" where
  "sources_deliver ev E ex data p \<longleftrightarrow> (\<forall>i t a s table scan n. Scan i t a s \<in> set (walk_plan p)
     \<longrightarrow> executor_table ex t = Inr table \<longrightarrow> le_sources ex table = Inr scan
     \<longrightarrow> delivers (batch_ok ev s) (\<lambda>rows. rows = data t (field_names s)) E (scan (field_names s) n))"

lemma sources_deliver_children:
  "sources_deliver ev E ex data p \<Longrightarrow> q \<in> set (children p) \<Longrightarrow> sources_deliver ev E ex data q"
proof -
  assume "sources_deliver ev E ex data p" and "q \<in> set (children p)"
  moreover from this(2) have "set (walk_plan q) \<subseteq> set (walk_plan p)" by (auto simp: walk_plan.simps [of p])
  ultimately show ?thesis unfolding sources_deliver_def by blast
qed

lemma delivers_mono:
  assumes "delivers B P E g" and "\<And>b. B b \<Longrightarrow> B' b" and "\<And>rows. P rows \<Longrightarrow> P' rows"
  shows "delivers B' P' E g"
  using assms unfolding delivers_def by (auto elim!: wp_mono)

text \<open>Every batch of the input is within \<open>rows_of_plan\<close>.\<close>

lemma input_rows:
  assumes "runtime_schema (rt_of ev) p = Inr s" and "delivers (batch_ok ev s) P E g"
  shows "delivers (\<lambda>b. batch_ok ev s b \<and> set (bt_rows b) \<subseteq> rows_of_plan ev p) P E g"
  by (rule delivers_mono [OF assms(2)]) (use assms(1) in \<open>auto simp: rows_of_plan_def batch_ok_def list_all_iff\<close>)

definition implements :: "env \<Rightarrow> (exn \<Rightarrow> bool) \<Rightarrow> (string \<Rightarrow> string list \<Rightarrow> row list) \<Rightarrow> plan \<Rightarrow> unit batches \<Rightarrow> bool" where
  "implements ev E data p g \<longleftrightarrow> (\<exists>s. runtime_schema (rt_of ev) p = Inr s
     \<and> delivers (batch_ok ev s) (plan_result ev data p) E g)"

lemma implementsI:
  "runtime_schema (rt_of ev) p = Inr s \<Longrightarrow> delivers (batch_ok ev s) Q E g
    \<Longrightarrow> (\<And>out. Q out \<Longrightarrow> plan_result ev data p out) \<Longrightarrow> implements ev E data p g"
  unfolding implements_def using delivers_mono by blast

lemma implements_filter:
  assumes conv: "\<And>s. conversion_ok ev s" and "implements ev E data p input" and "\<forall>r \<in> rows_of_plan ev p. \<forall>x. evaluate (rt_of ev) r e = Inl x \<longrightarrow> E x"
  shows "implements ev E data (Filter i p e s ph) (filter_op ev i e input)"
proof -
  from assms(2) obtain t where t: "runtime_schema (rt_of ev) p = Inr t" "delivers (batch_ok ev t) (plan_result ev data p) E input"
    by (auto simp: implements_def)
  have "E x" if "conforms ev t r" "evaluate (rt_of ev) r e = Inl x" for r x
    using assms(3) that t(1) by (auto simp: rows_of_plan_def)
  then show ?thesis
    by (intro implementsI [OF _ filter_op_delivers [OF t(2) conv]]) (auto simp: t(1) intro: plan_result.Filters)
qed

lemma implements_project:
  assumes conv: "\<And>s. conversion_ok ev s" and "implements ev E data p input" and "converts ev E (Inr s)"
    and "\<forall>r \<in> rows_of_plan ev p. \<forall>e. project_row (rt_of ev) es r = Inl e \<longrightarrow> E e"
  shows "implements ev E data (Project i p es s) (project_op ev i es s input)"
proof -
  from assms(2) obtain t where t: "runtime_schema (rt_of ev) p = Inr t" "delivers (batch_ok ev t) (plan_result ev data p) E input"
    by (auto simp: implements_def)
  have "E x" if "conforms ev t r" "project_row (rt_of ev) es r = Inl x" for r x
    using assms(4) that t(1) by (auto simp: rows_of_plan_def)
  moreover have "E e" if "ev_conform ev s r = Inl e" for r e using assms(3) that by (auto simp: converts_def)
  ultimately show ?thesis
    by (intro implementsI [OF _ project_op_delivers [OF t(2) conv]]) (auto intro: plan_result.Projects)
qed

lemma implements_order:
  assumes conv: "\<And>s. conversion_ok ev s" and "implements ev E data p input" and "orderable (rt_of ev) os (rows_of_plan ev p)"
    and "runtime_schema (rt_of ev) p = Inr t"
  shows "implements ev E data (Order i p os s) (order_op ev (in_memory_sort ev) i path os t input)"
proof -
  from assms(2,4) have t: "delivers (batch_ok ev t) (plan_result ev data p) E input"
    by (auto simp: implements_def)
  have d: "delivers (batch_ok ev t) (\<lambda>out. \<exists>rows. plan_result ev data p rows \<and> out = sort (row_cmp (rt_of ev) os) rows) E
      (order_op ev (in_memory_sort ev) i path os t input)"
    by (rule deliversI [OF _ input_rows [OF assms(4) t]], rule execution_context.wp_order_op) (use assms(3) conv in auto)
  show ?thesis
    by (rule implementsI [OF _ d]) (use assms(4) in \<open>auto intro: plan_result.Orders\<close>)
qed

lemma implements_aggregate:
  assumes conv: "\<And>s. conversion_ok ev s" and "implements ev E data p input" and "all_aggregates as"
    and "orderable (rt_of ev) (map asc_item gs) (rows_of_plan ev p)"
    and "agg_errors (rt_of ev) gs as (rows_of_plan ev p) E" and out: "schema_for_aggregate (rt_of ev) gs as = Inr out"
    and "converts ev E (Inr out)" and t: "runtime_schema (rt_of ev) p = Inr t"
  shows "implements ev E data (Aggregate i p gs as s)
    (if gs \<noteq> [] then sort_aggregate_op ev i path gs as t out input else hash_aggregate_op ev i gs as out input)"
proof -
  have input: "delivers (\<lambda>b. batch_ok ev t b \<and> set (bt_rows b) \<subseteq> rows_of_plan ev p) (plan_result ev data p) E input"
    using assms(2) t by (intro input_rows) (auto simp: implements_def)
  have E: "E e" if "ev_conform ev out r = Inl e" for r e using assms(7) that by (auto simp: converts_def)
  show ?thesis
  proof (cases "gs = []")
    case True
    have plain: "plain_keys (rt_of ev) gs (rows_of_plan ev p)" by (simp add: plain_keys_def row_key_def True)
    have d: "delivers (batch_ok ev out) (\<lambda>res. \<exists>rows outs. plan_result ev data p rows
        \<and> aggregate_rows (rt_of ev) [] gs as rows = Inr outs \<and> conformed ev out outs res) E
        (hash_aggregate_op ev i gs as out input)"
    proof (rule deliversI [OF _ input], rule execution_context.wp_hash_aggregate_op)
      fix err :: "exn \<Rightarrow> bool" assume "\<And>e. E e \<Longrightarrow> err e"
      then show "agg_errors (rt_of ev) gs as (rows_of_plan ev p) err" and "\<And>r e. ev_conform ev out r = Inl e \<Longrightarrow> err e"
        using assms(5) E agg_errors_mono by blast+
    qed (use assms(3) plain conv in auto)
    have "implements ev E data (Aggregate i p gs as s) (hash_aggregate_op ev i gs as out input)"
      by (rule implementsI [OF _ d]) (use out in \<open>auto intro!: plan_result.Aggregates [OF _ _ refl]\<close>)
    then show ?thesis by (simp add: True)
  next
    case False
    have d: "delivers (batch_ok ev out) (\<lambda>res. \<exists>rows outs sorted_outs. plan_result ev data p rows
        \<and> aggregate_rows (rt_of ev) [] gs as rows = Inr outs \<and> mset sorted_outs = mset outs
        \<and> conformed ev out sorted_outs res) E (sort_aggregate_op ev i path gs as t out input)"
    proof (rule deliversI [OF _ input], rule wp_sorted_groups)
      fix err :: "exn \<Rightarrow> bool" assume "\<And>e. E e \<Longrightarrow> err e"
      then show "agg_errors (rt_of ev) gs as (rows_of_plan ev p) err" and "\<And>r e. ev_conform ev out r = Inl e \<Longrightarrow> err e"
        using assms(5) E agg_errors_mono by blast+
    qed (use assms(3,4) False conv in auto)
    have "implements ev E data (Aggregate i p gs as s) (sort_aggregate_op ev i path gs as t out input)"
      by (rule implementsI [OF _ d]) (use out in \<open>auto intro: plan_result.Aggregates\<close>)
    then show ?thesis using False by simp
  qed
qed

lemma implements_grouping_sets:
  assumes conv: "\<And>s. conversion_ok ev s" and "implements ev E data p input" and "all_aggregates as"
    and "\<forall>g \<in> set gs. plain_keys (rt_of ev) g (rows_of_plan ev p) \<and> agg_errors (rt_of ev) g as (rows_of_plan ev p) E"
    and out: "schema_for_grouping_sets (rt_of ev) gs as = Inr out" and "converts ev E (Inr out)"
  shows "implements ev E data (GroupingSets i p gs as s) (grouping_sets_op ev i gs as out input)"
proof -
  from assms(2) obtain t where t: "runtime_schema (rt_of ev) p = Inr t" "delivers (batch_ok ev t) (plan_result ev data p) E input"
    by (auto simp: implements_def)
  have E: "E e" if "ev_conform ev out r = Inl e" for r e using assms(6) that by (auto simp: converts_def)
  then show ?thesis
    using out by (intro implementsI [OF _ grouping_sets_delivers [OF input_rows [OF t] assms(3,4) conv]])
      (auto intro: plan_result.Grouping_Sets)
qed

lemma implements_join:
  assumes conv: "\<And>s. conversion_ok ev s" and "implements ev E data l left" and "implements ev E data r right" and "hash_respects_eq ev"
    and keys: "hash_join_keys l r c = Inr (lks, rks)"
    and j: "make_hash_join lks rks jt s (runtime_names (rt_of ev) l) (runtime_names (rt_of ev) r) b None = Inr j"
    and m: "mergeable (rt_of ev) j (rows_of_plan ev (if b = ''left'' then l else r))
        (rows_of_plan ev (if b = ''left'' then r else l))"
    and named: "\<And>sp. runtime_schema (rt_of ev) (if b = ''left'' then r else l) = Inr sp
        \<Longrightarrow> named j (rows_of_plan ev (if b = ''left'' then l else r)) sp"
    and "converts ev E (Inr s)"
  shows "implements ev E data (Join i l r jt c s inlim b) (hash_join_op ev i path j left right)"
proof -
  from assms(2) obtain tl where tl: "runtime_schema (rt_of ev) l = Inr tl" "delivers (batch_ok ev tl) (plan_result ev data l) E left"
    by (auto simp: implements_def)
  from assms(3) obtain tr where tr: "runtime_schema (rt_of ev) r = Inr tr" "delivers (batch_ok ev tr) (plan_result ev data r) E right"
    by (auto simp: implements_def)
  have jd: "hj_schema j = s" "hj_build_left j = (b = ''left'')" "hj_channel j = None"
    using j by (auto simp: make_hash_join_def split: if_splits)
  let ?B = "if b = ''left'' then l else r" and ?P = "if b = ''left'' then r else l"
  let ?tb = "if b = ''left'' then tl else tr" and ?tp = "if b = ''left'' then tr else tl"
  have build: "delivers (\<lambda>x. batch_ok ev ?tb x \<and> set (bt_rows x) \<subseteq> rows_of_plan ev ?B) (plan_result ev data ?B) E
      (if hj_build_left j then left else right)"
    and probe: "delivers (\<lambda>x. batch_ok ev ?tp x \<and> set (bt_rows x) \<subseteq> rows_of_plan ev ?P) (plan_result ev data ?P) E
      (if hj_build_left j then right else left)"
    using input_rows [OF tl] input_rows [OF tr] by (simp_all add: jd)
  have "delivers (batch_ok ev (hj_schema j)) (\<lambda>res. \<exists>bs ps outs. plan_result ev data ?B bs \<and> plan_result ev data ?P ps
      \<and> mset outs = mset (nested_loop_join (rt_of ev) j bs ps) \<and> conformed ev (hj_schema j) outs res) E
    (hash_join_op ev i path j left right)"
  proof (rule deliversI2 [OF _ build probe])
    fix inv :: "ctx \<Rightarrow> bool" and err :: "exn \<Rightarrow> bool"
    assume ctx: "execution_context inv err" and err: "\<And>e. E e \<Longrightarrow> err e"
      and inputs: "wp inv (\<lambda>x. batch_ok ev ?tb x \<and> set (bt_rows x) \<subseteq> rows_of_plan ev ?B)
          (if hj_build_left j then left else right) (\<lambda>bs _. plan_result ev data ?B (rows_of bs)) err"
        "wp inv (\<lambda>x. batch_ok ev ?tp x \<and> set (bt_rows x) \<subseteq> rows_of_plan ev ?P)
          (if hj_build_left j then right else left) (\<lambda>bs _. plan_result ev data ?P (rows_of bs)) err"
    have "err e" if "ev_conform ev (hj_schema j) r = Inl e" for r e
      using assms(9) that err by (auto simp: converts_def jd)
    moreover have "runtime_schema (rt_of ev) ?P = Inr ?tp" using tl tr by simp
    ultimately have "wp inv (batch_ok ev (hj_schema j)) (hash_join_op ev i path j left right)
        (\<lambda>os _. \<exists>bs ps. plan_result ev data ?B bs \<and> plan_result ev data ?P ps \<and> join_of ev j bs ps (rows_of os)) err"
      by (intro execution_context.wp_hash_join_op [OF ctx m assms(4) named conv _ _ inputs]) (simp_all add: jd)
    then show "wp inv (batch_ok ev (hj_schema j)) (hash_join_op ev i path j left right)
        (\<lambda>os _. \<exists>bs ps outs. plan_result ev data ?B bs \<and> plan_result ev data ?P ps
          \<and> mset outs = mset (nested_loop_join (rt_of ev) j bs ps) \<and> conformed ev (hj_schema j) outs (rows_of os)) err"
      by (rule wp_mono) (auto simp: join_of_def)
  qed
  then show ?thesis
  proof (rule implementsI [rotated])
    fix out
    assume "\<exists>bs ps outs. plan_result ev data ?B bs \<and> plan_result ev data ?P ps
      \<and> mset outs = mset (nested_loop_join (rt_of ev) j bs ps) \<and> conformed ev (hj_schema j) outs out"
    then obtain bs ps outs where o: "plan_result ev data ?B bs" "plan_result ev data ?P ps"
      "mset outs = mset (nested_loop_join (rt_of ev) j bs ps)" "conformed ev s outs out" unfolding jd by blast
    show "plan_result ev data (Join i l r jt c s inlim b) out"
      by (rule plan_result.Joins [where ls = "if b = ''left'' then bs else ps" and rs = "if b = ''left'' then ps else bs",
          OF _ _ keys j _ o(4)]) (use o in \<open>auto split: if_splits\<close>)
  qed (simp add: jd)
qed

lemma implements_scan:
  assumes conv: "\<And>s. conversion_ok ev s" and "covered ev E (Scan i t a s)"
    and "delivers (batch_ok ev s) (\<lambda>rows. rows = data t (field_names s)) E source"
  shows "implements ev E data (Scan i t a s) (scan_op ev i a [] source)"
proof -
  let ?t = "if a \<noteq> [] then s\<lparr>sc_fields := map (rename_field a) (sc_fields s)\<rparr> else s"
  have a: "a \<noteq> []" using assms(2) by simp
  have d: "delivers (batch_ok ev ?t) (\<lambda>out. \<exists>rows. rows = data t (field_names s)
      \<and> out = filter (\<lambda>r. row_survives ev [] r = Inr True) (map (if a \<noteq> [] then rename_row a else id) rows)) E
      (scan_op ev i a [] source)"
    by (rule scan_op_delivers [OF assms(3), where F = "[]"]) (use assms(2) in auto)
  show ?thesis
    by (rule implementsI [OF _ d]) (use a in \<open>auto intro: plan_result.Scans\<close>)
qed

lemma build_implements:
  assumes "covered ev E p" and conv: "\<And>s. conversion_ok ev s" and "hash_respects_eq ev"
    and "sources_deliver ev E ex data p" and "build ev ex n path [] p = Inr g"
  shows "implements ev E data p g"
  using assms(1,4,5)
proof (induction p arbitrary: path g)
  case (Scan i t a s)
  then obtain table scan where t: "executor_table ex t = Inr table" "le_sources ex table = Inr scan"
    and g: "g = scan_op ev i a [] (scan (field_names s) n)"
    by (auto simp: bindR_eq_Inr scan_runtime_filters_def)
  have "Scan i t a s \<in> set (walk_plan (Scan i t a s))" by (simp add: walk_plan.simps [of "Scan i t a s"])
  with Scan.prems(2) t show ?case
    unfolding g by (intro implements_scan [OF conv Scan.prems(1)]) (auto simp: sources_deliver_def)
next
  case (Project i p es s)
  from Project.prems(2) have sources: "sources_deliver ev E ex data p" by (rule sources_deliver_children) simp
  from Project.prems(3) obtain input where "build ev ex n (path @ ''i'') [] p = Inr input"
    and g: "g = project_op ev i es s input" by (auto simp: bindR_eq_Inr)
  then show ?case using Project.IH [OF _ sources] Project.prems(1) implements_project [OF conv] by auto
next
  case (Filter i p e s ph)
  from Filter.prems(2) have sources: "sources_deliver ev E ex data p" by (rule sources_deliver_children) simp
  from Filter.prems(3) obtain input where "build ev ex n (path @ ''i'') [] p = Inr input"
    and g: "g = filter_op ev i e input" by (auto simp: bindR_eq_Inr)
  then show ?case using Filter.IH [OF _ sources] Filter.prems(1) implements_filter [OF conv] by auto
next
  case (Order i p os s)
  from Order.prems(2) have sources: "sources_deliver ev E ex data p" by (rule sources_deliver_children) simp
  from Order.prems(3) obtain input t where "build ev ex n (path @ ''i'') [] p = Inr input"
    and "runtime_schema (rt_of ev) p = Inr t" and g: "g = order_op ev (in_memory_sort ev) i path os t input"
    by (auto simp: bindR_eq_Inr)
  then show ?case using Order.IH [OF _ sources] Order.prems(1) implements_order [OF conv] by auto
next
  case (Aggregate i p gs as s)
  from Aggregate.prems(2) have sources: "sources_deliver ev E ex data p" by (rule sources_deliver_children) simp
  obtain input t where input: "build ev ex n (path @ ''i'') [] p = Inr input"
    using Aggregate.prems(3) by (auto simp: bindR_eq_Inr split: if_splits)
  have "implements ev E data p input" using Aggregate.IH [OF _ sources input] Aggregate.prems(1) by simp
  moreover from this obtain t where t: "runtime_schema (rt_of ev) p = Inr t" by (auto simp: implements_def)
  moreover obtain out where out: "schema_for_aggregate (rt_of ev) gs as = Inr out"
    and g: "g = (if gs \<noteq> [] then sort_aggregate_op ev i path gs as t out input else hash_aggregate_op ev i gs as out input)"
    using Aggregate.prems(3) input t by (auto simp: bindR_eq_Inr split: if_splits)
  ultimately show ?case
    unfolding g using Aggregate.prems(1) by (intro implements_aggregate [OF conv]) (simp_all add: out)
next
  case (GroupingSets i p gs as s)
  from GroupingSets.prems(2) have sources: "sources_deliver ev E ex data p" by (rule sources_deliver_children) simp
  from GroupingSets.prems(3) obtain input out where "build ev ex n (path @ ''i'') [] p = Inr input"
    and "schema_for_grouping_sets (rt_of ev) gs as = Inr out" and g: "g = grouping_sets_op ev i gs as out input"
    by (auto simp: bindR_eq_Inr)
  then show ?case using GroupingSets.IH [OF _ sources] GroupingSets.prems(1) implements_grouping_sets [OF conv] by auto
next
  case (Join i l r jt c s inlim b)
  from Join.prems(2) have sources: "sources_deliver ev E ex data l" "sources_deliver ev E ex data r"
    by (rule sources_deliver_children, simp)+
  have unsafe: "\<not> runtime_filter_is_safe jt b" using Join.prems(1) by simp
  from Join.prems(3) unsafe obtain lks rks left right j where keys: "hash_join_keys l r c = Inr (lks, rks)"
    and inputs: "build ev ex n (path @ ''l'') [] l = Inr left" "build ev ex n (path @ ''r'') [] r = Inr right"
    and j: "make_hash_join lks rks jt s (runtime_names (rt_of ev) l) (runtime_names (rt_of ev) r) b None = Inr j"
    and g: "g = hash_join_op ev i path j left right"
    by (auto simp: bindR_eq_Inr Let_def)
  have "implements ev E data l left" "implements ev E data r right"
    using Join.IH(1) [OF _ sources(1) inputs(1)] Join.IH(2) [OF _ sources(2) inputs(2)] Join.prems(1) by simp_all
  then show ?case
    unfolding g using Join.prems(1) keys j
    by (intro implements_join [OF conv _ _ assms(3) keys j]) (simp, simp, auto simp del: runtime_schema.simps)
qed simp_all

text \<open>
  C6.  The local executor is right.  For a plan without \<open>LIMIT\<close>, windows and runtime filters, the
  operator tree that is built delivers batches of the schema the executor has computed for the plan,
  and when it has delivered all of them their rows are a result of the plan; it raises nothing but what the
  evaluation of its expressions, the conversions and the sources raise (\<open>E\<close>), or what the context does.
\<close>

theorem built_plan_delivers_result:
  assumes "covered ev E p" and "\<And>s. conversion_ok ev s" and "hash_respects_eq ev"
    and "sources_deliver ev E ex data p" and "build ev ex n path [] p = Inr g"
  shows "\<exists>s. runtime_schema (rt_of ev) p = Inr s \<and> delivers (batch_ok ev s) (plan_result ev data p) E g"
  using build_implements [OF assms] by (simp add: implements_def)

section \<open>Examples\<close>

definition scan_of :: "string \<Rightarrow> plan" where
  "scan_of a = Scan a a a sample_schema"

definition on_columns :: expr where
  "on_columns = Binary EQUAL (Column ''b'' ''u'' int_type) (Column ''a'' ''t'' int_type) (TypeInfo T_BOOLEAN True)"

definition column_join :: hash_join where
  "column_join = \<lparr>hj_left_keys = [Column ''a'' ''t'' int_type], hj_right_keys = [Column ''b'' ''u'' int_type],
     hj_type = ''full'', hj_schema = sample_schema, hj_left_columns = [], hj_right_columns = [],
     hj_build_left = True, hj_channel = None\<rparr>"

lemma column_keys:
  "hash_join_keys (scan_of ''t'') (scan_of ''u'') on_columns
     = Inr ([Column ''a'' ''t'' int_type], [Column ''b'' ''u'' int_type])"
proof -
  have "casefold ''t'' = ''t''" "casefold ''u'' = ''u''" by code_simp+
  then show ?thesis
    by (simp add: hash_join_keys_def on_columns_def orient_equality_def scan_of_def key_sources.simps)
qed

lemma column_in_scope: "in_scope [s @ CHR ''.'' # n \<mapsto> v] (Column n s ti)" if "s \<noteq> []"
  using that by (auto simp: in_scope_def plain_expr_def contains_aggregate_def contains_window_def
      expression_columns_def walk_expression.simps qualified_name_def)

lemma join_keys_decide_condition_witness:
  "\<forall>rt x y. joins rt column_join [''t.a'' \<mapsto> x] [''u.b'' \<mapsto> y]
     \<longleftrightarrow> evaluate rt (join_rows column_join [''t.a'' \<mapsto> x] [''u.b'' \<mapsto> y]) on_columns = Inr (VBool True)"
proof (intro allI)
  fix rt x y
  show "joins rt column_join [''t.a'' \<mapsto> x] [''u.b'' \<mapsto> y]
     \<longleftrightarrow> evaluate rt (join_rows column_join [''t.a'' \<mapsto> x] [''u.b'' \<mapsto> y]) on_columns = Inr (VBool True)"
  proof (rule join_keys_decide_condition [OF column_keys])
    show "make_hash_join [Column ''a'' ''t'' int_type] [Column ''b'' ''u'' int_type] ''full'' sample_schema [] []
        ''left'' None = Inr column_join"
      by (simp add: make_hash_join_def column_join_def)
    show "list_all (in_scope [''t.a'' \<mapsto> x]) (build_keys column_join)"
      using column_in_scope [of "''t''" "''a''"] by (simp add: column_join_def build_keys_def)
    show "list_all (in_scope [''u.b'' \<mapsto> y]) (probe_keys column_join)"
      using column_in_scope [of "''u''" "''b''"] by (simp add: column_join_def probe_keys_def)
  qed simp
qed

definition engine_table :: catalog_table where
  "engine_table = \<lparr>ct_namespace = ''n'', ct_name = ''t'', ct_schema = sample_schema, ct_format = F_PARQUET,
     ct_location = [], ct_partition_strategy = P_SINGLE, ct_partition_keys = [], ct_partitions = [],
     ct_statistics = None\<rparr>"

definition sample_executor :: executor where
  "sample_executor = \<lparr>le_tables = (\<lambda>_. Some engine_table), le_sources = (\<lambda>_. Inr (\<lambda>_ _. sample_input))\<rparr>"

definition filtered_scan :: plan where
  "filtered_scan = Filter ''f'' (scan_of ''t'') (IsNull (Column ''g'' ''t'' int_type) True) sample_schema ''unspecified''"

lemma sample_input_delivers:
  "delivers (batch_ok (sample_env ev) sample_schema) (\<lambda>rows. rows = sample_rows) E sample_input"
  unfolding sample_input_def delivers_from_list by (simp add: batch_ok_def conforms_def list_all_iff)

lemma built_plan_delivers_result_witness:
  "\<forall>ev. \<exists>s g. build (sample_env ev) sample_executor 10 [] [] filtered_scan = Inr g
     \<and> delivers (batch_ok (sample_env ev) s) (plan_result (sample_env ev) (\<lambda>_ _. sample_rows) filtered_scan)
         (\<lambda>e. e = PyKeyError) g"
proof
  fix ev
  have "build (sample_env ev) sample_executor 10 [] [] filtered_scan
     = Inr (filter_op (sample_env ev) ''f'' (IsNull (Column ''g'' ''t'' int_type) True)
         (scan_op (sample_env ev) ''t'' ''t'' [] sample_input))" (is "_ = Inr ?g")
    by (simp add: filtered_scan_def scan_of_def executor_table_def sample_executor_def scan_runtime_filters_def)
  moreover have "\<exists>s. runtime_schema (rt_of (sample_env ev)) filtered_scan = Inr s
     \<and> delivers (batch_ok (sample_env ev) s) (plan_result (sample_env ev) (\<lambda>_ _. sample_rows) filtered_scan)
         (\<lambda>e. e = PyKeyError) ?g"
  proof (rule built_plan_delivers_result [OF _ _ _ _ calculation])
    show "covered (sample_env ev) (\<lambda>e. e = PyKeyError) filtered_scan"
      by (auto simp: filtered_scan_def scan_of_def conforms_def bindR_eq_Inl row_or_def split: option.splits)
    show "hash_respects_eq (sample_env ev)" by (simp add: hash_respects_eq_def)
    show "sources_deliver (sample_env ev) (\<lambda>e. e = PyKeyError) sample_executor (\<lambda>_ _. sample_rows) filtered_scan"
      by (auto simp: sources_deliver_def filtered_scan_def scan_of_def walk_plan.simps sample_executor_def
          sample_input_delivers)
    show "conversion_ok (sample_env ev) s" for s by (simp add: conversion_ok_def conforms_def)
  qed
  ultimately show "\<exists>s g. build (sample_env ev) sample_executor 10 [] [] filtered_scan = Inr g
     \<and> delivers (batch_ok (sample_env ev) s) (plan_result (sample_env ev) (\<lambda>_ _. sample_rows) filtered_scan)
         (\<lambda>e. e = PyKeyError) g" by blast
qed

end
