(* ===== verification/Queries.thy ===== *)
theory Queries
  imports Cbo Physical Context
begin

text \<open>
  The life of a query in the coordinator (\<open>coordinator/queries.py\<close>).  The coroutine \<open>_run\<close> is cut
  at its awaits into segments that run without interruption; cancel requests run between them.
  Parameters of the model are the binder, which walks the syntax tree of another package, the
  remote executor, whose result is any value or exception, and the diagnostics.
\<close>

section \<open>Planning\<close>

record ('d, 'a) query_env =
  qe_cost :: cost_runtime
  qe_bind :: "(string, catalog_table) dict \<Rightarrow> string \<Rightarrow> plan res"
  qe_class_name :: "exn \<Rightarrow> string"
  qe_diagnostics :: "string \<Rightarrow> cbo_result \<Rightarrow> plan \<Rightarrow> batch \<Rightarrow> 'd res"
  qe_advise :: "'d \<Rightarrow> 'a res"
  qe_explain_analyze :: "'d \<Rightarrow> string"

abbreviation qe_rt :: "('d, 'a) query_env \<Rightarrow> py_runtime" where
  "qe_rt env \<equiv> py_runtime.truncate (qe_cost env)"

definition plan_query ::
    "('d, 'a) query_env \<Rightarrow> string \<Rightarrow> (string, catalog_table) dict \<Rightarrow> int \<Rightarrow> (cbo_result \<times> plan) res" where
  "plan_query env sql tables worker_count =
     bindR (qe_bind env tables sql) (\<lambda>bound.
     bindR (make_cost_model (qe_cost env) tables worker_count (64 * 1024 * 1024) (10 * 1024 * 1024)) (\<lambda>cm.
     bindR (cost_based_optimize (qe_cost env) cm (optimize (qe_rt env) (default_rules (qe_rt env)) 32) bound) (\<lambda>opt.
     bindR (materialize_exchanges (qe_rt env) (cb_optimized_plan opt) (cb_join_decisions opt) worker_count)
       (\<lambda>physical. Inr (opt, physical)))))"

section \<open>Records\<close>

text \<open>Where \<open>_run\<close> waits, with its local variables.\<close>

datatype run_phase =
    Run_Created
  | Run_Listing "(string, catalog_table) dict"
  | Run_Planning "(string, catalog_table) dict" "worker list"
  | Run_Executing
  | Run_Done

text \<open>\<open>qr_executor\<close> is \<open>None\<close> or whether the executor has been told to cancel; \<open>qr_waiting\<close> counts
  the calls of \<open>cancel\<close> that wait for the end of the run.\<close>

record ('d, 'a) query_record =
  qr_id :: string
  qr_sql :: string
  qr_state :: query_state
  qr_created_at :: int
  qr_updated_at :: int
  qr_logical_plan :: "plan_node option"
  qr_physical_node :: "plan_node option"
  qr_error :: "error_detail option"
  qr_optimization :: "cbo_result option"
  qr_physical_plan :: "plan option"
  qr_rows :: "row list option"
  qr_columns :: "string list option"
  qr_diagnostics :: "'d option"
  qr_advisor :: "'a option"
  qr_executor :: "bool option"
  qr_cancel_requested :: bool
  qr_phase :: run_phase
  qr_waiting :: nat

text \<open>\<open>str.strip\<close>, for code points below 256.\<close>

definition is_space :: "char \<Rightarrow> bool" where
  "is_space c = (let n = of_char c :: nat in 9 \<le> n \<and> n \<le> 13 \<or> 28 \<le> n \<and> n \<le> 32 \<or> n = 133 \<or> n = 160)"

definition str_strip :: "string \<Rightarrow> string" where
  "str_strip s = rev (dropWhile is_space (rev (dropWhile is_space s)))"

definition new_query :: "string \<Rightarrow> string \<Rightarrow> int \<Rightarrow> ('d, 'a) query_record" where
  "new_query qid sql now =
     \<lparr>qr_id = qid, qr_sql = sql, qr_state = QS_QUEUED, qr_created_at = now, qr_updated_at = now,
      qr_logical_plan = None, qr_physical_node = None, qr_error = None, qr_optimization = None,
      qr_physical_plan = None, qr_rows = None, qr_columns = None, qr_diagnostics = None,
      qr_advisor = None, qr_executor = None, qr_cancel_requested = False,
      qr_phase = Run_Created, qr_waiting = 0\<rparr>"

definition terminal_states :: "query_state set" where
  "terminal_states = {QS_SUCCEEDED, QS_FAILED, QS_CANCELED}"

definition set_query_state :: "query_state \<Rightarrow> int \<Rightarrow> ('d, 'a) query_record \<Rightarrow> ('d, 'a) query_record" where
  "set_query_state st now r = r\<lparr>qr_state := st, qr_updated_at := now\<rparr>"

section \<open>The run\<close>

text \<open>The \<open>finally\<close> clause, after which the task is done.\<close>

definition end_run :: "('d, 'a) query_record \<Rightarrow> ('d, 'a) query_record" where
  "end_run r = r\<lparr>qr_executor := None, qr_phase := Run_Done\<rparr>"

definition query_task_failed :: "string \<Rightarrow> string \<Rightarrow> string \<Rightarrow> error_detail" where
  "query_task_failed qid msg kind0 = \<lparr>ed_code = TASK_FAILED, ed_message = msg,
     ed_context = [(''query_id'', CStr qid), (''failure_kind'', CStr kind0)]\<rparr>"

text \<open>The \<open>except\<close> clauses.\<close>

definition fail_run ::
    "('d, 'a) query_env \<Rightarrow> int \<Rightarrow> exn \<Rightarrow> ('d, 'a) query_record \<Rightarrow> ('d, 'a) query_record" where
  "fail_run env now e r = end_run
     (if e = AsyncCancelled \<or> e = ExecutionCancelled then
        if qr_state r \<noteq> QS_FAILED then set_query_state QS_CANCELED now r else r
      else if e = CancellationConfirmationError then
        set_query_state QS_FAILED now (r\<lparr>qr_error := Some (query_task_failed (qr_id r)
          ''Query cancellation could not be confirmed for every remote attempt.''
          ''cancellation_confirmation'')\<rparr>)
      else if qr_cancel_requested r then set_query_state QS_CANCELED now r
      else set_query_state QS_FAILED now (r\<lparr>qr_error := Some (case e of
          DomainError d \<Rightarrow> as_response d
        | _ \<Rightarrow> \<lparr>ed_code = INTERNAL_ERROR, ed_message = ''Query execution failed.'',
                ed_context = [(''type'', CStr (qe_class_name env e))]\<rparr>)\<rparr>))"

definition begin_query ::
    "('d, 'a) query_env \<Rightarrow> (string, catalog_table) dict res \<Rightarrow> int \<Rightarrow> ('d, 'a) query_record \<Rightarrow> ('d, 'a) query_record" where
  "begin_query env snapshot now r =
     (let r1 = set_query_state QS_PLANNING now r in
      case snapshot of Inl e \<Rightarrow> fail_run env now e r1 | Inr tables \<Rightarrow> r1\<lparr>qr_phase := Run_Listing tables\<rparr>)"

definition workers_listed ::
    "('d, 'a) query_env \<Rightarrow> (string, catalog_table) dict \<Rightarrow> worker list res \<Rightarrow> int
     \<Rightarrow> ('d, 'a) query_record \<Rightarrow> ('d, 'a) query_record" where
  "workers_listed env tables result now r = (case result of
       Inl e \<Rightarrow> fail_run env now e r
     | Inr registered \<Rightarrow>
         let active = filter (\<lambda>w. w_state w = WS_ACTIVE) registered in
         if active = []
         then fail_run env now (raise_domain SERVICE_UNAVAILABLE ''No active Worker is available.'' 503 []) r
         else r\<lparr>qr_phase := Run_Planning tables active\<rparr>)"

text \<open>\<open>conn\<close> is the outcome of creating the remote Workers and the executor.\<close>

definition query_planned ::
    "('d, 'a) query_env \<Rightarrow> (cbo_result \<times> plan) res \<Rightarrow> unit res \<Rightarrow> int
     \<Rightarrow> ('d, 'a) query_record \<Rightarrow> ('d, 'a) query_record" where
  "query_planned env result conn now r = (case result of
       Inl e \<Rightarrow> fail_run env now e r
     | Inr (opt, physical) \<Rightarrow>
         let r1 = r\<lparr>qr_optimization := Some opt, qr_physical_plan := Some physical,
                    qr_logical_plan := Some (to_protocol (qe_rt env) (cb_optimized_plan opt)),
                    qr_physical_node := Some (to_protocol (qe_rt env) physical)\<rparr> in
         if qr_cancel_requested r1 then fail_run env now AsyncCancelled r1
         else case conn of
             Inl e \<Rightarrow> fail_run env now e r1
           | Inr _ \<Rightarrow> (set_query_state QS_RUNNING now (r1\<lparr>qr_executor := Some False\<rparr>))\<lparr>qr_phase := Run_Executing\<rparr>)"

definition query_executed ::
    "('d, 'a) query_env \<Rightarrow> batch res \<Rightarrow> int \<Rightarrow> ('d, 'a) query_record \<Rightarrow> ('d, 'a) query_record" where
  "query_executed env result now r = (case result of
       Inl e \<Rightarrow> fail_run env now e r
     | Inr table \<Rightarrow>
         if qr_cancel_requested r then fail_run env now AsyncCancelled r
         else
           let r1 = r\<lparr>qr_columns := Some (field_names (bt_schema table)), qr_rows := Some (bt_rows table)\<rparr> in
           case qe_diagnostics env (qr_id r) (the (qr_optimization r)) (the (qr_physical_plan r)) table of
               Inl e \<Rightarrow> fail_run env now e r1
             | Inr d \<Rightarrow>
                 let r2 = r1\<lparr>qr_diagnostics := Some d\<rparr> in
                 case qe_advise env d of
                     Inl e \<Rightarrow> fail_run env now e r2
                   | Inr a \<Rightarrow> end_run (set_query_state QS_SUCCEEDED now (r2\<lparr>qr_advisor := Some a\<rparr>)))"

section \<open>Cancellation\<close>

definition cancel_begins :: "('d, 'a) query_record \<Rightarrow> ('d, 'a) query_record" where
  "cancel_begins r =
     (if qr_state r \<in> terminal_states then r
      else r\<lparr>qr_cancel_requested := True, qr_executor := map_option (\<lambda>_. True) (qr_executor r),
             qr_waiting := Suc (qr_waiting r)\<rparr>)"

definition cancel_times_out :: "int \<Rightarrow> ('d, 'a) query_record \<Rightarrow> ('d, 'a) query_record" where
  "cancel_times_out now r = (set_query_state QS_FAILED now (r\<lparr>qr_error := Some (query_task_failed (qr_id r)
       ''Query cancellation could not be confirmed before the timeout.'' ''cancellation_timeout'')\<rparr>))
     \<lparr>qr_waiting := qr_waiting r - 1\<rparr>"

definition cancel_returns :: "('d, 'a) query_record \<Rightarrow> ('d, 'a) query_record" where
  "cancel_returns r = r\<lparr>qr_waiting := qr_waiting r - 1\<rparr>"

text \<open>
  The steps of one query.  The time-out of a waiting \<open>cancel\<close> may fire even when the run has just
  ended, as \<open>asyncio.wait_for\<close> allows.
\<close>

inductive query_step :: "('d, 'a) query_env \<Rightarrow> ('d, 'a) query_record \<Rightarrow> ('d, 'a) query_record \<Rightarrow> bool"
  for env where
  Begin_Run: "qr_phase r = Run_Created \<Longrightarrow> query_step env r (begin_query env snapshot now r)"
| Listed: "qr_phase r = Run_Listing tables \<Longrightarrow> query_step env r (workers_listed env tables result now r)"
| Planned: "qr_phase r = Run_Planning tables active
    \<Longrightarrow> query_step env r (query_planned env (plan_query env (qr_sql r) tables (int (length active))) conn now r)"
| Executed: "qr_phase r = Run_Executing \<Longrightarrow> query_step env r (query_executed env result now r)"
| Cancel_Begins: "query_step env r (cancel_begins r)"
| Cancel_Times_Out: "0 < qr_waiting r \<Longrightarrow> query_step env r (cancel_times_out now r)"
| Cancel_Returns: "0 < qr_waiting r \<Longrightarrow> qr_phase r = Run_Done \<Longrightarrow> query_step env r (cancel_returns r)"

section \<open>The service\<close>

type_synonym ('d, 'a) query_service = "(string, ('d, 'a) query_record) dict"

definition submit_query ::
    "string \<Rightarrow> string \<Rightarrow> int \<Rightarrow> ('d, 'a) query_service \<Rightarrow> ('d, 'a) query_record \<times> ('d, 'a) query_service" where
  "submit_query qid sql now svc =
     (let r = new_query qid (str_strip sql) now in (r, dict_set svc qid r))"

definition find_query :: "('d, 'a) query_service \<Rightarrow> string \<Rightarrow> ('d, 'a) query_record res" where
  "find_query svc qid = (case dict_get svc qid of
       None \<Rightarrow> Inl (raise_domain NOT_FOUND (''Query '' @ qid @ '' does not exist.'') 404 [(''query_id'', CStr qid)])
     | Some r \<Rightarrow> Inr r)"

definition not_ready :: "('d, 'a) query_record \<Rightarrow> string \<Rightarrow> exn" where
  "not_ready r resource = raise_domain CONFLICT
     (''Query '' @ resource @ '' are not available while state is '' @ query_state_value (qr_state r) @ ''.'') 409
     [(''query_id'', CStr (qr_id r)), (''state'', CStr (query_state_value (qr_state r)))]"

text \<open>Newest first, queries of the same time in order of submission.\<close>

definition list_queries :: "('d, 'a) query_service \<Rightarrow> ('d, 'a) query_record list" where
  "list_queries svc = sort_key (\<lambda>r. - qr_created_at r) (map snd svc)"

record plan_response =
  pr_query_id :: string
  pr_original :: plan_node
  pr_optimized :: plan_node
  pr_physical :: plan_node
  pr_explain :: string

definition plan_response_of :: "('d, 'a) query_env \<Rightarrow> string \<Rightarrow> cbo_result \<Rightarrow> plan \<Rightarrow> plan_response res" where
  "plan_response_of env qid opt physical =
     bindR (explain_cbo (qe_cost env) opt) (\<lambda>text0. Inr
       \<lparr>pr_query_id = qid, pr_original = to_protocol (qe_rt env) (cb_original_plan opt),
        pr_optimized = to_protocol (qe_rt env) (cb_optimized_plan opt),
        pr_physical = to_protocol (qe_rt env) physical, pr_explain = text0\<rparr>)"

definition explain_query ::
    "('d, 'a) query_env \<Rightarrow> string \<Rightarrow> string \<Rightarrow> (string, catalog_table) dict res \<Rightarrow> worker list \<Rightarrow> plan_response res" where
  "explain_query env qid sql snapshot workers0 =
     bindR snapshot (\<lambda>tables.
     bindR (plan_query env sql tables (max (int (length workers0)) 1)) (\<lambda>(opt, physical).
       plan_response_of env qid opt physical))"

definition get_plan :: "('d, 'a) query_env \<Rightarrow> ('d, 'a) query_service \<Rightarrow> string \<Rightarrow> plan_response res" where
  "get_plan env svc qid = bindR (find_query svc qid) (\<lambda>r.
     case (qr_optimization r, qr_physical_plan r) of
       (Some opt, Some physical) \<Rightarrow> plan_response_of env qid opt physical
     | _ \<Rightarrow> Inl (not_ready r ''plan''))"

record result_page =
  rp_query_id :: string
  rp_columns :: "string list"
  rp_rows :: "row list"
  rp_offset :: int
  rp_limit :: int
  rp_returned :: int
  rp_total_rows :: int
  rp_next_offset :: "int option"

definition make_result_page :: "result_page \<Rightarrow> result_page res" where
  "make_result_page p =
     (if 0 \<le> rp_offset p \<and> 1 \<le> rp_limit p \<and> 0 \<le> rp_returned p \<and> 0 \<le> rp_total_rows p
         \<and> (case rp_next_offset p of None \<Rightarrow> True | Some n \<Rightarrow> 0 \<le> n)
      then Inr p else Inl PyValueError)"

text \<open>A negative offset or limit is rejected when the page is created.\<close>

definition get_results :: "('d, 'a) query_service \<Rightarrow> string \<Rightarrow> int \<Rightarrow> int \<Rightarrow> result_page res" where
  "get_results svc qid offset0 limit0 = bindR (find_query svc qid) (\<lambda>r.
     case qr_rows r of
       None \<Rightarrow> Inl (not_ready r ''results'')
     | Some all_rows \<Rightarrow>
         if qr_state r \<noteq> QS_SUCCEEDED then Inl (not_ready r ''results'')
         else
           let rows = take (nat limit0) (drop (nat offset0) all_rows);
               after = offset0 + int (length rows) in
           make_result_page
             \<lparr>rp_query_id = qid, rp_columns = (case qr_columns r of None \<Rightarrow> [] | Some cs \<Rightarrow> cs),
              rp_rows = rows, rp_offset = offset0, rp_limit = limit0, rp_returned = int (length rows),
              rp_total_rows = int (length all_rows),
              rp_next_offset = (if after < int (length all_rows) then Some after else None)\<rparr>)"

definition get_metrics :: "('d, 'a) query_env \<Rightarrow> ('d, 'a) query_service \<Rightarrow> string \<Rightarrow> ('d \<times> string) res" where
  "get_metrics env svc qid = bindR (find_query svc qid) (\<lambda>r.
     case qr_diagnostics r of None \<Rightarrow> Inl (not_ready r ''metrics'')
     | Some d \<Rightarrow> Inr (d, qe_explain_analyze env d))"

definition get_advisor :: "('d, 'a) query_service \<Rightarrow> string \<Rightarrow> 'a res" where
  "get_advisor svc qid = bindR (find_query svc qid) (\<lambda>r.
     case qr_advisor r of None \<Rightarrow> Inl (not_ready r ''advisor report'') | Some a \<Rightarrow> Inr a)"

end
