(* ===== verification/QueryLaws.thy ===== *)
theory QueryLaws
  imports Queries
begin

text \<open>
  The states of a query over all interleavings of its run with cancel requests, and the paging of
  its result.
\<close>

section \<open>States\<close>

lemmas query_defs = set_query_state_def end_run_def fail_run_def begin_query_def workers_listed_def
  query_planned_def query_executed_def cancel_begins_def cancel_times_out_def cancel_returns_def
  terminal_states_def Let_def

text \<open>What holds of a record at every await.\<close>

definition state_fits :: "('d, 'a) query_record \<Rightarrow> bool" where
  "state_fits r \<longleftrightarrow> (case qr_phase r of
       Run_Done \<Rightarrow> qr_state r \<in> terminal_states
     | Run_Created \<Rightarrow> qr_state r = QS_QUEUED \<or> qr_cancel_requested r \<and> qr_state r = QS_FAILED
     | Run_Executing \<Rightarrow> qr_state r = QS_RUNNING \<or> qr_cancel_requested r \<and> qr_state r = QS_FAILED
     | _ \<Rightarrow> qr_state r = QS_PLANNING \<or> qr_cancel_requested r \<and> qr_state r = QS_FAILED)"

definition planned_ok :: "('d, 'a) query_record \<Rightarrow> bool" where
  "planned_ok r \<longleftrightarrow> (qr_phase r = Run_Executing \<or> qr_state r = QS_SUCCEEDED
     \<longrightarrow> qr_optimization r \<noteq> None \<and> qr_physical_plan r \<noteq> None)"

definition result_ok :: "('d, 'a) query_record \<Rightarrow> bool" where
  "result_ok r \<longleftrightarrow> (qr_state r = QS_SUCCEEDED \<longrightarrow> qr_rows r \<noteq> None \<and> qr_columns r \<noteq> None
     \<and> qr_diagnostics r \<noteq> None \<and> qr_advisor r \<noteq> None)"

definition error_ok :: "('d, 'a) query_record \<Rightarrow> bool" where
  "error_ok r \<longleftrightarrow> (qr_state r = QS_FAILED \<longrightarrow> qr_error r \<noteq> None)
     \<and> (qr_error r \<noteq> None \<longrightarrow> qr_cancel_requested r \<or> qr_state r = QS_FAILED)"

definition cancel_ok :: "('d, 'a) query_record \<Rightarrow> bool" where
  "cancel_ok r \<longleftrightarrow> (0 < qr_waiting r \<longrightarrow> qr_cancel_requested r)
     \<and> (qr_state r = QS_SUCCEEDED \<longrightarrow> \<not> qr_cancel_requested r)
     \<and> (qr_executor r \<noteq> None \<longleftrightarrow> qr_phase r = Run_Executing)"

definition record_ok :: "('d, 'a) query_record \<Rightarrow> bool" where
  "record_ok r \<longleftrightarrow> state_fits r \<and> planned_ok r \<and> result_ok r \<and> error_ok r \<and> cancel_ok r"

lemmas record_ok_defs = record_ok_def state_fits_def planned_ok_def result_ok_def error_ok_def cancel_ok_def

lemma new_query_ok: "record_ok (new_query qid sql now)"
  by (simp add: record_ok_defs new_query_def)

text \<open>A failing segment ends the run.\<close>

lemma fail_run_ok:
  assumes "qr_state r \<noteq> QS_SUCCEEDED" and "error_ok r" and "0 < qr_waiting r \<longrightarrow> qr_cancel_requested r"
  shows "record_ok (fail_run env now e r)" and "qr_state (fail_run env now e r) \<noteq> QS_SUCCEEDED"
  using assms by (auto simp: record_ok_defs query_defs)

lemma not_done_not_succeeded: "record_ok r \<Longrightarrow> qr_phase r \<noteq> Run_Done \<Longrightarrow> qr_state r \<noteq> QS_SUCCEEDED"
  by (auto simp: record_ok_defs terminal_states_def split: run_phase.splits)

lemma fail_run_ok':
  assumes "record_ok r" and "qr_phase r \<noteq> Run_Done"
  shows "record_ok (fail_run env now e r)"
  using assms not_done_not_succeeded [OF assms] by (intro fail_run_ok(1)) (simp_all add: record_ok_def cancel_ok_def)

lemma begin_query_ok:
  assumes "record_ok r" and "qr_phase r = Run_Created"
  shows "record_ok (begin_query env snapshot now r)"
proof (cases snapshot)
  case (Inl e)
  have "error_ok (set_query_state QS_PLANNING now r)"
    using assms by (auto simp: record_ok_defs query_defs)
  then show ?thesis
    using fail_run_ok(1) [of "set_query_state QS_PLANNING now r"] assms
    by (simp add: begin_query_def Inl record_ok_defs set_query_state_def)
next
  case (Inr tables)
  then show ?thesis using assms by (auto simp: record_ok_defs begin_query_def set_query_state_def)
qed

lemma workers_listed_ok:
  assumes "record_ok r" and "qr_phase r = Run_Listing tables"
  shows "record_ok (workers_listed env tables result now r)"
proof -
  have f: "record_ok (fail_run env now e r)" for e
    using assms fail_run_ok' [OF assms(1)] by simp
  show ?thesis
  proof (cases result)
    case (Inr ws)
    have "record_ok (r\<lparr>qr_phase := Run_Planning tables active\<rparr>)" for active
      using assms by (auto simp: record_ok_defs)
    then show ?thesis using f by (simp add: workers_listed_def Inr Let_def)
  qed (simp add: workers_listed_def f)
qed

lemma query_planned_ok:
  assumes "record_ok r" and "qr_phase r = Run_Planning tables active"
  shows "record_ok (query_planned env result conn now r)"
proof (cases result)
  case (Inl e)
  then show ?thesis
    using assms fail_run_ok' [OF assms(1)] by (simp add: query_planned_def)
next
  case (Inr plans)
  obtain opt physical where plans: "plans = (opt, physical)" by (cases plans)
  let ?r = "r\<lparr>qr_optimization := Some opt, qr_physical_plan := Some physical,
              qr_logical_plan := Some (to_protocol (qe_rt env) (cb_optimized_plan opt)),
              qr_physical_node := Some (to_protocol (qe_rt env) physical)\<rparr>"
  have f: "record_ok (fail_run env now e ?r)" for e
    using assms not_done_not_succeeded [OF assms(1)] by (intro fail_run_ok(1)) (simp_all add: record_ok_defs)
  have "record_ok ((set_query_state QS_RUNNING now (?r\<lparr>qr_executor := Some False\<rparr>))\<lparr>qr_phase := Run_Executing\<rparr>)"
    if "\<not> qr_cancel_requested r"
    using assms that by (auto simp: record_ok_defs set_query_state_def)
  then show ?thesis
    using f by (auto simp: query_planned_def Inr plans Let_def split: sum.split)
qed

lemma query_executed_ok:
  assumes "record_ok r" and "qr_phase r = Run_Executing"
  shows "record_ok (query_executed env result now r)"
proof (cases result)
  case (Inl e)
  then show ?thesis
    using assms fail_run_ok' [OF assms(1)] by (simp add: query_executed_def)
next
  case (Inr table)
  let ?r1 = "r\<lparr>qr_columns := Some (field_names (bt_schema table)), qr_rows := Some (bt_rows table)\<rparr>"
  have ns: "qr_state r \<noteq> QS_SUCCEEDED" using not_done_not_succeeded [OF assms(1)] assms(2) by simp
  have "error_ok r" "0 < qr_waiting r \<longrightarrow> qr_cancel_requested r" using assms(1) by (simp_all add: record_ok_def cancel_ok_def)
  then have f: "record_ok (fail_run env now e ?r1)" "record_ok (fail_run env now e (?r1\<lparr>qr_diagnostics := Some d\<rparr>))" for e d
    using ns by (auto intro!: fail_run_ok(1) simp: error_ok_def)
  have "record_ok (end_run (set_query_state QS_SUCCEEDED now (?r1\<lparr>qr_diagnostics := Some d, qr_advisor := Some a\<rparr>)))"
    if "\<not> qr_cancel_requested r" for d a
    using assms that by (auto simp: record_ok_defs set_query_state_def end_run_def terminal_states_def)
  then show ?thesis
    using f fail_run_ok' [OF assms(1)] assms(2) by (simp add: query_executed_def Inr Let_def split: sum.split)
qed

lemma query_step_ok: "query_step env r r' \<Longrightarrow> record_ok r \<Longrightarrow> record_ok r'"
proof (induction rule: query_step.cases)
  case (Cancel_Begins r)
  then show ?case by (auto simp: record_ok_defs query_defs split: run_phase.splits)
next
  case (Cancel_Times_Out r now)
  then show ?case by (auto simp: record_ok_defs query_defs split: run_phase.splits)
next
  case (Cancel_Returns r)
  then show ?case by (auto simp: record_ok_defs query_defs)
qed (simp_all add: begin_query_ok workers_listed_ok query_planned_ok query_executed_ok)

lemma reachable_record_ok: "(query_step env)\<^sup>*\<^sup>* r r' \<Longrightarrow> record_ok r \<Longrightarrow> record_ok r'"
  by (induction rule: rtranclp_induct) (auto dest: query_step_ok)

text \<open>
  C18.  Whatever the run of a query meets and however cancel requests are interleaved with it, the state
  fits the phase of the run: a run that has ended left a terminal state, a failed query has an
  error, a query has succeeded only with its plan, rows, columns, diagnostics and advice and was
  not asked to cancel, and an executor is kept exactly while it runs.
\<close>

theorem query_lifecycle:
  assumes "(query_step env)\<^sup>*\<^sup>* (new_query qid sql now) r"
  shows "record_ok r"
  using reachable_record_ok [OF assms new_query_ok] .

section \<open>Outcomes are final\<close>

lemma fail_run_requested [simp]: "qr_cancel_requested (fail_run env now e r) = qr_cancel_requested r"
  by (auto simp: query_defs)

lemma step_keeps_request: "query_step env r r' \<Longrightarrow> qr_cancel_requested r \<Longrightarrow> qr_cancel_requested r'"
proof (induction rule: query_step.cases)
  case (Begin_Run r snapshot now)
  then show ?case by (auto simp: begin_query_def Let_def set_query_state_def split: sum.split)
next
  case (Listed r tables result now)
  then show ?case by (auto simp: workers_listed_def Let_def split: sum.split)
next
  case (Planned r tables active conn now)
  then show ?case by (auto simp: query_planned_def Let_def set_query_state_def split: sum.split)
next
  case (Executed r result now)
  then show ?case by (auto simp: query_executed_def Let_def set_query_state_def end_run_def split: sum.split)
qed (simp_all add: cancel_begins_def cancel_times_out_def cancel_returns_def set_query_state_def)

lemma steps_keep_request: "(query_step env)\<^sup>*\<^sup>* r r' \<Longrightarrow> qr_cancel_requested r \<Longrightarrow> qr_cancel_requested r'"
  by (induction rule: rtranclp_induct) (auto dest: step_keeps_request)

lemma step_from_success:
  assumes "query_step env r r'" and "record_ok r" and "qr_state r = QS_SUCCEEDED"
  shows "r' = r"
proof -
  have "qr_phase r = Run_Done" "qr_waiting r = 0"
    using assms(2,3) by (auto simp: record_ok_defs split: run_phase.splits)
  with assms(1,3) show ?thesis by cases (auto simp: cancel_begins_def terminal_states_def)
qed

text \<open>
  C17.  Success is final and excludes cancellation: once a query has succeeded nothing changes its record,
  and once a cancellation was requested the query never succeeds.
\<close>

theorem query_success_is_final:
  assumes "(query_step env)\<^sup>*\<^sup>* (new_query qid sql now) r" and "(query_step env)\<^sup>*\<^sup>* r r'"
  shows "(qr_state r = QS_SUCCEEDED \<longrightarrow> r' = r) \<and> (qr_cancel_requested r \<longrightarrow> qr_state r' \<noteq> QS_SUCCEEDED)"
proof
  have ok: "record_ok r" using reachable_record_ok [OF assms(1) new_query_ok] .
  show "qr_state r = QS_SUCCEEDED \<longrightarrow> r' = r"
    using assms(2) by (induction rule: rtranclp_induct) (use ok step_from_success in auto)
  have "record_ok r'" using reachable_record_ok [OF assms(2) ok] .
  then show "qr_cancel_requested r \<longrightarrow> qr_state r' \<noteq> QS_SUCCEEDED"
    using steps_keep_request [OF assms(2)] by (auto simp: record_ok_def cancel_ok_def)
qed

section \<open>Pages\<close>

text \<open>A client that follows \<open>next_offset\<close> from an offset collects these rows.\<close>

inductive reads_pages :: "('d, 'a) query_service \<Rightarrow> string \<Rightarrow> int \<Rightarrow> int \<Rightarrow> row list \<Rightarrow> bool"
  for svc qid limit0 where
  Last_Page: "get_results svc qid offset0 limit0 = Inr p \<Longrightarrow> rp_next_offset p = None
    \<Longrightarrow> reads_pages svc qid limit0 offset0 (rp_rows p)"
| More_Pages: "get_results svc qid offset0 limit0 = Inr p \<Longrightarrow> rp_next_offset p = Some n
    \<Longrightarrow> reads_pages svc qid limit0 n rest \<Longrightarrow> reads_pages svc qid limit0 offset0 (rp_rows p @ rest)"

lemma page_of_results:
  assumes "dict_get svc qid = Some r" and "qr_state r = QS_SUCCEEDED" and "qr_rows r = Some rows"
    and "0 \<le> offset0" and "1 \<le> limit0"
  shows "\<exists>p. get_results svc qid offset0 limit0 = Inr p \<and> rp_rows p = take (nat limit0) (drop (nat offset0) rows)
    \<and> rp_next_offset p = (if nat offset0 + nat limit0 < length rows then Some (offset0 + limit0) else None)"
  using assms by (auto simp: get_results_def find_query_def make_result_page_def Let_def min_def)

lemma reads_pages_exact:
  assumes "dict_get svc qid = Some r" and "qr_state r = QS_SUCCEEDED" and "qr_rows r = Some rows"
    and "1 \<le> limit0"
  shows "reads_pages svc qid limit0 offset0 out \<Longrightarrow> 0 \<le> offset0 \<Longrightarrow> out = drop (nat offset0) rows"
proof (induction rule: reads_pages.induct)
  case (Last_Page offset0 p)
  with page_of_results [OF assms(1-3) Last_Page(3) assms(4)] show ?case by (auto split: if_splits)
next
  case (More_Pages offset0 p n rest)
  with page_of_results [OF assms(1-3) More_Pages(5) assms(4)] assms(4)
  have p: "rp_rows p = take (nat limit0) (drop (nat offset0) rows)" "n = offset0 + limit0"
    by (auto split: if_splits)
  with More_Pages assms(4) have "rest = drop (nat limit0) (drop (nat offset0) rows)"
    by (simp add: nat_add_distrib add.commute)
  with p show ?case by (simp del: drop_drop)
qed

lemma reads_pages_exists:
  assumes "dict_get svc qid = Some r" and "qr_state r = QS_SUCCEEDED" and "qr_rows r = Some rows"
    and "1 \<le> limit0" and "0 \<le> offset0"
  shows "\<exists>out. reads_pages svc qid limit0 offset0 out"
  using assms(5)
proof (induction "length rows - nat offset0" arbitrary: offset0 rule: less_induct)
  case less
  obtain p where p: "get_results svc qid offset0 limit0 = Inr p"
    and n: "rp_next_offset p = (if nat offset0 + nat limit0 < length rows then Some (offset0 + limit0) else None)"
    using page_of_results [OF assms(1-3) less.prems assms(4)] by blast
  show ?case
  proof (cases "nat offset0 + nat limit0 < length rows")
    case True
    then have "length rows - nat (offset0 + limit0) < length rows - nat offset0"
      using assms(4) less.prems by (simp add: nat_add_distrib)
    then show ?thesis using less.hyps [of "offset0 + limit0"] less.prems assms(4) p n True More_Pages by fastforce
  next
    case False
    then show ?thesis using p n Last_Page by fastforce
  qed
qed

text \<open>
  C19.  Following \<open>next_offset\<close> from the first page with any page size gives the rows of a succeeded
  query exactly once and in order, and the pages end.
\<close>

theorem pages_are_the_result:
  assumes "dict_get svc qid = Some r" and "qr_state r = QS_SUCCEEDED" and "qr_rows r = Some rows"
    and "1 \<le> limit0"
  shows "reads_pages svc qid limit0 0 out \<longleftrightarrow> out = rows"
proof -
  have "out' = rows" if "reads_pages svc qid limit0 0 out'" for out'
    using reads_pages_exact [OF assms that] by simp
  then show ?thesis using reads_pages_exists [OF assms, of 0] by auto
qed

section \<open>Examples\<close>

text \<open>A query that is cancelled before it starts and then fails to read the catalog.\<close>

definition cancelled_query :: "(unit, unit) query_record" where
  "cancelled_query = cancel_begins (new_query ''q'' ''select 1'' 0)"

lemma cancelled_query_steps:
  "query_step env (new_query ''q'' ''select 1'' 0) cancelled_query"
  "query_step env cancelled_query (begin_query env (Inl PyKeyError) 1 cancelled_query)"
  unfolding cancelled_query_def
  by (rule query_step.Cancel_Begins, rule query_step.Begin_Run)
    (simp add: cancel_begins_def new_query_def terminal_states_def)

lemma query_lifecycle_witness:
  "\<forall>env :: (unit, unit) query_env. \<exists>r. (query_step env)\<^sup>*\<^sup>* (new_query ''q'' ''select 1'' 0) r
     \<and> record_ok r \<and> qr_state r = QS_CANCELED"
proof
  fix env :: "(unit, unit) query_env"
  let ?r = "begin_query env (Inl PyKeyError) 1 cancelled_query"
  have "(query_step env)\<^sup>*\<^sup>* (new_query ''q'' ''select 1'' 0) ?r"
    using cancelled_query_steps [of env] by (meson converse_rtranclp_into_rtranclp r_into_rtranclp)
  moreover from query_lifecycle [OF this] have "record_ok ?r" .
  moreover have "qr_state ?r = QS_CANCELED"
    by (simp add: cancelled_query_def new_query_def query_defs)
  ultimately show "\<exists>r. (query_step env)\<^sup>*\<^sup>* (new_query ''q'' ''select 1'' 0) r
     \<and> record_ok r \<and> qr_state r = QS_CANCELED" by blast
qed

lemma query_success_is_final_witness:
  "\<forall>env :: (unit, unit) query_env. \<exists>r'. (query_step env)\<^sup>*\<^sup>* cancelled_query r'
     \<and> qr_phase r' = Run_Done \<and> qr_state r' \<noteq> QS_SUCCEEDED"
proof
  fix env :: "(unit, unit) query_env"
  let ?r = "begin_query env (Inl PyKeyError) 1 cancelled_query"
  have steps: "(query_step env)\<^sup>*\<^sup>* (new_query ''q'' ''select 1'' 0) cancelled_query"
    "(query_step env)\<^sup>*\<^sup>* cancelled_query ?r"
    by (rule r_into_rtranclp, rule cancelled_query_steps)+
  have "qr_cancel_requested cancelled_query" "qr_phase ?r = Run_Done"
    by (simp_all add: cancelled_query_def new_query_def query_defs)
  moreover from query_success_is_final [OF steps] this
  have "qr_state ?r \<noteq> QS_SUCCEEDED" by simp
  ultimately show "\<exists>r'. (query_step env)\<^sup>*\<^sup>* cancelled_query r'
     \<and> qr_phase r' = Run_Done \<and> qr_state r' \<noteq> QS_SUCCEEDED"
    using steps(2) by blast
qed

definition finished_query :: "(unit, unit) query_record" where
  "finished_query = (new_query ''q'' ''select 1'' 0)
     \<lparr>qr_state := QS_SUCCEEDED, qr_rows := Some [[''a'' \<mapsto> VInt 1], [''a'' \<mapsto> VInt 2], [''a'' \<mapsto> VInt 3]]\<rparr>"

lemma pages_are_the_result_witness:
  "\<forall>out. reads_pages [(''q'', finished_query)] ''q'' 2 0 out
     \<longleftrightarrow> out = [[''a'' \<mapsto> VInt 1], [''a'' \<mapsto> VInt 2], [''a'' \<mapsto> VInt 3]]"
  by (rule allI, rule pages_are_the_result [where r = finished_query]) (simp_all add: finished_query_def dict_get_def)

end
