(* ===== verification/Distributed.thy ===== *)
theory Distributed
  imports Engine
begin

text \<open>
  What the tasks of a distributed query compute (\<open>execution/distributed.py\<close>): partial aggregates
  of the source partitions and their merge after the exchange, the operator that a task runs on
  its partition, the pairing of the partitions of a join, and the runtime filter that is built from all
  partitions of a build side.  \<open>cancelled n\<close> tells whether the \<open>n\<close>-th check of a task's token raises.
\<close>

section \<open>Partial aggregates\<close>

definition can_partial :: "named_expression list \<Rightarrow> bool" where
  "can_partial aggs \<longleftrightarrow> list_all (\<lambda>item. case agg_parts (ne_expression item) of
       None \<Rightarrow> False
     | Some (name, _, distinct_args) \<Rightarrow>
         \<not> distinct_args \<and> name \<in> {''count'', ''sum'', ''avg'', ''min'', ''max''}) aggs"

record partial_state =
  pt_count :: int
  pt_value :: sql_value

definition new_partial :: partial_state where
  "new_partial = \<lparr>pt_count = 0, pt_value = VNull\<rparr>"

definition new_partial_states :: "named_expression list \<Rightarrow> partial_state list" where
  "new_partial_states aggs = map (\<lambda>_. new_partial) aggs"

definition add_numbers :: "py_runtime \<Rightarrow> sql_value \<Rightarrow> sql_value \<Rightarrow> sql_value res" where
  "add_numbers rt current v = (if current = VNull then Inr v else numeric_operation rt current v ADD)"

definition best_value :: "string \<Rightarrow> sql_value \<Rightarrow> sql_value \<Rightarrow> sql_value res" where
  "best_value name current v =
     (if current = VNull then Inr v
      else bindR (if name = ''min'' then py_lt v current else py_lt current v) (\<lambda>better.
        Inr (if better then v else current)))"

text \<open>One value, and the partial result of a partition, into a state.\<close>

definition partial_add :: "py_runtime \<Rightarrow> string \<Rightarrow> partial_state \<Rightarrow> sql_value \<Rightarrow> partial_state res" where
  "partial_add rt name st v =
     (if v = VNull then Inr st
      else bindR (if name \<in> {''sum'', ''avg''} then add_numbers rt (pt_value st) v
                  else if name \<in> {''min'', ''max''} then best_value name (pt_value st) v
                  else Inr (pt_value st)) (\<lambda>w.
        Inr \<lparr>pt_count = pt_count st + 1, pt_value = w\<rparr>))"

definition final_add :: "py_runtime \<Rightarrow> string \<Rightarrow> partial_state \<Rightarrow> int \<Rightarrow> sql_value \<Rightarrow> partial_state res" where
  "final_add rt name st n v =
     bindR (if name \<in> {''sum'', ''avg''} then add_numbers rt (pt_value st) v
            else if name \<in> {''min'', ''max''} \<and> v \<noteq> VNull then best_value name (pt_value st) v
            else Inr (pt_value st)) (\<lambda>w.
       Inr \<lparr>pt_count = pt_count st + n, pt_value = w\<rparr>)"

definition finish_partial :: "py_runtime \<Rightarrow> string \<Rightarrow> partial_state \<Rightarrow> sql_value res" where
  "finish_partial rt name st =
     (if name = ''count'' then Inr (VInt (pt_count st))
      else if name = ''avg'' then
        (if pt_count st \<noteq> 0 then numeric_operation rt (pt_value st) (VInt (pt_count st)) DIVIDE else Inr VNull)
      else Inr (if pt_count st \<noteq> 0 then pt_value st else VNull))"

text \<open>\<open>groups.setdefault(key, states)\<close>, and the update of the states.\<close>

fun update_group ::
    "group_key \<Rightarrow> 's \<Rightarrow> ('s \<Rightarrow> 's res) \<Rightarrow> (group_key \<times> 's) list \<Rightarrow> (group_key \<times> 's) list res" where
  "update_group k fresh f [] = bindR (f fresh) (\<lambda>s. Inr [(k, s)])"
| "update_group k fresh f ((k', s) # gs) =
     (if key_eq k' k then bindR (f s) (\<lambda>s'. Inr ((k', s') # gs))
      else bindR (update_group k fresh f gs) (\<lambda>gs'. Inr ((k', s) # gs')))"

type_synonym partial_groups = "(group_key \<times> partial_state list) list"

definition start_groups :: "expr list \<Rightarrow> named_expression list \<Rightarrow> partial_groups" where
  "start_groups group_by aggs = (if group_by = [] then [([], new_partial_states aggs)] else [])"

definition agg_name :: "named_expression \<Rightarrow> string" where
  "agg_name item = (case agg_parts (ne_expression item) of None \<Rightarrow> [] | Some (name, _) \<Rightarrow> name)"

definition agg_argument :: "py_runtime \<Rightarrow> row \<Rightarrow> named_expression \<Rightarrow> sql_value res" where
  "agg_argument rt row item = (case agg_parts (ne_expression item) of
       None \<Rightarrow> Inl PyAttributeError
     | Some (_, [], _) \<Rightarrow> Inr (VInt 1)
     | Some (_, a # _, _) \<Rightarrow> evaluate rt row a)"

definition partial_states ::
    "py_runtime \<Rightarrow> named_expression list \<Rightarrow> row \<Rightarrow> partial_state list \<Rightarrow> partial_state list res" where
  "partial_states rt aggs row sts = mapR (\<lambda>(item, st).
     bindR (agg_argument rt row item) (partial_add rt (agg_name item) st)) (zip aggs sts)"

definition partial_row ::
    "py_runtime \<Rightarrow> expr list \<Rightarrow> named_expression list \<Rightarrow> partial_groups \<Rightarrow> row \<Rightarrow> partial_groups res" where
  "partial_row rt group_by aggs groups row =
     bindR (row_key rt group_by row) (\<lambda>k.
       update_group k (new_partial_states aggs) (partial_states rt aggs row) groups)"

definition checked :: "(nat \<Rightarrow> bool) \<Rightarrow> ('v \<Rightarrow> 'x \<Rightarrow> 'v res) \<Rightarrow> 'v \<Rightarrow> nat \<times> 'x \<Rightarrow> 'v res" where
  "checked cancelled f v = (\<lambda>(n, x). if cancelled n then Inl ExecutionCancelled else f v x)"

definition count_column :: "nat \<Rightarrow> string" where
  "count_column i = ''__partial_'' @ show_nat i @ ''_count''"

definition value_column :: "nat \<Rightarrow> string" where
  "value_column i = ''__partial_'' @ show_nat i @ ''_value''"

definition partial_output :: "py_runtime \<Rightarrow> expr list \<Rightarrow> group_key \<times> partial_state list \<Rightarrow> row" where
  "partial_output rt group_by = (\<lambda>(k, sts). map_of (rev
     (zip (map (expr_sql rt) group_by) k
      @ concat (map (\<lambda>(i, st). [(count_column i, VInt (pt_count st)), (value_column i, pt_value st)])
          (enumerate 0 sts)))))"

definition partial_schema :: "py_runtime \<Rightarrow> expr list \<Rightarrow> named_expression list \<Rightarrow> schema res" where
  "partial_schema rt group_by aggs = make_schema
     (map (sql_field rt False) group_by
      @ concat (map (\<lambda>(i, item). [plain_field (count_column i) T_INT64 False,
            plain_field (value_column i)
              (if agg_name item = ''count'' then T_INT64 else ti_type (expr_type (ne_expression item))) True])
          (enumerate 0 aggs))) []"

definition partial_aggregate ::
    "env \<Rightarrow> expr list \<Rightarrow> named_expression list \<Rightarrow> (nat \<Rightarrow> bool) \<Rightarrow> row list \<Rightarrow> batch res" where
  "partial_aggregate ev group_by aggs cancelled rows =
     bindR (foldR (checked cancelled (partial_row (rt_of ev) group_by aggs)) (start_groups group_by aggs)
              (enumerate 0 rows)) (\<lambda>groups.
     bindR (partial_schema (rt_of ev) group_by aggs) (\<lambda>s.
       make_batch ev s (map (partial_output (rt_of ev) group_by) groups)))"

section \<open>Their merge\<close>

definition final_states ::
    "py_runtime \<Rightarrow> named_expression list \<Rightarrow> row \<Rightarrow> partial_state list \<Rightarrow> partial_state list res" where
  "final_states rt aggs row sts = mapR (\<lambda>(i, item, st).
     bindR (row_or PyKeyError row (count_column i)) (\<lambda>n.
     bindR (row_or PyKeyError row (value_column i)) (\<lambda>v.
     bindR (some_or PyTypeError (int_of n)) (\<lambda>k. final_add rt (agg_name item) st k v))))
     (enumerate 0 (zip aggs sts))"

text \<open>\<open>row.get(expression.sql())\<close>.\<close>

definition final_key :: "py_runtime \<Rightarrow> expr list \<Rightarrow> row \<Rightarrow> group_key" where
  "final_key rt group_by row =
     map (\<lambda>e. case row (expr_sql rt e) of None \<Rightarrow> VNull | Some v \<Rightarrow> v) group_by"

definition final_row ::
    "py_runtime \<Rightarrow> expr list \<Rightarrow> named_expression list \<Rightarrow> partial_groups \<Rightarrow> row \<Rightarrow> partial_groups res" where
  "final_row rt group_by aggs groups row =
     update_group (final_key rt group_by row) (new_partial_states aggs) (final_states rt aggs row) groups"

definition final_output ::
    "py_runtime \<Rightarrow> expr list \<Rightarrow> named_expression list \<Rightarrow> group_key \<times> partial_state list \<Rightarrow> row res" where
  "final_output rt group_by aggs = (\<lambda>(k, sts).
     bindR (mapR (\<lambda>(item, st). finish_partial rt (agg_name item) st) (zip aggs sts)) (\<lambda>vals. Inr (map_of (rev
       (zip (map (expr_sql rt) group_by) k
        @ zip (map (\<lambda>item. expr_sql rt (ne_expression item)) aggs) vals)))))"

definition final_aggregate ::
    "env \<Rightarrow> expr list \<Rightarrow> named_expression list \<Rightarrow> (nat \<Rightarrow> bool) \<Rightarrow> row list \<Rightarrow> batch res" where
  "final_aggregate ev group_by aggs cancelled rows =
     bindR (foldR (checked cancelled (final_row (rt_of ev) group_by aggs)) (start_groups group_by aggs)
              (enumerate 0 rows)) (\<lambda>groups.
     bindR (mapR (final_output (rt_of ev) group_by aggs) groups) (\<lambda>outs.
     bindR (schema_for_aggregate (rt_of ev) group_by aggs) (\<lambda>s. make_batch ev s outs)))"

section \<open>Tasks on partitions\<close>

text \<open>
  \<open>_unary_runner\<close>: the operator over the batches of the partition's table, whose schema is \<open>schema0\<close>.
\<close>

definition task_operator ::
    "env \<Rightarrow> string \<Rightarrow> schema \<Rightarrow> batch list \<Rightarrow> plan \<Rightarrow> unit batches res" where
  "task_operator ev frame schema0 bs p =
     (let source = source_op (node_id p @ ''-input'') bs; rt = rt_of ev in
      case p of
        Project i q es s \<Rightarrow> Inr (project_op ev i es s source)
      | Filter i q e s ph \<Rightarrow> Inr (filter_op ev i e source)
      | Limit i q k s \<Rightarrow> make_limit_op i k source
      | Order i q os s \<Rightarrow> Inr (order_op ev (in_memory_sort ev) i frame os schema0 source)
      | Aggregate i q gs as s \<Rightarrow> bindR (schema_for_aggregate rt gs as) (\<lambda>out.
          Inr (if gs \<noteq> [] then sort_aggregate_op ev i frame gs as schema0 out source
               else hash_aggregate_op ev i gs as out source))
      | GroupingSets i q gs as s \<Rightarrow> bindR (schema_for_grouping_sets rt gs as) (\<lambda>out.
          Inr (grouping_sets_op ev i gs as out source))
      | Window i q es s \<Rightarrow> Inr (window_op ev (in_memory_sort ev) i es (schema_for_window rt schema0 es) source)
      | _ \<Rightarrow> Inl PyValueError)"

definition join_task :: "env \<Rightarrow> string \<Rightarrow> batch list \<Rightarrow> batch list \<Rightarrow> plan \<Rightarrow> unit batches res" where
  "join_task ev frame left right p = (case p of
       Join i l r jt c s inlim b \<Rightarrow>
         bindR (hash_join_keys l r c) (\<lambda>(lks, rks).
         bindR (make_hash_join lks rks jt s (runtime_names (rt_of ev) l) (runtime_names (rt_of ev) r) b None) (\<lambda>j.
           Inr (hash_join_op ev i frame j (source_op ''left-input'' left) (source_op ''right-input'' right))))
     | _ \<Rightarrow> Inl PyValueError)"

text \<open>Which partitions the tasks of a join get: a side with one partition goes to every task.\<close>

definition join_partitions :: "'t list \<Rightarrow> 't list \<Rightarrow> ('t \<times> 't) list res" where
  "join_partitions left right =
     (let n = max (length left) (length right) in
      if length left \<notin> {1, n} \<or> length right \<notin> {1, n} then Inl PyValueError
      else Inr (map (\<lambda>i. (if length left = 1 then left ! 0 else left ! i,
                          if length right = 1 then right ! 0 else right ! i)) [0..<n]))"

text \<open>\<open>wire\<close> is the filter that \<open>from_bytes\<close> makes of \<open>to_bytes\<close>.\<close>

definition distributed_runtime_filter ::
    "env \<Rightarrow> (runtime_filter \<Rightarrow> runtime_filter res) \<Rightarrow> row list list \<Rightarrow> expr list \<Rightarrow> runtime_filter res" where
  "distributed_runtime_filter ev wire parts es =
     bindR (create_filter ev (length es) (max (int (sum_list (map length parts))) 1)) (\<lambda>f.
     bindR (foldR (\<lambda>f row. bindR (mapR (evaluate (rt_of ev) row) es) (filter_add ev f)) f (concat parts)) wire)"

end
