(* ===== verification/DistributedLaws.thy ===== *)
theory DistributedLaws
  imports Distributed OperatorLaws CostLaws
begin

text \<open>
  Aggregating the partitions and merging the partial results is aggregating all rows at once.
\<close>

section \<open>Grouping\<close>

lemma first_keys_subset: "set (first_keys ks) \<subseteq> set ks"
  by (induction ks rule: rev_induct) (auto simp: first_keys_snoc add_key_def first_keys_def)

lemma add_keys_covers: "list_ex (\<lambda>k'. key_eq k' k) (foldl add_key acc ks) \<longleftrightarrow>
    list_ex (\<lambda>k'. key_eq k' k) acc \<or> (\<exists>k' \<in> set ks. key_eq k' k)"
proof (induction ks rule: rev_induct)
  case (snoc x ks)
  have "key_eq x k \<Longrightarrow> key_eq k' x \<Longrightarrow> key_eq k' k" for k' by (rule key_eq_trans)
  then show ?case using snoc by (auto simp: add_key_def list_ex_iff)
qed simp

lemma add_first_keys: "foldl add_key acc (first_keys ks) = foldl add_key acc ks"
proof (induction ks rule: rev_induct)
  case (snoc k ks)
  show ?case
  proof (cases "list_ex (\<lambda>k'. key_eq k' k) (first_keys ks)")
    case True
    then obtain k' where "k' \<in> set ks" "key_eq k' k" using first_keys_subset by (auto simp: list_ex_iff)
    then have "list_ex (\<lambda>k'. key_eq k' k) (foldl add_key acc ks)" using add_keys_covers by blast
    then have "add_key (foldl add_key acc ks) k = foldl add_key acc ks" by (simp add: add_key_def)
    moreover have "add_key (first_keys ks) k = first_keys ks" using True by (simp add: add_key_def)
    ultimately show ?thesis using snoc by (simp add: first_keys_snoc)
  next
    case False
    then have "add_key (first_keys ks) k = first_keys ks @ [k]" by (simp add: add_key_def)
    then show ?thesis using snoc by (simp add: first_keys_snoc)
  qed
qed (simp add: first_keys_def)

lemma first_keys_concat: "first_keys (concat (map first_keys kss)) = first_keys (concat kss)"
proof -
  have "foldl add_key acc (concat (map first_keys kss)) = foldl add_key acc (concat kss)" for acc
    by (induction kss arbitrary: acc) (simp_all add: add_first_keys)
  then show ?thesis by (simp add: first_keys_def)
qed

lemma update_group_old:
  assumes "keys_apart ks" and "list_ex (\<lambda>k'. key_eq k' k) ks"
    and "\<And>k'. k' \<in> set ks \<Longrightarrow> key_eq k' k \<Longrightarrow> f (S k') = Inr (S' k')"
    and "\<And>k'. k' \<in> set ks \<Longrightarrow> \<not> key_eq k' k \<Longrightarrow> S' k' = S k'"
  shows "update_group k fresh f (map (\<lambda>k'. (k', S k')) ks) = Inr (map (\<lambda>k'. (k', S' k')) ks)"
  using assms
proof (induction ks)
  case (Cons a ks)
  show ?case
  proof (cases "key_eq a k")
    case True
    have "\<not> key_eq k' k" if "k' \<in> set ks" for k'
      using Cons.prems(1) that key_eq_trans [OF True] key_eq_sym by (auto simp: keys_apart_def)
    then show ?thesis using True Cons.prems(3,4) by simp
  next
    case False
    then show ?thesis using Cons by (simp add: keys_apart_def)
  qed
qed simp

lemma update_group_new:
  assumes "\<not> list_ex (\<lambda>k'. key_eq k' k) ks" and "f fresh = Inr s"
  shows "update_group k fresh f (map (\<lambda>k'. (k', S k')) ks) = Inr (map (\<lambda>k'. (k', S k')) ks @ [(k, s)])"
  using assms by (induction ks) auto

lemma mset_snoc_subset: "mset (ys @ [x]) \<subseteq># mset xs \<Longrightarrow> set ys \<subseteq> set xs \<and> x \<in> set xs"
  using set_mset_mono [of "mset (ys @ [x])" "mset xs"] by simp

lemma mset_snoc_mono: "A \<subseteq># mset xs \<Longrightarrow> A \<subseteq># mset (xs @ [x])"
  by (metis mset_append mset_subset_eq_add_left subset_mset.order_trans)

text \<open>
  A loop that updates the group of each element's key leaves one group per key, in order of first
  occurrence, with the state that the elements of the key lead to.
\<close>

lemma grouping:
  assumes "\<forall>x \<in> set xs. key_eq (gk x) (gk x)"
    and "\<And>ys x. mset (ys @ [x]) \<subseteq># mset xs \<Longrightarrow> f x (T ys) = Inr (T (ys @ [x]))"
  shows "foldR (\<lambda>gs x. update_group (gk x) (T []) (f x) gs) [] xs
    = Inr (map (\<lambda>k. (k, T (filter (\<lambda>x. key_eq k (gk x)) xs))) (first_keys (map gk xs)))"
  using assms
proof (induction xs rule: rev_induct)
  case (snoc x xs)
  let ?S = "\<lambda>xs k. T (filter (\<lambda>x. key_eq k (gk x)) xs)" and ?ks = "first_keys (map gk xs)"
  have IH: "foldR (\<lambda>gs x. update_group (gk x) (T []) (f x) gs) [] xs = Inr (map (\<lambda>k. (k, ?S xs k)) ?ks)"
  proof (rule snoc.IH)
    show "f z (T ys) = Inr (T (ys @ [z]))" if "mset (ys @ [z]) \<subseteq># mset xs" for ys z
      by (rule snoc.prems(2) [OF mset_snoc_mono [OF that]])
  qed (use snoc.prems(1) in simp)
  have f: "f x (?S xs k) = Inr (T (filter (\<lambda>x. key_eq k (gk x)) xs @ [x]))" for k
    by (rule snoc.prems(2)) (simp add: multiset_filter_subset)
  show ?case
  proof (cases "list_ex (\<lambda>k'. key_eq k' (gk x)) ?ks")
    case True
    have "update_group (gk x) (T []) (f x) (map (\<lambda>k. (k, ?S xs k)) ?ks)
        = Inr (map (\<lambda>k. (k, ?S (xs @ [x]) k)) ?ks)"
      by (rule update_group_old [OF keys_apart_first True]) (simp_all add: f)
    moreover have "first_keys (map gk (xs @ [x])) = ?ks" using True by (simp add: first_keys_snoc add_key_def)
    ultimately show ?thesis using IH by (simp only: foldR_append foldR.simps bindR_simps bindR_Inr_id)
  next
    case False
    have none: "\<not> key_eq k (gk x)" if mem: "k \<in> set (map gk xs)" for k
    proof
      assume eq: "key_eq k (gk x)"
      obtain k' where "k' \<in> set ?ks" "key_eq k' k" using first_keys_cover [OF mem] snoc.prems(1) mem by auto
      then show False using False key_eq_trans [OF _ eq] by (auto simp: list_ex_iff)
    qed
    have empty: "filter (\<lambda>y. key_eq (gk x) (gk y)) xs = []"
      unfolding filter_empty_conv using none key_eq_sym [of "gk x"] by simp
    have "update_group (gk x) (T []) (f x) (map (\<lambda>k. (k, ?S xs k)) ?ks)
        = Inr (map (\<lambda>k. (k, ?S xs k)) ?ks @ [(gk x, T [x])])"
      using f [of "gk x"] by (intro update_group_new [OF False]) (simp add: empty)
    moreover have "first_keys (map gk (xs @ [x])) = ?ks @ [gk x]" using False by (simp add: first_keys_snoc add_key_def)
    moreover have "map (\<lambda>k. (k, ?S (xs @ [x]) k)) (?ks @ [gk x]) = map (\<lambda>k. (k, ?S xs k)) ?ks @ [(gk x, T [x])]"
      using False snoc.prems(1) empty by (auto simp: list_ex_iff)
    ultimately show ?thesis using IH by (simp only: foldR_append foldR.simps bindR_simps bindR_Inr_id)
  qed
qed (simp add: first_keys_def)

text \<open>Without keys there is one group from the start.\<close>

lemma one_group:
  assumes "\<And>ys x. mset (ys @ [x]) \<subseteq># mset xs \<Longrightarrow> f x (T ys) = Inr (T (ys @ [x]))" and "\<forall>x \<in> set xs. gk x = []"
  shows "foldR (\<lambda>gs x. update_group (gk x) (T []) (f x) gs) [([], T [])] xs = Inr [([], T xs)]"
  using assms
proof (induction xs rule: rev_induct)
  case (snoc x xs)
  have "foldR (\<lambda>gs x. update_group (gk x) (T []) (f x) gs) [([], T [])] xs = Inr [([], T xs)]"
  proof (rule snoc.IH)
    show "f z (T ys) = Inr (T (ys @ [z]))" if "mset (ys @ [z]) \<subseteq># mset xs" for ys z
      by (rule snoc.prems(1) [OF mset_snoc_mono [OF that]])
  qed (use snoc.prems(2) in simp)
  moreover have "f x (T xs) = Inr (T (xs @ [x]))" by (rule snoc.prems(1)) auto
  ultimately show ?case using snoc.prems(2) by (simp add: foldR_append key_eq_def)
qed simp

section \<open>The algebra of partial states\<close>

definition additive :: "string \<Rightarrow> bool" where
  "additive name \<longleftrightarrow> name \<in> {''sum'', ''avg''}"

definition extremal :: "string \<Rightarrow> bool" where
  "extremal name \<longleftrightarrow> name \<in> {''min'', ''max''}"

lemma extremal_not_additive [simp]: "extremal name \<Longrightarrow> \<not> additive name"
  by (auto simp: additive_def extremal_def)

lemma partial_add_cases:
  "partial_add rt name st v = (if v = VNull then Inr st
     else bindR (if additive name then add_numbers rt (pt_value st) v
                 else if extremal name then best_value name (pt_value st) v
                 else Inr (pt_value st)) (\<lambda>w. Inr \<lparr>pt_count = pt_count st + 1, pt_value = w\<rparr>))"
  unfolding partial_add_def additive_def extremal_def ..

lemma final_add_cases:
  "final_add rt name st n v =
     bindR (if additive name then add_numbers rt (pt_value st) v
            else if extremal name \<and> v \<noteq> VNull then best_value name (pt_value st) v
            else Inr (pt_value st)) (\<lambda>w. Inr \<lparr>pt_count = pt_count st + n, pt_value = w\<rparr>)"
  unfolding final_add_def additive_def extremal_def ..

definition vless :: "sql_value \<Rightarrow> sql_value \<Rightarrow> bool" where
  "vless a b = (case (vkey a, vkey b) of (Some k, Some l) \<Rightarrow> k < l | _ \<Rightarrow> False)"

definition plus_value :: "sql_value \<Rightarrow> sql_value \<Rightarrow> sql_value" where
  "plus_value a b = (if b = VNull then a else case (a, b) of (VInt i, VInt j) \<Rightarrow> VInt (i + j) | _ \<Rightarrow> b)"

definition pick_value :: "string \<Rightarrow> sql_value \<Rightarrow> sql_value \<Rightarrow> sql_value" where
  "pick_value name a b = (if b = VNull then a else if a = VNull then b
     else if (if name = ''min'' then vless b a else vless a b) then b else a)"

definition combine :: "string \<Rightarrow> partial_state \<Rightarrow> partial_state \<Rightarrow> partial_state" where
  "combine name a b = \<lparr>pt_count = pt_count a + pt_count b,
     pt_value = (if additive name then plus_value (pt_value a) (pt_value b)
                 else if extremal name then pick_value name (pt_value a) (pt_value b)
                 else pt_value a)\<rparr>"

definition single :: "string \<Rightarrow> sql_value \<Rightarrow> partial_state" where
  "single name v = (if v = VNull then new_partial
     else \<lparr>pt_count = 1, pt_value = (if additive name \<or> extremal name then v else VNull)\<rparr>)"

definition summary :: "string \<Rightarrow> sql_value list \<Rightarrow> partial_state" where
  "summary name vs = foldl (\<lambda>s v. combine name s (single name v)) new_partial vs"

text \<open>The values an aggregate may be fed, and the states they lead to; \<open>c\<close> is the class of the values.\<close>

definition value_fits :: "string \<Rightarrow> nat \<Rightarrow> sql_value \<Rightarrow> bool" where
  "value_fits name c v \<longleftrightarrow> (additive name \<longrightarrow> (\<exists>i. v = VInt i))
     \<and> (extremal name \<longrightarrow> v = VNull \<or> \<not> is_nan v \<and> kind v = c)"

definition fitting :: "string \<Rightarrow> nat \<Rightarrow> partial_state \<Rightarrow> bool" where
  "fitting name c s \<longleftrightarrow> (if additive name then pt_value s = VNull \<or> (\<exists>i. pt_value s = VInt i)
     else if extremal name then pt_value s = VNull \<or> \<not> is_nan (pt_value s) \<and> kind (pt_value s) = c
     else pt_value s = VNull)"

lemma fitting_new [simp]: "fitting name c new_partial"
  by (simp add: fitting_def new_partial_def)

lemma fitting_single: "value_fits name c v \<Longrightarrow> fitting name c (single name v)"
  by (auto simp: fitting_def value_fits_def single_def new_partial_def)

lemma fitting_combine: "fitting name c a \<Longrightarrow> fitting name c b \<Longrightarrow> fitting name c (combine name a b)"
  by (auto simp: fitting_def combine_def plus_value_def pick_value_def split: if_splits)

lemma combine_new [simp]:
  "fitting name c s \<Longrightarrow> combine name new_partial s = s" "combine name s new_partial = s"
  by (auto simp: fitting_def combine_def new_partial_def plus_value_def pick_value_def split: sql_value.split)

lemma pick_value_assoc:
  "pick_value name (pick_value name a b) c = pick_value name a (pick_value name b c)"
  if "\<not> is_nan a" "\<not> is_nan b" "\<not> is_nan c"
proof -
  have key: "v = VNull \<or> (\<exists>k. vkey v = Some k)" if "\<not> is_nan v" for v using vkey_None [of v] that by (cases "vkey v") auto
  show ?thesis
    using key [OF that(1)] key [OF that(2)] key [OF that(3)]
    by (auto simp: pick_value_def vless_def)
qed

lemma combine_assoc:
  assumes "fitting name n a" and "fitting name n b" and "fitting name n c"
  shows "combine name (combine name a b) c = combine name a (combine name b c)"
proof -
  have "\<not> is_nan (pt_value s)" if "fitting name n s" for s
    using that by (auto simp: fitting_def is_nan_def split: if_splits)
  then have pick: "pick_value name (pick_value name (pt_value a) (pt_value b)) (pt_value c)
      = pick_value name (pt_value a) (pick_value name (pt_value b) (pt_value c))"
    using assms by (intro pick_value_assoc)
  show ?thesis
  proof (cases "additive name")
    case True
    then show ?thesis using assms by (auto simp: combine_def fitting_def plus_value_def)
  next
    case False
    then show ?thesis using pick by (simp add: combine_def)
  qed
qed

lemma summary_snoc: "summary name (vs @ [v]) = combine name (summary name vs) (single name v)"
  by (simp add: summary_def)

lemma summary_Nil [simp]: "summary name [] = new_partial"
  by (simp add: summary_def)

lemma fitting_summary: "list_all (value_fits name c) vs \<Longrightarrow> fitting name c (summary name vs)"
  by (induction vs rule: rev_induct) (simp_all add: summary_snoc fitting_combine fitting_single)

lemma summary_append:
  "list_all (value_fits name c) us \<Longrightarrow> list_all (value_fits name c) vs
    \<Longrightarrow> summary name (us @ vs) = combine name (summary name us) (summary name vs)"
proof (induction vs rule: rev_induct)
  case (snoc v vs)
  then have "fitting name c (summary name us)" "fitting name c (summary name vs)" "fitting name c (single name v)"
    by (simp_all add: fitting_summary fitting_single)
  then show ?case
    using snoc by (simp add: summary_snoc append_assoc [symmetric] combine_assoc del: append_assoc)
qed simp

lemma best_value_pick:
  assumes "a = VNull \<or> \<not> is_nan a \<and> kind a = c" and "b \<noteq> VNull" and "\<not> is_nan b" and "kind b = c"
    and "extremal name"
  shows "best_value name a b = Inr (pick_value name a b)"
proof (cases "a = VNull")
  case False
  then obtain k l where kl: "vkey a = Some k" "vkey b = Some l"
    using assms vkey_None [of a] vkey_None [of b] by (cases "vkey a"; cases "vkey b") auto
  then have "py_lt a b = Inr (vless a b)" "py_lt b a = Inr (vless b a)"
    using py_lt_vkey [OF kl] py_lt_vkey [OF kl(2,1)] assms False by (auto simp: vless_def)
  then show ?thesis using False assms(2) by (auto simp: best_value_def pick_value_def)
qed (use assms in \<open>simp add: best_value_def pick_value_def\<close>)

lemma add_numbers_plus:
  "a = VNull \<or> (\<exists>i. a = VInt i) \<Longrightarrow> b = VInt j \<Longrightarrow> add_numbers rt a b = Inr (plus_value a b)"
  by (auto simp: add_numbers_def plus_value_def)

lemma partial_add_combine:
  assumes "fitting name c st" and "value_fits name c v"
  shows "partial_add rt name st v = Inr (combine name st (single name v))"
proof (cases "v = VNull")
  case True
  then show ?thesis by (simp add: partial_add_cases single_def)
next
  case False
  consider "additive name" | "extremal name"
    | "\<not> additive name \<and> \<not> extremal name" by blast
  then show ?thesis
  proof cases
    case 1
    then obtain j where "v = VInt j" using assms(2) by (auto simp: value_fits_def)
    moreover have "pt_value st = VNull \<or> (\<exists>i. pt_value st = VInt i)" using assms(1) 1 by (auto simp: fitting_def)
    ultimately show ?thesis
      using 1 add_numbers_plus [of "pt_value st" v j rt] by (auto simp: partial_add_cases combine_def single_def)
  next
    case 2
    have "best_value name (pt_value st) v = Inr (pick_value name (pt_value st) v)"
      by (rule best_value_pick [where c = c]) (use assms 2 False in \<open>auto simp: fitting_def value_fits_def\<close>)
    then show ?thesis using 2 False by (auto simp: partial_add_cases combine_def single_def)
  next
    case 3
    then show ?thesis using False by (simp add: partial_add_cases combine_def single_def)
  qed
qed

lemma final_add_combine:
  assumes "fitting name c st" and "fitting name c t" and "additive name \<Longrightarrow> pt_value t \<noteq> VNull"
  shows "final_add rt name st (pt_count t) (pt_value t) = Inr (combine name st t)"
proof -
  consider "additive name" | "extremal name"
    | "\<not> additive name \<and> \<not> extremal name" by blast
  then show ?thesis
  proof cases
    case 1
    then obtain j where "pt_value t = VInt j" using assms(2,3) by (auto simp: fitting_def)
    moreover have "pt_value st = VNull \<or> (\<exists>i. pt_value st = VInt i)" using assms(1) 1 by (auto simp: fitting_def)
    ultimately show ?thesis
      using 1 add_numbers_plus [of "pt_value st" "pt_value t" j rt] by (auto simp: final_add_cases combine_def)
  next
    case 2
    show ?thesis
    proof (cases "pt_value t = VNull")
      case True
      then show ?thesis using 2 by (auto simp: final_add_cases combine_def pick_value_def)
    next
      case False
      have "best_value name (pt_value st) (pt_value t) = Inr (pick_value name (pt_value st) (pt_value t))"
        by (rule best_value_pick [where c = c]) (use assms 2 False in \<open>auto simp: fitting_def\<close>)
      then show ?thesis using 2 False by (auto simp: final_add_cases combine_def)
    qed
  next
    case 3
    then show ?thesis by (simp add: final_add_cases combine_def)
  qed
qed

section \<open>The groups of a partition\<close>

text \<open>The value of an aggregate's argument, and the states that the rows \<open>rs\<close> lead to.\<close>

definition arg_value :: "py_runtime \<Rightarrow> named_expression \<Rightarrow> row \<Rightarrow> sql_value" where
  "arg_value rt item r = (case agg_argument rt r item of Inl _ \<Rightarrow> VNull | Inr v \<Rightarrow> v)"

definition states_for :: "py_runtime \<Rightarrow> named_expression list \<Rightarrow> row list \<Rightarrow> partial_state list" where
  "states_for rt aggs rs = map (\<lambda>item. summary (agg_name item) (map (arg_value rt item) rs)) aggs"

definition key_rows :: "py_runtime \<Rightarrow> expr list \<Rightarrow> row list \<Rightarrow> group_key \<Rightarrow> row list" where
  "key_rows rt group_by rows k = filter (\<lambda>r. key_eq k (the_key rt group_by r)) rows"

definition keys_of :: "py_runtime \<Rightarrow> expr list \<Rightarrow> row list \<Rightarrow> group_key list" where
  "keys_of rt group_by rows = (if group_by = [] then [[]] else first_keys (map (the_key rt group_by) rows))"

definition row_groups :: "py_runtime \<Rightarrow> expr list \<Rightarrow> row list \<Rightarrow> (group_key \<times> row list) list" where
  "row_groups rt group_by rows = map (\<lambda>k. (k, key_rows rt group_by rows k)) (keys_of rt group_by rows)"

abbreviation with_states ::
    "py_runtime \<Rightarrow> named_expression list \<Rightarrow> (group_key \<times> row list) list \<Rightarrow> partial_groups" where
  "with_states rt aggs gs \<equiv> map (\<lambda>(k, rs). (k, states_for rt aggs rs)) gs"

text \<open>
  Rows whose keys evaluate to values other than \<open>nan\<close>, and whose aggregated values exist and fit
  their function.
\<close>

definition aggregatable :: "py_runtime \<Rightarrow> expr list \<Rightarrow> named_expression list \<Rightarrow> row set \<Rightarrow> bool" where
  "aggregatable rt group_by aggs R \<longleftrightarrow>
     (\<forall>r \<in> R. \<exists>k. row_key rt group_by r = Inr k \<and> list_all (\<lambda>v. \<not> is_nan v) k)
     \<and> (\<forall>item \<in> set aggs. \<exists>c. \<forall>r \<in> R. \<exists>v. agg_argument rt r item = Inr v \<and> value_fits (agg_name item) c v)"

lemma aggregatable_subset: "aggregatable rt group_by aggs R \<Longrightarrow> S \<subseteq> R \<Longrightarrow> aggregatable rt group_by aggs S"
  unfolding aggregatable_def by (meson subsetD)

lemma aggregatable_key:
  assumes "aggregatable rt group_by aggs R" and "r \<in> R"
  shows "row_key rt group_by r = Inr (the_key rt group_by r)"
    and "key_eq (the_key rt group_by r) (the_key rt group_by r)"
proof -
  obtain k where k: "row_key rt group_by r = Inr k" "list_all (\<lambda>v. \<not> is_nan v) k"
    using assms by (auto simp: aggregatable_def)
  have "the_key rt group_by r = k"
    using k(1) unfolding row_key_def the_key_def mapR_Inr_iff list_all2_conv_all_nth
    by (intro nth_equalityI) (auto simp: order_value_def)
  then show "row_key rt group_by r = Inr (the_key rt group_by r)"
    and "key_eq (the_key rt group_by r) (the_key rt group_by r)" using k key_eq_refl by simp_all
qed

lemma aggregatable_value:
  assumes "aggregatable rt group_by aggs R" and "item \<in> set aggs"
  obtains c where "\<And>r. r \<in> R \<Longrightarrow> agg_argument rt r item = Inr (arg_value rt item r)"
    and "\<And>rs. set rs \<subseteq> R \<Longrightarrow> list_all (value_fits (agg_name item) c) (map (arg_value rt item) rs)"
proof -
  obtain c where c: "\<forall>r \<in> R. \<exists>v. agg_argument rt r item = Inr v \<and> value_fits (agg_name item) c v"
    using assms by (auto simp: aggregatable_def)
  show ?thesis using that [of c] c by (force simp: arg_value_def list_all_iff)
qed

lemma mapR_on_map: "mapR h (map k xs) = mapR (\<lambda>x. h (k x)) xs"
  by (induction xs) auto

lemma mapR_zip_map: "mapR f (zip xs (map g xs)) = mapR (\<lambda>x. f (x, g x)) xs"
  by (induction xs) auto

lemma foldR_checked: "foldR (checked (\<lambda>_. False) f) s (enumerate n xs) = foldR f s xs"
  by (induction xs arbitrary: s n) (simp_all add: checked_def)

lemma states_for_Nil: "states_for rt aggs [] = new_partial_states aggs"
  by (simp add: states_for_def new_partial_states_def)

lemma partial_states_step:
  assumes "aggregatable rt group_by aggs R" and "set ys \<subseteq> R" and "x \<in> R"
  shows "partial_states rt aggs x (states_for rt aggs ys) = Inr (states_for rt aggs (ys @ [x]))"
  unfolding partial_states_def states_for_def mapR_zip_map
proof (rule mapR_total)
  fix item
  assume item: "item \<in> set aggs"
  obtain c where c: "\<And>r. r \<in> R \<Longrightarrow> agg_argument rt r item = Inr (arg_value rt item r)"
      "\<And>rs. set rs \<subseteq> R \<Longrightarrow> list_all (value_fits (agg_name item) c) (map (arg_value rt item) rs)"
    using aggregatable_value [OF assms(1) item] by metis
  have "value_fits (agg_name item) c (arg_value rt item x)" using c(2) [of "[x]"] assms(3) by simp
  then show "(case (item, summary (agg_name item) (map (arg_value rt item) ys)) of
      (item, st) \<Rightarrow> bindR (agg_argument rt x item) (partial_add rt (agg_name item) st))
    = Inr (summary (agg_name item) (map (arg_value rt item) (ys @ [x])))"
    using c(1) [OF assms(3)] partial_add_combine [OF fitting_summary [OF c(2) [OF assms(2)]]]
    by (simp add: summary_snoc)
qed

lemma partial_fold:
  assumes agg: "aggregatable rt group_by aggs (set rows)"
  shows "foldR (partial_row rt group_by aggs) (start_groups group_by aggs) rows
    = Inr (with_states rt aggs (row_groups rt group_by rows))"
proof -
  let ?f = "\<lambda>gs x. update_group (the_key rt group_by x) (states_for rt aggs []) (partial_states rt aggs x) gs"
  have step: "partial_states rt aggs x (states_for rt aggs ys) = Inr (states_for rt aggs (ys @ [x]))"
    if "mset (ys @ [x]) \<subseteq># mset rows" for ys x
    using partial_states_step [OF agg] mset_snoc_subset [OF that] by blast
  have "foldR (partial_row rt group_by aggs) s rows = foldR ?f s rows" for s
    using aggregatable_key(1) [OF agg] by (intro foldR_cong) (simp_all add: partial_row_def states_for_Nil)
  moreover have "foldR ?f (start_groups group_by aggs) rows = Inr (with_states rt aggs (row_groups rt group_by rows))"
  proof (cases "group_by = []")
    case True
    have "foldR ?f [([], states_for rt aggs [])] rows = Inr [([], states_for rt aggs rows)]"
      using True by (intro one_group step) (simp_all add: the_key_def)
    then show ?thesis
      using True by (simp add: start_groups_def states_for_Nil row_groups_def keys_of_def key_rows_def the_key_def key_eq_def)
  next
    case False
    have "foldR ?f [] rows = Inr (map (\<lambda>k. (k, states_for rt aggs (key_rows rt group_by rows k)))
        (first_keys (map (the_key rt group_by) rows)))"
      unfolding key_rows_def
      by (intro grouping ballI aggregatable_key(2) [OF agg] step)
    then show ?thesis using False by (simp add: start_groups_def row_groups_def keys_of_def)
  qed
  ultimately show ?thesis by simp
qed

section \<open>Aggregating all rows at once\<close>

lemma summary_count: "fitting name c s \<Longrightarrow> pt_count (combine name s (single name v)) = pt_count s + (if v = VNull then 0 else 1)"
  by (simp add: combine_def single_def new_partial_def)

text \<open>The state of the one-phase aggregate that corresponds to a summary.\<close>

definition agg_matches :: "string \<Rightarrow> partial_state \<Rightarrow> agg_state \<Rightarrow> bool" where
  "agg_matches name s st \<longleftrightarrow> as_count st = pt_count s \<and> 0 \<le> pt_count s
     \<and> (additive name \<longrightarrow> (if pt_value s = VNull then as_total st = VInt 0 \<and> pt_count s = 0
          else as_total st = pt_value s \<and> pt_count s \<noteq> 0))
     \<and> (extremal name \<longrightarrow> as_value st = pt_value s \<and> (pt_count s = 0 \<longrightarrow> pt_value s = VNull))"

lemma agg_update_cases:
  "agg_update rt name v st =
     (if additive name then bindR (numeric_operation rt (as_total st) v ADD) (\<lambda>t. Inr (st\<lparr>as_total := t\<rparr>))
      else if extremal name then bindR (best_value name (as_value st) v) (\<lambda>w. Inr (st\<lparr>as_value := w\<rparr>))
      else Inr st)"
proof -
  have same: "st\<lparr>as_value := as_value st\<rparr> = st" by simp
  consider "additive name" | "name = ''min''" | "name = ''max''" | "\<not> additive name \<and> \<not> extremal name"
    by (auto simp: extremal_def)
  then show ?thesis
  proof cases
    case 1
    then show ?thesis by (simp add: agg_update_def additive_def)
  next
    case 2
    then show ?thesis
      by (cases "as_value st = VNull"; cases "py_lt v (as_value st)")
        (simp_all add: agg_update_def additive_def extremal_def best_value_def same)
  next
    case 3
    then show ?thesis
      by (cases "as_value st = VNull"; cases "py_lt (as_value st) v")
        (simp_all add: agg_update_def additive_def extremal_def best_value_def same)
  next
    case 4
    then show ?thesis by (simp add: agg_update_def additive_def extremal_def)
  qed
qed

lemma agg_update_matches:
  assumes "agg_matches name s st" and "fitting name c s" and "value_fits name c v" and "v \<noteq> VNull"
  shows "\<exists>st'. agg_update rt name v (st\<lparr>as_count := as_count st + 1\<rparr>) = Inr st'
    \<and> as_function st' = as_function st \<and> as_distinct st' = as_distinct st
    \<and> agg_matches name (combine name s (single name v)) st'"
proof -
  consider "additive name" | "extremal name" | "\<not> additive name \<and> \<not> extremal name" by blast
  then show ?thesis
  proof cases
    case 1
    then obtain j where j: "v = VInt j" using assms(3) by (auto simp: value_fits_def)
    have no: "\<not> extremal name" using 1 extremal_not_additive by blast
    have "pt_value s = VNull \<or> (\<exists>i. pt_value s = VInt i)" using assms(2) 1 by (auto simp: fitting_def)
    then show ?thesis
    proof (elim disjE exE)
      assume "pt_value s = VNull"
      then show ?thesis using 1 no assms(1) j
        by (simp add: agg_update_cases agg_matches_def combine_def single_def plus_value_def)
    next
      fix i
      assume "pt_value s = VInt i"
      then show ?thesis using 1 no assms(1) j
        by (simp add: agg_update_cases agg_matches_def combine_def single_def plus_value_def)
    qed
  next
    case 2
    have "best_value name (pt_value s) v = Inr (pick_value name (pt_value s) v)"
      by (rule best_value_pick [where c = c]) (use assms 2 in \<open>auto simp: fitting_def value_fits_def\<close>)
    then show ?thesis
      using 2 assms(1,4) by (simp add: agg_update_cases agg_matches_def combine_def single_def pick_value_def)
  next
    case 3
    then show ?thesis
      using assms(1,4) by (simp add: agg_update_cases agg_matches_def combine_def single_def)
  qed
qed

lemma agg_fold_matches:
  assumes parts: "agg_parts (ne_expression item) = Some (name, args, False)"
    and vals: "\<And>r. r \<in> set rows \<Longrightarrow> agg_argument rt r item = Inr (arg_value rt item r)
      \<and> value_fits name c (arg_value rt item r)"
  shows "\<exists>st. agg_fold rt rows item = Inr st \<and> as_function st = ne_expression item \<and> as_distinct st = []
    \<and> agg_matches name (summary name (map (arg_value rt item) rows)) st"
  using vals
proof (induction rows rule: rev_induct)
  case Nil
  show ?case
    by (simp add: agg_fold_def new_state_def agg_matches_def new_partial_def)
next
  case (snoc r rows)
  let ?v = "arg_value rt item r" and ?s = "summary name (map (arg_value rt item) rows)"
  obtain st where st: "agg_fold rt rows item = Inr st" "as_function st = ne_expression item" "as_distinct st = []"
      "agg_matches name ?s st"
    using snoc by auto
  have v: "agg_argument rt r item = Inr ?v" "value_fits name c ?v" using snoc.prems by auto
  have fits: "fitting name c ?s" using snoc.prems by (intro fitting_summary) (simp add: list_all_iff)
  have arg: "(case args of [] \<Rightarrow> Inr (VInt 1) | a # _ \<Rightarrow> evaluate rt r a) = Inr ?v"
    using v(1) parts by (cases args) (simp_all add: agg_argument_def)
  show ?case
  proof (cases "?v = VNull")
    case True
    then have "agg_add rt st r = Inr st" using st(2) parts arg by (simp add: agg_add_def)
    then show ?thesis
      using st True fits by (simp add: agg_fold_def foldR_append summary_snoc single_def)
  next
    case False
    have keep: "st\<lparr>as_distinct := as_distinct st, as_count := as_count st + 1\<rparr> = st\<lparr>as_count := as_count st + 1\<rparr>"
      by simp
    obtain st' where st': "agg_update rt name ?v (st\<lparr>as_count := as_count st + 1\<rparr>) = Inr st'"
        "as_function st' = as_function st" "as_distinct st' = as_distinct st"
        "agg_matches name (combine name ?s (single name ?v)) st'"
      using agg_update_matches [OF st(4) fits v(2) False] by metis
    have "agg_add rt st r = Inr st'" using st(2) parts arg False st'(1) by (simp add: agg_add_def)
    then show ?thesis
      using st st' by (simp add: agg_fold_def foldR_append summary_snoc)
  qed
qed

lemma agg_finish_matches:
  assumes "agg_parts (as_function st) = Some (name, args, d)" and "agg_matches name s st"
    and "name \<in> {''count'', ''sum'', ''avg'', ''min'', ''max''}"
  shows "agg_finish rt st = finish_partial rt name s"
proof -
  have kinds: "name = ''count'' \<and> \<not> additive name \<and> \<not> extremal name \<or> name = ''sum'' \<and> additive name
      \<or> name = ''avg'' \<and> additive name \<or> name = ''min'' \<and> extremal name \<or> name = ''max'' \<and> extremal name"
    using assms(3) by (auto simp: additive_def extremal_def)
  show ?thesis
    using kinds assms(1,2) by (elim disjE conjE) (simp_all add: agg_finish_def finish_partial_def agg_matches_def split: if_splits)
qed

lemma can_partial_item:
  assumes "can_partial aggs" and "item \<in> set aggs"
  obtains args where "agg_parts (ne_expression item) = Some (agg_name item, args, False)"
    and "agg_name item \<in> {''count'', ''sum'', ''avg'', ''min'', ''max''}"
  using assms by (auto simp: can_partial_def list_all_iff agg_name_def split: option.splits)

lemma direct_group:
  assumes can: "can_partial aggs" and agg: "aggregatable rt group_by aggs (set rows)"
  shows "\<exists>sts. mapR (agg_fold rt rows) aggs = Inr sts \<and> mapR (agg_finish rt) sts
    = mapR (\<lambda>(item, st). finish_partial rt (agg_name item) st) (zip aggs (states_for rt aggs rows))"
proof -
  have "\<exists>st. agg_fold rt rows item = Inr st \<and> agg_finish rt st
      = finish_partial rt (agg_name item) (summary (agg_name item) (map (arg_value rt item) rows))"
    if item: "item \<in> set aggs" for item
  proof -
    obtain args where parts: "agg_parts (ne_expression item) = Some (agg_name item, args, False)"
        and name: "agg_name item \<in> {''count'', ''sum'', ''avg'', ''min'', ''max''}"
      using can_partial_item [OF can item] by metis
    obtain c where c: "\<And>r. r \<in> set rows \<Longrightarrow> agg_argument rt r item = Inr (arg_value rt item r)"
        "\<And>rs. set rs \<subseteq> set rows \<Longrightarrow> list_all (value_fits (agg_name item) c) (map (arg_value rt item) rs)"
      using aggregatable_value [OF agg item] by metis
    have "agg_argument rt r item = Inr (arg_value rt item r) \<and> value_fits (agg_name item) c (arg_value rt item r)"
      if "r \<in> set rows" for r using c(1) [OF that] c(2) [of "[r]"] that by simp
    then show ?thesis
      using agg_fold_matches [OF parts] agg_finish_matches [OF _ _ name] parts by metis
  qed
  then obtain g where g: "\<And>item. item \<in> set aggs \<Longrightarrow> agg_fold rt rows item = Inr (g item) \<and> agg_finish rt (g item)
      = finish_partial rt (agg_name item) (summary (agg_name item) (map (arg_value rt item) rows))"
    by metis
  have "mapR (\<lambda>item. agg_finish rt (g item)) aggs
      = mapR (\<lambda>(item, st). finish_partial rt (agg_name item) st) (zip aggs (states_for rt aggs rows))"
    unfolding states_for_def mapR_zip_map using g by (intro mapR_cong) simp_all
  moreover have "mapR (agg_fold rt rows) aggs = Inr (map g aggs)" using g by (intro mapR_total) simp
  ultimately show ?thesis by (simp add: mapR_on_map)
qed

lemma direct_aggregate:
  assumes can: "can_partial aggs" and agg: "aggregatable rt group_by aggs (set rows)"
  shows "aggregate_rows rt [] group_by aggs rows
    = mapR (final_output rt group_by aggs) (with_states rt aggs (row_groups rt group_by rows))"
proof -
  let ?rows = "key_rows rt group_by rows" and ?ks = "keys_of rt group_by rows"
  have keys: "mapR (row_key rt group_by) rows = Inr (map (the_key rt group_by) rows)"
    using aggregatable_key(1) [OF agg] by (rule mapR_total)
  have sub: "aggregatable rt group_by aggs (set (?rows k))" for k
    by (rule aggregatable_subset [OF agg]) (auto simp: key_rows_def)
  have "\<forall>k. \<exists>sts. mapR (agg_fold rt (?rows k)) aggs = Inr sts \<and> mapR (agg_finish rt) sts
      = mapR (\<lambda>(item, st). finish_partial rt (agg_name item) st) (zip aggs (states_for rt aggs (?rows k)))"
    by (intro allI direct_group [OF can sub])
  then obtain sts where sts: "\<And>k. mapR (agg_fold rt (?rows k)) aggs = Inr (sts k)"
      "\<And>k. mapR (agg_finish rt) (sts k)
        = mapR (\<lambda>(item, st). finish_partial rt (agg_name item) st) (zip aggs (states_for rt aggs (?rows k)))"
    unfolding choice_iff by blast
  have "mapR (group_of rt aggs (zip (map (the_key rt group_by) rows) rows)) ?ks = Inr (map (\<lambda>k. (k, sts k)) ?ks)"
    using sts(1) unfolding key_rows_def by (intro mapR_total) (simp add: group_of_def rows_with_map)
  moreover have "groups_for rt group_by aggs (zip (map (the_key rt group_by) rows) rows)
      = mapR (group_of rt aggs (zip (map (the_key rt group_by) rows) rows)) ?ks"
    by (simp add: groups_for_def keys_of_def map_fst_zip)
  moreover have "mapR (group_output rt [] group_by aggs) (map (\<lambda>k. (k, sts k)) ks)
      = mapR (final_output rt group_by aggs) (map (\<lambda>k. (k, states_for rt aggs (?rows k))) ks)" for ks
    by (induction ks) (simp_all add: group_output_def final_output_def sts(2))
  ultimately show ?thesis by (simp add: aggregate_rows_def keys row_groups_def comp_def)
qed

section \<open>The columns of partial rows\<close>

lemma column_inject [simp]:
  "count_column i = count_column j \<longleftrightarrow> i = j" "value_column i = value_column j \<longleftrightarrow> i = j"
  by (simp_all add: count_column_def value_column_def)

lemma column_kinds [simp]: "count_column i \<noteq> value_column j" "value_column j \<noteq> count_column i"
proof -
  have "last (count_column i) \<noteq> last (value_column j)" by (simp add: count_column_def value_column_def)
  then show "count_column i \<noteq> value_column j" "value_column j \<noteq> count_column i" by metis+
qed

definition state_columns :: "nat \<Rightarrow> partial_state list \<Rightarrow> (string \<times> sql_value) list" where
  "state_columns n sts = concat (map (\<lambda>(i, st). [(count_column i, VInt (pt_count st)), (value_column i, pt_value st)])
     (enumerate n sts))"

lemma state_columns_simps [simp]:
  "state_columns n [] = []"
  "state_columns n (st # sts) =
     (count_column n, VInt (pt_count st)) # (value_column n, pt_value st) # state_columns (Suc n) sts"
  by (simp_all add: state_columns_def)

lemma state_columns_later:
  "m < n \<Longrightarrow> map_of (rev (state_columns n sts)) (count_column m) = None
     \<and> map_of (rev (state_columns n sts)) (value_column m) = None"
  by (induction sts arbitrary: n) (simp_all add: map_add_def)

lemma state_columns_at:
  "i < length sts \<Longrightarrow> map_of (rev (state_columns n sts)) (count_column (n + i)) = Some (VInt (pt_count (sts ! i)))
     \<and> map_of (rev (state_columns n sts)) (value_column (n + i)) = Some (pt_value (sts ! i))"
proof (induction sts arbitrary: n i)
  case (Cons st sts)
  show ?case
  proof (cases i)
    case 0
    then show ?thesis using state_columns_later [of n "Suc n" sts] by (simp add: map_add_def)
  next
    case (Suc j)
    then show ?thesis using Cons.IH [of j "Suc n"] Cons.prems by (simp add: map_add_def)
  qed
qed simp

lemma state_columns_others:
  "take 10 c \<noteq> ''__partial_'' \<Longrightarrow> map_of (rev (state_columns n sts)) c = None"
  by (induction sts arbitrary: n) (auto simp: map_add_def count_column_def value_column_def)

text \<open>Grouping keys with different texts, none of which is the name of a column of states.\<close>

definition plain_names :: "py_runtime \<Rightarrow> expr list \<Rightarrow> bool" where
  "plain_names rt group_by \<longleftrightarrow> distinct (map (expr_sql rt) group_by)
     \<and> (\<forall>e \<in> set group_by. take 10 (expr_sql rt e) \<noteq> ''__partial_'')"

lemma partial_output_columns:
  "partial_output rt group_by (k, sts) =
     map_of (rev (zip (map (expr_sql rt) group_by) k)) ++ map_of (rev (state_columns 0 sts))"
  by (simp add: partial_output_def state_columns_def)

lemma partial_output_state:
  assumes "i < length sts"
  shows "partial_output rt group_by (k, sts) (count_column i) = Some (VInt (pt_count (sts ! i)))"
    and "partial_output rt group_by (k, sts) (value_column i) = Some (pt_value (sts ! i))"
  using state_columns_at [OF assms, of 0] by (simp_all add: partial_output_columns map_add_def)

lemma partial_output_key:
  assumes "plain_names rt group_by" and "length k = length group_by" and "i < length group_by"
  shows "partial_output rt group_by (k, sts) (expr_sql rt (group_by ! i)) = Some (k ! i)"
proof -
  let ?names = "map (expr_sql rt) group_by"
  have "distinct (map fst (zip ?names k))" using assms by (simp add: plain_names_def)
  then have "map_of (rev (zip ?names k)) = map_of (zip ?names k)"
    by (metis distinct_rev map_of_inject_set rev_map set_rev)
  moreover have "map_of (zip ?names k) (?names ! i) = Some (k ! i)"
    using assms by (intro map_of_zip_nth) (simp_all add: plain_names_def)
  moreover have "map_of (rev (state_columns 0 sts)) (?names ! i) = None"
    using assms(1,3) by (intro state_columns_others) (simp add: plain_names_def)
  ultimately show ?thesis using assms(3) by (simp add: partial_output_columns map_add_def)
qed

lemma state_columns_None:
  "(\<And>i. i < length sts \<Longrightarrow> c \<noteq> count_column (n + i) \<and> c \<noteq> value_column (n + i))
    \<Longrightarrow> map_of (rev (state_columns n sts)) c = None"
proof (induction sts arbitrary: n)
  case (Cons st sts)
  have "c \<noteq> count_column (Suc n + i) \<and> c \<noteq> value_column (Suc n + i)" if "i < length sts" for i
    using Cons.prems [of "Suc i"] that by simp
  from Cons.IH [OF this] show ?case using Cons.prems [of 0] by (simp add: map_add_def)
qed simp

lemma partial_output_None:
  assumes "length k = length group_by" and "c \<notin> expr_sql rt ` set group_by"
    and "\<And>i. i < length sts \<Longrightarrow> c \<noteq> count_column i \<and> c \<noteq> value_column i"
  shows "partial_output rt group_by (k, sts) c = None"
proof -
  have "map_of (rev (zip (map (expr_sql rt) group_by) k)) c = None"
    unfolding map_of_eq_None_iff using assms(1,2) by (auto dest: set_zip_leftD)
  moreover have "map_of (rev (state_columns 0 sts)) c = None"
    using assms(3) by (intro state_columns_None) simp
  ultimately show ?thesis by (simp add: partial_output_columns map_add_def)
qed

lemma final_key_output:
  assumes "plain_names rt group_by" and "length k = length group_by"
  shows "final_key rt group_by (partial_output rt group_by (k, sts)) = k"
  using assms by (intro nth_equalityI) (simp_all add: final_key_def partial_output_key)

section \<open>What the conversion to the partial schema keeps\<close>

text \<open>
  \<open>from_pylist\<close> and \<open>to_pylist\<close> under a schema with different names keep exactly its columns.  A missing
  value becomes \<open>NULL\<close>; a value of the class of its column comes back as it was, and an \<open>int\<close> in a column of
  doubles as that double; values out of range raise.  Nothing is said of single precision and of decimals,
  which are rounded and rescaled.
\<close>

fun fits_column :: "data_type \<Rightarrow> sql_value \<Rightarrow> bool" where
  "fits_column t VNull = True"
| "fits_column t (VBool b) = (t = T_BOOLEAN)"
| "fits_column t (VInt i) = (t \<in> {T_INT32, T_INT64, T_FLOAT64})"
| "fits_column t (VFloat f) = (t = T_FLOAT64)"
| "fits_column t (VDecimal c e) = False"
| "fits_column t (VStr s) = (t = T_STRING)"
| "fits_column t (VBytes s) = (t = T_BINARY)"
| "fits_column t (VDate d) = (t = T_DATE)"
| "fits_column t (VTimestamp d) = (t = T_TIMESTAMP)"

definition arrow_value :: "(rat \<Rightarrow> pyfloat) \<Rightarrow> data_type \<Rightarrow> sql_value \<Rightarrow> sql_value" where
  "arrow_value double t v = (case v of
       VInt i \<Rightarrow> if t = T_FLOAT64 then VFloat (double (of_int i)) else v
     | _ \<Rightarrow> v)"

definition kept_in :: "data_type \<Rightarrow> sql_value \<Rightarrow> bool" where
  "kept_in t v \<longleftrightarrow> fits_column t v \<and> (\<forall>double. arrow_value double t v = v)"

definition field_value :: "row \<Rightarrow> schema_field \<Rightarrow> sql_value" where
  "field_value r f = (case r (sf_name f) of None \<Rightarrow> VNull | Some v \<Rightarrow> v)"

definition round_trips :: "env \<Rightarrow> schema \<Rightarrow> bool" where
  "round_trips ev s \<longleftrightarrow> (\<forall>r r'. ev_conform ev s r = Inr r' \<longrightarrow>
     (\<forall>c. c \<notin> set (field_names s) \<longrightarrow> r' c = None)
     \<and> (\<forall>f \<in> set (sc_fields s). fits_column (sf_type f) (field_value r f)
          \<longrightarrow> r' (sf_name f) = Some (arrow_value (rt_float_of_rat ev) (sf_type f) (field_value r f))))"

text \<open>The type of the value column of an aggregate, and the columns of the partial schema.\<close>

definition value_type :: "named_expression \<Rightarrow> data_type" where
  "value_type item = (if agg_name item = ''count'' then T_INT64 else ti_type (expr_type (ne_expression item)))"

lemma partial_schema_fields:
  assumes "partial_schema rt group_by aggs = Inr s"
  shows "e \<in> set group_by \<Longrightarrow> sql_field rt False e \<in> set (sc_fields s)"
    and "i < length aggs \<Longrightarrow> plain_field (count_column i) T_INT64 False \<in> set (sc_fields s)"
    and "i < length aggs \<Longrightarrow> plain_field (value_column i) (value_type (aggs ! i)) True \<in> set (sc_fields s)"
    and "c \<in> set (field_names s) \<Longrightarrow> c \<in> expr_sql rt ` set group_by
           \<or> (\<exists>i < length aggs. c = count_column i \<or> c = value_column i)"
proof -
  let ?pair = "\<lambda>(i, item). [plain_field (count_column i) T_INT64 False, plain_field (value_column i) (value_type item) True]"
  have s: "sc_fields s = map (sql_field rt False) group_by @ concat (map ?pair (enumerate 0 aggs))"
    using assms unfolding partial_schema_def make_schema_ok value_type_def by simp
  have pair: "(i, aggs ! i) \<in> set (enumerate 0 aggs)" if "i < length aggs" for i
    using that by (simp add: in_set_enumerate_eq)
  show "e \<in> set group_by \<Longrightarrow> sql_field rt False e \<in> set (sc_fields s)" by (simp add: s)
  show "i < length aggs \<Longrightarrow> plain_field (count_column i) T_INT64 False \<in> set (sc_fields s)"
    using pair [of i] by (force simp: s)
  show "i < length aggs \<Longrightarrow> plain_field (value_column i) (value_type (aggs ! i)) True \<in> set (sc_fields s)"
    using pair [of i] by (force simp: s)
  show "c \<in> set (field_names s) \<Longrightarrow> c \<in> expr_sql rt ` set group_by
      \<or> (\<exists>i < length aggs. c = count_column i \<or> c = value_column i)"
    by (auto simp: field_names_def s sql_field_def plain_field_def in_set_enumerate_eq)
qed

text \<open>The partial state that arrives at the merge.\<close>

definition sent_state :: "py_runtime \<Rightarrow> named_expression \<Rightarrow> partial_state \<Rightarrow> partial_state" where
  "sent_state rt item s = s\<lparr>pt_value := arrow_value (rt_float_of_rat rt) (value_type item) (pt_value s)\<rparr>"

lemma sent_state_count [simp]: "pt_count (sent_state rt item s) = pt_count s"
  by (simp add: sent_state_def)

lemma converted_output:
  assumes trips: "round_trips ev s" and s: "partial_schema (rt_of ev) group_by aggs = Inr s"
    and names: "plain_names (rt_of ev) group_by" and len: "length k = length group_by" "length sts = length aggs"
    and keys: "\<And>i. i < length group_by \<Longrightarrow> kept_in (ti_type (expr_type (group_by ! i))) (k ! i)"
    and vals: "\<And>i. i < length aggs \<Longrightarrow> fits_column (value_type (aggs ! i)) (pt_value (sts ! i))"
    and conv: "ev_conform ev s (partial_output (rt_of ev) group_by (k, sts)) = Inr r'"
  shows "r' = partial_output (rt_of ev) group_by (k, map2 (sent_state (rt_of ev)) aggs sts)"
proof
  fix c
  let ?rt = "rt_of ev" and ?sent = "map2 (sent_state (rt_of ev)) aggs sts"
  let ?out = "\<lambda>sts. partial_output ?rt group_by (k, sts)"
  have none: "r' c = None" if "c \<notin> set (field_names s)" using trips conv that unfolding round_trips_def by blast
  have some: "r' (sf_name f) = Some (arrow_value (rt_float_of_rat ev) (sf_type f) v)"
    if "f \<in> set (sc_fields s)" "?out sts (sf_name f) = Some v" "fits_column (sf_type f) v" for f v
  proof -
    have "field_value (?out sts) f = v" using that(2) by (simp add: field_value_def)
    then show ?thesis using trips [unfolded round_trips_def, THEN spec, THEN spec, THEN mp, OF conv] that(1,3) by auto
  qed
  consider i where "i < length group_by" "c = expr_sql ?rt (group_by ! i)"
    | i where "i < length aggs" "c = count_column i" | i where "i < length aggs" "c = value_column i"
    | "c \<notin> expr_sql ?rt ` set group_by" "\<And>i. i < length aggs \<Longrightarrow> c \<noteq> count_column i \<and> c \<noteq> value_column i"
    by (metis image_iff in_set_conv_nth)
  then show "r' c = ?out ?sent c"
  proof cases
    case (1 i)
    have field: "sql_field ?rt False (group_by ! i) \<in> set (sc_fields s)"
      using partial_schema_fields(1) [OF s] 1(1) by simp
    have "r' c = Some (k ! i)"
      using some [OF field, of "k ! i"] partial_output_key [OF names len(1) 1(1)] keys [OF 1(1)] 1(2)
      by (simp add: sql_field_def plain_field_def kept_in_def)
    then show ?thesis using partial_output_key [OF names len(1) 1(1)] 1(2) by simp
  next
    case (2 i)
    show ?thesis
      using some [OF partial_schema_fields(2) [OF s 2(1)], of "VInt (pt_count (sts ! i))"]
        partial_output_state [of i sts ?rt group_by k] partial_output_state [of i ?sent ?rt group_by k] 2 len(2)
      by (simp add: plain_field_def arrow_value_def)
  next
    case (3 i)
    show ?thesis
      using some [OF partial_schema_fields(3) [OF s 3(1)], of "pt_value (sts ! i)"] vals [OF 3(1)]
        partial_output_state [of i sts ?rt group_by k] partial_output_state [of i ?sent ?rt group_by k] 3 len(2)
      by (simp add: plain_field_def sent_state_def py_runtime.defs)
  next
    case 4
    then have "c \<notin> set (field_names s)" using partial_schema_fields(4) [OF s] by blast
    moreover have "?out ?sent c = None" using 4 len by (intro partial_output_None) auto
    ultimately show ?thesis using none by simp
  qed
qed

section \<open>Sums in doubles\<close>

text \<open>
  The partial sums of AVG travel in a column of doubles.  Binary64 arithmetic is exact on integers up to
  \<open>2 ^ 53\<close>, and the quotient of two such integers is the double that \<open>int / int\<close> gives.
\<close>

definition integral_floats :: "py_runtime \<Rightarrow> bool" where
  "integral_floats rt \<longleftrightarrow> (\<forall>i. \<bar>i\<bar> \<le> 2 ^ 53 \<longrightarrow> rt_float_of_rat rt (of_int i) = Fin (of_int i)
     \<and> (\<forall>j. \<bar>j\<bar> \<le> 2 ^ 53 \<longrightarrow> \<bar>i + j\<bar> \<le> 2 ^ 53
          \<longrightarrow> rt_float_op rt ADD (Fin (of_int i)) (Fin (of_int j)) = Fin (of_int (i + j)))
     \<and> (\<forall>n. 0 < n \<longrightarrow> n \<le> 2 ^ 53
          \<longrightarrow> rt_float_op rt DIVIDE (Fin (of_int i)) (Fin (of_int n)) = rt_float_of_rat rt (of_int i / of_int n)
            \<and> rt_float_of_rat rt (of_int i / of_int n) \<notin> {PosInf, NegInf}))"

lemma integral_floats_simps:
  assumes "integral_floats rt" and "\<bar>i\<bar> \<le> 2 ^ 53"
  shows "rt_float_of_rat rt (of_int i) = Fin (of_int i)"
    and "\<bar>j\<bar> \<le> 2 ^ 53 \<Longrightarrow> \<bar>i + j\<bar> \<le> 2 ^ 53 \<Longrightarrow> rt_float_op rt ADD (Fin (of_int i)) (Fin (of_int j)) = Fin (of_int (i + j))"
    and "0 < n \<Longrightarrow> n \<le> 2 ^ 53 \<Longrightarrow> rt_float_op rt DIVIDE (Fin (of_int i)) (Fin (of_int n)) = rt_float_of_rat rt (of_int i / of_int n)"
    and "0 < n \<Longrightarrow> n \<le> 2 ^ 53 \<Longrightarrow> rat_float rt (of_int i / of_int n) = Inr (rt_float_of_rat rt (of_int i / of_int n))"
proof -
  have all: "rt_float_of_rat rt (of_int i) = Fin (of_int i)
     \<and> (\<forall>j. \<bar>j\<bar> \<le> 2 ^ 53 \<longrightarrow> \<bar>i + j\<bar> \<le> 2 ^ 53
          \<longrightarrow> rt_float_op rt ADD (Fin (of_int i)) (Fin (of_int j)) = Fin (of_int (i + j)))
     \<and> (\<forall>n. 0 < n \<longrightarrow> n \<le> 2 ^ 53
          \<longrightarrow> rt_float_op rt DIVIDE (Fin (of_int i)) (Fin (of_int n)) = rt_float_of_rat rt (of_int i / of_int n)
            \<and> rt_float_of_rat rt (of_int i / of_int n) \<notin> {PosInf, NegInf})"
    using assms unfolding integral_floats_def by blast
  from all show "rt_float_of_rat rt (of_int i) = Fin (of_int i)" by blast
  from all show "\<bar>j\<bar> \<le> 2 ^ 53 \<Longrightarrow> \<bar>i + j\<bar> \<le> 2 ^ 53
      \<Longrightarrow> rt_float_op rt ADD (Fin (of_int i)) (Fin (of_int j)) = Fin (of_int (i + j))" by blast
  from all show "0 < n \<Longrightarrow> n \<le> 2 ^ 53
      \<Longrightarrow> rt_float_op rt DIVIDE (Fin (of_int i)) (Fin (of_int n)) = rt_float_of_rat rt (of_int i / of_int n)" by blast
  show "rat_float rt (of_int i / of_int n) = Inr (rt_float_of_rat rt (of_int i / of_int n))" if "0 < n" "n \<le> 2 ^ 53"
  proof -
    have "rt_float_of_rat rt (of_int i / of_int n) \<notin> {PosInf, NegInf}" using all that by blast
    then show ?thesis by (cases "rt_float_of_rat rt (of_int i / of_int n)") (simp_all add: rat_float_def)
  qed
qed

fun int_val :: "sql_value \<Rightarrow> int" where
  "int_val (VInt i) = i"
| "int_val _ = 0"

definition ints :: "sql_value list \<Rightarrow> bool" where
  "ints vs \<longleftrightarrow> list_all (\<lambda>v. \<exists>i. v = VInt i) vs"

definition weight :: "sql_value list \<Rightarrow> int" where
  "weight vs = sum_list (map (\<lambda>v. \<bar>int_val v\<bar> + 1) vs)"

lemma weight_bounds: "\<bar>sum_list (map int_val vs)\<bar> + int (length vs) \<le> weight vs"
  by (induction vs) (simp_all add: weight_def)

lemma weight_append: "weight (us @ vs) = weight us + weight vs"
  by (simp add: weight_def)

lemma weight_nonneg: "0 \<le> weight vs"
  using weight_bounds [of vs] by linarith

lemma summary_ints:
  "additive name \<Longrightarrow> ints vs \<Longrightarrow> summary name vs
     = \<lparr>pt_count = int (length vs), pt_value = (if vs = [] then VNull else VInt (sum_list (map int_val vs)))\<rparr>"
proof (induction vs rule: rev_induct)
  case Nil
  then show ?case by (simp add: new_partial_def)
next
  case (snoc v vs)
  then obtain i where "v = VInt i" "ints vs" by (auto simp: ints_def)
  then show ?case using snoc by (simp add: summary_snoc combine_def single_def plus_value_def)
qed

lemma average_type: "agg_name item = ''avg'' \<Longrightarrow> value_type item = T_FLOAT64
  \<Longrightarrow> sent_state rt item \<lparr>pt_count = n, pt_value = VInt i\<rparr> = \<lparr>pt_count = n, pt_value = VFloat (rt_float_of_rat rt (of_int i))\<rparr>"
  by (simp add: sent_state_def arrow_value_def)

lemma average_merge:
  assumes fl: "integral_floats rt" and item: "agg_name item = ''avg''" "value_type item = T_FLOAT64"
    and "ints us" and "ints vs" and "vs \<noteq> []" and bound: "weight (us @ vs) \<le> 2 ^ 53"
  shows "final_add rt ''avg'' (sent_state rt item (summary ''avg'' us)) (pt_count (summary ''avg'' vs))
      (pt_value (sent_state rt item (summary ''avg'' vs)))
    = Inr (sent_state rt item (summary ''avg'' (us @ vs)))"
proof -
  let ?a = "sum_list (map int_val us)" and ?b = "sum_list (map int_val vs)"
  have add: "additive ''avg''" by (simp add: additive_def)
  have both: "ints (us @ vs)" using assms(4,5) by (simp add: ints_def)
  have small: "\<bar>?a\<bar> \<le> 2 ^ 53" "\<bar>?b\<bar> \<le> 2 ^ 53" "\<bar>?a + ?b\<bar> \<le> 2 ^ 53"
    using bound weight_bounds [of us] weight_bounds [of vs] weight_nonneg [of us] weight_nonneg [of vs]
    by (simp_all add: weight_append)
  note fin = integral_floats_simps(1) [OF fl small(1)] integral_floats_simps(1) [OF fl small(2)]
    integral_floats_simps(1) [OF fl small(3)]
  have sum: "rt_float_op rt ADD (Fin (of_int ?a)) (Fin (of_int ?b)) = Fin (of_int (?a + ?b))"
    by (rule integral_floats_simps(2) [OF fl small])
  have vs: "sent_state rt item (summary ''avg'' vs) = \<lparr>pt_count = int (length vs), pt_value = VFloat (Fin (of_int ?b))\<rparr>"
    using assms(6) by (simp only: summary_ints [OF add assms(5)] if_False average_type [OF item] fin)
  have all: "sent_state rt item (summary ''avg'' (us @ vs))
      = \<lparr>pt_count = int (length us) + int (length vs), pt_value = VFloat (Fin (of_int (?a + ?b)))\<rparr>"
    using assms(6) by (simp only: summary_ints [OF add both] append_is_Nil_conv simp_thms if_False map_append sum_list_append
        length_append of_nat_add average_type [OF item] fin)
  show ?thesis
  proof (cases "us = []")
    case True
    have "sent_state rt item new_partial = new_partial" by (simp add: sent_state_def new_partial_def arrow_value_def)
    then show ?thesis using True add vs
      by (simp add: final_add_cases add_numbers_def new_partial_def summary_ints [OF add assms(5)])
  next
    case False
    then have us: "sent_state rt item (summary ''avg'' us) = \<lparr>pt_count = int (length us), pt_value = VFloat (Fin (of_int ?a))\<rparr>"
      by (simp only: summary_ints [OF add assms(4)] if_False average_type [OF item] fin)
    show ?thesis
      unfolding us vs all using add sum
      by (simp add: final_add_cases add_numbers_def numeric_operation_def float_arith_def summary_ints [OF add assms(5)])
  qed
qed

lemma average_finish:
  assumes fl: "integral_floats rt" and item: "agg_name item = ''avg''" "value_type item = T_FLOAT64"
    and vs: "ints vs" and bound: "weight vs \<le> 2 ^ 53"
  shows "finish_partial rt ''avg'' (sent_state rt item (summary ''avg'' vs)) = finish_partial rt ''avg'' (summary ''avg'' vs)"
proof (cases "vs = []")
  case True
  then show ?thesis by (simp add: sent_state_def new_partial_def arrow_value_def)
next
  case False
  let ?a = "sum_list (map int_val vs)" and ?n = "int (length vs)"
  have add: "additive ''avg''" by (simp add: additive_def)
  have small: "\<bar>?a\<bar> \<le> 2 ^ 53" "0 < ?n" "?n \<le> 2 ^ 53" using bound weight_bounds [of vs] False by simp_all
  then have "\<bar>?n\<bar> \<le> 2 ^ 53" by simp
  note n = integral_floats_simps(1) [OF fl this]
  have "py_float rt (VInt ?n) = Inr (Fin (of_int ?n))" using n by (simp add: rat_float_def)
  then show ?thesis
    unfolding summary_ints [OF add vs] using False
    by (simp add: average_type [OF item] finish_partial_def numeric_operation_def float_arith_def
        integral_floats_simps(1,3,4) [OF fl small(1)] integral_floats_simps(3,4) [OF fl small(1,2,3), simplified] small)
qed

section \<open>The merge\<close>

text \<open>
  What the columns of the partial schema must fit: the keys and the values of MIN and MAX the type of their
  expression, SUM an integer type, and AVG is a double.
\<close>

definition columns_fit :: "py_runtime \<Rightarrow> expr list \<Rightarrow> named_expression list \<Rightarrow> row set \<Rightarrow> bool" where
  "columns_fit rt group_by aggs R \<longleftrightarrow>
     (\<forall>r \<in> R. \<forall>e \<in> set group_by. \<forall>v. evaluate rt r e = Inr v \<longrightarrow> kept_in (ti_type (expr_type e)) v)
     \<and> (\<forall>item \<in> set aggs.
          (extremal (agg_name item) \<longrightarrow> (\<forall>r \<in> R. kept_in (value_type item) (arg_value rt item r)))
          \<and> (agg_name item = ''sum'' \<longrightarrow> value_type item \<in> {T_INT32, T_INT64})
          \<and> (agg_name item = ''avg'' \<longrightarrow> value_type item = T_FLOAT64))"

lemma columns_fit_subset: "columns_fit rt group_by aggs R \<Longrightarrow> S \<subseteq> R \<Longrightarrow> columns_fit rt group_by aggs S"
  unfolding columns_fit_def by (meson subsetD)

text \<open>The sums of AVG stay within the exact integers: the values and their number together.\<close>

definition exact_sums :: "py_runtime \<Rightarrow> named_expression list \<Rightarrow> row list \<Rightarrow> bool" where
  "exact_sums rt aggs rows \<longleftrightarrow>
     (\<forall>item \<in> set aggs. agg_name item = ''avg'' \<longrightarrow> weight (map (arg_value rt item) rows) \<le> 2 ^ 53)"

lemma exact_sums_subset:
  assumes "exact_sums rt aggs rows" and "mset rs \<subseteq># mset rows"
  shows "exact_sums rt aggs rs"
proof -
  obtain ts where ts: "mset rows = mset rs + mset ts" using assms(2) by (metis ex_mset mset_subset_eq_exists_conv)
  have "weight (map g rs) \<le> weight (map g rows)" for g
  proof -
    have "weight (map g us) = sum_mset (image_mset (\<lambda>r. \<bar>int_val (g r)\<bar> + 1) (mset us))" for us
      by (simp add: weight_def comp_def flip: sum_mset_sum_list mset_map)
    then have "weight (map g rows) = weight (map g rs) + weight (map g ts)" by (simp add: ts)
    then show ?thesis using weight_nonneg [of "map g ts"] by simp
  qed
  then show ?thesis using assms(1) unfolding exact_sums_def by (meson order_trans)
qed

definition sent_states :: "py_runtime \<Rightarrow> named_expression list \<Rightarrow> row list \<Rightarrow> partial_state list" where
  "sent_states rt aggs rs = map (\<lambda>item. sent_state rt item (summary (agg_name item) (map (arg_value rt item) rs))) aggs"

abbreviation with_sent ::
    "py_runtime \<Rightarrow> named_expression list \<Rightarrow> (group_key \<times> row list) list \<Rightarrow> partial_groups" where
  "with_sent rt aggs gs \<equiv> map (\<lambda>(k, rs). (k, sent_states rt aggs rs)) gs"

lemma sent_states_map: "map2 (sent_state rt) aggs (states_for rt aggs rs) = sent_states rt aggs rs"
  by (rule nth_equalityI) (simp_all add: sent_states_def states_for_def)

lemma sent_states_Nil: "sent_states rt aggs [] = new_partial_states aggs"
  by (simp add: sent_states_def new_partial_states_def sent_state_def new_partial_def arrow_value_def)

lemma summary_extremal: "extremal name \<Longrightarrow> pt_value (summary name vs) = VNull \<or> pt_value (summary name vs) \<in> set vs"
  by (induction vs rule: rev_induct)
    (auto simp: new_partial_def summary_snoc combine_def single_def pick_value_def split: if_splits)

text \<open>Every value of a state fits its column, and only the sums of AVG change their class.\<close>

lemma sent_value:
  assumes "can_partial aggs" and agg: "aggregatable rt group_by aggs R" and fit: "columns_fit rt group_by aggs R"
    and item: "item \<in> set aggs" and rs: "set rs \<subseteq> R"
  shows "fits_column (value_type item) (pt_value (summary (agg_name item) (map (arg_value rt item) rs)))"
    and "agg_name item \<noteq> ''avg'' \<Longrightarrow> sent_state rt item (summary (agg_name item) (map (arg_value rt item) rs))
      = summary (agg_name item) (map (arg_value rt item) rs)"
    and "additive (agg_name item) \<Longrightarrow> ints (map (arg_value rt item) rs)"
proof -
  let ?vs = "map (arg_value rt item) rs"
  let ?s = "summary (agg_name item) ?vs"
  obtain c where c: "\<And>rs. set rs \<subseteq> R \<Longrightarrow> list_all (value_fits (agg_name item) c) (map (arg_value rt item) rs)"
    using aggregatable_value [OF agg item] by metis
  have fits: "fitting (agg_name item) c ?s" using fitting_summary [OF c [OF rs]] .
  have name: "agg_name item \<in> {''count'', ''sum'', ''avg'', ''min'', ''max''}"
    using can_partial_item [OF assms(1) item] by metis
  show ints: "ints ?vs" if "additive (agg_name item)"
    using c [OF rs] that by (auto simp: ints_def list_all_iff value_fits_def)
  consider "agg_name item = ''count''" | "agg_name item = ''sum''" | "agg_name item = ''avg''" | "extremal (agg_name item)"
    using name by (auto simp: extremal_def)
  then have "fits_column (value_type item) (pt_value ?s) \<and> (agg_name item \<noteq> ''avg'' \<longrightarrow> kept_in (value_type item) (pt_value ?s))"
  proof cases
    case 1
    then have "pt_value ?s = VNull" using fits by (simp add: fitting_def additive_def extremal_def)
    then show ?thesis by (simp add: kept_in_def arrow_value_def)
  next
    case 2
    then have "pt_value ?s = VNull \<or> (\<exists>i. pt_value ?s = VInt i)" using fits by (simp add: fitting_def additive_def)
    moreover have "value_type item \<in> {T_INT32, T_INT64}" using fit item 2 by (simp add: columns_fit_def)
    ultimately show ?thesis by (auto simp: kept_in_def arrow_value_def)
  next
    case 3
    then have "pt_value ?s = VNull \<or> (\<exists>i. pt_value ?s = VInt i)" using fits by (simp add: fitting_def additive_def)
    moreover have "value_type item = T_FLOAT64" using fit item 3 by (simp add: columns_fit_def)
    ultimately show ?thesis using 3 by auto
  next
    case 4
    have "kept_in (value_type item) v" if "v \<in> set ?vs" for v using that fit item 4 rs by (auto simp: columns_fit_def)
    then have "kept_in (value_type item) (pt_value ?s)"
      using summary_extremal [OF 4, of ?vs] by (auto simp: kept_in_def arrow_value_def)
    then show ?thesis by (simp add: kept_in_def)
  qed
  then show "fits_column (value_type item) (pt_value ?s)" "agg_name item \<noteq> ''avg'' \<Longrightarrow> sent_state rt item ?s = ?s"
    by (auto simp: kept_in_def sent_state_def)
qed

lemma mapR_enumerate_zip:
  "mapR f (enumerate n (zip xs (map g xs))) = mapR (\<lambda>i. f (n + i, xs ! i, g (xs ! i))) [0..<length xs]"
proof (induction xs arbitrary: n)
  case (Cons x xs)
  have "[0..<length (x # xs)] = 0 # map Suc [0..<length xs]"
    unfolding map_Suc_upt by (simp add: upt_conv_Cons del: upt_Suc)
  then show ?case using Cons.IH [of "Suc n"] by (simp add: mapR_on_map del: upt_Suc)
qed simp

lemma final_states_step:
  assumes can: "can_partial aggs" and agg: "aggregatable rt group_by aggs R" and fit: "columns_fit rt group_by aggs R"
    and fl: "integral_floats rt" and ys: "set ys \<subseteq> R" and zs: "set zs \<subseteq> R" and "ys \<noteq> []"
    and exact: "exact_sums rt aggs (zs @ ys)"
  shows "final_states rt aggs (partial_output rt group_by (k, sent_states rt aggs ys)) (sent_states rt aggs zs)
    = Inr (sent_states rt aggs (zs @ ys))"
proof -
  let ?s = "\<lambda>item rs. summary (agg_name item) (map (arg_value rt item) rs)"
  let ?t = "\<lambda>item rs. sent_state rt item (?s item rs)"
  let ?row = "partial_output rt group_by (k, sent_states rt aggs ys)"
  have step: "final_add rt (agg_name item) (?t item zs) (pt_count (?t item ys)) (pt_value (?t item ys))
      = Inr (?t item (zs @ ys))" if item: "item \<in> set aggs" for item
  proof (cases "agg_name item = ''avg''")
    case True
    then have "additive (agg_name item)" by (simp add: additive_def)
    note ints = sent_value(3) [OF can agg fit item _ this]
    have "value_type item = T_FLOAT64" using fit item True by (simp add: columns_fit_def)
    moreover have "weight (map (arg_value rt item) zs @ map (arg_value rt item) ys) \<le> 2 ^ 53"
      using exact item True by (simp add: exact_sums_def)
    ultimately show ?thesis
      using average_merge [OF fl True _ ints [OF zs] ints [OF ys]] assms(7) True by simp
  next
    case False
    obtain c where c: "\<And>rs. set rs \<subseteq> R \<Longrightarrow> list_all (value_fits (agg_name item) c) (map (arg_value rt item) rs)"
      using aggregatable_value [OF agg item] by metis
    have "pt_value (?s item ys) \<noteq> VNull" if add: "additive (agg_name item)"
      using summary_ints [OF add sent_value(3) [OF can agg fit item ys add]] assms(7) by simp
    then have "final_add rt (agg_name item) (?s item zs) (pt_count (?s item ys)) (pt_value (?s item ys))
        = Inr (?s item (zs @ ys))"
      using final_add_combine [OF fitting_summary [OF c [OF zs]] fitting_summary [OF c [OF ys]]]
        summary_append [OF c [OF zs] c [OF ys]] by simp
    moreover have "set (zs @ ys) \<subseteq> R" using ys zs by simp
    ultimately show ?thesis using sent_value(2) [OF can agg fit item _ False] ys zs by metis
  qed
  have "final_states rt aggs ?row (map (\<lambda>item. ?t item zs) aggs) = Inr (map (\<lambda>i. ?t (aggs ! i) (zs @ ys)) [0..<length aggs])"
    unfolding final_states_def mapR_enumerate_zip
  proof (rule mapR_total)
    fix i
    assume "i \<in> set [0..<length aggs]"
    then have i: "i < length aggs" by simp
    have row: "?row (count_column i) = Some (VInt (pt_count (?t (aggs ! i) ys)))"
      "?row (value_column i) = Some (pt_value (?t (aggs ! i) ys))"
      using partial_output_state [of i "sent_states rt aggs ys" rt group_by k] i by (simp_all add: sent_states_def)
    show "(case (0 + i, aggs ! i, ?t (aggs ! i) zs) of (i, item, st) \<Rightarrow>
        bindR (row_or PyKeyError ?row (count_column i)) (\<lambda>n.
        bindR (row_or PyKeyError ?row (value_column i)) (\<lambda>v.
        bindR (some_or PyTypeError (int_of n)) (\<lambda>k. final_add rt (agg_name item) st k v))))
      = Inr (?t (aggs ! i) (zs @ ys))"
      using row step [of "aggs ! i"] i by (simp add: row_or_def some_or_def)
  qed
  moreover have "map (\<lambda>i. ?t (aggs ! i) (zs @ ys)) [0..<length aggs] = map (\<lambda>item. ?t item (zs @ ys)) aggs"
    by (rule nth_equalityI) auto
  ultimately show ?thesis by (simp only: sent_states_def)
qed

lemma foldR_on_map: "foldR f s (map h xs) = foldR (\<lambda>s x. f s (h x)) s xs"
  by (induction xs arbitrary: s) auto

lemma key_rows_same: "key_eq k k' \<Longrightarrow> key_rows rt group_by rows k' = key_rows rt group_by rows k"
  unfolding key_rows_def using key_eq_same by (metis (no_types, lifting))

lemma key_rows_apart:
  "keys_apart ks \<Longrightarrow> concat (map (key_rows rt group_by rows) (filter (key_eq k) ks))
     = (if list_ex (key_eq k) ks then key_rows rt group_by rows k else [])"
proof (induction ks)
  case (Cons a ks)
  show ?case
  proof (cases "key_eq k a")
    case True
    have "\<not> key_eq k k'" if "k' \<in> set ks" for k'
      using Cons.prems that key_eq_trans [of a k k'] True key_eq_sym by (auto simp: keys_apart_def)
    then have "filter (key_eq k) ks = []" by (simp add: filter_empty_conv)
    then show ?thesis using True key_rows_same [OF True] by simp
  next
    case False
    then show ?thesis using Cons by (simp add: keys_apart_def)
  qed
qed simp

text \<open>The rows that the groups of a partition with the key \<open>k\<close> hold are its rows with that key.\<close>

lemma row_groups_key:
  assumes agg: "aggregatable rt group_by aggs (set rows)" and keys: "group_by \<noteq> []"
  shows "concat (map snd (filter (\<lambda>x. key_eq k (fst x)) (row_groups rt group_by rows))) = key_rows rt group_by rows k"
proof -
  let ?ks = "first_keys (map (the_key rt group_by) rows)"
  have "key_rows rt group_by rows k = []" if none: "\<not> list_ex (key_eq k) ?ks"
    unfolding key_rows_def filter_empty_conv
  proof (intro ballI notI)
    fix r
    assume r: "r \<in> set rows" and eq: "key_eq k (the_key rt group_by r)"
    obtain k'' where k'': "k'' \<in> set ?ks" "key_eq k'' (the_key rt group_by r)"
      using first_keys_cover [OF _ aggregatable_key(2) [OF agg r], of "map (the_key rt group_by) rows"] r by auto
    have "key_eq k k''" using key_eq_trans [OF eq] k''(2) key_eq_sym by blast
    then show False using none k''(1) by (auto simp: list_ex_iff)
  qed
  moreover have "concat (map snd (filter (\<lambda>x. key_eq k (fst x)) (row_groups rt group_by rows)))
      = concat (map (key_rows rt group_by rows) (filter (key_eq k) ?ks))"
    using keys by (simp add: row_groups_def keys_of_def filter_map comp_def)
  ultimately show ?thesis using key_rows_apart [OF keys_apart_first] by simp
qed

lemma row_groups_elements:
  assumes agg: "aggregatable rt group_by aggs (set rows)" and "group_by = [] \<Longrightarrow> rows \<noteq> []"
    and x: "x \<in> set (row_groups rt group_by rows)"
  shows "set (snd x) \<subseteq> set rows" and "snd x \<noteq> []" and "length (fst x) = length group_by" and "key_eq (fst x) (fst x)"
proof -
  show "set (snd x) \<subseteq> set rows" using x by (auto simp: row_groups_def key_rows_def)
  show "snd x \<noteq> []" "length (fst x) = length group_by" "key_eq (fst x) (fst x)"
  proof (atomize (full), cases "group_by = []")
    case True
    then show "snd x \<noteq> [] \<and> length (fst x) = length group_by \<and> key_eq (fst x) (fst x)"
      using x assms(2) by (auto simp: row_groups_def keys_of_def key_rows_def the_key_def key_eq_def)
  next
    case False
    then obtain r where r: "r \<in> set rows" "fst x = the_key rt group_by r"
      using x first_keys_subset by (fastforce simp: row_groups_def keys_of_def)
    have eq: "key_eq (fst x) (fst x)" using aggregatable_key(2) [OF agg r(1)] r(2) by simp
    moreover have "r \<in> set (snd x)" using x r eq by (auto simp: row_groups_def key_rows_def)
    ultimately show "snd x \<noteq> [] \<and> length (fst x) = length group_by \<and> key_eq (fst x) (fst x)"
      using r(2) by (auto simp: the_key_def)
  qed
qed

lemma parted_filters:
  "sorted_wrt (\<lambda>j k. \<forall>x. \<not> (P j x \<and> P k x)) ks \<Longrightarrow> mset (concat (map (\<lambda>k. filter (P k) xs) ks)) \<subseteq># mset xs"
proof (induction ks arbitrary: xs)
  case (Cons k ks)
  let ?rest = "filter (\<lambda>x. \<not> P k x) xs"
  have "filter (P j) xs = filter (P j) ?rest" if "j \<in> set ks" for j
    unfolding filter_filter using Cons.prems that by (intro filter_cong) auto
  then have "map (\<lambda>k. filter (P k) xs) ks = map (\<lambda>k. filter (P k) ?rest) ks" by (rule map_cong [OF refl])
  then have same: "concat (map (\<lambda>k. filter (P k) xs) ks) = concat (map (\<lambda>k. filter (P k) ?rest) ks)"
    by (rule arg_cong)
  have "mset (concat (map (\<lambda>k. filter (P k) ?rest) ks)) \<subseteq># mset ?rest"
    using Cons.prems by (intro Cons.IH) simp
  then have "mset (filter (P k) xs) + mset (concat (map (\<lambda>k. filter (P k) ?rest) ks))
      \<subseteq># mset (filter (P k) xs) + mset ?rest" by (simp only: subset_mset.add_le_cancel_left)
  then show ?case by (simp add: same)
qed simp

lemma row_groups_rows: "mset (concat (map snd (row_groups rt group_by rows))) \<subseteq># mset rows"
proof (cases "group_by = []")
  case True
  then show ?thesis by (simp add: row_groups_def keys_of_def key_rows_def multiset_filter_subset)
next
  case False
  have "\<not> (key_eq j x \<and> key_eq k x)" if "\<not> key_eq j k" for j k x
    using that key_eq_trans [of j x k] key_eq_sym [of k x] by auto
  then have "sorted_wrt (\<lambda>j k. \<forall>r. \<not> (key_eq j (the_key rt group_by r) \<and> key_eq k (the_key rt group_by r)))
      (first_keys (map (the_key rt group_by) rows))"
    by (intro sorted_wrt_mono_rel [OF _ keys_apart_first [unfolded keys_apart_def]]) blast
  from parted_filters [OF this] show ?thesis using False by (simp add: row_groups_def keys_of_def key_rows_def comp_def)
qed

lemma mset_concat_image: "mset (concat (map f xs)) = (\<Sum>x \<in># mset xs. mset (f x))"
  by (induction xs) simp_all

lemma concat_map_mono: "mset xs \<subseteq># mset ys \<Longrightarrow> mset (concat (map f xs)) \<subseteq># mset (concat (map f ys))"
  unfolding mset_concat_image by (auto simp: mset_subset_eq_exists_conv)

lemma all_row_groups_rows:
  "mset (concat (map snd (concat (map (row_groups rt group_by) parts)))) \<subseteq># mset (concat parts)"
  by (induction parts) (simp_all add: row_groups_rows subset_mset.add_mono)

lemma merge_fold:
  assumes can: "can_partial aggs" and agg: "aggregatable rt group_by aggs (set (concat parts))"
    and fit: "columns_fit rt group_by aggs (set (concat parts))" and fl: "integral_floats rt"
    and exact: "exact_sums rt aggs (concat parts)" and names: "plain_names rt group_by"
    and full: "group_by = [] \<Longrightarrow> [] \<notin> set parts"
  shows "foldR (final_row rt group_by aggs) (start_groups group_by aggs)
      (map (partial_output rt group_by) (concat (map (\<lambda>p. with_sent rt aggs (row_groups rt group_by p)) parts)))
    = Inr (with_sent rt aggs (row_groups rt group_by (concat parts)))"
proof -
  let ?R = "set (concat parts)" and ?xs = "concat (map (row_groups rt group_by) parts)"
  let ?T = "\<lambda>zs :: (group_key \<times> row list) list. sent_states rt aggs (concat (map snd zs))"
  let ?row = "\<lambda>x. partial_output rt group_by (fst x, sent_states rt aggs (snd x))"
  let ?f = "\<lambda>gs x. update_group (fst x) (?T []) (final_states rt aggs (?row x)) gs"
  have part: "aggregatable rt group_by aggs (set p)" if "p \<in> set parts" for p
    by (rule aggregatable_subset [OF agg]) (use that in auto)
  have el: "set (snd x) \<subseteq> ?R \<and> snd x \<noteq> [] \<and> length (fst x) = length group_by \<and> key_eq (fst x) (fst x)"
    if x: "x \<in> set ?xs" for x
  proof -
    obtain p where p: "p \<in> set parts" "x \<in> set (row_groups rt group_by p)" using x by auto
    have "group_by = [] \<Longrightarrow> p \<noteq> []" using full p(1) by auto
    from row_groups_elements [OF part [OF p(1)] this p(2)] show ?thesis using p(1) by auto
  qed
  have step: "final_states rt aggs (?row x) (?T ys) = Inr (?T (ys @ [x]))"
    if ys: "mset (ys @ [x]) \<subseteq># mset ?xs" for ys x
  proof -
    have mem: "set ys \<subseteq> set ?xs" "x \<in> set ?xs" using mset_snoc_subset [OF ys] by blast+
    have "mset (concat (map snd ys) @ snd x) \<subseteq># mset (concat parts)"
      using subset_mset.order_trans [OF concat_map_mono [OF ys, of snd] all_row_groups_rows] by simp
    then have sums: "exact_sums rt aggs (concat (map snd ys) @ snd x)" by (rule exact_sums_subset [OF exact])
    have sub: "set (concat (map snd ys)) \<subseteq> ?R" using el mem(1) by fastforce
    show ?thesis
      using final_states_step [OF can agg fit fl _ sub _ sums] el [OF mem(2)] by simp
  qed
  have "concat (map (\<lambda>p. with_sent rt aggs (row_groups rt group_by p)) parts) = with_sent rt aggs ?xs"
    by (simp add: map_concat comp_def)
  then have "foldR (final_row rt group_by aggs) s (map (partial_output rt group_by)
      (concat (map (\<lambda>p. with_sent rt aggs (row_groups rt group_by p)) parts))) = foldR ?f s ?xs" for s
    using el final_key_output [OF names]
    by (simp only: foldR_on_map) (intro foldR_cong, simp_all add: final_row_def sent_states_Nil split_beta)
  moreover have "foldR ?f (start_groups group_by aggs) ?xs = Inr (with_sent rt aggs (row_groups rt group_by (concat parts)))"
  proof (cases "group_by = []")
    case True
    have "foldR ?f [([], ?T [])] ?xs = Inr [([], ?T ?xs)]"
      using el True by (intro one_group step) simp_all
    moreover have "concat (map snd ?xs) = concat parts"
      using True by (simp add: row_groups_def keys_of_def key_rows_def the_key_def key_eq_def map_concat comp_def)
    ultimately show ?thesis
      using True by (simp add: start_groups_def sent_states_Nil row_groups_def keys_of_def key_rows_def the_key_def key_eq_def)
  next
    case False
    have "foldR ?f [] ?xs = Inr (map (\<lambda>k. (k, ?T (filter (\<lambda>x. key_eq k (fst x)) ?xs))) (first_keys (map fst ?xs)))"
      using el by (intro grouping step ballI) simp_all
    moreover have "map fst ?xs = concat (map first_keys (map (map (the_key rt group_by)) parts))"
      using False by (simp add: row_groups_def keys_of_def map_concat comp_def)
    then have "first_keys (map fst ?xs) = first_keys (concat (map (map (the_key rt group_by)) parts))"
      by (simp only: first_keys_concat)
    then have "first_keys (map fst ?xs) = keys_of rt group_by (concat parts)"
      using False by (simp add: keys_of_def map_concat)
    moreover have "concat (map snd (filter (\<lambda>x. key_eq k (fst x)) ?xs)) = key_rows rt group_by (concat parts) k" for k
    proof -
      have "concat (map snd (filter (\<lambda>x. key_eq k (fst x)) ?xs))
          = concat (map (\<lambda>p. concat (map snd (filter (\<lambda>x. key_eq k (fst x)) (row_groups rt group_by p)))) parts)"
        by (induction parts) simp_all
      also have "\<dots> = concat (map (\<lambda>p. key_rows rt group_by p k) parts)"
        using row_groups_key [OF part False] by (intro arg_cong [where f = concat] map_cong) simp_all
      also have "\<dots> = key_rows rt group_by (concat parts) k"
        by (simp add: key_rows_def filter_concat comp_def)
      finally show ?thesis .
    qed
    ultimately show ?thesis using False by (simp add: start_groups_def row_groups_def comp_def)
  qed
  ultimately show ?thesis by simp
qed

section \<open>The exchange sends whole keys\<close>

lemma first_keys_filter:
  assumes "\<And>a b. key_eq a b \<Longrightarrow> sent a = sent b"
  shows "filter sent (first_keys ks) = first_keys (filter sent ks)"
proof (induction ks rule: rev_induct)
  case (snoc k ks)
  have "list_ex (\<lambda>k'. key_eq k' k) (filter sent (first_keys ks)) \<longleftrightarrow> list_ex (\<lambda>k'. key_eq k' k) (first_keys ks)"
    if "sent k" using that assms by (auto simp: list_ex_iff)
  then show ?case using snoc by (simp add: first_keys_snoc add_key_def)
qed (simp add: first_keys_def)

lemma row_groups_filter:
  assumes sent: "\<And>a b. key_eq a b \<Longrightarrow> sent a = sent b" and "group_by \<noteq> []"
  shows "filter (\<lambda>x. sent (fst x)) (row_groups rt group_by rows)
    = row_groups rt group_by (filter (\<lambda>r. sent (the_key rt group_by r)) rows)"
proof -
  have "key_rows rt group_by (filter (\<lambda>r. sent (the_key rt group_by r)) rows) k = key_rows rt group_by rows k"
    if "sent k" for k
    using that sent unfolding key_rows_def filter_filter by (metis (no_types, lifting))
  then have "\<forall>k \<in> set (first_keys (map (the_key rt group_by) (filter (\<lambda>r. sent (the_key rt group_by r)) rows))).
      key_rows rt group_by rows k = key_rows rt group_by (filter (\<lambda>r. sent (the_key rt group_by r)) rows) k"
    using first_keys_subset by fastforce
  moreover have "filter sent (first_keys (map (the_key rt group_by) rows))
      = first_keys (map (the_key rt group_by) (filter (\<lambda>r. sent (the_key rt group_by r)) rows))"
    using first_keys_filter [of sent "map (the_key rt group_by) rows"] sent by (simp add: filter_map comp_def)
  ultimately show ?thesis
    using assms(2) by (simp add: row_groups_def keys_of_def filter_map comp_def)
qed

lemma row_groups_kept:
  assumes agg: "aggregatable rt group_by aggs (set rows)" and fit: "columns_fit rt group_by aggs (set rows)"
    and x: "x \<in> set (row_groups rt group_by rows)"
  shows "length (fst x) = length group_by"
    and "i < length group_by \<Longrightarrow> kept_in (ti_type (expr_type (group_by ! i))) (fst x ! i)"
proof (atomize (full), cases "group_by = []")
  case True
  then show "length (fst x) = length group_by
      \<and> (i < length group_by \<longrightarrow> kept_in (ti_type (expr_type (group_by ! i))) (fst x ! i))"
    using x by (auto simp: row_groups_def keys_of_def)
next
  case False
  then obtain r where r: "r \<in> set rows" "fst x = the_key rt group_by r"
    using x first_keys_subset by (fastforce simp: row_groups_def keys_of_def)
  have "list_all2 (\<lambda>e v. evaluate rt r e = Inr v) group_by (fst x)"
    using aggregatable_key(1) [OF agg r(1)] r(2) by (simp add: row_key_def mapR_Inr_iff)
  then show "length (fst x) = length group_by
      \<and> (i < length group_by \<longrightarrow> kept_in (ti_type (expr_type (group_by ! i))) (fst x ! i))"
    using fit r(1) by (auto simp: columns_fit_def list_all2_conv_all_nth)
qed

text \<open>The batches that the tasks of the source partitions deliver.\<close>

lemma partial_rows:
  assumes parts: "mapR (partial_aggregate ev group_by aggs (\<lambda>_. False)) parts = Inr bs"
    and can: "can_partial aggs" and agg: "aggregatable (rt_of ev) group_by aggs (set (concat parts))"
    and fit: "columns_fit (rt_of ev) group_by aggs (set (concat parts))" and names: "plain_names (rt_of ev) group_by"
    and trips: "\<And>s. partial_schema (rt_of ev) group_by aggs = Inr s \<Longrightarrow> round_trips ev s"
  shows "map bt_rows bs = map (\<lambda>p. map (partial_output (rt_of ev) group_by)
    (with_sent (rt_of ev) aggs (row_groups (rt_of ev) group_by p))) parts"
proof (rule nth_equalityI)
  let ?rt = "rt_of ev"
  let ?sent = "\<lambda>p. map (partial_output ?rt group_by) (with_sent ?rt aggs (row_groups ?rt group_by p))"
  have pairs: "list_all2 (\<lambda>p b. partial_aggregate ev group_by aggs (\<lambda>_. False) p = Inr b) parts bs"
    using parts by (simp add: mapR_Inr_iff)
  then show "length (map bt_rows bs) = length (map ?sent parts)" by (auto dest: list_all2_lengthD)
  fix i
  assume "i < length (map bt_rows bs)"
  then have i: "i < length bs" "i < length parts" using pairs by (auto dest: list_all2_lengthD)
  let ?p = "parts ! i"
  let ?gs = "row_groups ?rt group_by ?p"
  have sub: "set ?p \<subseteq> set (concat parts)" using nth_mem [OF i(2)] by auto
  have agg_p: "aggregatable ?rt group_by aggs (set ?p)" by (rule aggregatable_subset [OF agg sub])
  have fit_p: "columns_fit ?rt group_by aggs (set ?p)" by (rule columns_fit_subset [OF fit sub])
  have run: "partial_aggregate ev group_by aggs (\<lambda>_. False) ?p = Inr (bs ! i)"
    using pairs i(2) by (simp add: list_all2_conv_all_nth)
  obtain s rs where s: "partial_schema ?rt group_by aggs = Inr s"
      and rs: "mapR (ev_conform ev s) (map (partial_output ?rt group_by) (with_states ?rt aggs ?gs)) = Inr rs"
        "bs ! i = \<lparr>bt_schema = s, bt_rows = rs\<rparr>"
    using run unfolding partial_aggregate_def foldR_checked partial_fold [OF agg_p] bindR_simps bindR_eq_Inr
      make_batch_def sum.inject by metis
  have "r' = partial_output ?rt group_by (fst x, sent_states ?rt aggs (snd x))"
    if x: "x \<in> set ?gs" and conv: "ev_conform ev s (partial_output ?rt group_by (fst x, states_for ?rt aggs (snd x))) = Inr r'"
    for x r'
  proof -
    have "set (snd x) \<subseteq> set ?p" using x by (auto simp: row_groups_def key_rows_def)
    then have "fits_column (value_type (aggs ! j)) (pt_value (states_for ?rt aggs (snd x) ! j))" if "j < length aggs" for j
      using sent_value(1) [OF can agg_p fit_p, of "aggs ! j" "snd x"] that by (simp add: states_for_def)
    from converted_output [OF trips [OF s] s names row_groups_kept(1) [OF agg_p fit_p x] _
        row_groups_kept(2) [OF agg_p fit_p x] this conv]
    show ?thesis by (simp add: sent_states_map) (simp add: states_for_def)
  qed
  then have "list_all2 (\<lambda>x r'. r' = partial_output ?rt group_by (fst x, sent_states ?rt aggs (snd x))) ?gs rs"
    using rs(1) by (simp add: mapR_on_map mapR_Inr_iff split_beta list_all2_conv_all_nth)
  then have "rs = ?sent ?p" by (simp add: list_all2_conv_all_nth list_eq_iff_nth_eq split_beta)
  then show "map bt_rows bs ! i = map ?sent parts ! i" using i rs(2) by simp
qed

lemma sent_rows:
  assumes agg: "aggregatable rt group_by aggs (set rows)" and names: "plain_names rt group_by"
    and full: "group_by = [] \<Longrightarrow> rows \<noteq> []"
    and sent: "\<And>a b. key_eq a b \<Longrightarrow> sent a = sent b" and keys: "group_by \<noteq> []"
  shows "filter (\<lambda>r. sent (final_key rt group_by r))
      (map (partial_output rt group_by) (with_sent rt aggs (row_groups rt group_by rows)))
    = map (partial_output rt group_by)
        (with_sent rt aggs (row_groups rt group_by (filter (\<lambda>r. sent (the_key rt group_by r)) rows)))"
proof -
  have "final_key rt group_by (partial_output rt group_by (fst x, sent_states rt aggs (snd x))) = fst x"
    if "x \<in> set (row_groups rt group_by rows)" for x
    using row_groups_elements(3) [OF agg full that] by (rule final_key_output [OF names])
  then have "filter (\<lambda>x. sent (final_key rt group_by (partial_output rt group_by (fst x, sent_states rt aggs (snd x)))))
      (row_groups rt group_by rows) = filter (\<lambda>x. sent (fst x)) (row_groups rt group_by rows)"
    by (intro filter_cong) simp_all
  moreover have "row_groups rt group_by (filter (\<lambda>r. sent (the_key rt group_by r)) rows)
      = filter (\<lambda>x. sent (fst x)) (row_groups rt group_by rows)"
    by (rule row_groups_filter [symmetric]) (use sent keys in blast)+
  ultimately show ?thesis by (simp add: filter_map comp_def split_beta)
qed

lemma sent_merge:
  assumes can: "can_partial aggs" and agg: "aggregatable rt group_by aggs (set (concat parts))"
    and fit: "columns_fit rt group_by aggs (set (concat parts))" and fl: "integral_floats rt"
    and exact: "exact_sums rt aggs (concat parts)" and names: "plain_names rt group_by"
    and full: "group_by = [] \<Longrightarrow> [] \<notin> set parts"
    and sent: "\<And>a b. key_eq a b \<Longrightarrow> sent a = sent b"
    and rows: "map bt_rows bs
      = map (\<lambda>p. map (partial_output rt group_by) (with_sent rt aggs (row_groups rt group_by p))) parts"
  shows "foldR (final_row rt group_by aggs) (start_groups group_by aggs)
      (filter (\<lambda>r. sent (final_key rt group_by r)) (concat (map bt_rows bs)))
    = Inr (with_sent rt aggs (row_groups rt group_by (filter (\<lambda>r. sent (the_key rt group_by r)) (concat parts))))"
proof (cases "group_by = []")
  case True
  have key: "final_key rt [] r = []" "the_key rt [] r = []" for r
    by (simp_all add: final_key_def the_key_def)
  show ?thesis
  proof (cases "sent []")
    case sent: True
    then show ?thesis
      using merge_fold [OF can agg fit fl exact names full] True by (simp add: key rows map_concat comp_def)
  next
    case False
    then show ?thesis
      using True by (simp add: key row_groups_def keys_of_def key_rows_def start_groups_def sent_states_Nil)
  qed
next
  case False
  let ?kept = "filter (\<lambda>r. sent (the_key rt group_by r))"
  have part: "aggregatable rt group_by aggs (set p)" if "p \<in> set parts" for p
    by (rule aggregatable_subset [OF agg]) (use that in auto)
  have "filter (\<lambda>r. sent (final_key rt group_by r)) (concat (map bt_rows bs))
      = concat (map (\<lambda>p. filter (\<lambda>r. sent (final_key rt group_by r))
          (map (partial_output rt group_by) (with_sent rt aggs (row_groups rt group_by p)))) parts)"
    unfolding rows by (simp add: filter_concat comp_def)
  also have "\<dots> = concat (map (\<lambda>p. map (partial_output rt group_by)
      (with_sent rt aggs (row_groups rt group_by (?kept p)))) parts)"
  proof (rule arg_cong [where f = concat], rule map_cong [OF refl])
    fix p
    assume p: "p \<in> set parts"
    show "filter (\<lambda>r. sent (final_key rt group_by r))
        (map (partial_output rt group_by) (with_sent rt aggs (row_groups rt group_by p)))
      = map (partial_output rt group_by) (with_sent rt aggs (row_groups rt group_by (?kept p)))"
      by (rule sent_rows [OF part [OF p] names]) (use False sent in blast)+
  qed
  also have "\<dots> = map (partial_output rt group_by)
      (concat (map (\<lambda>p. with_sent rt aggs (row_groups rt group_by p)) (map ?kept parts)))"
    by (simp add: map_concat comp_def)
  finally have kept: "filter (\<lambda>r. sent (final_key rt group_by r)) (concat (map bt_rows bs))
      = map (partial_output rt group_by)
          (concat (map (\<lambda>p. with_sent rt aggs (row_groups rt group_by p)) (map ?kept parts)))" .
  have same: "concat (map ?kept parts) = ?kept (concat parts)" by (simp add: filter_concat)
  have sub: "set (concat (map ?kept parts)) \<subseteq> set (concat parts)" by auto
  have agg': "aggregatable rt group_by aggs (set (concat (map ?kept parts)))" by (rule aggregatable_subset [OF agg sub])
  have fit': "columns_fit rt group_by aggs (set (concat (map ?kept parts)))" using fit by (rule columns_fit_subset [OF _ sub])
  have exact': "exact_sums rt aggs (concat (map ?kept parts))"
    unfolding same by (rule exact_sums_subset [OF exact]) (simp add: multiset_filter_subset)
  from merge_fold [OF can agg' fit' fl exact' names] False show ?thesis unfolding kept same by blast
qed

text \<open>The merged states finish as the states that never travelled.\<close>

lemma sent_final_output:
  assumes can: "can_partial aggs" and agg: "aggregatable rt group_by aggs R" and fit: "columns_fit rt group_by aggs R"
    and fl: "integral_floats rt" and rs: "set rs \<subseteq> R" and exact: "exact_sums rt aggs rs"
  shows "final_output rt group_by aggs (k, sent_states rt aggs rs) = final_output rt group_by aggs (k, states_for rt aggs rs)"
proof -
  let ?s = "\<lambda>item. summary (agg_name item) (map (arg_value rt item) rs)"
  have "finish_partial rt (agg_name item) (sent_state rt item (?s item)) = finish_partial rt (agg_name item) (?s item)"
    if item: "item \<in> set aggs" for item
  proof (cases "agg_name item = ''avg''")
    case True
    then have "ints (map (arg_value rt item) rs)"
      using sent_value(3) [OF can agg fit item rs] by (simp add: additive_def)
    moreover have "value_type item = T_FLOAT64" using fit item True by (simp add: columns_fit_def)
    moreover have "weight (map (arg_value rt item) rs) \<le> 2 ^ 53" using exact item True by (simp add: exact_sums_def)
    ultimately show ?thesis using average_finish [OF fl True] True by simp
  next
    case False
    then show ?thesis using sent_value(2) [OF can agg fit item rs] by simp
  qed
  then have "mapR (\<lambda>(item, st). finish_partial rt (agg_name item) st) (zip aggs (sent_states rt aggs rs))
      = mapR (\<lambda>(item, st). finish_partial rt (agg_name item) st) (zip aggs (states_for rt aggs rs))"
    unfolding sent_states_def states_for_def mapR_zip_map by (intro mapR_cong) simp_all
  then show ?thesis by (simp add: final_output_def)
qed

lemma sent_final_outputs:
  assumes can: "can_partial aggs" and agg: "aggregatable rt group_by aggs (set rows)"
    and fit: "columns_fit rt group_by aggs (set rows)" and fl: "integral_floats rt" and exact: "exact_sums rt aggs rows"
  shows "mapR (final_output rt group_by aggs) (with_sent rt aggs (row_groups rt group_by rows))
    = mapR (final_output rt group_by aggs) (with_states rt aggs (row_groups rt group_by rows))"
  unfolding mapR_on_map
proof (rule mapR_cong [OF refl])
  fix x
  assume "x \<in> set (row_groups rt group_by rows)"
  then have snd: "snd x = key_rows rt group_by rows (fst x)" by (auto simp: row_groups_def)
  have "set (snd x) \<subseteq> set rows" by (auto simp: snd key_rows_def)
  moreover have "exact_sums rt aggs (snd x)"
    unfolding snd key_rows_def by (rule exact_sums_subset [OF exact]) (simp add: multiset_filter_subset)
  ultimately show "final_output rt group_by aggs (case x of (k, rs) \<Rightarrow> (k, sent_states rt aggs rs))
      = final_output rt group_by aggs (case x of (k, rs) \<Rightarrow> (k, states_for rt aggs rs))"
    using sent_final_output [OF can agg fit fl] by (simp add: split_beta)
qed

text \<open>Two partitions of the sample rows, counted and summed by the column \<open>g\<close>.\<close>

definition sample_sum :: named_expression where
  "sample_sum = NamedExpression ''s'' (AggregateFunction ''sum'' [sample_column ''x''] (TypeInfo T_INT64 True) False)"

text \<open>
  The partial row of an empty partition has a count of 0 and no value; a SUM without keys that merges it after
  a partition with values fails on the addition.
\<close>

lemma merge_of_empty_partition_raises:
  assumes agg: "aggregatable rt [] [sample_sum] (set rows)" and "rows \<noteq> []"
  shows "foldR (final_row rt [] [sample_sum]) (start_groups [] [sample_sum])
    (map (partial_output rt []) [([], states_for rt [sample_sum] rows), ([], states_for rt [sample_sum] [])])
      = Inl PyTypeError"
proof -
  have start: "new_partial_states [sample_sum] = states_for rt [sample_sum] []" by (simp add: states_for_Nil)
  obtain rows1 r where r: "rows = rows1 @ [r]" using assms(2) by (cases rows rule: rev_cases) auto
  have add: "additive (agg_name sample_sum)" "agg_name sample_sum = ''sum''"
    by (simp_all add: agg_name_def sample_sum_def additive_def)
  let ?s = "summary ''sum'' (map (arg_value rt sample_sum) rows)"
  have "sample_sum \<in> set [sample_sum]" by simp
  then obtain c where "\<And>rs. set rs \<subseteq> set rows
      \<Longrightarrow> list_all (value_fits (agg_name sample_sum) c) (map (arg_value rt sample_sum) rs)"
    using aggregatable_value [OF agg] by metis
  then have c: "list_all (value_fits ''sum'' c) (map (arg_value rt sample_sum) rows)"
    unfolding add(2) by blast
  have "value_fits ''sum'' c (arg_value rt sample_sum r)" using c r by simp
  then obtain j where "arg_value rt sample_sum r = VInt j" using add by (auto simp: value_fits_def)
  then obtain i where i: "pt_value ?s = VInt i"
    using add by (cases "pt_value (summary ''sum'' (map (arg_value rt sample_sum) rows1))")
      (simp_all add: r summary_snoc combine_def single_def plus_value_def)
  have first: "final_states rt [sample_sum] (partial_output rt [] (k, states_for rt [sample_sum] rows))
      (states_for rt [sample_sum] []) = Inr (states_for rt [sample_sum] rows)" for k
    using partial_output_state [of 0 "states_for rt [sample_sum] rows" rt "[]" k] i add
    by (simp add: final_states_def states_for_def row_or_def some_or_def new_partial_def final_add_cases
        add_numbers_def)
  have second: "final_states rt [sample_sum] (partial_output rt [] (k, states_for rt [sample_sum] []))
      (states_for rt [sample_sum] rows) = Inl PyTypeError" for k
    using partial_output_state [of 0 "states_for rt [sample_sum] []" rt "[]" k] i add
    by (simp add: final_states_def states_for_def row_or_def some_or_def new_partial_def final_add_cases
        add_numbers_def numeric_operation_def other_arith_def)
  show ?thesis
    by (simp add: start_groups_def start first second final_row_def final_key_def key_eq_def)
qed

text \<open>
  C9. Partial aggregation is exact.  Each source partition is aggregated by its own task, the exchange
  sends the partial rows with the keys that satisfy \<open>sent\<close> to one merging task (every key, when the
  exchange gathers), and that task delivers what the one-phase aggregate delivers of all source rows with
  such keys: the same groups in the same order with the same values.  The partial rows pass through the
  conversion to the partial schema, of which only \<open>round_trips\<close> is known: other columns are dropped, missing
  values become NULL, and the integer sums of AVG arrive as doubles.  The aggregated values fit their
  function (\<open>aggregatable\<close>: integers without NULL for SUM and AVG, comparable values for MIN and MAX) and their
  column (\<open>columns_fit\<close>, which leaves out decimals and single precision), the absolute values and the number of
  the values that an AVG sees stay within \<open>2 ^ 53\<close> (\<open>exact_sums\<close>), where binary64 is exact (\<open>integral_floats\<close>),
  the texts of the keys differ, and no source partition of an aggregate without keys is empty; an empty one is
  the case of \<open>merge_of_empty_partition_raises\<close>.
\<close>

theorem partial_aggregation_exact:
  assumes "can_partial aggs" and "aggregatable (rt_of ev) group_by aggs (set (concat parts))"
    and "columns_fit (rt_of ev) group_by aggs (set (concat parts))" and "integral_floats (rt_of ev)"
    and "exact_sums (rt_of ev) aggs (concat parts)"
    and "plain_names (rt_of ev) group_by" and "group_by = [] \<Longrightarrow> [] \<notin> set parts"
    and "\<And>a b. key_eq a b \<Longrightarrow> sent a = sent b"
    and "\<And>s. partial_schema (rt_of ev) group_by aggs = Inr s \<Longrightarrow> round_trips ev s"
    and "mapR (partial_aggregate ev group_by aggs (\<lambda>_. False)) parts = Inr bs"
  shows "final_aggregate ev group_by aggs (\<lambda>_. False)
      (filter (\<lambda>r. sent (final_key (rt_of ev) group_by r)) (concat (map bt_rows bs)))
    = bindR (aggregate_rows (rt_of ev) [] group_by aggs
          (filter (\<lambda>r. sent (the_key (rt_of ev) group_by r)) (concat parts))) (\<lambda>outs.
      bindR (schema_for_aggregate (rt_of ev) group_by aggs) (\<lambda>s. make_batch ev s outs))"
proof -
  let ?rt = "rt_of ev" and ?kept = "filter (\<lambda>r. sent (the_key (rt_of ev) group_by r)) (concat parts)"
  let ?rows = "filter (\<lambda>r. sent (final_key ?rt group_by r)) (concat (map bt_rows bs))"
  have sub: "set ?kept \<subseteq> set (concat parts)" by auto
  have agg: "aggregatable ?rt group_by aggs (set ?kept)" by (rule aggregatable_subset [OF assms(2) sub])
  have fit: "columns_fit ?rt group_by aggs (set ?kept)" by (rule columns_fit_subset [OF assms(3) sub])
  have exact: "exact_sums ?rt aggs ?kept"
    by (rule exact_sums_subset [OF assms(5)]) (simp add: multiset_filter_subset)
  note direct = direct_aggregate [OF assms(1) agg] sent_final_outputs [OF assms(1) agg fit assms(4) exact]
  have "foldR (final_row ?rt group_by aggs) (start_groups group_by aggs) ?rows
      = Inr (with_sent ?rt aggs (row_groups ?rt group_by ?kept))"
    by (rule sent_merge [OF assms(1-6) _ _ partial_rows [OF assms(10,1-3,6,9)]]) (fact assms(7,8))+
  then show ?thesis by (simp add: final_aggregate_def foldR_checked direct)
qed

text \<open>
  A conversion after \<open>from_pylist\<close> and \<open>to_pylist\<close>: a missing value is NULL, an \<open>int\<close> must be in the range
  of its column, and other classes than the column's raise.
\<close>

definition arrow_cell :: "(rat \<Rightarrow> pyfloat) \<Rightarrow> data_type \<Rightarrow> sql_value \<Rightarrow> sql_value res" where
  "arrow_cell double t v =
     (if \<not> fits_column t v then Inl PyTypeError
      else if (case v of VInt i \<Rightarrow> (t = T_INT32 \<longrightarrow> - (2 ^ 31) \<le> i \<and> i < 2 ^ 31) \<and> (t = T_INT64 \<longrightarrow> - (2 ^ 63) \<le> i \<and> i < 2 ^ 63)
              \<and> (t = T_FLOAT64 \<longrightarrow> \<bar>i\<bar> \<le> 2 ^ 53) | _ \<Rightarrow> True) then Inr (arrow_value double t v)
      else Inl PyValueError)"

definition arrow_row :: "(rat \<Rightarrow> pyfloat) \<Rightarrow> schema \<Rightarrow> row \<Rightarrow> row res" where
  "arrow_row double s r = bindR (mapR (\<lambda>f. arrow_cell double (sf_type f) (field_value r f)) (sc_fields s))
     (\<lambda>vs. Inr (map_of (zip (field_names s) vs)))"

abbreviation arrow :: "env \<Rightarrow> env" where
  "arrow ev \<equiv> ev\<lparr>rt_float_of_rat := Fin, rt_float_op := exact_op, ev_conform := arrow_row Fin\<rparr>"

lemma arrow_round_trips: "distinct (field_names s) \<Longrightarrow> round_trips (arrow ev) s"
  unfolding round_trips_def
proof (intro allI impI conjI ballI)
  fix r r'
  assume distinct: "distinct (field_names s)" and "ev_conform (arrow ev) s r = Inr r'"
  then obtain vs where cells: "list_all2 (\<lambda>f v. arrow_cell Fin (sf_type f) (field_value r f) = Inr v) (sc_fields s) vs"
      and r': "r' = map_of (zip (field_names s) vs)"
    by (auto simp: arrow_row_def bindR_eq_Inr mapR_Inr_iff)
  have len: "length vs = length (field_names s)" using cells by (simp add: field_names_def list_all2_lengthD)
  show "r' c = None" if "c \<notin> set (field_names s)" for c
    using that len by (auto simp: r' map_of_eq_None_iff dest: set_zip_leftD)
  fix f
  assume f: "f \<in> set (sc_fields s)" and fits: "fits_column (sf_type f) (field_value r f)"
  obtain i where i: "i < length (sc_fields s)" "f = sc_fields s ! i" using f by (auto simp: in_set_conv_nth)
  have "r' (field_names s ! i) = Some (vs ! i)"
    unfolding r' using i(1) len distinct by (intro map_of_zip_nth) (simp_all add: field_names_def)
  moreover have "vs ! i = arrow_value Fin (sf_type f) (field_value r f)"
    using list_all2_nthD [OF cells i(1)] fits i(2) by (simp add: arrow_cell_def split: if_splits)
  ultimately show "r' (sf_name f) = Some (arrow_value (rt_float_of_rat (arrow ev)) (sf_type f) (field_value r f))"
    using i by (simp add: field_names_def)
qed

lemma arrow_integral: "integral_floats (rt_of (arrow ev))"
  by (simp add: integral_floats_def py_runtime.defs)

definition sample_avg :: named_expression where
  "sample_avg = NamedExpression ''a'' (AggregateFunction ''avg'' [sample_column ''x''] (TypeInfo T_FLOAT64 True) False)"

lemmas sample_defs = sample_count_def sample_sum_def sample_avg_def sample_rows_def

lemma sample_fits:
  shows "can_partial [sample_count, sample_sum, sample_avg]"
    and "aggregatable rt [sample_column ''g''] [sample_count, sample_sum, sample_avg] (set sample_rows)"
    and "columns_fit rt [sample_column ''g''] [sample_count, sample_sum, sample_avg] (set sample_rows)"
    and "exact_sums rt [sample_count, sample_sum, sample_avg] sample_rows"
  by (auto simp: can_partial_def aggregatable_def columns_fit_def exact_sums_def sample_defs row_key_def
      qualified_name_def is_nan_def agg_argument_def value_fits_def agg_name_def additive_def extremal_def
      kept_in_def arrow_value_def value_type_def weight_def arg_value_def row_or_def)


lemma sample_keys: "row_groups rt [sample_column ''g''] (take 2 sample_rows)
      = [([VInt 2], [[''g'' \<mapsto> VInt 2, ''x'' \<mapsto> VInt 5]]), ([VInt 1], [[''g'' \<mapsto> VInt 1, ''x'' \<mapsto> VInt 7]])]"
    "row_groups rt [sample_column ''g''] (drop 2 sample_rows) = [([VInt 2], [[''g'' \<mapsto> VInt 2, ''x'' \<mapsto> VInt 6]])]"
  by (simp_all add: row_groups_def keys_of_def key_rows_def the_key_def sample_rows_def first_keys_def add_key_def
      key_eq_def py_eq_def order_value_def qualified_name_def row_or_def)

lemma sample_states: "states_for rt [sample_count, sample_sum, sample_avg] [[''g'' \<mapsto> VInt g, ''x'' \<mapsto> VInt x]]
    = [\<lparr>pt_count = 1, pt_value = VNull\<rparr>, \<lparr>pt_count = 1, pt_value = VInt x\<rparr>, \<lparr>pt_count = 1, pt_value = VInt x\<rparr>]"
  by (simp add: states_for_def sample_defs arg_value_def agg_argument_def agg_name_def qualified_name_def row_or_def
      summary_def combine_def single_def new_partial_def additive_def extremal_def plus_value_def)

lemma sample_partial_schema:
  obtains s where "partial_schema rt [sample_column ''g''] [sample_count, sample_sum, sample_avg] = Inr s"
    and "distinct (field_names s)" and "map (\<lambda>f. (sf_name f, sf_type f)) (sc_fields s) = [(''g'', T_INT64),
      (count_column 0, T_INT64), (value_column 0, T_INT64), (count_column 1, T_INT64), (value_column 1, T_INT64),
      (count_column 2, T_INT64), (value_column 2, T_FLOAT64)]"
  unfolding partial_schema_def make_schema_ok
  by (auto simp: sample_defs sql_field_def plain_field_def qualified_name_def field_names_def
      count_column_def value_column_def agg_name_def)

text \<open>The conversion of a partial row of the sample: the sum of AVG has become a double.\<close>

lemma sample_converted:
  assumes "map (\<lambda>f. (sf_name f, sf_type f)) (sc_fields s) = [(''g'', T_INT64),
      (count_column 0, T_INT64), (value_column 0, T_INT64), (count_column 1, T_INT64), (value_column 1, T_INT64),
      (count_column 2, T_INT64), (value_column 2, T_FLOAT64)]"
    and "\<bar>g\<bar> \<le> 7" and "\<bar>x\<bar> \<le> 7"
  shows "\<exists>r. arrow_row Fin s (partial_output rt [sample_column ''g''] ([VInt g],
      [\<lparr>pt_count = 1, pt_value = VNull\<rparr>, \<lparr>pt_count = 1, pt_value = VInt x\<rparr>, \<lparr>pt_count = 1, pt_value = VInt x\<rparr>])) = Inr r
    \<and> r (value_column 2) = Some (VFloat (Fin (of_int x)))"
proof -
  let ?sts = "[\<lparr>pt_count = 1, pt_value = VNull\<rparr>, \<lparr>pt_count = 1, pt_value = VInt x\<rparr>, \<lparr>pt_count = 1, pt_value = VInt x\<rparr>]"
  let ?r = "partial_output rt [sample_column ''g''] ([VInt g], ?sts)"
  have names: "plain_names rt [sample_column ''g'']" by (simp add: plain_names_def qualified_name_def)
  have key: "?r ''g'' = Some (VInt g)"
    using partial_output_key [OF names, of "[VInt g]" 0 ?sts] by (simp add: qualified_name_def)
  note at = partial_output_state [of _ ?sts rt "[sample_column ''g'']" "[VInt g]"]
  have cells: "mapR (\<lambda>f. arrow_cell Fin (sf_type f) (field_value ?r f)) (sc_fields s)
      = mapR (\<lambda>(c, t). arrow_cell Fin t (case ?r c of None \<Rightarrow> VNull | Some v \<Rightarrow> v))
          (map (\<lambda>f. (sf_name f, sf_type f)) (sc_fields s))"
    by (simp add: mapR_on_map field_value_def)
  have names: "field_names s = map fst (map (\<lambda>f. (sf_name f, sf_type f)) (sc_fields s))" by (simp add: field_names_def)
  have other: "''g'' \<noteq> value_column 2" by (simp add: value_column_def)
  have range: "- 9223372036854775808 \<le> g" "g < 9223372036854775808" "- 9223372036854775808 \<le> x" "x < 9223372036854775808"
    using assms(2,3) by linarith+
  show ?thesis
    unfolding arrow_row_def cells names assms(1)
    using assms(2,3) at [of 0] at [of 1] at [of 2] other by (simp add: key arrow_cell_def arrow_value_def range)
qed

lemma sample_runs:
  "\<exists>bs. mapR (partial_aggregate (arrow ev) [sample_column ''g''] [sample_count, sample_sum, sample_avg] (\<lambda>_. False))
      [take 2 sample_rows, drop 2 sample_rows] = Inr bs
    \<and> map (\<lambda>r. r (value_column 2)) (concat (map bt_rows bs)) = map (\<lambda>i. Some (VFloat (Fin i))) [5, 7, 6]"
proof -
  let ?rt = "rt_of (arrow ev)" and ?by = "[sample_column ''g'']" and ?aggs = "[sample_count, sample_sum, sample_avg]"
  obtain s where s: "partial_schema ?rt ?by ?aggs = Inr s" and "distinct (field_names s)" and fields: "map (\<lambda>f. (sf_name f, sf_type f)) (sc_fields s)
      = [(''g'', T_INT64), (count_column 0, T_INT64), (value_column 0, T_INT64), (count_column 1, T_INT64),
         (value_column 1, T_INT64), (count_column 2, T_INT64), (value_column 2, T_FLOAT64)]"
    by (rule sample_partial_schema)
  have run: "partial_aggregate (arrow ev) ?by ?aggs (\<lambda>_. False) p
      = make_batch (arrow ev) s (map (partial_output ?rt ?by) (with_states ?rt ?aggs (row_groups ?rt ?by p)))"
    if "set p \<subseteq> set sample_rows" for p
    unfolding partial_aggregate_def foldR_checked partial_fold [OF aggregatable_subset [OF sample_fits(2) that]]
      bindR_simps s ..
  have sub: "set (take 2 sample_rows) \<subseteq> set sample_rows" "set (drop 2 sample_rows) \<subseteq> set sample_rows"
    by (rule set_take_subset, rule set_drop_subset)
  obtain r1 r2 r3 where rs: "arrow_row Fin s (partial_output ?rt ?by ([VInt 2], states_for ?rt ?aggs [[''g'' \<mapsto> VInt 2, ''x'' \<mapsto> VInt 5]])) = Inr r1"
      "arrow_row Fin s (partial_output ?rt ?by ([VInt 1], states_for ?rt ?aggs [[''g'' \<mapsto> VInt 1, ''x'' \<mapsto> VInt 7]])) = Inr r2"
      "arrow_row Fin s (partial_output ?rt ?by ([VInt 2], states_for ?rt ?aggs [[''g'' \<mapsto> VInt 2, ''x'' \<mapsto> VInt 6]])) = Inr r3"
      "r1 (value_column 2) = Some (VFloat (Fin 5))" "r2 (value_column 2) = Some (VFloat (Fin 7))"
      "r3 (value_column 2) = Some (VFloat (Fin 6))"
    using sample_converted [OF fields, of 2 5 ?rt] sample_converted [OF fields, of 1 7 ?rt]
      sample_converted [OF fields, of 2 6 ?rt] unfolding sample_states by auto
  show ?thesis
    by (rule exI [of _ "[\<lparr>bt_schema = s, bt_rows = [r1, r2]\<rparr>, \<lparr>bt_schema = s, bt_rows = [r3]\<rparr>]"])
      (simp add: run [OF sub(1)] run [OF sub(2)] sample_keys make_batch_def rs)
qed

theorem partial_aggregation_exact_witness:
  "\<forall>ev. \<exists>bs. mapR (partial_aggregate (arrow ev) [sample_column ''g''] [sample_count, sample_sum, sample_avg] (\<lambda>_. False))
        [take 2 sample_rows, drop 2 sample_rows] = Inr bs
    \<and> map (\<lambda>r. r (value_column 2)) (concat (map bt_rows bs)) = map (\<lambda>i. Some (VFloat (Fin i))) [5, 7, 6]
    \<and> final_aggregate (arrow ev) [sample_column ''g''] [sample_count, sample_sum, sample_avg] (\<lambda>_. False)
        (filter (\<lambda>r. True) (concat (map bt_rows bs)))
      = bindR (aggregate_rows (rt_of (arrow ev)) [] [sample_column ''g''] [sample_count, sample_sum, sample_avg]
          (filter (\<lambda>r. True) (concat [take 2 sample_rows, drop 2 sample_rows]))) (\<lambda>outs.
        bindR (schema_for_aggregate (rt_of (arrow ev)) [sample_column ''g''] [sample_count, sample_sum, sample_avg]) (\<lambda>s.
          make_batch (arrow ev) s outs))"
proof
  fix ev :: env
  let ?aggs = "[sample_count, sample_sum, sample_avg]" and ?parts = "[take 2 sample_rows, drop 2 sample_rows]"
  obtain bs where bs: "mapR (partial_aggregate (arrow ev) [sample_column ''g''] ?aggs (\<lambda>_. False)) ?parts = Inr bs"
      "map (\<lambda>r. r (value_column 2)) (concat (map bt_rows bs)) = map (\<lambda>i. Some (VFloat (Fin i))) [5, 7, 6]"
    using sample_runs by blast
  have rows: "concat ?parts = sample_rows" by simp
  have names: "plain_names rt [sample_column ''g'']" for rt by (simp add: plain_names_def qualified_name_def)
  have trips: "round_trips (arrow ev) s" if "partial_schema (rt_of (arrow ev)) [sample_column ''g''] ?aggs = Inr s" for s
  proof -
    obtain s' where "partial_schema (rt_of (arrow ev)) [sample_column ''g''] ?aggs = Inr s'" "distinct (field_names s')"
      by (rule sample_partial_schema)
    then show ?thesis using that by (intro arrow_round_trips) simp
  qed
  have exact: "final_aggregate (arrow ev) [sample_column ''g''] ?aggs (\<lambda>_. False)
      (filter (\<lambda>r. (\<lambda>_. True) (final_key (rt_of (arrow ev)) [sample_column ''g''] r)) (concat (map bt_rows bs)))
    = bindR (aggregate_rows (rt_of (arrow ev)) [] [sample_column ''g''] ?aggs
        (filter (\<lambda>r. (\<lambda>_. True) (the_key (rt_of (arrow ev)) [sample_column ''g''] r)) (concat ?parts))) (\<lambda>outs.
      bindR (schema_for_aggregate (rt_of (arrow ev)) [sample_column ''g''] ?aggs) (\<lambda>s.
        make_batch (arrow ev) s outs))"
  proof (rule partial_aggregation_exact)
    show "aggregatable (rt_of (arrow ev)) [sample_column ''g''] ?aggs (set (concat ?parts))"
      "columns_fit (rt_of (arrow ev)) [sample_column ''g''] ?aggs (set (concat ?parts))"
      "exact_sums (rt_of (arrow ev)) ?aggs (concat ?parts)" unfolding rows by (fact sample_fits)+
  qed (fact sample_fits(1) arrow_integral names bs(1) | erule trips | simp)+
  show "\<exists>bs. mapR (partial_aggregate (arrow ev) [sample_column ''g''] ?aggs (\<lambda>_. False)) ?parts = Inr bs
      \<and> map (\<lambda>r. r (value_column 2)) (concat (map bt_rows bs)) = map (\<lambda>i. Some (VFloat (Fin i))) [5, 7, 6]
      \<and> final_aggregate (arrow ev) [sample_column ''g''] ?aggs (\<lambda>_. False) (filter (\<lambda>r. True) (concat (map bt_rows bs)))
        = bindR (aggregate_rows (rt_of (arrow ev)) [] [sample_column ''g''] ?aggs
            (filter (\<lambda>r. True) (concat ?parts))) (\<lambda>outs.
          bindR (schema_for_aggregate (rt_of (arrow ev)) [sample_column ''g''] ?aggs) (\<lambda>s.
            make_batch (arrow ev) s outs))"
    by (intro exI [of _ bs] conjI bs) (use exact in simp)
qed

end
