(* ===== verification/WorkerTasks.thy ===== *)
theory WorkerTasks
  imports Shuffle Distributed Cbo
begin

text \<open>
  The Worker's task manager (\<open>worker/tasks.py\<close>): a submission is executed by a thread, its table is
  published as an immutable object, and an attempt that fails or is cancelled is cleaned up.  What the
  thread does is an action on the object store, whose token is the attempt's; the record of the attempt
  changes only on the event loop.  Parameters are Parquet and Pydantic (as in \<open>shuffle_env\<close>), the pickled
  plan, the data sources, \<open>Table.to_batches\<close>, the binder, the path a location string names, and how
  the readings of a clock lie to a deadline.
\<close>

section \<open>Submissions, results and their environment\<close>

datatype task_operation =
    OP_QUERY | OP_SCAN | OP_UNARY | OP_JOIN | OP_SHUFFLE_WRITE | OP_SHUFFLE_READ | OP_SLEEP

record task_submission =
  ts_task_id :: string
  ts_attempt_id :: string
  ts_query_id :: string
  ts_stage_id :: string
  ts_operation :: task_operation
  ts_payload :: "(string, json) dict"
  ts_output_location :: string

record artifact =
  ar_location :: location
  ar_size_bytes :: int
  ar_checksum :: string
  ar_row_count :: int

record task_metrics =
  tk_input_rows :: int
  tk_input_bytes :: int
  tk_output_rows :: int
  tk_output_bytes :: int
  tk_duration_seconds :: pyfloat
  tk_shuffle :: shuffle_metrics
  tk_spill :: spill_metrics

record task_result =
  rs_task_id :: string
  rs_attempt_id :: string
  rs_worker_id :: string
  rs_process_id :: int
  rs_artifact :: "artifact option"
  rs_manifests :: "shuffle_manifest list"
  rs_metrics :: task_metrics

record task_status =
  st_task_id :: string
  st_attempt_id :: string
  st_state :: attempt_state
  st_started_at :: "int option"
  st_result :: "task_result option"
  st_error :: "error_detail option"

record scan_file =
  sn_location :: string
  sn_format :: table_format
  sn_start :: int
  sn_length :: "int option"
  sn_record_count :: "int option"
  sn_partition_values :: json
  sn_delete_files :: "string list"

record worker_env = shuffle_env +
  we_worker_id :: string
  we_process_id :: int
  we_results :: string
  we_memory_limit :: int
  we_temp :: string
  we_start_polls :: "nat \<times> bool"
  we_polls :: "pyfloat \<Rightarrow> nat \<times> bool"
  we_locate :: "string \<Rightarrow> location"
  we_plan :: "json \<Rightarrow> plan res"
  we_table :: "json \<Rightarrow> catalog_table res"
  we_manifest :: "json \<Rightarrow> shuffle_manifest res"
  we_scan :: "catalog_table \<Rightarrow> string list \<Rightarrow> scan_file \<Rightarrow> batch res list"
  we_scan_schema :: "catalog_table \<Rightarrow> string list \<Rightarrow> scan_file \<Rightarrow> schema res"
  we_sources :: "catalog_table \<Rightarrow> (string list \<Rightarrow> int \<Rightarrow> unit batches) res"
  we_chunks :: "nat option \<Rightarrow> batch \<Rightarrow> batch list"
  we_bind :: "(string, catalog_table) dict \<Rightarrow> string \<Rightarrow> plan res"
  we_cost :: cost_runtime
  we_write_error :: "nat \<Rightarrow> (int \<times> string) option"
  we_file_size :: "row list \<Rightarrow> int"

abbreviation we_env :: "worker_env \<Rightarrow> env" where
  "we_env we \<equiv> env.truncate we"

abbreviation we_shuffle :: "worker_env \<Rightarrow> shuffle_env" where
  "we_shuffle we \<equiv> shuffle_env.truncate we"

section \<open>The payload\<close>

definition payload_get :: "task_submission \<Rightarrow> string \<Rightarrow> json option" where
  "payload_get sub name = dict_get (ts_payload sub) name"

text \<open>\<open>isinstance(value, int)\<close>, which holds of booleans too.\<close>

fun json_int :: "json \<Rightarrow> int option" where
  "json_int (JInt i) = Some i"
| "json_int (JBool b) = Some (if b then 1 else 0)"
| "json_int _ = None"

fun json_truth :: "json \<Rightarrow> bool" where
  "json_truth JNull = False"
| "json_truth (JBool b) = b"
| "json_truth (JInt i) = (i \<noteq> 0)"
| "json_truth (JFloat f) = (f \<noteq> Fin 0 \<and> f \<noteq> NegZero)"
| "json_truth (JStr s) = (s \<noteq> [])"
| "json_truth (JList js) = (js \<noteq> [])"
| "json_truth (JObject ms) = (ms \<noteq> [])"

definition string_payload :: "task_submission \<Rightarrow> string \<Rightarrow> string res" where
  "string_payload sub name = (case payload_get sub name of Some (JStr s) \<Rightarrow> Inr s | _ \<Rightarrow> Inl PyValueError)"

definition plan_payload :: "worker_env \<Rightarrow> task_submission \<Rightarrow> plan res" where
  "plan_payload we sub = we_plan we (case payload_get sub ''plan'' of None \<Rightarrow> JNull | Some j \<Rightarrow> j)"

definition optional_int :: "json option \<Rightarrow> int option \<Rightarrow> int option res" where
  "optional_int value dflt = (case value of
       None \<Rightarrow> Inr dflt
     | Some JNull \<Rightarrow> Inr dflt
     | Some j \<Rightarrow> (case json_int j of Some i \<Rightarrow> Inr (Some i) | None \<Rightarrow> Inl PyValueError))"

fun json_string_list :: "json \<Rightarrow> string list res" where
  "json_string_list (JList js) = mapR (\<lambda>j. case j of JStr s \<Rightarrow> Inr s | _ \<Rightarrow> Inl PyValueError) js"
| "json_string_list _ = Inl PyValueError"

fun table_format_of :: "string \<Rightarrow> table_format res" where
  "table_format_of s =
     (if s = ''csv'' then Inr F_CSV else if s = ''parquet'' then Inr F_PARQUET
      else if s = ''avro'' then Inr F_AVRO else if s = ''orc'' then Inr F_ORC
      else if s = ''iceberg'' then Inr F_ICEBERG else Inl PyValueError)"

section \<open>Objects\<close>

definition delete_object :: "location \<Rightarrow> (object_store, unit) action" where
  "delete_object loc s =
     (let s' = s\<lparr>os_calls := Suc (os_calls s)\<rparr> in
      case os_faults s (os_calls s) of
        Some (e, _) \<Rightarrow> (Inl e, s')
      | None \<Rightarrow> (Inr (), s'\<lparr>os_objects := (os_objects s)(loc := None)\<rparr>))"

text \<open>A \<open>ShuffleStore\<close> appends its locations to its root.\<close>

definition at_root :: "location \<Rightarrow> (object_store, 'a) action \<Rightarrow> (object_store, 'a) action" where
  "at_root base act s =
     (case act (s\<lparr>os_objects := \<lambda>loc. os_objects s (base @ loc)\<rparr>) of (r, s1) \<Rightarrow>
        (r, s1\<lparr>os_objects := \<lambda>loc. if take (length base) loc = base
                 then os_objects s1 (drop (length base) loc) else os_objects s loc\<rparr>))"

definition read_table :: "worker_env \<Rightarrow> string \<Rightarrow> (object_store, batch \<times> int) action" where
  "read_table we loc = bindA (read_bytes (we_locate we loc)) (\<lambda>payload.
     bindA (liftA (se_decode we payload)) (\<lambda>table. retA (table, int (length payload))))"

definition output_location :: "worker_env \<Rightarrow> task_submission \<Rightarrow> location" where
  "output_location we sub = (let s = ts_output_location sub in
     we_locate we (if take 10 s = ''worker:///'' then we_results we @ ''/'' @ drop 10 s else s))"

text \<open>
  \<open>while monotonic() < deadline: check(); sleep(min(0.01, deadline - monotonic()))\<close>: \<open>n\<close> turns, and
  with \<open>late\<close> one more in which the deadline passes before the second reading of the clock, so that the
  duration is negative.
\<close>

definition poll_token :: "nat \<times> bool \<Rightarrow> (object_store, unit) action" where
  "poll_token = (\<lambda>(n, late). bindA (foldA (\<lambda>_ _. check_token) () [0..<n]) (\<lambda>_.
     if late then bindA check_token (\<lambda>_. raiseA PyValueError) else retA ()))"

section \<open>The thread\<close>

text \<open>An operator runs in a context of its own with the attempt's token; the context is closed.\<close>

definition task_context :: "worker_env \<Rightarrow> task_submission \<Rightarrow> object_store \<Rightarrow> ctx res" where
  "task_context we sub s = new_context 65536 (we_memory_limit we) [] None (ts_query_id sub) (ts_attempt_id sub)
     (we_temp we) (ts_attempt_id sub) (\<lambda>n. os_cancelled s (os_checks s + n)) (we_write_error we) (we_file_size we)"

definition run_operator ::
    "worker_env \<Rightarrow> task_submission \<Rightarrow> plan \<Rightarrow> unit batches \<Rightarrow> (object_store, batch \<times> spill_metrics) action" where
  "run_operator we sub p g s =
     (case task_context we sub s of
        Inl e \<Rightarrow> (Inl e, s)
      | Inr c \<Rightarrow> (case run g c of (bs, out, c1) \<Rightarrow>
          let s1 = s\<lparr>os_checks := os_checks s + cx_ticks c1\<rparr> in
          (bindR (close_context c1) (\<lambda>c2. bindR out (\<lambda>_. bindR (executed_table p bs) (\<lambda>table.
             Inr (table, cx_spill c2)))), s1)))"

type_synonym counted_table = "batch \<times> spill_metrics \<times> int \<times> int"

definition is_unary_plan :: "plan \<Rightarrow> bool" where
  "is_unary_plan p = (case p of
       Project i q es s \<Rightarrow> True | Filter i q e s ph \<Rightarrow> True | Limit i q k s \<Rightarrow> True
     | Order i q os s \<Rightarrow> True | Aggregate i q gs as s \<Rightarrow> True | GroupingSets i q gs as s \<Rightarrow> True
     | Window i q es s \<Rightarrow> True | _ \<Rightarrow> False)"

definition execute_unary :: "worker_env \<Rightarrow> task_submission \<Rightarrow> (object_store, counted_table) action" where
  "execute_unary we sub =
     bindA (liftA (plan_payload we sub)) (\<lambda>p.
     if \<not> is_unary_plan p then raiseA PyValueError else
     bindA (liftA (string_payload sub ''input_location'')) (\<lambda>loc.
     bindA (read_table we loc) (\<lambda>(input, n).
     bindA (liftA (task_operator (we_env we) (node_id p) (bt_schema input) (we_chunks we (Some 65536) input) p)) (\<lambda>g.
     bindA (run_operator we sub p g) (\<lambda>(table, spill).
       retA (table, spill, int (length (bt_rows input)), n))))))"

definition execute_join :: "worker_env \<Rightarrow> task_submission \<Rightarrow> (object_store, counted_table) action" where
  "execute_join we sub =
     bindA (liftA (plan_payload we sub)) (\<lambda>p. case p of
       Join i l r jt c s inlim b \<Rightarrow>
         bindA (liftA (string_payload sub ''left_location'')) (\<lambda>lloc.
         bindA (read_table we lloc) (\<lambda>(left, nl).
         bindA (liftA (string_payload sub ''right_location'')) (\<lambda>rloc.
         bindA (read_table we rloc) (\<lambda>(right, nr).
         bindA (liftA (join_task (we_env we) i (we_chunks we None left) (we_chunks we None right) p)) (\<lambda>g.
         bindA (run_operator we sub p g) (\<lambda>(table, spill).
           retA (table, spill, int (length (bt_rows left) + length (bt_rows right)), nl + nr)))))))
     | _ \<Rightarrow> raiseA PyValueError)"

definition scan_file_of :: "(string \<times> json) list \<Rightarrow> scan_file res" where
  "scan_file_of ms = (case (dict_get ms ''location'', dict_get ms ''format'') of
       (Some (JStr loc), Some (JStr fmt)) \<Rightarrow>
         bindR (table_format_of fmt) (\<lambda>f.
         bindR (optional_int (dict_get ms ''start'') (Some 0)) (\<lambda>start.
         bindR (optional_int (dict_get ms ''length'') None) (\<lambda>len.
         bindR (optional_int (dict_get ms ''record_count'') None) (\<lambda>records.
         bindR (json_string_list (case dict_get ms ''delete_files'' of None \<Rightarrow> JList [] | Some j \<Rightarrow> j)) (\<lambda>dels.
           Inr \<lparr>sn_location = loc, sn_format = f, sn_start = (case start of None \<Rightarrow> 0 | Some i \<Rightarrow> i),
                sn_length = len, sn_record_count = records,
                sn_partition_values = (case dict_get ms ''partition_values'' of None \<Rightarrow> JObject [] | Some j \<Rightarrow> j),
                sn_delete_files = dels\<rparr>)))))
     | _ \<Rightarrow> Inl PyValueError)"

definition execute_scan :: "worker_env \<Rightarrow> task_submission \<Rightarrow> (object_store, batch) action" where
  "execute_scan we sub =
     bindA (liftA (plan_payload we sub)) (\<lambda>p. case p of
       Scan i t alias s \<Rightarrow> (case (payload_get sub ''table'', payload_get sub ''file_task'') of
           (Some (JObject tm), Some (JObject fm)) \<Rightarrow>
             bindA (liftA (we_table we (JObject tm))) (\<lambda>table.
             bindA (liftA (scan_file_of fm)) (\<lambda>file.
             bindA (foldA (\<lambda>bs item. bindA (liftA item) (\<lambda>b. bindA check_token (\<lambda>_.
                      retA (bs @ [rename_columns alias b])))) [] (we_scan we table (field_names s) file)) (\<lambda>bs.
             bindA (liftA (we_scan_schema we table (field_names s) file)) (\<lambda>arrow.
               if length (sc_fields s) \<noteq> length (sc_fields arrow) then raiseA PyValueError
               else liftA (make_batch (we_env we)
                      \<lparr>sc_fields = map (\<lambda>(f, a). plain_field (alias @ ''.'' @ sf_name f) (sf_type a) (sf_nullable f))
                         (zip (sc_fields s) (sc_fields arrow)), sc_metadata = []\<rparr> (concat (map bt_rows bs)))))))
         | _ \<Rightarrow> raiseA PyValueError)
     | _ \<Rightarrow> raiseA PyValueError)"

definition scan_input_bytes :: "worker_env \<Rightarrow> task_submission \<Rightarrow> (object_store, int) action" where
  "scan_input_bytes we sub = (case payload_get sub ''file_task'' of
       Some (JObject ms) \<Rightarrow> (case map_option json_int (dict_get ms ''length'') of
           Some (Some n) \<Rightarrow> retA n
         | _ \<Rightarrow> (case dict_get ms ''location'' of
             Some (JStr loc) \<Rightarrow> bindA (read_bytes (we_locate we loc)) (\<lambda>data. retA (int (length data)))
           | _ \<Rightarrow> raiseA PyValueError))
     | _ \<Rightarrow> raiseA PyValueError)"

text \<open>A whole query on one Worker.\<close>

definition execute_query :: "worker_env \<Rightarrow> task_submission \<Rightarrow> (object_store, batch \<times> spill_metrics) action" where
  "execute_query we sub = (case (payload_get sub ''sql'', payload_get sub ''tables'') of
       (Some (JStr sql), Some (JList raws)) \<Rightarrow>
         bindA (liftA (mapR (we_table we) raws)) (\<lambda>ts.
         let tables = dict_update [] (map (\<lambda>t. (ct_namespace t @ ''.'' @ ct_name t, t)) ts);
             ex = \<lparr>le_tables = dict_get (casefold_keys tables), le_sources = we_sources we\<rparr>;
             rt = py_runtime.truncate (we_cost we) in
         bindA (liftA (we_bind we tables sql)) (\<lambda>bound.
         bindA (liftA (make_cost_model (we_cost we) tables 2 (64 * 1024 * 1024) (10 * 1024 * 1024))) (\<lambda>cm.
         bindA (liftA (cost_based_optimize (we_cost we) cm (optimize rt (default_rules rt) 32) bound)) (\<lambda>opt.
           run_operator we sub (cb_optimized_plan opt) (execute_plan (we_env we) ex (cb_optimized_plan opt))))))
     | (None, _) \<Rightarrow> raiseA PyKeyError
     | (_, None) \<Rightarrow> raiseA PyKeyError
     | _ \<Rightarrow> raiseA PyTypeError)"

section \<open>The result of a thread\<close>

definition make_task_metrics :: "task_metrics \<Rightarrow> task_metrics res" where
  "make_task_metrics m =
     (if 0 \<le> tk_input_rows m \<and> 0 \<le> tk_input_bytes m \<and> 0 \<le> tk_output_rows m \<and> 0 \<le> tk_output_bytes m
         \<and> fle (Fin 0) (tk_duration_seconds m) \<and> is_ok (make_shuffle_metrics (tk_shuffle m))
         \<and> 0 \<le> spill_bytes (tk_spill m) \<and> 0 \<le> spill_files (tk_spill m) \<and> 0 \<le> spill_count (tk_spill m)
         \<and> 0 \<le> peak_memory_bytes (tk_spill m) \<and> 0 \<le> external_sort_runs (tk_spill m)
         \<and> 0 \<le> hash_partitions (tk_spill m) \<and> 0 \<le> sort_merge_fallbacks (tk_spill m)
         \<and> 0 \<le> sort_aggregate_runs (tk_spill m)
      then Inr m else Inl PyValueError)"

definition make_task_result :: "task_result \<Rightarrow> task_result res" where
  "make_task_result r = (if 0 < rs_process_id r then Inr r else Inl PyValueError)"

definition task_result_of ::
    "worker_env \<Rightarrow> task_submission \<Rightarrow> artifact option \<Rightarrow> shuffle_manifest list \<Rightarrow> task_metrics \<Rightarrow> task_result res" where
  "task_result_of we sub art manifests metrics = make_task_result
     \<lparr>rs_task_id = ts_task_id sub, rs_attempt_id = ts_attempt_id sub, rs_worker_id = we_worker_id we,
      rs_process_id = we_process_id we, rs_artifact = art, rs_manifests = manifests, rs_metrics = metrics\<rparr>"

text \<open>\<open>source, separator, name = qualified_name.rpartition(".")\<close>.\<close>

definition key_column :: "string \<Rightarrow> expr" where
  "key_column q =
     (if CHR ''.'' \<in> set q
      then Column (rev (takeWhile (\<lambda>c. c \<noteq> CHR ''.'') (rev q)))
             (rev (tl (dropWhile (\<lambda>c. c \<noteq> CHR ''.'') (rev q)))) (TypeInfo T_NULL True)
      else Column q [] (TypeInfo T_NULL True))"

definition execute_shuffle_write ::
    "worker_env \<Rightarrow> task_submission \<Rightarrow> pyfloat \<Rightarrow> pyfloat \<Rightarrow> (object_store, task_result) action" where
  "execute_shuffle_write we sub write_seconds seconds =
     bindA (liftA (string_payload sub ''source_location'')) (\<lambda>source.
     bindA (liftA (string_payload sub ''shuffle_root'')) (\<lambda>base.
     bindA (liftA (case payload_get sub ''partition_count'' of None \<Rightarrow> Inr 1
              | Some j \<Rightarrow> some_or PyValueError (json_int j))) (\<lambda>n.
     bindA (liftA (json_string_list (case payload_get sub ''keys'' of None \<Rightarrow> JList [] | Some j \<Rightarrow> j))) (\<lambda>ks.
     bindA (read_table we source) (\<lambda>(table, size).
     bindA (at_root (we_locate we base) (shuffle_write (we_shuffle we) (ts_query_id sub) (ts_stage_id sub)
              (ts_task_id sub) (ts_attempt_id sub) table n (map key_column ks)
              (case payload_get sub ''broadcast'' of None \<Rightarrow> False | Some j \<Rightarrow> json_truth j) write_seconds)) (\<lambda>m.
     bindA (liftA (make_task_metrics
        \<lparr>tk_input_rows = int (length (bt_rows table)), tk_input_bytes = size,
         tk_output_rows = sm_records_written (mf_metrics m), tk_output_bytes = sm_bytes_written (mf_metrics m),
         tk_duration_seconds = seconds,
         tk_shuffle = no_shuffle_metrics\<lparr>sm_records_written := sm_records_written (mf_metrics m),
           sm_bytes_written := sm_bytes_written (mf_metrics m), sm_write_seconds := sm_write_seconds (mf_metrics m)\<rparr>,
         tk_spill = no_spills\<rparr>)) (\<lambda>metrics.
       liftA (task_result_of we sub None [m] metrics))))))))"

definition shuffle_read_arguments :: "worker_env \<Rightarrow> task_submission \<Rightarrow> (shuffle_manifest list \<times> int \<times> string) res" where
  "shuffle_read_arguments we sub =
     bindR (string_payload sub ''shuffle_root'') (\<lambda>base.
       case (payload_get sub ''manifests'', map_option json_int (payload_get sub ''partition'')) of
         (Some (JList raws), Some (Some part)) \<Rightarrow>
           bindR (mapR (we_manifest we) raws) (\<lambda>ms. Inr (ms, part, base))
       | _ \<Rightarrow> Inl PyValueError)"

text \<open>The seconds of a sleeping task.\<close>

definition sleep_seconds :: "worker_env \<Rightarrow> task_submission \<Rightarrow> pyfloat res" where
  "sleep_seconds we sub = (let rt = rt_of (we_env we) in case payload_get sub ''seconds'' of
       None \<Rightarrow> py_float rt (VInt 0)
     | Some (JInt i) \<Rightarrow> py_float rt (VInt i)
     | Some (JBool b) \<Rightarrow> py_float rt (VBool b)
     | Some (JFloat f) \<Rightarrow> Inr f
     | Some (JStr s) \<Rightarrow> py_float rt (VStr s)
     | _ \<Rightarrow> Inl PyValueError)"

definition sleep_table :: "worker_env \<Rightarrow> batch" where
  "sleep_table we = \<lparr>bt_schema = \<lparr>sc_fields = [plain_field ''worker_id'' T_STRING True,
       plain_field ''process_id'' T_INT64 True], sc_metadata = []\<rparr>,
     bt_rows = [[''worker_id'' \<mapsto> VStr (we_worker_id we), ''process_id'' \<mapsto> VInt (we_process_id we)]]\<rparr>"

definition no_input :: "batch \<Rightarrow> batch \<times> task_metrics" where
  "no_input table = (table, \<lparr>tk_input_rows = 0, tk_input_bytes = 0, tk_output_rows = 0, tk_output_bytes = 0,
     tk_duration_seconds = Fin 0, tk_shuffle = no_shuffle_metrics, tk_spill = no_spills\<rparr>)"

text \<open>The table of every operation but \<open>SHUFFLE_WRITE\<close>, with the counters of its input.\<close>

definition task_table ::
    "worker_env \<Rightarrow> task_submission \<Rightarrow> pyfloat \<Rightarrow> (object_store, batch \<times> task_metrics) action" where
  "task_table we sub read_seconds =
     (let counted = (\<lambda>(table, spill, rows, bytes). retA (apsnd (\<lambda>m. m\<lparr>tk_input_rows := rows,
                        tk_input_bytes := bytes, tk_spill := spill\<rparr>) (no_input table))) in
      case ts_operation sub of
        OP_SLEEP \<Rightarrow> bindA (liftA (sleep_seconds we sub)) (\<lambda>secs.
          bindA (poll_token (we_polls we secs)) (\<lambda>_. retA (no_input (sleep_table we))))
      | OP_SHUFFLE_READ \<Rightarrow> bindA (liftA (shuffle_read_arguments we sub)) (\<lambda>(manifests, part, base).
          bindA (at_root (we_locate we base) (if part < 0 \<and> manifests \<noteq> [] then bindA check_token (\<lambda>_. raiseA PyValueError)
             else read_partition (we_shuffle we) manifests (nat part) read_seconds)) (\<lambda>(table, m).
          retA (apsnd (\<lambda>k. k\<lparr>tk_input_rows := sm_records_read m, tk_input_bytes := sm_bytes_read m,
            tk_shuffle := no_shuffle_metrics\<lparr>sm_records_read := sm_records_read m,
              sm_bytes_read := sm_bytes_read m, sm_read_seconds := sm_read_seconds m\<rparr>\<rparr>) (no_input table))))
      | OP_SCAN \<Rightarrow> bindA (execute_scan we sub) (\<lambda>table. bindA (scan_input_bytes we sub) (\<lambda>n.
          counted (table, no_spills, int (length (bt_rows table)), n)))
      | OP_UNARY \<Rightarrow> bindA (execute_unary we sub) counted
      | OP_JOIN \<Rightarrow> bindA (execute_join we sub) counted
      | _ \<Rightarrow> bindA (execute_query we sub) (\<lambda>(table, spill). counted (table, spill, 0, 0)))"

text \<open>The table is published between checks of the token.\<close>

definition publish_table ::
    "worker_env \<Rightarrow> task_submission \<Rightarrow> pyfloat \<Rightarrow> batch \<times> task_metrics \<Rightarrow> (object_store, task_result) action" where
  "publish_table we sub seconds = (\<lambda>(table, metrics).
     bindA check_token (\<lambda>_.
     bindA (liftA (se_encode we table)) (\<lambda>payload.
     bindA check_token (\<lambda>_.
     bindA (publish_bytes (output_location we sub) payload) (\<lambda>_.
     bindA check_token (\<lambda>_.
     let art = \<lparr>ar_location = output_location we sub, ar_size_bytes = int (length payload),
                ar_checksum = hexdigest we payload, ar_row_count = int (length (bt_rows table))\<rparr> in
     bindA (liftA (make_task_metrics (metrics\<lparr>tk_output_rows := ar_row_count art,
              tk_output_bytes := ar_size_bytes art, tk_duration_seconds := seconds\<rparr>))) (\<lambda>m.
       liftA (task_result_of we sub (Some art) [] m))))))))"

definition execute_sync ::
    "worker_env \<Rightarrow> task_submission \<Rightarrow> pyfloat \<Rightarrow> pyfloat \<Rightarrow> (object_store, task_result) action" where
  "execute_sync we sub io_seconds seconds =
     bindA (poll_token (we_start_polls we)) (\<lambda>_.
       if ts_operation sub = OP_SHUFFLE_WRITE then execute_shuffle_write we sub io_seconds seconds
       else bindA (task_table we sub io_seconds) (publish_table we sub seconds))"

section \<open>Cleaning up\<close>

text \<open>The locations of the files of a manifest are relative to the root of the submission.\<close>

definition shuffle_base :: "worker_env \<Rightarrow> task_submission \<Rightarrow> location" where
  "shuffle_base we sub = (case payload_get sub ''shuffle_root'' of Some (JStr base) \<Rightarrow> we_locate we base | _ \<Rightarrow> [])"

definition delete_all :: "location list \<Rightarrow> (object_store, unit) action" where
  "delete_all locs = foldA (\<lambda>_ loc. delete_object loc) () locs"

definition delete_manifest :: "worker_env \<Rightarrow> task_submission \<Rightarrow> shuffle_manifest \<Rightarrow> (object_store, unit) action" where
  "delete_manifest we sub m =
     (let locs = map (\<lambda>f. shuffle_base we sub @ fl_location f) (mf_files m) in
      bindA (delete_all locs) (\<lambda>_. case locs of
          [] \<Rightarrow> raiseA PyIndexError
        | loc # _ \<Rightarrow> delete_object (butlast loc @ [''manifest.json''])))"

definition delete_result :: "worker_env \<Rightarrow> task_submission \<Rightarrow> task_result \<Rightarrow> (object_store, unit) action" where
  "delete_result we sub r =
     bindA (case rs_artifact r of None \<Rightarrow> retA () | Some a \<Rightarrow> delete_object (ar_location a)) (\<lambda>_.
       foldA (\<lambda>_ m. delete_manifest we sub m) () (rs_manifests r))"

definition cleanup_submission :: "worker_env \<Rightarrow> task_submission \<Rightarrow> (object_store, unit) action" where
  "cleanup_submission we sub =
     (if ts_operation sub \<noteq> OP_SHUFFLE_WRITE then retA ()
      else case (payload_get sub ''shuffle_root'', map_option json_int (payload_get sub ''partition_count'')) of
          (Some (JStr base), Some (Some n)) \<Rightarrow>
            bindA (delete_all (map (\<lambda>part. we_locate we base @ data_location we (ts_query_id sub) (ts_stage_id sub)
                      (ts_task_id sub) (ts_attempt_id sub) part) [0..<nat n])) (\<lambda>_.
              delete_object (we_locate we base @ manifest_location we (ts_query_id sub) (ts_stage_id sub)
                (ts_task_id sub) (ts_attempt_id sub)))
        | _ \<Rightarrow> retA ())"

section \<open>The record of an attempt\<close>

datatype task_phase = Task_Scheduled | Task_Running | Task_Ended "exn option"

record task_record =
  tr_submission :: task_submission
  tr_status :: task_status
  tr_cancelled :: bool
  tr_phase :: task_phase

definition task_error_context :: "worker_env \<Rightarrow> task_submission \<Rightarrow> err_context" where
  "task_error_context we sub = [(''query_id'', CStr (ts_query_id sub)), (''stage_id'', CStr (ts_stage_id sub)),
     (''task_id'', CStr (ts_task_id sub)), (''attempt_id'', CStr (ts_attempt_id sub)),
     (''worker_id'', CStr (we_worker_id we))]"

definition end_attempt :: "attempt_state \<Rightarrow> task_record \<Rightarrow> task_record" where
  "end_attempt st r = r\<lparr>tr_status := (tr_status r)\<lparr>st_state := st\<rparr>, tr_phase := Task_Ended None\<rparr>"

text \<open>The \<open>except\<close> clauses; an exception in one of them ends the future and leaves the status.\<close>

definition fail_attempt :: "worker_env \<Rightarrow> exn \<Rightarrow> task_record \<Rightarrow> object_store \<Rightarrow> task_record \<times> object_store" where
  "fail_attempt we e r s = (let sub = tr_submission r in
     case bindA (cleanup_submission we sub) (\<lambda>_. delete_object (output_location we sub)) s of
       (Inl e', s') \<Rightarrow> (r\<lparr>tr_phase := Task_Ended (Some e')\<rparr>, s')
     | (Inr _, s') \<Rightarrow>
         ((if e = AsyncCancelled then (end_attempt AS_CANCELED r)\<lparr>tr_phase := Task_Ended (Some e)\<rparr>
           else end_attempt (if tr_cancelled r then AS_CANCELED else AS_FAILED)
             (r\<lparr>tr_status := (tr_status r)\<lparr>st_error := Some (public_task_error e (task_error_context we sub))\<rparr>\<rparr>)), s'))"

definition start_attempt :: "int \<Rightarrow> task_record \<Rightarrow> task_record" where
  "start_attempt now r = r\<lparr>tr_status := (tr_status r)\<lparr>st_state := AS_RUNNING, st_started_at := Some now\<rparr>,
     tr_phase := Task_Running\<rparr>"

text \<open>What follows the thread: \<open>out\<close> is its result.\<close>

definition finish_task ::
    "worker_env \<Rightarrow> task_result res \<Rightarrow> task_record \<Rightarrow> object_store \<Rightarrow> task_record \<times> object_store" where
  "finish_task we out r s = (case out of
       Inl e \<Rightarrow> fail_attempt we e r s
     | Inr result \<Rightarrow>
         if tr_cancelled r then
           (case bindA (delete_result we (tr_submission r) result) (\<lambda>_.
                   delete_object (output_location we (tr_submission r))) s of
              (Inl e, s') \<Rightarrow> fail_attempt we e r s'
            | (Inr _, s') \<Rightarrow> (end_attempt AS_CANCELED r, s'))
         else (end_attempt AS_SUCCEEDED (r\<lparr>tr_status := (tr_status r)\<lparr>st_result := Some result\<rparr>\<rparr>), s))"

section \<open>The manager\<close>

type_synonym manager = "(string, task_record) dict"

definition new_record :: "task_submission \<Rightarrow> task_record" where
  "new_record sub = \<lparr>tr_submission = sub,
     tr_status = \<lparr>st_task_id = ts_task_id sub, st_attempt_id = ts_attempt_id sub, st_state = AS_CREATED,
                  st_started_at = None, st_result = None, st_error = None\<rparr>,
     tr_cancelled = False, tr_phase = Task_Scheduled\<rparr>"

definition submit_task :: "task_submission \<Rightarrow> manager \<Rightarrow> task_status res \<times> manager" where
  "submit_task sub m = (case dict_get m (ts_attempt_id sub) of
       Some r \<Rightarrow> (if tr_submission r \<noteq> sub then Inl PyValueError else Inr (tr_status r), m)
     | None \<Rightarrow> (Inr (tr_status (new_record sub)), dict_set m (ts_attempt_id sub) (new_record sub)))"

definition status_of :: "manager \<Rightarrow> string \<Rightarrow> task_status option" where
  "status_of m a = map_option tr_status (dict_get m a)"

definition list_statuses :: "manager \<Rightarrow> task_status list" where
  "list_statuses m = map tr_status (sort_key (\<lambda>r. ts_attempt_id (tr_submission r)) (map snd m))"

text \<open>\<open>cancel\<close> up to its \<open>await\<close>, and what it returns when the attempt ended or the time ran out.\<close>

datatype cancel_reply = Unknown_Attempt | Already_Ended task_status | Await_End

definition cancel_task :: "string \<Rightarrow> manager \<Rightarrow> cancel_reply \<times> manager" where
  "cancel_task a m = (case dict_get m a of
       None \<Rightarrow> (Unknown_Attempt, m)
     | Some r \<Rightarrow>
         if st_state (tr_status r) \<in> {AS_CREATED, AS_RUNNING}
         then (Await_End, dict_set m a (r\<lparr>tr_cancelled := True\<rparr>))
         else (Already_Ended (tr_status r), m))"

definition cancel_awaited :: "worker_env \<Rightarrow> bool \<Rightarrow> task_record \<Rightarrow> task_status res" where
  "cancel_awaited we timed_out r =
     (if timed_out then Inl (raise_domain TASK_FAILED
        ''Worker Task cancellation was not confirmed before the timeout.'' 504 (task_error_context we (tr_submission r)))
      else case tr_phase r of Task_Ended (Some e) \<Rightarrow> Inl e | _ \<Rightarrow> Inr (tr_status r))"

definition close_tasks :: "manager \<Rightarrow> manager" where
  "close_tasks m = map (apsnd (\<lambda>r. r\<lparr>tr_cancelled := True\<rparr>)) m"

definition result_bytes :: "task_status \<Rightarrow> (object_store, string) action" where
  "result_bytes st = (case st_result st of
       None \<Rightarrow> raiseA PyValueError
     | Some r \<Rightarrow> (case rs_artifact r of None \<Rightarrow> raiseA PyValueError | Some a \<Rightarrow> read_bytes (ar_location a)))"

text \<open>
  The steps of the manager, whatever the store is; the thread and the clean-up see it as others left it.
  Cancelling the future of a running attempt (\<open>close\<close> ran out of time) interrupts its \<open>await\<close>, not its thread.
\<close>

inductive task_step :: "worker_env \<Rightarrow> manager \<Rightarrow> manager \<Rightarrow> bool" for we where
  Submit: "task_step we m (snd (submit_task sub m))"
| Start: "dict_get m a = Some r \<Longrightarrow> tr_phase r = Task_Scheduled
    \<Longrightarrow> task_step we m (dict_set m a (start_attempt now r))"
| Finish: "dict_get m a = Some r \<Longrightarrow> tr_phase r = Task_Running
    \<Longrightarrow> execute_sync we (tr_submission r) io secs s0 = (out, s1)
    \<Longrightarrow> task_step we m (dict_set m a (fst (finish_task we out r s)))"
| Interrupt: "dict_get m a = Some r \<Longrightarrow> tr_phase r = Task_Running
    \<Longrightarrow> task_step we m (dict_set m a (fst (finish_task we (Inl AsyncCancelled) r s)))"
| Cancel: "task_step we m (snd (cancel_task a m))"
| Close: "task_step we m (close_tasks m)"

section \<open>The manager, its threads and the store\<close>

text \<open>What an attempt may write: its table, and for a shuffle write the files of its partitions and their manifest.\<close>

definition own_objects :: "worker_env \<Rightarrow> task_submission \<Rightarrow> location set" where
  "own_objects we sub = insert (output_location we sub)
     (if ts_operation sub \<noteq> OP_SHUFFLE_WRITE then {}
      else case (payload_get sub ''shuffle_root'', map_option json_int (payload_get sub ''partition_count'')) of
          (Some (JStr base), Some (Some n)) \<Rightarrow> (@) (we_locate we base) `
            (data_location we (ts_query_id sub) (ts_stage_id sub) (ts_task_id sub) (ts_attempt_id sub) ` {..<nat n}
             \<union> {manifest_location we (ts_query_id sub) (ts_stage_id sub) (ts_task_id sub) (ts_attempt_id sub)})
        | _ \<Rightarrow> {})"

text \<open>
  A thread runs on its own: \<open>Thread_Over\<close> holds what it returned while its attempt waited for it, and
  \<open>Thread_Late\<close> marks a thread that ended after the \<open>await\<close> of its attempt had been interrupted.
\<close>

datatype thread = Thread_Live | Thread_Over "task_result res" | Thread_Late

record worker_process =
  wk_manager :: manager
  wk_threads :: "string \<rightharpoonup> thread"
  wk_store :: object_store

text \<open>
  The event loop, the threads and everybody else who uses the store.  What a thread does counts as done when
  it ends; \<open>tokens\<close> is what the checks of its token answer.  Others do not write the objects of an attempt,
  but may delete them, and decide which requests fail.
\<close>

inductive worker_step :: "worker_env \<Rightarrow> worker_process \<Rightarrow> worker_process \<Rightarrow> bool" for we where
  Submitted: "worker_step we w (w\<lparr>wk_manager := snd (submit_task sub (wk_manager w))\<rparr>)"
| Cancelled: "worker_step we w (w\<lparr>wk_manager := snd (cancel_task a (wk_manager w))\<rparr>)"
| Closed: "worker_step we w (w\<lparr>wk_manager := close_tasks (wk_manager w)\<rparr>)"
| Started: "dict_get (wk_manager w) a = Some r \<Longrightarrow> tr_phase r = Task_Scheduled
    \<Longrightarrow> worker_step we w (w\<lparr>wk_manager := dict_set (wk_manager w) a (start_attempt now r),
          wk_threads := (wk_threads w)(a \<mapsto> Thread_Live)\<rparr>)"
| Ran: "dict_get (wk_manager w) a = Some r \<Longrightarrow> wk_threads w a = Some Thread_Live
    \<Longrightarrow> execute_sync we (tr_submission r) io secs ((wk_store w)\<lparr>os_checks := 0, os_cancelled := tokens\<rparr>) = (out, s)
    \<Longrightarrow> worker_step we w (w\<lparr>wk_store := s,
          wk_threads := (wk_threads w)(a \<mapsto> if tr_phase r = Task_Running then Thread_Over out else Thread_Late)\<rparr>)"
| Finished: "dict_get (wk_manager w) a = Some r \<Longrightarrow> tr_phase r = Task_Running
    \<Longrightarrow> wk_threads w a = Some (Thread_Over out) \<Longrightarrow> finish_task we out r (wk_store w) = (r', s)
    \<Longrightarrow> worker_step we w (w\<lparr>wk_manager := dict_set (wk_manager w) a r', wk_store := s\<rparr>)"
| Interrupted: "dict_get (wk_manager w) a = Some r \<Longrightarrow> tr_phase r = Task_Running
    \<Longrightarrow> finish_task we (Inl AsyncCancelled) r (wk_store w) = (r', s)
    \<Longrightarrow> worker_step we w (w\<lparr>wk_manager := dict_set (wk_manager w) a r', wk_store := s\<rparr>)"
| Others: "(\<And>a r loc. dict_get (wk_manager w) a = Some r \<Longrightarrow> loc \<in> own_objects we (tr_submission r)
        \<Longrightarrow> os_objects s loc = os_objects (wk_store w) loc \<or> os_objects s loc = None)
    \<Longrightarrow> worker_step we w (w\<lparr>wk_store := s\<rparr>)"

end
