(* ===== verification/WorkerLaws.thy ===== *)
theory WorkerLaws
  imports WorkerTasks ShuffleLaws OperatorLaws
begin

text \<open>
  The life of an attempt on a Worker: its record keeps its submission and, once ended, its outcome; what
  a failed or cancelled attempt wrote is deleted, and what a successful one published is its table.
\<close>

section \<open>Which objects an action changes\<close>

definition touches :: "location set \<Rightarrow> (object_store, 'a) action \<Rightarrow> bool" where
  "touches L act \<longleftrightarrow> (\<forall>s r s'. act s = (r, s') \<longrightarrow> (\<forall>loc. loc \<notin> L \<longrightarrow> os_objects s' loc = os_objects s loc))"

named_theorems touching \<open>the objects an action changes\<close>

lemma touchesD: "touches L act \<Longrightarrow> act s = (r, s') \<Longrightarrow> loc \<notin> L \<Longrightarrow> os_objects s' loc = os_objects s loc"
  unfolding touches_def by blast

lemma touches_simple [touching]:
  "touches L (retA x)" "touches L (raiseA e)" "touches L (liftA m)" "touches L check_token" "touches L (read_bytes loc)"
  by (auto simp: touches_def retA_def raiseA_def liftA_def check_token_def read_bytes_def)

lemma touches_change [touching]:
  "loc \<in> L \<Longrightarrow> touches L (write_bytes loc data)" "loc \<in> L \<Longrightarrow> touches L (publish_bytes loc data)"
  "loc \<in> L \<Longrightarrow> touches L (delete_object loc)"
  by (auto simp: touches_def write_bytes_def publish_bytes_def delete_object_def Let_def split: option.splits)

lemma touches_bindA:
  assumes "touches L m" and "\<And>x s s'. m s = (Inr x, s') \<Longrightarrow> touches L (k x)"
  shows "touches L (bindA m k)"
  unfolding touches_def bindA_def
proof (intro allI impI)
  fix s r s' loc
  assume run: "(case m s of (Inl e, t) \<Rightarrow> (Inl e, t) | (Inr x, t) \<Rightarrow> k x t) = (r, s')" and loc: "loc \<notin> L"
  obtain x t where m: "m s = (x, t)" by fastforce
  have "os_objects t loc = os_objects s loc" using touchesD [OF assms(1) m loc] .
  then show "os_objects s' loc = os_objects s loc"
    using run m touchesD [OF assms(2), of s _ t t r s' loc] loc by (cases x) auto
qed

lemma touches_bind [touching]: "touches L m \<Longrightarrow> (\<And>x. touches L (k x)) \<Longrightarrow> touches L (bindA m k)"
  by (rule touches_bindA)

lemma touches_if: "(P \<Longrightarrow> touches L a) \<Longrightarrow> (\<not> P \<Longrightarrow> touches L b) \<Longrightarrow> touches L (if P then a else b)"
  by simp

lemma touches_fold [touching]: "(\<And>v x. x \<in> set xs \<Longrightarrow> touches L (f v x)) \<Longrightarrow> touches L (foldA f v xs)"
  by (induction xs arbitrary: v) (auto intro: touching)

lemma touches_at_root: "touches L act \<Longrightarrow> touches ((@) base ` L) (at_root base act)"
  unfolding touches_def at_root_def
proof (intro allI impI)
  fix s r s' loc
  assume act: "\<forall>s r s'. act s = (r, s') \<longrightarrow> (\<forall>loc. loc \<notin> L \<longrightarrow> os_objects s' loc = os_objects s loc)"
    and run: "(case act (s\<lparr>os_objects := \<lambda>loc. os_objects s (base @ loc)\<rparr>) of (r, s1) \<Rightarrow>
        (r, s1\<lparr>os_objects := \<lambda>loc. if take (length base) loc = base
                 then os_objects s1 (drop (length base) loc) else os_objects s loc\<rparr>)) = (r, s')"
    and loc: "loc \<notin> (@) base ` L"
  obtain s1 where s1: "act (s\<lparr>os_objects := \<lambda>loc. os_objects s (base @ loc)\<rparr>) = (r, s1)"
      "s' = s1\<lparr>os_objects := \<lambda>loc. if take (length base) loc = base
                 then os_objects s1 (drop (length base) loc) else os_objects s loc\<rparr>"
    using run by (auto split: prod.splits)
  show "os_objects s' loc = os_objects s loc"
  proof (cases "take (length base) loc = base")
    case True
    then have whole: "base @ drop (length base) loc = loc" by (metis append_take_drop_id)
    then have "drop (length base) loc \<notin> L" using loc by (metis image_eqI)
    then have "os_objects s1 (drop (length base) loc) = os_objects s (base @ drop (length base) loc)"
      using act s1(1) by fastforce
    then show ?thesis using True whole s1(2) by simp
  next
    case False
    then show ?thesis using s1(2) by simp
  qed
qed

lemma touches_mono: "touches L act \<Longrightarrow> L \<subseteq> M \<Longrightarrow> touches M act"
  unfolding touches_def by blast

section \<open>The objects of an attempt\<close>

lemma truncated_locations [simp]:
  "data_location (shuffle_env.truncate we) = data_location we"
  "manifest_location (shuffle_env.truncate we) = manifest_location we"
  by (simp_all add: fun_eq_iff data_location_def manifest_location_def shuffle_location_def safe_segment_def
      hexdigest_def shuffle_env.truncate_def)

lemma assign_row_length: "assign_row ev ks n broadcast as x s = (Inr as', s') \<Longrightarrow> length as' = length as"
proof -
  have add: "length (foldl (add_index i) bs ts) = length bs" for i bs ts
    by (induction ts arbitrary: bs) (simp_all add: add_index_def)
  show "assign_row ev ks n broadcast as x s = (Inr as', s') \<Longrightarrow> length as' = length as"
    by (cases x) (auto simp: assign_row_def bindA_Inr liftA_Inr add)
qed

lemma assigned_length: "foldA (assign_row ev ks n broadcast) as xs s = (Inr as', s') \<Longrightarrow> length as' = length as"
proof (induction xs arbitrary: as s)
  case (Cons x xs)
  from Cons.prems obtain bs t where bs: "assign_row ev ks n broadcast as x s = (Inr bs, t)"
      and rest: "foldA (assign_row ev ks n broadcast) bs xs t = (Inr as', s')"
    unfolding foldA.simps bindA_Inr by blast
  show ?case using Cons.IH [OF rest] assign_row_length [OF bs] by simp
qed simp

lemma touches_shuffle_write:
  "touches (data_location se query stage task attempt ` {..<nat k} \<union> {manifest_location se query stage task attempt})
     (shuffle_write se query stage task attempt table k ks broadcast seconds)"
proof -
  let ?L = "data_location se query stage task attempt ` {..<nat k} \<union> {manifest_location se query stage task attempt}"
  have assign: "touches ?L (foldA (assign_row (env.truncate se) ks (nat k) broadcast) as xs)" for as xs
    by (intro touching) (auto simp: assign_row_def intro!: touching)
  have parts: "touches ?L (foldA (write_partition se query stage task attempt table) [] (enumerate 0 as))"
    if "length as = nat k" for as :: "nat list list"
    using that by (intro touching) (auto simp: write_partition_def Let_def in_set_enumerate_eq intro!: touching)
  show ?thesis
    unfolding shuffle_write_def Let_def
    apply (intro touches_if touches_simple)
    apply (rule touches_bindA [OF assign])
    apply (rule touches_bind [OF parts])
     apply (drule assigned_length, simp)
    apply (intro touching)
    apply simp
    done
qed

lemma touches_run_operator [touching]: "touches L (run_operator we sub p g)"
  by (auto simp: touches_def run_operator_def Let_def split: sum.splits prod.splits)

lemma touches_poll [touching]: "touches L (poll_token p)"
  unfolding poll_token_def split_beta by (intro touching touches_if)

lemma touches_read_table [touching]: "touches L (read_table we loc)"
  unfolding read_table_def by (intro touching)

lemma touches_case_pair [touching]: "(\<And>a b. touches L (f a b)) \<Longrightarrow> touches L (case p of (a, b) \<Rightarrow> f a b)"
  by (cases p) simp

lemma touches_execute_unary [touching]: "touches L (execute_unary we sub)"
  unfolding execute_unary_def by (intro touching touches_if)

lemma touches_execute_join [touching]: "touches L (execute_join we sub)"
  unfolding execute_join_def by (rule touching, rule touching) (auto split: plan.split intro!: touching)

lemma touches_execute_scan [touching]: "touches L (execute_scan we sub)"
  unfolding execute_scan_def
  by (rule touching, rule touching) (auto split: plan.split option.split json.split intro!: touching touches_if)

lemma touches_scan_input_bytes [touching]: "touches L (scan_input_bytes we sub)"
  unfolding scan_input_bytes_def by (auto split: option.split json.split intro!: touching)

lemma touches_execute_query [touching]: "touches L (execute_query we sub)"
  unfolding execute_query_def Let_def by (auto split: option.split json.split intro!: touching)

lemma touches_read_partition: "touches L (read_partition se ms part seconds)"
proof -
  have "touches L (read_manifest se part v m)" for v m
    unfolding read_manifest_def read_file_def split_beta
    by (auto split: list.split intro!: touching touches_if)
  then show ?thesis unfolding read_partition_def by (intro touching)
qed

lemma bindA_liftA: "bindA (liftA (Inr x)) k = k x"
  by (simp add: bindA_def liftA_def)

lemma touches_at_root_reading: "touches {} act \<Longrightarrow> touches L (at_root base act)"
  using touches_at_root [of "{}" act base] touches_mono [of "{}" "at_root base act" L] by simp

lemma touches_task_table [touching]: "touches L (task_table we sub seconds)"
  unfolding task_table_def Let_def
  by (cases "ts_operation sub") (auto intro!: touching touches_if touches_read_partition touches_at_root_reading)

lemma touches_publish_table: "touches {output_location we sub} (publish_table we sub seconds tm)"
  unfolding publish_table_def Let_def by (intro touching) simp

lemma touches_execute_shuffle_write:
  assumes "ts_operation sub = OP_SHUFFLE_WRITE"
    and "payload_get sub ''partition_count'' = Some j" and "json_int j = Some n"
  shows "touches (own_objects we sub) (execute_shuffle_write we sub io seconds)"
proof -
  have writing: "touches (own_objects we sub) (at_root (we_locate we base) (shuffle_write (we_shuffle we) (ts_query_id sub)
      (ts_stage_id sub) (ts_task_id sub) (ts_attempt_id sub) table n ks broadcast io))"
    if "payload_get sub ''shuffle_root'' = Some (JStr base)" for base table ks broadcast
    by (rule touches_mono [OF touches_at_root [OF touches_shuffle_write]])
      (use assms that in \<open>auto simp: own_objects_def\<close>)
  have base: "payload_get sub ''shuffle_root'' = Some (JStr base)" if "string_payload sub ''shuffle_root'' = Inr base" for base
    using that by (auto simp: string_payload_def split: option.splits json.splits)
  show ?thesis
    unfolding execute_shuffle_write_def assms(2,3) option.simps some_or_def bindA_liftA
    apply (rule touches_bind, rule touching)
    apply (rule touches_bindA, rule touching)
    apply (intro touches_bind touches_case_pair touching)
    apply (rule writing, rule base)
    apply (simp add: liftA_Inr)
    done
qed

lemma touches_execute_sync:
  assumes "ts_operation sub = OP_SHUFFLE_WRITE \<Longrightarrow> \<exists>n. map_option json_int (payload_get sub ''partition_count'') = Some (Some n)"
  shows "touches (own_objects we sub) (execute_sync we sub io seconds)"
proof (cases "ts_operation sub = OP_SHUFFLE_WRITE")
  case True
  then obtain j n where "payload_get sub ''partition_count'' = Some j" "json_int j = Some n" using assms by auto
  then show ?thesis
    using touches_execute_shuffle_write [OF True] True unfolding execute_sync_def by (auto intro!: touching)
next
  case False
  have "touches (own_objects we sub) (publish_table we sub seconds tm)" for tm
    by (rule touches_mono [OF touches_publish_table]) (simp add: own_objects_def)
  then show ?thesis using False unfolding execute_sync_def by (auto intro!: touching)
qed

section \<open>Deletion\<close>

lemma delete_object_Inr: "delete_object loc s = (Inr u, s') \<Longrightarrow> os_objects s' = (os_objects s)(loc := None)"
  by (auto simp: delete_object_def Let_def split: option.splits)

lemma delete_all_Inr:
  "delete_all locs s = (Inr u, s') \<Longrightarrow> os_objects s' loc = (if loc \<in> set locs then None else os_objects s loc)"
  unfolding delete_all_def
proof (induction locs arbitrary: s)
  case (Cons l locs)
  then obtain t where "delete_object l s = (Inr (), t)"
      and rest: "foldA (\<lambda>_ loc. delete_object loc) () locs t = (Inr u, s')"
    unfolding foldA.simps bindA_Inr by auto
  then show ?case using Cons.IH [OF rest] delete_object_Inr [of l s "()" t] by simp
qed simp

lemma touches_delete_all [touching]: "set locs \<subseteq> L \<Longrightarrow> touches L (delete_all locs)"
  unfolding delete_all_def by (intro touching) auto

text \<open>A clean-up that succeeds leaves none of the attempt's objects and changes no other.\<close>

definition cleans :: "location set \<Rightarrow> (object_store, unit) action \<Rightarrow> bool" where
  "cleans L act \<longleftrightarrow> (\<forall>s s'. act s = (Inr (), s') \<longrightarrow> (\<forall>loc. os_objects s' loc = (if loc \<in> L then None else os_objects s loc)))"

lemma cleans_bind: "cleans L a \<Longrightarrow> cleans M b \<Longrightarrow> cleans (L \<union> M) (bindA a (\<lambda>_. b))"
  unfolding cleans_def bindA_Inr by (metis Un_iff old.unit.exhaust)

lemma cleans_delete: "cleans {loc} (delete_object loc)"
  unfolding cleans_def using delete_object_Inr by fastforce

lemma cleans_delete_all: "cleans (set locs) (delete_all locs)"
  unfolding cleans_def using delete_all_Inr by fastforce

lemma cleans_ret: "cleans {} (retA ())"
  by (simp add: cleans_def)

lemma cleans_bind_ret: "cleans L a \<Longrightarrow> cleans L (bindA a retA)"
  by (simp add: cleans_def bindA_Inr)

lemma cleans_failed_attempt:
  "cleans (own_objects we sub) (bindA (cleanup_submission we sub) (\<lambda>_. delete_object (output_location we sub)))"
proof -
  have "\<exists>M. cleans M (cleanup_submission we sub) \<and> M \<union> {output_location we sub} = own_objects we sub"
  proof (cases "ts_operation sub = OP_SHUFFLE_WRITE
      \<and> (\<exists>base n. payload_get sub ''shuffle_root'' = Some (JStr base)
           \<and> map_option json_int (payload_get sub ''partition_count'') = Some (Some n))")
    case True
    then obtain base n j where op: "ts_operation sub = OP_SHUFFLE_WRITE"
        "payload_get sub ''shuffle_root'' = Some (JStr base)"
        "payload_get sub ''partition_count'' = Some j" "json_int j = Some n" by auto
    let ?data = "\<lambda>part. we_locate we base @ data_location we (ts_query_id sub) (ts_stage_id sub)
                      (ts_task_id sub) (ts_attempt_id sub) part"
    let ?m = "we_locate we base @ manifest_location we (ts_query_id sub) (ts_stage_id sub)
                (ts_task_id sub) (ts_attempt_id sub)"
    have "cleanup_submission we sub = bindA (delete_all (map ?data [0..<nat n])) (\<lambda>_. delete_object ?m)"
      using op by (simp add: cleanup_submission_def)
    then have "cleans (set (map ?data [0..<nat n]) \<union> {?m}) (cleanup_submission we sub)"
      using cleans_bind [OF cleans_delete_all cleans_delete] by metis
    moreover have "set (map ?data [0..<nat n]) \<union> {?m} \<union> {output_location we sub} = own_objects we sub"
      using op by (auto simp: own_objects_def atLeast0LessThan)
    ultimately show ?thesis by blast
  next
    case False
    then have "cleanup_submission we sub = retA ()" "own_objects we sub = {output_location we sub}"
      by (auto simp: cleanup_submission_def own_objects_def split: option.splits json.splits)
    then show ?thesis using cleans_ret by (intro exI [of _ "{}"]) auto
  qed
  then obtain M where M: "cleans M (cleanup_submission we sub)" "M \<union> {output_location we sub} = own_objects we sub"
    by blast
  show ?thesis using cleans_bind [OF M(1) cleans_delete] unfolding M(2) [symmetric] .
qed

section \<open>What a successful thread leaves behind\<close>

lemma make_task_result_Inr: "make_task_result r = Inr r' \<longleftrightarrow> 0 < rs_process_id r \<and> r' = r"
  by (auto simp: make_task_result_def)

lemma make_task_metrics_Inr: "make_task_metrics m = Inr m' \<Longrightarrow> m' = m"
  by (auto simp: make_task_metrics_def split: if_splits)

lemma publish_table_Inr:
  assumes "publish_table we sub seconds (table, metrics) s = (Inr result, s')"
  shows "\<exists>payload a. rs_artifact result = Some a \<and> rs_manifests result = [] \<and> rs_attempt_id result = ts_attempt_id sub
    \<and> rs_task_id result = ts_task_id sub
    \<and> se_encode we table = Inr payload
    \<and> a = \<lparr>ar_location = output_location we sub, ar_size_bytes = int (length payload),
           ar_checksum = hexdigest we payload, ar_row_count = int (length (bt_rows table))\<rparr>
    \<and> os_objects s' = (os_objects s)(output_location we sub \<mapsto> payload)"
  using assms unfolding publish_table_def Let_def task_result_of_def
  by (auto simp: bindA_Inr liftA_Inr publish_bytes_Inr make_task_result_Inr dest!: check_token_objects)

lemma written_locations:
  "foldA (write_partition se query stage task attempt table) files parts s = (Inr files', s')
    \<Longrightarrow> map fl_location files' = map fl_location files @ map (\<lambda>part. data_location se query stage task attempt (fst part)) parts"
proof (induction parts arbitrary: files s)
  case (Cons part parts)
  obtain p ixs where part: "part = (p, ixs)" by (cases part)
  from Cons.prems obtain fs t where "write_partition se query stage task attempt table files (p, ixs) s = (Inr fs, t)"
      and rest: "foldA (write_partition se query stage task attempt table) fs parts t = (Inr files', s')"
    unfolding foldA.simps bindA_Inr part by blast
  then have "map fl_location fs = map fl_location files @ [data_location se query stage task attempt p]"
    by (auto simp: write_partition_Inr stored_file_def)
  then show ?case using Cons.IH [OF rest] part by simp
qed simp

lemma shuffle_write_locations:
  assumes "shuffle_write se query stage task attempt table k ks broadcast seconds s = (Inr m, s')"
  shows "0 < nat k" and "map fl_location (mf_files m) = map (data_location se query stage task attempt) [0..<nat k]"
proof -
  from assms show "0 < nat k" by (auto simp: shuffle_write_def split: if_splits)
  from assms obtain as t1 t2 where
    as: "foldA (assign_row (env.truncate se) ks (nat k) broadcast) (replicate (nat k) []) (enumerate 0 (bt_rows table)) s
        = (Inr as, t1)"
    and files: "foldA (write_partition se query stage task attempt table) [] (enumerate 0 as) t1 = (Inr (mf_files m), t2)"
    by (auto simp: shuffle_write_def bindA_Inr liftA_Inr Let_def split: if_splits)
  have "length as = nat k" using assigned_length [OF as] by simp
  moreover have "map (\<lambda>part. data_location se query stage task attempt (fst part)) (enumerate n xs)
      = map (data_location se query stage task attempt) [n..<n + length xs]" for n and xs :: "nat list list"
    by (rule nth_equalityI) (simp_all add: nth_enumerate_eq)
  ultimately show "map fl_location (mf_files m) = map (data_location se query stage task attempt) [0..<nat k]"
    using written_locations [OF files] by simp
qed

lemma at_root_Inr: "at_root base act s = (Inr x, s') \<Longrightarrow> \<exists>t t'. act t = (Inr x, t')"
  by (auto simp: at_root_def split: prod.splits)

lemma execute_shuffle_write_Inr:
  assumes "execute_shuffle_write we sub io seconds s = (Inr result, s')"
    and "payload_get sub ''partition_count'' = Some j" and "json_int j = Some n"
  shows "\<exists>base m. rs_artifact result = None \<and> rs_manifests result = [m] \<and> rs_attempt_id result = ts_attempt_id sub
    \<and> rs_task_id result = ts_task_id sub
    \<and> payload_get sub ''shuffle_root'' = Some (JStr base) \<and> 0 < nat n
    \<and> map fl_location (mf_files m) = map (data_location we (ts_query_id sub) (ts_stage_id sub) (ts_task_id sub)
        (ts_attempt_id sub)) [0..<nat n]"
proof -
  from assms(1) obtain base m t t' table ks bc where base: "string_payload sub ''shuffle_root'' = Inr base"
      and run: "at_root (we_locate we base) (shuffle_write (we_shuffle we) (ts_query_id sub) (ts_stage_id sub)
        (ts_task_id sub) (ts_attempt_id sub) table n ks bc io) t = (Inr m, t')"
      and result: "rs_artifact result = None" "rs_manifests result = [m]" "rs_attempt_id result = ts_attempt_id sub"
        "rs_task_id result = ts_task_id sub"
    unfolding execute_shuffle_write_def assms(2,3) option.simps some_or_def bindA_liftA task_result_of_def
    by (auto simp: bindA_Inr liftA_Inr make_task_result_Inr split: prod.splits)
  have "payload_get sub ''shuffle_root'' = Some (JStr base)"
    using base by (auto simp: string_payload_def split: option.splits json.splits)
  then show ?thesis using at_root_Inr [OF run] result shuffle_write_locations by fastforce
qed

text \<open>The objects that \<open>_delete_result\<close> finds are those of the attempt.\<close>

lemma manifest_beside_data:
  "butlast (base @ data_location ev query stage task attempt p) @ [''manifest.json'']
     = base @ manifest_location ev query stage task attempt"
  by (simp add: data_location_def manifest_location_def shuffle_location_def butlast_append
      safe_segment_def [of ev "''manifest.json''"])

lemma cleans_delete_result:
  assumes count: "ts_operation sub = OP_SHUFFLE_WRITE \<Longrightarrow> \<exists>n. map_option json_int (payload_get sub ''partition_count'') = Some (Some n)"
    and run: "execute_sync we sub io seconds s = (Inr result, s')"
  shows "cleans (own_objects we sub) (bindA (delete_result we sub result) (\<lambda>_. delete_object (output_location we sub)))"
    and "touches (own_objects we sub) (bindA (delete_result we sub result) (\<lambda>_. delete_object (output_location we sub)))"
proof -
  obtain t where run: "(if ts_operation sub = OP_SHUFFLE_WRITE then execute_shuffle_write we sub io seconds
      else bindA (task_table we sub io) (publish_table we sub seconds)) t = (Inr result, s')"
    using assms(2) unfolding execute_sync_def bindA_Inr by blast
  have "\<exists>M. cleans M (delete_result we sub result) \<and> touches M (delete_result we sub result)
      \<and> M \<union> {output_location we sub} = own_objects we sub"
  proof (cases "ts_operation sub = OP_SHUFFLE_WRITE")
    case True
    then obtain j n where n: "payload_get sub ''partition_count'' = Some j" "json_int j = Some n" using count by auto
    have writing: "execute_shuffle_write we sub io seconds t = (Inr result, s')" using run True by simp
    let ?rel = "data_location we (ts_query_id sub) (ts_stage_id sub) (ts_task_id sub) (ts_attempt_id sub)"
    let ?rm = "manifest_location we (ts_query_id sub) (ts_stage_id sub) (ts_task_id sub) (ts_attempt_id sub)"
    obtain base m where m: "rs_artifact result = None" "rs_manifests result = [m]"
        "payload_get sub ''shuffle_root'' = Some (JStr base)" "0 < nat n"
        "map fl_location (mf_files m) = map ?rel [0..<nat n]"
      using execute_shuffle_write_Inr [OF writing n] by blast
    let ?locs = "map (\<lambda>p. we_locate we base @ ?rel p) [0..<nat n]"
    have locs: "map (\<lambda>f. shuffle_base we sub @ fl_location f) (mf_files m) = ?locs"
      using arg_cong [OF m(5), of "map ((@) (we_locate we base))"] m(3) by (simp add: shuffle_base_def comp_def)
    have first: "?locs = (we_locate we base @ ?rel 0) # map (\<lambda>p. we_locate we base @ ?rel p) [1..<nat n]"
      using m(4) by (simp add: upt_conv_Cons)
    have manifest: "delete_manifest we sub m = bindA (delete_all ?locs) (\<lambda>_. delete_object (we_locate we base @ ?rm))"
      unfolding delete_manifest_def Let_def locs by (subst (2) first) (simp add: manifest_beside_data)
    from manifest have one: "cleans (set ?locs \<union> {we_locate we base @ ?rm}) (delete_manifest we sub m)"
      using cleans_bind [OF cleans_delete_all cleans_delete] by metis
    have "cleans ({} \<union> (set ?locs \<union> {we_locate we base @ ?rm})) (delete_result we sub result)"
      unfolding delete_result_def m(1,2) option.simps foldA.simps
      by (intro cleans_bind cleans_bind_ret cleans_ret one)
    moreover have "touches (set ?locs \<union> {we_locate we base @ ?rm}) (delete_result we sub result)"
      unfolding delete_result_def m(1,2) option.simps foldA.simps manifest
      by (intro touching) auto
    moreover have "set ?locs \<union> {we_locate we base @ ?rm} \<union> {output_location we sub} = own_objects we sub"
      using True m(3) n by (auto simp: own_objects_def atLeast0LessThan)
    ultimately show ?thesis by (intro exI [of _ "set ?locs \<union> {we_locate we base @ ?rm}"]) simp
  next
    case False
    then obtain table metrics t1 where "publish_table we sub seconds (table, metrics) t1 = (Inr result, s')"
      using run by (auto simp: bindA_Inr)
    from publish_table_Inr [OF this] obtain a where a: "rs_artifact result = Some a" "rs_manifests result = []"
        "ar_location a = output_location we sub" by auto
    have "cleans ({output_location we sub} \<union> {}) (delete_result we sub result)"
      unfolding delete_result_def a(1,2) option.simps foldA.simps a(3) by (intro cleans_bind cleans_delete cleans_ret)
    moreover have "touches {output_location we sub} (delete_result we sub result)"
      unfolding delete_result_def a(1,2) option.simps foldA.simps a(3) by (intro touching) simp
    ultimately show ?thesis using False by (intro exI [of _ "{output_location we sub}"]) (simp add: own_objects_def)
  qed
  then obtain M where M: "cleans M (delete_result we sub result)" "touches M (delete_result we sub result)"
      "M \<union> {output_location we sub} = own_objects we sub" by blast
  show "cleans (own_objects we sub) (bindA (delete_result we sub result) (\<lambda>_. delete_object (output_location we sub)))"
    using cleans_bind [OF M(1) cleans_delete] unfolding M(3) [symmetric] .
  show "touches (own_objects we sub) (bindA (delete_result we sub result) (\<lambda>_. delete_object (output_location we sub)))"
    using M(3) by (intro touching touches_mono [OF M(2)]) auto
qed

lemma touches_failed_attempt:
  "touches (own_objects we sub) (bindA (cleanup_submission we sub) (\<lambda>_. delete_object (output_location we sub)))"
  unfolding cleanup_submission_def
  by (auto simp: own_objects_def split: option.split json.split intro!: touching)

definition well_submitted :: "task_submission \<Rightarrow> bool" where
  "well_submitted sub \<longleftrightarrow> (ts_operation sub = OP_SHUFFLE_WRITE
     \<longrightarrow> (\<exists>n. map_option json_int (payload_get sub ''partition_count'') = Some (Some n)))"

text \<open>What follows the thread deletes the objects of an attempt that fails or is cancelled, and no others.\<close>

lemma fail_attempt_cleans:
  assumes "fail_attempt we e r s = (r', s')" and "st_state (tr_status r) = AS_RUNNING"
    and "st_state (tr_status r') \<in> {AS_CANCELED, AS_FAILED}"
  shows "os_objects s' loc = (if loc \<in> own_objects we (tr_submission r) then None else os_objects s loc)"
  using assms cleans_failed_attempt [of we "tr_submission r"]
  unfolding fail_attempt_def Let_def cleans_def by (auto split: prod.splits sum.splits)

lemma fail_attempt_touches:
  "fail_attempt we e r s = (r', s') \<Longrightarrow> loc \<notin> own_objects we (tr_submission r) \<Longrightarrow> os_objects s' loc = os_objects s loc"
  using touchesD [OF touches_failed_attempt [of we "tr_submission r"]]
  unfolding fail_attempt_def Let_def by (auto split: prod.splits sum.splits)

lemma finish_task_cleans:
  assumes "well_submitted (tr_submission r)" and "st_state (tr_status r) = AS_RUNNING"
    and "\<And>result. out = Inr result \<Longrightarrow> \<exists>io secs s0 s1. execute_sync we (tr_submission r) io secs s0 = (Inr result, s1)"
    and "finish_task we out r s = (r', s')" and "st_state (tr_status r') \<in> {AS_CANCELED, AS_FAILED}"
  shows "os_objects s' loc = (if loc \<in> own_objects we (tr_submission r) then None else os_objects s loc)"
proof (cases out)
  case (Inl e)
  then show ?thesis using fail_attempt_cleans assms(2,4,5) by (simp add: finish_task_def)
next
  case (Inr result)
  let ?L = "own_objects we (tr_submission r)"
  obtain io secs s0 s1 where run: "execute_sync we (tr_submission r) io secs s0 = (Inr result, s1)"
    using assms(3) Inr by blast
  note clean = cleans_delete_result [OF assms(1) [unfolded well_submitted_def, rule_format] run]
  let ?clean = "bindA (delete_result we (tr_submission r) result) (\<lambda>_. delete_object (output_location we (tr_submission r)))"
  obtain res t where del: "?clean s = (res, t)" by fastforce
  have cancelled: "tr_cancelled r" using assms(4,5) Inr by (auto simp: finish_task_def end_attempt_def split: if_splits)
  show ?thesis
  proof (cases res)
    case (Inl e)
    have "fail_attempt we e r t = (r', s')"
      using assms(4) Inr cancelled del Inl by (simp add: finish_task_def)
    from fail_attempt_cleans [OF this assms(2,5)] show ?thesis using touchesD [OF clean(2) del] by simp
  next
    case (Inr u)
    then have "s' = t" using assms(4) \<open>out = Inr result\<close> cancelled del by (simp add: finish_task_def)
    then show ?thesis using clean(1) del Inr unfolding cleans_def by auto
  qed
qed

lemma finish_task_touches:
  assumes "well_submitted (tr_submission r)" and "finish_task we out r s = (r', s')"
    and "\<And>result. out = Inr result \<Longrightarrow> \<exists>io secs s0 s1. execute_sync we (tr_submission r) io secs s0 = (Inr result, s1)"
    and "loc \<notin> own_objects we (tr_submission r)"
  shows "os_objects s' loc = os_objects s loc"
proof (cases out)
  case (Inl e)
  then show ?thesis using fail_attempt_touches assms(2,4) by (simp add: finish_task_def)
next
  case (Inr result)
  obtain io secs s0 s1 where run: "execute_sync we (tr_submission r) io secs s0 = (Inr result, s1)"
    using assms(3) Inr by blast
  note clean = cleans_delete_result(2) [OF assms(1) [unfolded well_submitted_def, rule_format] run]
  let ?clean = "bindA (delete_result we (tr_submission r) result) (\<lambda>_. delete_object (output_location we (tr_submission r)))"
  obtain res t where del: "?clean s = (res, t)" by fastforce
  have "os_objects t loc = os_objects s loc" using touchesD [OF clean del assms(4)] .
  then show ?thesis
    using assms(2,4) Inr del fail_attempt_touches [of we _ r t r' s' loc]
    by (auto simp: finish_task_def split: if_splits sum.splits)
qed

section \<open>The life of an attempt\<close>

text \<open>The status fits the phase; a clean-up that raised leaves \<open>RUNNING\<close> for good.\<close>

definition status_fits :: "task_record \<Rightarrow> bool" where
  "status_fits r \<longleftrightarrow> (let st = tr_status r in case tr_phase r of
       Task_Scheduled \<Rightarrow> st_state st = AS_CREATED \<and> st_started_at st = None \<and> st_result st = None \<and> st_error st = None
     | Task_Running \<Rightarrow> st_state st = AS_RUNNING \<and> st_started_at st \<noteq> None \<and> st_result st = None \<and> st_error st = None
     | Task_Ended None \<Rightarrow> st_started_at st \<noteq> None
         \<and> (st_state st = AS_SUCCEEDED \<and> st_result st \<noteq> None \<and> st_error st = None
            \<or> st_state st = AS_FAILED \<and> st_result st = None \<and> st_error st \<noteq> None
            \<or> st_state st = AS_CANCELED \<and> st_result st = None \<and> tr_cancelled r)
     | Task_Ended (Some e) \<Rightarrow> st_started_at st \<noteq> None \<and> st_result st = None \<and> st_error st = None
         \<and> (st_state st = AS_RUNNING \<or> st_state st = AS_CANCELED \<and> e = AsyncCancelled))"

definition ids_fit :: "string \<Rightarrow> task_record \<Rightarrow> bool" where
  "ids_fit a r \<longleftrightarrow> ts_attempt_id (tr_submission r) = a \<and> st_attempt_id (tr_status r) = a
     \<and> st_task_id (tr_status r) = ts_task_id (tr_submission r)
     \<and> (\<forall>res. st_result (tr_status r) = Some res \<longrightarrow> rs_attempt_id res = a \<and> rs_task_id res = ts_task_id (tr_submission r))"

definition manager_ok :: "manager \<Rightarrow> bool" where
  "manager_ok m \<longleftrightarrow> (\<forall>a r. dict_get m a = Some r \<longrightarrow> status_fits r \<and> ids_fit a r)"

lemmas record_defs = status_fits_def ids_fit_def Let_def

lemma dict_get_close: "dict_get (close_tasks m) a = map_option (\<lambda>r. r\<lparr>tr_cancelled := True\<rparr>) (dict_get m a)"
  by (induction m) (auto simp: dict_get_def close_tasks_def)

lemma fail_attempt_cases:
  "\<exists>e'. fst (fail_attempt we e r s) = r\<lparr>tr_phase := Task_Ended (Some e')\<rparr>
   \<or> e = AsyncCancelled \<and> fst (fail_attempt we e r s)
       = r\<lparr>tr_status := (tr_status r)\<lparr>st_state := AS_CANCELED\<rparr>, tr_phase := Task_Ended (Some e)\<rparr>
   \<or> (\<exists>d. fst (fail_attempt we e r s) = r\<lparr>tr_status := (tr_status r)
         \<lparr>st_error := Some d, st_state := (if tr_cancelled r then AS_CANCELED else AS_FAILED)\<rparr>,
         tr_phase := Task_Ended None\<rparr>)"
  by (auto simp: fail_attempt_def end_attempt_def Let_def split: prod.splits sum.splits)

lemma finish_task_cases:
  "(\<exists>e s'. fst (finish_task we out r s) = fst (fail_attempt we e r s'))
   \<or> (\<exists>res. out = Inr res \<and> fst (finish_task we out r s) = r\<lparr>tr_status := (tr_status r)
         \<lparr>st_result := Some res, st_state := AS_SUCCEEDED\<rparr>, tr_phase := Task_Ended None\<rparr>)
   \<or> tr_cancelled r \<and> fst (finish_task we out r s)
       = r\<lparr>tr_status := (tr_status r)\<lparr>st_state := AS_CANCELED\<rparr>, tr_phase := Task_Ended None\<rparr>"
  by (force simp: finish_task_def end_attempt_def split: prod.splits sum.splits)

lemma result_ids:
  assumes "execute_sync we sub io secs s0 = (Inr result, s1)"
  shows "rs_attempt_id result = ts_attempt_id sub" and "rs_task_id result = ts_task_id sub"
proof -
  obtain t where run: "(if ts_operation sub = OP_SHUFFLE_WRITE then execute_shuffle_write we sub io secs
      else bindA (task_table we sub io) (publish_table we sub secs)) t = (Inr result, s1)"
    using assms unfolding execute_sync_def bindA_Inr by blast
  have "rs_attempt_id result = ts_attempt_id sub \<and> rs_task_id result = ts_task_id sub"
  proof (cases "ts_operation sub = OP_SHUFFLE_WRITE")
    case True
    then show ?thesis
      using run by (auto simp: execute_shuffle_write_def bindA_Inr liftA_Inr task_result_of_def make_task_result_Inr
          split: prod.splits)
  next
    case False
    then obtain table metrics t1 where "publish_table we sub secs (table, metrics) t1 = (Inr result, s1)"
      using run by (auto simp: bindA_Inr)
    from publish_table_Inr [OF this] show ?thesis by auto
  qed
  then show "rs_attempt_id result = ts_attempt_id sub" and "rs_task_id result = ts_task_id sub" by simp_all
qed

lemma finish_fits:
  assumes "status_fits r" and "ids_fit a r" and "tr_phase r = Task_Running"
    and "\<And>res. out = Inr res \<Longrightarrow> rs_attempt_id res = a \<and> rs_task_id res = ts_task_id (tr_submission r)"
  shows "status_fits (fst (finish_task we out r s)) \<and> ids_fit a (fst (finish_task we out r s))"
  using finish_task_cases [of we out r s]
proof (elim disjE exE conjE)
  fix e s'
  assume eq: "fst (finish_task we out r s) = fst (fail_attempt we e r s')"
  show ?thesis
    using fail_attempt_cases [of we e r s'] assms(1-3) unfolding eq
    by (elim disjE exE conjE) (simp_all add: record_defs)
qed (use assms in \<open>simp_all add: record_defs\<close>)

lemma submit_task_get:
  "dict_get (snd (submit_task sub m)) b = (if dict_get m b = None \<and> b = ts_attempt_id sub
     then Some (new_record sub) else dict_get m b)"
  by (cases "dict_get m (ts_attempt_id sub)") (auto simp: submit_task_def dict_get_set simp del: dict_get_None)

lemma start_fits:
  "status_fits r \<Longrightarrow> ids_fit a r \<Longrightarrow> tr_phase r = Task_Scheduled
    \<Longrightarrow> status_fits (start_attempt now r) \<and> ids_fit a (start_attempt now r)"
  by (simp add: record_defs start_attempt_def)

lemma cancel_fits:
  "status_fits r \<Longrightarrow> ids_fit a r \<Longrightarrow> status_fits (r\<lparr>tr_cancelled := True\<rparr>) \<and> ids_fit a (r\<lparr>tr_cancelled := True\<rparr>)"
  by (auto simp: record_defs split: task_phase.splits option.splits)

lemma task_step_ok:
  assumes "task_step we m m'" and "manager_ok m"
  shows "manager_ok m'"
  using assms
proof induction
  case (Submit m sub)
  have "status_fits (new_record sub)" "ids_fit (ts_attempt_id sub) (new_record sub)"
    by (simp_all add: record_defs new_record_def)
  then show ?case using Submit by (auto simp: manager_ok_def submit_task_get)
next
  case (Start m a r now)
  then show ?case using start_fits [of r a now] by (auto simp: manager_ok_def dict_get_set)
next
  case (Finish m a r io secs s0 out s1 s)
  then have r: "status_fits r" "ids_fit a r" by (auto simp: manager_ok_def)
  have "rs_attempt_id res = a \<and> rs_task_id res = ts_task_id (tr_submission r)" if "out = Inr res" for res
    using result_ids [of we "tr_submission r" io secs s0 res s1] Finish(3) that r(2) by (simp add: ids_fit_def)
  from finish_fits [OF r Finish(2) this] show ?case using Finish by (auto simp: manager_ok_def dict_get_set)
next
  case (Interrupt m a r s)
  then have r: "status_fits r" "ids_fit a r" by (auto simp: manager_ok_def)
  from finish_fits [OF r Interrupt(2), of "Inl AsyncCancelled"] show ?case
    using Interrupt by (auto simp: manager_ok_def dict_get_set)
next
  case (Cancel m a)
  then show ?case
    using cancel_fits by (auto simp: manager_ok_def cancel_task_def dict_get_set split: option.splits)
next
  case (Close m)
  then show ?case using cancel_fits by (auto simp: manager_ok_def dict_get_close)
qed

text \<open>
  C14. The life of an attempt on a Worker.  In every reachable state of the task manager each record
  stands under its own attempt identifier and its status fits the phase of its future: created without
  data, running with a start time, and once ended either succeeded with the result of this attempt, or
  failed with an error, or cancelled on request; an attempt whose clean-up raised keeps the status
  \<open>RUNNING\<close> although nothing runs any more.
\<close>

theorem task_lifecycle:
  "(task_step we)\<^sup>*\<^sup>* [] m \<Longrightarrow> dict_get m a = Some r \<Longrightarrow> status_fits r \<and> ids_fit a r"
proof -
  assume steps: "(task_step we)\<^sup>*\<^sup>* [] m" and r: "dict_get m a = Some r"
  from steps have "manager_ok m"
  proof induction
    case base
    show ?case by (simp add: manager_ok_def dict_get_def)
  next
    case (step m m')
    then show ?case using task_step_ok by blast
  qed
  then show "status_fits r \<and> ids_fit a r" using r by (simp add: manager_ok_def)
qed

section \<open>Outcomes are final\<close>

fun phase_rank :: "task_phase \<Rightarrow> nat" where
  "phase_rank Task_Scheduled = 0"
| "phase_rank Task_Running = 1"
| "phase_rank (Task_Ended e) = 2"

definition goes_on :: "task_record \<Rightarrow> task_record \<Rightarrow> bool" where
  "goes_on r r' \<longleftrightarrow> tr_submission r' = tr_submission r \<and> (tr_cancelled r \<longrightarrow> tr_cancelled r')
     \<and> phase_rank (tr_phase r) \<le> phase_rank (tr_phase r')
     \<and> (phase_rank (tr_phase r) = phase_rank (tr_phase r') \<longrightarrow> tr_phase r' = tr_phase r \<and> tr_status r' = tr_status r)"

lemma goes_on_refl: "goes_on r r"
  by (simp add: goes_on_def)

lemma goes_on_cancel: "goes_on r (r\<lparr>tr_cancelled := True\<rparr>)"
  by (simp add: goes_on_def)

lemma goes_on_trans: "goes_on a b \<Longrightarrow> goes_on b c \<Longrightarrow> goes_on a c"
  unfolding goes_on_def by (metis le_antisym le_trans)

lemma goes_on_finish:
  assumes "tr_phase r = Task_Running"
  shows "goes_on r (fst (finish_task we out r s))"
  using finish_task_cases [of we out r s]
proof (elim disjE exE conjE)
  fix e s'
  assume eq: "fst (finish_task we out r s) = fst (fail_attempt we e r s')"
  show ?thesis
    using fail_attempt_cases [of we e r s'] assms unfolding eq goes_on_def by (elim disjE exE conjE) simp_all
qed (simp_all add: goes_on_def assms)

lemma task_step_goes_on:
  "task_step we m m' \<Longrightarrow> dict_get m a = Some r \<Longrightarrow> \<exists>r'. dict_get m' a = Some r' \<and> goes_on r r'"
proof (induction rule: task_step.induct)
  case (Submit m sub)
  then show ?case using goes_on_refl by (simp add: submit_task_get del: dict_get_None)
next
  case (Start m b r' now)
  then show ?case using goes_on_refl by (auto simp: dict_get_set goes_on_def start_attempt_def)
next
  case (Finish m b r' io secs s0 out s1 s)
  then show ?case using goes_on_refl goes_on_finish [OF Finish(2), of we out s] by (auto simp: dict_get_set)
next
  case (Interrupt m b r' s)
  then show ?case using goes_on_refl goes_on_finish [OF Interrupt(2), of we _ s] by (auto simp: dict_get_set)
next
  case (Cancel m b)
  then show ?case
    using goes_on_refl goes_on_cancel by (auto simp: cancel_task_def dict_get_set split: option.splits)
next
  case (Close m)
  then show ?case using goes_on_cancel by (simp add: dict_get_close)
qed

text \<open>
  C13. An attempt is executed at most once and its outcome is final.  Whatever the manager does
  afterwards, a known attempt stays known with the same submission, its future only moves forward
  (scheduled, running, ended), a cancellation is never taken back, and while the future stays in its
  phase the status does not change: in particular the status an attempt ended with is the one every
  later query returns.  Submitting an attempt again starts nothing: with the same content it answers
  the current status, with another content it is rejected.
\<close>

theorem attempt_runs_once:
  assumes "(task_step we)\<^sup>*\<^sup>* m m'" and "dict_get m a = Some r"
  shows "\<exists>r'. dict_get m' a = Some r' \<and> goes_on r r' \<and> (\<forall>sub. ts_attempt_id sub = a
    \<longrightarrow> submit_task sub m' = (if sub = tr_submission r then Inr (tr_status r') else Inl PyValueError, m'))"
proof -
  from assms(1) have "\<exists>r'. dict_get m' a = Some r' \<and> goes_on r r'"
  proof induction
    case base
    show ?case using assms(2) goes_on_refl by blast
  next
    case (step m1 m2)
    then show ?case using task_step_goes_on goes_on_trans by meson
  qed
  then show ?thesis by (auto simp: submit_task_def goes_on_def)
qed

section \<open>Nothing is left behind\<close>

text \<open>How a thread fits the phase of its attempt.\<close>

definition thread_fits :: "worker_env \<Rightarrow> thread option \<Rightarrow> task_record \<Rightarrow> bool" where
  "thread_fits we th r \<longleftrightarrow> (case tr_phase r of
       Task_Scheduled \<Rightarrow> th = None
     | Task_Running \<Rightarrow> th = Some Thread_Live \<or> (\<exists>out. th = Some (Thread_Over out))
     | Task_Ended e \<Rightarrow> th \<noteq> None)
   \<and> (\<forall>out. th = Some (Thread_Over out)
        \<longrightarrow> (\<exists>io secs s0 s1. execute_sync we (tr_submission r) io secs s0 = (out, s1)))"

definition worker_ok :: "worker_env \<Rightarrow> worker_process \<Rightarrow> bool" where
  "worker_ok we w \<longleftrightarrow> manager_ok (wk_manager w)
     \<and> (\<forall>a. dict_get (wk_manager w) a = None \<longrightarrow> wk_threads w a = None)
     \<and> (\<forall>a r. dict_get (wk_manager w) a = Some r \<longrightarrow> thread_fits we (wk_threads w a) r)"

lemma worker_ok_thread:
  "worker_ok we w \<Longrightarrow> dict_get (wk_manager w) a = Some r \<Longrightarrow> thread_fits we (wk_threads w a) r"
  unfolding worker_ok_def by blast

lemma worker_ok_running:
  assumes "worker_ok we w" and "dict_get (wk_manager w) a = Some r" and "tr_phase r = Task_Running"
  shows "st_state (tr_status r) = AS_RUNNING"
proof -
  have "status_fits r" using assms(1,2) unfolding worker_ok_def manager_ok_def by blast
  then show ?thesis using assms(3) by (simp add: status_fits_def Let_def)
qed

lemma thread_fits_cancel [simp]: "thread_fits we th (r\<lparr>tr_cancelled := c\<rparr>) = thread_fits we th r"
  by (simp add: thread_fits_def)

lemma fail_attempt_ends:
  "tr_submission (fst (fail_attempt we e r s)) = tr_submission r \<and> (\<exists>e'. tr_phase (fst (fail_attempt we e r s)) = Task_Ended e')"
  using fail_attempt_cases [of we e r s] by (elim exE disjE conjE) simp_all

lemma finish_task_ends:
  assumes "finish_task we out r s = (r', s')"
  shows "tr_submission r' = tr_submission r \<and> (\<exists>e. tr_phase r' = Task_Ended e)"
  using finish_task_cases [of we out r s] fail_attempt_ends unfolding assms fst_conv by (elim exE disjE conjE) auto

text \<open>The manager of a Worker takes its own steps.\<close>

lemma worker_step_manager:
  assumes "worker_step we w w'" and "worker_ok we w"
  shows "wk_manager w' = wk_manager w \<or> task_step we (wk_manager w) (wk_manager w')"
  using assms
proof induction
  case (Submitted w sub)
  then show ?case using task_step.Submit by simp
next
  case (Cancelled w a)
  then show ?case using task_step.Cancel by simp
next
  case (Closed w)
  then show ?case using task_step.Close by simp
next
  case (Started w a r now)
  then show ?case using task_step.Start by simp
next
  case (Finished w a r out r' s)
  then obtain io secs s0 s1 where "execute_sync we (tr_submission r) io secs s0 = (out, s1)"
    using worker_ok_thread [of we w a r] unfolding thread_fits_def by blast
  from task_step.Finish [OF Finished(1,2) this, of "wk_store w"] show ?case using Finished(4) by simp
next
  case (Interrupted w a r r' s)
  from task_step.Interrupt [OF Interrupted(1,2), of we "wk_store w"] show ?case using Interrupted(3) by simp
qed simp_all

lemma worker_step_goes_on:
  assumes "worker_step we w w'" and "worker_ok we w" and "dict_get (wk_manager w) a = Some r"
  shows "\<exists>r'. dict_get (wk_manager w') a = Some r' \<and> goes_on r r'"
  using worker_step_manager [OF assms(1,2)] task_step_goes_on [OF _ assms(3)] assms(3) goes_on_refl by metis

lemma worker_step_ok:
  assumes "worker_step we w w'" and "worker_ok we w"
  shows "worker_ok we w'"
proof -
  have "manager_ok (wk_manager w')"
    using worker_step_manager [OF assms] task_step_ok assms(2) by (auto simp: worker_ok_def)
  moreover have "(\<forall>a. dict_get (wk_manager w') a = None \<longrightarrow> wk_threads w' a = None)
      \<and> (\<forall>a r. dict_get (wk_manager w') a = Some r \<longrightarrow> thread_fits we (wk_threads w' a) r)"
    using assms
  proof induction
    case (Submitted w sub)
    then show ?case
      by (auto simp: worker_ok_def submit_task_get thread_fits_def new_record_def simp del: dict_get_None split: if_splits)
  next
    case (Cancelled w a)
    then show ?case
      by (auto simp: worker_ok_def cancel_task_def dict_get_set split: option.splits if_splits)
  next
    case (Closed w)
    then show ?case by (auto simp: worker_ok_def dict_get_close)
  next
    case (Started w a r now)
    then show ?case by (auto simp: worker_ok_def dict_get_set thread_fits_def start_attempt_def)
  next
    case (Ran w a r io secs tokens out s)
    then have "thread_fits we (wk_threads w a) r" using worker_ok_thread by blast
    then have "thread_fits we (Some (if tr_phase r = Task_Running then Thread_Over out else Thread_Late)) r"
      using Ran(2,3) by (auto simp: thread_fits_def split: task_phase.splits)
    then show ?case using Ran by (auto simp: worker_ok_def)
  next
    case (Finished w a r out r' s)
    then have "thread_fits we (wk_threads w a) r" using worker_ok_thread by blast
    moreover have "tr_submission r' = tr_submission r" "\<exists>e. tr_phase r' = Task_Ended e"
      using finish_task_ends [OF Finished(4)] by simp_all
    ultimately have "thread_fits we (wk_threads w a) r'" using Finished(2,3) by (auto simp: thread_fits_def)
    then show ?case using Finished by (auto simp: worker_ok_def dict_get_set)
  next
    case (Interrupted w a r r' s)
    then have "thread_fits we (wk_threads w a) r" using worker_ok_thread by blast
    moreover have "tr_submission r' = tr_submission r" "\<exists>e. tr_phase r' = Task_Ended e"
      using finish_task_ends [OF Interrupted(3)] by simp_all
    ultimately have "thread_fits we (wk_threads w a) r'" using Interrupted(2) by (auto simp: thread_fits_def)
    then show ?case using Interrupted by (auto simp: worker_ok_def dict_get_set)
  qed (auto simp: worker_ok_def)
  ultimately show ?thesis by (simp add: worker_ok_def)
qed

text \<open>No other attempt writes the objects of the attempt \<open>a\<close>, and every shuffle write has its partition count.\<close>

definition apart :: "worker_env \<Rightarrow> manager \<Rightarrow> string \<Rightarrow> bool" where
  "apart we m a \<longleftrightarrow> (\<forall>b q. dict_get m b = Some q \<longrightarrow> well_submitted (tr_submission q)
     \<and> (\<forall>r. dict_get m a = Some r \<longrightarrow> b \<noteq> a
          \<longrightarrow> own_objects we (tr_submission q) \<inter> own_objects we (tr_submission r) = {}))"

lemma apart_before:
  assumes "worker_step we w w'" and "worker_ok we w" and "apart we (wk_manager w') a"
    and "dict_get (wk_manager w) a = Some r"
  shows "apart we (wk_manager w) a"
proof -
  have same: "\<exists>q'. dict_get (wk_manager w') b = Some q' \<and> tr_submission q' = tr_submission q"
    if "dict_get (wk_manager w) b = Some q" for b q
    using worker_step_goes_on [OF assms(1,2) that] by (auto simp: goes_on_def)
  show ?thesis
    unfolding apart_def
  proof (intro allI impI conjI)
    fix b q
    assume q: "dict_get (wk_manager w) b = Some q"
    then obtain q' where q': "dict_get (wk_manager w') b = Some q'" "tr_submission q' = tr_submission q"
      using same by blast
    then show "well_submitted (tr_submission q)" using assms(3) unfolding apart_def by metis
    fix r
    assume r: "dict_get (wk_manager w) a = Some r" and "b \<noteq> a"
    then obtain r' where "dict_get (wk_manager w') a = Some r'" "tr_submission r' = tr_submission r"
      using same by blast
    then show "own_objects we (tr_submission q) \<inter> own_objects we (tr_submission r) = {}"
      using assms(3) q' \<open>b \<noteq> a\<close> unfolding apart_def by metis
  qed
qed

text \<open>The attempt \<open>a\<close>, if it ended otherwise than with success after its thread, has no object.\<close>

definition left_nothing :: "worker_env \<Rightarrow> worker_process \<Rightarrow> string \<Rightarrow> task_record \<Rightarrow> bool" where
  "left_nothing we w a r \<longleftrightarrow> (st_state (tr_status r) \<in> {AS_CANCELED, AS_FAILED}
     \<longrightarrow> (\<exists>out. wk_threads w a = Some (Thread_Over out))
     \<longrightarrow> (\<forall>loc \<in> own_objects we (tr_submission r). os_objects (wk_store w) loc = None))"

lemma ended_by_step:
  assumes ok: "worker_ok we w" and apart: "apart we m a"
    and b: "dict_get (wk_manager w) b = Some q" "tr_phase q = Task_Running"
    and fin: "finish_task we out q (wk_store w) = (q', s)"
    and ran: "\<And>result. out = Inr result \<Longrightarrow> wk_threads w b = Some (Thread_Over out)"
    and m: "\<And>c. c \<noteq> b \<Longrightarrow> dict_get m c = dict_get (wk_manager w) c" "dict_get m b = Some q'"
    and r: "dict_get m a = Some r"
    and before: "\<And>r. dict_get (wk_manager w) a = Some r \<Longrightarrow> left_nothing we w a r"
  shows "left_nothing we (w\<lparr>wk_manager := m, wk_store := s\<rparr>) a r"
proof -
  have q': "tr_submission q' = tr_submission q" using finish_task_ends [OF fin] by simp
  have well: "well_submitted (tr_submission q)" using apart m(2) q' unfolding apart_def by metis
  have run: "\<exists>io secs s0 s1. execute_sync we (tr_submission q) io secs s0 = (Inr result, s1)" if "out = Inr result" for result
    using worker_ok_thread [OF ok b(1)] ran [OF that] that unfolding thread_fits_def by blast
  show ?thesis
  proof (cases "a = b")
    case True
    from finish_task_cleans [OF well worker_ok_running [OF ok b] run fin] show ?thesis
      using True r m(2) q' by (auto simp: left_nothing_def)
  next
    case False
    then have "own_objects we (tr_submission q) \<inter> own_objects we (tr_submission r) = {}"
      using apart m(2) r q' unfolding apart_def by metis
    then have "os_objects s loc = os_objects (wk_store w) loc" if "loc \<in> own_objects we (tr_submission r)" for loc
      using finish_task_touches [OF well fin run] that by blast
    then show ?thesis using before [of r] m(1) [OF False] r by (simp add: left_nothing_def)
  qed
qed

lemma worker_step_left_nothing:
  assumes "worker_step we w w'" and "worker_ok we w" and "apart we (wk_manager w') a"
    and "\<And>r. dict_get (wk_manager w) a = Some r \<Longrightarrow> left_nothing we w a r"
    and "dict_get (wk_manager w') a = Some r"
  shows "left_nothing we w' a r"
  using assms
proof induction
  case (Submitted w sub)
  then show ?case by (auto simp: submit_task_get left_nothing_def new_record_def split: if_splits)
next
  case (Cancelled w b)
  then show ?case
    by (cases "dict_get (wk_manager w) b") (auto simp: cancel_task_def dict_get_set left_nothing_def split: if_splits)
next
  case (Closed w)
  then show ?case by (auto simp: dict_get_close left_nothing_def)
next
  case (Started w b q now)
  then show ?case by (auto simp: dict_get_set left_nothing_def start_attempt_def split: if_splits)
next
  case (Ran w b q io secs tokens out s)
  have r: "dict_get (wk_manager w) a = Some r" using Ran.prems by simp
  show ?case
  proof (cases "a = b")
    case True
    then have "r = q" using r Ran(1) by simp
    moreover have "st_state (tr_status q) = AS_RUNNING" if "tr_phase q = Task_Running"
      using that worker_ok_running [OF Ran.prems(1) Ran(1)] by blast
    ultimately show ?thesis using True by (auto simp: left_nothing_def)
  next
    case False
    then have sep: "own_objects we (tr_submission q) \<inter> own_objects we (tr_submission r) = {}"
      and well: "well_submitted (tr_submission q)"
      using Ran(1) Ran.prems(2) r by (auto simp: apart_def)
    have "touches (own_objects we (tr_submission q)) (execute_sync we (tr_submission q) io secs)"
      by (rule touches_execute_sync) (use well in \<open>simp add: well_submitted_def\<close>)
    from touchesD [OF this Ran(3)] have "os_objects s loc = os_objects (wk_store w) loc"
      if "loc \<in> own_objects we (tr_submission r)" for loc using sep that by auto
    then show ?thesis using Ran.prems(3) [OF r] False by (simp add: left_nothing_def)
  qed
next
  case (Finished w b q out q' s)
  have "left_nothing we (w\<lparr>wk_manager := dict_set (wk_manager w) b q', wk_store := s\<rparr>) a r"
    by (rule ended_by_step [OF Finished.prems(1) _ Finished(1,2,4)])
      (use Finished in \<open>simp_all add: dict_get_set\<close>)
  then show ?case .
next
  case (Interrupted w b q q' s)
  have "left_nothing we (w\<lparr>wk_manager := dict_set (wk_manager w) b q', wk_store := s\<rparr>) a r"
    by (rule ended_by_step [OF Interrupted.prems(1) _ Interrupted(1,2,3)])
      (use Interrupted in \<open>simp_all add: dict_get_set\<close>)
  then show ?case .
next
  case (Others w s)
  then have r: "dict_get (wk_manager w) a = Some r" by simp
  from Others.prems(3) [OF r] Others(1) [OF r] show ?case by (auto simp: left_nothing_def)
qed

text \<open>
  C12. An attempt that ends \<open>CANCELED\<close> or \<open>FAILED\<close> after its thread leaves nothing behind.  In every state
  that a Worker can reach from its start, over every interleaving of requests, threads, ends of attempts,
  interruptions and other users of the store: if the record says so and the thread had returned while the
  attempt waited for it (\<open>Thread_Over\<close>), then none of the objects the attempt may write exists (its table, the
  shuffle files of every partition and their manifest), however far the thread came, whichever request of the
  store failed, and also when the cancellation arrived after the thread had succeeded.  Attempts write
  different objects and a shuffle write has an integer \<open>partition_count\<close> (\<open>apart\<close>), as the coordinator's
  locations and the validation of a submission provide.  The proviso on the thread is needed: a thread
  whose attempt was interrupted goes on, and \<open>interrupted_thread_leaves_table\<close> shows a \<open>CANCELED\<close> attempt
  whose table exists.
\<close>

theorem ended_attempt_leaves_nothing:
  assumes "(worker_step we)\<^sup>*\<^sup>* \<lparr>wk_manager = [], wk_threads = Map.empty, wk_store = s0\<rparr> w"
    and "dict_get (wk_manager w) a = Some r" and "apart we (wk_manager w) a"
    and "st_state (tr_status r) \<in> {AS_CANCELED, AS_FAILED}" and "wk_threads w a = Some (Thread_Over out)"
    and "loc \<in> own_objects we (tr_submission r)"
  shows "os_objects (wk_store w) loc = None"
proof -
  from assms(1) have "worker_ok we w \<and> (apart we (wk_manager w) a
      \<longrightarrow> (\<forall>r. dict_get (wk_manager w) a = Some r \<longrightarrow> left_nothing we w a r))"
  proof induction
    case base
    show ?case by (simp add: worker_ok_def manager_ok_def dict_get_def)
  next
    case (step v w)
    have "left_nothing we w a r" if "apart we (wk_manager w) a" "dict_get (wk_manager w) a = Some r" for r
      using step.IH apart_before [OF step.hyps(2) _ that(1)]
      by (intro worker_step_left_nothing [OF step.hyps(2) _ that(1) _ that(2)]) blast+
    then show ?case using step.IH worker_step_ok [OF step.hyps(2)] by blast
  qed
  then show ?thesis using assms(2-6) unfolding left_nothing_def by blast
qed

section \<open>The table of a unary task\<close>

lemma run_operator_Inr:
  assumes "run_operator we sub p g s = (Inr (table, spill), s')" and "delivers B P E g"
  shows "P (bt_rows table)" and "s' = s\<lparr>os_checks := os_checks s'\<rparr>"
proof -
  obtain c where c: "task_context we sub s = Inr c"
    using assms(1) by (auto simp: run_operator_def split: sum.splits)
  obtain bs out c1 where run: "run g c = (bs, out, c1)" by (cases "run g c") auto
  have res: "bindR (close_context c1) (\<lambda>c2. bindR out (\<lambda>_. bindR (executed_table p bs) (\<lambda>table.
      Inr (table, cx_spill c2)))) = Inr (table, spill)" "s' = s\<lparr>os_checks := os_checks s + cx_ticks c1\<rparr>"
    using assms(1) c run by (simp_all add: run_operator_def Let_def)
  then obtain u where out: "out = Inr u" and table: "executed_table p bs = Inr table"
    by (auto simp: bindR_eq_Inr)
  have "wp (\<lambda>_. True) B g (\<lambda>bs _. P (rows_of bs)) (\<lambda>e. context_error e \<or> E e)"
    using assms(2) by (simp add: delivers_def)
  from wp_run [OF this _ run] have "P (rows_of bs)" by (simp add: out)
  moreover have "bt_rows table = rows_of bs"
    using table by (auto simp: executed_table_def rows_of_def split: list.splits if_splits)
  ultimately show "P (bt_rows table)" by simp
  show "s' = s\<lparr>os_checks := os_checks s'\<rparr>" using res(2) by simp
qed

lemma poll_token_objects: "poll_token p s = (x, s') \<Longrightarrow> os_objects s' = os_objects s"
  using touchesD [OF touches_poll, of p s x s' _ "{}"] by (auto simp: fun_eq_iff)

text \<open>
  C15. What a successful unary task publishes.  If the operator that the task runs on its input delivers only
  rows that satisfy \<open>P\<close> (the operators' theorems say which), then a successful task has published, at its
  output location, the encoding of a table whose rows satisfy \<open>P\<close>, and its result describes that object:
  its size, its checksum and the number of rows.
\<close>

theorem unary_task_publishes_result:
  assumes "ts_operation sub = OP_UNARY" and "plan_payload we sub = Inr p"
    and "string_payload sub ''input_location'' = Inr loc"
    and "os_objects s (we_locate we loc) = Some data" and "se_decode we data = Inr input"
    and "\<And>g. task_operator (we_env we) (node_id p) (bt_schema input) (we_chunks we (Some 65536) input) p = Inr g
          \<Longrightarrow> delivers B P E g"
    and "execute_sync we sub io seconds s = (Inr result, s')"
  shows "\<exists>table payload. P (bt_rows table) \<and> se_encode we table = Inr payload
    \<and> os_objects s' (output_location we sub) = Some payload
    \<and> rs_artifact result = Some \<lparr>ar_location = output_location we sub, ar_size_bytes = int (length payload),
        ar_checksum = hexdigest we payload, ar_row_count = int (length (bt_rows table))\<rparr>"
proof -
  have "bindA (poll_token (we_start_polls we)) (\<lambda>_. bindA (task_table we sub io) (publish_table we sub seconds)) s
      = (Inr result, s')"
    using assms(1,7) by (simp add: execute_sync_def)
  then obtain u t where poll: "poll_token (we_start_polls we) s = (Inr u, t)"
      and rest: "bindA (task_table we sub io) (publish_table we sub seconds) t = (Inr result, s')"
    unfolding bindA_Inr [of "poll_token (we_start_polls we)"] by blast
  obtain table m t1 where tt: "task_table we sub io t = (Inr (table, m), t1)"
      and pub: "publish_table we sub seconds (table, m) t1 = (Inr result, s')"
    using rest by (auto simp: bindA_Inr)
  obtain spill rows bytes where un: "execute_unary we sub t = (Inr (table, spill, rows, bytes), t1)"
    using tt assms(1) by (auto simp: task_table_def bindA_Inr no_input_def)
  have input: "os_objects t (we_locate we loc) = Some data" using poll_token_objects [OF poll] assms(4) by simp
  from un obtain g t2 where g: "task_operator (we_env we) (node_id p) (bt_schema input) (we_chunks we (Some 65536) input) p = Inr g"
      and run: "run_operator we sub p g t2 = (Inr (table, spill), t1)"
    using input assms(2,3,5)
    by (auto simp: execute_unary_def bindA_Inr liftA_Inr read_table_def read_bytes_def split: if_splits option.splits)
  show ?thesis
    using publish_table_Inr [OF pub] run_operator_Inr(1) [OF run assms(6) [OF g]] by force
qed

section \<open>A small Worker\<close>

text \<open>It plans every task as a limit of one row over the rows 5 and 6.\<close>

definition sample_worker :: worker_env where
  "sample_worker = shuffle_env.extend sample_shuffle
     \<lparr>we_worker_id = ''w1'', we_process_id = 7, we_results = ''/tmp/results'', we_memory_limit = 1000, we_temp = ''/tmp'',
      we_start_polls = (1, False), we_polls = (\<lambda>_. (2, False)), we_locate = (\<lambda>s. [s]),
      we_plan = (\<lambda>_. Inr (Limit ''l'' (Scan ''s'' ''t'' ''t'' (cost_schema ''a'')) 1 (cost_schema ''a''))),
      we_table = (\<lambda>_. Inl PyValueError), we_manifest = (\<lambda>_. Inl PyValueError), we_scan = (\<lambda>_ _ _. []),
      we_scan_schema = (\<lambda>_ _ _. Inl PyValueError), we_sources = (\<lambda>_. Inl PyValueError),
      we_chunks = (\<lambda>_ b. [b]), we_bind = (\<lambda>_ _. Inl PyValueError), we_cost = sample_rt,
      we_write_error = (\<lambda>_. None), we_file_size = (\<lambda>_. 1)\<rparr>"

definition sample_task :: "task_operation \<Rightarrow> task_submission" where
  "sample_task op = \<lparr>ts_task_id = ''t'', ts_attempt_id = ''a'', ts_query_id = ''q'', ts_stage_id = ''s'',
     ts_operation = op, ts_payload = [(''plan'', JNull), (''input_location'', JStr ''in''), (''source_location'', JStr ''in''),
       (''shuffle_root'', JStr ''r''), (''partition_count'', JInt 1)], ts_output_location = ''out''\<rparr>"

definition input_store :: "(nat \<Rightarrow> (exn \<times> string option) option) \<Rightarrow> object_store" where
  "input_store faults = \<lparr>os_objects = [[''in''] \<mapsto> [CHR 5, CHR 6]], os_calls = 0, os_faults = faults, os_checks = 0,
     os_cancelled = (\<lambda>_. False)\<rparr>"

lemma execute_sync_unary: "ts_operation sub = OP_UNARY \<Longrightarrow> execute_sync we sub io seconds =
   bindA (poll_token (we_start_polls we)) (\<lambda>_. bindA (bindA (execute_unary we sub) (\<lambda>(table, spill, rows, bytes).
      retA (apsnd (\<lambda>m. m\<lparr>tk_input_rows := rows, tk_input_bytes := bytes, tk_spill := spill\<rparr>) (no_input table))))
     (publish_table we sub seconds))"
  by (simp add: execute_sync_def task_table_def)
lemma execute_sync_shuffle_write: "ts_operation sub = OP_SHUFFLE_WRITE \<Longrightarrow> execute_sync we sub io seconds =
   bindA (poll_token (we_start_polls we)) (\<lambda>_. execute_shuffle_write we sub io seconds)"
  by (simp add: execute_sync_def)
lemma sample_operation: "ts_operation (sample_task op) = op" by (simp add: sample_task_def)

lemma sample_fields [simp]:
  "we_worker_id sample_worker = ''w1''" "we_process_id sample_worker = 7" "we_memory_limit sample_worker = 1000"
  "we_start_polls sample_worker = (1, False)" "we_locate sample_worker = (\<lambda>s. [s])"
  "we_plan sample_worker = (\<lambda>_. Inr (Limit ''l'' (Scan ''s'' ''t'' ''t'' (cost_schema ''a'')) 1 (cost_schema ''a'')))"
  "we_chunks sample_worker = (\<lambda>_ b. [b])" "shuffle_env.truncate sample_worker = sample_shuffle"
  "se_encode sample_worker b = Inr (map int_cell (bt_rows b))"
  "se_decode sample_worker data = Inr (int_table (map (\<lambda>c. int (of_char c)) data))"
  by (simp_all add: sample_worker_def shuffle_env.defs sample_shuffle_def py_runtime.defs)



lemma sample_limit_run:
  "cx_cancelled c = (\<lambda>_. False) \<Longrightarrow>
    \<exists>c1. run (limit_op ''l'' 1 (source_op op [int_table [5, 6]])) c = ([int_table [5]], Inr (), c1)
      \<and> cx_accounts c1 = cx_accounts c \<and> cx_account c1 = cx_account c \<and> cx_spill c1 = cx_spill c"
  by (simp add: limit_op_def limit_batch_def source_op_def check_cancelled_def step_def emit_def bump_def modify_def
      count_input_def yieldG_def lift_def Let_def int_table_def)

abbreviation sample_limit :: plan where
  "sample_limit \<equiv> Limit ''l'' (Scan ''s'' ''t'' ''t'' (cost_schema ''a'')) 1 (cost_schema ''a'')"

lemma sample_operator_run:
  assumes "os_cancelled s = (\<lambda>_. False)"
  shows "\<exists>n. run_operator sample_worker (sample_task OP_UNARY) sample_limit
    (limit_op ''l'' 1 (source_op op [int_table [5, 6]])) s = (Inr (int_table [5], no_spills), s\<lparr>os_checks := n\<rparr>)"
proof -
  obtain c where c: "task_context sample_worker (sample_task OP_UNARY) s = Inr c" "cx_cancelled c = (\<lambda>_. False)"
      "cx_accounts c ! cx_account c = \<lparr>ac_name = ''a'', ac_limit = 1000, ac_parent = Some 0, ac_current = 0, ac_peak = 0\<rparr>"
      "cx_spill c = no_spills"
    using assms by (simp add: task_context_def new_context_def new_account_def child_def sample_task_def)
  obtain c1 where c1: "run (limit_op ''l'' 1 (source_op op [int_table [5, 6]])) c = ([int_table [5]], Inr (), c1)"
      "cx_accounts c1 = cx_accounts c" "cx_account c1 = cx_account c" "cx_spill c1 = cx_spill c"
    using sample_limit_run [OF c(2)] by blast
  show ?thesis
    using c c1 by (intro exI [of _ "os_checks s + cx_ticks c1"]) (simp add: run_operator_def Let_def close_context_def executed_table_def no_spills_def int_table_def)
qed

lemma sample_unary_run:
  "\<exists>result s'. execute_sync sample_worker (sample_task OP_UNARY) (Fin 1) (Fin 1) (input_store (\<lambda>_. None)) = (Inr result, s')"
proof -
  let ?s = "\<lambda>k n. (input_store (\<lambda>_. None))\<lparr>os_calls := k, os_checks := n\<rparr>"
  have poll: "poll_token (1, False) (input_store (\<lambda>_. None)) = (Inr (), ?s 0 1)"
    by (simp add: poll_token_def bindA_def check_token_def input_store_def)
  obtain n where run: "run_operator sample_worker (sample_task OP_UNARY) sample_limit
      (limit_op ''l'' 1 (source_op ''l-input'' [int_table [5, 6]])) (?s 1 1) = (Inr (int_table [5], no_spills), ?s 1 n)"
    using sample_operator_run [of "?s 1 1" "''l-input''"] by (auto simp: input_store_def)
  have "execute_unary sample_worker (sample_task OP_UNARY) (?s 0 1) = (Inr (int_table [5], no_spills, 2, 2), ?s 1 n)"
    using run by (simp add: execute_unary_def plan_payload_def string_payload_def payload_get_def sample_task_def dict_get_def
        is_unary_plan_def read_table_def read_bytes_def bindA_def task_operator_def make_limit_op_def input_store_def int_table_def)
  moreover have "\<exists>result s'. publish_table sample_worker (sample_task OP_UNARY) (Fin 1) (apsnd (\<lambda>m. m\<lparr>tk_input_rows := 2,
      tk_input_bytes := 2, tk_spill := no_spills\<rparr>) (no_input (int_table [5]))) (?s 1 n) = (Inr result, s')"
    by (simp add: publish_table_def no_input_def bindA_def check_token_def publish_bytes_def input_store_def Let_def
        make_task_metrics_def make_shuffle_metrics_def no_shuffle_metrics_def no_spills_def fle_def flt_def feq_def fnum_def
        is_ok_def task_result_of_def make_task_result_def)
  ultimately show ?thesis
    unfolding execute_sync_unary [OF sample_operation] sample_fields using poll by (simp add: bindA_def)
qed

lemma sample_delivers:
  "delivers (batch_ok (we_env sample_worker) (cost_schema ''a'')) (\<lambda>rows. rows = bt_rows (int_table [5, 6])) (\<lambda>_. False)
     (source_op ''l-input'' [int_table [5, 6]])"
proof (rule deliversI)
  have conf: "ev_conform (we_env sample_worker) = (\<lambda>_. Inr)"
    by (simp add: sample_worker_def shuffle_env.defs sample_shuffle_def py_runtime.defs env.defs)
  show "delivers (batch_ok (we_env sample_worker) (cost_schema ''a'')) (\<lambda>rows. rows = bt_rows (int_table [5, 6])) (\<lambda>_. False)
      (from_list [int_table [5, 6]])"
    unfolding delivers_from_list batch_ok_def conforms_def conf by (simp add: list_all_iff rows_of_def int_table_def)
  show "wp inv (batch_ok (we_env sample_worker) (cost_schema ''a'')) (source_op ''l-input'' [int_table [5, 6]])
      (\<lambda>bs _. rows_of bs = bt_rows (int_table [5, 6])) err"
    if "execution_context inv err"
      "wp inv (batch_ok (we_env sample_worker) (cost_schema ''a'')) (from_list [int_table [5, 6]])
        (\<lambda>bs _. rows_of bs = bt_rows (int_table [5, 6])) err" for inv err
    using that by (intro execution_context.wp_source_op) auto
qed

lemma unary_task_publishes_result_witness:
  "\<exists>result s' table payload. execute_sync sample_worker (sample_task OP_UNARY) (Fin 1) (Fin 1) (input_store (\<lambda>_. None))
      = (Inr result, s')
    \<and> length (bt_rows table) \<le> 1 \<and> se_encode sample_worker table = Inr payload
    \<and> os_objects s' (output_location sample_worker (sample_task OP_UNARY)) = Some payload
    \<and> rs_artifact result = Some \<lparr>ar_location = output_location sample_worker (sample_task OP_UNARY),
        ar_size_bytes = int (length payload), ar_checksum = hexdigest sample_worker payload,
        ar_row_count = int (length (bt_rows table))\<rparr>"
proof -
  obtain result s' where run: "execute_sync sample_worker (sample_task OP_UNARY) (Fin 1) (Fin 1) (input_store (\<lambda>_. None))
      = (Inr result, s')" using sample_unary_run by blast
  show ?thesis
  proof (intro exI [of _ result] exI [of _ s'], simp only: run simp_thms,
      rule unary_task_publishes_result [OF sample_operation _ _ _ _ _ run])
    show "plan_payload sample_worker (sample_task OP_UNARY) = Inr sample_limit" by (simp add: plan_payload_def)
    show "string_payload (sample_task OP_UNARY) ''input_location'' = Inr ''in''"
      by (simp add: string_payload_def payload_get_def sample_task_def dict_get_def)
    show "os_objects (input_store (\<lambda>_. None)) (we_locate sample_worker ''in'') = Some [CHR 5, CHR 6]"
      by (simp add: input_store_def)
    show "se_decode sample_worker [CHR 5, CHR 6] = Inr (int_table [5, 6])" by simp
    fix g
    assume "task_operator (we_env sample_worker) (node_id sample_limit) (bt_schema (int_table [5, 6]))
        (we_chunks sample_worker (Some 65536) (int_table [5, 6])) sample_limit = Inr g"
    then have g: "g = limit_op ''l'' 1 (source_op ''l-input'' [int_table [5, 6]])"
      by (simp add: task_operator_def make_limit_op_def)
    show "delivers (batch_ok (we_env sample_worker) (cost_schema ''a'')) (\<lambda>rows. length rows \<le> 1) (\<lambda>_. False) g"
      unfolding g by (rule deliversI [OF _ limit_op_takes [OF sample_delivers]]) (erule wp_mono, auto)
  qed
qed

text \<open>An attempt that is submitted, runs and succeeds.\<close>

lemma sample_attempt:
  "\<exists>m r. (task_step sample_worker)\<^sup>*\<^sup>* (snd (submit_task (sample_task OP_UNARY) [])) m \<and> dict_get m ''a'' = Some r
    \<and> st_state (tr_status r) = AS_SUCCEEDED"
proof -
  let ?sub = "sample_task OP_UNARY"
  let ?m0 = "snd (submit_task ?sub [])" and ?r0 = "new_record ?sub"
  obtain result s' where run: "execute_sync sample_worker ?sub (Fin 1) (Fin 1) (input_store (\<lambda>_. None)) = (Inr result, s')"
    using sample_unary_run by blast
  have id: "ts_attempt_id ?sub = ''a''" by (simp add: sample_task_def)
  have m0: "dict_get ?m0 ''a'' = Some ?r0" using submit_task_get [of ?sub "[]" "''a''"] id by simp
  let ?r1 = "start_attempt 5 ?r0"
  let ?m1 = "dict_set ?m0 ''a'' ?r1"
  have 1: "task_step sample_worker ?m0 ?m1" by (rule Start [OF m0]) (simp add: new_record_def)
  have m1: "dict_get ?m1 ''a'' = Some ?r1" by (simp add: dict_get_set)
  let ?r2 = "fst (finish_task sample_worker (Inr result) ?r1 s')"
  have 2: "task_step sample_worker ?m1 (dict_set ?m1 ''a'' ?r2)"
    by (rule Finish [OF m1, where io = "Fin 1" and secs = "Fin 1" and ?s0.0 = "input_store (\<lambda>_. None)" and ?s1.0 = s'])
      (simp_all add: start_attempt_def new_record_def run)
  have "st_state (tr_status ?r2) = AS_SUCCEEDED"
    by (simp add: finish_task_def end_attempt_def start_attempt_def new_record_def)
  moreover have "(task_step sample_worker)\<^sup>*\<^sup>* ?m0 (dict_set ?m1 ''a'' ?r2)"
    by (rule rtranclp.rtrancl_into_rtrancl [where b = ?m1], rule r_into_rtranclp, rule 1, rule 2)
  ultimately show ?thesis
    by (intro exI [of _ "dict_set ?m1 ''a'' ?r2"] exI [of _ ?r2]) (simp add: dict_get_set)
qed

lemma task_lifecycle_witness:
  "\<exists>m r. (task_step sample_worker)\<^sup>*\<^sup>* [] m \<and> dict_get m ''a'' = Some r \<and> st_state (tr_status r) = AS_SUCCEEDED
    \<and> status_fits r \<and> ids_fit ''a'' r"
proof -
  obtain m r where m: "(task_step sample_worker)\<^sup>*\<^sup>* (snd (submit_task (sample_task OP_UNARY) [])) m"
      "dict_get m ''a'' = Some r" "st_state (tr_status r) = AS_SUCCEEDED" using sample_attempt by blast
  have "task_step sample_worker [] (snd (submit_task (sample_task OP_UNARY) []))" by (rule Submit)
  then have run: "(task_step sample_worker)\<^sup>*\<^sup>* [] m" using m(1) by (rule converse_rtranclp_into_rtranclp)
  show ?thesis by (intro exI conjI) (rule run, rule m(2), rule m(3), use task_lifecycle [OF run m(2)] in simp_all)
qed

lemma attempt_runs_once_witness:
  "\<exists>m r'. (task_step sample_worker)\<^sup>*\<^sup>* (snd (submit_task (sample_task OP_UNARY) [])) m \<and> dict_get m ''a'' = Some r'
    \<and> st_state (tr_status r') = AS_SUCCEEDED \<and> goes_on (new_record (sample_task OP_UNARY)) r'
    \<and> submit_task (sample_task OP_UNARY) m = (Inr (tr_status r'), m)
    \<and> submit_task (sample_task OP_SLEEP) m = (Inl PyValueError, m)"
proof -
  obtain m r where m: "(task_step sample_worker)\<^sup>*\<^sup>* (snd (submit_task (sample_task OP_UNARY) [])) m"
      "dict_get m ''a'' = Some r" "st_state (tr_status r) = AS_SUCCEEDED" using sample_attempt by blast
  have id: "ts_attempt_id (sample_task op) = ''a''" for op by (simp add: sample_task_def)
  have "dict_get (snd (submit_task (sample_task OP_UNARY) [])) ''a'' = Some (new_record (sample_task OP_UNARY))"
    using submit_task_get [of "sample_task OP_UNARY" "[]" "''a''"] id by simp
  from attempt_runs_once [OF m(1) this] obtain r' where r': "dict_get m ''a'' = Some r'"
      "goes_on (new_record (sample_task OP_UNARY)) r'"
      "\<forall>sub. ts_attempt_id sub = ''a'' \<longrightarrow> submit_task sub m
        = (if sub = tr_submission (new_record (sample_task OP_UNARY)) then Inr (tr_status r') else Inl PyValueError, m)"
    by metis
  have other: "sample_task OP_SLEEP \<noteq> sample_task OP_UNARY" by (simp add: sample_task_def)
  have same: "tr_submission (new_record (sample_task OP_UNARY)) = sample_task OP_UNARY" by (simp add: new_record_def)
  have "r' = r" using r'(1) m(2) by simp
  then show ?thesis
    using m r'(1,2) r'(3) [THEN spec, of "sample_task OP_UNARY"] r'(3) [THEN spec, of "sample_task OP_SLEEP"] id other same
    by (intro exI [of _ m] exI [of _ r]) simp
qed

text \<open>A shuffle write whose manifest cannot be published: its data file is written, and deleted again.\<close>

definition full_disk :: "nat \<Rightarrow> (exn \<times> string option) option" where
  "full_disk n = (if n = 2 then Some (PyOSError 28, None) else None)"

lemma sample_write_fails:
  "\<exists>s1. execute_sync sample_worker (sample_task OP_SHUFFLE_WRITE) (Fin 1) (Fin 1) (input_store full_disk)
     = (Inl (PyOSError 28), s1) \<and> os_calls s1 = 3 \<and> os_faults s1 = full_disk"
  unfolding execute_sync_shuffle_write [OF sample_operation]
  by (simp add: bindA_def poll_token_def check_token_def input_store_def execute_shuffle_write_def string_payload_def
      payload_get_def sample_task_def dict_get_def some_or_def read_table_def read_bytes_def int_table_def at_root_def
      shuffle_write_def Let_def assign_row_def targets_of_def partition_of_def partition_of_key_def add_index_def
      write_partition_def write_bytes_def publish_bytes_def make_shuffle_file_def make_shuffle_metrics_def
      no_shuffle_metrics_def fle_def flt_def feq_def fnum_def full_disk_def sample_encode)

definition running_write :: task_record where
  "running_write = start_attempt 5 (new_record (sample_task OP_SHUFFLE_WRITE))"

text \<open>A Worker with one attempt, from its start.\<close>

abbreviation one_attempt :: "task_submission \<Rightarrow> task_record \<Rightarrow> (string \<rightharpoonup> thread) \<Rightarrow> object_store \<Rightarrow> worker_process" where
  "one_attempt sub r threads s \<equiv> \<lparr>wk_manager = [(ts_attempt_id sub, r)], wk_threads = threads, wk_store = s\<rparr>"

lemma one_attempt_starts:
  "(worker_step we)\<^sup>*\<^sup>* \<lparr>wk_manager = [], wk_threads = Map.empty, wk_store = s\<rparr>
     (one_attempt sub (start_attempt now (new_record sub)) [ts_attempt_id sub \<mapsto> Thread_Live] s)"
proof (rule rtranclp.rtrancl_into_rtrancl, rule r_into_rtranclp)
  show "worker_step we \<lparr>wk_manager = [], wk_threads = Map.empty, wk_store = s\<rparr>
      (one_attempt sub (new_record sub) Map.empty s)"
    using Submitted [of we "\<lparr>wk_manager = [], wk_threads = Map.empty, wk_store = s\<rparr>" sub]
    by (simp add: submit_task_def dict_get_def dict_set_def)
  show "worker_step we (one_attempt sub (new_record sub) Map.empty s)
      (one_attempt sub (start_attempt now (new_record sub)) [ts_attempt_id sub \<mapsto> Thread_Live] s)"
    using Started [of "one_attempt sub (new_record sub) Map.empty s" "ts_attempt_id sub" "new_record sub" we now]
    by (simp add: dict_get_def dict_set_def new_record_def)
qed

lemma one_attempt_ends:
  assumes "execute_sync we sub io secs (s\<lparr>os_checks := 0, os_cancelled := tokens\<rparr>) = (out, s1)"
    and "finish_task we out (start_attempt now (new_record sub)) s1 = (r', s2)"
  shows "(worker_step we)\<^sup>*\<^sup>* \<lparr>wk_manager = [], wk_threads = Map.empty, wk_store = s\<rparr>
     (one_attempt sub r' [ts_attempt_id sub \<mapsto> Thread_Over out] s2)"
proof (rule rtranclp.rtrancl_into_rtrancl, rule rtranclp.rtrancl_into_rtrancl, rule one_attempt_starts)
  let ?r = "start_attempt now (new_record sub)" and ?a = "ts_attempt_id sub"
  have r: "tr_phase ?r = Task_Running" "tr_submission ?r = sub" by (simp_all add: start_attempt_def new_record_def)
  show "worker_step we (one_attempt sub ?r [?a \<mapsto> Thread_Live] s) (one_attempt sub ?r [?a \<mapsto> Thread_Over out] s1)"
    using Ran [of "one_attempt sub ?r [?a \<mapsto> Thread_Live] s" ?a ?r we io secs tokens out s1] assms(1) r
    by (simp add: dict_get_def)
  show "worker_step we (one_attempt sub ?r [?a \<mapsto> Thread_Over out] s1) (one_attempt sub r' [?a \<mapsto> Thread_Over out] s2)"
    using Finished [of "one_attempt sub ?r [?a \<mapsto> Thread_Over out] s1" ?a ?r out we r' s2] assms(2) r
    by (simp add: dict_get_def dict_set_def)
qed

lemma ended_attempt_leaves_nothing_witness:
  "\<exists>w r. (worker_step sample_worker)\<^sup>*\<^sup>* \<lparr>wk_manager = [], wk_threads = Map.empty, wk_store = input_store full_disk\<rparr> w
    \<and> dict_get (wk_manager w) ''a'' = Some r \<and> st_state (tr_status r) = AS_FAILED
    \<and> os_objects (wk_store w) ([''r''] @ data_location sample_worker ''q'' ''s'' ''t'' ''a'' 0) = None"
proof -
  let ?sub = "sample_task OP_SHUFFLE_WRITE" and ?r = "start_attempt 5 (new_record (sample_task OP_SHUFFLE_WRITE))"
  obtain s1 where run: "execute_sync sample_worker ?sub (Fin 1) (Fin 1) (input_store full_disk) = (Inl (PyOSError 28), s1)"
      and s1: "os_calls s1 = 3" "os_faults s1 = full_disk" using sample_write_fails by blast
  have store: "(input_store full_disk)\<lparr>os_checks := 0, os_cancelled := \<lambda>_. False\<rparr> = input_store full_disk"
    by (simp add: input_store_def)
  have sub: "tr_submission ?r = ?sub" by (simp add: start_attempt_def new_record_def)
  have count: "payload_get ?sub ''partition_count'' = Some (JInt 1)" "payload_get ?sub ''shuffle_root'' = Some (JStr ''r'')"
    by (simp_all add: payload_get_def sample_task_def dict_get_def)
  have ids: "ts_query_id ?sub = ''q''" "ts_stage_id ?sub = ''s''" "ts_task_id ?sub = ''t''" "ts_attempt_id ?sub = ''a''"
    by (simp_all add: sample_task_def)
  obtain r' s2 where fin: "finish_task sample_worker (Inl (PyOSError 28)) ?r s1 = (r', s2)" by fastforce
  have failed: "st_state (tr_status r') = AS_FAILED"
    using fin s1 count by (auto simp: finish_task_def fail_attempt_def Let_def sub sample_operation cleanup_submission_def
        bindA_def delete_all_def delete_object_def full_disk_def end_attempt_def start_attempt_def new_record_def)
  let ?w = "one_attempt ?sub r' [ts_attempt_id ?sub \<mapsto> Thread_Over (Inl (PyOSError 28))] s2"
  have steps: "(worker_step sample_worker)\<^sup>*\<^sup>* \<lparr>wk_manager = [], wk_threads = Map.empty, wk_store = input_store full_disk\<rparr> ?w"
    by (rule one_attempt_ends [OF _ fin, where tokens = "\<lambda>_. False" and io = "Fin 1" and secs = "Fin 1"]) (simp only: store run)
  have r': "tr_submission r' = ?sub" using finish_task_ends [OF fin] sub by simp
  have get: "dict_get (wk_manager ?w) b = Some q \<longleftrightarrow> b = ''a'' \<and> q = r'" for b q by (auto simp: dict_get_def ids)
  have "apart sample_worker (wk_manager ?w) ''a''"
    unfolding apart_def get by (simp add: r' well_submitted_def count)
  moreover have "[''r''] @ data_location sample_worker ''q'' ''s'' ''t'' ''a'' 0 \<in> own_objects sample_worker (tr_submission r')"
    by (simp add: own_objects_def sample_operation r' count ids)
  ultimately have "os_objects (wk_store ?w) ([''r''] @ data_location sample_worker ''q'' ''s'' ''t'' ''a'' 0) = None"
    using failed by (intro ended_attempt_leaves_nothing [OF steps, of "''a''" r' "Inl (PyOSError 28)"]) (simp_all add: dict_get_def ids)
  then show ?thesis using steps failed get by blast
qed

section \<open>Three faults of the manager\<close>

text \<open>
  A thread whose attempt was interrupted is not stopped.  When \<open>close\<close> runs out of time, a sleeping task that
  has passed its last check before the publication publishes its table after the clean-up: the record says
  \<open>CANCELED\<close> and the table stays.
\<close>

lemma interrupted_thread_leaves_table:
  "\<exists>w r. (worker_step sample_worker)\<^sup>*\<^sup>*
      \<lparr>wk_manager = [], wk_threads = Map.empty, wk_store = input_store (\<lambda>_. None)\<rparr> w
    \<and> dict_get (wk_manager w) ''a'' = Some r \<and> st_state (tr_status r) = AS_CANCELED \<and> tr_cancelled r
    \<and> wk_threads w ''a'' = Some Thread_Late
    \<and> output_location sample_worker (tr_submission r) \<in> own_objects sample_worker (tr_submission r)
    \<and> os_objects (wk_store w) (output_location sample_worker (tr_submission r)) \<noteq> None"
proof -
  let ?sub = "sample_task OP_SLEEP" and ?s = "input_store (\<lambda>_. None)" and ?t = "input_store (\<lambda>_. None)\<lparr>os_calls := 1\<rparr>"
  let ?r = "(start_attempt 5 (new_record ?sub))" and ?c = "(start_attempt 5 (new_record ?sub))\<lparr>tr_cancelled := True\<rparr>"
  let ?live = "[''a'' \<mapsto> Thread_Live]"
  have id: "ts_attempt_id ?sub = ''a''" by (simp add: sample_task_def)
  have c: "tr_phase ?c = Task_Running" "tr_submission ?c = ?sub" by (simp_all add: start_attempt_def new_record_def)
  have 1: "worker_step sample_worker (one_attempt ?sub ?r ?live ?s) (one_attempt ?sub ?c ?live ?s)"
    using Closed [of sample_worker "one_attempt ?sub ?r ?live ?s"] by (simp add: close_tasks_def)
  let ?ended = "(end_attempt AS_CANCELED ?c)\<lparr>tr_phase := Task_Ended (Some AsyncCancelled)\<rparr>"
  have out: "output_location sample_worker ?sub = [''out'']" by (simp add: output_location_def sample_task_def)
  have del: "delete_object [''out''] ?s = (Inr (), ?t)" by (simp add: delete_object_def input_store_def fun_upd_idem)
  have fin: "finish_task sample_worker (Inl AsyncCancelled) ?c ?s = (?ended, ?t)"
    by (simp add: finish_task_def fail_attempt_def Let_def c cleanup_submission_def sample_operation bindA_def out del
)
  obtain r' where r': "r' = ?ended" "st_state (tr_status r') = AS_CANCELED" "tr_cancelled r'" "tr_phase r' \<noteq> Task_Running"
      "tr_submission r' = ?sub"
    by (simp add: end_attempt_def start_attempt_def new_record_def)
  have 2: "worker_step sample_worker (one_attempt ?sub ?c ?live ?s) (one_attempt ?sub r' ?live ?t)"
    using Interrupted [of "one_attempt ?sub ?c ?live ?s" "''a''" ?c sample_worker r' ?t] fin c id r'(1)
    by (simp add: dict_get_def dict_set_def)
  obtain f where secs: "sleep_seconds sample_worker ?sub = Inr f"
    by (simp add: sleep_seconds_def payload_get_def sample_task_def dict_get_def sample_worker_def sample_shuffle_def
        plain_rt_def sample_rt_def shuffle_env.defs py_runtime.defs env.defs rat_float_def)
  have polls: "we_polls sample_worker x = (2, False)" for x by (simp add: sample_worker_def shuffle_env.defs sample_shuffle_def py_runtime.defs)
  obtain out s where run: "execute_sync sample_worker ?sub (Fin 1) (Fin 1) (?t\<lparr>os_checks := 0, os_cancelled := \<lambda>n. 5 \<le> n\<rparr>) = (out, s)"
      and s: "os_objects s (output_location sample_worker ?sub) \<noteq> None"
    by (simp add: execute_sync_def task_table_def sample_operation secs polls poll_token_def check_token_def bindA_def
        no_input_def publish_table_def publish_bytes_def input_store_def out eval_nat_numeral)
  have 3: "worker_step sample_worker (one_attempt ?sub r' ?live ?t) (one_attempt ?sub r' [''a'' \<mapsto> Thread_Late] s)"
    using Ran [of "one_attempt ?sub r' ?live ?t" "''a''" r' sample_worker "Fin 1" "Fin 1" "\<lambda>n. 5 \<le> n" out s] run r' id
    by (simp add: dict_get_def)
  have "(worker_step sample_worker)\<^sup>*\<^sup>* \<lparr>wk_manager = [], wk_threads = Map.empty, wk_store = ?s\<rparr>
      (one_attempt ?sub r' [''a'' \<mapsto> Thread_Late] s)"
  proof (rule rtranclp.rtrancl_into_rtrancl, rule rtranclp.rtrancl_into_rtrancl, rule rtranclp.rtrancl_into_rtrancl)
    show "(worker_step sample_worker)\<^sup>*\<^sup>* \<lparr>wk_manager = [], wk_threads = Map.empty, wk_store = ?s\<rparr>
        (one_attempt ?sub ?r ?live ?s)"
      using one_attempt_starts [of sample_worker ?s ?sub 5] by (simp add: id)
  qed (rule 1, rule 2, rule 3)
  then show ?thesis
    using r'(2,3,5) s
    by (intro exI [of _ "one_attempt ?sub r' [''a'' \<mapsto> Thread_Late] s"] exI [of _ r'])
      (simp add: id dict_get_def own_objects_def)
qed

text \<open>
  When the clean-up itself raises, the record keeps \<open>RUNNING\<close> for good although its future has ended.
\<close>

lemma failed_cleanup_leaves_running:
  assumes "os_faults s (os_calls s) = Some (e', rest)" and "ts_operation (tr_submission r) = OP_UNARY"
    and "st_state (tr_status r) = AS_RUNNING"
  shows "\<exists>r' s'. finish_task we (Inl e) r s = (r', s') \<and> st_state (tr_status r') = AS_RUNNING
    \<and> tr_phase r' = Task_Ended (Some e')"
  using assms by (simp add: finish_task_def fail_attempt_def cleanup_submission_def bindA_def delete_object_def Let_def)

text \<open>
  When the deadline of a sleep passes between the two readings of the clock, the duration is negative,
  \<open>time.sleep\<close> raises, and the attempt fails.
\<close>

lemma late_poll_raises:
  assumes "\<And>i. \<not> os_cancelled s i"
  shows "\<exists>s'. execute_sync (we\<lparr>we_start_polls := (0, True)\<rparr>) sub io secs s = (Inl PyValueError, s')"
  using assms by (simp add: execute_sync_def bindA_def poll_token_def check_token_def)

end
