(* ===== verification/Spec2Isabelle.thy ===== *)
theory Spec2Isabelle
  imports RuleLaws PlanSkeleton Memory OperatorLaws JoinFilter CboLaws SchedulerRuns ShuffleLaws EngineLaws QueryLaws DistributedLaws WorkerLaws
begin

text \<open>
  A distributed SQL engine (\<open>src/src/distributed_sql\<close>).  A query is parsed and bound to a
  logical plan, rewritten by a rule optimizer, reordered by a cost-based optimizer, cut into
  stages at exchanges, and its tasks are run by a scheduler on Workers; a task runs a tree of
  operators over record batches.  The library models that core, one theory per part of the code:

  \<^item> \<open>Prelude\<close>: computations that may raise (\<open>res\<close>), insertion-ordered dictionaries, text.
    \<open>Errors\<close>: \<open>common/exceptions.py\<close> and the built-in exceptions the code raises.
    \<open>Json\<close>, \<open>Protocol\<close>: JSON values and the enumerations and records of
    \<open>common/protocol.py\<close> with their validators; \<open>CatalogModels\<close>: \<open>catalog/models.py\<close>.
  \<^item> \<open>SqlTypes\<close>, \<open>Values\<close>, \<open>Exprs\<close>, \<open>ExprLaws\<close>: types, SQL values and expressions with their
    types, evaluation and text (\<open>planner/types.py\<close>, \<open>planner/expressions.py\<close>).
  \<^item> \<open>Logical\<close>, \<open>ExprUtils\<close>, \<open>Rules\<close>, \<open>Optimizer\<close>, \<open>PlanSkeleton\<close>, \<open>RuleLaws\<close>: plans
    (\<open>planner/logical.py\<close>), the nine rewrite rules and their fixed point (\<open>optimizer/rules.py\<close>,
    \<open>optimizer/utils.py\<close>, \<open>optimizer/optimizer.py\<close>).
  \<^item> \<open>Cost\<close>, \<open>CostLaws\<close>, \<open>Cbo\<close>, \<open>CboLaws\<close>: estimates, join strategies and join reordering
    (\<open>optimizer/cost.py\<close>, \<open>optimizer/cbo.py\<close>).
  \<^item> \<open>Memory\<close>, \<open>RuntimeFilter\<close>, \<open>Streams\<close>, \<open>Context\<close>: memory accounts and spill files
    (\<open>execution/memory.py\<close>), runtime filters (\<open>execution/runtime_filter.py\<close>), generators as
    trees of steps on a shared context with a weakest precondition, and the execution context.
  \<^item> \<open>Sorting\<close>, \<open>ExternalSort\<close>, \<open>Operators\<close>, \<open>Aggregates\<close>, \<open>SortAggregate\<close>, \<open>GroupingOps\<close>,
    \<open>WindowOp\<close>, \<open>Joins\<close>, \<open>JoinLaws\<close>, \<open>MergeJoin\<close>, \<open>HashJoin\<close>, \<open>OperatorLaws\<close>,
    \<open>JoinFilter\<close>: the operators of \<open>execution/operators.py\<close>, their spilling included.
  \<^item> \<open>Engine\<close>, \<open>EngineLaws\<close>: join keys, the operator tree of a plan and its meaning
    (\<open>execution/engine.py\<close>).
  \<^item> \<open>Distributed\<close>, \<open>DistributedLaws\<close>: partial aggregates and their merge, and what the tasks
    of a stage run (\<open>execution/distributed.py\<close>).
  \<^item> \<open>WorkerTasks\<close>, \<open>WorkerLaws\<close>: the task manager of a Worker, the thread of a task and the clean-up
    of an attempt (\<open>worker/tasks.py\<close>).
  \<^item> \<open>Physical\<close>, \<open>PhysicalLaws\<close>: exchanges and stages (\<open>execution/physical.py\<close>).
  \<^item> \<open>Actions\<close>, \<open>Shuffle\<close>, \<open>ShuffleLaws\<close>: the partition files of a stage and their manifests
    (\<open>execution/shuffle.py\<close>) over the object store (\<open>catalog/storage.py\<close>), any request of which
    may fail; a location is its list of path segments.
  \<^item> \<open>Registry\<close>: the Worker registry with its leases (\<open>coordinator/registry.py\<close>).
  \<^item> \<open>Queries\<close>, \<open>QueryLaws\<close>: the run of a query, cut at its awaits, with cancel requests, and the
    paging of its result (\<open>coordinator/queries.py\<close>).
  \<^item> \<open>Scheduler\<close>, \<open>SchedulerLaws\<close>, \<open>SchedulerRuns\<close>: the scheduler and its tasks as interleaved
    coroutines (\<open>execution/scheduler.py\<close>).

  Conventions.  A call that may raise returns \<open>exn + 'a\<close>, every raise of the source being a
  branch.  Python integers are \<open>int\<close>, floats are \<open>pyfloat\<close> with a rational or special value, and
  what depends on binary64 rounding, decimal contexts or the text of a float is a field of
  \<open>py_runtime\<close> or \<open>cost_runtime\<close>; conversions by Arrow are the function \<open>ev_conform\<close> of \<open>env\<close>, and what a
  theorem needs of them is a hypothesis (\<open>round_trips\<close> of \<open>DistributedLaws\<close> for the schema of partial
  rows).  A decimal is a coefficient and an exponent: the decimals \<open>NaN\<close>, infinity and \<open>-0\<close> are not
  represented.  A generator is a tree whose every step may see a context changed by other tasks, so a
  statement about an operator holds under interference.  The threads of a Worker run beside its event loop
  (\<open>worker_step\<close>), and an interrupted wait does not stop them.  Clock readings and drawn identifiers are
  arguments.  Loops are structural or have a termination proof; the rule optimizer's loop is bounded by the
  limit of the source, and its theorem says that a reported fixed point is one.

  What is shown.  Values, types and connectives follow SQL; folding and predicate rules keep
  evaluation; the optimizer keeps the skeleton of a plan; join reordering keeps inputs and
  conjuncts; the exchanges give every operator the distribution it needs; the stage graph is
  acyclic with one task per partition; memory reservations are all or nothing and are given
  back; every operator delivers its relational meaning whatever is spilled; a runtime filter
  rejects no key it was given; what a stage writes its readers get, and damage is refused; the
  scheduler respects dependencies, attempt and slot bounds, ends on every schedule and succeeds on
  undisturbed ones; lost Workers stay fenced; the operator tree of a plan delivers a result of the
  plan; merging partial aggregates is aggregating all rows, the sums of AVG being exact in doubles up to
  \<open>2 ^ 53\<close>; a Worker runs an attempt once, publishes what its operator delivers and leaves nothing of a
  failed attempt whose thread has returned; a query ends in a state that fits its run, and its pages are
  its rows.

  Faults of the code that the proofs met are lemmas beside the theorems they limit, such as
  \<open>interrupted_thread_leaves_table\<close> (\<open>WorkerLaws\<close>), \<open>equal_texts_merge_constants\<close> (\<open>RuleLaws\<close>),
  \<open>merge_of_empty_partition_raises\<close> (\<open>DistributedLaws\<close>) and \<open>reorder_drops_confined_conjuncts\<close> (\<open>CboLaws\<close>).

  Not modelled.  Elapsed times and metrics that only report them; the parser and binder, which
  walk syntax trees of the sqlglot package; the HTTP services and clients, subprocesses and
  asyncio glue, such as the composition of the stages of a plan and a cancellation from outside while
  \<open>run\<close> sleeps; the persistence of the catalog and the readers of data sources (SQLAlchemy,
  PyArrow, Iceberg); the command line, web console and scripts.
\<close>

end
